(* ===== verification/Prelude.thy ===== *)
theory Prelude
  imports Main "HOL-Library.Word" "HOL-Library.Monad_Syntax"
begin

text \<open>
  Shared vocabulary of the development.

  Machine integers keep their width: \<open>u8\<close>, \<open>u16\<close>, \<open>u32\<close> and \<open>u64\<close> stand for
  \<^verbatim>\<open>uint8_t\<close> ... \<^verbatim>\<open>uint64_t\<close>; pointers are \<open>u32\<close>, the kernel being an i386 program.

  A C function that reads or writes global state takes the state and returns the result
  together with the new state, inside \<open>option\<close>.  \<open>None\<close> means that the call has no
  ordinary outcome: it spins forever (a spin lock that nobody will release, a loop whose
  condition never fails), takes a page fault, halts in a panic or indexes an array out of
  its bounds.  Error codes of the source (\<^verbatim>\<open>0\<close>, \<^verbatim>\<open>-1\<close>) stay ordinary values.

  The theory collects the facts on words that every component needs: shifts and masks as
  division and remainder, the splitting of a 32-bit address into page number and offset.
\<close>

unbundle bit_operations_syntax

type_synonym u8 = "8 word"
type_synonym u16 = "16 word"
type_synonym u32 = "32 word"
type_synonym u64 = "64 word"

named_theorems word_nat \<open>word operations as operations on natural numbers\<close>
named_theorems lock_defs \<open>unfolding of the spin lock operations\<close>

abbreviation PAGE_SIZE_BYTES :: u32 where
  "PAGE_SIZE_BYTES \<equiv> 4096"

subsection \<open>Words as natural numbers\<close>

lemma unat_drop_bit [word_nat]: "unat (drop_bit n w) = unat w div 2 ^ n"
  by (subst unat_drop_bit_eq) (simp add: drop_bit_eq_div)

lemma unat_and_mask [word_nat]: "unat (w AND mask n) = unat w mod 2 ^ n"
  by (simp only: unsigned_take_bit_eq take_bit_eq_mod [of n "unat w"] flip: take_bit_eq_mask)

lemma unat_inj: "unat a = unat b \<longleftrightarrow> a = b"
  by (simp add: word_unat_eq_iff)

lemma unat_add_lt:
  fixes a b :: "'a::len word"
  assumes "unat a + unat b < 2 ^ LENGTH('a)"
  shows "unat (a + b) = unat a + unat b"
  using assms by (simp add: unat_word_ariths)

lemma unat_mult_lt:
  fixes a b :: "'a::len word"
  assumes "unat a * unat b < 2 ^ LENGTH('a)"
  shows "unat (a * b) = unat a * unat b"
  using assms by (simp add: unat_word_ariths)

lemma unat_Suc_less:
  fixes i m :: "'a::len word"
  assumes "i < m"
  shows "unat (i + 1) = Suc (unat i)"
proof -
  have "unat i < unat m" using assms by (simp add: word_less_nat_alt)
  moreover have "unat m < 2 ^ LENGTH('a)" by (rule unsigned_less)
  ultimately have "Suc (unat i) < 2 ^ LENGTH('a)" by (rule le_less_trans [OF Suc_leI])
  then have "unat i + unat (1 :: 'a word) < 2 ^ LENGTH('a)" by simp
  then show ?thesis by (simp only: unat_add_lt) simp
qed

lemma unat_u32_less: "unat (a :: u32) < 4294967296"
proof -
  have "unat a < 2 ^ 32" using unsigned_less [of a] by simp
  then show ?thesis by simp
qed

text \<open>A loop \<^verbatim>\<open>for (i = a; i < m; i++)\<close> over unsigned words ends: the distance shrinks.\<close>

lemma word_loop_measure:
  fixes i m :: "'a::len word"
  assumes "i < m"
  shows "unat m - unat (i + 1) < unat m - unat i"
  using assms unat_Suc_less [OF assms] by (simp add: word_less_nat_alt)

lemma word_succ_le:
  fixes i m :: "'a::len word"
  assumes "i < m"
  shows "i + 1 \<le> m"
  using assms unat_Suc_less [OF assms] by (simp add: word_less_nat_alt word_le_nat_alt)

lemma word_pred_less:
  fixes i :: "'a::len word"
  assumes "i \<noteq> 0"
  shows "i - 1 < i"
proof -
  have "0 < unat i" using assms by (simp add: unat_gt_0)
  moreover from this have "unat (i - 1) = unat i - 1" by (simp add: unat_sub word_le_nat_alt)
  ultimately show ?thesis by (simp add: word_less_nat_alt)
qed

lemma unat_of_nat_lt:
  assumes "n < 2 ^ LENGTH('a)"
  shows "unat (of_nat n :: 'a::len word) = n"
  using assms by (simp add: unat_of_nat take_bit_eq_mod)

lemma unat_ucast_up:
  assumes "LENGTH('a) \<le> LENGTH('b)"
  shows "unat (ucast (x :: 'a::len word) :: 'b::len word) = unat x"
proof -
  have "unat x < 2 ^ LENGTH('b)"
    using unsigned_less [of x] assms by (meson order.strict_trans2 power_increasing one_le_numeral)
  then show ?thesis by (simp add: unsigned_ucast_eq take_bit_nat_eq_self)
qed

lemma unat_ucast_fits:
  assumes "unat (x :: 'a::len word) < 2 ^ LENGTH('b)"
  shows "unat (ucast x :: 'b::len word) = unat x"
  using assms by (simp add: unsigned_ucast_eq take_bit_nat_eq_self)

lemma u32_numeral_cmp_1 [simp]:
  "(numeral w :: u32) \<le> 1 \<longleftrightarrow> unat (numeral w :: u32) \<le> 1"
  "(numeral w :: u32) < 1 \<longleftrightarrow> unat (numeral w :: u32) < 1"
  by (simp_all add: word_le_nat_alt word_less_nat_alt)

subsection \<open>Single bits\<close>

text \<open>The simplifier turns \<^verbatim>\<open>1 << j\<close> into \<open>2 ^ j\<close>, so the facts are stated for that form.\<close>

lemma and_exp_eq_0_iff:
  fixes w :: "'a::len word"
  assumes "j < LENGTH('a)"
  shows "w AND 2 ^ j = 0 \<longleftrightarrow> \<not> bit w j"
proof
  assume "w AND 2 ^ j = 0"
  then have "\<not> bit (w AND 2 ^ j) j" by simp
  with assms show "\<not> bit w j" by (simp add: bit_simps)
next
  assume "\<not> bit w j"
  then show "w AND 2 ^ j = 0"
    by (auto intro!: bit_word_eqI simp: bit_simps)
qed

lemma bit_or_exp:
  fixes w :: "'a::len word"
  assumes "k < LENGTH('a)"
  shows "bit (w OR 2 ^ j) k \<longleftrightarrow> bit w k \<or> k = j"
  using assms by (auto simp: bit_simps)

lemma bit_clear_exp:
  fixes w :: "'a::len word"
  assumes "k < LENGTH('a)"
  shows "bit (w AND NOT (2 ^ j)) k \<longleftrightarrow> bit w k \<and> k \<noteq> j"
  using assms by (auto simp: bit_simps)

lemma set_clear_exp:
  fixes w :: "'a::len word"
  assumes "\<not> bit w j"
  shows "(w OR 2 ^ j) AND NOT (2 ^ j) = w"
  using assms by (auto intro!: bit_word_eqI simp: bit_simps)

subsection \<open>Page numbers and offsets\<close>

text \<open>\<open>page_base a\<close> is the expression \<^verbatim>\<open>a & ~0xfff\<close>, the start of the page of \<open>a\<close>.\<close>

definition page_base :: "u32 \<Rightarrow> u32" where
  "page_base a = a AND 0xfffff000"

definition page_aligned :: "u32 \<Rightarrow> bool" where
  "page_aligned a \<longleftrightarrow> a AND 0xfff = 0"

lemma u32_masks:
  "(0xfff :: u32) = mask 12" "(0x3ff :: u32) = mask 10" "(7 :: u32) = mask 3"
  by (simp_all add: mask_eq_exp_minus_1)

lemma unat_and_fff [word_nat]: "unat (a AND 0xfff :: u32) = unat a mod 4096"
  and unat_and_3ff [word_nat]: "unat (a AND 0x3ff :: u32) = unat a mod 1024"
  and unat_and_7 [word_nat]: "unat (a AND 7 :: u32) = unat a mod 8"
  by (simp_all only: u32_masks unat_and_mask) simp_all

lemma page_base_plus: "page_base a + (a AND 0xfff) = a"
proof -
  have base: "(0xfffff000 :: u32) = NOT (mask 12)" by (simp add: mask_eq_exp_minus_1)
  have "(a AND NOT (mask 12)) + (a AND mask 12) = (a AND NOT (mask 12)) OR (a AND mask 12)"
    by (rule disjunctive_add) (auto simp: bit_simps)
  also have "\<dots> = a" by (auto intro!: bit_word_eqI simp: bit_simps)
  finally show ?thesis unfolding page_base_def base u32_masks .
qed

lemma page_aligned_nat: "page_aligned a \<longleftrightarrow> unat a mod 4096 = 0"
  by (metis page_aligned_def unat_0_iff unat_and_fff)

lemma unat_page_base [word_nat]: "unat (page_base a) = unat a - unat a mod 4096"
proof -
  have "unat (page_base a + (a AND 0xfff)) = unat a" by (simp add: page_base_plus)
  moreover have "(a AND 0xfff) \<le> a" by (rule word_and_le2)
  moreover have "page_base a = a - (a AND 0xfff)"
    using page_base_plus [of a] by (simp add: eq_diff_eq)
  ultimately show ?thesis by (simp add: unat_sub unat_and_fff)
qed

lemma page_base_aligned [simp]: "page_aligned (page_base a)"
  by (simp add: page_aligned_nat unat_page_base)

lemma page_base_id: "page_aligned a \<Longrightarrow> page_base a = a"
  by (simp add: page_aligned_nat unat_page_base word_unat_eq_iff)

lemma page_base_idem [simp]: "page_base (page_base a) = page_base a"
  by (simp add: page_base_id)

lemma page_base_eq_iff: "page_base a = page_base b \<longleftrightarrow> drop_bit 12 a = drop_bit 12 b"
proof -
  have "unat a - unat a mod 4096 = unat b - unat b mod 4096 \<longleftrightarrow>
      unat a div 4096 = unat b div 4096"
    by (metis minus_mod_eq_div_mult mult_cancel2 zero_neq_numeral)
  then show ?thesis by (simp add: word_unat_eq_iff unat_page_base unat_drop_bit)
qed

lemma page_base_or:
  assumes "page_aligned p" "f < 0x1000"
  shows "page_base (p OR f) = p" "(p OR f) AND 0xfff = f"
proof -
  have f: "f AND mask 12 = f"
    using assms(2) by (simp add: word_unat_eq_iff unat_and_mask word_less_nat_alt)
  have p: "p AND mask 12 = 0"
    using assms(1) by (simp add: page_aligned_def u32_masks)
  show *: "(p OR f) AND 0xfff = f"
    by (simp add: bit.conj_disj_distrib2 f p u32_masks)
  have "(p OR f) - ((p OR f) AND 0xfff) = p"
  proof -
    have "p + f = p OR f"
    proof (rule disjunctive_add_eq_or)
      have "p AND f = p AND (mask 12 AND f)" using f by (simp only: and.commute)
      also have "\<dots> = 0" using p by (simp only: and.assoc [symmetric]) simp
      finally show "p AND f = 0" .
    qed
    then show ?thesis by (metis * add_diff_cancel_right')
  qed
  then show "page_base (p OR f) = p"
    by (metis page_base_plus add_diff_cancel_right')
qed

lemma page_base_flags:
  assumes "f < 0x1000"
  shows "page_base (a OR f) = page_base a"
proof -
  have "unat (page_base f) = 0" using assms by (simp add: unat_page_base word_less_nat_alt)
  then have "page_base f = 0" by (simp add: unat_eq_0)
  then show ?thesis by (simp add: page_base_def bit.conj_disj_distrib2)
qed

lemma or_keeps_bit0: "a AND 1 \<noteq> (0 :: u32) \<Longrightarrow> (a OR f) AND 1 \<noteq> 0 \<and> a OR f \<noteq> 0"
  using and_exp_eq_0_iff [of 0 a] and_exp_eq_0_iff [of 0 "a OR f"]
  by (auto simp: bit_simps)

subsection \<open>Concatenating bit fields\<close>

lemma push_bit_or_of_nat:
  fixes i :: "'a::len word"
  assumes "j < 2 ^ n"
  shows "push_bit n i OR of_nat j = push_bit n i + of_nat j"
proof (rule disjunctive_add [symmetric])
  fix m
  show "\<not> bit (push_bit n i) m \<or> \<not> bit (of_nat j :: 'a word) m"
  proof (cases "n \<le> m")
    case True
    have "j < 2 ^ m" by (rule order.strict_trans2 [OF assms power_increasing]) (use True in auto)
    then have "\<not> bit j m" by (simp add: bit_iff_odd)
    then show ?thesis by (simp add: bit_simps)
  next
    case False
    then show ?thesis by (simp add: bit_simps)
  qed
qed

subsection \<open>Loops whose body may fail\<close>

text \<open>\<^verbatim>\<open>for\<close> loops over a list of indices whose body updates the state and may have no outcome.\<close>

primrec fold_opt :: "('i \<Rightarrow> 's \<Rightarrow> 's option) \<Rightarrow> 'i list \<Rightarrow> 's \<Rightarrow> 's option" where
  "fold_opt f [] s = Some s"
| "fold_opt f (x # xs) s = Option.bind (f x s) (fold_opt f xs)"

lemma fold_opt_append: "fold_opt f (xs @ ys) s = Option.bind (fold_opt f xs s) (fold_opt f ys)"
  by (induction xs arbitrary: s) (simp_all split: Option.bind_split)

lemma fold_opt_invariant:
  assumes "P 0 s"
    and "\<And>i s. i < n \<Longrightarrow> P i s \<Longrightarrow> \<exists>s'. f i s = Some s' \<and> P (Suc i) s'"
  shows "\<exists>s'. fold_opt f [0..<n] s = Some s' \<and> P n s'"
  using assms(2)
proof (induction n)
  case 0
  with assms(1) show ?case by simp
next
  case (Suc n)
  then obtain t where "fold_opt f [0..<n] s = Some t" "P n t" by (metis less_Suc_eq)
  with Suc.prems [of n t] show ?case by (auto simp: fold_opt_append)
qed

lemma fold_opt_preserves:
  assumes "fold_opt f xs s = Some s'" "P s"
    and "\<And>x s s'. x \<in> set xs \<Longrightarrow> P s \<Longrightarrow> f x s = Some s' \<Longrightarrow> P s'"
  shows "P s'"
  using assms
proof (induction xs arbitrary: s)
  case (Cons x xs)
  then obtain t where "f x s = Some t" "fold_opt f xs t = Some s'" by (auto split: bind_splits)
  with Cons show ?case by (metis list.set_intros)
qed simp

lemma fold_opt_total:
  assumes "P s" and "\<And>x s. x \<in> set xs \<Longrightarrow> P s \<Longrightarrow> \<exists>s'. f x s = Some s' \<and> P s'"
  shows "\<exists>s'. fold_opt f xs s = Some s' \<and> P s'"
  using assms
proof (induction xs arbitrary: s)
  case (Cons x xs)
  then obtain t where "f x s = Some t" "P t" by (metis list.set_intros(1))
  moreover from this Cons have "\<exists>s'. fold_opt f xs t = Some s' \<and> P s'" by simp
  ultimately show ?case by auto
qed simp

end
