(* ===== verification/Spinlock.thy ===== *)
theory Spinlock
  imports Prelude
begin

text \<open>
  Spin locks (\<^verbatim>\<open>src/kernel/shared/spinlock.h\<close>).

  The lock is one atomic flag.  The sequential model is what a single caller sees: acquiring
  a held lock spins forever, because nobody else runs in the model to release it.  The
  interleaving model has any number of threads that spin on the flag with one atomic
  test-and-set per step, and shows mutual exclusion for every interleaving.
\<close>

record spinlock_t =
  lock :: bool

definition atomic_flag_test_and_set :: "spinlock_t \<Rightarrow> bool \<times> spinlock_t" where
  "atomic_flag_test_and_set l = (lock l, l\<lparr>lock := True\<rparr>)"

definition spinlock_init :: "spinlock_t \<Rightarrow> spinlock_t" where
  "spinlock_init l = l\<lparr>lock := False\<rparr>"

partial_function (option) spinlock_acquire :: "spinlock_t \<Rightarrow> spinlock_t option" where
  "spinlock_acquire l =
     (let (old, l') = atomic_flag_test_and_set l
      in if old then spinlock_acquire l' else Some l')"

definition spinlock_release :: "spinlock_t \<Rightarrow> spinlock_t" where
  "spinlock_release l = l\<lparr>lock := False\<rparr>"

lemma spinlock_acquire_returns:
  assumes "spinlock_acquire l = Some r"
  shows "\<not> lock l \<and> lock r"
  by (rule spinlock_acquire.raw_induct [where P = "\<lambda>l r. \<not> lock l \<and> lock r", OF _ assms])
    (fastforce simp: atomic_flag_test_and_set_def split: if_splits)

lemma spinlock_acquire_eq [lock_defs]:
  "spinlock_acquire l = (if lock l then None else Some \<lparr>lock = True\<rparr>)"
proof (cases "lock l")
  case True
  then have "spinlock_acquire l \<noteq> Some r" for r
    using spinlock_acquire_returns by blast
  with True show ?thesis by (cases "spinlock_acquire l") auto
next
  case False
  then show ?thesis
    by (subst spinlock_acquire.simps) (simp add: atomic_flag_test_and_set_def)
qed

lemma spinlock_release_eq [lock_defs]: "spinlock_release l = \<lparr>lock = False\<rparr>"
  by (simp add: spinlock_release_def)

lemma spinlock_init_eq [lock_defs]: "spinlock_init l = \<lparr>lock = False\<rparr>"
  by (simp add: spinlock_init_def)

subsection \<open>The contract of a lock\<close>

locale lock_contract =
  fixes acquire :: "'l \<Rightarrow> 'l option"
    and release :: "'l \<Rightarrow> 'l"
    and held :: "'l \<Rightarrow> bool"
  assumes acquire_free: "\<not> held l \<Longrightarrow> \<exists>l'. acquire l = Some l' \<and> held l'"
    and acquire_held: "held l \<Longrightarrow> acquire l = None"
    and release_frees: "\<not> held (release l)"
begin

lemma reacquire_after_release: "\<exists>l'. acquire (release l) = Some l' \<and> held l'"
  using acquire_free release_frees by blast

lemma nested_acquire_stuck: "acquire l = Some l' \<Longrightarrow> acquire l' = None"
  using acquire_free acquire_held by (metis option.inject option.simps(3))

end

interpretation spin: lock_contract spinlock_acquire spinlock_release lock
  by unfold_locales (auto simp: lock_defs)

subsection \<open>Threads spinning on one lock\<close>

datatype pc = Outside | Spinning | Critical

record lock_sys =
  flag :: spinlock_t
  pcs :: "nat \<Rightarrow> pc"

definition lock_sys_init :: lock_sys where
  "lock_sys_init = \<lparr>flag = spinlock_init \<lparr>lock = True\<rparr>, pcs = (\<lambda>_. Outside)\<rparr>"

text \<open>
  One step of one thread: it starts an acquire, it runs one test-and-set of the loop of
  \<^verbatim>\<open>spinlock_acquire\<close> (and stays in the loop when the old value was set), or it leaves its
  critical section by \<^verbatim>\<open>spinlock_release\<close>.
\<close>

inductive lock_step :: "lock_sys \<Rightarrow> lock_sys \<Rightarrow> bool" where
  enter: "pcs s i = Outside \<Longrightarrow> lock_step s (s\<lparr>pcs := (pcs s)(i := Spinning)\<rparr>)"
| tas: "pcs s i = Spinning \<Longrightarrow> atomic_flag_test_and_set (flag s) = (old, l) \<Longrightarrow>
     lock_step s (s\<lparr>flag := l, pcs := (pcs s)(i := (if old then Spinning else Critical))\<rparr>)"
| leave: "pcs s i = Critical \<Longrightarrow>
     lock_step s (s\<lparr>flag := spinlock_release (flag s), pcs := (pcs s)(i := Outside)\<rparr>)"

inductive lock_reachable :: "lock_sys \<Rightarrow> bool" where
  start: "lock_reachable lock_sys_init"
| step: "lock_reachable s \<Longrightarrow> lock_step s t \<Longrightarrow> lock_reachable t"

definition lock_inv :: "lock_sys \<Rightarrow> bool" where
  "lock_inv s \<longleftrightarrow>
     (\<forall>i. pcs s i = Critical \<longrightarrow> lock (flag s)) \<and>
     (\<forall>i j. pcs s i = Critical \<longrightarrow> pcs s j = Critical \<longrightarrow> i = j) \<and>
     (lock (flag s) \<longrightarrow> (\<exists>i. pcs s i = Critical))"

lemma lock_inv_init: "lock_inv lock_sys_init"
  by (simp add: lock_inv_def lock_sys_init_def lock_defs)

lemma lock_step_inv:
  assumes "lock_step s t" "lock_inv s"
  shows "lock_inv t"
  using assms(1)
proof cases
  case (enter i)
  then have "pcs t j = Critical \<longleftrightarrow> pcs s j = Critical" for j by simp
  moreover have "flag t = flag s" using enter by simp
  ultimately show ?thesis using assms(2) by (simp add: lock_inv_def)
next
  case (tas i old l)
  show ?thesis
  proof (cases "lock (flag s)")
    case True
    with tas have "pcs t j = Critical \<longleftrightarrow> pcs s j = Critical" for j
      by (simp add: atomic_flag_test_and_set_def)
    moreover have "lock (flag t)" using tas by (auto simp: atomic_flag_test_and_set_def)
    ultimately show ?thesis using assms(2) True by (simp add: lock_inv_def)
  next
    case False
    with assms(2) have "pcs s j \<noteq> Critical" for j by (auto simp: lock_inv_def)
    with tas False have "pcs t j = Critical \<longleftrightarrow> j = i" for j
      by (simp add: atomic_flag_test_and_set_def)
    moreover have "lock (flag t)" using tas by (auto simp: atomic_flag_test_and_set_def)
    ultimately show ?thesis by (simp add: lock_inv_def)
  qed
next
  case (leave i)
  with assms(2) show ?thesis by (auto simp: lock_inv_def lock_defs)
qed

lemma lock_reachable_inv: "lock_reachable s \<Longrightarrow> lock_inv s"
  by (induction rule: lock_reachable.induct) (auto intro: lock_inv_init lock_step_inv)

text \<open>
  C4. Mutual exclusion of the spin lock: in every reachable interleaving of any number of
  threads at most one thread is inside the section between \<^verbatim>\<open>spinlock_acquire\<close> and
  \<^verbatim>\<open>spinlock_release\<close>, and the flag is set exactly while some thread is inside.
\<close>

theorem spinlock_mutual_exclusion:
  assumes "lock_reachable s"
  shows "(\<forall>i j. pcs s i = Critical \<and> pcs s j = Critical \<longrightarrow> i = j) \<and>
     (lock (flag s) \<longleftrightarrow> (\<exists>i. pcs s i = Critical))"
  using lock_reachable_inv [OF assms] by (auto simp: lock_inv_def)

lemma lock_reachable_one_inside:
  "lock_reachable \<lparr>flag = \<lparr>lock = True\<rparr>,
     pcs = ((\<lambda>_. Outside)(3 := Spinning))(3 := Critical)\<rparr>"
proof -
  have s1: "lock_reachable (lock_sys_init\<lparr>pcs := (pcs lock_sys_init)(3 := Spinning)\<rparr>)"
    by (rule lock_reachable.step [OF lock_reachable.start lock_step.enter])
      (simp add: lock_sys_init_def)
  show ?thesis
    using lock_reachable.step [OF s1 lock_step.tas [where i = 3 and old = False]]
    by (simp add: lock_sys_init_def lock_defs atomic_flag_test_and_set_def)
qed

theorem spinlock_mutual_exclusion_witness:
  "let s = \<lparr>flag = \<lparr>lock = True\<rparr>, pcs = ((\<lambda>_. Outside)(3 := Spinning))(3 := Critical)\<rparr>
   in (\<forall>i j. pcs s i = Critical \<and> pcs s j = Critical \<longrightarrow> i = j) \<and>
      (lock (flag s) \<longleftrightarrow> (\<exists>i. pcs s i = Critical))"
  unfolding Let_def by (rule spinlock_mutual_exclusion [OF lock_reachable_one_inside])

end
