(* ===== verification/Phys.thy ===== *)
theory Phys
  imports Spinlock
begin

text \<open>
  The physical page frame allocator (\<^verbatim>\<open>src/kernel/arch_i386/memory.c\<close>, the \<^verbatim>\<open>pm_\<close>
  functions).

  \<^verbatim>\<open>pm_map\<close> has one bit per 4 KiB frame of the 32-bit physical address space, set when the
  frame is in use.  \<^verbatim>\<open>pm_first_free\<close> is a hint: the byte of the map at which a search
  starts.  The state record carries the C globals; the later components extend it with
  theirs, so every operation here works on any extension of it.

  The lemmas relate the bitmap to the set of frames in use: an allocation returns a frame
  that was free and adds exactly that frame, a free removes exactly one frame, the search
  from the hint misses nothing at or above it, and the aligned allocator returns sixteen
  consecutive free frames.  The contract \<open>frame_allocator\<close> states what the paging code
  relies on, and is interpreted on the operations of this theory.
\<close>

abbreviation mmap_count :: u32 where
  "mmap_count \<equiv> 0x20000"

record pm_state =
  pm_map :: "u32 \<Rightarrow> u8"
  pm_first_free :: u32
  total_memory_unusable :: u32
  memory_limit :: u32
  pm_lock :: spinlock_t

subsection \<open>Operations\<close>

text \<open>The loop over the eight bits of one byte of the map: the first clear bit.\<close>

definition pm_clear_bit :: "u8 \<Rightarrow> nat option" where
  "pm_clear_bit b = find (\<lambda>j. b AND push_bit j 1 = 0) [0..<8]"

function pm_alloc_scan :: "(u32 \<Rightarrow> u8) \<Rightarrow> u32 \<Rightarrow> (u32 \<times> nat) option" where
  "pm_alloc_scan m i =
     (if i < mmap_count
      then (case pm_clear_bit (m i) of
              Some j \<Rightarrow> Some (i, j)
            | None \<Rightarrow> pm_alloc_scan m (i + 1))
      else None)"
  by pat_completeness auto
termination
  by (relation "measure (\<lambda>(m, i). unat mmap_count - unat i)")
    (simp, simp only: in_measure prod.case, rule word_loop_measure, simp)

declare pm_alloc_scan.simps [simp del]

definition pm_alloc :: "'a pm_state_scheme \<Rightarrow> (u32 \<times> 'a pm_state_scheme) option" where
  "pm_alloc s = do {
     l \<leftarrow> spinlock_acquire (pm_lock s);
     let s = s\<lparr>pm_lock := l\<rparr>;
     case pm_alloc_scan (pm_map s) (pm_first_free s) of
       Some (i, j) \<Rightarrow>
         let s = s\<lparr>pm_map := (pm_map s)(i := pm_map s i OR push_bit j 1)\<rparr>;
             s = (if i > pm_first_free s then s\<lparr>pm_first_free := i\<rparr> else s);
             s = s\<lparr>pm_lock := spinlock_release (pm_lock s)\<rparr>
         in Some (push_bit 12 (push_bit 3 i OR of_nat j), s)
     | None \<Rightarrow> Some (0, s\<lparr>pm_lock := spinlock_release (pm_lock s)\<rparr>)
   }"

definition pm_fill_byte :: "u8 \<Rightarrow> u8" where
  "pm_fill_byte b = fold (\<lambda>j b. b OR push_bit j 1) [0..<8] b"

definition pm_alloc_index ::
    "u32 \<Rightarrow> 'a pm_state_scheme \<Rightarrow> (u32 \<times> 'a pm_state_scheme) option" where
  "pm_alloc_index index s = do {
     l \<leftarrow> spinlock_acquire (pm_lock s);
     let s = s\<lparr>pm_lock := l\<rparr>;
     if index < mmap_count \<and> index + 1 < mmap_count
     then let m = pm_map s;
              m = m(index := pm_fill_byte (m index));
              m = m(index + 1 := pm_fill_byte (m (index + 1)));
              s = s\<lparr>pm_map := m\<rparr>;
              s = s\<lparr>pm_lock := spinlock_release (pm_lock s)\<rparr>
          in Some (push_bit 12 (push_bit 3 index), s)
     else None
   }"

text \<open>
  The search of \<^verbatim>\<open>pm_alloc_64kaligned\<close>: \<open>cont\<close> counts consecutive free bytes of the map
  (\<^verbatim>\<open>-1\<close> right after a byte in use, then incremented to 0), \<open>current\<close> is the previous index.
\<close>

function pm_64k_scan :: "(u32 \<Rightarrow> u8) \<Rightarrow> u32 \<Rightarrow> u32 \<Rightarrow> u32 \<Rightarrow> u32 option" where
  "pm_64k_scan m i cont current =
     (if i < mmap_count
      then if i AND 1 \<noteq> 0 \<and> cont < 1
           then pm_64k_scan m (i + 1) cont current
           else let cont = (if list_ex (\<lambda>j. m i AND push_bit j 1 \<noteq> 0) [0..<8] then -1 else cont)
                in if cont = 1 then Some current
                   else pm_64k_scan m (i + 1) (cont + 1) i
      else None)"
  by pat_completeness auto
termination
  by (relation "measure (\<lambda>(m, i, _). unat mmap_count - unat i)")
    (simp, (simp only: in_measure prod.case, rule word_loop_measure, simp)+)

declare pm_64k_scan.simps [simp del]

definition pm_alloc_64kaligned ::
    "'a pm_state_scheme \<Rightarrow> (u32 \<times> 'a pm_state_scheme) option" where
  "pm_alloc_64kaligned s = do {
     l \<leftarrow> spinlock_acquire (pm_lock s);
     let s = s\<lparr>pm_lock := l\<rparr>;
     case pm_64k_scan (pm_map s) 0 0 0 of
       Some current \<Rightarrow>
         pm_alloc_index current (s\<lparr>pm_lock := spinlock_release (pm_lock s)\<rparr>)
     | None \<Rightarrow> Some (0, s\<lparr>pm_lock := spinlock_release (pm_lock s)\<rparr>)
   }"

definition pm_free :: "u32 \<Rightarrow> 'a pm_state_scheme \<Rightarrow> 'a pm_state_scheme option" where
  "pm_free address s = do {
     l \<leftarrow> spinlock_acquire (pm_lock s);
     let s = s\<lparr>pm_lock := l\<rparr>;
     let i = drop_bit 15 address;
     let s = s\<lparr>pm_map := (pm_map s)(i :=
               pm_map s i AND NOT (push_bit (unat (drop_bit 12 address AND 7)) 1))\<rparr>;
     let s = (if i < pm_first_free s then s\<lparr>pm_first_free := i\<rparr> else s);
     Some (s\<lparr>pm_lock := spinlock_release (pm_lock s)\<rparr>)
   }"

definition pm_reserve :: "u32 \<Rightarrow> 'a pm_state_scheme \<Rightarrow> 'a pm_state_scheme option" where
  "pm_reserve address s = do {
     l \<leftarrow> spinlock_acquire (pm_lock s);
     let s = s\<lparr>pm_lock := l\<rparr>;
     let i = drop_bit 15 address;
     let s = s\<lparr>pm_map := (pm_map s)(i :=
               pm_map s i OR push_bit (unat (drop_bit 12 address AND 7)) 1)\<rparr>;
     let s = s\<lparr>pm_first_free := i\<rparr>;
     Some (s\<lparr>pm_lock := spinlock_release (pm_lock s)\<rparr>)
   }"

definition get_used_memory :: "'a pm_state_scheme \<Rightarrow> u32" where
  "get_used_memory s =
     fold (\<lambda>i count.
         fold (\<lambda>j count. if pm_map s (of_nat i) AND push_bit j 1 \<noteq> 0 then count + 1 else count)
           [0..<8] count)
       [0..<unat (memory_limit s div PAGE_SIZE_BYTES div 8)] 0"

definition checksum_pm_map :: "'a pm_state_scheme \<Rightarrow> u32" where
  "checksum_pm_map s =
     fold (\<lambda>i sum. (sum * 33) XOR ucast (pm_map s (of_nat i))) [0..<unat mmap_count] 0"

subsection \<open>Frames in use\<close>

definition pm_used :: "(u32 \<Rightarrow> u8) \<Rightarrow> u32 \<Rightarrow> bool" where
  "pm_used m a \<longleftrightarrow> bit (m (drop_bit 15 a)) (unat (drop_bit 12 a AND 7))"

definition used_frames :: "'a pm_state_scheme \<Rightarrow> u32 set" where
  "used_frames s = {a. page_aligned a \<and> pm_used (pm_map s) a}"

definition pm_ready :: "'a pm_state_scheme \<Rightarrow> bool" where
  "pm_ready s \<longleftrightarrow> \<not> lock (pm_lock s)"

lemma frame_bit_lt_8: "unat (drop_bit 12 a AND (7 :: u32)) < 8"
  by (simp add: word_nat)

lemma same_frame_iff:
  fixes a b :: u32
  shows "drop_bit 15 a = drop_bit 15 b \<and> unat (drop_bit 12 a AND 7) = unat (drop_bit 12 b AND 7)
     \<longleftrightarrow> page_base a = page_base b"
proof -
  have d: "(n :: nat) div 32768 = n div 4096 div 8" for n by (simp add: div_mult2_eq [symmetric])
  have "(x :: nat) div 8 = y div 8 \<and> x mod 8 = y mod 8 \<longleftrightarrow> x = y" for x y
    by (metis div_mult_mod_eq)
  then show ?thesis
    by (subst page_base_eq_iff)
      (simp add: word_unat_eq_iff [where 'a = 32] unat_drop_bit unat_and_7 d)
qed

lemma pm_used_page_base: "page_base a = page_base b \<Longrightarrow> pm_used m a = pm_used m b"
  using same_frame_iff [of a b] by (simp add: pm_used_def)

lemma pm_used_set:
  "pm_used (m(drop_bit 15 a := m (drop_bit 15 a) OR push_bit (unat (drop_bit 12 a AND 7)) 1)) b
     \<longleftrightarrow> pm_used m b \<or> page_base b = page_base a"
  using same_frame_iff [of b a] frame_bit_lt_8 [of b]
  by (auto simp: pm_used_def bit_or_exp)

lemma pm_used_clear:
  "pm_used (m(drop_bit 15 a :=
       m (drop_bit 15 a) AND NOT (push_bit (unat (drop_bit 12 a AND 7)) 1))) b
     \<longleftrightarrow> pm_used m b \<and> page_base b \<noteq> page_base a"
  using same_frame_iff [of b a] frame_bit_lt_8 [of b]
  by (auto simp: pm_used_def bit_clear_exp)

subsection \<open>The search\<close>

lemma pm_clear_bit_Some:
  assumes "pm_clear_bit b = Some j"
  shows "j < 8" "\<not> bit b j" "k < j \<Longrightarrow> bit b k"
  using assms
  by (auto simp: pm_clear_bit_def find_Some_iff and_exp_eq_0_iff)

lemma pm_clear_bit_None:
  assumes "pm_clear_bit b = None" "k < 8"
  shows "bit b k"
  using assms
  by (auto simp: pm_clear_bit_def find_None_iff and_exp_eq_0_iff)

lemma pm_alloc_scan_Some:
  assumes "pm_alloc_scan m i = Some (i', j)"
  shows "i \<le> i' \<and> i' < mmap_count \<and> j < 8 \<and> \<not> bit (m i') j
     \<and> (\<forall>k n. i \<le> k \<and> k < i' \<and> n < 8 \<longrightarrow> bit (m k) n) \<and> (\<forall>n < j. bit (m i') n)"
  using assms
proof (induction m i rule: pm_alloc_scan.induct)
  case (1 m i)
  show ?case
  proof (cases "i < mmap_count")
    case False
    with "1.prems" show ?thesis by (simp add: pm_alloc_scan.simps [of m i])
  next
    case True
    show ?thesis
    proof (cases "pm_clear_bit (m i)")
      case (Some n)
      with True "1.prems" have "i' = i" "j = n" by (simp_all add: pm_alloc_scan.simps [of m i])
      with True Some show ?thesis using pm_clear_bit_Some [OF Some] by auto
    next
      case None
      with True "1.prems" have "pm_alloc_scan m (i + 1) = Some (i', j)"
        by (simp add: pm_alloc_scan.simps [of m i])
      note IH = "1.IH" [OF True None this]
      have up: "i + 1 \<le> k" if "i \<le> k" "k \<noteq> i" for k :: u32
        using that word_succ_le by (metis le_neq_trans)
      have "i \<le> i'" using IH True unat_Suc_less [OF True]
        by (simp add: word_le_nat_alt)
      moreover have "bit (m k) n" if "i \<le> k" "k < i'" "n < 8" for k n
        using that IH up [of k] pm_clear_bit_None [OF None that(3)] by (cases "k = i") auto
      ultimately show ?thesis using IH by auto
    qed
  qed
qed

lemma pm_alloc_scan_None:
  assumes "pm_alloc_scan m i = None" "i \<le> k" "k < mmap_count" "n < 8"
  shows "bit (m k) n"
  using assms
proof (induction m i rule: pm_alloc_scan.induct)
  case (1 m i)
  from "1.prems" have lt: "i < mmap_count" by (simp add: word_le_nat_alt word_less_nat_alt)
  with "1.prems" have None: "pm_clear_bit (m i) = None" and rest: "pm_alloc_scan m (i + 1) = None"
    by (auto simp: pm_alloc_scan.simps [of m i] split: option.splits)
  show ?case
  proof (cases "k = i")
    case True
    with None "1.prems" show ?thesis by (auto intro: pm_clear_bit_None)
  next
    case False
    with "1.prems" have "i + 1 \<le> k" using word_succ_le by (metis le_neq_trans)
    with "1.IH" [OF lt None rest] "1.prems" show ?thesis by blast
  qed
qed

text \<open>The address computed from a byte index and a bit number.\<close>

lemma frame_address:
  assumes "i < mmap_count" "j < 8"
  defines "r \<equiv> push_bit 12 (push_bit 3 i OR of_nat j) :: u32"
  shows "drop_bit 15 r = i" "unat (drop_bit 12 r AND 7) = j" "page_aligned r"
proof -
  have i: "unat i < 0x20000" using assms(1) by (simp add: word_less_nat_alt)
  have j: "unat (of_nat j :: u32) = j" using assms(2) by (simp add: unat_of_nat_lt)
  have e: "push_bit 3 i OR of_nat j = i * 8 + of_nat j"
    using assms(2) push_bit_or_of_nat [of j 3 i] by (simp add: push_bit_eq_mult)
  have "unat (i * 8) = unat i * 8" using i by (subst unat_mult_lt) auto
  then have "unat (i * 8 + of_nat j) = unat i * 8 + j"
    using i j assms(2) by (subst unat_add_lt) auto
  then have r: "unat r = (unat i * 8 + j) * 4096"
    unfolding r_def unfolding e unfolding push_bit_eq_mult using i assms(2) by (subst unat_mult_lt) auto
  show "drop_bit 15 r = i"
    using r assms(2) by (simp add: word_unat_eq_iff word_nat)
  show "unat (drop_bit 12 r AND 7) = j"
    using r assms(2) by (simp add: word_nat)
  show "page_aligned r" using r by (simp add: page_aligned_nat)
qed

lemma pm_used_frame_address:
  assumes "i < mmap_count" "j < 8"
  shows "pm_used m (push_bit 12 (push_bit 3 i OR of_nat j)) \<longleftrightarrow> bit (m i) j"
  using frame_address [OF assms] by (simp add: pm_used_def)

lemma drop_15_lt: "drop_bit 15 (a :: u32) < mmap_count"
  using unat_u32_less [of a] by (simp add: word_less_nat_alt unat_drop_bit less_mult_imp_div_less)

subsection \<open>Allocation and release of one frame\<close>

text \<open>\<open>pm_mark\<close> and \<open>pm_unmark\<close> name the two updates of the map that the operations make.\<close>

definition pm_mark :: "u32 \<Rightarrow> (u32 \<Rightarrow> u8) \<Rightarrow> u32 \<Rightarrow> u8" where
  "pm_mark a m = m(drop_bit 15 a := m (drop_bit 15 a) OR 2 ^ unat (drop_bit 12 a AND 7))"

definition pm_unmark :: "u32 \<Rightarrow> (u32 \<Rightarrow> u8) \<Rightarrow> u32 \<Rightarrow> u8" where
  "pm_unmark a m = m(drop_bit 15 a := m (drop_bit 15 a) AND NOT (2 ^ unat (drop_bit 12 a AND 7)))"

lemma pm_used_mark: "pm_used (pm_mark a m) b \<longleftrightarrow> pm_used m b \<or> page_base b = page_base a"
  using pm_used_set [of m a b] by (simp add: pm_mark_def)

lemma pm_used_unmark: "pm_used (pm_unmark a m) b \<longleftrightarrow> pm_used m b \<and> page_base b \<noteq> page_base a"
  using pm_used_clear [of m a b] by (simp add: pm_unmark_def)

lemma pm_unmark_mark: "\<not> pm_used m a \<Longrightarrow> pm_unmark a (pm_mark a m) = m"
  by (simp add: pm_unmark_def pm_mark_def pm_used_def set_clear_exp)

lemma pm_alloc_cases:
  assumes "pm_ready s"
  obtains (found) a where
      "pm_alloc s = Some (a, s\<lparr>pm_map := pm_mark a (pm_map s),
         pm_first_free := drop_bit 15 a, pm_lock := \<lparr>lock = False\<rparr>\<rparr>)"
      "page_aligned a" "\<not> pm_used (pm_map s) a" "pm_first_free s \<le> drop_bit 15 a"
      "\<And>b. pm_first_free s \<le> drop_bit 15 b \<Longrightarrow> drop_bit 12 b < drop_bit 12 a \<Longrightarrow> pm_used (pm_map s) b"
  | (full) "pm_alloc s = Some (0, s\<lparr>pm_lock := \<lparr>lock = False\<rparr>\<rparr>)"
      "\<And>b. pm_first_free s \<le> drop_bit 15 b \<Longrightarrow> pm_used (pm_map s) b"
proof (cases "pm_alloc_scan (pm_map s) (pm_first_free s)")
  case None
  from assms have "pm_alloc s = Some (0, s\<lparr>pm_lock := \<lparr>lock = False\<rparr>\<rparr>)"
    by (simp add: pm_alloc_def pm_ready_def lock_defs None)
  moreover have "pm_used (pm_map s) b" if "pm_first_free s \<le> drop_bit 15 b" for b
    unfolding pm_used_def
    by (rule pm_alloc_scan_None [OF None that drop_15_lt frame_bit_lt_8])
  ultimately show thesis by (rule full)
next
  case (Some p)
  then obtain i j where ij: "pm_alloc_scan (pm_map s) (pm_first_free s) = Some (i, j)"
    by (cases p) auto
  note scan = pm_alloc_scan_Some [OF ij]
  define a :: u32 where "a = push_bit 12 (push_bit 3 i OR of_nat j)"
  from scan have addr: "drop_bit 15 a = i" "unat (drop_bit 12 a AND 7) = j" "page_aligned a"
    unfolding a_def using frame_address [of i j] by blast+
  have a: "push_bit 15 i OR push_bit 12 (of_nat j) = a" by (simp add: a_def)
  have "pm_alloc s = Some (a, s\<lparr>pm_map := pm_mark a (pm_map s),
         pm_first_free := drop_bit 15 a, pm_lock := \<lparr>lock = False\<rparr>\<rparr>)"
    using assms scan
    by (auto simp: pm_alloc_def pm_ready_def lock_defs ij pm_mark_def addr a Let_def)
  moreover have "\<not> pm_used (pm_map s) a" using scan addr by (simp add: pm_used_def)
  moreover have "pm_first_free s \<le> drop_bit 15 a" using scan addr by simp
  moreover have "pm_used (pm_map s) b"
    if "pm_first_free s \<le> drop_bit 15 b" "drop_bit 12 b < drop_bit 12 a" for b
  proof -
    have d: "(n :: nat) div 32768 = n div 4096 div 8" for n by (simp add: div_mult2_eq [symmetric])
    have lt: "unat b div 4096 < unat a div 4096"
      using that(2) by (simp add: word_less_nat_alt unat_drop_bit)
    show ?thesis
    proof (cases "drop_bit 15 b = i")
      case True
      then have "unat a div 4096 div 8 = unat b div 4096 div 8"
        using addr(1) by (simp add: word_unat_eq_iff unat_drop_bit d)
      with lt have "unat b div 4096 mod 8 < unat a div 4096 mod 8"
        by (metis div_mult_mod_eq nat_add_left_cancel_less)
      then have "unat (drop_bit 12 b AND 7) < j"
        using addr(2) by (simp add: unat_drop_bit unat_and_7)
      with True scan show ?thesis by (simp add: pm_used_def)
    next
      case False
      have "unat b div 4096 div 8 \<le> unat a div 4096 div 8" using lt by (simp add: div_le_mono)
      then have "drop_bit 15 b \<le> i" using addr(1) by (auto simp: word_le_nat_alt unat_drop_bit d)
      with False have "drop_bit 15 b < i" by simp
      with that(1) scan frame_bit_lt_8 [of b] show ?thesis by (simp add: pm_used_def)
    qed
  qed
  ultimately show thesis using addr(3) found by blast
qed

lemma pm_free_eq:
  assumes "pm_ready s"
  shows "pm_free a s = Some (s\<lparr>pm_map := pm_unmark a (pm_map s),
     pm_first_free := min (drop_bit 15 a) (pm_first_free s), pm_lock := \<lparr>lock = False\<rparr>\<rparr>)"
  using assms
  by (auto simp: pm_free_def pm_ready_def lock_defs pm_unmark_def min_def not_less Let_def)

lemma pm_reserve_eq:
  assumes "pm_ready s"
  shows "pm_reserve a s = Some (s\<lparr>pm_map := pm_mark a (pm_map s),
     pm_first_free := drop_bit 15 a, pm_lock := \<lparr>lock = False\<rparr>\<rparr>)"
  using assms by (simp add: pm_reserve_def pm_ready_def lock_defs pm_mark_def Let_def)

lemma byte_in_use_iff: "list_ex (\<lambda>j. b AND push_bit j 1 \<noteq> 0) [0..<8] \<longleftrightarrow> b \<noteq> (0 :: u8)"
proof
  assume "list_ex (\<lambda>j. b AND push_bit j 1 \<noteq> 0) [0..<8]"
  then show "b \<noteq> 0" by (auto simp: list_ex_iff)
next
  assume "b \<noteq> 0"
  then obtain j where "bit b j" by (metis bit_0_eq bit_word_eqI bot_apply bot_bool_def)
  then have "j < 8" using bit_imp_le_length by fastforce
  with \<open>bit b j\<close> show "list_ex (\<lambda>j. b AND push_bit j 1 \<noteq> 0) [0..<8]"
    by (auto simp: list_ex_iff and_exp_eq_0_iff)
qed

lemma odd_word_iff: "(i :: u32) AND 1 \<noteq> 0 \<longleftrightarrow> odd (unat i)"
proof -
  have "unat (i AND mask 1) = unat i mod 2" by (subst unat_and_mask) simp
  then have u: "unat (i AND 1) = unat i mod 2" by (simp add: mask_eq_exp_minus_1)
  have "i AND 1 = 0 \<longleftrightarrow> unat (i AND 1) = 0" by (simp add: unat_eq_0)
  then show ?thesis unfolding u by presburger
qed

definition pair_free :: "(u32 \<Rightarrow> u8) \<Rightarrow> u32 \<Rightarrow> bool" where
  "pair_free m c \<longleftrightarrow> even (unat c) \<and> c + 1 < mmap_count \<and> c < c + 1 \<and> m c = 0 \<and> m (c + 1) = 0"

definition scan64_inv :: "(u32 \<Rightarrow> u8) \<Rightarrow> u32 \<Rightarrow> u32 \<Rightarrow> u32 \<Rightarrow> bool" where
  "scan64_inv m i cont current \<longleftrightarrow>
     (if even (unat i) then cont = 0
      else cont = 0 \<and> m (i - 1) \<noteq> 0 \<or> cont = 1 \<and> current = i - 1 \<and> m (i - 1) = 0)"

lemma pm_64k_scan_step:
  assumes "i < mmap_count" "scan64_inv m i cont current"
  shows "(pm_64k_scan m i cont current = Some (i - 1) \<and> odd (unat i) \<and> pair_free m (i - 1)) \<or>
     (\<exists>cont' current'. pm_64k_scan m i cont current = pm_64k_scan m (i + 1) cont' current'
        \<and> scan64_inv m (i + 1) cont' current' \<and> (odd (unat i) \<longrightarrow> \<not> pair_free m (i - 1)))"
proof -
  have suc: "unat (i + 1) = Suc (unat i)" by (rule unat_Suc_less [OF assms(1)])
  note step = pm_64k_scan.simps [of m i cont current, unfolded byte_in_use_iff odd_word_iff]
  show ?thesis
  proof (cases "even (unat i)")
    case True
    with assms have "cont = 0" by (simp add: scan64_inv_def)
    then have "pm_64k_scan m i cont current = pm_64k_scan m (i + 1) (if m i = 0 then 1 else 0) i"
      unfolding step using True assms(1) by simp
    with True show ?thesis by (auto simp: scan64_inv_def suc split: if_splits)
  next
    case False
    then have pos: "0 < unat i" by presburger
    then have pred: "unat (i - 1) = unat i - 1" by (simp add: unat_sub word_le_nat_alt)
    show ?thesis
    proof (cases "cont = 0")
      case True
      with False assms have "m (i - 1) \<noteq> 0" by (simp add: scan64_inv_def)
      moreover have "pm_64k_scan m i cont current = pm_64k_scan m (i + 1) 0 current"
        unfolding step using False True assms(1) by simp
      ultimately show ?thesis using False by (auto simp: scan64_inv_def suc pair_free_def)
    next
      case nz: False
      with False assms have c: "cont = 1" "current = i - 1" "m (i - 1) = 0"
        by (auto simp: scan64_inv_def)
      show ?thesis
      proof (cases "m i = 0")
        case True
        have "pair_free m (i - 1)"
          using False c True assms(1) pos pred by (auto simp: pair_free_def word_less_nat_alt)
        moreover have "pm_64k_scan m i cont current = Some (i - 1)"
          unfolding step using False True c assms(1) by simp
        ultimately show ?thesis using False by blast
      next
        case used: False
        have "pm_64k_scan m i cont current = pm_64k_scan m (i + 1) 0 i"
          unfolding step using used False c assms(1) by simp
        moreover have "\<not> pair_free m (i - 1)" using used by (simp add: pair_free_def)
        moreover have "scan64_inv m (i + 1) 0 i" using False suc by (simp add: scan64_inv_def)
        ultimately show ?thesis by blast
      qed
    qed
  qed
qed

lemma pm_64k_scan_Some:
  assumes "pm_64k_scan m i cont current = Some c" "scan64_inv m i cont current"
  shows "pair_free m c"
  using assms
proof (induction "unat mmap_count - unat i" arbitrary: i cont current rule: less_induct)
  case less
  show ?case
  proof (cases "i < mmap_count")
    case False
    with less.prems show ?thesis by (simp add: pm_64k_scan.simps [of m i])
  next
    case True
    from pm_64k_scan_step [OF True less.prems(2)] show ?thesis
    proof (elim disjE exE conjE)
      assume "pm_64k_scan m i cont current = Some (i - 1)" "pair_free m (i - 1)"
      with less.prems show ?thesis by simp
    next
      fix cont' current'
      assume eq: "pm_64k_scan m i cont current = pm_64k_scan m (i + 1) cont' current'"
        and inv: "scan64_inv m (i + 1) cont' current'"
      show ?thesis
        by (rule less.hyps [OF word_loop_measure [OF True] _ inv]) (use eq less.prems in simp)
    qed
  qed
qed

lemma pm_64k_scan_None:
  assumes "pm_64k_scan m i cont current = None" "scan64_inv m i cont current"
    "i \<le> c \<or> odd (unat i) \<and> c = i - 1"
  shows "\<not> pair_free m c"
  using assms
proof (induction "unat mmap_count - unat i" arbitrary: i cont current rule: less_induct)
  case less
  show ?case
  proof (cases "i < mmap_count")
    case False
    then have "\<not> c + 1 < mmap_count \<or> \<not> c < c + 1"
      using less.prems(3) by (auto simp: word_less_nat_alt word_le_nat_alt)
    then show ?thesis by (auto simp: pair_free_def)
  next
    case True
    from pm_64k_scan_step [OF True less.prems(2)] less.prems(1)
    obtain cont' current' where
      eq: "pm_64k_scan m (i + 1) cont' current' = None"
      and inv: "scan64_inv m (i + 1) cont' current'"
      and here: "odd (unat i) \<longrightarrow> \<not> pair_free m (i - 1)" by (metis option.distinct(1))
    have suc: "unat (i + 1) = Suc (unat i)" by (rule unat_Suc_less [OF True])
    show ?thesis
    proof (cases "odd (unat i) \<and> (c = i - 1 \<or> c = i)")
      case True
      with here show ?thesis by (auto simp: pair_free_def)
    next
      case False
      with less.prems(3) have "i + 1 \<le> c \<or> odd (unat (i + 1)) \<and> c = i + 1 - 1"
        using suc by (auto simp: word_le_nat_alt word_unat_eq_iff)
      with less.hyps [OF word_loop_measure [OF True] eq inv] show ?thesis by blast
    qed
  qed
qed

subsection \<open>The contract the paging code relies on\<close>

locale frame_allocator =
  fixes alloc :: "'s \<Rightarrow> (u32 \<times> 's) option"
    and release :: "u32 \<Rightarrow> 's \<Rightarrow> 's option"
    and used :: "'s \<Rightarrow> u32 set"
    and ok :: "'s \<Rightarrow> bool"
  assumes alloc_total: "ok s \<Longrightarrow> \<exists>a s'. alloc s = Some (a, s')"
    and alloc_ok: "ok s \<Longrightarrow> alloc s = Some (a, s') \<Longrightarrow> ok s'"
    and alloc_fresh: "ok s \<Longrightarrow> alloc s = Some (a, s') \<Longrightarrow> a \<noteq> 0 \<Longrightarrow>
      page_aligned a \<and> a \<notin> used s \<and> used s' = insert a (used s)"
    and alloc_fail: "ok s \<Longrightarrow> 0 \<in> used s \<Longrightarrow> alloc s = Some (0, s') \<Longrightarrow> used s' = used s"
    and release_spec: "ok s \<Longrightarrow> page_aligned a \<Longrightarrow>
      \<exists>s'. release a s = Some s' \<and> ok s' \<and> used s' = used s - {a}"
begin

lemma alloc_twice_distinct:
  assumes "ok s" "alloc s = Some (a, s1)" "alloc s1 = Some (b, s2)" "a \<noteq> 0" "b \<noteq> 0"
  shows "a \<noteq> b" "used s2 = insert b (insert a (used s))"
  using assms alloc_fresh alloc_ok by blast+

lemma alloc_release_used:
  assumes "ok s" "alloc s = Some (a, s1)" "a \<noteq> 0" "release a s1 = Some s2"
  shows "used s2 = used s"
proof -
  have "page_aligned a" "a \<notin> used s" "used s1 = insert a (used s)"
    using alloc_fresh [OF assms(1,2,3)] by auto
  moreover have "used s2 = used s1 - {a}"
    using release_spec [OF alloc_ok [OF assms(1,2)] \<open>page_aligned a\<close>] assms(4) by auto
  ultimately show ?thesis by auto
qed

end

lemma pm_alloc_total:
  assumes "pm_ready s"
  shows "\<exists>a s'. pm_alloc s = Some (a, s') \<and> pm_ready s'"
  using assms by (rule pm_alloc_cases) (auto simp: pm_ready_def)

lemma pm_alloc_fresh:
  assumes "pm_ready s" "pm_alloc s = Some (a, s')" "a \<noteq> 0"
  shows "page_aligned a \<and> a \<notin> used_frames s \<and> used_frames s' = insert a (used_frames s)"
  using assms(1)
proof (cases rule: pm_alloc_cases)
  case (found b)
  with assms show ?thesis by (auto simp: used_frames_def pm_used_mark page_base_id)
qed (use assms in auto)

lemma pm_alloc_fail:
  assumes "pm_ready s" "0 \<in> used_frames s" "pm_alloc s = Some (0, s')"
  shows "used_frames s' = used_frames s \<and>
    (\<forall>b. pm_first_free s \<le> drop_bit 15 b \<longrightarrow> pm_used (pm_map s) b)"
  using assms(1)
proof (cases rule: pm_alloc_cases)
  case (found b)
  with assms show ?thesis by (auto simp: used_frames_def)
qed (use assms in \<open>auto simp: used_frames_def\<close>)

lemma pm_free_spec:
  assumes "pm_ready s"
  shows "\<exists>s'. pm_free a s = Some s' \<and> pm_ready s' \<and> used_frames s' = used_frames s - {page_base a}"
  using assms
  by (auto simp: pm_free_eq pm_ready_def used_frames_def pm_used_unmark page_base_id)

interpretation pm: frame_allocator pm_alloc pm_free used_frames pm_ready
proof unfold_locales
  fix s s' :: "'a pm_state_scheme" and a :: u32
  assume ok: "pm_ready s"
  show "\<exists>a s'. pm_alloc s = Some (a, s')" using pm_alloc_total [OF ok] by blast
  show "\<exists>s'. pm_free a s = Some s' \<and> pm_ready s' \<and> used_frames s' = used_frames s - {a}"
    if "page_aligned a" using pm_free_spec [OF ok, of a] that by (simp add: page_base_id)
  show "used_frames s' = used_frames s" if "0 \<in> used_frames s" "pm_alloc s = Some (0, s')"
    using pm_alloc_fail [OF ok that] by blast
  show "pm_ready s'" if "pm_alloc s = Some (a, s')" using pm_alloc_total [OF ok] that by auto
  show "page_aligned a \<and> a \<notin> used_frames s \<and> used_frames s' = insert a (used_frames s)"
    if "pm_alloc s = Some (a, s')" "a \<noteq> 0" using pm_alloc_fresh [OF ok that] .
qed

subsection \<open>The hint\<close>

text \<open>The hint is sound when no frame below the byte it names is free.\<close>

definition pm_hint_ok :: "'a pm_state_scheme \<Rightarrow> bool" where
  "pm_hint_ok s \<longleftrightarrow> (\<forall>b. drop_bit 15 b < pm_first_free s \<longrightarrow> pm_used (pm_map s) b)"

lemma pm_alloc_hint:
  assumes "pm_ready s" "pm_hint_ok s" "pm_alloc s = Some (a, s')"
  shows "pm_hint_ok s'"
  using assms(1)
proof (cases rule: pm_alloc_cases)
  case (found b)
  have "pm_used (pm_map s) c" if "drop_bit 15 c < drop_bit 15 b" for c
  proof (cases "drop_bit 15 c < pm_first_free s")
    case True
    with assms(2) show ?thesis by (simp add: pm_hint_ok_def)
  next
    case False
    have "drop_bit 12 c < drop_bit 12 b"
    proof (rule ccontr)
      assume "\<not> drop_bit 12 c < drop_bit 12 b"
      then have "unat b div 4096 \<le> unat c div 4096"
        by (simp add: word_less_nat_alt unat_drop_bit)
      then have "unat b div 4096 div 8 \<le> unat c div 4096 div 8" by (rule div_le_mono)
      with that show False
        by (simp add: word_less_nat_alt unat_drop_bit div_mult2_eq [symmetric])
    qed
    with False found(5) show ?thesis by simp
  qed
  with assms(3) found(1) show ?thesis by (auto simp: pm_hint_ok_def pm_used_mark)
next
  case full
  with assms show ?thesis by (auto simp: pm_hint_ok_def)
qed

lemma pm_free_hint:
  assumes "pm_ready s" "pm_hint_ok s" "pm_free a s = Some s'"
  shows "pm_hint_ok s'"
proof -
  have "page_base b \<noteq> page_base a" if "drop_bit 15 b < drop_bit 15 a" for b
    using that same_frame_iff [of b a] by auto
  with assms show ?thesis by (auto simp: pm_free_eq pm_hint_ok_def pm_used_unmark)
qed

subsection \<open>The 64 KiB aligned allocator\<close>

definition block64 :: "u32 \<Rightarrow> u32 set" where
  "block64 a = {x. page_aligned x \<and> drop_bit 16 x = drop_bit 16 a}"

lemma bit_fold_or:
  fixes b :: u8
  assumes "n < 8"
  shows "bit (fold (\<lambda>j b. b OR push_bit j 1) js b) n \<longleftrightarrow> bit b n \<or> n \<in> set js"
  using assms by (induction js arbitrary: b) (auto simp: bit_or_exp)

lemma pm_fill_byte_eq: "pm_fill_byte b = - 1"
  by (rule bit_word_eqI) (simp add: pm_fill_byte_def bit_fold_or del: push_bit_of_1)

lemma byte_zero_iff: "m c = (0 :: u8) \<longleftrightarrow> (\<forall>j < 8. \<not> bit (m c) j)"
  by (auto intro!: bit_word_eqI)

lemma byte_free_iff:
  assumes "c < mmap_count"
  shows "m c = 0 \<longleftrightarrow> (\<forall>x. page_aligned x \<and> drop_bit 15 x = c \<longrightarrow> \<not> pm_used m x)"
proof
  assume "m c = 0"
  then show "\<forall>x. page_aligned x \<and> drop_bit 15 x = c \<longrightarrow> \<not> pm_used m x"
    by (auto simp: pm_used_def)
next
  assume free: "\<forall>x. page_aligned x \<and> drop_bit 15 x = c \<longrightarrow> \<not> pm_used m x"
  have "\<not> bit (m c) j" if "j < 8" for j
    using free frame_address [OF assms that] pm_used_frame_address [OF assms that] by blast
  then show "m c = 0" by (simp add: byte_zero_iff)
qed

lemma block_of_pair:
  assumes "even (unat c)" "c + 1 < mmap_count" "c < c + 1"
  shows "drop_bit 16 x = drop_bit 16 (push_bit 15 c) \<longleftrightarrow>
     drop_bit 15 x = c \<or> drop_bit 15 x = c + (1 :: u32)"
proof -
  have c: "unat (c + 1) = Suc (unat c)" "unat c < 0x20000"
    using assms unat_Suc_less [of c "c + 1"] by (auto simp: word_less_nat_alt)
  have "unat (push_bit 15 c) = unat c * 32768"
    unfolding push_bit_eq_mult using c by (subst unat_mult_lt) auto
  moreover have "unat x div 65536 = unat x div 32768 div 2"
    by (simp add: div_mult2_eq [symmetric])
  moreover obtain h where "unat c = 2 * h" using assms(1) by (elim evenE)
  moreover have "y div 2 = h \<longleftrightarrow> y = 2 * h \<or> y = Suc (2 * h)" for y h :: nat by arith
  ultimately show ?thesis
    using c by (simp add: word_unat_eq_iff [where 'a = 32] unat_drop_bit)
qed

lemma pair_free_iff_block:
  assumes "even (unat c)" "c + 1 < mmap_count" "c < c + 1"
  shows "pair_free (pm_map s) c \<longleftrightarrow> block64 (push_bit 15 c) \<inter> used_frames s = {}"
proof -
  have "c < mmap_count" using assms by (simp add: word_less_nat_alt)
  then show ?thesis
    using assms byte_free_iff [of c "pm_map s"] byte_free_iff [OF assms(2), of "pm_map s"]
    by (auto simp: pair_free_def block64_def used_frames_def block_of_pair)
qed

lemma pm_alloc_index_spec:
  assumes "pm_ready s" "even (unat c)" "c + 1 < mmap_count" "c < c + 1"
  shows "\<exists>s'. pm_alloc_index c s = Some (push_bit 15 c, s') \<and> pm_ready s' \<and>
     used_frames s' = used_frames s \<union> block64 (push_bit 15 c)"
proof -
  have c: "c < mmap_count" using assms(3,4) by (simp add: word_less_nat_alt)
  define m' where "m' = (pm_map s)(c := - 1, c + 1 := - 1 :: u8)"
  have "pm_alloc_index c s =
      Some (push_bit 15 c, s\<lparr>pm_map := m', pm_lock := \<lparr>lock = False\<rparr>\<rparr>)"
    using assms c by (simp add: pm_alloc_index_def pm_ready_def lock_defs pm_fill_byte_eq m'_def Let_def)
  moreover have "pm_used m' x \<longleftrightarrow> pm_used (pm_map s) x \<or> drop_bit 15 x = c \<or> drop_bit 15 x = c + 1" for x
    using frame_bit_lt_8 [of x] by (simp add: pm_used_def m'_def bit_simps)
  ultimately show ?thesis
    using block_of_pair [OF assms(2-4)]
    by (auto simp: pm_ready_def used_frames_def block64_def)
qed

lemma block_start_pair:
  assumes "block64 b \<inter> used_frames s = {}"
  obtains c where "pair_free (pm_map s) c"
proof -
  define c :: u32 where "c = push_bit 1 (drop_bit 16 b)"
  have lt: "unat b div 65536 < 65536"
    using unat_u32_less [of b] by (simp add: less_mult_imp_div_less)
  have c: "unat c = unat b div 65536 * 2"
    unfolding c_def push_bit_eq_mult using lt by (subst unat_mult_lt) (simp_all add: unat_drop_bit)
  have suc: "unat (c + 1) = unat c + 1" using c lt by (subst unat_add_lt) auto
  have pair: "even (unat c)" "c + 1 < mmap_count" "c < c + 1"
    using c lt suc by (auto simp: word_less_nat_alt)
  have "unat (push_bit 15 c) = unat c * 32768"
    unfolding push_bit_eq_mult using c lt by (subst unat_mult_lt) auto
  then have "drop_bit 16 (push_bit 15 c) = drop_bit 16 b"
    using c by (simp add: word_unat_eq_iff unat_drop_bit)
  then have "block64 (push_bit 15 c) = block64 b" by (simp add: block64_def)
  with assms pair_free_iff_block [OF pair, of s] show thesis by (intro that [of c]) simp
qed

subsection \<open>Properties\<close>

text \<open>
  C1. \<^verbatim>\<open>pm_alloc\<close> returns, gives back the lock and either returns a page-aligned frame that
  was free and is the only frame whose state changes, or returns 0 with the frames in use
  unchanged, and then every frame from the hint \<^verbatim>\<open>pm_first_free\<close> upwards is in use.  (Frame 0
  is reserved by \<^verbatim>\<open>pm_init\<close>; were it free, the result 0 would be ambiguous.)
\<close>

theorem pm_alloc_returns_free_frame:
  assumes "pm_ready s" "0 \<in> used_frames s"
  shows "\<exists>a s'. pm_alloc s = Some (a, s') \<and> pm_ready s' \<and>
     (if a = 0
      then used_frames s' = used_frames s \<and>
           (\<forall>b. pm_first_free s \<le> drop_bit 15 b \<longrightarrow> pm_used (pm_map s) b)
      else page_aligned a \<and> a \<notin> used_frames s \<and> used_frames s' = insert a (used_frames s))"
proof -
  obtain a s' where "pm_alloc s = Some (a, s')" "pm_ready s'"
    using pm_alloc_total [OF assms(1)] by blast
  then show ?thesis
    using pm_alloc_fresh [OF assms(1)] pm_alloc_fail [OF assms] by (cases "a = 0") auto
qed

definition pm_example :: pm_state where
  "pm_example = \<lparr>pm_map = (\<lambda>i. if i = 0 then 0x0f else 0), pm_first_free = 0,
     total_memory_unusable = 0, memory_limit = 0, pm_lock = \<lparr>lock = False\<rparr>\<rparr>"

lemma pm_example_ready: "pm_ready pm_example"
  by (simp add: pm_ready_def pm_example_def)

lemma pm_example_zero: "0 \<in> used_frames pm_example"
  by (simp add: used_frames_def pm_used_def pm_example_def page_aligned_def bit_1_iff)

lemma pm_example_alloc:
  "pm_alloc pm_example = Some (0x4000, pm_example\<lparr>pm_map := (\<lambda>i. if i = 0 then 0x1f else 0)\<rparr>)"
proof -
  have "pm_clear_bit 15 = Some 4" by (simp add: pm_clear_bit_def upt_rec)
  then show ?thesis
    by (simp add: pm_alloc_def pm_example_def lock_defs pm_alloc_scan.simps fun_eq_iff Let_def)
qed

theorem pm_alloc_returns_free_frame_witness:
  "\<exists>a s'. pm_alloc pm_example = Some (a, s') \<and> pm_ready s' \<and>
     (if a = 0
      then used_frames s' = used_frames pm_example \<and>
           (\<forall>b. pm_first_free pm_example \<le> drop_bit 15 b \<longrightarrow> pm_used (pm_map pm_example) b)
      else page_aligned a \<and> a \<notin> used_frames pm_example \<and>
           used_frames s' = insert a (used_frames pm_example))"
  by (rule pm_alloc_returns_free_frame [OF pm_example_ready pm_example_zero])

text \<open>
  Freeing the frame that \<^verbatim>\<open>pm_alloc\<close> has just returned restores the whole bitmap and
  releases the lock again.
\<close>

theorem pm_alloc_free_roundtrip:
  assumes "pm_ready s" "pm_alloc s = Some (a, s1)" "a \<noteq> 0"
  shows "\<exists>s2. pm_free a s1 = Some s2 \<and> pm_map s2 = pm_map s \<and> pm_ready s2"
  using assms(1)
proof (cases rule: pm_alloc_cases)
  case (found b)
  with assms have "pm_ready s1" "pm_map s1 = pm_mark a (pm_map s)" "\<not> pm_used (pm_map s) a"
    by (auto simp: pm_ready_def)
  then show ?thesis by (simp add: pm_free_eq pm_unmark_mark) (simp add: pm_ready_def)
qed (use assms in auto)

theorem pm_alloc_free_roundtrip_witness:
  "\<exists>s2. pm_free 0x4000 (pm_example\<lparr>pm_map := (\<lambda>i. if i = 0 then 0x1f else 0)\<rparr>) = Some s2 \<and>
     pm_map s2 = pm_map pm_example \<and> pm_ready s2"
  by (rule pm_alloc_free_roundtrip [OF pm_example_ready pm_example_alloc]) simp

text \<open>Any sequence of allocations and releases, as the kernel issues them.\<close>

datatype pm_op = Alloc | Free u32

fun pm_run :: "pm_op list \<Rightarrow> 'a pm_state_scheme \<Rightarrow> 'a pm_state_scheme option" where
  "pm_run [] s = Some s"
| "pm_run (Alloc # ops) s = do { (_, s) \<leftarrow> pm_alloc s; pm_run ops s }"
| "pm_run (Free a # ops) s = do { s \<leftarrow> pm_free a s; pm_run ops s }"

lemma pm_run_invariant:
  assumes "pm_ready s" "pm_hint_ok s"
  shows "\<exists>s'. pm_run ops s = Some s' \<and> pm_ready s' \<and> pm_hint_ok s'"
  using assms
proof (induction ops s rule: pm_run.induct)
  case (1 s)
  then show ?case by simp
next
  case (2 ops s)
  obtain a s' where a: "pm_alloc s = Some (a, s')" "pm_ready s'"
    using pm_alloc_total [OF "2.prems"(1)] by blast
  with "2.IH" [OF a(1) refl a(2) pm_alloc_hint [OF "2.prems" a(1)]] show ?case by auto
next
  case (3 a ops s)
  obtain s' where s': "pm_free a s = Some s'" "pm_ready s'"
    using pm_free_spec [OF "3.prems"(1), of a] by blast
  with "3.IH" [OF s' pm_free_hint [OF "3.prems" s'(1)]] show ?case by auto
qed


lemma pm_example_hint: "pm_hint_ok pm_example"
  by (simp add: pm_hint_ok_def pm_example_def)


text \<open>
  \<^verbatim>\<open>pm_reserve\<close> stores the reserved byte index into the hint even when free frames lie
  below it: from a state with a sound hint and a free frame, one reservation at the top of
  memory makes \<^verbatim>\<open>pm_alloc\<close> report that memory is exhausted.
\<close>

theorem pm_reserve_hides_free_frames:
  "\<exists>(s :: pm_state) s' s''. pm_ready s \<and> pm_hint_ok s \<and> 0 \<in> used_frames s \<and>
     pm_reserve 0xffff8000 s = Some s' \<and> 0x28000 \<notin> used_frames s' \<and>
     pm_alloc s' = Some (0, s'')"
proof -
  define s :: pm_state where
    "s = \<lparr>pm_map = (\<lambda>i. if i = 5 then 0 else - 1), pm_first_free = 5,
       total_memory_unusable = 0, memory_limit = 0, pm_lock = \<lparr>lock = False\<rparr>\<rparr>"
  have ready: "pm_ready s" by (simp add: s_def pm_ready_def)
  have hint: "pm_hint_ok s"
    using frame_bit_lt_8 by (auto simp: s_def pm_hint_ok_def pm_used_def bit_simps)
  have zero: "0 \<in> used_frames s"
    by (simp add: s_def used_frames_def page_aligned_def pm_used_def)
  have full: "pm_clear_bit (- 1) = None" by (simp add: pm_clear_bit_def upt_rec)
  define s' where "s' = s\<lparr>pm_first_free := 0x1ffff\<rparr>"
  have res: "pm_reserve 0xffff8000 s = Some s'"
    by (simp add: pm_reserve_def s_def s'_def lock_defs fun_eq_iff Let_def)
  have "0x28000 \<notin> used_frames s'"
    by (simp add: s_def s'_def used_frames_def pm_used_def)
  moreover have "pm_alloc s' = Some (0, s')"
    by (simp add: pm_alloc_def s'_def s_def lock_defs pm_alloc_scan.simps full Let_def)
  ultimately show ?thesis using ready hint zero res by blast
qed

text \<open>
  \<^verbatim>\<open>pm_alloc_64kaligned\<close> succeeds whenever some 64 KiB aligned block has its sixteen
  frames free: it returns a 64 KiB aligned address whose block was entirely free and marks
  exactly that block.
\<close>

theorem pm_alloc_64kaligned_correct:
  assumes "pm_ready s" "block64 b \<inter> used_frames s = {}"
  shows "\<exists>a s'. pm_alloc_64kaligned s = Some (a, s') \<and> pm_ready s' \<and> unat a mod 65536 = 0 \<and>
     block64 a \<inter> used_frames s = {} \<and> used_frames s' = used_frames s \<union> block64 a"
proof -
  obtain c0 where c0: "pair_free (pm_map s) c0" using block_start_pair [OF assms(2)] .
  have inv: "scan64_inv (pm_map s) 0 0 0" by (simp add: scan64_inv_def)
  obtain c where c: "pm_64k_scan (pm_map s) 0 0 0 = Some c"
    using pm_64k_scan_None [OF _ inv, of c0] c0 by (cases "pm_64k_scan (pm_map s) 0 0 0") auto
  have free: "pair_free (pm_map s) c" by (rule pm_64k_scan_Some [OF c inv])
  then have pair: "even (unat c)" "c + 1 < mmap_count" "c < c + 1" by (auto simp: pair_free_def)
  have "pm_ready (s\<lparr>pm_lock := \<lparr>lock = False\<rparr>\<rparr>)" by (simp add: pm_ready_def)
  from pm_alloc_index_spec [OF this pair] obtain s' where s':
    "pm_alloc_index c (s\<lparr>pm_lock := \<lparr>lock = False\<rparr>\<rparr>) = Some (push_bit 15 c, s')" "pm_ready s'"
    "used_frames s' = used_frames s \<union> block64 (push_bit 15 c)"
    by (auto simp: used_frames_def)
  have "pm_alloc_64kaligned s = Some (push_bit 15 c, s')"
    using assms(1) c s'(1) by (simp add: pm_alloc_64kaligned_def pm_ready_def lock_defs)
  moreover have "unat (push_bit 15 c) mod 65536 = 0"
  proof -
    have "unat c < 0x20000" using pair(2,3) by (simp add: word_less_nat_alt)
    then have "unat (push_bit 15 c) = unat c * 32768"
      unfolding push_bit_eq_mult by (subst unat_mult_lt) auto
    with pair(1) show ?thesis by (auto elim!: evenE)
  qed
  ultimately show ?thesis
    using s' free pair_free_iff_block [OF pair, of s] by (intro exI conjI) auto
qed

lemma pm_example_block: "block64 0x10000 \<inter> used_frames pm_example = {}"
proof -
  have "drop_bit 15 x \<noteq> 0" if "drop_bit 16 x = (1 :: u32)" for x
    using that by (auto simp: word_unat_eq_iff unat_drop_bit)
  then show ?thesis
    by (auto simp: block64_def used_frames_def pm_used_def pm_example_def)
qed

theorem pm_alloc_64kaligned_correct_witness:
  "\<exists>a s'. pm_alloc_64kaligned pm_example = Some (a, s') \<and> pm_ready s' \<and> unat a mod 65536 = 0 \<and>
     block64 a \<inter> used_frames pm_example = {} \<and>
     used_frames s' = used_frames pm_example \<union> block64 a"
  by (rule pm_alloc_64kaligned_correct [OF pm_example_ready pm_example_block])

end
