(* ===== verification/Heap.thy ===== *)
theory Heap
  imports Phys
begin

text \<open>
  The kernel heap (\<^verbatim>\<open>src/kernel/arch_i386/memory.c\<close>, the \<^verbatim>\<open>heap_\<close> functions).

  The heap hands out runs of 4 KiB pages.  \<^verbatim>\<open>heap_map\<close> has one nibble per page:
  \<^verbatim>\<open>KMALLOC_USED\<close>, and links that say whether the page continues the block of the previous
  page or is continued by the next.  An index outside the map reads as 0 and writing there
  does nothing.

  The lemmas show that the nibbles are independent cells, that a search is first fit, that
  the free loops end for every map, and that freeing any page of a block clears exactly the
  block.  \<^verbatim>\<open>heap_init\<close> needs the page allocator and is modelled with it.
\<close>

abbreviation (input) KMALLOC_USED :: u32 where "KMALLOC_USED \<equiv> 1"
abbreviation (input) KMALLOC_LINK_NEXT :: u32 where "KMALLOC_LINK_NEXT \<equiv> 2"
abbreviation (input) KMALLOC_LINK_LAST :: u32 where "KMALLOC_LINK_LAST \<equiv> 4"
abbreviation (input) HEAP_ENTRY_SIZE_BITS :: u32 where "HEAP_ENTRY_SIZE_BITS \<equiv> 4"
abbreviation (input) HEAP_ENTRIES_PER_INDEX :: u32 where "HEAP_ENTRIES_PER_INDEX \<equiv> 2"

record heap_state = pm_state +
  heap_map :: "u32 \<Rightarrow> u8"
  heap_map_size :: u32
  heap_base :: u32
  heap_first_free :: u32
  heap_lock :: spinlock_t

definition heap_max_index :: "'a heap_state_scheme \<Rightarrow> u32" where
  "heap_max_index s = heap_map_size s * HEAP_ENTRIES_PER_INDEX"

subsection \<open>Operations\<close>

definition get_heap_index :: "'a heap_state_scheme \<Rightarrow> u32 \<Rightarrow> u8" where
  "get_heap_index s index =
     (if index \<ge> heap_max_index s then 0
      else drop_bit (unat ((index mod HEAP_ENTRIES_PER_INDEX) * HEAP_ENTRY_SIZE_BITS))
             (heap_map s (index div HEAP_ENTRIES_PER_INDEX)) AND 0xf)"

definition set_heap_index :: "u32 \<Rightarrow> u32 \<Rightarrow> 'a heap_state_scheme \<Rightarrow> 'a heap_state_scheme" where
  "set_heap_index index flags s =
     (if index \<ge> heap_max_index s then s
      else let byte = index div HEAP_ENTRIES_PER_INDEX;
               shift = unat ((index mod HEAP_ENTRIES_PER_INDEX) * HEAP_ENTRY_SIZE_BITS);
               mask_byte = ucast (push_bit shift 15 :: u32) :: u8
           in s\<lparr>heap_map := (heap_map s)(byte :=
                (heap_map s byte AND NOT mask_byte) OR
                ucast (push_bit shift flags AND ucast mask_byte))\<rparr>)"

definition heap_index_to_address :: "'a heap_state_scheme \<Rightarrow> u32 \<Rightarrow> u32" where
  "heap_index_to_address s index = heap_base s + index * PAGE_SIZE_BYTES"

definition heap_address_to_index :: "'a heap_state_scheme \<Rightarrow> u32 \<Rightarrow> u32" where
  "heap_address_to_index s address =
     (if address \<ge> heap_base s + heap_map_size s * HEAP_ENTRIES_PER_INDEX * PAGE_SIZE_BYTES \<or>
         address < heap_base s
      then - 1
      else (address - heap_base s) div PAGE_SIZE_BYTES)"

text \<open>The inner loop of the search: the first \<^verbatim>\<open>j < size_pgs\<close> whose page is in use.\<close>

definition heap_first_used :: "'a heap_state_scheme \<Rightarrow> u32 \<Rightarrow> u32 \<Rightarrow> nat option" where
  "heap_first_used s i size_pgs =
     find (\<lambda>j. get_heap_index s (i + of_nat j) \<noteq> 0) [0..<unat size_pgs]"

text \<open>
  The search loop; \<open>Some None\<close> is the end of the map without a run.  With a run longer than
  the map, \<^verbatim>\<open>i + j\<close> can wrap around and the loop need not end.
\<close>

partial_function (option) heap_search ::
    "'a heap_state_scheme \<Rightarrow> u32 \<Rightarrow> u32 \<Rightarrow> u32 option option" where
  "heap_search s size_pgs i =
     (if i < heap_max_index s
      then (case heap_first_used s i size_pgs of
              None \<Rightarrow> Some (Some i)
            | Some j \<Rightarrow> heap_search s size_pgs (i + of_nat j + 1))
      else Some None)"

definition heap_page_flags :: "u32 \<Rightarrow> u32 \<Rightarrow> u32" where
  "heap_page_flags size_pgs i =
     KMALLOC_USED OR (KMALLOC_LINK_LAST * (if i > 0 then 1 else 0))
       OR (KMALLOC_LINK_NEXT * (if i < size_pgs - 1 then 1 else 0))"

definition heap_mark :: "u32 \<Rightarrow> u32 \<Rightarrow> 'a heap_state_scheme \<Rightarrow> 'a heap_state_scheme" where
  "heap_mark start size_pgs s =
     fold (\<lambda>i s. set_heap_index (start + of_nat i) (heap_page_flags size_pgs (of_nat i)) s)
       [0..<unat size_pgs] s"

definition heap_alloc ::
    "u32 \<Rightarrow> 'a heap_state_scheme \<Rightarrow> (u32 \<times> 'a heap_state_scheme) option" where
  "heap_alloc size_pgs s = do {
     l \<leftarrow> spinlock_acquire (heap_lock s);
     let s = s\<lparr>heap_lock := l\<rparr>;
     r \<leftarrow> heap_search s size_pgs (heap_first_free s);
     let start = (case r of Some i \<Rightarrow> i | None \<Rightarrow> 0);
     if start = 0 \<and> get_heap_index s start \<noteq> 0
     then Some (0, s\<lparr>heap_lock := spinlock_release (heap_lock s)\<rparr>)
     else let s = heap_mark start size_pgs s;
              s = s\<lparr>heap_lock := spinlock_release (heap_lock s)\<rparr>
          in Some (heap_base s + start * PAGE_SIZE_BYTES, s)
   }"

text \<open>
  The two loops of \<^verbatim>\<open>heap_free\<close>.  Both end for every map: outside the map the flags read as
  0, also after the index has wrapped below 0.
\<close>

function heap_block_start :: "'a heap_state_scheme \<Rightarrow> u32 \<Rightarrow> u32" where
  "heap_block_start s heap_index =
     (if get_heap_index s heap_index AND ucast KMALLOC_LINK_LAST \<noteq> 0
      then heap_block_start s (heap_index - 1)
      else heap_index)"
  by pat_completeness auto
termination
proof (relation "measure (\<lambda>(s, i). if i < heap_max_index s then Suc (unat i) else 0)")
  fix s :: "'a heap_state_scheme" and i
  assume "get_heap_index s i AND ucast KMALLOC_LINK_LAST \<noteq> 0"
  then have lt: "i < heap_max_index s" by (auto simp: get_heap_index_def split: if_splits)
  show "((s, i - 1), s, i) \<in> measure (\<lambda>(s, i). if i < heap_max_index s then Suc (unat i) else 0)"
  proof (cases "i = 0")
    case True
    have "heap_max_index s \<le> - 1" by simp
    with True lt show ?thesis by auto
  next
    case False
    then have less: "i - 1 < i" by (rule word_pred_less)
    from this lt have "i - 1 < heap_max_index s" by (rule order.strict_trans)
    with lt less show ?thesis by (simp add: word_less_nat_alt)
  qed
qed simp

declare heap_block_start.simps [simp del]

lemma heap_max_index_set [simp]: "heap_max_index (set_heap_index i f s) = heap_max_index s"
  by (simp add: heap_max_index_def set_heap_index_def Let_def)

function heap_block_clear :: "u32 \<Rightarrow> 'a heap_state_scheme \<Rightarrow> 'a heap_state_scheme" where
  "heap_block_clear heap_index s =
     (let flags = get_heap_index s heap_index;
          s = set_heap_index heap_index 0 s
      in if flags AND ucast KMALLOC_LINK_NEXT = 0 then s
         else heap_block_clear (heap_index + 1) s)"
  by pat_completeness auto
termination
proof (relation "measure (\<lambda>(i, s). unat (heap_max_index s) - unat i)")
  fix s s' :: "'a heap_state_scheme" and i and flags :: u8
  assume f: "flags = get_heap_index s i" and s': "s' = set_heap_index i 0 s"
    and "\<not> flags AND ucast KMALLOC_LINK_NEXT = 0"
  then have "i < heap_max_index s" by (auto simp: get_heap_index_def split: if_splits)
  then show "((i + 1, s'), i, s) \<in> measure (\<lambda>(i, s). unat (heap_max_index s) - unat i)"
    using s' word_loop_measure [of i "heap_max_index s"] by simp
qed simp

declare heap_block_clear.simps [simp del]

definition heap_free :: "u32 \<Rightarrow> 'a heap_state_scheme \<Rightarrow> 'a heap_state_scheme option" where
  "heap_free addr s =
     (let heap_index = signed_drop_bit 12 (addr - heap_base s)
      in if heap_index > heap_max_index s then Some s
         else do {
           l \<leftarrow> spinlock_acquire (heap_lock s);
           let s = s\<lparr>heap_lock := l\<rparr>;
           let s = heap_block_clear (heap_block_start s heap_index) s;
           Some (s\<lparr>heap_lock := spinlock_release (heap_lock s)\<rparr>)
         })"

subsection \<open>The nibbles are independent cells\<close>

definition nibble_pos :: "u32 \<Rightarrow> nat" where
  "nibble_pos i = unat ((i mod 2) * 4)"

definition read_nibble :: "nat \<Rightarrow> u8 \<Rightarrow> u8" where
  "read_nibble h b = drop_bit h b AND 15"

definition write_nibble :: "nat \<Rightarrow> u32 \<Rightarrow> u8 \<Rightarrow> u8" where
  "write_nibble h f b =
     (b AND NOT (ucast (push_bit h 15 :: u32))) OR
       ucast (push_bit h f AND ucast (ucast (push_bit h 15 :: u32) :: u8))"

lemma get_heap_index_nibble:
  "get_heap_index s i = (if i \<ge> heap_max_index s then 0
     else read_nibble (nibble_pos i) (heap_map s (i div 2)))"
  by (simp only: get_heap_index_def read_nibble_def nibble_pos_def)

lemma set_heap_index_nibble:
  "set_heap_index i f s = (if i \<ge> heap_max_index s then s
     else s\<lparr>heap_map := (heap_map s)(i div 2 :=
       write_nibble (nibble_pos i) f (heap_map s (i div 2)))\<rparr>)"
  by (simp only: set_heap_index_def write_nibble_def nibble_pos_def Let_def)

lemma nibble_pos_parity: "nibble_pos i = (if even (unat i) then 0 else 4)"
proof -
  have "unat (i mod 2) = unat i mod 2" by (simp add: unat_mod)
  then have "unat ((i mod 2) * 4) = unat i mod 2 * 4" by (subst unat_mult_lt) auto
  then show ?thesis by (simp add: nibble_pos_def even_iff_mod_2_eq_zero)
qed

lemma nibble_pos_cases: "nibble_pos i = 0 \<or> nibble_pos i = 4"
  by (simp add: nibble_pos_parity)

lemma nibble_index_eq: "i div 2 = j div 2 \<and> nibble_pos i = nibble_pos j \<longleftrightarrow> i = j"
proof -
  have "m div 2 = n div 2 \<and> even m = even n \<longleftrightarrow> m = n" for m n :: nat
    by (metis even_iff_mod_2_eq_zero mod2_eq_if div_mult_mod_eq)
  then show ?thesis by (auto simp: word_unat_eq_iff unat_div nibble_pos_parity split: if_splits)
qed

lemma nibble_mask: "(15 :: u8) = mask 4" "(15 :: u32) = mask 4"
  by (simp_all add: mask_eq_exp_minus_1)

lemma read_write_nibble_same:
  assumes "h = 0 \<or> h = 4"
  shows "read_nibble h (write_nibble h f b) = ucast f AND 15"
  using assms unfolding read_nibble_def write_nibble_def nibble_mask
  by (elim disjE) (rule bit_word_eqI, auto simp: bit_simps)+

lemma read_write_nibble_other:
  assumes "h = 0 \<or> h = 4" "g = 0 \<or> g = 4" "g \<noteq> h"
  shows "read_nibble g (write_nibble h f b) = read_nibble g b"
proof -
  have "bit (read_nibble g (write_nibble h f b)) n = bit (read_nibble g b) n"
    if "n < 8" for n
  proof (cases "n < 4")
    case True
    with assms show ?thesis
      unfolding read_nibble_def write_nibble_def nibble_mask by (elim disjE) (simp_all add: bit_simps)
  next
    case False
    then show ?thesis unfolding read_nibble_def nibble_mask by (simp add: bit_simps)
  qed
  then show ?thesis by (intro bit_word_eqI) simp
qed

lemma get_set_heap_index:
  "get_heap_index (set_heap_index i f s) j =
     (if i = j \<and> i < heap_max_index s then ucast f AND 15 else get_heap_index s j)"
proof -
  have max: "heap_max_index (s\<lparr>heap_map := m\<rparr>) = heap_max_index s" for m
    by (simp add: heap_max_index_def)
  have nib: "read_nibble (nibble_pos j) (write_nibble (nibble_pos i) f b) =
      (if i = j then ucast f AND 15 else read_nibble (nibble_pos j) b)" if "i div 2 = j div 2" for b
  proof (cases "i = j")
    case True
    then show ?thesis by (simp add: read_write_nibble_same [OF nibble_pos_cases])
  next
    case False
    with that have "nibble_pos j \<noteq> nibble_pos i" using nibble_index_eq [of i j] by metis
    with False show ?thesis
      by (simp add: read_write_nibble_other [OF nibble_pos_cases nibble_pos_cases])
  qed
  show ?thesis
    by (cases "i < heap_max_index s"; cases "j < heap_max_index s"; cases "i div 2 = j div 2")
      (auto simp: get_heap_index_nibble set_heap_index_nibble max nib not_le
        read_write_nibble_same [OF nibble_pos_cases])
qed

lemma heap_index_outside: "heap_max_index s \<le> i \<Longrightarrow> get_heap_index s i = 0"
  by (simp add: get_heap_index_def)

text \<open>Everything but the map is untouched by \<^verbatim>\<open>set_heap_index\<close>.\<close>

lemma set_heap_index_frame [simp]:
  "heap_base (set_heap_index i f s) = heap_base s"
  "heap_map_size (set_heap_index i f s) = heap_map_size s"
  "heap_first_free (set_heap_index i f s) = heap_first_free s"
  "heap_lock (set_heap_index i f s) = heap_lock s"
  by (simp_all add: set_heap_index_def Let_def)

lemma heap_upd_lock [simp]:
  "heap_max_index (s\<lparr>heap_lock := l\<rparr>) = heap_max_index s"
  "get_heap_index (s\<lparr>heap_lock := l\<rparr>) = get_heap_index s"
  by (simp_all add: heap_max_index_def get_heap_index_def fun_eq_iff)

subsection \<open>Marking a run\<close>

lemma heap_page_flags_lt: "heap_page_flags n i AND 15 = heap_page_flags n i"
  by (auto simp: heap_page_flags_def)

lemma ucast_heap_page_flags: "ucast (heap_page_flags n i) AND (15 :: u8) = ucast (heap_page_flags n i)"
  by (auto simp: heap_page_flags_def)

lemma heap_mark_prefix:
  fixes s :: "'a heap_state_scheme" and start n :: u32
  assumes "m \<le> unat n"
  defines "s' \<equiv> fold (\<lambda>i. set_heap_index (start + of_nat i) (heap_page_flags n (of_nat i))) [0..<m] s"
  shows "heap_max_index s' = heap_max_index s \<and> heap_base s' = heap_base s \<and>
     heap_first_free s' = heap_first_free s \<and> heap_lock s' = heap_lock s \<and>
     get_heap_index s' j =
       (if unat (j - start) < m \<and> j < heap_max_index s
        then ucast (heap_page_flags n (j - start)) else get_heap_index s j)"
  using assms(1) unfolding s'_def
proof (induction m)
  case 0
  then show ?case by simp
next
  case (Suc m)
  have lt: "m < 4294967296" using Suc.prems unat_u32_less [of n] by simp
  then have m: "unat (of_nat m :: u32) = m" by (simp add: unat_of_nat_lt)
  have eq: "start + of_nat m = j \<longleftrightarrow> unat (j - start) = m"
    using m by (metis add_diff_cancel_left' diff_add_cancel add.commute word_unat_eq_iff)
  then have "of_nat m = j - start" if "unat (j - start) = m" using that by auto
  with Suc eq show ?case
    by (auto simp: get_set_heap_index ucast_heap_page_flags less_Suc_eq)
qed

lemma heap_mark_frame [simp]:
  "heap_max_index (heap_mark start n s) = heap_max_index s"
  "heap_base (heap_mark start n s) = heap_base s"
  "heap_first_free (heap_mark start n s) = heap_first_free s"
  "heap_lock (heap_mark start n s) = heap_lock s"
  using heap_mark_prefix [OF order_refl, of start n s] by (simp_all add: heap_mark_def)

lemma get_heap_mark:
  "get_heap_index (heap_mark start n s) j =
     (if j - start < n \<and> j < heap_max_index s
      then ucast (heap_page_flags n (j - start)) else get_heap_index s j)"
  using heap_mark_prefix [OF order_refl, of start n s] by (simp add: heap_mark_def word_less_nat_alt)

subsection \<open>First fit\<close>

text \<open>\<open>run_free s i n\<close>: the inner loop of the search finds none of the \<open>n\<close> pages from \<open>i\<close> in use.\<close>

definition run_free :: "'a heap_state_scheme \<Rightarrow> u32 \<Rightarrow> u32 \<Rightarrow> bool" where
  "run_free s i n \<longleftrightarrow> (\<forall>j < unat n. get_heap_index s (i + of_nat j) = 0)"

lemma heap_first_used_None: "heap_first_used s i n = None \<longleftrightarrow> run_free s i n"
  by (auto simp: heap_first_used_def run_free_def find_None_iff)

lemma heap_first_used_Some:
  assumes "heap_first_used s i n = Some j"
  shows "j < unat n" "get_heap_index s (i + of_nat j) \<noteq> 0"
  using assms by (auto simp: heap_first_used_def find_Some_iff)

lemma run_free_upto_used:
  assumes "get_heap_index s (i + of_nat j) \<noteq> 0" "j < unat n" "unat i + j < 2 ^ 32"
    and "i \<le> k" "k \<le> i + of_nat j"
  shows "\<not> run_free s k n"
proof
  assume free: "run_free s k n"
  have j: "unat (of_nat j :: u32) = j" using assms(3) by (simp add: unat_of_nat_lt)
  have e: "unat (i + of_nat j) = unat i + j" using assms(3) j by (simp add: unat_add_lt)
  define d where "d = unat i + j - unat k"
  have k: "unat i \<le> unat k" "unat k \<le> unat i + j" using assms(4,5) e by (simp_all add: word_le_nat_alt)
  have "d < unat n" using assms(2) k by (simp add: d_def)
  have "k + of_nat d = i + of_nat j"
  proof -
    have "unat (of_nat d :: u32) = d" using assms(3) by (simp add: d_def unat_of_nat_lt)
    moreover from this have "unat k + unat (of_nat d :: u32) < 2 ^ LENGTH(32)"
      using k assms(3) by (simp add: d_def)
    ultimately have "unat (k + of_nat d) = unat i + j"
      using k unat_add_lt [of k "of_nat d"] by (simp add: d_def)
    with e show ?thesis by (simp add: word_unat_eq_iff)
  qed
  with free \<open>d < unat n\<close> assms(1) show False by (auto simp: run_free_def)
qed

text \<open>The search goes on behind the used page it met; no run that starts before it is free.\<close>

lemma heap_search_skip:
  assumes "unat (heap_max_index s) + unat n \<le> 2 ^ 32" "i < heap_max_index s" "heap_first_used s i n = Some j"
  shows "unat (i + of_nat j + 1) = Suc (unat i + j)" "heap_search s n i = heap_search s n (i + of_nat j + 1)"
    "i \<le> k \<Longrightarrow> \<not> i + of_nat j + 1 \<le> k \<Longrightarrow> \<not> run_free s k n"
proof -
  note j = heap_first_used_Some [OF assms(3)]
  have in_map: "i + of_nat j < heap_max_index s"
    using j(2) heap_index_outside [of s "i + of_nat j"] by (meson not_le)
  have ij: "unat i + j < 2 ^ 32" using assms(1,2) j(1) by (simp add: word_less_nat_alt)
  have sum: "unat (i + of_nat j) = unat i + j" using ij by (simp add: unat_add_lt unat_of_nat_lt)
  show next1: "unat (i + of_nat j + 1) = Suc (unat i + j)" using unat_Suc_less [OF in_map] sum by simp
  show "heap_search s n i = heap_search s n (i + of_nat j + 1)" using assms(2,3) by (simp add: heap_search.simps [of s n i])
  assume k: "i \<le> k" "\<not> i + of_nat j + 1 \<le> k"
  then have "k \<le> i + of_nat j" using next1 sum by (simp add: word_le_nat_alt)
  then show "\<not> run_free s k n" by (rule run_free_upto_used [OF j(2,1) ij k(1)])
qed

lemma heap_search_first_fit:
  assumes "unat (heap_max_index s) + unat n \<le> 2 ^ 32" "0 < n"
  shows "\<exists>r. heap_search s n i = Some r \<and>
     (case r of
        None \<Rightarrow> \<forall>k. i \<le> k \<and> k < heap_max_index s \<longrightarrow> \<not> run_free s k n
      | Some k \<Rightarrow> i \<le> k \<and> k < heap_max_index s \<and> run_free s k n \<and>
          (\<forall>k'. i \<le> k' \<and> k' < k \<longrightarrow> \<not> run_free s k' n))"
proof (induction "unat (heap_max_index s) - unat i" arbitrary: i rule: less_induct)
  case less
  note step = heap_search.simps [of s n i]
  show ?case
  proof (cases "i < heap_max_index s")
    case False
    then show ?thesis by (auto simp: step)
  next
    case True
    show ?thesis
    proof (cases "heap_first_used s i n")
      case None
      then have "run_free s i n" by (simp add: heap_first_used_None)
      with True None show ?thesis by (auto simp: step)
    next
      case (Some j)
      note next1 = heap_search_skip(1) [OF assms(1) True Some] and skip = heap_search_skip(3) [OF assms(1) True Some]
      have "unat (heap_max_index s) - unat (i + of_nat j + 1) < unat (heap_max_index s) - unat i"
        using True next1 by (simp add: word_less_nat_alt)
      with less obtain r where r: "heap_search s n i = Some r"
        "case r of
           None \<Rightarrow> \<forall>k. i + of_nat j + 1 \<le> k \<and> k < heap_max_index s \<longrightarrow> \<not> run_free s k n
         | Some k \<Rightarrow> i + of_nat j + 1 \<le> k \<and> k < heap_max_index s \<and> run_free s k n \<and>
             (\<forall>k'. i + of_nat j + 1 \<le> k' \<and> k' < k \<longrightarrow> \<not> run_free s k' n)"
        unfolding heap_search_skip(2) [OF assms(1) True Some] by blast
      have le: "i \<le> k" if "i + of_nat j + 1 \<le> k" for k using that next1 by (simp add: word_le_nat_alt)
      show ?thesis
      proof (cases r)
        case None
        with r skip show ?thesis by (intro exI [of _ r]) auto
      next
        case (Some k)
        with r skip le [of k] show ?thesis by (intro exI [of _ r]) auto
      qed
    qed
  qed
qed

subsection \<open>The heap as a set of blocks\<close>

text \<open>
  The abstract heap: a finite map from the first page of each live block to its length.
  \<open>heap_rep B s\<close> says that the nibbles of \<open>s\<close> are exactly the flags of the blocks of \<open>B\<close>.
\<close>

type_synonym blocks = "nat \<rightharpoonup> nat"

definition covered :: "blocks \<Rightarrow> nat \<Rightarrow> bool" where
  "covered B k \<longleftrightarrow> (\<exists>a n. B a = Some n \<and> a \<le> k \<and> k < a + n)"

definition gap :: "blocks \<Rightarrow> nat \<Rightarrow> nat \<Rightarrow> nat \<Rightarrow> bool" where
  "gap B M a n \<longleftrightarrow> a + n \<le> M \<and> (\<forall>k. a \<le> k \<and> k < a + n \<longrightarrow> \<not> covered B k)"

definition heap_pages :: "'a heap_state_scheme \<Rightarrow> nat" where
  "heap_pages s = unat (heap_max_index s)"

definition heap_rep :: "blocks \<Rightarrow> 'a heap_state_scheme \<Rightarrow> bool" where
  "heap_rep B s \<longleftrightarrow>
     (\<forall>a n. B a = Some n \<longrightarrow> 0 < n \<and> a + n \<le> heap_pages s) \<and>
     (\<forall>a n b m. B a = Some n \<and> B b = Some m \<and> a < b \<longrightarrow> a + n \<le> b) \<and>
     (\<forall>a n i. B a = Some n \<and> i < n \<longrightarrow>
        get_heap_index s (of_nat (a + i)) = ucast (heap_page_flags (of_nat n) (of_nat i))) \<and>
     (\<forall>k < heap_pages s. \<not> covered B k \<longrightarrow> get_heap_index s (of_nat k) = 0)"

text \<open>
  The heap after \<^verbatim>\<open>heap_init\<close>: unlocked, the hint 0 (no function changes it), and the pages
  inside the address space and below 2 GiB, so that pointer differences stay positive.
\<close>

definition heap_ready :: "'a heap_state_scheme \<Rightarrow> bool" where
  "heap_ready s \<longleftrightarrow> \<not> lock (heap_lock s) \<and> heap_first_free s = 0 \<and>
     heap_pages s \<le> 2 ^ 19 \<and> unat (heap_base s) + heap_pages s * 4096 \<le> 2 ^ 32"

definition heap_addr :: "'a heap_state_scheme \<Rightarrow> nat \<Rightarrow> nat \<Rightarrow> u32" where
  "heap_addr s p off = heap_base s + of_nat (p * 4096 + off)"

lemma heap_repD:
  assumes "heap_rep B s" "B a = Some n"
  shows "0 < n" "a + n \<le> heap_pages s"
    "i < n \<Longrightarrow> get_heap_index s (of_nat (a + i)) = ucast (heap_page_flags (of_nat n) (of_nat i))"
    "B b = Some m \<Longrightarrow> a < b \<Longrightarrow> a + n \<le> b"
  using assms by (auto simp: heap_rep_def)

lemma heap_rep_disjoint:
  assumes "heap_rep B s" "B a = Some n" "B b = Some m" "a \<le> k" "k < a + n" "b \<le> k" "k < b + m"
  shows "a = b"
proof (rule ccontr)
  assume "a \<noteq> b"
  then have "a < b \<or> b < a" by auto
  then show False
    using heap_repD(4) [OF assms(1,2,3)] heap_repD(4) [OF assms(1,3,2)] assms(4-) by auto
qed

lemma heap_rep_outside: "heap_rep B s \<Longrightarrow> covered B k \<Longrightarrow> k < heap_pages s"
  using heap_repD(2) by (fastforce simp: covered_def)

lemma page_flags_nonzero: "(ucast (heap_page_flags n i) :: u8) \<noteq> 0"
  by (auto simp: heap_page_flags_def)

lemma page_flags_links:
  "(ucast (heap_page_flags n i) :: u8) AND 4 \<noteq> 0 \<longleftrightarrow> i > 0"
  "(ucast (heap_page_flags n i) :: u8) AND 2 \<noteq> 0 \<longleftrightarrow> i < n - 1"
  by (auto simp: heap_page_flags_def)

lemma heap_rep_flag_iff:
  assumes "heap_rep B s" "heap_pages s \<le> 2 ^ 31" "k < 2 ^ 32"
  shows "get_heap_index s (of_nat k) \<noteq> 0 \<longleftrightarrow> covered B k"
proof (cases "k < heap_pages s")
  case False
  have "unat (of_nat k :: u32) = k" using assms(3) by (simp add: unat_of_nat_lt)
  with False have "heap_max_index s \<le> of_nat k" by (simp add: heap_pages_def word_le_nat_alt)
  with False show ?thesis
    using heap_rep_outside [OF assms(1)] by (auto simp: heap_index_outside)
next
  case True
  show ?thesis
  proof (cases "covered B k")
    case False
    with True assms(1) show ?thesis by (auto simp: heap_rep_def)
  next
    case cov: True
    then obtain a n where "B a = Some n" "a \<le> k" "k < a + n" by (auto simp: covered_def)
    then show ?thesis
      using heap_repD(3) [OF assms(1), of a n "k - a"] page_flags_nonzero cov by simp
  qed
qed

lemma run_free_gap:
  assumes "heap_rep B s" "heap_pages s \<le> 2 ^ 31" "a + unat n \<le> heap_pages s"
  shows "run_free s (of_nat a) n \<longleftrightarrow> gap B (heap_pages s) a (unat n)"
proof -
  have "get_heap_index s (of_nat a + of_nat j) = 0 \<longleftrightarrow> \<not> covered B (a + j)" if "j < unat n" for j
    using heap_rep_flag_iff [OF assms(1,2), of "a + j"] assms(2,3) that by fastforce
  moreover have "(\<forall>j < unat n. \<not> covered B (a + j)) \<longleftrightarrow> (\<forall>k. a \<le> k \<and> k < a + unat n \<longrightarrow> \<not> covered B k)"
    by (metis le_add1 nat_add_left_cancel_less nat_le_iff_add)
  ultimately show ?thesis using assms(3) by (simp add: run_free_def gap_def)
qed


subsection \<open>Allocation adds a block\<close>

lemma covered_upd:
  assumes "B a = None"
  shows "covered (B(a \<mapsto> n)) k \<longleftrightarrow> covered B k \<or> a \<le> k \<and> k < a + n"
  using assms by (auto simp: covered_def split: if_splits)

lemma gap_fresh:
  assumes "heap_rep B s" "gap B (heap_pages s) a n" "0 < n"
  shows "B a = None"
proof (rule ccontr)
  assume "B a \<noteq> None"
  then obtain m where m: "B a = Some m" by auto
  with assms(1) have "covered B a" using heap_repD(1) by (fastforce simp: covered_def)
  with assms(2,3) show False by (auto simp: gap_def)
qed

lemma heap_pages_frame [simp]:
  "heap_pages (heap_mark start n s) = heap_pages s"
  "heap_pages (s\<lparr>heap_lock := l\<rparr>) = heap_pages s"
  by (simp_all add: heap_pages_def)

lemma heap_mark_flag:
  assumes "heap_pages s \<le> 2 ^ 31" "a + unat n \<le> heap_pages s" "k < heap_pages s"
  shows "get_heap_index (heap_mark (of_nat a) n s) (of_nat k) =
      (if a \<le> k \<and> k < a + unat n then ucast (heap_page_flags n (of_nat (k - a)))
       else get_heap_index s (of_nat k))"
proof -
  have k: "unat (of_nat k :: u32) = k" and a: "unat (of_nat a :: u32) = a"
    using assms by (simp_all add: unat_of_nat_lt)
  have "of_nat k - of_nat a < n \<longleftrightarrow> a \<le> k \<and> k < a + unat n"
    using assms k a by (auto simp: word_less_nat_alt unat_sub_if')
  moreover have "of_nat k - of_nat a = (of_nat (k - a) :: u32)" if "a \<le> k" using that by simp
  moreover have "of_nat k < heap_max_index s" using assms(3) k by (simp add: word_less_nat_alt heap_pages_def)
  ultimately show ?thesis by (auto simp: get_heap_mark)
qed

lemma heap_mark_rep:
  assumes rep: "heap_rep B s" and M: "heap_pages s \<le> 2 ^ 31"
    and gap: "gap B (heap_pages s) a (unat n)" and n: "0 < n"
  shows "heap_rep (B(a \<mapsto> unat n)) (heap_mark (of_nat a) n s)"
proof -
  have n': "0 < unat n" using n by (simp add: word_less_nat_alt)
  have fit: "a + unat n \<le> heap_pages s" using gap by (simp add: gap_def)
  have fresh: "B a = None" by (rule gap_fresh [OF rep gap n'])
  note flag = heap_mark_flag [OF M fit]
  have sep: "b + m \<le> a \<or> a + unat n \<le> b" if "B b = Some m" for b m
  proof (rule ccontr)
    assume "\<not> ?thesis"
    then have "covered B (max a b)" "a \<le> max a b" "max a b < a + unat n"
      using that n' heap_repD(1) [OF rep that] by (auto simp: covered_def max_def intro!: exI)
    with gap show False by (auto simp: gap_def)
  qed
  have old: "get_heap_index (heap_mark (of_nat a) n s) (of_nat (b + i)) =
      ucast (heap_page_flags (of_nat m) (of_nat i))" if "B b = Some m" "i < m" for b m i
  proof -
    have "b + i < heap_pages s" using heap_repD(2) [OF rep that(1)] that(2) by simp
    moreover have "\<not> (a \<le> b + i \<and> b + i < a + unat n)" using sep [OF that(1)] that(2) by auto
    ultimately show ?thesis using flag [of "b + i"] heap_repD(3) [OF rep that] by auto
  qed
  have new: "get_heap_index (heap_mark (of_nat a) n s) (of_nat (a + i)) =
      ucast (heap_page_flags n (of_nat i))" if "i < unat n" for i
    using flag [of "a + i"] that fit by simp
  show ?thesis
    unfolding heap_rep_def
  proof (intro conjI allI impI; (elim conjE)?)
    fix b m assume "(B(a \<mapsto> unat n)) b = Some m"
    then show "0 < m" "b + m \<le> heap_pages (heap_mark (of_nat a) n s)"
      using heap_repD(1,2) [OF rep] n' fit by (auto split: if_splits)
  next
    fix b m c l assume "(B(a \<mapsto> unat n)) b = Some m" "(B(a \<mapsto> unat n)) c = Some l" "b < c"
    then show "b + m \<le> c"
      using heap_repD(4) [OF rep] sep fresh heap_repD(1) [OF rep] n' by (fastforce split: if_splits)
  next
    fix b m i assume "(B(a \<mapsto> unat n)) b = Some m" "i < m"
    then show "get_heap_index (heap_mark (of_nat a) n s) (of_nat (b + i)) =
        ucast (heap_page_flags (of_nat m) (of_nat i))"
      using old new by (auto split: if_splits)
  next
    fix k assume "k < heap_pages (heap_mark (of_nat a) n s)" "\<not> covered (B(a \<mapsto> unat n)) k"
    then show "get_heap_index (heap_mark (of_nat a) n s) (of_nat k) = 0"
      using flag [of k] rep by (auto simp: covered_upd [of B a, OF fresh] heap_rep_def)
  qed
qed

lemma heap_rep_lock [simp]: "heap_rep B (s\<lparr>heap_lock := l\<rparr>) = heap_rep B s"
  by (simp add: heap_rep_def)

lemma heap_alloc_unlocked:
  assumes "\<not> lock (heap_lock s)"
  defines "s1 \<equiv> s\<lparr>heap_lock := \<lparr>lock = True\<rparr>\<rparr>"
  shows "heap_alloc n s = do {
     r \<leftarrow> heap_search s1 n (heap_first_free s);
     let start = (case r of Some i \<Rightarrow> i | None \<Rightarrow> 0);
     if start = 0 \<and> get_heap_index s start \<noteq> 0
     then Some (0, s1\<lparr>heap_lock := \<lparr>lock = False\<rparr>\<rparr>)
     else Some (heap_base s + start * PAGE_SIZE_BYTES,
            (heap_mark start n s1)\<lparr>heap_lock := \<lparr>lock = False\<rparr>\<rparr>)}"
  using assms(1) by (simp add: heap_alloc_def s1_def lock_defs Let_def cong: if_cong)

lemma heap_alloc_gap:
  assumes ready: "heap_ready s" and rep: "heap_rep B s" and n: "0 < n"
    and fits: "gap B (heap_pages s) b (unat n)"
  obtains a where
    "heap_alloc n s = Some (heap_base s + of_nat a * PAGE_SIZE_BYTES,
       (heap_mark (of_nat a) n (s\<lparr>heap_lock := \<lparr>lock = True\<rparr>\<rparr>))\<lparr>heap_lock := \<lparr>lock = False\<rparr>\<rparr>)"
    "gap B (heap_pages s) a (unat n)" "\<And>c. c < a \<Longrightarrow> \<not> gap B (heap_pages s) c (unat n)"
proof -
  define s1 where "s1 = s\<lparr>heap_lock := \<lparr>lock = True\<rparr>\<rparr>"
  have M: "heap_pages s \<le> 2 ^ 19" "heap_pages s1 = heap_pages s" "heap_rep B s1" "heap_first_free s = 0"
    using ready rep by (simp_all add: heap_ready_def s1_def)
  have fit: "b + unat n \<le> heap_pages s" using fits by (simp add: gap_def)
  have n': "0 < unat n" using n by (simp add: word_less_nat_alt)
  have run: "run_free s1 (of_nat c) n \<longleftrightarrow> gap B (heap_pages s) c (unat n)"
    if "c + unat n \<le> heap_pages s" for c
    using run_free_gap [OF M(3)] M that by simp
  have ub: "unat (of_nat b :: u32) = b" using fit M by (simp add: unat_of_nat_lt)
  have "unat (heap_max_index s1) + unat n \<le> 2 ^ 32" using M fit by (simp add: heap_pages_def)
  from heap_search_first_fit [OF this n, of 0] obtain r where
    r: "heap_search s1 n 0 = Some r" "case r of
        None \<Rightarrow> \<forall>k. k < heap_max_index s1 \<longrightarrow> \<not> run_free s1 k n
      | Some k \<Rightarrow> k < heap_max_index s1 \<and> run_free s1 k n \<and> (\<forall>k' < k. \<not> run_free s1 k' n)"
    by (auto cong: option.case_cong)
  have b: "of_nat b < heap_max_index s1" "run_free s1 (of_nat b) n"
    using fit n' M(2) ub run [OF fit] fits by (simp_all add: word_less_nat_alt heap_pages_def)
  then obtain k where k: "r = Some k" "run_free s1 k n" "\<And>k'. k' < k \<Longrightarrow> \<not> run_free s1 k' n"
    using r(2) by (cases r) auto
  have "k \<le> of_nat b" using b(2) k(3) by (meson not_le)
  then have le: "unat k \<le> b" using ub by (simp add: word_le_nat_alt)
  show thesis
  proof (rule that [of "unat k"])
    show "gap B (heap_pages s) (unat k) (unat n)" using run [of "unat k"] k(2) le fit by simp
    fix c assume c: "c < unat k"
    then have "(of_nat c :: u32) < k"
      using unat_u32_less [of k] by (simp add: word_less_nat_alt unat_of_nat_lt)
    with k(3) run [of c] c le fit show "\<not> gap B (heap_pages s) c (unat n)" by auto
  next
    have "get_heap_index s k = 0"
      using k(2) n' by (auto simp: run_free_def s1_def dest: spec [of _ 0])
    then show "heap_alloc n s = Some (heap_base s + of_nat (unat k) * PAGE_SIZE_BYTES,
       (heap_mark (of_nat (unat k)) n (s\<lparr>heap_lock := \<lparr>lock = True\<rparr>\<rparr>))\<lparr>heap_lock := \<lparr>lock = False\<rparr>\<rparr>)"
      using ready r(1) k(1) M(4) heap_alloc_unlocked [of s n]
      by (simp add: heap_ready_def s1_def Let_def)
  qed
qed

lemma heap_alloc_refines:
  assumes "heap_ready s" "heap_rep B s" "0 < n" "gap B (heap_pages s) b (unat n)"
  shows "\<exists>a s'. heap_alloc n s = Some (heap_addr s a 0, s') \<and>
     gap B (heap_pages s) a (unat n) \<and> (\<forall>c < a. \<not> gap B (heap_pages s) c (unat n)) \<and>
     heap_rep (B(a \<mapsto> unat n)) s' \<and> heap_ready s' \<and>
     heap_base s' = heap_base s \<and> heap_pages s' = heap_pages s"
proof -
  obtain a where a: "heap_alloc n s = Some (heap_base s + of_nat a * PAGE_SIZE_BYTES,
       (heap_mark (of_nat a) n (s\<lparr>heap_lock := \<lparr>lock = True\<rparr>\<rparr>))\<lparr>heap_lock := \<lparr>lock = False\<rparr>\<rparr>)"
    "gap B (heap_pages s) a (unat n)" "\<And>c. c < a \<Longrightarrow> \<not> gap B (heap_pages s) c (unat n)"
    by (rule heap_alloc_gap [OF assms]) blast
  have "heap_rep (B(a \<mapsto> unat n)) (heap_mark (of_nat a) n (s\<lparr>heap_lock := \<lparr>lock = True\<rparr>\<rparr>))"
    using assms a(2) by (intro heap_mark_rep) (auto simp: heap_ready_def)
  with a assms(1) show ?thesis
    by (auto simp: heap_addr_def heap_ready_def)
qed

subsection \<open>Release removes a block\<close>

lemma signed_drop_bit_small:
  fixes w :: u32
  assumes "unat w < 2 ^ 31"
  shows "signed_drop_bit n w = drop_bit n w"
proof (rule bit_word_eqI)
  fix m assume "m < LENGTH(32)"
  have "\<not> bit w 31"
  proof -
    have "\<not> bit (unat w) 31" using assms by (simp add: bit_iff_odd)
    then show ?thesis by (simp add: bit_unsigned_iff)
  qed
  with \<open>m < LENGTH(32)\<close> show "bit (signed_drop_bit n w) m = bit (drop_bit n w) m"
    by (auto simp: bit_signed_drop_bit_iff bit_drop_bit_eq dest: bit_imp_le_length)
qed

lemma heap_addr_index:
  assumes "p < 2 ^ 19" "off < 4096"
  shows "signed_drop_bit 12 (heap_addr s p off - heap_base s) = of_nat p"
proof -
  have "heap_addr s p off - heap_base s = of_nat (p * 4096 + off)" by (simp add: heap_addr_def)
  also have "unat \<dots> = p * 4096 + off" using assms by (intro unat_of_nat_lt) simp
  finally have u: "unat (heap_addr s p off - heap_base s) = p * 4096 + off" .
  then have "signed_drop_bit 12 (heap_addr s p off - heap_base s) =
      drop_bit 12 (heap_addr s p off - heap_base s)"
    using assms by (intro signed_drop_bit_small) simp
  moreover have "unat (drop_bit 12 (heap_addr s p off - heap_base s)) = p"
    using u assms by (simp add: unat_drop_bit)
  ultimately show ?thesis
    using assms by (simp add: word_unat_eq_iff unat_of_nat_lt)
qed

lemma heap_block_start_rep:
  assumes "heap_rep B s" "B a = Some n" "heap_pages s \<le> 2 ^ 31" "i < n"
  shows "heap_block_start s (of_nat (a + i)) = of_nat a"
  using assms(4)
proof (induction i)
  case 0
  then have "get_heap_index s (of_nat a) = ucast (heap_page_flags (of_nat n) 0)"
    using heap_repD(3) [OF assms(1,2), of 0] by simp
  then show ?case
    using page_flags_links(1) [of "of_nat n" 0] by (simp add: heap_block_start.simps)
next
  case (Suc i)
  have "Suc i < 2 ^ 32" using Suc.prems heap_repD(2) [OF assms(1,2)] assms(3) by simp
  then have "(of_nat (Suc i) :: u32) > 0" by (simp add: word_less_nat_alt unat_of_nat_lt del: of_nat_Suc)
  then have "get_heap_index s (of_nat (a + Suc i)) AND 4 \<noteq> 0"
    using heap_repD(3) [OF assms(1,2) Suc.prems] page_flags_links(1) by metis
  moreover have "of_nat (a + Suc i) - 1 = (of_nat (a + i) :: u32)" by simp
  ultimately show ?case
    using Suc by (simp only: heap_block_start.simps [of s "of_nat (a + Suc i)"]) simp
qed

lemma heap_block_clear_only_map: "\<exists>m. heap_block_clear i s = s\<lparr>heap_map := m\<rparr>"
proof (induction i s rule: heap_block_clear.induct)
  case (1 i s)
  have set: "\<exists>m. set_heap_index i 0 s = s\<lparr>heap_map := m\<rparr>"
  proof (cases "i < heap_max_index s")
    case False
    then show ?thesis by (intro exI [of _ "heap_map s"]) (simp add: set_heap_index_def)
  qed (auto simp: set_heap_index_def Let_def)
  show ?case
  proof (cases "get_heap_index s i AND ucast KMALLOC_LINK_NEXT = 0")
    case True
    then have "heap_block_clear i s = set_heap_index i 0 s"
      by (subst heap_block_clear.simps) (simp add: Let_def)
    with set show ?thesis by simp
  next
    case False
    then have "heap_block_clear i s = heap_block_clear (i + 1) (set_heap_index i 0 s)"
      by (subst heap_block_clear.simps) (simp add: Let_def)
    moreover obtain m where "heap_block_clear (i + 1) (set_heap_index i 0 s) =
        (set_heap_index i 0 s)\<lparr>heap_map := m\<rparr>"
      using "1.IH" [OF refl refl False] by blast
    ultimately show ?thesis using set by auto
  qed
qed

lemma heap_block_clear_frame [simp]:
  "heap_max_index (heap_block_clear i s) = heap_max_index s"
  "heap_base (heap_block_clear i s) = heap_base s"
  "heap_first_free (heap_block_clear i s) = heap_first_free s"
  "heap_lock (heap_block_clear i s) = heap_lock s"
  using heap_block_clear_only_map [of i s] by (auto simp: heap_max_index_def)

lemma heap_block_clear_flags:
  assumes "a + n \<le> heap_pages s" "heap_pages s \<le> 2 ^ 31" "i < n"
    and "\<And>j. i \<le> j \<Longrightarrow> j < n \<Longrightarrow>
      get_heap_index s (of_nat (a + j)) = ucast (heap_page_flags (of_nat n) (of_nat j))"
    and "k < heap_pages s"
  shows "get_heap_index (heap_block_clear (of_nat (a + i)) s) (of_nat k) =
     (if a + i \<le> k \<and> k < a + n then 0 else get_heap_index s (of_nat k))"
  using assms
proof (induction "n - i" arbitrary: i s)
  case 0
  then show ?case by simp
next
  case (Suc d)
  let ?i = "of_nat (a + i) :: u32" and ?s = "set_heap_index (of_nat (a + i)) 0 s"
  have small: "a + i < 2 ^ 32" "n < 2 ^ 32" "i < 2 ^ 32" "k < 2 ^ 32" using Suc.prems by simp_all
  have ui: "unat ?i = a + i" "unat (of_nat k :: u32) = k"
    by (rule unat_of_nat_lt, use small in simp)+
  have in_map: "?i < heap_max_index s"
    using Suc.prems ui by (simp add: word_less_nat_alt heap_pages_def)
  have eq: "?i = of_nat k \<longleftrightarrow> a + i = k" using ui by (metis word_unat_eq_iff)
  have get: "get_heap_index ?s (of_nat k) = (if a + i = k then 0 else get_heap_index s (of_nat k))"
    using in_map eq by (simp add: get_set_heap_index)
  have more: "get_heap_index s ?i AND 2 \<noteq> 0 \<longleftrightarrow> i < n - 1"
  proof -
    have "unat (of_nat n - 1 :: u32) = n - 1" "unat (of_nat i :: u32) = i"
      using small Suc.prems(3) by (simp_all add: unat_of_nat_lt unat_sub word_le_nat_alt)
    then have "(of_nat i :: u32) < of_nat n - 1 \<longleftrightarrow> i < n - 1" by (simp add: word_less_nat_alt)
    with Suc.prems(3,4) page_flags_links(2) show ?thesis by simp
  qed
  note step = heap_block_clear.simps [of ?i s]
  show ?case
  proof (cases "i < n - 1")
    case False
    with more have "heap_block_clear ?i s = ?s" by (simp add: step Let_def del: of_nat_add)
    with get False Suc.prems(3) show ?thesis by auto
  next
    case True
    with more have "heap_block_clear ?i s = heap_block_clear (?i + 1) ?s"
      by (simp add: step Let_def del: of_nat_add)
    moreover have "?i + 1 = of_nat (a + Suc i)" by simp
    ultimately have "heap_block_clear ?i s = heap_block_clear (of_nat (a + Suc i)) ?s" by (simp only:)
    moreover have "get_heap_index (heap_block_clear (of_nat (a + Suc i)) ?s) (of_nat k) =
       (if a + Suc i \<le> k \<and> k < a + n then 0 else get_heap_index ?s (of_nat k))"
    proof (rule Suc.hyps(1))
      fix j assume j: "Suc i \<le> j" "j < n"
      then have "?i \<noteq> of_nat (a + j)"
        using ui(1) small Suc.prems(1,2) by (auto simp: word_unat_eq_iff unat_of_nat_lt simp del: of_nat_add)
      with j Suc.prems(4) show "get_heap_index ?s (of_nat (a + j)) = ucast (heap_page_flags (of_nat n) (of_nat j))"
        by (simp add: get_set_heap_index)
    qed (use Suc True in \<open>auto simp: heap_pages_def\<close>)
    ultimately show ?thesis using get Suc.prems(3) by auto
  qed
qed

lemma heap_pages_clear [simp]: "heap_pages (heap_block_clear i s) = heap_pages s"
  by (simp add: heap_pages_def)

lemma covered_remove:
  assumes "heap_rep B s" "B a = Some n"
  shows "covered (B(a := None)) k \<longleftrightarrow> covered B k \<and> \<not> (a \<le> k \<and> k < a + n)"
proof
  assume "covered (B(a := None)) k"
  then obtain b m where b: "b \<noteq> a" "B b = Some m" "b \<le> k" "k < b + m"
    by (auto simp: covered_def split: if_splits)
  then show "covered B k \<and> \<not> (a \<le> k \<and> k < a + n)"
    using heap_rep_disjoint [OF assms(1) b(2) assms(2) b(3,4)] by (auto simp: covered_def)
next
  assume "covered B k \<and> \<not> (a \<le> k \<and> k < a + n)"
  then obtain b m where "B b = Some m" "b \<le> k" "k < b + m" "\<not> (a \<le> k \<and> k < a + n)"
    by (auto simp: covered_def)
  with assms(2) show "covered (B(a := None)) k"
    unfolding covered_def by (intro exI [of _ b] exI [of _ m]) auto
qed

lemma heap_block_clear_rep:
  assumes rep: "heap_rep B s" and M: "heap_pages s \<le> 2 ^ 31" and a: "B a = Some n"
  shows "heap_rep (B(a := None)) (heap_block_clear (of_nat a) s)"
proof -
  note D = heap_repD [OF rep]
  have flag: "get_heap_index (heap_block_clear (of_nat a) s) (of_nat k) =
     (if a \<le> k \<and> k < a + n then 0 else get_heap_index s (of_nat k))" if "k < heap_pages s" for k
    using heap_block_clear_flags [OF D(2) [OF a] M D(1) [OF a] _ that] D(3) [OF a] by simp
  have keep: "get_heap_index (heap_block_clear (of_nat a) s) (of_nat (b + i)) =
      ucast (heap_page_flags (of_nat m) (of_nat i))" if b: "B b = Some m" "b \<noteq> a" "i < m" for b m i
  proof -
    have "b + i < heap_pages s" using D(2) [OF b(1)] b(3) by simp
    moreover have "\<not> (a \<le> b + i \<and> b + i < a + n)"
      using heap_rep_disjoint [OF rep b(1) a, of "b + i"] b by auto
    ultimately show ?thesis using flag [of "b + i"] D(3) [OF b(1,3)] by auto
  qed
  show ?thesis
    unfolding heap_rep_def
  proof (intro conjI allI impI; (elim conjE)?)
    fix b m assume "(B(a := None)) b = Some m"
    then show "0 < m" "b + m \<le> heap_pages (heap_block_clear (of_nat a) s)"
      using D(1,2) by (auto split: if_splits)
  next
    fix b m c l assume "(B(a := None)) b = Some m" "(B(a := None)) c = Some l" "b < c"
    then show "b + m \<le> c" using D(4) by (auto split: if_splits)
  next
    fix b m i assume "(B(a := None)) b = Some m" "i < m"
    then show "get_heap_index (heap_block_clear (of_nat a) s) (of_nat (b + i)) =
        ucast (heap_page_flags (of_nat m) (of_nat i))"
      using keep by (auto split: if_splits)
  next
    fix k assume "k < heap_pages (heap_block_clear (of_nat a) s)" "\<not> covered (B(a := None)) k"
    then show "get_heap_index (heap_block_clear (of_nat a) s) (of_nat k) = 0"
      using flag [of k] rep covered_remove [OF rep a] by (auto simp: heap_rep_def)
  qed
qed

lemma heap_free_index:
  assumes "heap_ready s" "p < heap_pages s" "off < 4096"
  defines "s1 \<equiv> s\<lparr>heap_lock := \<lparr>lock = True\<rparr>\<rparr>"
  shows "heap_free (heap_addr s p off) s =
    Some ((heap_block_clear (heap_block_start s1 (of_nat p)) s1)\<lparr>heap_lock := \<lparr>lock = False\<rparr>\<rparr>)"
proof -
  have p: "p < 2 ^ 19" using assms(1,2) by (simp add: heap_ready_def)
  then have "unat (of_nat p :: u32) = p" by (simp add: unat_of_nat_lt)
  then have "\<not> of_nat p > heap_max_index s"
    using assms(2) by (simp add: heap_pages_def word_less_nat_alt)
  then show ?thesis
    using assms(1) heap_addr_index [OF p assms(3), of s]
    by (simp add: heap_free_def heap_ready_def s1_def lock_defs Let_def)
qed

lemma heap_free_refines:
  assumes "heap_ready s" "heap_rep B s" "p < heap_pages s" "off < 4096"
  shows "\<exists>s'. heap_free (heap_addr s p off) s = Some s' \<and> heap_ready s' \<and>
     heap_base s' = heap_base s \<and> heap_pages s' = heap_pages s \<and>
     (\<forall>a n. B a = Some n \<and> a \<le> p \<and> p < a + n \<longrightarrow> heap_rep (B(a := None)) s') \<and>
     (\<not> covered B p \<longrightarrow> heap_rep B s')"
proof -
  define s1 where "s1 = s\<lparr>heap_lock := \<lparr>lock = True\<rparr>\<rparr>"
  define c where "c = heap_block_clear (heap_block_start s1 (of_nat p)) s1"
  have M: "heap_pages s1 \<le> 2 ^ 31" and rep: "heap_rep B s1" and p: "p < heap_pages s1" "p < 2 ^ 32"
    using assms by (auto simp: s1_def heap_ready_def)
  have run: "heap_free (heap_addr s p off) s = Some (c\<lparr>heap_lock := \<lparr>lock = False\<rparr>\<rparr>)"
    using heap_free_index [OF assms(1,3,4)] by (simp add: c_def s1_def)
  have frame: "heap_ready (c\<lparr>heap_lock := \<lparr>lock = False\<rparr>\<rparr>)" "heap_base c = heap_base s" "heap_pages c = heap_pages s"
    using assms(1) by (simp_all add: c_def s1_def heap_ready_def)
  have block: "heap_rep (B(a := None)) c" if "B a = Some n" "a \<le> p" "p < a + n" for a n
    using heap_block_start_rep [OF rep that(1) M, of "p - a"] heap_block_clear_rep [OF rep M that(1)] that
    by (simp add: c_def)
  have "heap_rep B c" if "\<not> covered B p"
  proof -
    have z: "get_heap_index s1 (of_nat p) = 0" using heap_rep_flag_iff [OF rep M p(2)] that by auto
    then have "c = set_heap_index (of_nat p) 0 s1"
      by (simp add: c_def heap_block_start.simps [of s1 "of_nat p"] heap_block_clear.simps [of "of_nat p" s1])
    then have "get_heap_index c k = get_heap_index s1 k" for k
      using z by (auto simp: get_set_heap_index)
    moreover have "heap_pages c = heap_pages s1" using frame(3) by (simp add: s1_def)
    ultimately show ?thesis using rep by (simp add: heap_rep_def)
  qed
  with run frame block show ?thesis by auto
qed

subsection \<open>The contract of a block allocator\<close>

text \<open>
  What the clients of the heap rely on, without its flags: an allocator of page blocks over
  an abstract set of live blocks.
\<close>

locale block_allocator =
  fixes rep :: "blocks \<Rightarrow> 's \<Rightarrow> bool"
    and ready :: "'s \<Rightarrow> bool"
    and pages :: "'s \<Rightarrow> nat"
    and addr :: "'s \<Rightarrow> nat \<Rightarrow> nat \<Rightarrow> u32"
    and alloc :: "u32 \<Rightarrow> 's \<Rightarrow> (u32 \<times> 's) option"
    and free :: "u32 \<Rightarrow> 's \<Rightarrow> 's option"
  assumes alloc_law: "ready s \<Longrightarrow> rep B s \<Longrightarrow> 0 < n \<Longrightarrow> gap B (pages s) b (unat n) \<Longrightarrow>
      \<exists>a s'. alloc n s = Some (addr s a 0, s') \<and> gap B (pages s) a (unat n) \<and>
        rep (B(a \<mapsto> unat n)) s' \<and> ready s' \<and> pages s' = pages s \<and> addr s' = addr s"
    and free_law: "ready s \<Longrightarrow> rep B s \<Longrightarrow> B a = Some k \<Longrightarrow> a \<le> p \<Longrightarrow> p < a + k \<Longrightarrow> off < 4096 \<Longrightarrow>
      \<exists>s'. free (addr s p off) s = Some s' \<and> rep (B(a := None)) s' \<and> ready s' \<and>
        pages s' = pages s \<and> addr s' = addr s"
    and rep_fresh: "rep B s \<Longrightarrow> gap B (pages s) a k \<Longrightarrow> 0 < k \<Longrightarrow> B a = None"
    and rep_separate: "rep B s \<Longrightarrow> B a = Some k \<Longrightarrow> B b = Some m \<Longrightarrow> a \<noteq> b \<Longrightarrow>
      a + k \<le> b \<or> b + m \<le> a"
begin

lemma alloc_free_restores:
  assumes "ready s" "rep B s" "0 < n" "gap B (pages s) b (unat n)" "off < unat n * 4096"
  shows "\<exists>a s1 s2. alloc n s = Some (addr s a 0, s1) \<and>
     free (addr s (a + off div 4096) (off mod 4096)) s1 = Some s2 \<and> rep B s2 \<and> ready s2"
proof -
  obtain a s1 where s1: "alloc n s = Some (addr s a 0, s1)" "gap B (pages s) a (unat n)"
      "rep (B(a \<mapsto> unat n)) s1" "ready s1" "addr s1 = addr s"
    using alloc_law [OF assms(1-4)] by blast
  have "B a = None"
    using rep_fresh [OF assms(2) s1(2)] assms(3) by (simp add: word_less_nat_alt)
  then have same: "(B(a \<mapsto> unat n))(a := None) = B" by (simp add: fun_eq_iff)
  have "off div 4096 < unat n" using assms(5) by (simp add: less_mult_imp_div_less)
  then obtain s2 where "free (addr s1 (a + off div 4096) (off mod 4096)) s1 = Some s2"
      "rep B s2" "ready s2"
    using free_law [OF s1(4,3), of a "unat n" "a + off div 4096" "off mod 4096"] same by auto
  with s1 show ?thesis by auto
qed

lemma two_allocs_disjoint:
  assumes "ready s" "rep B s" "0 < n" "gap B (pages s) b (unat n)"
    and "alloc n s = Some (x, s1)" "0 < m" "\<forall>B1. rep B1 s1 \<longrightarrow> gap B1 (pages s1) c (unat m)"
  shows "\<exists>a a' s2. x = addr s a 0 \<and> alloc m s1 = Some (addr s a' 0, s2) \<and>
     (a + unat n \<le> a' \<or> a' + unat m \<le> a)"
proof -
  obtain a where a: "x = addr s a 0" "rep (B(a \<mapsto> unat n)) s1" "ready s1" "addr s1 = addr s"
    using alloc_law [OF assms(1-4)] assms(5) by auto
  obtain a' s2 where s2: "alloc m s1 = Some (addr s1 a' 0, s2)"
      "gap (B(a \<mapsto> unat n)) (pages s1) a' (unat m)" "rep (B(a \<mapsto> unat n, a' \<mapsto> unat m)) s2"
    using alloc_law [OF a(3,2) assms(6)] assms(7) a(2) by blast
  have "(B(a \<mapsto> unat n)) a' = None"
    using rep_fresh [OF a(2) s2(2)] assms(6) by (simp add: word_less_nat_alt)
  then have "a \<noteq> a'" by auto
  then have "a + unat n \<le> a' \<or> a' + unat m \<le> a" using rep_separate [OF s2(3)] by auto
  with a s2 show ?thesis by auto
qed

end

interpretation kheap: block_allocator
  "heap_rep :: blocks \<Rightarrow> 'a heap_state_scheme \<Rightarrow> bool" heap_ready heap_pages heap_addr heap_alloc heap_free
proof
  fix s :: "'a heap_state_scheme" and B b and n :: u32
  assume "heap_ready s" "heap_rep B s" "0 < n" "gap B (heap_pages s) b (unat n)"
  from heap_alloc_refines [OF this]
  show "\<exists>a s'. heap_alloc n s = Some (heap_addr s a 0, s') \<and> gap B (heap_pages s) a (unat n) \<and>
      heap_rep (B(a \<mapsto> unat n)) s' \<and> heap_ready s' \<and> heap_pages s' = heap_pages s \<and>
      heap_addr s' = heap_addr s"
    by (auto simp: heap_addr_def fun_eq_iff)
next
  fix s :: "'a heap_state_scheme" and B a n p off
  assume *: "heap_ready s" "heap_rep B s" "B a = Some n" "a \<le> p" "p < a + n" "off < (4096::nat)"
  then have "p < heap_pages s" using heap_repD(2) [of B s a n] by simp
  from heap_free_refines [OF *(1,2) this *(6)] *(3,4,5)
  show "\<exists>s'. heap_free (heap_addr s p off) s = Some s' \<and> heap_rep (B(a := None)) s' \<and>
      heap_ready s' \<and> heap_pages s' = heap_pages s \<and> heap_addr s' = heap_addr s"
    by (auto simp: heap_addr_def fun_eq_iff)
next
  fix s :: "'a heap_state_scheme" and B a n b m
  assume rep: "heap_rep B s"
  show "B a = None" if "gap B (heap_pages s) a n" "0 < n"
    using gap_fresh [OF rep that] .
  show "a + n \<le> b \<or> b + m \<le> a" if "B a = Some n" "B b = Some m" "a \<noteq> b"
    using heap_repD(4) [OF rep that(1,2)] heap_repD(4) [OF rep that(2,1)] that(3) by (meson nat_neq_iff)
qed

subsection \<open>Properties of the heap\<close>

definition heap_example :: heap_state where
  "heap_example = pm_state.extend pm_example
     \<lparr>heap_map = (\<lambda>_. 0), heap_map_size = 2, heap_base = 0xd0000000, heap_first_free = 0,
      heap_lock = \<lparr>lock = False\<rparr>\<rparr>"

lemma heap_example_ready: "heap_ready heap_example" "heap_pages heap_example = 4"
  by (simp_all add: heap_example_def heap_ready_def heap_pages_def heap_max_index_def pm_state.defs)

lemma heap_example_rep: "heap_rep Map.empty heap_example"
  by (simp add: heap_rep_def get_heap_index_def heap_example_def pm_state.defs)

lemma heap_example_gap: "gap Map.empty (heap_pages heap_example) 0 (unat (3 :: u32))"
  by (simp add: gap_def covered_def heap_example_ready)

text \<open>
  C7. Whenever a run of \<^verbatim>\<open>size_pgs\<close> free pages exists inside the heap, \<^verbatim>\<open>heap_alloc\<close> returns
  the address of the lowest such run, and the heap afterwards represents the old blocks and
  exactly that new block; in particular the block overlaps no live block.
\<close>

theorem heap_alloc_first_fit:
  assumes "heap_ready s" "heap_rep B s" "0 < n" "gap B (heap_pages s) b (unat n)"
  shows "\<exists>a s'. heap_alloc n s = Some (heap_addr s a 0, s') \<and>
     gap B (heap_pages s) a (unat n) \<and> (\<forall>c < a. \<not> gap B (heap_pages s) c (unat n)) \<and>
     heap_rep (B(a \<mapsto> unat n)) s' \<and> heap_ready s' \<and>
     heap_base s' = heap_base s \<and> heap_pages s' = heap_pages s"
  by (rule heap_alloc_refines [OF assms])

theorem heap_alloc_first_fit_witness:
  "\<exists>a s'. heap_alloc 3 heap_example = Some (heap_addr heap_example a 0, s') \<and>
     heap_rep (Map.empty(a \<mapsto> unat (3 :: u32))) s'"
  using heap_alloc_first_fit [OF heap_example_ready(1) heap_example_rep _ heap_example_gap] by auto

text \<open>
  \<^verbatim>\<open>heap_free\<close> of any address inside a live block, not only of its start, releases that
  block and no other; of an address in a free page it changes no block.
\<close>

theorem heap_free_releases_block:
  assumes "heap_ready s" "heap_rep B s" "p < heap_pages s" "off < 4096"
  shows "\<exists>s'. heap_free (heap_addr s p off) s = Some s' \<and> heap_ready s' \<and>
     heap_base s' = heap_base s \<and> heap_pages s' = heap_pages s \<and>
     (\<forall>a n. B a = Some n \<and> a \<le> p \<and> p < a + n \<longrightarrow> heap_rep (B(a := None)) s') \<and>
     (\<not> covered B p \<longrightarrow> heap_rep B s')"
  by (rule heap_free_refines [OF assms])

text \<open>A heap with one live block of two pages: \<^verbatim>\<open>0x53\<close> holds the two nibbles.\<close>

definition heap_example_block :: heap_state where
  "heap_example_block = heap_example\<lparr>heap_map := (\<lambda>_. 0)(0 := 0x53)\<rparr>"

lemma less_4_cases: "k < (4 :: nat) \<Longrightarrow> k = 0 \<or> k = 1 \<or> k = 2 \<or> k = 3"
  by auto

lemma heap_example_block_rep: "heap_rep [0 \<mapsto> 2] heap_example_block"
proof -
  note defs = heap_example_block_def heap_example_def pm_state.defs get_heap_index_def heap_max_index_def
  have flags: "get_heap_index heap_example_block 0 = 3" "get_heap_index heap_example_block 1 = 5"
    "get_heap_index heap_example_block 2 = 0" "get_heap_index heap_example_block 3 = 0"
    by (simp_all add: defs)
  have pages: "heap_pages heap_example_block = 4" by (simp add: defs heap_pages_def)
  have "k = 2 \<or> k = 3" if "k < 4" "\<not> covered [0 \<mapsto> 2] k" for k
    using that less_4_cases [of k] by (auto simp: covered_def)
  then have free: "get_heap_index heap_example_block (of_nat k) = 0"
    if "k < 4" "\<not> covered [0 \<mapsto> 2] k" for k
    using that flags by force
  then show ?thesis
    by (auto simp: heap_rep_def pages flags heap_page_flags_def less_2_cases_iff split: if_splits)
qed

lemma heap_example_block_ready: "heap_ready heap_example_block" "heap_pages heap_example_block = 4"
  by (simp_all add: heap_example_block_def heap_example_def heap_ready_def heap_pages_def
      heap_max_index_def pm_state.defs)

theorem heap_free_releases_block_witness:
  "\<exists>s'. heap_free (heap_addr heap_example_block 1 0x20) heap_example_block = Some s' \<and>
     heap_rep Map.empty s'"
proof -
  obtain s' where s': "heap_free (heap_addr heap_example_block 1 0x20) heap_example_block = Some s'"
      "\<forall>a n. [0 \<mapsto> 2] a = Some n \<and> a \<le> 1 \<and> 1 < a + n \<longrightarrow> heap_rep ([0 \<mapsto> 2](a := None)) s'"
    using heap_free_releases_block [OF heap_example_block_ready(1) heap_example_block_rep,
      where p = 1 and off = "0x20"] by (auto simp: heap_example_block_ready(2))
  from s'(2) have "heap_rep ([0 \<mapsto> 2](0 := None)) s'" by (elim allE [of _ 0] allE [of _ 2]) simp
  moreover have "[0 \<mapsto> 2](0 := None) = (Map.empty :: blocks)" by simp
  ultimately have "heap_rep Map.empty s'" by (simp only:)
  with s'(1) show ?thesis by (intro exI conjI)
qed

text \<open>
  Freeing any address of the block that \<^verbatim>\<open>heap_alloc\<close> has just returned restores the set
  of live blocks, and leaves the heap unlocked and usable.
\<close>

theorem heap_alloc_free_roundtrip:
  assumes "heap_ready s" "heap_rep B s" "0 < n" "gap B (heap_pages s) b (unat n)"
    and "off < unat n * 4096"
  shows "\<exists>a s1 s2. heap_alloc n s = Some (heap_addr s a 0, s1) \<and>
     heap_free (heap_addr s (a + off div 4096) (off mod 4096)) s1 = Some s2 \<and>
     heap_rep B s2 \<and> heap_ready s2"
  by (rule kheap.alloc_free_restores [OF assms])

theorem heap_alloc_free_roundtrip_witness:
  "\<exists>a s1 s2. heap_alloc 3 heap_example = Some (heap_addr heap_example a 0, s1) \<and>
     heap_free (heap_addr heap_example (a + 0x1234 div 4096) (0x1234 mod 4096)) s1 = Some s2 \<and>
     heap_rep Map.empty s2 \<and> heap_ready s2"
  by (rule heap_alloc_free_roundtrip [OF heap_example_ready(1) heap_example_rep _ heap_example_gap])
    simp_all

text \<open>
  When no run is found, \<^verbatim>\<open>heap_alloc\<close> falls back to \<^verbatim>\<open>start = 0\<close> and fails only if page 0 is
  in use.  In a heap of four pages whose last three form one live block, a request for two
  pages returns the heap base and marks page 1, which belongs to the live block.
\<close>

theorem heap_alloc_overlaps_live_block:
  "\<exists>(s :: heap_state) s'. heap_ready s \<and> heap_rep [1 \<mapsto> 3] s \<and> heap_pages s = 4 \<and>
     heap_alloc 2 s = Some (heap_addr s 0 0, s') \<and>
     get_heap_index s 1 = ucast (heap_page_flags 3 0) \<and>
     get_heap_index s' 0 = ucast (heap_page_flags 2 0) \<and>
     get_heap_index s' 1 = ucast (heap_page_flags 2 1)"
proof -
  define s :: heap_state where "s = heap_example\<lparr>heap_map := (\<lambda>_. 0)(0 := 0x30, 1 := 0x57)\<rparr>"
  note defs = s_def heap_example_def pm_state.defs get_heap_index_def heap_max_index_def
  have flags: "get_heap_index s 0 = 0" "get_heap_index s 1 = 3"
    "get_heap_index s 2 = 7" "get_heap_index s 3 = 5" by (simp_all add: defs)
  have pages: "heap_pages s = 4" by (simp add: defs heap_pages_def)
  have "k = 0" if "k < 4" "\<not> covered [1 \<mapsto> 3] k" for k
  proof -
    have "\<not> (1 \<le> k \<and> k < 1 + 3)" using that(2) unfolding covered_def by (auto intro: exI [of _ 1])
    with that(1) show ?thesis by auto
  qed
  moreover have "i = 0 \<or> i = 1 \<or> i = 2" if "i < (3 :: nat)" for i using that by auto
  ultimately have rep: "heap_rep [1 \<mapsto> 3] s"
    unfolding heap_rep_def pages by (fastforce simp: flags heap_page_flags_def split: if_splits)
  have ready: "heap_ready s" unfolding heap_ready_def pages by (simp add: defs)
  define s1 where "s1 = s\<lparr>heap_lock := \<lparr>lock = True\<rparr>\<rparr>"
  have flags1: "get_heap_index s1 = get_heap_index s" "heap_max_index s1 = 4"
    by (simp_all add: s1_def) (simp add: defs)
  have "heap_search s1 2 0 = Some None"
    by (simp add: heap_search.simps heap_first_used_def upt_rec flags flags1)
  then have "heap_alloc 2 s = Some (heap_addr s 0 0, (heap_mark 0 2 s1)\<lparr>heap_lock := \<lparr>lock = False\<rparr>\<rparr>)"
    using heap_alloc_unlocked [of s 2] flags ready
    by (simp add: s1_def Let_def heap_addr_def heap_ready_def)
  moreover have "get_heap_index (heap_mark 0 2 s1) 0 = 3" "get_heap_index (heap_mark 0 2 s1) 1 = 5"
    by (simp_all add: get_heap_mark flags1 heap_page_flags_def)
  ultimately show ?thesis
    using ready rep pages flags
    by (intro exI [of _ s] exI [of _ "(heap_mark 0 2 s1)\<lparr>heap_lock := \<lparr>lock = False\<rparr>\<rparr>"])
      (simp add: heap_page_flags_def)
qed

end
