(* ===== verification/Paging.thy ===== *)
theory Paging
  imports Heap
begin

text \<open>
  Virtual memory (\<^verbatim>\<open>src/kernel/arch_i386/memory.c\<close>, \<^verbatim>\<open>map\<close> ... \<^verbatim>\<open>map_in_pd\<close>).

  The kernel edits its page tables through the tables themselves: entry 1023 of the page
  directory points to the directory, so that the directory is visible at \<^verbatim>\<open>0xfffff000\<close> and
  page table \<^verbatim>\<open>i\<close> at \<^verbatim>\<open>0xffc00000 + i * 0x1000\<close>.  The model therefore has the physical
  memory, word by word, and the two-level walk of the i386 memory unit; every access of the
  source is a \<open>load32\<close> or a \<open>store32\<close> at a virtual address, and \<open>None\<close> is a page fault.

  The walk knows the present and the page-size bit.  Write protection does not apply to the
  kernel, which runs with \<^verbatim>\<open>CR0.WP\<close> clear.  The translation cache is not modelled: every
  access walks the tables, so \<^verbatim>\<open>invlpg\<close> has no effect here.  Printing is left out.
\<close>

abbreviation (input) PT_PRESENT :: u32 where "PT_PRESENT \<equiv> 1"
abbreviation (input) PT_USER_RW :: u32 where "PT_USER_RW \<equiv> 2"
abbreviation (input) PT_USER :: u32 where "PT_USER \<equiv> 4"
abbreviation (input) PT_PCD :: u32 where "PT_PCD \<equiv> 0x10"
abbreviation (input) PT_LINK_N :: u32 where "PT_LINK_N \<equiv> 0x200"
abbreviation (input) PT_LINK_L :: u32 where "PT_LINK_L \<equiv> 0x400"

record mm_state = heap_state +
  phys :: "u32 \<Rightarrow> nat \<Rightarrow> u32"
  cr3 :: u32
  page_lock :: spinlock_t

subsection \<open>The memory unit\<close>

definition pd_index :: "u32 \<Rightarrow> u32" where
  "pd_index v = drop_bit 22 v"

definition pt_index :: "u32 \<Rightarrow> u32" where
  "pt_index v = drop_bit 12 v AND 0x3ff"

definition mmu_walk :: "'a mm_state_scheme \<Rightarrow> u32 \<Rightarrow> u32 option" where
  "mmu_walk s v =
     (let pde = phys s (page_base (cr3 s)) (unat (pd_index v))
      in if pde AND 1 = 0 then None
         else if pde AND 0x80 \<noteq> 0 then Some ((pde AND 0xffc00000) OR (v AND 0x3fffff))
         else let pte = phys s (page_base pde) (unat (pt_index v))
              in if pte AND 1 = 0 then None
                 else Some (page_base pte OR (v AND 0xfff)))"

definition word_slot :: "u32 \<Rightarrow> nat" where
  "word_slot pa = unat (drop_bit 2 (pa AND 0xfff))"

definition load32 :: "u32 \<Rightarrow> 'a mm_state_scheme \<Rightarrow> u32 option" where
  "load32 v s = do {
     pa \<leftarrow> mmu_walk s v;
     Some (phys s (page_base pa) (word_slot pa))
   }"

definition store32 :: "u32 \<Rightarrow> u32 \<Rightarrow> 'a mm_state_scheme \<Rightarrow> 'a mm_state_scheme option" where
  "store32 v x s = do {
     pa \<leftarrow> mmu_walk s v;
     Some (s\<lparr>phys := (phys s)(page_base pa := (phys s (page_base pa))(word_slot pa := x))\<rparr>)
   }"

text \<open>The virtual addresses of \<^verbatim>\<open>pd[i]\<close> and of \<^verbatim>\<open>pt[j]\<close> for directory entry \<^verbatim>\<open>i\<close>.\<close>

definition pd_slot :: "u32 \<Rightarrow> u32" where
  "pd_slot i = 0xfffff000 + i * 4"

definition pt_slot :: "u32 \<Rightarrow> u32 \<Rightarrow> u32" where
  "pt_slot i j = 0xffc00000 + i * 0x1000 + j * 4"

subsection \<open>Mapping single pages\<close>

definition map_page :: "u32 \<Rightarrow> u32 \<Rightarrow> u32 \<Rightarrow> 'a mm_state_scheme \<Rightarrow> 'a mm_state_scheme option" where
  "map_page vaddr paddr flags s =
     (let di = pd_index vaddr; ti = pt_index vaddr;
          uflags = (flags AND PT_USER) OR (flags AND PT_USER_RW)
      in do {
        pde \<leftarrow> load32 (pd_slot di) s;
        s \<leftarrow> (if pde = 0
              then do {
                (frame, s) \<leftarrow> pm_alloc s;
                s \<leftarrow> store32 (pd_slot di) (frame OR 1) s;
                fold_opt (\<lambda>i. store32 (pt_slot di (of_nat i)) 0) [0..<0x400] s
              }
              else Some s);
        pde \<leftarrow> load32 (pd_slot di) s;
        s \<leftarrow> (if uflags AND pde \<noteq> uflags \<and> vaddr < 0xc0000000
              then do {
                pde \<leftarrow> load32 (pd_slot di) s;
                store32 (pd_slot di) (pde OR uflags) s
              }
              else Some s);
        store32 (pt_slot di ti) (paddr OR flags) s
      })"

definition unmap :: "u32 \<Rightarrow> 'a mm_state_scheme \<Rightarrow> 'a mm_state_scheme option" where
  "unmap vaddr s =
     (let di = pd_index vaddr; ti = pt_index vaddr
      in do {
        pde \<leftarrow> load32 (pd_slot di) s;
        if pde = 0 then Some s
        else store32 (pt_slot di ti) 0 s
      })"

definition get_paddr :: "u32 \<Rightarrow> 'a mm_state_scheme \<Rightarrow> u32 option" where
  "get_paddr vaddr s =
     (let di = pd_index vaddr; ti = pt_index vaddr
      in do {
        pde \<leftarrow> load32 (pd_slot di) s;
        if pde = 0 then Some 0
        else do {
          pte \<leftarrow> load32 (pt_slot di ti) s;
          Some (pte AND 0xfffff000)
        }
      })"

definition get_pflags :: "u32 \<Rightarrow> 'a mm_state_scheme \<Rightarrow> u32 option" where
  "get_pflags vaddr s =
     (let di = pd_index vaddr; ti = pt_index vaddr
      in do {
        pde \<leftarrow> load32 (pd_slot di) s;
        if pde = 0 then Some 0
        else do {
          pte \<leftarrow> load32 (pt_slot di ti) s;
          Some (pte AND 0xfff)
        }
      })"

subsection \<open>Allocation of virtual pages\<close>

partial_function (option) new_page_search :: "u32 \<Rightarrow> u32 \<Rightarrow> 'a mm_state_scheme \<Rightarrow> u32 option" where
  "new_page_search paddr i s = do {
     p \<leftarrow> get_paddr (paddr + i * 4096) s;
     if p \<noteq> 0 then new_page_search paddr (i + 1) s else Some i
   }"

definition get_new_page :: "u32 \<Rightarrow> 'a mm_state_scheme \<Rightarrow> (u32 \<times> 'a mm_state_scheme) option" where
  "get_new_page flags s = do {
     (paddr, s) \<leftarrow> pm_alloc s;
     i \<leftarrow> new_page_search paddr 0 s;
     s \<leftarrow> map_page (paddr + i * 4096) paddr flags s;
     Some (paddr + i * 4096, s)
   }"

text \<open>
  The inner loop of the searches of \<^verbatim>\<open>kmalloc\<close> and \<^verbatim>\<open>kmalloc_page_paddr\<close>: whether one of the
  pages \<^verbatim>\<open>i + j\<close> has flags.
\<close>

primrec pages_in_use :: "u32 \<Rightarrow> nat list \<Rightarrow> 'a mm_state_scheme \<Rightarrow> bool option" where
  "pages_in_use i [] s = Some False"
| "pages_in_use i (j # js) s = do {
     flags \<leftarrow> get_pflags (push_bit 12 (i + of_nat j)) s;
     if flags \<noteq> 0 then Some True else pages_in_use i js s
   }"

text \<open>The outer loop; \<open>Some None\<close> is the end of the search without a run.\<close>

function page_search :: "u32 \<Rightarrow> u32 \<Rightarrow> 'a mm_state_scheme \<Rightarrow> u32 option option" where
  "page_search size_pgs i s =
     (if i < 0x400000
      then (case pages_in_use i [0..<unat size_pgs] s of
              None \<Rightarrow> None
            | Some True \<Rightarrow> page_search size_pgs (i + 1) s
            | Some False \<Rightarrow> Some (Some i))
      else Some None)"
  by pat_completeness auto
termination
  by (relation "measure (\<lambda>(n, i, s). unat (0x400000 :: u32) - unat i)")
    (simp, simp only: in_measure prod.case, rule word_loop_measure, simp)

declare page_search.simps [simp del]

definition page_flags :: "u32 \<Rightarrow> u32 \<Rightarrow> u32" where
  "page_flags size_pgs j =
     PT_PRESENT OR (PT_LINK_L * (if j \<noteq> 0 then 1 else 0))
       OR (PT_LINK_N * (if j < size_pgs - 1 then 1 else 0) OR PT_PCD)"

definition kmalloc_page_paddr ::
    "u32 \<Rightarrow> u32 \<Rightarrow> 'a mm_state_scheme \<Rightarrow> (u32 \<times> 'a mm_state_scheme) option" where
  "kmalloc_page_paddr paddr size_pgs s = do {
     l \<leftarrow> spinlock_acquire (page_lock s);
     let s = s\<lparr>page_lock := l\<rparr>;
     r \<leftarrow> page_search size_pgs (0xc0000000 div 4096) s;
     case r of
       Some i \<Rightarrow> do {
         s \<leftarrow> fold_opt (\<lambda>j. map_page (push_bit 12 (i + of_nat j)) (paddr + of_nat j * 4096)
                 (page_flags size_pgs (of_nat j))) [0..<unat size_pgs] s;
         Some (push_bit 12 i, s\<lparr>page_lock := spinlock_release (page_lock s)\<rparr>)
       }
     | None \<Rightarrow> Some (0, s\<lparr>page_lock := spinlock_release (page_lock s)\<rparr>)
   }"

text \<open>The two loops of \<^verbatim>\<open>kfree\<close>: down to the first page of the block, then up, unmapping.\<close>

partial_function (option) block_first_page :: "u32 \<Rightarrow> 'a mm_state_scheme \<Rightarrow> u32 option" where
  "block_first_page addr s = do {
     flags \<leftarrow> get_pflags addr s;
     if flags AND PT_LINK_L \<noteq> 0 then block_first_page (addr - 0x1000) s else Some addr
   }"

partial_function (option) block_release ::
    "u32 \<Rightarrow> 'a mm_state_scheme \<Rightarrow> 'a mm_state_scheme option" where
  "block_release addr s = do {
     flags \<leftarrow> get_pflags addr s;
     paddr \<leftarrow> get_paddr addr s;
     s \<leftarrow> unmap addr s;
     s \<leftarrow> pm_free paddr s;
     if flags AND PT_LINK_N = 0 then Some s else block_release (addr + 0x1000) s
   }"

definition kfree :: "u32 \<Rightarrow> 'a mm_state_scheme \<Rightarrow> 'a mm_state_scheme option" where
  "kfree vaddr s =
     (if heap_base s \<noteq> 0 then heap_free vaddr s
      else do {
        flags \<leftarrow> get_pflags vaddr s;
        if flags = 0 then Some s
        else do {
          l \<leftarrow> spinlock_acquire (page_lock s);
          let s = s\<lparr>page_lock := l\<rparr>;
          addr \<leftarrow> block_first_page (page_base vaddr) s;
          s \<leftarrow> block_release addr s;
          Some (s\<lparr>page_lock := spinlock_release (page_lock s)\<rparr>)
        }
      })"

text \<open>
  The mapping loop of \<^verbatim>\<open>kmalloc\<close>.  The boolean is False when \<^verbatim>\<open>pm_alloc\<close> failed; the source
  then calls \<^verbatim>\<open>kfree\<close> with the page number shifted by 22 and still holding \<^verbatim>\<open>page_lock\<close>.
\<close>

primrec kmalloc_map ::
    "u32 \<Rightarrow> u32 \<Rightarrow> nat list \<Rightarrow> 'a mm_state_scheme \<Rightarrow> (bool \<times> 'a mm_state_scheme) option" where
  "kmalloc_map size_pgs i [] s = Some (True, s)"
| "kmalloc_map size_pgs i (j # js) s = do {
     (physaddr, s) \<leftarrow> pm_alloc s;
     if physaddr = 0
     then do {
       s \<leftarrow> kfree (push_bit 22 i) s;
       Some (False, s)
     }
     else do {
       s \<leftarrow> map_page (push_bit 12 (i + of_nat j)) physaddr (page_flags size_pgs (of_nat j)) s;
       kmalloc_map size_pgs i js s
     }
   }"

definition kmalloc :: "u32 \<Rightarrow> 'a mm_state_scheme \<Rightarrow> (u32 \<times> 'a mm_state_scheme) option" where
  "kmalloc size_pgs s =
     (if heap_base s \<noteq> 0 then heap_alloc size_pgs s
      else do {
        l \<leftarrow> spinlock_acquire (page_lock s);
        let s = s\<lparr>page_lock := l\<rparr>;
        r \<leftarrow> page_search size_pgs (0xc0000000 div 4096) s;
        case r of
          Some i \<Rightarrow> do {
            (ok, s) \<leftarrow> kmalloc_map size_pgs i [0..<unat size_pgs] s;
            let s = s\<lparr>page_lock := spinlock_release (page_lock s)\<rparr>;
            Some (if ok then push_bit 12 i else 0, s)
          }
        | None \<Rightarrow> Some (0, s\<lparr>page_lock := spinlock_release (page_lock s)\<rparr>)
      })"

subsection \<open>Addresses of table entries\<close>

lemma pd_index_lt: "pd_index v < 0x400" "unat (pd_index v) < 1024"
  using unat_u32_less [of v]
  by (simp_all add: pd_index_def word_less_nat_alt unat_drop_bit less_mult_imp_div_less)

lemma pt_index_lt: "pt_index v < 0x400" "unat (pt_index v) < 1024"
  by (simp_all add: pt_index_def word_less_nat_alt unat_and_3ff)

lemma unat_pt_slot:
  assumes "i < 0x400" "j < 0x400"
  shows "unat (pt_slot i j) = 0xffc00000 + unat i * 4096 + unat j * 4"
proof -
  have ij: "unat i < 1024" "unat j < 1024" using assms by (simp_all add: word_less_nat_alt)
  then have "unat (i * 0x1000) = unat i * 4096" "unat (j * 4) = unat j * 4"
    by (subst unat_mult_lt; simp)+
  moreover from this have "unat (0xffc00000 + i * 0x1000) = 0xffc00000 + unat i * 4096"
    using ij by (subst unat_add_lt) auto
  ultimately show ?thesis
    unfolding pt_slot_def using ij by (subst unat_add_lt) auto
qed

lemma pt_slot_split:
  assumes "i < 0x400" "j < 0x400"
  shows "pd_index (pt_slot i j) = 0x3ff" "pt_index (pt_slot i j) = i" "pt_slot i j AND 0xfff = j * 4"
proof -
  have ij: "unat i < 1024" "unat j < 1024" using assms by (simp_all add: word_less_nat_alt)
  define n where "n = unat (pt_slot i j)"
  have n: "n = (1023 * 1024 + unat i) * 4096 + unat j * 4"
    using unat_pt_slot [OF assms] by (simp add: n_def)
  have x: "unat j * 4 < 4096" using ij by simp
  have page: "n div 4096 = 1023 * 1024 + unat i" "n mod 4096 = unat j * 4"
    using x by (simp_all only: n mod_mult_self3 mod_less div_mult_self3)
  have "n div 4194304 = n div 4096 div 1024" by (simp add: div_mult2_eq [symmetric])
  with page ij show "pd_index (pt_slot i j) = 0x3ff"
    by (simp add: pd_index_def word_unat_eq_iff unat_drop_bit n_def)
  have "(1023 * 1024 + unat i) mod 1024 = unat i" using ij by (simp only: mod_mult_self3 mod_less)
  then show "pt_index (pt_slot i j) = i"
    using page by (simp add: pt_index_def word_unat_eq_iff unat_drop_bit unat_and_3ff n_def)
  have "unat (j * 4) = unat j * 4" using ij by (subst unat_mult_lt) auto
  with page show "pt_slot i j AND 0xfff = j * 4"
    by (simp add: word_unat_eq_iff unat_and_fff n_def)
qed

lemma pd_slot_pt_slot: "pd_slot i = pt_slot 0x3ff i"
  by (simp add: pd_slot_def pt_slot_def)

lemma and_fff_lt: "(v AND 0xfff :: u32) < 0x1000"
  by (simp add: word_less_nat_alt unat_and_fff)

lemma page_base_or_offset [simp]:
  "page_base (page_base p OR (v AND 0xfff)) = page_base p"
  "word_slot (page_base p OR (v AND 0xfff)) = word_slot v"
  using page_base_or [OF page_base_aligned and_fff_lt, of p v] by (simp_all add: word_slot_def)

lemma word_slot_pt_slot:
  assumes "i < 0x400" "j < 0x400"
  shows "word_slot (pt_slot i j) = unat j"
proof -
  have j: "unat j < 1024" using assms by (simp add: word_less_nat_alt)
  then have "unat (j * 4) = unat j * 4" by (subst unat_mult_lt) auto
  then show ?thesis
    using pt_slot_split(3) [OF assms] by (simp add: word_slot_def unat_drop_bit)
qed

subsection \<open>The recursive mapping\<close>

definition page_dir :: "'a mm_state_scheme \<Rightarrow> nat \<Rightarrow> u32" where
  "page_dir s = phys s (page_base (cr3 s))"

text \<open>
  The well-formed address space: the directory maps itself through its last entry; every
  other nonzero entry is present; the tables are distinct, differ from the directory, and
  are marked in use in the frame bitmap.
\<close>

definition wf_mm :: "'a mm_state_scheme \<Rightarrow> bool" where
  "wf_mm s \<longleftrightarrow>
     page_dir s 1023 AND 1 \<noteq> 0 \<and> page_dir s 1023 AND 0x80 = 0 \<and>
     page_base (page_dir s 1023) = page_base (cr3 s) \<and> pm_used (pm_map s) (cr3 s) \<and>
     (\<forall>i < 1023. page_dir s i \<noteq> 0 \<longrightarrow>
        page_dir s i AND 1 \<noteq> 0 \<and> page_base (page_dir s i) \<noteq> page_base (cr3 s) \<and>
        pm_used (pm_map s) (page_dir s i)) \<and>
     (\<forall>i < 1023. \<forall>j < 1023. page_dir s i \<noteq> 0 \<and> page_dir s j \<noteq> 0 \<and>
        page_base (page_dir s i) = page_base (page_dir s j) \<longrightarrow> i = j)"

lemma mmu_walk_pt_slot:
  assumes "wf_mm s" "i < 0x400" "j < 0x400"
  shows "mmu_walk s (pt_slot i j) =
     (if page_dir s (unat i) AND 1 = 0 then None
      else Some (page_base (page_dir s (unat i)) OR (pt_slot i j AND 0xfff)))"
  using assms pt_slot_split [OF assms(2,3)]
  by (simp add: mmu_walk_def wf_mm_def page_dir_def Let_def)

lemma load_pt_slot:
  assumes "wf_mm s" "i < 0x400" "j < 0x400"
  shows "load32 (pt_slot i j) s =
     (if page_dir s (unat i) AND 1 = 0 then None
      else Some (phys s (page_base (page_dir s (unat i))) (unat j)))"
  using mmu_walk_pt_slot [OF assms] word_slot_pt_slot [OF assms(2,3)] by (simp add: load32_def)

lemma store_pt_slot:
  assumes "wf_mm s" "i < 0x400" "j < 0x400"
  shows "store32 (pt_slot i j) x s =
     (if page_dir s (unat i) AND 1 = 0 then None
      else Some (s\<lparr>phys := (phys s)(page_base (page_dir s (unat i)) :=
             (phys s (page_base (page_dir s (unat i))))(unat j := x))\<rparr>))"
  using mmu_walk_pt_slot [OF assms] word_slot_pt_slot [OF assms(2,3)] by (simp add: store32_def)

lemma load_pd_slot:
  assumes "wf_mm s" "i < 0x400"
  shows "load32 (pd_slot i) s = Some (page_dir s (unat i))"
  using load_pt_slot [OF assms(1), of "0x3ff" i] assms
  by (simp add: pd_slot_pt_slot wf_mm_def page_dir_def)

lemma store_pd_slot:
  assumes "wf_mm s" "i < 0x400"
  shows "store32 (pd_slot i) x s =
     Some (s\<lparr>phys := (phys s)(page_base (cr3 s) := (page_dir s)(unat i := x))\<rparr>)"
  using store_pt_slot [OF assms(1), of "0x3ff" i] assms
  by (simp add: pd_slot_pt_slot wf_mm_def page_dir_def)

text \<open>\<open>pte s v\<close> is the page table entry of \<open>v\<close>, 0 when there is no table.\<close>

definition pte :: "'a mm_state_scheme \<Rightarrow> u32 \<Rightarrow> u32" where
  "pte s v =
     (if page_dir s (unat (pd_index v)) = 0 then 0
      else phys s (page_base (page_dir s (unat (pd_index v)))) (unat (pt_index v)))"

lemma wf_dir_present:
  assumes "wf_mm s" "i < 1024" "page_dir s i \<noteq> 0"
  shows "page_dir s i AND 1 \<noteq> 0"
  using assms by (cases "i = 1023") (auto simp: wf_mm_def)

lemma get_paddr_pte: "wf_mm s \<Longrightarrow> get_paddr v s = Some (page_base (pte s v))"
  using wf_dir_present [of s "unat (pd_index v)"] pd_index_lt [of v] pt_index_lt [of v]
  by (auto simp: get_paddr_def load_pd_slot load_pt_slot pte_def page_base_def Let_def)

lemma get_pflags_pte: "wf_mm s \<Longrightarrow> get_pflags v s = Some (pte s v AND 0xfff)"
  using wf_dir_present [of s "unat (pd_index v)"] pd_index_lt [of v] pt_index_lt [of v]
  by (auto simp: get_pflags_def load_pd_slot load_pt_slot pte_def Let_def)

subsection \<open>Frames the allocator can still hand out\<close>

definition avail :: "'a pm_state_scheme \<Rightarrow> u32 set" where
  "avail s = {a. page_aligned a \<and> \<not> pm_used (pm_map s) a \<and> pm_first_free s \<le> drop_bit 15 a}"

lemma avail_unused: "a \<in> avail s \<Longrightarrow> page_aligned a \<and> a \<notin> used_frames s"
  by (simp add: avail_def used_frames_def)

lemma finite_avail [simp]: "finite (avail s)"
  by (rule finite_subset [of _ UNIV]) simp_all

lemma drop_15_mono: "drop_bit 12 a \<le> drop_bit 12 b \<Longrightarrow> drop_bit 15 a \<le> drop_bit 15 (b :: u32)"
proof -
  have d: "(n :: nat) div 32768 = n div 4096 div 8" for n by (simp add: div_mult2_eq [symmetric])
  assume "drop_bit 12 a \<le> drop_bit 12 b"
  then show ?thesis by (simp add: word_le_nat_alt unat_drop_bit d div_le_mono)
qed

lemma pm_alloc_avail:
  assumes "pm_ready s" "avail s \<noteq> {}"
  obtains a s' where "pm_alloc s = Some (a, s')" "a \<in> avail s" "avail s' = avail s - {a}"
    "s' = s\<lparr>pm_map := pm_mark a (pm_map s), pm_first_free := drop_bit 15 a, pm_lock := \<lparr>lock = False\<rparr>\<rparr>"
  using assms(1)
proof (cases rule: pm_alloc_cases)
  case (found a)
  let ?s' = "s\<lparr>pm_map := pm_mark a (pm_map s), pm_first_free := drop_bit 15 a, pm_lock := \<lparr>lock = False\<rparr>\<rparr>"
  have a: "a \<in> avail s" using found by (simp add: avail_def)
  have up: "drop_bit 15 a \<le> drop_bit 15 b" if "b \<in> avail s" for b
    using found(5) [of b] that by (intro drop_15_mono) (auto simp: avail_def intro: leI)
  have "avail ?s' = avail s - {a}"
  proof (rule set_eqI)
    fix b
    show "b \<in> avail ?s' \<longleftrightarrow> b \<in> avail s - {a}"
      using up [of b] found(2,4) by (auto simp: avail_def pm_used_mark page_base_id)
  qed
  with that found(1) a show thesis by blast
next
  case full
  with assms(2) show thesis by (auto simp: avail_def)
qed

text \<open>The parts of the state that the paging code leaves alone.\<close>

definition mm_frame :: "'a mm_state_scheme \<Rightarrow> 'a mm_state_scheme \<Rightarrow> bool" where
  "mm_frame s s' \<longleftrightarrow> s' = s\<lparr>phys := phys s', pm_map := pm_map s', pm_first_free := pm_first_free s',
     pm_lock := pm_lock s'\<rparr>"

lemma mm_frame_refl [simp]: "mm_frame s s"
  by (simp add: mm_frame_def)

lemma mm_frame_trans: "mm_frame s t \<Longrightarrow> mm_frame t u \<Longrightarrow> mm_frame s u"
  unfolding mm_frame_def by (cases s, cases t, cases u) simp

lemma mm_frame_sel:
  assumes "mm_frame s s'"
  shows "cr3 s' = cr3 s" "page_lock s' = page_lock s" "heap_base s' = heap_base s"
    "heap_map s' = heap_map s" "heap_map_size s' = heap_map_size s"
    "heap_lock s' = heap_lock s" "heap_first_free s' = heap_first_free s"
    "mm_state.more s' = mm_state.more s"
  using assms unfolding mm_frame_def by (cases s, cases s', simp)+

lemma mm_frame_phys [simp]: "mm_frame s (s\<lparr>phys := p\<rparr>)"
  by (simp add: mm_frame_def)

lemma mm_frame_pm [simp]: "mm_frame s (s\<lparr>pm_map := m, pm_first_free := f, pm_lock := l\<rparr>)"
  by (cases s) (simp add: mm_frame_def)

subsection \<open>Updates of the tables\<close>

definition set_pte :: "u32 \<Rightarrow> u32 \<Rightarrow> 'a mm_state_scheme \<Rightarrow> 'a mm_state_scheme" where
  "set_pte v x s =
     (let F = page_base (page_dir s (unat (pd_index v)))
      in s\<lparr>phys := (phys s)(F := (phys s F)(unat (pt_index v) := x))\<rparr>)"

definition set_pde :: "u32 \<Rightarrow> u32 \<Rightarrow> 'a mm_state_scheme \<Rightarrow> 'a mm_state_scheme" where
  "set_pde i x s = s\<lparr>phys := (phys s)(page_base (cr3 s) := (page_dir s)(unat i := x))\<rparr>"

lemma same_page_iff:
  "page_base v = page_base w \<longleftrightarrow> pd_index v = pd_index w \<and> pt_index v = pt_index w"
proof -
  have d: "(n :: nat) div 4194304 = n div 4096 div 1024" for n by (simp add: div_mult2_eq [symmetric])
  have "unat v div 4096 = unat w div 4096 \<longleftrightarrow> unat v div 4096 div 1024 = unat w div 4096 div 1024 \<and>
      unat v div 4096 mod 1024 = unat w div 4096 mod 1024"
    by (metis div_mult_mod_eq)
  then show ?thesis
    unfolding page_base_eq_iff
    by (simp add: word_unat_eq_iff [where 'a = 32] unat_drop_bit unat_and_3ff
        pd_index_def pt_index_def d)
qed

lemma pd_index_user:
  assumes "pd_index v \<noteq> 0x3ff"
  shows "unat (pd_index v) < 1023"
  using assms pd_index_lt(2) [of v] by (auto simp: word_unat_eq_iff [where 'a = 32])

lemma wf_dir_not_root:
  assumes "wf_mm s" "i < 1023" "page_dir s i \<noteq> 0"
  shows "page_base (page_dir s i) \<noteq> page_base (cr3 s)" "pm_used (pm_map s) (page_dir s i)"
  using assms by (auto simp: wf_mm_def)

lemma wf_dir_inj:
  assumes "wf_mm s" "i < 1023" "j < 1023" "page_dir s i \<noteq> 0" "page_dir s j \<noteq> 0"
    "page_base (page_dir s i) = page_base (page_dir s j)"
  shows "i = j"
  using assms by (auto simp: wf_mm_def)

lemma set_pte_spec:
  assumes wf: "wf_mm s" and v: "pd_index v \<noteq> 0x3ff" and table: "page_dir s (unat (pd_index v)) \<noteq> 0"
  shows "page_dir (set_pte v x s) = page_dir s" "wf_mm (set_pte v x s)"
    "pd_index w \<noteq> 0x3ff \<Longrightarrow>
       pte (set_pte v x s) w = (if page_base w = page_base v then x else pte s w)"
proof -
  note v' = pd_index_user [OF v]
  show dir: "page_dir (set_pte v x s) = page_dir s"
    using wf_dir_not_root [OF wf v' table] by (simp add: page_dir_def set_pte_def Let_def)
  have keep: "cr3 (set_pte v x s) = cr3 s" "pm_map (set_pte v x s) = pm_map s"
    by (simp_all add: set_pte_def Let_def)
  show "wf_mm (set_pte v x s)" using wf by (simp add: wf_mm_def dir keep)
  assume w: "pd_index w \<noteq> 0x3ff"
  note w' = pd_index_user [OF w]
  let ?F = "page_base (page_dir s (unat (pd_index v)))"
  have phys: "phys (set_pte v x s) G = (if G = ?F then (phys s ?F)(unat (pt_index v) := x) else phys s G)" for G
    by (simp add: set_pte_def Let_def)
  show "pte (set_pte v x s) w = (if page_base w = page_base v then x else pte s w)"
  proof (cases "pd_index w = pd_index v")
    case True
    then show ?thesis using table by (auto simp: pte_def dir phys same_page_iff unat_inj)
  next
    case False
    then have "page_base (page_dir s (unat (pd_index w))) \<noteq> ?F" if "page_dir s (unat (pd_index w)) \<noteq> 0"
      using wf_dir_inj [OF wf w' v' that table] by (auto simp: unat_inj)
    with False show ?thesis by (auto simp: pte_def dir phys same_page_iff)
  qed
qed

text \<open>A changed directory entry that keeps its table, or an added table.\<close>

lemma set_pde_sel [simp]:
  "page_dir (set_pde i x s) = (page_dir s)(unat i := x)"
  "cr3 (set_pde i x s) = cr3 s" "pm_map (set_pde i x s) = pm_map s"
  "F \<noteq> page_base (cr3 s) \<Longrightarrow> phys (set_pde i x s) F = phys s F"
  by (auto simp: set_pde_def page_dir_def)

lemma set_pde_flags_spec:
  assumes wf: "wf_mm s" and i: "unat i < 1023" and table: "page_dir s (unat i) \<noteq> 0" and f: "f < 0x1000"
  defines "s' \<equiv> set_pde i (page_dir s (unat i) OR f) s"
  shows "wf_mm s'" "pd_index w \<noteq> 0x3ff \<Longrightarrow> pte s' w = pte s w" "page_dir s' (unat i) \<noteq> 0"
proof -
  let ?x = "page_dir s (unat i) OR f"
  have base: "page_base ?x = page_base (page_dir s (unat i))" by (rule page_base_flags [OF f])
  have x: "?x AND 1 \<noteq> 0" "?x \<noteq> 0"
    using or_keeps_bit0 [OF wf_dir_present [OF wf _ table]] i by simp_all
  have same: "page_base (page_dir s' j) = page_base (page_dir s j)" "page_dir s' j = 0 \<longleftrightarrow> page_dir s j = 0" for j
    using base x table by (auto simp: s'_def)
  show "page_dir s' (unat i) \<noteq> 0" using x by (simp add: s'_def)
  have used: "pm_used (pm_map s) (page_dir s' j) = pm_used (pm_map s) (page_dir s j)" for j
    by (rule pm_used_page_base [OF same(1)])
  have "page_dir s' 1023 = page_dir s 1023" using i by (simp add: s'_def)
  moreover have "page_dir s' j AND 1 \<noteq> 0" if "j < 1023" "page_dir s j \<noteq> 0" for j
    using x wf_dir_present [OF wf, of j] that by (auto simp: s'_def)
  moreover have "cr3 s' = cr3 s" "pm_map s' = pm_map s" by (simp_all add: s'_def)
  ultimately show "wf_mm s'" using wf by (simp add: wf_mm_def same used)
  assume w: "pd_index w \<noteq> 0x3ff"
  then show "pte s' w = pte s w"
    using wf_dir_not_root(1) [OF wf pd_index_user [OF w]] same
    by (simp add: pte_def) (simp add: s'_def)
qed

lemma new_table_spec:
  fixes s :: "'a mm_state_scheme" and ff :: u32 and l :: spinlock_t
  assumes wf: "wf_mm s" and i: "unat i < 1023" and none: "page_dir s (unat i) = 0"
    and f: "page_aligned f" "\<not> pm_used (pm_map s) f"
  defines "s1 \<equiv> s\<lparr>pm_map := pm_mark f (pm_map s), pm_first_free := ff, pm_lock := l\<rparr>"
  defines "s2 \<equiv> set_pde i (f OR 1) s1"
  shows "wf_mm s2" "page_dir s2 (unat i) = f OR 1" "page_base (f OR 1) = f"
    "pd_index w \<noteq> 0x3ff \<Longrightarrow> pd_index w \<noteq> i \<Longrightarrow> pte (s2\<lparr>phys := (phys s2)(f := T)\<rparr>) w = pte s w"
    "page_dir (s2\<lparr>phys := (phys s2)(f := T)\<rparr>) = page_dir s2"
proof -
  have dir1: "page_dir s1 = page_dir s" "cr3 s1 = cr3 s" "phys s1 = phys s"
    by (simp_all add: s1_def page_dir_def)
  have used1: "pm_used (pm_map s2) b \<longleftrightarrow> pm_used (pm_map s) b \<or> page_base b = f" for b
    using f(1) by (simp add: s2_def s1_def pm_used_mark page_base_id)
  have dir2: "page_dir s2 = (page_dir s)(unat i := f OR 1)" "cr3 s2 = cr3 s"
    by (simp_all add: s2_def dir1)
  show base: "page_base (f OR 1) = f" using f(1) by (simp add: page_base_flags page_base_id)
  show "page_dir s2 (unat i) = f OR 1" by (simp add: dir2)
  have "(f OR 1) AND 1 \<noteq> 0" using or_keeps_bit0 [of 1 f] by (simp add: or.commute)
  have fresh: "page_base b \<noteq> f" if "pm_used (pm_map s) b" for b
    using that f pm_used_page_base [of b f "pm_map s"] by (auto simp: page_base_id)
  have root: "page_base (cr3 s) \<noteq> f" using wf fresh by (simp add: wf_mm_def)
  have tables: "page_base (page_dir s j) \<noteq> f" if "j < 1023" "page_dir s j \<noteq> 0" for j
    using wf_dir_not_root(2) [OF wf that] fresh by blast
  show "wf_mm s2"
    using wf i root tables base \<open>(f OR 1) AND 1 \<noteq> 0\<close>
    unfolding wf_mm_def dir2 used1 by (auto split: if_splits)
  have root2: "page_base (cr3 s2) \<noteq> f" using root by (simp add: dir2)
  then show dir3: "page_dir (s2\<lparr>phys := (phys s2)(f := T)\<rparr>) = page_dir s2"
    by (simp add: page_dir_def)
  have phys2: "phys s2 F = phys s F" if "F \<noteq> page_base (cr3 s)" for F
    using that by (simp add: s2_def dir1)
  assume w: "pd_index w \<noteq> 0x3ff" "pd_index w \<noteq> i"
  then have "unat (pd_index w) \<noteq> unat i" by (simp add: unat_inj)
  then show "pte (s2\<lparr>phys := (phys s2)(f := T)\<rparr>) w = pte s w"
    using tables [OF pd_index_user [OF w(1)]] wf_dir_not_root(1) [OF wf pd_index_user [OF w(1)]]
    unfolding pte_def dir3 by (simp add: dir2 phys2)
qed

subsection \<open>Mapping a page\<close>

text \<open>The three stages of \<^verbatim>\<open>map\<close>: find or make the table, widen the directory entry, write.\<close>

definition ensure_table :: "u32 \<Rightarrow> 'a mm_state_scheme \<Rightarrow> 'a mm_state_scheme option" where
  "ensure_table di s = do {
     pde \<leftarrow> load32 (pd_slot di) s;
     if pde = 0
     then do {
       (frame, s) \<leftarrow> pm_alloc s;
       s \<leftarrow> store32 (pd_slot di) (frame OR 1) s;
       fold_opt (\<lambda>i. store32 (pt_slot di (of_nat i)) 0) [0..<0x400] s
     }
     else Some s
   }"

definition widen_pde :: "u32 \<Rightarrow> u32 \<Rightarrow> u32 \<Rightarrow> 'a mm_state_scheme \<Rightarrow> 'a mm_state_scheme option" where
  "widen_pde vaddr di uflags s = do {
     pde \<leftarrow> load32 (pd_slot di) s;
     if uflags AND pde \<noteq> uflags \<and> vaddr < 0xc0000000
     then do {
       pde \<leftarrow> load32 (pd_slot di) s;
       store32 (pd_slot di) (pde OR uflags) s
     }
     else Some s
   }"

lemma map_page_stages:
  "map_page v p f s = do {
     s \<leftarrow> ensure_table (pd_index v) s;
     s \<leftarrow> widen_pde v (pd_index v) ((f AND 4) OR (f AND 2)) s;
     store32 (pt_slot (pd_index v) (pt_index v)) (p OR f) s
   }"
  by (simp add: map_page_def ensure_table_def widen_pde_def Let_def)

text \<open>
  What a stage or a whole call does to the state: the address space stays well-formed, the
  frames \<open>T\<close> leave the pool, the translation changes by \<open>g\<close>, frames that hold no table keep
  their contents.
\<close>

definition table_frames :: "'a mm_state_scheme \<Rightarrow> u32 set" where
  "table_frames s = insert (page_base (cr3 s))
     {page_base (page_dir s i) | i. i < 1023 \<and> page_dir s i \<noteq> 0}"

definition mm_step :: "u32 set \<Rightarrow> (u32 \<Rightarrow> u32 \<Rightarrow> u32) \<Rightarrow> 'a mm_state_scheme \<Rightarrow> 'a mm_state_scheme \<Rightarrow> bool" where
  "mm_step T g s s' \<longleftrightarrow>
     wf_mm s' \<and> pm_ready s' \<and> mm_frame s s' \<and>
     T \<subseteq> avail s \<and> avail s' = avail s - T \<and> used_frames s' = used_frames s \<union> T \<and>
     (\<forall>w. pd_index w \<noteq> 0x3ff \<longrightarrow> pte s' w = g w (pte s w)) \<and>
     (\<forall>i < 1024. page_dir s i \<noteq> 0 \<longrightarrow> page_base (page_dir s' i) = page_base (page_dir s i) \<and> page_dir s' i \<noteq> 0) \<and>
     (\<forall>i < 1023. page_dir s i AND 0x80 = 0 \<longrightarrow> page_dir s' i AND 0x80 = 0) \<and>
     table_frames s' \<subseteq> table_frames s \<union> T \<and>
     (\<forall>F. F \<notin> table_frames s \<union> T \<longrightarrow> phys s' F = phys s F)"

lemma mm_step_trans:
  assumes "mm_step T g s t" "mm_step U h t u"
  shows "mm_step (T \<union> U) (\<lambda>w x. h w (g w x)) s u"
proof -
  have "page_base (page_dir u i) = page_base (page_dir s i) \<and> page_dir u i \<noteq> 0"
    if "i < 1024" "page_dir s i \<noteq> 0" for i
    using assms that by (auto simp: mm_step_def)
  moreover have "phys u F = phys s F" if "F \<notin> table_frames s \<union> (T \<union> U)" for F
  proof -
    have "F \<notin> table_frames t \<union> U" using assms(1) that by (auto simp: mm_step_def)
    then have "phys u F = phys t F" using assms(2) by (simp add: mm_step_def)
    also have "\<dots> = phys s F" using assms(1) that by (simp add: mm_step_def)
    finally show ?thesis .
  qed
  moreover have "mm_frame s u" using assms mm_frame_trans by (auto simp: mm_step_def)
  ultimately show ?thesis
    using assms unfolding mm_step_def by auto
qed

lemma mm_step_refl: "wf_mm s \<Longrightarrow> pm_ready s \<Longrightarrow> mm_step {} (\<lambda>w x. x) s s"
  by (simp add: mm_step_def)

lemma mm_step_weaken:
  assumes "mm_step T g s s'" "\<And>w. pd_index w \<noteq> 0x3ff \<Longrightarrow> g w (pte s w) = h w (pte s w)"
  shows "mm_step T h s s'"
  using assms by (simp add: mm_step_def)

lemma set_pte_step:
  assumes "wf_mm s" "pm_ready s" "pd_index v \<noteq> 0x3ff" "page_dir s (unat (pd_index v)) \<noteq> 0"
  shows "mm_step {} (\<lambda>w y. if page_base w = page_base v then x else y) s (set_pte v x s)"
proof -
  note sp = set_pte_spec [OF assms(1,3,4)]
  have "page_base (page_dir s (unat (pd_index v))) \<in> table_frames s"
    using pd_index_user [OF assms(3)] assms(4) by (auto simp: table_frames_def)
  then have "phys (set_pte v x s) F = phys s F" if "F \<notin> table_frames s" for F
    using that by (auto simp: set_pte_def Let_def)
  moreover have sel: "pm_map (set_pte v x s) = pm_map s" "pm_first_free (set_pte v x s) = pm_first_free s"
      "pm_lock (set_pte v x s) = pm_lock s" "cr3 (set_pte v x s) = cr3 s"
    by (simp_all add: set_pte_def Let_def)
  moreover have "mm_frame s (set_pte v x s)" by (simp add: set_pte_def Let_def)
  ultimately show ?thesis
    using assms(1,2) sp by (simp add: mm_step_def avail_def used_frames_def pm_ready_def table_frames_def)
qed

lemma store_pte:
  assumes "wf_mm s" "page_dir s (unat (pd_index v)) \<noteq> 0"
  shows "store32 (pt_slot (pd_index v) (pt_index v)) x s = Some (set_pte v x s)"
  using store_pt_slot [OF assms(1) pd_index_lt(1) pt_index_lt(1), of v v x]
    wf_dir_present [OF assms(1) pd_index_lt(2) assms(2)]
  by (simp add: set_pte_def Let_def)

lemma mm_step_tables_mono:
  assumes "mm_step T g s s'"
  shows "table_frames s \<subseteq> table_frames s'"
proof -
  have "cr3 s' = cr3 s" using assms mm_frame_sel(1) by (auto simp: mm_step_def)
  moreover have "page_base (page_dir s i) \<in> table_frames s'" if "i < 1023" "page_dir s i \<noteq> 0" for i
  proof -
    have "page_base (page_dir s' i) = page_base (page_dir s i)" "page_dir s' i \<noteq> 0"
      using assms that by (auto simp: mm_step_def)
    with that show ?thesis by (auto simp: table_frames_def intro!: exI [of _ i])
  qed
  ultimately show ?thesis by (auto simp: table_frames_def)
qed

lemma set_pde_flags_step:
  assumes "wf_mm s" "pm_ready s" "unat i < 1023" "page_dir s (unat i) \<noteq> 0" "f < 0x1000"
    "f AND 0x80 = 0"
  shows "mm_step {} (\<lambda>w y. y) s (set_pde i (page_dir s (unat i) OR f) s)"
proof -
  let ?s = "set_pde i (page_dir s (unat i) OR f) s"
  note sp = set_pde_flags_spec [OF assms(1,3,4,5)]
  have base: "page_base (page_dir s (unat i) OR f) = page_base (page_dir s (unat i))"
    by (rule page_base_flags [OF assms(5)])
  have dir: "page_base (page_dir ?s j) = page_base (page_dir s j)" "page_dir ?s j = 0 \<longleftrightarrow> page_dir s j = 0" for j
    using base sp(3) assms(4) by auto
  have "pm_first_free ?s = pm_first_free s" "pm_lock ?s = pm_lock s" by (simp_all add: set_pde_def)
  moreover have "mm_frame s ?s" by (simp add: set_pde_def)
  moreover have "table_frames ?s = table_frames s" unfolding table_frames_def dir by simp
  moreover have "phys ?s F = phys s F" if "F \<notin> table_frames s" for F
    using that by (simp add: table_frames_def)
  moreover have "page_dir ?s j AND 0x80 = 0" if "page_dir s j AND 0x80 = 0" for j
    using that assms(6) by (auto simp: bit.conj_disj_distrib2)
  ultimately show ?thesis
    using assms(1,2) sp(1,2) dir
    by (simp add: mm_step_def avail_def used_frames_def pm_ready_def del: set_pde_sel(1))
qed

lemma widen_pde_step:
  assumes "wf_mm s" "pm_ready s" "pd_index v \<noteq> 0x3ff" "page_dir s (unat (pd_index v)) \<noteq> 0" "u < 0x1000" "u AND 0x80 = 0"
  shows "\<exists>s'. widen_pde v (pd_index v) u s = Some s' \<and> mm_step {} (\<lambda>w y. y) s s'"
proof -
  note step = set_pde_flags_step [OF assms(1,2) pd_index_user [OF assms(3)] assms(4,5,6)]
  show ?thesis
    using step mm_step_refl [OF assms(1,2)] load_pd_slot [OF assms(1) pd_index_lt(1), of v]
      store_pd_slot [OF assms(1) pd_index_lt(1), of v]
    by (simp add: widen_pde_def set_pde_def)
qed

lemma clear_table:
  assumes "wf_mm s" "i < 0x400" "unat i < 1023" "page_dir s (unat i) \<noteq> 0"
  shows "fold_opt (\<lambda>k. store32 (pt_slot i (of_nat k)) 0) [0..<0x400] s =
     Some (s\<lparr>phys := (phys s)(page_base (page_dir s (unat i)) :=
       (\<lambda>k. if k < 0x400 then 0 else phys s (page_base (page_dir s (unat i))) k))\<rparr>)"
proof -
  let ?F = "page_base (page_dir s (unat i))"
  define st where "st n = s\<lparr>phys := (phys s)(?F := (\<lambda>k. if k < n then 0 else phys s ?F k))\<rparr>" for n
  have root: "?F \<noteq> page_base (cr3 s)" using wf_dir_not_root [OF assms(1,3,4)] by simp
  have dir: "page_dir (st n) = page_dir s" for n using root by (simp add: st_def page_dir_def)
  have wf: "wf_mm (st n)" for n
    using assms(1) unfolding wf_mm_def dir by (simp add: st_def)
  have present: "page_dir s (unat i) AND 1 \<noteq> 0"
    using wf_dir_present [OF assms(1) _ assms(4)] assms(3) by simp
  have "\<exists>s'. fold_opt (\<lambda>k. store32 (pt_slot i (of_nat k)) 0) [0..<0x400] s = Some s' \<and> s' = st 0x400"
  proof (rule fold_opt_invariant)
    show "s = st 0" by (simp add: st_def)
  next
    fix k t assume k: "k < 0x400" and t: "t = st k"
    have uk: "unat (of_nat k :: u32) = k" "(of_nat k :: u32) < 0x400"
      using k by (simp_all add: unat_of_nat_lt word_less_nat_alt)
    have "store32 (pt_slot i (of_nat k)) 0 (st k) = Some (st (Suc k))"
      using store_pt_slot [OF wf [of k] assms(2) uk(2), where x = 0] present uk(1)
      by (simp add: dir) (auto simp: st_def fun_eq_iff less_Suc_eq)
    with t show "\<exists>s'. store32 (pt_slot i (of_nat k)) 0 t = Some s' \<and> s' = st (Suc k)" by simp
  qed
  then show ?thesis by (simp add: st_def)
qed

lemma wf_mm_cong:
  "page_dir s = page_dir t \<Longrightarrow> cr3 s = cr3 t \<Longrightarrow> pm_map s = pm_map t \<Longrightarrow> wf_mm s = wf_mm t"
  by (simp add: wf_mm_def)

text \<open>The path of \<^verbatim>\<open>map\<close> that installs and clears a new table.\<close>

lemma ensure_table_new:
  assumes wf: "wf_mm s" "pm_ready s" and v: "pd_index v \<noteq> 0x3ff" and new: "page_dir s (unat (pd_index v)) = 0" "avail s \<noteq> {}"
  obtains f s' where "ensure_table (pd_index v) s = Some s'" "f \<in> avail s" "page_base (f OR 1) = f"
    "page_dir s' = (page_dir s)(unat (pd_index v) := f OR 1)" "wf_mm s'" "\<forall>w. pd_index w \<noteq> 0x3ff \<longrightarrow> pte s' w = pte s w" "mm_frame s s'" "pm_ready s'"
    "pm_map s' = pm_mark f (pm_map s)" "cr3 s' = cr3 s" "avail s' = avail s - {f}" "\<forall>F. F \<notin> table_frames s \<union> {f} \<longrightarrow> phys s' F = phys s F"
proof -
  let ?i = "pd_index v"
  note i = pd_index_user [OF v]
  obtain f s1 where f: "pm_alloc s = Some (f, s1)" "f \<in> avail s" "avail s1 = avail s - {f}"
    and s1: "s1 = s\<lparr>pm_map := pm_mark f (pm_map s), pm_first_free := drop_bit 15 f, pm_lock := \<lparr>lock = False\<rparr>\<rparr>"
    using pm_alloc_avail [OF wf(2) new(2)] by metis
  have fresh: "page_aligned f" "\<not> pm_used (pm_map s) f" using f(2) by (simp_all add: avail_def)
  define s2 where "s2 = set_pde ?i (f OR 1) s1"
  note base = new_table_spec(3) [OF wf(1) i new(1) fresh]
  note tab = new_table_spec(1,2,2,4,5) [OF wf(1) i new(1) fresh, where ff = "drop_bit 15 f" and l = "\<lparr>lock = False\<rparr>",
      folded s1, folded s2_def]
  define s3 where "s3 = s2\<lparr>phys := (phys s2)(f := (\<lambda>k. if k < 0x400 then 0 else phys s2 f k))\<rparr>"
  have wf1: "wf_mm s1" using wf(1) by (auto simp: wf_mm_def s1 page_dir_def pm_used_mark)
  have nz: "page_dir s2 (unat ?i) \<noteq> 0" using tab(2) or_keeps_bit0 [of 1 f] by (simp add: or.commute)
  have clr: "fold_opt (\<lambda>k. store32 (pt_slot ?i (of_nat k)) 0) [0..<0x400] s2 = Some s3"
    using clear_table [OF tab(1) pd_index_lt(1) i nz] unfolding tab(2) base s3_def .
  have "store32 (pd_slot ?i) (f OR 1) s1 = Some s2"
    using store_pd_slot [OF wf1 pd_index_lt(1), of v] by (simp add: s2_def set_pde_def)
  then have ens: "ensure_table ?i s = Some s3"
    using new(1) f(1) load_pd_slot [OF wf(1) pd_index_lt(1), of v] clr by (simp add: ensure_table_def)
  have "page_dir s3 = page_dir s2" unfolding s3_def by (rule tab(5))
  moreover have "page_dir s1 = page_dir s" by (simp add: s1 page_dir_def)
  ultimately have dir3: "page_dir s3 = (page_dir s)(unat ?i := f OR 1)" by (simp add: s2_def)
  have pte3: "pte s3 w = pte s w" if w: "pd_index w \<noteq> 0x3ff" for w
  proof (cases "pd_index w = ?i")
    case True
    then have "pte s3 w = 0" using base pt_index_lt(2) [of w] by (simp add: pte_def dir3) (simp add: s3_def)
    then show ?thesis using True new(1) by (simp add: pte_def)
  qed (use tab(4) [OF w] in \<open>simp add: s3_def\<close>)
  show ?thesis
  proof (rule that [OF ens f(2) base dir3])
    show "wf_mm s3" using tab(1,5) wf_mm_cong [of s3 s2] unfolding s3_def by simp
    show "\<forall>w. pd_index w \<noteq> 0x3ff \<longrightarrow> pte s3 w = pte s w" using pte3 by blast
  qed (use f(3) in \<open>auto simp: mm_frame_def pm_ready_def avail_def table_frames_def s3_def s2_def set_pde_def s1\<close>)
qed

text \<open>Of the directory, only entries that were empty and have one of the numbers \<open>I\<close> change.\<close>

definition dir_grows :: "nat set \<Rightarrow> 'a mm_state_scheme \<Rightarrow> 'a mm_state_scheme \<Rightarrow> bool" where
  "dir_grows I s s' \<longleftrightarrow> (\<forall>i. page_dir s' i \<noteq> page_dir s i \<longrightarrow> page_dir s i = 0 \<and> i \<in> I)"

lemma dir_grows_trans: "dir_grows I s t \<Longrightarrow> dir_grows J t u \<Longrightarrow> dir_grows (I \<union> J) s u"
  unfolding dir_grows_def by (metis UnI1 UnI2)

lemma dir_grows_cong: "page_dir s = page_dir t \<Longrightarrow> page_dir s' = page_dir t' \<Longrightarrow> dir_grows I s s' = dir_grows I t t'"
  by (simp add: dir_grows_def)

lemma ensure_table_step:
  assumes "wf_mm s" "pm_ready s" "pd_index v \<noteq> 0x3ff" "page_dir s (unat (pd_index v)) \<noteq> 0 \<or> avail s \<noteq> {}"
  shows "\<exists>s' T. ensure_table (pd_index v) s = Some s' \<and> mm_step T (\<lambda>w y. y) s s' \<and>
     page_dir s' (unat (pd_index v)) \<noteq> 0 \<and> card T \<le> 1 \<and> T \<subseteq> table_frames s' \<and> (page_dir s (unat (pd_index v)) \<noteq> 0 \<longrightarrow> T = {}) \<and>
     dir_grows {unat (pd_index v)} s s'"
proof (cases "page_dir s (unat (pd_index v)) = 0")
  case False
  then show ?thesis
    using assms load_pd_slot [OF assms(1) pd_index_lt(1), of v] mm_step_refl [OF assms(1,2)]
    by (auto simp: ensure_table_def dir_grows_def)
next
  case True
  let ?i = "pd_index v"
  have ne: "avail s \<noteq> {}" using True assms(4) by simp
  obtain f s' where ens: "ensure_table ?i s = Some s'" and f: "f \<in> avail s" and base: "page_base (f OR 1) = f"
    and dir: "page_dir s' = (page_dir s)(unat ?i := f OR 1)" and wf: "wf_mm s'" and pte: "\<forall>w. pd_index w \<noteq> 0x3ff \<longrightarrow> pte s' w = pte s w"
    and fr: "mm_frame s s'" "pm_ready s'" and sel: "pm_map s' = pm_mark f (pm_map s)" "cr3 s' = cr3 s" and av: "avail s' = avail s - {f}"
    and ph: "\<forall>F. F \<notin> table_frames s \<union> {f} \<longrightarrow> phys s' F = phys s F"
    by (rule ensure_table_new [OF assms(1-3) True ne], rule that; assumption)
  have fresh: "page_aligned f" "\<not> pm_used (pm_map s) f" using f by (simp_all add: avail_def)
  have "f AND 0x80 = (f AND 0xfff) AND 0x80" by (simp add: and.assoc)
  then have f80: "f AND 0x80 = 0" using fresh(1) by (simp add: page_aligned_def)
  have "mm_step {f} (\<lambda>w y. y) s s'"
    unfolding mm_step_def
  proof (intro conjI allI impI)
    show "used_frames s' = used_frames s \<union> {f}"
      using fresh by (auto simp: used_frames_def sel pm_used_mark page_base_id)
    show "table_frames s' \<subseteq> table_frames s \<union> {f}"
      using base by (auto simp: table_frames_def dir sel)
    fix i assume "page_dir s i \<noteq> 0"
    then show "page_base (page_dir s' i) = page_base (page_dir s i)" "page_dir s' i \<noteq> 0"
      using True by (auto simp: dir)
  next
    fix j assume "page_dir s j AND 0x80 = 0"
    then show "page_dir s' j AND 0x80 = 0" using f80 by (simp add: dir bit.conj_disj_distrib2)
  qed (use wf pte f av fr ph in auto)
  moreover have nz: "page_dir s' (unat ?i) \<noteq> 0" using or_keeps_bit0 [of 1 f] by (simp add: dir or.commute)
  moreover have "f \<in> table_frames s'"
    using base nz pd_index_user [OF assms(3)] unfolding table_frames_def by (auto simp: dir intro!: exI [of _ "unat ?i"])
  moreover have "dir_grows {unat ?i} s s'" using True by (simp add: dir_grows_def dir)
  ultimately show ?thesis using ens True by (intro exI [of _ s'] exI [of _ "{f}"]) simp
qed

lemma map_page_step:
  assumes "wf_mm s" "pm_ready s" "pd_index v \<noteq> 0x3ff" "page_dir s (unat (pd_index v)) \<noteq> 0 \<or> avail s \<noteq> {}"
  shows "\<exists>s' T. map_page v p f s = Some s' \<and>
     mm_step T (\<lambda>w y. if page_base w = page_base v then p OR f else y) s s' \<and> card T \<le> 1 \<and>
     T \<subseteq> table_frames s' \<and> (page_dir s (unat (pd_index v)) \<noteq> 0 \<longrightarrow> T = {}) \<and>
     (0xc0000000 \<le> v \<longrightarrow> dir_grows {unat (pd_index v)} s s')"
proof -
  let ?u = "(f AND 4) OR (f AND 2)"
  have u6: "?u = f AND 6"
  proof -
    have "?u = f AND (4 OR 2)" by (rule bit.conj_disj_distrib [symmetric])
    then show ?thesis by simp
  qed
  have u: "?u < 0x1000" "?u AND 0x80 = 0"
  proof -
    note u6
    also have "\<dots> \<le> 6" by (rule word_and_le1)
    finally show "?u < 0x1000" by (simp add: word_less_nat_alt word_le_nat_alt)
    show "?u AND 0x80 = 0" unfolding u6 by (simp add: and.assoc)
  qed
  obtain s1 T where s1: "ensure_table (pd_index v) s = Some s1" "mm_step T (\<lambda>w y. y) s s1"
      "page_dir s1 (unat (pd_index v)) \<noteq> 0" "card T \<le> 1" "T \<subseteq> table_frames s1" "page_dir s (unat (pd_index v)) \<noteq> 0 \<longrightarrow> T = {}"
      "dir_grows {unat (pd_index v)} s s1"
    using ensure_table_step [OF assms] by blast
  then have wf1: "wf_mm s1" "pm_ready s1" by (simp_all add: mm_step_def)
  obtain s2 where s2: "widen_pde v (pd_index v) ?u s1 = Some s2" "mm_step {} (\<lambda>w y. y) s1 s2"
    using widen_pde_step [OF wf1 assms(3) s1(3) u] by blast
  then have wf2: "wf_mm s2" "pm_ready s2" and nz: "page_dir s2 (unat (pd_index v)) \<noteq> 0"
    using s1(3) pd_index_lt(2) [of v] by (auto simp: mm_step_def)
  have "map_page v p f s = Some (set_pte v (p OR f) s2)"
    using s1(1) s2(1) store_pte [OF wf2(1) nz] by (simp add: map_page_stages)
  moreover have "mm_step (T \<union> {} \<union> {}) (\<lambda>w y. if page_base w = page_base v then p OR f else y) s (set_pte v (p OR f) s2)"
    using mm_step_trans [OF mm_step_trans [OF s1(2) s2(2)] set_pte_step [OF wf2 assms(3) nz]] by simp
  moreover have "T \<subseteq> table_frames (set_pte v (p OR f) s2)"
    using s1(5) mm_step_tables_mono [OF s2(2)] mm_step_tables_mono [OF set_pte_step [OF wf2 assms(3) nz]]
    by blast
  moreover have "dir_grows {unat (pd_index v)} s (set_pte v (p OR f) s2)" if "0xc0000000 \<le> v"
  proof -
    have "\<not> v < 0xc0000000" using that by simp
    then have "s2 = s1" using s2(1) load_pd_slot [OF wf1(1) pd_index_lt(1), of v] by (simp add: widen_pde_def)
    then show ?thesis using s1(7) set_pte_spec(1) [OF wf2(1) assms(3) nz] dir_grows_cong by blast
  qed
  ultimately show ?thesis using s1(4,6) by auto
qed

lemma unmap_step:
  assumes "wf_mm s" "pm_ready s" "pd_index v \<noteq> 0x3ff"
  shows "\<exists>s'. unmap v s = Some s' \<and> mm_step {} (\<lambda>w y. if page_base w = page_base v then 0 else y) s s'"
proof (cases "page_dir s (unat (pd_index v)) = 0")
  case True
  have "pte s w = 0" if "page_base w = page_base v" for w
    using that True by (simp add: same_page_iff pte_def)
  then have "mm_step {} (\<lambda>w y. if page_base w = page_base v then 0 else y) s s"
    by (intro mm_step_weaken [OF mm_step_refl [OF assms(1,2)]]) auto
  then show ?thesis
    using True load_pd_slot [OF assms(1) pd_index_lt(1), of v] by (simp add: unmap_def Let_def)
next
  case False
  then show ?thesis
    using load_pd_slot [OF assms(1) pd_index_lt(1), of v] store_pte [OF assms(1) False]
      set_pte_step [OF assms(1,2,3) False] by (simp add: unmap_def Let_def)
qed

subsection \<open>Pages by number\<close>

definition vpage :: "nat \<Rightarrow> u32" where
  "vpage n = of_nat (n * 4096)"

lemma unat_vpage: "n < 0x100000 \<Longrightarrow> unat (vpage n) = n * 4096"
  unfolding vpage_def by (rule unat_of_nat_lt) simp

lemma pd_index_vpage:
  assumes "n < 0xffc00"
  shows "pd_index (vpage n) \<noteq> 0x3ff"
proof -
  have "unat (pd_index (vpage n)) = n * 4096 div 4194304"
    using assms by (simp add: pd_index_def unat_drop_bit unat_vpage)
  also have "\<dots> < 1023" using assms by (intro less_mult_imp_div_less) simp
  finally show ?thesis by (auto simp: word_unat_eq_iff)
qed

lemma vpage_aligned: "n < 0x100000 \<Longrightarrow> page_aligned (vpage n)"
  by (simp add: page_aligned_nat unat_vpage)

lemma vpage_base_eq:
  assumes "n < 0x100000" "m < 0x100000"
  shows "page_base (vpage n) = page_base (vpage m) \<longleftrightarrow> n = m"
  using assms by (simp add: page_base_id vpage_aligned word_unat_eq_iff unat_vpage)

lemma vpage_push:
  assumes "unat i + j < 0x100000"
  shows "push_bit 12 (i + of_nat j) = vpage (unat i + j)"
  unfolding vpage_def by (simp add: push_bit_eq_mult algebra_simps)

definition lookup :: "'a mm_state_scheme \<Rightarrow> nat \<Rightarrow> u32" where
  "lookup s n = pte s (vpage n)"

lemma mm_step_lookup:
  assumes "mm_step T g s s'" "n < 0xffc00"
  shows "lookup s' n = g (vpage n) (lookup s n)"
  using assms pd_index_vpage by (simp add: mm_step_def lookup_def)

lemma get_pflags_lookup: "wf_mm s \<Longrightarrow> get_pflags (vpage n) s = Some (lookup s n AND 0xfff)"
  by (simp add: lookup_def get_pflags_pte)

lemma get_paddr_lookup: "wf_mm s \<Longrightarrow> get_paddr (vpage n) s = Some (page_base (lookup s n))"
  by (simp add: lookup_def get_paddr_pte)

subsection \<open>The search for a run of unmapped pages\<close>

definition vgap :: "'a mm_state_scheme \<Rightarrow> nat \<Rightarrow> nat \<Rightarrow> bool" where
  "vgap s k n \<longleftrightarrow> k + n \<le> 0xffc00 \<and> (\<forall>j < n. lookup s (k + j) AND 0xfff = 0)"

lemma pages_in_use_iff:
  assumes "wf_mm s" "\<forall>j \<in> set js. unat i + j < 0xffc00"
  shows "pages_in_use i js s = Some (\<exists>j \<in> set js. lookup s (unat i + j) AND 0xfff \<noteq> 0)"
  using assms(2)
proof (induction js)
  case (Cons j js)
  then have "push_bit 12 (i + of_nat j) = vpage (unat i + j)" by (intro vpage_push) simp
  then have "get_pflags (push_bit 12 (i + of_nat j)) s = Some (lookup s (unat i + j) AND 0xfff)"
    by (simp only: get_pflags_lookup [OF assms(1)])
  with Cons show ?case by (auto simp del: push_bit_add)
qed simp

lemma page_search_spec:
  assumes wf: "wf_mm s" and b: "vgap s b (unat n)" and i: "unat i \<le> b"
  shows "\<exists>k. page_search n i s = Some (Some (of_nat k)) \<and> unat i \<le> k \<and> k \<le> b \<and> vgap s k (unat n) \<and>
     (\<forall>c. unat i \<le> c \<and> c < k \<longrightarrow> \<not> vgap s c (unat n))"
  using i
proof (induction "b - unat i" arbitrary: i rule: less_induct)
  case less
  have fit: "b + unat n \<le> 0xffc00" using b by (simp add: vgap_def)
  then have lt: "i < 0x400000" using less.prems by (simp add: word_less_nat_alt)
  have use: "pages_in_use i [0..<unat n] s = Some (\<not> vgap s (unat i) (unat n))"
    using pages_in_use_iff [OF wf, of "[0..<unat n]" i] less.prems fit by (auto simp: vgap_def)
  note step = page_search.simps [of n i s]
  show ?case
  proof (cases "vgap s (unat i) (unat n)")
    case True
    with use lt have "page_search n i s = Some (Some (of_nat (unat i)))" by (simp add: step)
    with True less.prems show ?thesis by (intro exI [of _ "unat i"]) auto
  next
    case False
    then have "unat i \<noteq> b" using b by auto
    with less.prems have ib: "unat i < b" by simp
    have suc: "unat (i + 1) = Suc (unat i)" by (rule unat_Suc_less [OF lt])
    have dec: "b - Suc (unat i) < b - unat i" using ib by simp
    obtain k where k: "page_search n (i + 1) s = Some (Some (of_nat k))" "Suc (unat i) \<le> k" "k \<le> b"
        "vgap s k (unat n)" "\<And>c. Suc (unat i) \<le> c \<Longrightarrow> c < k \<Longrightarrow> \<not> vgap s c (unat n)"
      using less.hyps [of "i + 1", unfolded suc, OF dec] ib by auto
    have "page_search n i s = page_search n (i + 1) s" using use False lt by (simp add: step)
    moreover have "\<not> vgap s c (unat n)" if "unat i \<le> c" "c < k" for c
      using that k(5) [of c] False by (cases "c = unat i") auto
    ultimately show ?thesis using k by (intro exI [of _ k]) auto
  qed
qed

subsection \<open>Mapping a run\<close>

text \<open>The state of the page allocator between calls.\<close>

definition mm_ok :: "'a mm_state_scheme \<Rightarrow> bool" where
  "mm_ok s \<longleftrightarrow> wf_mm s \<and> pm_ready s \<and> \<not> lock (page_lock s) \<and> 0 \<in> used_frames s"

lemma mm_lock_frame [simp]:
  "wf_mm (s\<lparr>page_lock := l\<rparr>) = wf_mm s" "pm_ready (s\<lparr>page_lock := l\<rparr>) = pm_ready s"
  "lookup (s\<lparr>page_lock := l\<rparr>) = lookup s" "vgap (s\<lparr>page_lock := l\<rparr>) = vgap s"
  "avail (s\<lparr>page_lock := l\<rparr>) = avail s" "used_frames (s\<lparr>page_lock := l\<rparr>) = used_frames s"
  "table_frames (s\<lparr>page_lock := l\<rparr>) = table_frames s" "pte (s\<lparr>page_lock := l\<rparr>) = pte s"
  by (simp_all add: wf_mm_def page_dir_def pm_ready_def lookup_def pte_def vgap_def avail_def
      used_frames_def table_frames_def fun_eq_iff)

lemma wf_tables_used:
  assumes "wf_mm s" "f \<in> table_frames s"
  shows "page_aligned f \<and> f \<in> used_frames s"
  using assms pm_used_page_base [of "page_base _" _ "pm_map s"]
  by (auto simp: table_frames_def used_frames_def wf_mm_def)

lemma pm_alloc_step:
  assumes "wf_mm s" "pm_ready s" "avail s \<noteq> {}"
  shows "\<exists>a s'. pm_alloc s = Some (a, s') \<and> a \<in> avail s \<and> mm_step {a} (\<lambda>w y. y) s s' \<and>
     table_frames s' = table_frames s \<and> page_dir s' = page_dir s"
proof -
  obtain a s' where a: "pm_alloc s = Some (a, s')" "a \<in> avail s" "avail s' = avail s - {a}"
    and s': "s' = s\<lparr>pm_map := pm_mark a (pm_map s), pm_first_free := drop_bit 15 a, pm_lock := \<lparr>lock = False\<rparr>\<rparr>"
    using pm_alloc_avail [OF assms(2,3)] by metis
  have sel: "page_dir s' = page_dir s" "cr3 s' = cr3 s" "phys s' = phys s" "pm_map s' = pm_mark a (pm_map s)"
      "pm_ready s'" "mm_frame s s'"
    by (simp_all add: s' page_dir_def pm_ready_def)
  have "page_aligned a" using a(2) by (simp add: avail_def)
  then have "used_frames s' = used_frames s \<union> {a}"
    by (auto simp: used_frames_def sel pm_used_mark page_base_id)
  moreover have "wf_mm s'" using assms(1) by (auto simp: wf_mm_def sel pm_used_mark)
  ultimately have "mm_step {a} (\<lambda>w y. y) s s'"
    using a(2,3) sel by (simp add: mm_step_def pte_def table_frames_def) blast
  moreover have "table_frames s' = table_frames s" by (simp add: table_frames_def sel)
  ultimately show ?thesis using a sel(1) by blast
qed

text \<open>One round of the loop of \<^verbatim>\<open>kmalloc\<close>: a frame is allocated and mapped.\<close>

lemma kmalloc_map_round:
  assumes wf: "wf_mm s" "pm_ready s" "0 \<in> used_frames s" and lt: "unat i + j < 0xffc00" and room: "2 \<le> card (avail s)"
  obtains a s' T where "a \<in> avail s" "a \<noteq> 0" "a \<notin> T" "card T \<le> 1" "T \<subseteq> table_frames s'" "a \<notin> table_frames s'"
    "\<And>js. kmalloc_map n i (j # js) s = kmalloc_map n i js s'"
    "mm_step ({a} \<union> T) (\<lambda>w y. if page_base w = vpage (unat i + j) then a OR page_flags n (of_nat j) else y) s s'"
    "0xc0000 \<le> unat i \<longrightarrow> dir_grows {unat (pd_index (vpage (unat i + j)))} s s'"
proof -
  have ne: "avail s \<noteq> {}" using room by auto
  obtain a s1 where a: "pm_alloc s = Some (a, s1)" "a \<in> avail s" "mm_step {a} (\<lambda>w y. y) s s1" "table_frames s1 = table_frames s"
      "page_dir s1 = page_dir s"
    using pm_alloc_step [OF wf(1,2) ne] by blast
  have a0: "a \<noteq> 0" using a(2) wf(3) avail_unused by blast
  have s1: "wf_mm s1" "pm_ready s1" "avail s1 = avail s - {a}" using a(3) by (simp_all add: mm_step_def)
  have "card (avail s1) = card (avail s) - 1" using a(2) s1(3) by simp
  then have ne1: "avail s1 \<noteq> {}" using room by auto
  let ?v = "vpage (unat i + j)"
  have v: "push_bit 12 (i + of_nat j) = ?v" "pd_index ?v \<noteq> 0x3ff" "page_base ?v = ?v"
    using lt vpage_push [of i j] pd_index_vpage page_base_id [OF vpage_aligned, of "unat i + j"]
    by (simp_all del: push_bit_add)
  obtain s2 T where s2: "map_page ?v a (page_flags n (of_nat j)) s1 = Some s2"
      "mm_step T (\<lambda>w y. if page_base w = ?v then a OR page_flags n (of_nat j) else y) s1 s2" "card T \<le> 1"
      "T \<subseteq> table_frames s2" "0xc0000000 \<le> ?v \<longrightarrow> dir_grows {unat (pd_index ?v)} s1 s2"
    using map_page_step [OF s1(1,2) v(2)] ne1 unfolding v(3) by blast
  have w2: "T \<subseteq> avail s1" "table_frames s2 \<subseteq> table_frames s1 \<union> T" using s2(2) by (simp_all add: mm_step_def)
  have aT: "a \<notin> T" using w2(1) s1(3) by blast
  have "a \<notin> table_frames s" using wf_tables_used [OF wf(1)] a(2) avail_unused by blast
  then have at: "a \<notin> table_frames s2" using aT w2(2) a(4) by blast
  have "kmalloc_map n i (j # js) s = kmalloc_map n i js s2" for js using a(1) a0 s2(1) v(1) by simp
  moreover have "dir_grows {unat (pd_index ?v)} s s2" if "0xc0000 \<le> unat i"
  proof -
    have "0xc0000000 \<le> ?v" using that lt by (simp add: word_le_nat_alt unat_vpage)
    then show ?thesis using s2(5) a(5) dir_grows_cong by blast
  qed
  ultimately show ?thesis using that [OF a(2) a0 aT s2(3,4) at _ mm_step_trans [OF a(3) s2(2)]] by blast
qed

lemma find_extend:
  fixes a :: u32
  assumes "j \<notin> set js" "\<forall>k\<in>set js. g k \<noteq> g j"
  shows "(case find (\<lambda>k. x = g k) js of Some k \<Rightarrow> fr k OR h k | None \<Rightarrow> if x = g j then a OR h j else y) =
    (case find (\<lambda>k. x = g k) (j # js) of Some k \<Rightarrow> (fr(j := a)) k OR h k | None \<Rightarrow> y)"
proof -
  have "find (\<lambda>k. x = g k) js = None" if "x = g j" using that assms(2) by (simp add: find_None_iff) metis
  moreover have "k \<noteq> j" if "find (\<lambda>k. x = g k) js = Some k" for k using that assms(1) by (auto simp: find_Some_iff)
  ultimately show ?thesis by (auto split: option.splits)
qed

lemma kmalloc_map_spec:
  assumes "wf_mm s" "pm_ready s" "0 \<in> used_frames s" "distinct js"
    "\<forall>j \<in> set js. unat i + j < 0xffc00" "2 * length js \<le> card (avail s)"
  shows "\<exists>s' T fr. kmalloc_map n i js s = Some (True, s') \<and>
     mm_step T (\<lambda>w y. case find (\<lambda>j. page_base w = vpage (unat i + j)) js of
         Some j \<Rightarrow> fr j OR page_flags n (of_nat j) | None \<Rightarrow> y) s s' \<and>
     fr ` set js \<subseteq> T - table_frames s' \<and> inj_on fr (set js) \<and> card T \<le> 2 * length js \<and>
     T \<subseteq> fr ` set js \<union> table_frames s' \<and>
     (0xc0000 \<le> unat i \<longrightarrow> dir_grows ((\<lambda>j. unat (pd_index (vpage (unat i + j)))) ` set js) s s')"
  using assms
proof (induction js arbitrary: s)
  case Nil
  then show ?case using mm_step_refl [of s] by (intro exI [of _ s] exI [of _ "{}"]) (auto simp: dir_grows_def)
next
  case (Cons j js)
  have lt: "unat i + j < 0xffc00" "2 \<le> card (avail s)" using Cons.prems(5,6) by simp_all
  obtain a s2 T where a: "a \<in> avail s" "a \<noteq> 0" "a \<notin> T" "card T \<le> 1" "T \<subseteq> table_frames s2" "a \<notin> table_frames s2"
      and run: "\<And>js. kmalloc_map n i (j # js) s = kmalloc_map n i js s2"
      and st: "mm_step ({a} \<union> T) (\<lambda>w y. if page_base w = vpage (unat i + j) then a OR page_flags n (of_nat j) else y) s s2"
      and grow: "0xc0000 \<le> unat i \<longrightarrow> dir_grows {unat (pd_index (vpage (unat i + j)))} s s2"
    using kmalloc_map_round [OF Cons.prems(1-3) lt, of n thesis] by blast
  have w2: "wf_mm s2" "pm_ready s2" "0 \<in> used_frames s2" "a \<in> used_frames s2" "avail s2 = avail s - ({a} \<union> T)" "{a} \<union> T \<subseteq> avail s"
    using st Cons.prems(3) by (auto simp: mm_step_def)
  have "card ({a} \<union> T) \<le> 2" using card_Un_le [of "{a}" T] a(4) by simp
  moreover have "card (avail s2) = card (avail s) - card ({a} \<union> T)" unfolding w2(5) using w2(6) by (intro card_Diff_subset) (auto intro: finite_subset)
  ultimately have c2: "2 * length js \<le> card (avail s2)" using Cons.prems(6) by simp
  obtain s3 U fr where s3: "kmalloc_map n i js s2 = Some (True, s3)"
      "mm_step U (\<lambda>w y. case find (\<lambda>j. page_base w = vpage (unat i + j)) js of
         Some j \<Rightarrow> fr j OR page_flags n (of_nat j) | None \<Rightarrow> y) s2 s3"
      "fr ` set js \<subseteq> U - table_frames s3" "inj_on fr (set js)" "card U \<le> 2 * length js"
      "U \<subseteq> fr ` set js \<union> table_frames s3"
      "0xc0000 \<le> unat i \<longrightarrow> dir_grows ((\<lambda>j. unat (pd_index (vpage (unat i + j)))) ` set js) s2 s3"
    using Cons.IH [OF w2(1-3) _ _ c2] Cons.prems by auto
  have sub: "U \<subseteq> avail s2" "table_frames s3 \<subseteq> table_frames s2 \<union> U" using s3(2) by (simp_all add: mm_step_def)
  have aU: "a \<notin> U" using sub(1) w2(4) avail_unused by blast
  then have at3: "a \<notin> table_frames s3" using sub(2) a(6) by blast
  define fr' where "fr' = fr(j := a)"
  have nj: "j \<notin> set js" using Cons.prems(4) by simp
  have other: "\<forall>k\<in>set js. vpage (unat i + k) \<noteq> vpage (unat i + j)"
  proof
    fix k assume k: "k \<in> set js"
    then show "vpage (unat i + k) \<noteq> vpage (unat i + j)" using nj Cons.prems(5) lt(1) vpage_base_eq [of "unat i + k" "unat i + j"] by auto
  qed
  have "mm_step ({a} \<union> T \<union> U) (\<lambda>w y. case find (\<lambda>j. page_base w = vpage (unat i + j)) (j # js) of
         Some j \<Rightarrow> fr' j OR page_flags n (of_nat j) | None \<Rightarrow> y) s s3"
    unfolding fr'_def by (rule mm_step_weaken [OF mm_step_trans [OF st s3(2)]]) (rule find_extend [OF nj other])
  moreover have "fr' ` set (j # js) \<subseteq> ({a} \<union> T \<union> U) - table_frames s3" "inj_on fr' (set (j # js))"
    using s3(3,4) at3 aU nj by (auto simp: fr'_def inj_on_def)
  moreover have "card ({a} \<union> T \<union> U) \<le> 2 * length (j # js)"
    using card_Un_le [of "{a} \<union> T" U] card_Un_le [of "{a}" T] a(4) s3(5) by simp
  moreover have "fr' ` set (j # js) = insert a (fr ` set js)" using nj by (auto simp: fr'_def)
  then have "{a} \<union> T \<union> U \<subseteq> fr' ` set (j # js) \<union> table_frames s3" using a(5) mm_step_tables_mono [OF s3(2)] s3(6) by auto
  moreover have "0xc0000 \<le> unat i \<longrightarrow> dir_grows ((\<lambda>j. unat (pd_index (vpage (unat i + j)))) ` set (j # js)) s s3"
    using grow s3(7) dir_grows_trans [of "{unat (pd_index (vpage (unat i + j)))}" s s2] by simp
  ultimately show ?case using s3(1) unfolding run [of js] by blast
qed

subsection \<open>Allocation of virtual pages\<close>

lemma kmalloc_spec:
  assumes ok: "mm_ok s" and heap: "heap_base s = 0" and b: "0xc0000 \<le> b" "vgap s b (unat n)"
    and room: "2 * unat n \<le> card (avail s)"
  obtains k s' T fr where "kmalloc n s = Some (vpage k, s')" "mm_ok s'" "heap_base s' = 0"
    "vgap s k (unat n)" "0xc0000 \<le> k" "\<And>c. 0xc0000 \<le> c \<Longrightarrow> c < k \<Longrightarrow> \<not> vgap s c (unat n)"
    "\<And>j. j < unat n \<Longrightarrow> lookup s' (k + j) = fr j OR page_flags n (of_nat j)"
    "\<And>m. m < 0xffc00 \<Longrightarrow> m \<notin> {k..<k + unat n} \<Longrightarrow> lookup s' m = lookup s m"
    "fr ` {..<unat n} \<subseteq> T - table_frames s'" "inj_on fr {..<unat n}"
    "T \<subseteq> avail s" "used_frames s' = used_frames s \<union> T" "T \<subseteq> fr ` {..<unat n} \<union> table_frames s'"
    "avail s' = avail s - T" "card T \<le> 2 * unat n"
    "heap_map_size s' = heap_map_size s" "heap_lock s' = heap_lock s"
    "dir_grows ((\<lambda>j. unat (pd_index (vpage (k + j)))) ` {..<unat n}) s s'" "mm_frame s s'"
    "\<forall>F. F \<notin> table_frames s \<union> T \<longrightarrow> phys s' F = phys s F" "table_frames s' \<subseteq> table_frames s \<union> T"
proof -
  let ?s1 = "s\<lparr>page_lock := \<lparr>lock = True\<rparr>\<rparr>"
  have c: "unat (0xc0000 :: u32) = 0xc0000" by simp
  have wf: "wf_mm ?s1" and gap: "vgap ?s1 b (unat n)" using ok b by (simp_all add: mm_ok_def)
  obtain k where k: "page_search n 0xc0000 ?s1 = Some (Some (of_nat k))" "0xc0000 \<le> k" "k \<le> b"
      "vgap s k (unat n)" "\<And>c. 0xc0000 \<le> c \<Longrightarrow> c < k \<Longrightarrow> \<not> vgap s c (unat n)"
    using page_search_spec [OF wf gap, of "0xc0000", unfolded c] b(1) by auto
  have fit: "k + unat n \<le> 0xffc00" using k(4) by (simp add: vgap_def)
  then have uk: "unat (of_nat k :: u32) = k" by (simp add: unat_of_nat_lt)
  obtain s2 T fr where s2: "kmalloc_map n (of_nat k) [0..<unat n] ?s1 = Some (True, s2)"
      "mm_step T (\<lambda>w y. case find (\<lambda>j. page_base w = vpage (k + j)) [0..<unat n] of
         Some j \<Rightarrow> fr j OR page_flags n (of_nat j) | None \<Rightarrow> y) ?s1 s2"
      "fr ` {..<unat n} \<subseteq> T - table_frames s2" "inj_on fr {..<unat n}"
      "T \<subseteq> fr ` {..<unat n} \<union> table_frames s2" "card T \<le> 2 * unat n"
      "dir_grows ((\<lambda>j. unat (pd_index (vpage (k + j)))) ` {..<unat n}) ?s1 s2"
    using kmalloc_map_spec [of ?s1 "[0..<unat n]" "of_nat k" n] ok room fit k(2)
    by (auto simp: mm_ok_def uk atLeast0LessThan)
  let ?s' = "s2\<lparr>page_lock := \<lparr>lock = False\<rparr>\<rparr>"
  have grow: "dir_grows ((\<lambda>j. unat (pd_index (vpage (k + j)))) ` {..<unat n}) s ?s'"
    using s2(7) by (simp add: dir_grows_def page_dir_def)
  have "page_lock s = \<lparr>lock = False\<rparr>" using ok by (cases "page_lock s") (simp add: mm_ok_def)
  moreover have "mm_frame ?s1 s2" using s2(2) by (simp add: mm_step_def)
  ultimately have frame: "mm_frame s ?s'" unfolding mm_frame_def by (cases s, cases s2) simp
  have lk: "lookup s2 m = (case find (\<lambda>j. vpage m = vpage (k + j)) [0..<unat n] of
         Some j \<Rightarrow> fr j OR page_flags n (of_nat j) | None \<Rightarrow> lookup s m)" if "m < 0xffc00" for m
    using mm_step_lookup [OF s2(2) that] that page_base_id [OF vpage_aligned, of m]
    by (simp cong: option.case_cong)
  have veq: "vpage m = vpage (k + j) \<longleftrightarrow> m = k + j" if "m < 0xffc00" "j < unat n" for m j
    using vpage_base_eq [of m "k + j"] page_base_id [OF vpage_aligned] that fit by simp
  show thesis
  proof (rule that [of k "s2\<lparr>page_lock := \<lparr>lock = False\<rparr>\<rparr>" fr T])
    fix j assume j: "j < unat n"
    then have "k + j < 0xffc00" using fit by simp
    moreover from this j have "find (\<lambda>j'. vpage (k + j) = vpage (k + j')) [0..<unat n] = Some j"
      using veq unfolding find_Some_iff by (intro exI [of _ j]) auto
    ultimately show "lookup (s2\<lparr>page_lock := \<lparr>lock = False\<rparr>\<rparr>) (k + j) = fr j OR page_flags n (of_nat j)"
      using lk by simp
  next
    fix m assume m: "m < 0xffc00" "m \<notin> {k..<k + unat n}"
    then have "find (\<lambda>j. vpage m = vpage (k + j)) [0..<unat n] = None"
      using veq unfolding find_None_iff by auto
    with lk m show "lookup (s2\<lparr>page_lock := \<lparr>lock = False\<rparr>\<rparr>) m = lookup s m" by simp
  qed (use k s2(1-6) ok heap grow frame in \<open>auto simp: kmalloc_def mm_ok_def lock_defs mm_step_def vpage_def
        push_bit_eq_mult dest: mm_frame_sel\<close>)
qed

subsection \<open>Release of virtual pages\<close>

text \<open>\<open>vblock s k n fr\<close>: the pages \<open>k ..< k + n\<close> are one block as \<^verbatim>\<open>kmalloc\<close> makes it, on the frames \<open>fr\<close>.\<close>

definition vblock :: "'a mm_state_scheme \<Rightarrow> nat \<Rightarrow> nat \<Rightarrow> nat \<Rightarrow> (nat \<Rightarrow> u32) \<Rightarrow> bool" where
  "vblock s k j n fr \<longleftrightarrow> k + n \<le> 0xffc00 \<and>
     (\<forall>i. j \<le> i \<and> i < n \<longrightarrow> lookup s (k + i) = fr i OR page_flags (of_nat n) (of_nat i) \<and>
        page_aligned (fr i) \<and> fr i \<notin> table_frames s)"

lemma page_flags_lt: "page_flags n j < 0x1000"
  by (auto simp: page_flags_def)

lemma page_flags_facts:
  "page_flags n j \<noteq> 0"
  "page_flags n j AND 0x400 \<noteq> 0 \<longleftrightarrow> j \<noteq> 0"
  "page_flags n j AND 0x200 \<noteq> 0 \<longleftrightarrow> j < n - 1"
  by (auto simp: page_flags_def)

lemma page_flags_nat:
  assumes "i < n" "n \<le> 0xffc00"
  shows "page_flags (of_nat n) (of_nat i) AND 0x400 \<noteq> 0 \<longleftrightarrow> i \<noteq> 0"
    "page_flags (of_nat n) (of_nat i) AND 0x200 \<noteq> 0 \<longleftrightarrow> i < n - 1"
proof -
  have u: "unat (of_nat n :: u32) = n" "unat (of_nat i :: u32) = i" "unat (of_nat n - 1 :: u32) = n - 1"
    using assms by (simp_all add: unat_of_nat_lt unat_sub word_le_nat_alt)
  show "page_flags (of_nat n) (of_nat i) AND 0x400 \<noteq> 0 \<longleftrightarrow> i \<noteq> 0"
    unfolding page_flags_facts(2) using u(2) unat_0_iff [of "of_nat i :: u32"] by simp
  show "page_flags (of_nat n) (of_nat i) AND 0x200 \<noteq> 0 \<longleftrightarrow> i < n - 1"
    unfolding page_flags_facts(3) using u by (simp add: word_less_nat_alt)
qed

lemma vblock_get:
  assumes "wf_mm s" "vblock s k j n fr" "j \<le> i" "i < n"
  shows "get_pflags (vpage (k + i)) s = Some (page_flags (of_nat n) (of_nat i))"
    "get_paddr (vpage (k + i)) s = Some (fr i)"
  using assms page_base_or [OF _ page_flags_lt, of "fr i" "of_nat n" "of_nat i"]
  by (auto simp: get_pflags_lookup get_paddr_lookup vblock_def)

lemma block_first_page_spec:
  assumes "wf_mm s" "vblock s k 0 n fr" "i < n"
  shows "block_first_page (vpage (k + i)) s = Some (vpage k)"
  using assms(3)
proof (induction i)
  case 0
  with vblock_get(1) [OF assms(1,2), of 0] page_flags_nat(1) [of 0 n] assms(2) show ?case
    by (simp add: block_first_page.simps [of "vpage k"] vblock_def)
next
  case (Suc i)
  have "vpage (k + Suc i) - 0x1000 = vpage (k + i)" by (simp add: vpage_def algebra_simps)
  moreover have "page_flags (of_nat n) (of_nat (Suc i)) AND 0x400 \<noteq> 0"
    using page_flags_nat(1) [OF Suc.prems] assms(2) by (simp add: vblock_def del: of_nat_Suc)
  ultimately show ?case
    using Suc vblock_get(1) [OF assms(1,2) _ Suc.prems]
    by (simp add: block_first_page.simps [of "vpage (k + Suc i)"] del: add_Suc_right of_nat_Suc)
qed

lemma pm_free_mm:
  assumes "wf_mm s" "pm_ready s" "page_aligned a" "a \<notin> table_frames s"
  shows "\<exists>s'. pm_free a s = Some s' \<and> wf_mm s' \<and> pm_ready s' \<and> mm_frame s s' \<and>
     lookup s' = lookup s \<and> table_frames s' = table_frames s \<and> used_frames s' = used_frames s - {a}"
proof -
  let ?s = "s\<lparr>pm_map := pm_unmark a (pm_map s),
     pm_first_free := min (drop_bit 15 a) (pm_first_free s), pm_lock := \<lparr>lock = False\<rparr>\<rparr>"
  have sel: "page_dir ?s = page_dir s" "lookup ?s = lookup s" "table_frames ?s = table_frames s"
    by (simp_all add: page_dir_def lookup_def pte_def table_frames_def fun_eq_iff)
  have "page_base (page_dir s i) \<noteq> a" if "i < 1023" "page_dir s i \<noteq> 0" for i
    using that assms(4) by (auto simp: table_frames_def)
  moreover have "page_base (cr3 s) \<noteq> a" using assms(4) by (auto simp: table_frames_def)
  ultimately have "wf_mm ?s"
    using assms(1,3) unfolding wf_mm_def sel by (auto simp: pm_used_unmark page_base_id)
  moreover have "used_frames ?s = used_frames s - {a}"
    using assms(3) by (auto simp: used_frames_def pm_used_unmark page_base_id)
  moreover have "pm_ready ?s" "mm_frame s ?s" by (simp_all add: pm_ready_def)
  ultimately show ?thesis using pm_free_eq [OF assms(2), of a] sel by blast
qed

text \<open>One round of the loop of \<^verbatim>\<open>kfree\<close>: the page is unmapped and its frame freed.\<close>

lemma block_release_round:
  assumes wf: "wf_mm s" "pm_ready s" and vb: "vblock s k j n fr" and j: "j < n"
  obtains s' where "wf_mm s'" "pm_ready s'" "mm_frame s s'" "table_frames s' \<subseteq> table_frames s" "used_frames s' = used_frames s - {fr j}"
    "\<forall>m<0xffc00. lookup s' m = (if m = k + j then 0 else lookup s m)"
    "block_release (vpage (k + j)) s = (if j < n - 1 then block_release (vpage (k + Suc j)) s' else Some s')"
proof -
  let ?v = "vpage (k + j)"
  have lt: "k + j < 0xffc00" "n \<le> 0xffc00" using vb j by (simp_all add: vblock_def)
  note get = vblock_get [OF wf(1) vb order_refl j]
  obtain s1 where s1: "unmap ?v s = Some s1" "mm_step {} (\<lambda>w y. if page_base w = page_base ?v then 0 else y) s s1"
    using unmap_step [OF wf pd_index_vpage [OF lt(1)]] by blast
  have w1: "wf_mm s1" "pm_ready s1" "mm_frame s s1" "table_frames s1 \<subseteq> table_frames s" "used_frames s1 = used_frames s"
    using s1(2) by (simp_all add: mm_step_def)
  have l1: "lookup s1 m = (if m = k + j then 0 else lookup s m)" if "m < 0xffc00" for m
    using mm_step_lookup [OF s1(2) that] vpage_base_eq [of m "k + j"] that lt by simp
  have fr: "page_aligned (fr j)" "fr j \<notin> table_frames s1"
    using vb j w1(4) by (auto simp: vblock_def)
  obtain s2 where s2: "pm_free (fr j) s1 = Some s2" "wf_mm s2" "pm_ready s2" "mm_frame s1 s2"
      "lookup s2 = lookup s1" "table_frames s2 = table_frames s1" "used_frames s2 = used_frames s1 - {fr j}"
    using pm_free_mm [OF w1(1,2) fr] by blast
  have "?v + 0x1000 = vpage (k + Suc j)" by (simp add: vpage_def algebra_simps)
  then have "block_release ?v s = (if j < n - 1 then block_release (vpage (k + Suc j)) s2 else Some s2)"
    using get s1(1) s2(1) page_flags_nat(2) [OF j lt(2)] by (auto simp: block_release.simps [of ?v])
  moreover have "mm_frame s s2" using mm_frame_trans [OF w1(3) s2(4)] .
  ultimately show ?thesis using that [OF s2(2,3)] w1(4,5) s2(5-7) l1 by simp
qed

lemma block_release_spec:
  assumes "wf_mm s" "pm_ready s" "vblock s k j n fr" "j < n"
  shows "\<exists>s'. block_release (vpage (k + j)) s = Some s' \<and> wf_mm s' \<and> pm_ready s' \<and> mm_frame s s' \<and>
     table_frames s' \<subseteq> table_frames s \<and> used_frames s' = used_frames s - fr ` {j..<n} \<and>
     (\<forall>m < 0xffc00. lookup s' m = (if k + j \<le> m \<and> m < k + n then 0 else lookup s m))"
  using assms
proof (induction "n - j" arbitrary: j s)
  case 0
  then show ?case by simp
next
  case (Suc d)
  obtain s2 where s2: "wf_mm s2" "pm_ready s2" "mm_frame s s2" "table_frames s2 \<subseteq> table_frames s" "used_frames s2 = used_frames s - {fr j}"
      and l2: "\<forall>m<0xffc00. lookup s2 m = (if m = k + j then 0 else lookup s m)"
      and unfold: "block_release (vpage (k + j)) s = (if j < n - 1 then block_release (vpage (k + Suc j)) s2 else Some s2)"
    by (rule block_release_round [OF Suc.prems], rule that; assumption)
  show ?case
  proof (cases "j < n - 1")
    case False
    then have "n = Suc j" using Suc.prems(4) by simp
    then show ?thesis using unfold False s2 l2 by (auto simp: atLeastLessThanSuc)
  next
    case True
    have vb: "vblock s2 k (Suc j) n fr"
      using Suc.prems(3) l2 s2(4) by (auto simp: vblock_def)
    have d: "d = n - Suc j" "Suc j < n" using Suc.hyps(2) True by simp_all
    obtain s3 where s3: "block_release (vpage (k + Suc j)) s2 = Some s3" "wf_mm s3" "pm_ready s3"
        "mm_frame s2 s3" "table_frames s3 \<subseteq> table_frames s2" "used_frames s3 = used_frames s2 - fr ` {Suc j..<n}"
        "\<forall>m < 0xffc00. lookup s3 m = (if k + Suc j \<le> m \<and> m < k + n then 0 else lookup s2 m)"
      using Suc.hyps(1) [OF d(1) s2(1,2) vb d(2)] by blast
    have "{j..<n} = insert j {Suc j..<n}" using Suc.prems(4) by auto
    then have "used_frames s3 = used_frames s - fr ` {j..<n}" using s3(6) s2(5) by auto
    moreover have "lookup s3 m = (if k + j \<le> m \<and> m < k + n then 0 else lookup s m)" if "m < 0xffc00" for m
      using that s3(7) l2 Suc.prems(4) by (cases "m = k + j") auto
    ultimately show ?thesis
      using unfold True s3 s2(4) mm_frame_trans [OF s2(3) s3(4)] by auto
  qed
qed

subsection \<open>Properties of the paging code\<close>

text \<open>
  An address space with a directory in frame \<^verbatim>\<open>0x1000\<close> and no tables yet; the first four
  frames are in use.
\<close>

definition mm_example :: mm_state where
  "mm_example = heap_state.extend (heap_example\<lparr>heap_base := 0\<rparr>)
     \<lparr>phys = (\<lambda>_ _. 0)(0x1000 := (\<lambda>_. 0)(1023 := 0x1001)), cr3 = 0x1000, page_lock = \<lparr>lock = False\<rparr>\<rparr>"

lemma mm_example_dir: "page_dir mm_example = (\<lambda>_. 0)(1023 := 0x1001)"
  by (simp add: page_dir_def mm_example_def heap_example_def heap_state.defs pm_state.defs page_base_def)

lemma mm_example_wf: "wf_mm mm_example"
  unfolding wf_mm_def mm_example_dir
  by (simp add: mm_example_def heap_example_def pm_example_def heap_state.defs pm_state.defs page_base_def pm_used_def)

lemma mm_example_ok: "mm_ok mm_example" "heap_base mm_example = 0"
  using mm_example_wf
  by (simp_all add: mm_ok_def mm_example_def heap_example_def pm_example_def heap_state.defs pm_state.defs
      pm_ready_def used_frames_def page_aligned_def pm_used_def)

lemma mm_example_avail: "{0x8000, 0x9000, 0xa000, 0xb000} \<subseteq> avail mm_example"
  by (simp add: avail_def mm_example_def heap_example_def pm_example_def heap_state.defs pm_state.defs
      page_aligned_def pm_used_def)

lemma mm_example_card: "4 \<le> card (avail mm_example)"
proof -
  have "card {0x8000, 0x9000, 0xa000, 0xb000 :: u32} = 4" by simp
  with card_mono [OF finite_avail mm_example_avail] show ?thesis by simp
qed

lemma mm_example_gap: "vgap mm_example 0xc0000 (unat (2 :: u32))"
proof -
  have "lookup mm_example n = 0" if "n < 0xffc00" for n
    using pd_index_user [OF pd_index_vpage [OF that]] by (simp add: lookup_def pte_def mm_example_dir)
  then show ?thesis by (simp add: vgap_def)
qed

text \<open>
  C2. \<^verbatim>\<open>map\<close> returns, keeps the address space well-formed, and sets exactly one translation:
  afterwards \<^verbatim>\<open>get_paddr\<close> and \<^verbatim>\<open>get_pflags\<close> of the page give the frame and the flags it was
  called with, of every other page (outside the table window) what they gave before, and
  the memory unit translates every address of the page to the frame.
\<close>

theorem map_then_lookup:
  assumes "wf_mm s" "pm_ready s" "pd_index v \<noteq> 0x3ff"
    and "page_dir s (unat (pd_index v)) \<noteq> 0 \<or> avail s \<noteq> {}"
    and "page_aligned p" "f < 0x1000"
  shows "\<exists>s'. map_page v p f s = Some s' \<and> wf_mm s' \<and> pm_ready s' \<and>
     get_paddr v s' = Some p \<and> get_pflags v s' = Some f \<and>
     (\<forall>w. pd_index w \<noteq> 0x3ff \<and> page_base w \<noteq> page_base v \<longrightarrow>
        get_paddr w s' = get_paddr w s \<and> get_pflags w s' = get_pflags w s) \<and>
     (page_dir s (unat (pd_index v)) AND 0x80 = 0 \<and> f AND 1 \<noteq> 0 \<longrightarrow>
        mmu_walk s' v = Some (p OR (v AND 0xfff)))"
proof -
  obtain s' T where s': "map_page v p f s = Some s'"
      "mm_step T (\<lambda>w y. if page_base w = page_base v then p OR f else y) s s'"
    using map_page_step [OF assms(1-4)] by blast
  then have wf: "wf_mm s'" "pm_ready s'" by (simp_all add: mm_step_def)
  have pte: "pte s' w = (if page_base w = page_base v then p OR f else pte s w)" if "pd_index w \<noteq> 0x3ff" for w
    using that s'(2) by (auto simp: mm_step_def)
  have own: "pte s' v = p OR f" using pte [OF assms(3)] by simp
  note split = page_base_or [OF assms(5,6)]
  have "mmu_walk s' v = Some (p OR (v AND 0xfff))"
    if "page_dir s (unat (pd_index v)) AND 0x80 = 0" "f AND 1 \<noteq> 0"
  proof -
    have present: "(p OR f) AND 1 \<noteq> 0" "p OR f \<noteq> 0" using or_keeps_bit0 [OF that(2), of p] by (simp_all add: or.commute)
    have dir: "page_dir s' (unat (pd_index v)) AND 0x80 = 0"
      using s'(2) that(1) pd_index_user [OF assms(3)] by (simp add: mm_step_def)
    have nz: "page_dir s' (unat (pd_index v)) \<noteq> 0" using own present by (auto simp: pte_def)
    have "page_dir s' (unat (pd_index v)) AND 1 \<noteq> 0" by (rule wf_dir_present [OF wf(1) pd_index_lt(2) nz])
    then show ?thesis
      using own dir nz present split(1) by (simp add: mmu_walk_def pte_def page_dir_def Let_def)
  qed
  then show ?thesis
    using s'(1) wf pte own split by (auto simp: get_paddr_pte [OF wf(1)] get_pflags_pte [OF wf(1)]
        get_paddr_pte [OF assms(1)] get_pflags_pte [OF assms(1)])
qed

theorem map_then_lookup_witness:
  "\<exists>s'. map_page 0xd0001234 0x8000 3 mm_example = Some s' \<and> get_paddr 0xd0001234 s' = Some 0x8000 \<and>
     get_pflags 0xd0001234 s' = Some 3 \<and> mmu_walk s' 0xd0001234 = Some 0x8234"
proof -
  have "avail mm_example \<noteq> {}" using mm_example_avail by auto
  moreover have "page_dir mm_example (unat (pd_index 0xd0001234)) = 0"
    by (simp add: mm_example_dir pd_index_def)
  ultimately show ?thesis
    using map_then_lookup [OF mm_example_wf, of "0xd0001234" "0x8000" 3] mm_example_ok
    by (auto simp: mm_ok_def pd_index_def page_aligned_def)
qed

text \<open>
  C8. Before the heap exists, \<^verbatim>\<open>kmalloc\<close> with a run of unmapped kernel pages and enough free
  frames returns the lowest such run from \<^verbatim>\<open>0xc0000000\<close> upwards.  Each page is mapped to a frame
  of its own that was free and is no page table, with flags that link the pages of the block.  The frames of the pages and those
  of new page tables are the only ones that come into use, and new page tables are made only for empty directory entries
  of the block.  No other translation changes, the contents of all frames other than these and the tables stay,
  and so does every field of the state outside the frame allocator.
\<close>

theorem kmalloc_maps_fresh_pages:
  assumes "mm_ok s" "heap_base s = 0" "0xc0000 \<le> b" "vgap s b (unat n)" "2 * unat n \<le> card (avail s)"
  shows "\<exists>k s' fr. kmalloc n s = Some (vpage k, s') \<and> mm_ok s' \<and>
     0xc0000 \<le> k \<and> vgap s k (unat n) \<and> (\<forall>c. 0xc0000 \<le> c \<and> c < k \<longrightarrow> \<not> vgap s c (unat n)) \<and>
     (\<forall>j < unat n. lookup s' (k + j) = fr j OR page_flags n (of_nat j)) \<and>
     (\<forall>m < 0xffc00. m \<notin> {k..<k + unat n} \<longrightarrow> lookup s' m = lookup s m) \<and>
     fr ` {..<unat n} \<subseteq> avail s - table_frames s' \<and> inj_on fr {..<unat n} \<and>
     table_frames s' - table_frames s \<subseteq> avail s \<and>
     used_frames s' = used_frames s \<union> fr ` {..<unat n} \<union> (table_frames s' - table_frames s) \<and>
     (\<forall>i. page_dir s' i \<noteq> page_dir s i \<longrightarrow> page_dir s i = 0 \<and> (\<exists>j < unat n. i = unat (pd_index (vpage (k + j))))) \<and>
     (\<forall>F. F \<notin> fr ` {..<unat n} \<union> table_frames s \<union> table_frames s' \<longrightarrow> phys s' F = phys s F) \<and>
     s' = s\<lparr>phys := phys s', pm_map := pm_map s', pm_first_free := pm_first_free s', pm_lock := pm_lock s'\<rparr>"
proof -
  obtain k s' T fr where k: "kmalloc n s = Some (vpage k, s')" "mm_ok s'" "0xc0000 \<le> k" "vgap s k (unat n)"
    "\<And>c. 0xc0000 \<le> c \<Longrightarrow> c < k \<Longrightarrow> \<not> vgap s c (unat n)" "\<And>j. j < unat n \<Longrightarrow> lookup s' (k + j) = fr j OR page_flags n (of_nat j)"
    "\<And>m. m < 0xffc00 \<Longrightarrow> m \<notin> {k..<k + unat n} \<Longrightarrow> lookup s' m = lookup s m"
    and fr: "fr ` {..<unat n} \<subseteq> T - table_frames s'" "inj_on fr {..<unat n}" "T \<subseteq> avail s" "used_frames s' = used_frames s \<union> T"
      "T \<subseteq> fr ` {..<unat n} \<union> table_frames s'"
    and rest: "dir_grows ((\<lambda>j. unat (pd_index (vpage (k + j)))) ` {..<unat n}) s s'" "mm_frame s s'"
      "\<forall>F. F \<notin> table_frames s \<union> T \<longrightarrow> phys s' F = phys s F" "table_frames s' \<subseteq> table_frames s \<union> T"
    by (rule kmalloc_spec [OF assms], rule that; assumption)
  have "table_frames s \<inter> avail s = {}"
    using assms(1) wf_tables_used avail_unused unfolding mm_ok_def by blast
  then have T: "T = fr ` {..<unat n} \<union> (table_frames s' - table_frames s)"
    using fr(1,3,5) rest(4) by blast
  have "F \<notin> table_frames s \<union> T" if "F \<notin> fr ` {..<unat n} \<union> table_frames s \<union> table_frames s'" for F using that T by blast
  then have "\<forall>F. F \<notin> fr ` {..<unat n} \<union> table_frames s \<union> table_frames s' \<longrightarrow> phys s' F = phys s F" using rest(3) by blast
  moreover have "used_frames s' = used_frames s \<union> fr ` {..<unat n} \<union> (table_frames s' - table_frames s)" using fr(4) T by blast
  moreover have "fr ` {..<unat n} \<subseteq> avail s - table_frames s'" "table_frames s' - table_frames s \<subseteq> avail s" using fr(1,3) T by blast+
  moreover have "\<forall>i. page_dir s' i \<noteq> page_dir s i \<longrightarrow> page_dir s i = 0 \<and> (\<exists>j < unat n. i = unat (pd_index (vpage (k + j))))"
    using rest(1) by (auto simp: dir_grows_def)
  ultimately show ?thesis
    using k fr(2) rest(2) [unfolded mm_frame_def] by (intro exI [of _ k] exI [of _ s'] exI [of _ fr]) blast
qed

theorem kmalloc_maps_fresh_pages_witness:
  "\<exists>k s' fr. kmalloc 2 mm_example = Some (vpage k, s') \<and> mm_ok s' \<and> 0xc0000 \<le> k \<and>
     (\<forall>j < 2. lookup s' (k + j) = fr j OR page_flags 2 (of_nat j)) \<and>
     fr ` {..<2} \<subseteq> avail mm_example - table_frames s' \<and>
     used_frames s' = used_frames mm_example \<union> fr ` {..<2} \<union> (table_frames s' - table_frames mm_example)"
  using kmalloc_maps_fresh_pages [OF mm_example_ok order_refl mm_example_gap] mm_example_card by auto

lemma kfree_spec:
  assumes ok: "mm_ok s" and heap: "heap_base s = 0" and vb: "vblock s k 0 n fr" and i: "i < n"
    and v: "page_base v = vpage (k + i)" and zero: "0 \<notin> fr ` {..<n}"
  shows "\<exists>s'. kfree v s = Some s' \<and> mm_ok s' \<and> heap_base s' = 0 \<and>
     used_frames s' = used_frames s - fr ` {..<n} \<and>
     (\<forall>m < 0xffc00. lookup s' m = (if k \<le> m \<and> m < k + n then 0 else lookup s m))"
proof -
  let ?s1 = "s\<lparr>page_lock := \<lparr>lock = True\<rparr>\<rparr>"
  have wf: "wf_mm s" "wf_mm ?s1" "pm_ready ?s1" "\<not> lock (page_lock s)" using ok by (simp_all add: mm_ok_def)
  have vb1: "vblock ?s1 k 0 n fr" using vb by (simp add: vblock_def)
  have "get_pflags v s = get_pflags (vpage (k + i)) s"
  proof -
    have "page_base v = page_base (vpage (k + i))" using v by (metis page_base_idem)
    then show ?thesis unfolding get_pflags_def same_page_iff by simp
  qed
  then have flags: "get_pflags v s = Some (page_flags (of_nat n) (of_nat i))"
    using vblock_get(1) [OF wf(1) vb _ i] by simp
  have first: "block_first_page (page_base v) ?s1 = Some (vpage k)"
    using block_first_page_spec [OF wf(2) vb1 i] v by simp
  obtain s2 where s2: "block_release (vpage k) ?s1 = Some s2" "wf_mm s2" "pm_ready s2" "mm_frame ?s1 s2"
      "used_frames s2 = used_frames s - fr ` {..<n}"
      "\<forall>m < 0xffc00. lookup s2 m = (if k \<le> m \<and> m < k + n then 0 else lookup s m)"
    using block_release_spec [OF wf(2,3) vb1] i by (auto simp: atLeast0LessThan)
  have "kfree v s = Some (s2\<lparr>page_lock := \<lparr>lock = False\<rparr>\<rparr>)"
    using heap flags page_flags_facts(1) wf(4) first s2(1) by (simp add: kfree_def lock_defs)
  moreover have "0 \<in> used_frames s2" using ok s2(5) zero by (simp add: mm_ok_def)
  ultimately show ?thesis
    using s2 heap mm_frame_sel(3) [OF s2(4)] by (simp add: mm_ok_def)
qed

text \<open>
  C29. \<^verbatim>\<open>kfree\<close> of any address inside a block that \<^verbatim>\<open>kmalloc\<close> returned restores every translation
  that \<^verbatim>\<open>kmalloc\<close> found, and returns the frames of the pages: of the frames the pair of calls
  took, only page tables stay in use.
\<close>

theorem kmalloc_kfree_roundtrip:
  assumes "mm_ok s" "heap_base s = 0" "0xc0000 \<le> b" "vgap s b (unat n)" "2 * unat n \<le> card (avail s)"
    and "i < unat n" "\<forall>m < 0xffc00. lookup s m AND 0xfff = 0 \<longrightarrow> lookup s m = 0"
  shows "\<exists>k s1. kmalloc n s = Some (vpage k, s1) \<and>
     (\<forall>v. page_base v = vpage (k + i) \<longrightarrow> (\<exists>s2 T. kfree v s1 = Some s2 \<and> mm_ok s2 \<and>
       (\<forall>m < 0xffc00. lookup s2 m = lookup s m) \<and>
       used_frames s2 = used_frames s \<union> T \<and> T \<subseteq> table_frames s1))"
proof -
  obtain k s1 T fr where k: "kmalloc n s = Some (vpage k, s1)" "mm_ok s1" "heap_base s1 = 0"
    "vgap s k (unat n)" "\<And>j. j < unat n \<Longrightarrow> lookup s1 (k + j) = fr j OR page_flags n (of_nat j)"
    "\<And>m. m < 0xffc00 \<Longrightarrow> m \<notin> {k..<k + unat n} \<Longrightarrow> lookup s1 m = lookup s m"
    "fr ` {..<unat n} \<subseteq> T - table_frames s1"
    "T \<subseteq> avail s" "used_frames s1 = used_frames s \<union> T" "T \<subseteq> fr ` {..<unat n} \<union> table_frames s1"
    by (rule kmalloc_spec [OF assms(1-5)], rule that; assumption)
  have fr: "fr j \<in> avail s" "fr j \<notin> table_frames s1" if "j < unat n" for j using k(7,8) that by auto
  have vb: "vblock s1 k 0 (unat n) fr"
    using k(4,5) fr by (auto simp: vblock_def vgap_def avail_def)
  have unused: "fr ` {..<unat n} \<inter> used_frames s = {}" using fr(1) avail_unused by blast
  have zero: "0 \<notin> fr ` {..<unat n}" using unused assms(1) by (auto simp: mm_ok_def)
  have "\<exists>s2 T. kfree v s1 = Some s2 \<and> mm_ok s2 \<and> (\<forall>m < 0xffc00. lookup s2 m = lookup s m) \<and>
      used_frames s2 = used_frames s \<union> T \<and> T \<subseteq> table_frames s1" if v: "page_base v = vpage (k + i)" for v
  proof -
    obtain s2 where s2: "kfree v s1 = Some s2" "mm_ok s2" "used_frames s2 = used_frames s1 - fr ` {..<unat n}"
      "\<forall>m < 0xffc00. lookup s2 m = (if k \<le> m \<and> m < k + unat n then 0 else lookup s1 m)"
      using kfree_spec [OF k(2,3) vb assms(6) v zero] by blast
    have "lookup s2 m = lookup s m" if m: "m < 0xffc00" for m
    proof (cases "m \<in> {k..<k + unat n}")
      case True
      then obtain j where j: "m = k + j" "j < unat n" by (auto simp: le_iff_add)
      then have "lookup s m AND 0xfff = 0" using k(4) by (simp add: vgap_def)
      then show ?thesis using True s2(4) assms(7) m by simp
    next
      case False
      then show ?thesis using k(6) [OF m] s2(4) m by auto
    qed
    moreover have "used_frames s2 = used_frames s \<union> (T - fr ` {..<unat n})"
      unfolding s2(3) k(9) using unused by blast
    moreover have "T - fr ` {..<unat n} \<subseteq> table_frames s1" using k(10) by auto
    ultimately show ?thesis using s2(1,2) by (intro exI [of _ s2] exI [of _ "T - fr ` {..<unat n}"]) simp
  qed
  with k(1) show ?thesis by (intro exI [of _ k] exI [of _ s1]) simp
qed

theorem kmalloc_kfree_roundtrip_witness:
  "\<exists>k s1. kmalloc 2 mm_example = Some (vpage k, s1) \<and>
     (\<forall>v. page_base v = vpage (k + 1) \<longrightarrow> (\<exists>s2 T. kfree v s1 = Some s2 \<and> mm_ok s2 \<and>
       (\<forall>m < 0xffc00. lookup s2 m = lookup mm_example m) \<and>
       used_frames s2 = used_frames mm_example \<union> T \<and> T \<subseteq> table_frames s1))"
proof (rule kmalloc_kfree_roundtrip [OF mm_example_ok order_refl mm_example_gap])
  show "2 * unat (2 :: u32) \<le> card (avail mm_example)" using mm_example_card by simp
  have "lookup mm_example m = 0" if "m < 0xffc00" for m
    using pd_index_user [OF pd_index_vpage [OF that]] by (simp add: lookup_def pte_def mm_example_dir)
  then show "\<forall>m < 0xffc00. lookup mm_example m AND 0xfff = 0 \<longrightarrow> lookup mm_example m = 0" by simp
qed simp

subsection \<open>Failure and the heap\<close>

text \<open>
  When no frame is left, \<^verbatim>\<open>kmalloc\<close> calls \<^verbatim>\<open>kfree((void *)(i << 22))\<close> before it releases
  \<^verbatim>\<open>page_lock\<close>.  If that address happens to be mapped, \<^verbatim>\<open>kfree\<close> waits for the lock its caller
  holds and the call never returns; otherwise \<^verbatim>\<open>kmalloc\<close> returns 0 and nothing is lost.
\<close>

theorem kmalloc_out_of_frames:
  assumes "mm_ok s" "heap_base s = 0" "avail s = {}" "0xc0000 \<le> b" "vgap s b (unat n)" "0 < n"
  shows "\<exists>k. 0xc0000 \<le> k \<and> k \<le> b \<and> vgap s k (unat n) \<and>
     kmalloc n s = (if pte s (push_bit 22 (of_nat k)) AND 0xfff \<noteq> 0 then None else Some (0, s))"
proof -
  let ?s1 = "s\<lparr>page_lock := \<lparr>lock = True\<rparr>\<rparr>"
  have c: "unat (0xc0000 :: u32) = 0xc0000" by simp
  have wf: "wf_mm ?s1" and gap: "vgap ?s1 b (unat n)" and ready: "pm_ready ?s1"
    and unlocked: "page_lock s = \<lparr>lock = False\<rparr>" "pm_lock s = \<lparr>lock = False\<rparr>"
    using assms(1,5) by (auto simp: mm_ok_def pm_ready_def)
  obtain k where k: "page_search n 0xc0000 ?s1 = Some (Some (of_nat k))" "0xc0000 \<le> k" "k \<le> b" "vgap s k (unat n)"
    using page_search_spec [OF wf gap, of "0xc0000", unfolded c] assms(4) by auto
  have alloc: "pm_alloc ?s1 = Some (0, ?s1)"
    using ready
  proof (cases rule: pm_alloc_cases)
    case (found a)
    then have "a \<in> avail s" by (simp add: avail_def)
    with assms(3) show ?thesis by simp
  next
    case full
    with unlocked(2) show ?thesis by (cases s) simp
  qed
  have "[0..<unat n] = 0 # [Suc 0..<unat n]"
    using assms(6) by (simp add: upt_rec word_less_nat_alt)
  moreover have "kfree (push_bit 22 (of_nat k)) ?s1 =
      (if pte s (push_bit 22 (of_nat k)) AND 0xfff \<noteq> 0 then None else Some ?s1)"
    using assms(2) get_pflags_pte [OF wf] by (simp add: kfree_def lock_defs)
  moreover have "?s1\<lparr>page_lock := \<lparr>lock = False\<rparr>\<rparr> = s" using unlocked(1) by (cases s) simp
  ultimately have "kmalloc n s = (if pte s (push_bit 22 (of_nat k)) AND 0xfff \<noteq> 0 then None else Some (0, s))"
    using assms(2) k(1) alloc unlocked(1) by (simp add: kmalloc_def lock_defs)
  with k show ?thesis by blast
qed

text \<open>
  The witness: every frame is in use, and the directory maps low memory through entry 0, as
  the boot loader leaves it; the first word of frame 0 then reads as a page table entry.
\<close>

definition mm_full :: mm_state where
  "mm_full = mm_example\<lparr>pm_map := (\<lambda>_. - 1),
     phys := (\<lambda>_ _. 0)(0x1000 := (\<lambda>_. 0)(1023 := 0x1001, 0 := 0x189), 0 := (\<lambda>_. 0)(0 := 0xf053))\<rparr>"

lemma mm_full_dir: "page_dir mm_full = (\<lambda>_. 0)(1023 := 0x1001, 0 := 0x189)"
  by (simp add: page_dir_def mm_full_def mm_example_def heap_example_def heap_state.defs pm_state.defs page_base_def)

lemma mm_full_used: "pm_used (pm_map mm_full) a"
  using frame_bit_lt_8 by (simp add: mm_full_def pm_used_def)

lemma mm_full_ok: "mm_ok mm_full" "heap_base mm_full = 0" "avail mm_full = {}"
proof -
  have c: "cr3 mm_full = 0x1000"
    by (simp add: mm_full_def mm_example_def heap_example_def heap_state.defs pm_state.defs)
  have "wf_mm mm_full"
    unfolding wf_mm_def mm_full_dir c using mm_full_used by (auto simp: page_base_def split: if_splits)
  moreover have "pm_ready mm_full" "\<not> lock (page_lock mm_full)" "heap_base mm_full = 0"
    by (simp_all add: mm_full_def mm_example_def heap_example_def pm_example_def heap_state.defs pm_state.defs pm_ready_def)
  moreover have "0 \<in> used_frames mm_full" "avail mm_full = {}"
    using mm_full_used by (simp_all add: used_frames_def avail_def page_aligned_def)
  ultimately show "mm_ok mm_full" "heap_base mm_full = 0" "avail mm_full = {}" by (simp_all add: mm_ok_def)
qed

theorem kmalloc_out_of_frames_witness: "kmalloc 1 mm_full = None"
proof -
  have user: "0 < unat (pd_index (vpage m))" if "0xc0000 \<le> m" "m < 0xffc00" for m
    using that by (simp add: pd_index_def unat_drop_bit unat_vpage)
  have none: "lookup mm_full m = 0" if "0xc0000 \<le> m" "m < 0xffc00" for m
    using user [OF that] pd_index_user [OF pd_index_vpage [OF that(2)]] by (simp add: lookup_def pte_def mm_full_dir)
  have gap: "vgap mm_full 0xc0000 (unat (1 :: u32))" using none by (simp add: vgap_def)
  obtain k where k: "0xc0000 \<le> k" "k \<le> 0xc0000" "kmalloc 1 mm_full =
      (if pte mm_full (push_bit 22 (of_nat k)) AND 0xfff \<noteq> 0 then None else Some (0, mm_full))"
    using kmalloc_out_of_frames [OF mm_full_ok order_refl gap] by auto
  have "pte mm_full 0 AND 0xfff \<noteq> 0"
    by (simp add: pte_def mm_full_dir pd_index_def pt_index_def page_base_def) (simp add: mm_full_def)
  moreover have "k = 0xc0000" using k(1,2) by linarith
  moreover have "push_bit 22 (of_nat 0xc0000 :: u32) = 0" by simp
  ultimately show ?thesis using k(3) by metis
qed

subsection \<open>Once the heap exists\<close>

text \<open>\<^verbatim>\<open>kmalloc\<close> and \<^verbatim>\<open>kfree\<close> themselves meet the contract of the heap when \<^verbatim>\<open>heap_base\<close> is set.\<close>

definition kheap_ready :: "'a mm_state_scheme \<Rightarrow> bool" where
  "kheap_ready s \<longleftrightarrow> heap_ready s \<and> heap_base s \<noteq> 0"

interpretation kmem: block_allocator
  "heap_rep :: blocks \<Rightarrow> 'a mm_state_scheme \<Rightarrow> bool" kheap_ready heap_pages heap_addr kmalloc kfree
proof
  fix s :: "'a mm_state_scheme" and B b and n :: u32
  assume "kheap_ready s" "heap_rep B s" "0 < n" "gap B (heap_pages s) b (unat n)"
  with heap_alloc_refines [of s B n b]
  show "\<exists>a s'. kmalloc n s = Some (heap_addr s a 0, s') \<and> gap B (heap_pages s) a (unat n) \<and>
      heap_rep (B(a \<mapsto> unat n)) s' \<and> kheap_ready s' \<and> heap_pages s' = heap_pages s \<and>
      heap_addr s' = heap_addr s"
    by (auto simp: kheap_ready_def kmalloc_def heap_addr_def fun_eq_iff)
next
  fix s :: "'a mm_state_scheme" and B a n p off
  assume *: "kheap_ready s" "heap_rep B s" "B a = Some n" "a \<le> p" "p < a + n" "off < (4096::nat)"
  then have "p < heap_pages s" using heap_repD(2) [of B s a n] by simp
  with heap_free_refines [of s B p off] *
  show "\<exists>s'. kfree (heap_addr s p off) s = Some s' \<and> heap_rep (B(a := None)) s' \<and>
      kheap_ready s' \<and> heap_pages s' = heap_pages s \<and> heap_addr s' = heap_addr s"
    by (auto simp: kheap_ready_def kfree_def heap_addr_def fun_eq_iff)
qed (use kheap.rep_fresh kheap.rep_separate in blast)+

end
