(* ===== verification/KMem.thy ===== *)
theory KMem
  imports Paging
begin

text \<open>
  Start-up and address spaces (\<^verbatim>\<open>src/kernel/arch_i386/memory.c\<close>): \<^verbatim>\<open>pm_init\<close>, \<^verbatim>\<open>heap_init\<close>, and
  the functions that build or edit the page directory of another address space
  (\<^verbatim>\<open>mapdup_full\<close>, \<^verbatim>\<open>map_in_pd\<close>, \<^verbatim>\<open>get_paddr_in_pd\<close>).

  The lemmas show that \<^verbatim>\<open>pm_init\<close> frees only frames that the firmware reports as usable, that
  \<^verbatim>\<open>heap_init\<close> leaves an empty heap that meets the contract of \<^verbatim>\<open>Heap\<close>, and what the direct
  mapping \<^verbatim>\<open>kmalloc_page_paddr\<close> maps.

  The heap map lives in the C program in pages obtained from \<^verbatim>\<open>kmalloc\<close>; the model keeps its
  contents in the field \<open>heap_map\<close>.  \<^verbatim>\<open>PANIC\<close> is \<open>None\<close>.
\<close>

subsection \<open>Start-up\<close>

abbreviation (input) BIOS_MMAP_USABLE :: u32 where "BIOS_MMAP_USABLE \<equiv> 1"

record mmap_entry_t =
  entry_base :: u64
  entry_length :: u64
  entry_type :: u32

text \<open>
  One iteration of the inner loop over the memory map.  The shift \<^verbatim>\<open>(j & 7) + ((base >> 12) & 7)\<close>
  can exceed 7; the result is then truncated to 0 by the store into a byte.  An index beyond
  the end of \<^verbatim>\<open>pm_map\<close> is \<open>None\<close>.
\<close>

definition mmap_shift :: "u64 \<Rightarrow> nat \<Rightarrow> nat" where
  "mmap_shift base j = unat ((of_nat j AND 7) + (drop_bit 12 base AND 7) :: u64)"

definition mmap_index :: "u64 \<Rightarrow> nat \<Rightarrow> u64" where
  "mmap_index base j = drop_bit 15 base + ucast (drop_bit 3 (of_nat j :: u32))"

definition mmap_bit :: "nat \<Rightarrow> u8" where
  "mmap_bit shift = ucast (push_bit shift 1 :: u32)"

definition mmap_overlap :: "mmap_entry_t list \<Rightarrow> nat \<Rightarrow> nat \<Rightarrow> bool" where
  "mmap_overlap mmap i j \<longleftrightarrow> i \<noteq> 0 \<and>
     entry_base (mmap ! i) + ucast (push_bit 12 (of_nat j :: u32)) <
       entry_base (mmap ! (i - 1)) + entry_length (mmap ! (i - 1))"

definition mmap_frame_step ::
    "mmap_entry_t list \<Rightarrow> nat \<Rightarrow> nat \<Rightarrow> 'a pm_state_scheme \<Rightarrow> 'a pm_state_scheme option" where
  "mmap_frame_step mmap i j s =
     (let base = entry_base (mmap ! i); index = mmap_index base j;
          b = ucast index :: u32; mask_byte = mmap_bit (mmap_shift base j)
      in if mmap_overlap mmap i j then Some s
         else if index \<ge> 0x20000 then None
         else if entry_type (mmap ! i) \<noteq> BIOS_MMAP_USABLE
         then Some (s\<lparr>total_memory_unusable := total_memory_unusable s + 1,
                 pm_map := (pm_map s)(b := pm_map s b OR mask_byte)\<rparr>)
         else Some (s\<lparr>pm_map := (pm_map s)(b := pm_map s b AND NOT mask_byte)\<rparr>))"

text \<open>The loop variable has 32 bits, so that with an entry of 16 TiB or more the loop cannot end.\<close>

definition mmap_entry_step ::
    "mmap_entry_t list \<Rightarrow> nat \<Rightarrow> 'a pm_state_scheme \<Rightarrow> 'a pm_state_scheme option" where
  "mmap_entry_step mmap i s =
     (if drop_bit 12 (entry_length (mmap ! i)) \<ge> 0x100000000 then None
      else fold_opt (mmap_frame_step mmap i) [0..<unat (drop_bit 12 (entry_length (mmap ! i)))] s)"

text \<open>The last loop of \<^verbatim>\<open>pm_init\<close>; it starts at the word stored at \<^verbatim>\<open>_start\<close>.\<close>

partial_function (option) reserve_kernel :: "u32 \<Rightarrow> 'a mm_state_scheme \<Rightarrow> 'a mm_state_scheme option" where
  "reserve_kernel kernel_addr s = do {
     p \<leftarrow> get_paddr kernel_addr s;
     if p = 0 then Some s
     else do {
       p \<leftarrow> get_paddr kernel_addr s;
       s \<leftarrow> pm_reserve p s;
       reserve_kernel (kernel_addr + 0x1000) s
     }
   }"

definition pm_init :: "mmap_entry_t list \<Rightarrow> u32 \<Rightarrow> 'a mm_state_scheme \<Rightarrow> 'a mm_state_scheme option" where
  "pm_init mmap start s = do {
     let s = s\<lparr>pm_lock := spinlock_init (pm_lock s), page_lock := spinlock_init (page_lock s),
               pm_first_free := 0, total_memory_unusable := 0, heap_base := 0,
               pm_map := (\<lambda>i. if i < mmap_count then 0xff else pm_map s i)\<rparr>;
     s \<leftarrow> fold_opt (mmap_entry_step mmap) [0..<length mmap] s;
     s \<leftarrow> fold_opt (\<lambda>i s. pm_reserve (of_nat i * 4096)
                    (s\<lparr>total_memory_unusable := total_memory_unusable s + 1\<rparr>)) [0..<512] s;
     reserve_kernel start s
   }"

definition heap_init :: "u32 \<Rightarrow> 'a mm_state_scheme \<Rightarrow> 'a mm_state_scheme option" where
  "heap_init size_bytes s = do {
     let s = s\<lparr>heap_lock := spinlock_init (heap_lock s)\<rparr>;
     let pages = (size_bytes + PAGE_SIZE_BYTES - 1) div PAGE_SIZE_BYTES;
     let s = s\<lparr>heap_map_size := pages div HEAP_ENTRIES_PER_INDEX\<rparr>;
     let map_pages = (heap_map_size s + PAGE_SIZE_BYTES - 1) div PAGE_SIZE_BYTES;
     (map_ptr, s) \<leftarrow> kmalloc map_pages s;
     (base, s) \<leftarrow> kmalloc pages s;
     let s = s\<lparr>heap_base := base, heap_first_free := 0\<rparr>;
     if map_ptr = 0 \<and> heap_map_size s \<noteq> 0 then None
     else let s = s\<lparr>heap_map := (\<lambda>i. if i < heap_map_size s then 0 else heap_map s i)\<rparr>
          in if heap_base s = 0 then None else Some s
   }"

subsection \<open>Other address spaces\<close>

text \<open>Byte accesses, as \<^verbatim>\<open>memcpy\<close> makes them: the machine is little endian.\<close>

definition byte_shift :: "u32 \<Rightarrow> nat" where
  "byte_shift v = 8 * unat (v AND 3)"

definition load8 :: "u32 \<Rightarrow> 'a mm_state_scheme \<Rightarrow> u8 option" where
  "load8 v s = do {
     w \<leftarrow> load32 v s;
     Some (ucast (drop_bit (byte_shift v) w))
   }"

definition store8 :: "u32 \<Rightarrow> u8 \<Rightarrow> 'a mm_state_scheme \<Rightarrow> 'a mm_state_scheme option" where
  "store8 v x s = do {
     w \<leftarrow> load32 v s;
     store32 v ((w AND NOT (push_bit (byte_shift v) 0xff)) OR push_bit (byte_shift v) (ucast x)) s
   }"

definition memcpy :: "u32 \<Rightarrow> u32 \<Rightarrow> u32 \<Rightarrow> 'a mm_state_scheme \<Rightarrow> 'a mm_state_scheme option" where
  "memcpy src dest c s =
     fold_opt (\<lambda>i s. do {
         x \<leftarrow> load8 (src + of_nat i) s;
         store8 (dest + of_nat i) x s
       }) [0..<unat c] s"

definition memclr :: "u32 \<Rightarrow> u32 \<Rightarrow> 'a mm_state_scheme \<Rightarrow> 'a mm_state_scheme option" where
  "memclr ptr count s =
     (if count mod 4 = 0
      then fold_opt (\<lambda>i. store32 (ptr + of_nat i * 4) 0) [0..<unat (count div 4)] s
      else fold_opt (\<lambda>i. store8 (ptr + of_nat i) 0) [0..<unat count] s)"

definition get_paddr_in_pd :: "u32 \<Rightarrow> u32 \<Rightarrow> 'a mm_state_scheme \<Rightarrow> (u32 \<times> 'a mm_state_scheme) option" where
  "get_paddr_in_pd vaddr pd s =
     (let di = pd_index vaddr; ti = pt_index vaddr
      in do {
        _ \<leftarrow> get_paddr pd s;
        pde \<leftarrow> load32 (pd + di * 4) s;
        if pde = 0 then Some (0, s)
        else do {
          (pt, s) \<leftarrow> kmalloc_page_paddr (page_base pde) 1 s;
          ret \<leftarrow> load32 (pt + (ti AND 0xfffff000) * 4) s;
          s \<leftarrow> unmap pt s;
          Some (ret, s)
        }
      })"

definition map_in_pd :: "u32 \<Rightarrow> u32 \<Rightarrow> u32 \<Rightarrow> u32 \<Rightarrow> 'a mm_state_scheme \<Rightarrow> 'a mm_state_scheme option" where
  "map_in_pd vaddr paddr flags pd s =
     (let di = pd_index vaddr; ti = pt_index vaddr
      in do {
        pde \<leftarrow> load32 (pd + di * 4) s;
        (pt, s) \<leftarrow>
          (if pde AND 1 = 0
           then do {
             (frame, s) \<leftarrow> pm_alloc s;
             s \<leftarrow> store32 (pd + di * 4) (frame OR (flags AND 0x7f)) s;
             pde \<leftarrow> load32 (pd + di * 4) s;
             (pt, s) \<leftarrow> kmalloc_page_paddr pde 1 s;
             s \<leftarrow> fold_opt (\<lambda>i. store32 (pt + of_nat i * 4) 0) [0..<0x400] s;
             Some (pt, s)
           }
           else kmalloc_page_paddr pde 1 s);
        s \<leftarrow> store32 (pt + ti * 4) (paddr OR flags) s;
        unmap pt s
      })"

text \<open>One page of \<^verbatim>\<open>mapdup_full\<close>: a fresh frame with the old flags and a copy of the contents.\<close>

definition dup_page :: "u32 \<Rightarrow> u32 \<Rightarrow> u32 \<Rightarrow> nat \<Rightarrow> 'a mm_state_scheme \<Rightarrow> 'a mm_state_scheme option" where
  "dup_page i old_pt new_pt j s = do {
     old \<leftarrow> load32 (old_pt + of_nat j * 4) s;
     s \<leftarrow> store32 (new_pt + of_nat j * 4) 0 s;
     present \<leftarrow> load32 (old_pt + of_nat j * 4) s;
     if present AND PT_PRESENT = 0 then Some s
     else do {
       (frame, s) \<leftarrow> pm_alloc s;
       s \<leftarrow> store32 (new_pt + of_nat j * 4) (frame OR (old AND 0xfff)) s;
       new \<leftarrow> load32 (new_pt + of_nat j * 4) s;
       if new < PAGE_SIZE_BYTES then None
       else do {
         (cpy, s) \<leftarrow> kmalloc_page_paddr (page_base new) 1 s;
         s \<leftarrow> memcpy (push_bit 22 i OR push_bit 12 (of_nat j)) cpy PAGE_SIZE_BYTES s;
         unmap cpy s
       }
     }
   }"

definition dup_table :: "u32 \<Rightarrow> nat \<Rightarrow> 'a mm_state_scheme \<Rightarrow> 'a mm_state_scheme option" where
  "dup_table pd i s = do {
     old \<leftarrow> load32 (pd_slot (of_nat i)) s;
     if old AND PT_PRESENT = 0 then Some s
     else do {
       (frame, s) \<leftarrow> pm_alloc s;
       s \<leftarrow> store32 (pd + of_nat i * 4) (frame OR (old AND 0xfff)) s;
       new \<leftarrow> load32 (pd + of_nat i * 4) s;
       if new < PAGE_SIZE_BYTES then None
       else do {
         (new_pt, s) \<leftarrow> kmalloc_page_paddr new 1 s;
         s \<leftarrow> fold_opt (dup_page (of_nat i) (0xffc00000 + of_nat i * 0x1000) new_pt) [0..<1024] s;
         unmap new_pt s
       }
     }
   }"

definition mapdup_full :: "u32 \<Rightarrow> 'a mm_state_scheme \<Rightarrow> 'a mm_state_scheme option" where
  "mapdup_full pd s = do {
     s \<leftarrow> memclr pd PAGE_SIZE_BYTES s;
     s \<leftarrow> fold_opt (dup_table pd) [1..<768] s;
     s \<leftarrow> fold_opt (\<lambda>i s. do {
            e \<leftarrow> load32 (pd_slot (of_nat i)) s;
            store32 (pd + of_nat i * 4) e s
          }) [768..<1024] s;
     e \<leftarrow> load32 (pd_slot 0) s;
     s \<leftarrow> store32 pd e s;
     p \<leftarrow> get_paddr pd s;
     store32 (pd + 1023 * 4) (p OR PT_PRESENT) s
   }"

subsection \<open>Only usable frames become free\<close>

definition usable_page :: "mmap_entry_t list \<Rightarrow> u32 \<Rightarrow> bool" where
  "usable_page mmap a \<longleftrightarrow> (\<exists>e \<in> set mmap. entry_type e = BIOS_MMAP_USABLE \<and>
     unat (entry_base e) div 4096 \<le> unat a div 4096 \<and>
     unat a div 4096 < unat (entry_base e) div 4096 + unat (entry_length e) div 4096)"

text \<open>
  The bytes of the frame at \<open>a\<close> lie in an entry reported as usable, up to those of the page in which an entry with an
  unaligned base begins: they may lie before the entry.
\<close>

definition usable :: "mmap_entry_t list \<Rightarrow> u32 \<Rightarrow> bool" where
  "usable mmap a \<longleftrightarrow> (\<exists>e \<in> set mmap. entry_type e = BIOS_MMAP_USABLE \<and>
     unat (entry_base e) \<le> unat a + unat (entry_base e) mod 4096 \<and>
     unat a + 4096 \<le> unat (entry_base e) + unat (entry_length e))"

lemma usable_frame:
  assumes "usable_page mmap a" "page_aligned a"
  shows "usable mmap a"
proof -
  obtain e where e: "e \<in> set mmap" "entry_type e = BIOS_MMAP_USABLE" "unat (entry_base e) div 4096 \<le> unat a div 4096"
    "unat a div 4096 < unat (entry_base e) div 4096 + unat (entry_length e) div 4096" using assms(1) by (auto simp: usable_page_def)
  let ?b = "unat (entry_base e)" and ?l = "unat (entry_length e)" and ?p = "unat a div 4096"
  have "unat a mod 4096 = 0" using assms(2) unat_and_mask [of a 12] by (simp add: page_aligned_def mask_eq_exp_minus_1)
  then have a: "unat a = ?p * 4096" using div_mult_mod_eq [of "unat a" 4096] by linarith
  have "?b \<le> unat a + ?b mod 4096" using e(3) a div_mult_mod_eq [of ?b 4096] by linarith
  moreover have "unat a + 4096 \<le> ?b + ?l" using e(4) a div_mult_mod_eq [of ?b 4096] div_mult_mod_eq [of ?l 4096] by linarith
  ultimately show ?thesis using e(1,2) by (auto simp: usable_def)
qed

lemma bit_mmap_bit:
  assumes "shift < 32"
  shows "bit (mmap_bit shift) k \<longleftrightarrow> k = shift \<and> shift < 8"
  using assms by (auto simp: mmap_bit_def bit_simps)

lemma mmap_shift_index:
  fixes base :: u64
  assumes j: "j < 2 ^ 32"
  shows "mmap_shift base j = j mod 8 + unat base div 4096 mod 8"
    "unat (mmap_index base j) = unat base div 32768 + j div 8"
proof -
  have seven: "(7 :: u64) = mask 3" by (simp add: mask_eq_exp_minus_1)
  have uj: "unat (of_nat j :: u64) = j" "unat (of_nat j :: u32) = j"
    using j by (simp_all add: unat_of_nat_lt)
  have a: "unat (of_nat j AND 7 :: u64) = j mod 8" "unat (drop_bit 12 base AND 7) = unat base div 4096 mod 8"
    unfolding seven by (simp_all add: unat_and_mask unat_drop_bit uj)
  then have "unat (of_nat j AND 7 :: u64) + unat (drop_bit 12 base AND 7) < 2 ^ LENGTH(64)"
    using mod_less_divisor [of 8 j] mod_less_divisor [of 8 "unat base div 4096"] by simp
  then show "mmap_shift base j = j mod 8 + unat base div 4096 mod 8"
    unfolding mmap_shift_def using a by (simp add: unat_add_lt)
  have b: "unat (ucast (drop_bit 3 (of_nat j :: u32)) :: u64) = j div 8"
    using uj by (simp add: unat_ucast_up unat_drop_bit)
  have "unat base < 2 ^ 64" using unsigned_less [of base] by simp
  then have "unat base div 32768 < 2 ^ 49" by (intro less_mult_imp_div_less) simp
  then have "unat (drop_bit 15 base) + unat (ucast (drop_bit 3 (of_nat j :: u32)) :: u64) < 2 ^ LENGTH(64)"
    using b j by (simp add: unat_drop_bit)
  then show "unat (mmap_index base j) = unat base div 32768 + j div 8"
    unfolding mmap_index_def using b by (simp add: unat_add_lt unat_drop_bit)
qed

lemma frame_number: "unat a div 4096 = 8 * unat (drop_bit 15 a) + unat (drop_bit 12 (a :: u32) AND 7)"
proof -
  have "unat a div 32768 = unat a div 4096 div 8" by (simp add: div_mult2_eq [symmetric])
  then show ?thesis by (simp add: unat_drop_bit unat_and_7)
qed

lemma mmap_frame_step_sound:
  assumes step: "mmap_frame_step mmap i j s = Some s'" and i: "i < length mmap"
    and j: "j < unat (drop_bit 12 (entry_length (mmap ! i)))" "j < 2 ^ 32"
    and inv: "\<And>a. \<not> pm_used (pm_map s) a \<Longrightarrow> usable_page mmap a"
    and free: "\<not> pm_used (pm_map s') a"
  shows "usable_page mmap a"
proof (cases "pm_used (pm_map s) a")
  case False
  then show ?thesis by (rule inv)
next
  case True
  let ?e = "mmap ! i"
  define base where "base = entry_base ?e"
  define shift where "shift = mmap_shift base j"
  define index where "index = mmap_index base j"
  note num = mmap_shift_index [OF j(2), of base, folded shift_def index_def]
  have shift: "shift < 32"
    using num(1) mod_less_divisor [of 8 j] mod_less_divisor [of 8 "unat base div 4096"] by simp
  note defs = mmap_frame_step_def Let_def shift_def index_def base_def
  have upd: "index < 0x20000" "entry_type ?e = 1"
      "pm_map s' = (pm_map s)(ucast index := pm_map s (ucast index) AND NOT (mmap_bit shift))"
    using step True free by (auto simp: defs pm_used_def bit_or_iff not_le split: if_splits)
  have byte: "drop_bit 15 a = ucast index"
  proof (rule ccontr)
    assume "drop_bit 15 a \<noteq> ucast index"
    then have "pm_map s' (drop_bit 15 a) = pm_map s (drop_bit 15 a)" unfolding upd(3) by (rule fun_upd_other)
    with True free show False unfolding pm_used_def by simp
  qed
  have "bit (mmap_bit shift) (unat (drop_bit 12 a AND 7))"
    using True free frame_bit_lt_8 [of a] unfolding pm_used_def byte upd(3) fun_upd_same bit_and_iff bit_not_iff
    by simp
  then have pos: "unat (drop_bit 12 a AND 7) = shift" "shift < 8" using bit_mmap_bit [OF shift] by simp_all
  have "unat index < 0x20000" using upd(1) by (simp add: word_less_nat_alt)
  then have "unat (ucast index :: u32) = unat index" by (intro unat_ucast_fits) simp
  then have "unat a div 4096 = 8 * unat index + shift" using frame_number [of a] byte pos by simp
  also have "\<dots> = unat base div 4096 + j"
  proof -
    have "unat base div 32768 = unat base div 4096 div 8" by (simp add: div_mult2_eq [symmetric])
    then show ?thesis unfolding num by simp
  qed
  finally have "unat a div 4096 = unat base div 4096 + j" .
  moreover have "j < unat (entry_length (mmap ! i)) div 4096" using j(1) by (simp add: unat_drop_bit)
  ultimately show ?thesis
    using upd(2) i unfolding usable_page_def base_def by (intro bexI [of _ "mmap ! i"]) auto
qed

lemma mmap_loop_sound:
  fixes s :: "'a pm_state_scheme"
  assumes "fold_opt (mmap_entry_step mmap) [0..<length mmap] s = Some s'"
    and "\<And>a. \<not> pm_used (pm_map s) a \<Longrightarrow> usable_page mmap a"
    and "\<not> pm_used (pm_map s') a"
  shows "usable_page mmap a"
proof -
  define P where "P t \<longleftrightarrow> (\<forall>a. \<not> pm_used (pm_map t) a \<longrightarrow> usable_page mmap a)" for t :: "'a pm_state_scheme"
  have entry: "P t'" if "i < length mmap" "P t" "mmap_entry_step mmap i t = Some t'" for i and t t' :: "'a pm_state_scheme"
  proof -
    let ?n = "unat (drop_bit 12 (entry_length (mmap ! i)))"
    have n: "?n < 2 ^ 32" and run: "fold_opt (mmap_frame_step mmap i) [0..<?n] t = Some t'"
      using that(3) by (simp_all add: mmap_entry_step_def not_le word_less_nat_alt split: if_splits)
    show ?thesis
      using run that(2)
    proof (rule fold_opt_preserves [where P = P])
      fix j and u u' :: "'a pm_state_scheme"
      assume "j \<in> set [0..<?n]" "P u" "mmap_frame_step mmap i j u = Some u'"
      then show "P u'"
        using mmap_frame_step_sound [of mmap i j u u'] that(1) n unfolding P_def by auto
    qed
  qed
  have "P s'"
    by (rule fold_opt_preserves [where P = P, OF assms(1)]) (use assms(2) entry in \<open>auto simp: P_def\<close>)
  then show ?thesis using assms(3) by (simp add: P_def)
qed

lemma pm_reserve_used:
  assumes "pm_reserve p s = Some s'"
  shows "pm_used (pm_map s') a \<longleftrightarrow> pm_used (pm_map s) a \<or> page_base a = page_base p" "pm_ready s'"
    "\<exists>m f l. s' = s\<lparr>pm_map := m, pm_first_free := f, pm_lock := l\<rparr>"
proof -
  have "pm_ready s"
    using assms by (auto simp: pm_reserve_def spinlock_acquire_eq pm_ready_def split: if_splits)
  from pm_reserve_eq [OF this, of p] assms show "pm_ready s'"
    and "\<exists>m f l. s' = s\<lparr>pm_map := m, pm_first_free := f, pm_lock := l\<rparr>"
    and "pm_used (pm_map s') a \<longleftrightarrow> pm_used (pm_map s) a \<or> page_base a = page_base p"
    by (auto simp: pm_ready_def pm_used_mark)
qed

lemma reserve_kernel_keeps:
  assumes "reserve_kernel k s = Some s'"
  shows "(\<forall>a. pm_used (pm_map s) a \<longrightarrow> pm_used (pm_map s') a) \<and> (pm_ready s \<longrightarrow> pm_ready s') \<and>
     heap_base s' = heap_base s \<and> page_lock s' = page_lock s"
proof (rule reserve_kernel.raw_induct [where P = "\<lambda>k s s'.
     (\<forall>a. pm_used (pm_map s) a \<longrightarrow> pm_used (pm_map s') a) \<and> (pm_ready s \<longrightarrow> pm_ready s') \<and>
     heap_base s' = heap_base s \<and> page_lock s' = page_lock s", OF _ assms])
  fix rec :: "u32 \<Rightarrow> 'a mm_state_scheme \<Rightarrow> 'a mm_state_scheme option" and k s s'
  assume IH: "\<And>k s s'. rec k s = Some s' \<Longrightarrow>
      (\<forall>a. pm_used (pm_map s) a \<longrightarrow> pm_used (pm_map s') a) \<and> (pm_ready s \<longrightarrow> pm_ready s') \<and>
      heap_base s' = heap_base s \<and> page_lock s' = page_lock s"
    and run: "do { p \<leftarrow> get_paddr k s; if p = 0 then Some s
      else do { p \<leftarrow> get_paddr k s; s \<leftarrow> pm_reserve p s; rec (k + 0x1000) s } } = Some s'"
  then show "(\<forall>a. pm_used (pm_map s) a \<longrightarrow> pm_used (pm_map s') a) \<and> (pm_ready s \<longrightarrow> pm_ready s') \<and>
      heap_base s' = heap_base s \<and> page_lock s' = page_lock s"
  proof (cases "get_paddr k s")
    case (Some p)
    show ?thesis
    proof (cases "p = 0")
      case False
      with run Some obtain t where t: "pm_reserve p s = Some t" "rec (k + 0x1000) t = Some s'"
        by (auto split: bind_splits)
      have "heap_base t = heap_base s \<and> page_lock t = page_lock s"
        using pm_reserve_used(3) [OF t(1)] by auto
      with IH [OF t(2)] pm_reserve_used(1,2) [OF t(1)] show ?thesis by auto
    qed (use run Some in auto)
  qed simp
qed

lemma low_frames_reserved:
  fixes s :: "'a mm_state_scheme"
  assumes "fold_opt (\<lambda>i s. pm_reserve (of_nat i * 4096)
      (s\<lparr>total_memory_unusable := total_memory_unusable s + 1\<rparr>)) [0..<n] s = Some s'" "n \<le> 512"
  shows "(\<forall>a. pm_used (pm_map s) a \<longrightarrow> pm_used (pm_map s') a) \<and>
     (\<forall>a. unat a div 4096 < n \<longrightarrow> pm_used (pm_map s') a) \<and> (n \<noteq> 0 \<longrightarrow> pm_ready s') \<and>
     heap_base s' = heap_base s \<and> page_lock s' = page_lock s"
  using assms
proof (induction n arbitrary: s')
  case (Suc n)
  let ?f = "\<lambda>i s. pm_reserve (of_nat i * 4096) (s\<lparr>total_memory_unusable := total_memory_unusable s + 1\<rparr>)"
  from Suc.prems obtain t where t: "fold_opt ?f [0..<n] s = Some t" "?f n t = Some s'"
    by (auto simp: fold_opt_append split: bind_splits)
  note IH = Suc.IH [OF t(1)]
  note res = pm_reserve_used [OF t(2)]
  have "page_base a = page_base (of_nat n * 4096)" if "unat a div 4096 = n" for a :: u32
  proof -
    have "unat (of_nat n * 4096 :: u32) = n * 4096"
      using Suc.prems(2) unat_of_nat_lt [of "n * 4096", where 'a = 32] by simp
    then show ?thesis using that unfolding page_base_eq_iff by (simp add: word_unat_eq_iff unat_drop_bit)
  qed
  then have "pm_used (pm_map s') a" if "unat a div 4096 < Suc n" for a
    using that res(1) IH Suc.prems(2) by (auto simp: less_Suc_eq)
  moreover have "heap_base s' = heap_base t \<and> page_lock s' = page_lock t" using res(3) by auto
  ultimately show ?case using IH Suc.prems(2) res(1,2) by auto
qed simp

lemma mmap_frame_step_frame:
  fixes t :: "'a mm_state_scheme"
  assumes "mmap_frame_step mmap i j t = Some t'"
  shows "heap_base t' = heap_base t \<and> page_lock t' = page_lock t \<and> pm_lock t' = pm_lock t \<and>
     cr3 t' = cr3 t \<and> phys t' = phys t"
  using assms by (auto simp: mmap_frame_step_def Let_def split: if_splits)

lemma mmap_entry_step_frame:
  fixes t :: "'a mm_state_scheme"
  assumes "mmap_entry_step mmap i t = Some t'"
  shows "heap_base t' = heap_base t \<and> page_lock t' = page_lock t \<and> pm_lock t' = pm_lock t \<and>
     cr3 t' = cr3 t \<and> phys t' = phys t"
proof -
  let ?n = "unat (drop_bit 12 (entry_length (mmap ! i)))"
  have run: "fold_opt (mmap_frame_step mmap i) [0..<?n] t = Some t'"
    using assms by (simp add: mmap_entry_step_def split: if_splits)
  show ?thesis
    by (rule fold_opt_preserves [OF run, where P = "\<lambda>t'. heap_base t' = heap_base t \<and> page_lock t' = page_lock t \<and>
        pm_lock t' = pm_lock t \<and> cr3 t' = cr3 t \<and> phys t' = phys t"])
      (auto dest: mmap_frame_step_frame)
qed


lemma get_paddr_cong:
  assumes "phys t = phys s" "cr3 t = cr3 s"
  shows "get_paddr v t = get_paddr v s"
proof -
  have walk: "mmu_walk t w = mmu_walk s w" for w using assms by (simp add: mmu_walk_def Let_def)
  then have "load32 w t = load32 w s" for w using assms(1) by (simp add: load32_def)
  then show ?thesis by (simp add: get_paddr_def Let_def cong: if_cong)
qed

lemma mmap_frame_step_total:
  fixes s :: "'a mm_state_scheme"
  assumes "unat (entry_base (mmap ! i)) + unat (entry_length (mmap ! i)) \<le> 2 ^ 32"
    and "j < unat (drop_bit 12 (entry_length (mmap ! i)))"
  shows "\<exists>s'. mmap_frame_step mmap i j s = Some s'"
proof -
  let ?b = "unat (entry_base (mmap ! i))"
  have j: "j < unat (entry_length (mmap ! i)) div 4096" using assms(2) by (simp add: unat_drop_bit)
  have top: "?b + j * 4096 < 2 ^ 32"
  proof -
    have "Suc j * 4096 \<le> unat (entry_length (mmap ! i)) div 4096 * 4096" using j by (intro mult_le_mono1) simp
    also have "\<dots> \<le> unat (entry_length (mmap ! i))" by (rule div_times_less_eq_dividend)
    finally show ?thesis using assms(1) by simp
  qed
  then have "j < 2 ^ 32" by simp
  from mmap_shift_index(2) [OF this] have "unat (mmap_index (entry_base (mmap ! i)) j) = ?b div 32768 + j div 8" .
  also have "j div 8 = j * 4096 div 32768" using div_mult_mult2 [of 4096 j 8] by simp
  also have "?b div 32768 + \<dots> \<le> (?b + j * 4096) div 32768"
    by (simp only: div_add1_eq [of ?b "j * 4096"] le_add1)
  also have "\<dots> < 0x20000" using top by (intro less_mult_imp_div_less) simp
  finally have "mmap_index (entry_base (mmap ! i)) j < 0x20000" by (simp add: word_less_nat_alt)
  then show ?thesis by (auto simp: mmap_frame_step_def Let_def not_le)
qed

lemma mmap_entry_step_total:
  fixes s :: "'a mm_state_scheme"
  assumes "unat (entry_base (mmap ! i)) + unat (entry_length (mmap ! i)) \<le> 2 ^ 32"
  shows "\<exists>s'. mmap_entry_step mmap i s = Some s'"
proof -
  let ?n = "unat (drop_bit 12 (entry_length (mmap ! i)))"
  have "?n \<le> 2 ^ 20" using assms by (simp add: unat_drop_bit)
  then have "\<not> drop_bit 12 (entry_length (mmap ! i)) \<ge> 0x100000000" by (simp add: word_le_nat_alt)
  moreover have "\<exists>s'. fold_opt (mmap_frame_step mmap i) [0..<?n] s = Some s' \<and> True"
    by (rule fold_opt_total) (use mmap_frame_step_total [OF assms] in auto)
  ultimately show ?thesis by (auto simp: mmap_entry_step_def)
qed

lemma pm_init_returns:
  assumes "\<forall>e \<in> set mmap. unat (entry_base e) + unat (entry_length e) \<le> 2 ^ 32" "get_paddr start s = Some 0"
  shows "\<exists>s'. pm_init mmap start s = Some s'"
proof -
  define s0 where "s0 = s\<lparr>pm_lock := spinlock_init (pm_lock s), page_lock := spinlock_init (page_lock s),
      pm_first_free := 0, total_memory_unusable := 0, heap_base := 0,
      pm_map := (\<lambda>i. if i < mmap_count then 0xff else pm_map s i)\<rparr>"
  let ?f = "\<lambda>i s. pm_reserve (of_nat i * 4096) (s\<lparr>total_memory_unusable := total_memory_unusable s + 1\<rparr>)"
  define P where "P t \<longleftrightarrow> pm_ready t \<and> phys t = phys s \<and> cr3 t = cr3 s" for t :: "'a mm_state_scheme"
  have "\<exists>t. fold_opt (mmap_entry_step mmap) [0..<length mmap] s0 = Some t \<and> P t"
  proof (rule fold_opt_total)
    show "P s0" by (simp add: P_def s0_def pm_ready_def lock_defs)
    fix i and t :: "'a mm_state_scheme" assume i: "i \<in> set [0..<length mmap]" and P: "P t"
    then have "unat (entry_base (mmap ! i)) + unat (entry_length (mmap ! i)) \<le> 2 ^ 32" using assms(1) by simp
    from mmap_entry_step_total [OF this] obtain t' where t': "mmap_entry_step mmap i t = Some t'" by blast
    with mmap_entry_step_frame [OF t'] P show "\<exists>t'. mmap_entry_step mmap i t = Some t' \<and> P t'"
      by (auto simp: P_def pm_ready_def)
  qed
  then obtain t where t: "fold_opt (mmap_entry_step mmap) [0..<length mmap] s0 = Some t" "P t" by blast
  have "\<exists>u. fold_opt ?f [0..<512] t = Some u \<and> P u"
  proof (rule fold_opt_total [where P = P, OF t(2)])
    fix i and u :: "'a mm_state_scheme" assume P: "P u"
    then have "pm_ready (u\<lparr>total_memory_unusable := total_memory_unusable u + 1\<rparr>)" by (simp add: P_def pm_ready_def)
    from pm_reserve_eq [OF this] P show "\<exists>u'. ?f i u = Some u' \<and> P u'" by (auto simp: P_def pm_ready_def)
  qed
  then obtain u where u: "fold_opt ?f [0..<512] t = Some u" "P u" by blast
  have "get_paddr start u = Some 0" using u(2) assms(2) get_paddr_cong [of u s] by (simp add: P_def)
  then have "reserve_kernel start u = Some u" by (simp add: reserve_kernel.simps)
  with t u show ?thesis by (auto simp: pm_init_def s0_def)
qed

text \<open>Two megabytes of usable memory from 2 MiB, below a reserved entry.\<close>

definition mmap_example :: "mmap_entry_t list" where
  "mmap_example = [\<lparr>entry_base = 0x200000, entry_length = 0x200000, entry_type = 1\<rparr>,
     \<lparr>entry_base = 0x400000, entry_length = 0x100000, entry_type = 2\<rparr>]"


text \<open>An entry whose base is not the start of a page: the page that contains the base is freed, although it begins before the entry.\<close>

lemma mmap_unaligned_base_freed:
  assumes "entry_type e = BIOS_MMAP_USABLE" "entry_base e = 0x200800" "mmap_frame_step [e] 0 0 s = Some s'"
  shows "\<not> pm_used (pm_map s') 0x200000"
  using assms by (auto simp: mmap_frame_step_def mmap_overlap_def mmap_index_def mmap_shift_def mmap_bit_def pm_used_def bit_simps)

text \<open>
  \<^verbatim>\<open>pm_init\<close> does not check an entry against the size of \<^verbatim>\<open>pm_map\<close>: a memory map whose first
  entry holds a whole frame at or above 4 GiB, as firmware reports on machines with more
  memory, makes it write outside the array.
\<close>

theorem pm_init_high_memory_out_of_bounds:
  assumes "0x100000000 \<le> entry_base e" "0x1000 \<le> entry_length e"
  shows "pm_init (e # mmap) start s = None"
proof -
  have len: "drop_bit 12 (entry_length e) > 0" 
    using assms(2) by (simp add: word_less_nat_alt word_le_nat_alt unat_drop_bit)
  then have upt: "[0..<unat (drop_bit 12 (entry_length e))] = 0 # [1..<unat (drop_bit 12 (entry_length e))]"
    by (simp add: upt_rec word_less_nat_alt)
  have "unat (mmap_index (entry_base e) 0) = unat (entry_base e) div 32768"
    using mmap_shift_index(2) [of 0] by simp
  also have "\<dots> \<ge> 0x20000" using assms(1) by (simp add: word_le_nat_alt)
  finally have "mmap_index (entry_base e) 0 \<ge> 0x20000" by (simp add: word_le_nat_alt)
  then have "mmap_frame_step (e # mmap) 0 0 t = None" for t :: "'a mm_state_scheme"
    by (simp add: mmap_frame_step_def mmap_overlap_def Let_def)
  then have "mmap_entry_step (e # mmap) 0 t = None" for t :: "'a mm_state_scheme"
    by (simp add: mmap_entry_step_def upt)
  moreover have "[0..<length (e # mmap)] = 0 # [1..<Suc (length mmap)]" by (simp add: upt_rec)
  ultimately show ?thesis by (simp add: pm_init_def)
qed

theorem pm_init_high_memory_out_of_bounds_witness:
  "pm_init [\<lparr>entry_base = 0xfd00000000, entry_length = 0x300000000, entry_type = 2\<rparr>] 0 mm_example = None"
  by (rule pm_init_high_memory_out_of_bounds) simp_all

subsection \<open>Direct mappings\<close>

lemma page_base_vpage: "n < 0x100000 \<Longrightarrow> page_base w = page_base (vpage n) \<longleftrightarrow> unat w div 4096 = n"
  unfolding page_base_eq_iff by (simp add: word_unat_eq_iff unat_drop_bit unat_vpage)

lemma map_run_step:
  assumes ok: "wf_mm s" "pm_ready s" and fit: "unat i + n \<le> 0xffc00" and room: "n \<le> card (avail s)"
  shows "\<exists>s'. fold_opt (\<lambda>j. map_page (push_bit 12 (i + of_nat j)) (p j) (f j)) [0..<n] s = Some s' \<and>
     (\<exists>T. mm_step T (\<lambda>w y. let m = unat w div 4096 in
         if unat i \<le> m \<and> m < unat i + n then p (m - unat i) OR f (m - unat i) else y) s s' \<and>
       card T \<le> n \<and> T \<subseteq> table_frames s')"
proof (rule fold_opt_invariant)
  show "\<exists>T. mm_step T (\<lambda>w y. let m = unat w div 4096 in
      if unat i \<le> m \<and> m < unat i + 0 then p (m - unat i) OR f (m - unat i) else y) s s \<and>
      card T \<le> 0 \<and> T \<subseteq> table_frames s"
    by (intro exI [of _ "{}"] conjI mm_step_weaken [OF mm_step_refl [OF ok]]) (auto simp: Let_def)
next
  fix j and t :: "'a mm_state_scheme" assume j: "j < n"
  let ?g = "\<lambda>k w y. let m = unat w div 4096 in
      if unat i \<le> m \<and> m < unat i + k then p (m - unat i) OR f (m - unat i) else y"
  assume "\<exists>T. mm_step T (?g j) s t \<and> card T \<le> j \<and> T \<subseteq> table_frames t"
  then obtain T where T: "mm_step T (?g j) s t" "card T \<le> j" "T \<subseteq> table_frames t" by blast
  have t: "wf_mm t" "pm_ready t" "avail t = avail s - T" "T \<subseteq> avail s" using T(1) by (simp_all add: mm_step_def)
  then have "card (avail t) = card (avail s) - card T" by (simp add: card_Diff_subset finite_subset)
  with T(2) room j have "avail t \<noteq> {}" by auto
  moreover have lt: "unat i + j < 0xffc00" using fit j by simp
  moreover have v: "push_bit 12 (i + of_nat j) = vpage (unat i + j)" using lt by (intro vpage_push) simp
  ultimately obtain u U where u: "map_page (push_bit 12 (i + of_nat j)) (p j) (f j) t = Some u"
      "mm_step U (\<lambda>w y. if page_base w = page_base (vpage (unat i + j)) then p j OR f j else y) t u"
      "card U \<le> 1" "U \<subseteq> table_frames u"
    using map_page_step [OF t(1,2) pd_index_vpage [OF lt]] unfolding v by blast
  have "mm_step (T \<union> U) (?g (Suc j)) s u"
  proof (rule mm_step_weaken [OF mm_step_trans [OF T(1) u(2)]])
    fix w :: u32
    show "(if page_base w = page_base (vpage (unat i + j)) then p j OR f j else ?g j w (pte s w)) = ?g (Suc j) w (pte s w)"
      using lt by (auto simp: page_base_vpage Let_def)
  qed
  moreover have "card (T \<union> U) \<le> Suc j" using card_Un_le [of T U] T(2) u(3) by simp
  moreover have "T \<union> U \<subseteq> table_frames u" using T(3) u(4) mm_step_tables_mono [OF u(2)] by blast
  ultimately show "\<exists>u. map_page (push_bit 12 (i + of_nat j)) (p j) (f j) t = Some u \<and>
      (\<exists>T. mm_step T (?g (Suc j)) s u \<and> card T \<le> Suc j \<and> T \<subseteq> table_frames u)"
    using u(1) by blast
qed

text \<open>
  \<^verbatim>\<open>kmalloc_page_paddr\<close> maps the given physical range, page by page, into the lowest run of
  unmapped kernel pages; the only frames it takes are page tables, and no other translation
  changes.
\<close>

theorem kmalloc_page_paddr_maps_range:
  assumes ok: "mm_ok s" and b: "0xc0000 \<le> b" "vgap s b (unat n)" and room: "unat n \<le> card (avail s)"
  shows "\<exists>k s' T. kmalloc_page_paddr paddr n s = Some (vpage k, s') \<and> mm_ok s' \<and>
     0xc0000 \<le> k \<and> vgap s k (unat n) \<and> (\<forall>c. 0xc0000 \<le> c \<and> c < k \<longrightarrow> \<not> vgap s c (unat n)) \<and>
     (\<forall>j < unat n. lookup s' (k + j) = (paddr + of_nat j * 4096) OR page_flags n (of_nat j)) \<and>
     (\<forall>m < 0xffc00. m \<notin> {k..<k + unat n} \<longrightarrow> lookup s' m = lookup s m) \<and>
     used_frames s' = used_frames s \<union> T \<and> T \<subseteq> table_frames s' \<and> heap_base s' = heap_base s"
proof -
  let ?s1 = "s\<lparr>page_lock := \<lparr>lock = True\<rparr>\<rparr>"
  have c: "unat (0xc0000 :: u32) = 0xc0000" by simp
  have wf: "wf_mm ?s1" "pm_ready ?s1" and gap: "vgap ?s1 b (unat n)" and room1: "unat n \<le> card (avail ?s1)"
    using ok b room by (simp_all add: mm_ok_def)
  obtain k where k: "page_search n 0xc0000 ?s1 = Some (Some (of_nat k))" "0xc0000 \<le> k"
      "vgap s k (unat n)" "\<And>c. 0xc0000 \<le> c \<Longrightarrow> c < k \<Longrightarrow> \<not> vgap s c (unat n)"
    using page_search_spec [OF wf(1) gap, of "0xc0000", unfolded c] b(1) by auto
  have fit: "k + unat n \<le> 0xffc00" using k(3) by (simp add: vgap_def)
  then have uk: "unat (of_nat k :: u32) = k" by (simp add: unat_of_nat_lt)
  let ?F = "\<lambda>j. map_page (push_bit 12 (of_nat k + of_nat j)) (paddr + of_nat j * 4096) (page_flags n (of_nat j))"
  obtain s2 T where s2: "fold_opt ?F [0..<unat n] ?s1 = Some s2"
    "mm_step T (\<lambda>w y. let m = unat w div 4096 in if k \<le> m \<and> m < k + unat n
       then (paddr + of_nat (m - k) * 4096) OR page_flags n (of_nat (m - k)) else y) ?s1 s2" "T \<subseteq> table_frames s2"
    using map_run_step [OF wf, of "of_nat k" "unat n" "\<lambda>j. paddr + of_nat j * 4096" "\<lambda>j. page_flags n (of_nat j)",
        unfolded uk, OF fit room1] by blast
  have lk: "lookup s2 m = (if k \<le> m \<and> m < k + unat n
       then (paddr + of_nat (m - k) * 4096) OR page_flags n (of_nat (m - k)) else lookup s m)" if "m < 0xffc00" for m
    using mm_step_lookup [OF s2(2) that] that by (simp add: unat_vpage Let_def)
  have "kmalloc_page_paddr paddr n s = Some (vpage k, s2\<lparr>page_lock := \<lparr>lock = False\<rparr>\<rparr>)"
    using ok k(1) s2(1) by (simp add: kmalloc_page_paddr_def mm_ok_def lock_defs vpage_def push_bit_eq_mult)
  moreover have "mm_ok (s2\<lparr>page_lock := \<lparr>lock = False\<rparr>\<rparr>)" "used_frames s2 = used_frames s \<union> T"
      "heap_base s2 = heap_base s"
    using s2(2) ok mm_frame_sel(3) [of ?s1 s2] by (auto simp: mm_step_def mm_ok_def)
  ultimately show ?thesis
    using k fit lk s2(3)
    by (intro exI [of _ k] exI [of _ "s2\<lparr>page_lock := \<lparr>lock = False\<rparr>\<rparr>"] exI [of _ T]) auto
qed

theorem kmalloc_page_paddr_maps_range_witness:
  "\<exists>k s'. kmalloc_page_paddr 0xb8000 2 mm_example = Some (vpage k, s') \<and>
     (\<forall>j < 2. lookup s' (k + j) = (0xb8000 + of_nat j * 4096) OR page_flags 2 (of_nat j))"
proof -
  have "unat (2 :: u32) \<le> card (avail mm_example)" using mm_example_card by simp
  from kmalloc_page_paddr_maps_range [OF mm_example_ok(1) order_refl mm_example_gap this, of "0xb8000"]
  show ?thesis by auto
qed

subsection \<open>The heap at start-up\<close>

definition heap_init_pages :: "u32 \<Rightarrow> u32" where
  "heap_init_pages size_bytes = (size_bytes + 4096 - 1) div 4096"

definition heap_init_map_pages :: "u32 \<Rightarrow> u32" where
  "heap_init_map_pages size_bytes = (heap_init_pages size_bytes div 2 + 4096 - 1) div 4096"

lemma kmalloc_twice:
  assumes ok: "mm_ok s" "heap_base s = 0" and b: "0xc0000 \<le> b" "vgap s b (unat m + unat n)"
    and room: "2 * (unat m + unat n) \<le> card (avail s)"
  shows "\<exists>k1 k2 s1 s2. kmalloc m s = Some (vpage k1, s1) \<and> kmalloc n s1 = Some (vpage k2, s2) \<and>
     0xc0000 \<le> k1 \<and> 0xc0000 \<le> k2 \<and> k1 + unat m \<le> 0xffc00 \<and> k2 + unat n \<le> 0xffc00 \<and>
     mm_ok s2 \<and> heap_base s2 = 0 \<and> heap_map_size s2 = heap_map_size s \<and> heap_lock s2 = heap_lock s"
proof -
  have g1: "vgap s b (unat m)" and room1: "2 * unat m \<le> card (avail s)"
    using b(2) room by (auto simp: vgap_def)
  obtain k1 s1 T where k1: "kmalloc m s = Some (vpage k1, s1)" "mm_ok s1" "heap_base s1 = 0"
    "vgap s k1 (unat m)" "0xc0000 \<le> k1" "\<And>c. 0xc0000 \<le> c \<Longrightarrow> c < k1 \<Longrightarrow> \<not> vgap s c (unat m)"
    "\<And>i. i < 0xffc00 \<Longrightarrow> i \<notin> {k1..<k1 + unat m} \<Longrightarrow> lookup s1 i = lookup s i"
    "T \<subseteq> avail s" "avail s1 = avail s - T" "card T \<le> 2 * unat m"
    "heap_map_size s1 = heap_map_size s" "heap_lock s1 = heap_lock s"
    by (rule kmalloc_spec [OF ok b(1) g1 room1], rule that; assumption)
  have low: "k1 \<le> b" using k1(6) [OF b(1)] g1 by (meson not_le)
  have "card (avail s1) = card (avail s) - card T"
    using k1(8,9) by (simp add: card_Diff_subset finite_subset)
  then have room2: "2 * unat n \<le> card (avail s1)" using room k1(10) by (simp add: distrib_left)
  have g2: "vgap s1 (b + unat m) (unat n)"
    unfolding vgap_def
  proof (intro conjI allI impI)
    show "b + unat m + unat n \<le> 0xffc00" using b(2) by (simp add: vgap_def)
    fix j assume j: "j < unat n"
    have "lookup s1 (b + unat m + j) = lookup s (b + unat m + j)"
      using j b(2) low by (intro k1(7)) (auto simp: vgap_def)
    then show "lookup s1 (b + unat m + j) AND 0xfff = 0"
      using b(2) j by (simp add: vgap_def add.assoc)
  qed
  have b2: "0xc0000 \<le> b + unat m" using b(1) by simp
  obtain k2 s2 where k2: "kmalloc n s1 = Some (vpage k2, s2)" "mm_ok s2" "heap_base s2 = 0"
      "vgap s1 k2 (unat n)" "0xc0000 \<le> k2" "heap_map_size s2 = heap_map_size s1" "heap_lock s2 = heap_lock s1"
    by (rule kmalloc_spec [OF k1(2,3) b2 g2 room2], rule that; assumption)
  with k1 show ?thesis by (intro exI [of _ k1] exI [of _ k2] exI [of _ s1] exI [of _ s2]) (simp add: vgap_def)
qed

text \<open>The state that \<^verbatim>\<open>heap_init\<close> leaves: pages \<open>k\<close> on are the heap, and its map is clear.\<close>

definition fresh_heap :: "u32 \<Rightarrow> nat \<Rightarrow> 'a mm_state_scheme \<Rightarrow> 'a mm_state_scheme" where
  "fresh_heap n k s = s\<lparr>heap_base := vpage k, heap_first_free := 0, heap_map := (\<lambda>i. if i < n div 2 then 0 else heap_map s i)\<rparr>"

lemma fresh_heap_ready:
  assumes hs: "heap_map_size s = n div 2" "heap_lock s = \<lparr>lock = False\<rparr>" and k: "0xc0000 \<le> k" "k + unat n \<le> 0xffc00"
  shows "heap_pages (fresh_heap n k s) = 2 * (unat n div 2)" "kheap_ready (fresh_heap n k s)" "heap_rep Map.empty (fresh_heap n k s)"
proof -
  let ?s = "fresh_heap n k s"
  have half: "unat (n div 2) = unat n div 2" by (simp add: unat_div)
  have vp: "unat (vpage k) = k * 4096" using k by (simp add: unat_vpage)
  then have nz: "vpage k \<noteq> 0" using k(1) by (auto simp: word_unat_eq_iff)
  show pages: "heap_pages ?s = 2 * (unat n div 2)"
    using half k hs(1) by (simp add: heap_pages_def heap_max_index_def fresh_heap_def unat_mult_lt)
  have le: "2 * (unat n div 2) \<le> unat n" by simp
  moreover have "unat n \<le> 2 ^ 19" using k by simp
  ultimately have "2 * (unat n div 2) \<le> 2 ^ 19" by (rule order_trans)
  moreover have "unat (heap_base ?s) + 2 * (unat n div 2) * 4096 \<le> 2 ^ 32"
    using mult_le_mono1 [OF le, of 4096] k(2) vp by (simp add: fresh_heap_def)
  ultimately show "kheap_ready ?s"
    unfolding kheap_ready_def heap_ready_def pages using hs(2) nz by (simp add: fresh_heap_def)
  have "get_heap_index ?s i = 0" for i
  proof (cases "i < heap_max_index ?s")
    case True
    then have "i div 2 < n div 2"
      using half pages by (simp add: word_less_nat_alt heap_pages_def unat_div less_mult_imp_div_less)
    then show ?thesis by (simp add: get_heap_index_def fresh_heap_def)
  qed (simp add: heap_index_outside)
  then show "heap_rep Map.empty ?s" by (simp add: heap_rep_def)
qed

text \<open>
  C31. With room in the kernel's half of the address space and enough free frames, \<^verbatim>\<open>heap_init\<close>
  returns, and the heap is then empty, unlocked and ready: every later \<^verbatim>\<open>kmalloc\<close> and \<^verbatim>\<open>kfree\<close>
  goes through the heap and meets its contract.
\<close>

theorem heap_init_establishes_heap:
  assumes ok: "mm_ok s" "heap_base s = 0" and b: "0xc0000 \<le> b"
    "vgap s b (unat (heap_init_map_pages size_bytes) + unat (heap_init_pages size_bytes))"
    and room: "2 * (unat (heap_init_map_pages size_bytes) + unat (heap_init_pages size_bytes)) \<le> card (avail s)"
  shows "\<exists>s'. heap_init size_bytes s = Some s' \<and> kheap_ready s' \<and> heap_rep Map.empty s' \<and>
     heap_pages s' = 2 * (unat (heap_init_pages size_bytes) div 2)"
proof -
  let ?n = "heap_init_pages size_bytes" and ?m = "heap_init_map_pages size_bytes"
  define s0 where "s0 = s\<lparr>heap_lock := \<lparr>lock = False\<rparr>, heap_map_size := ?n div 2\<rparr>"
  have same: "page_dir s0 = page_dir s" "phys s0 = phys s" "cr3 s0 = cr3 s" "pm_map s0 = pm_map s"
    by (simp_all add: s0_def page_dir_def)
  have "wf_mm s0 = wf_mm s" by (rule wf_mm_cong) (simp_all add: same)
  moreover have "lookup s0 = lookup s" by (simp add: fun_eq_iff lookup_def pte_def same)
  moreover have "pm_ready s0 = pm_ready s" "avail s0 = avail s" "used_frames s0 = used_frames s"
      "page_lock s0 = page_lock s" "heap_base s0 = heap_base s"
    by (simp_all add: s0_def pm_ready_def avail_def used_frames_def)
  ultimately have ok0: "mm_ok s0" "heap_base s0 = 0" "vgap s0 b (unat ?m + unat ?n)"
      "2 * (unat ?m + unat ?n) \<le> card (avail s0)"
    using ok b(2) room by (simp_all add: mm_ok_def vgap_def)
  obtain k1 k2 s1 s2 where k: "kmalloc ?m s0 = Some (vpage k1, s1)" "kmalloc ?n s1 = Some (vpage k2, s2)"
     "0xc0000 \<le> k1" "0xc0000 \<le> k2" "k1 + unat ?m \<le> 0xffc00" "k2 + unat ?n \<le> 0xffc00"
     "heap_map_size s2 = ?n div 2" "heap_lock s2 = \<lparr>lock = False\<rparr>"
    using kmalloc_twice [OF ok0(1,2) b(1) ok0(3,4)] by (auto simp: s0_def)
  have "unat (vpage k1) = k1 * 4096" "unat (vpage k2) = k2 * 4096" using k(3-6) by (simp_all add: unat_vpage)
  then have nz: "vpage k1 \<noteq> 0" "vpage k2 \<noteq> 0" using k(3,4) by (auto simp: word_unat_eq_iff)
  have "heap_init size_bytes s = Some (fresh_heap ?n k2 s2)"
    using k(1,2,7,8) nz
    by (simp add: heap_init_def heap_init_pages_def heap_init_map_pages_def s0_def fresh_heap_def lock_defs Let_def cong: if_cong)
  then show ?thesis using fresh_heap_ready [OF k(7,8,4,6)] by blast
qed

lemma mm_example_card10: "10 \<le> card (avail mm_example)"
proof -
  let ?A = "{0x8000, 0x9000, 0xa000, 0xb000, 0xc000, 0xd000, 0xe000, 0xf000, 0x10000, 0x11000} :: u32 set"
  have "?A \<subseteq> avail mm_example"
    by (simp add: avail_def mm_example_def heap_example_def pm_example_def heap_state.defs pm_state.defs
        page_aligned_def pm_used_def)
  moreover have "card ?A = 10" by simp
  ultimately show ?thesis using card_mono [OF finite_avail, of ?A mm_example] by metis
qed

theorem heap_init_establishes_heap_witness:
  "\<exists>s'. heap_init 0x4000 mm_example = Some s' \<and> kheap_ready s' \<and> heap_rep Map.empty s' \<and> heap_pages s' = 4"
proof -
  have n: "heap_init_pages 0x4000 = 4" "heap_init_map_pages 0x4000 = 1"
    by (simp_all add: heap_init_pages_def heap_init_map_pages_def)
  have "lookup mm_example m = 0" if "m < 0xffc00" for m
    using pd_index_user [OF pd_index_vpage [OF that]] by (simp add: lookup_def pte_def mm_example_dir)
  then have "vgap mm_example 0xc0000 (unat (heap_init_map_pages 0x4000) + unat (heap_init_pages 0x4000))"
    by (simp add: vgap_def n)
  from heap_init_establishes_heap [OF mm_example_ok order_refl this] mm_example_card10
  show ?thesis by (simp add: n)
qed

text \<open>
  \<^verbatim>\<open>get_paddr_in_pd\<close> indexes the page table with \<^verbatim>\<open>pt_index & 0xfffff000\<close>, which is always 0:
  its result does not depend on the page within the 4 MiB region, so that two addresses with
  different mappings get the same answer.
\<close>

theorem get_paddr_in_pd_ignores_page:
  assumes "pd_index v = pd_index w"
  shows "get_paddr_in_pd v pd s = get_paddr_in_pd w pd s"
proof -
  have "pt_index x AND 0xfffff000 = 0" for x
  proof -
    have "page_base (pt_index x) = 0"
      using pt_index_lt(2) [of x] by (simp add: word_unat_eq_iff unat_page_base)
    then show ?thesis by (simp add: page_base_def)
  qed
  then have "pt_index v AND 0xfffff000 = pt_index w AND 0xfffff000" by simp
  with assms show ?thesis by (simp only: get_paddr_in_pd_def Let_def)
qed

theorem get_paddr_in_pd_ignores_page_witness:
  "get_paddr_in_pd 0x400000 0xd0000000 mm_example = get_paddr_in_pd 0x7ff000 0xd0000000 mm_example"
  by (rule get_paddr_in_pd_ignores_page) (simp add: pd_index_def)

end
