(* ===== verification/Scheduler.thy ===== *)
theory Scheduler
  imports KMem "HOL-Library.Multiset"
begin

text \<open>
  The process table and the run queue (\<^verbatim>\<open>src/kernel/system/scheduler.c\<close>).

  \<^verbatim>\<open>process_queue\<close> holds the pids that may run, in its first \<^verbatim>\<open>queue_length\<close> cells; pid 0 is the
  idle process.  The timer interrupt calls \<^verbatim>\<open>schedule\<close>, which walks the queue round robin and
  skips the idle process while anything else is queued.

  The lemmas relate the array to the list of queued pids: adding appends, removing a queued
  pid takes out exactly that pid, a tick saves the interrupted registers and selects a queued
  process, and every queued process is selected within one round.

  Indices outside \<^verbatim>\<open>processes\<close> and \<^verbatim>\<open>process_queue\<close> are \<open>None\<close>.  \<^verbatim>\<open>exec\<close> needs the file system and
  the ELF loader and is not part of this theory.
\<close>

abbreviation (input) PROCESS_COUNT :: u32 where "PROCESS_COUNT \<equiv> 0x10000"
abbreviation (input) DEFAULT_FD_MAX :: u32 where "DEFAULT_FD_MAX \<equiv> 1024"

record cpu_registers_t =
  r_gs :: u32  r_fs :: u32  r_es :: u32  r_ds :: u32
  r_edi :: u32  r_esi :: u32  r_ebp :: u32  r_esp :: u32
  r_ebx :: u32  r_edx :: u32  r_ecx :: u32  r_eax :: u32
  r_int_no :: u32  r_pfa :: u32
  r_eip :: u32  r_cs :: u32  r_eflags :: u32  r_useresp :: u32  r_ss :: u32

definition zero_regs :: cpu_registers_t where
  "zero_regs = \<lparr>r_gs = 0, r_fs = 0, r_es = 0, r_ds = 0, r_edi = 0, r_esi = 0, r_ebp = 0, r_esp = 0,
     r_ebx = 0, r_edx = 0, r_ecx = 0, r_eax = 0, r_int_no = 0, r_pfa = 0,
     r_eip = 0, r_cs = 0, r_eflags = 0, r_useresp = 0, r_ss = 0\<rparr>"

definition regs_words :: "cpu_registers_t \<Rightarrow> u32 list" where
  "regs_words r = [r_gs r, r_fs r, r_es r, r_ds r, r_edi r, r_esi r, r_ebp r, r_esp r,
     r_ebx r, r_edx r, r_ecx r, r_eax r, r_int_no r, r_pfa r,
     r_eip r, r_cs r, r_eflags r, r_useresp r, r_ss r]"

abbreviation (input) sizeof_regs :: u32 where "sizeof_regs \<equiv> 76"

record pflags =
  blocked :: bool
  system :: bool
  cpu_lvl :: bool
  priority :: u8
  present :: bool
  ran :: bool

record process_t =
  p_argv :: u32
  p_argc :: u32
  cpuregs :: cpu_registers_t
  p_page_dir :: u32
  flags :: pflags
  file_descriptors :: u32
  max_descriptors :: u32
  exit_value :: u32
  thread_id :: u32
  parent :: u32
  uid :: u32
  gid :: u32
  brk :: u32
  stack_start :: u32
  esp0 :: u32

definition zero_process :: process_t where
  "zero_process = \<lparr>p_argv = 0, p_argc = 0, cpuregs = zero_regs, p_page_dir = 0,
     flags = \<lparr>blocked = False, system = False, cpu_lvl = False, priority = 0, present = False, ran = False\<rparr>,
     file_descriptors = 0, max_descriptors = 0, exit_value = 0, thread_id = 0, parent = 0,
     uid = 0, gid = 0, brk = 0, stack_start = 0, esp0 = 0\<rparr>"

record sched_state = mm_state +
  processes :: "u32 \<Rightarrow> process_t"
  process_queue :: "u32 \<Rightarrow> u32"
  active_processes :: u32
  current_pid :: u32
  queue_length :: u32
  current_queue_index :: u32
  proc_lock :: spinlock_t

subsection \<open>Operations\<close>

definition upd_process ::
    "u32 \<Rightarrow> (process_t \<Rightarrow> process_t) \<Rightarrow> 'a sched_state_scheme \<Rightarrow> 'a sched_state_scheme option" where
  "upd_process pid f s =
     (if pid < PROCESS_COUNT
      then Some (s\<lparr>processes := (processes s)(pid := f (processes s pid))\<rparr>) else None)"

text \<open>
  The table lives in pages of \<^verbatim>\<open>kmalloc\<close>, of which only the call is modelled; the installation of
  the timer handler is part of the interrupt component.
\<close>

definition scheduler_init :: "'a sched_state_scheme \<Rightarrow> 'a sched_state_scheme option" where
  "scheduler_init s = do {
     (ptr, s) \<leftarrow> kmalloc ((PROCESS_COUNT * 132 + 4095) div 4096) s;
     let s = s\<lparr>processes := (\<lambda>i. if i < PROCESS_COUNT
                 then processes s i\<lparr>flags := flags (processes s i)\<lparr>present := False\<rparr>\<rparr> else processes s i),
               process_queue := (\<lambda>i. if i < PROCESS_COUNT then 0 else process_queue s i)\<rparr>;
     Some (s\<lparr>current_pid := 0, queue_length := 0, current_queue_index := 0, active_processes := 0,
             proc_lock := spinlock_init (proc_lock s)\<rparr>)
   }"

definition add_process_queue_nolock :: "u32 \<Rightarrow> 'a sched_state_scheme \<Rightarrow> 'a sched_state_scheme option" where
  "add_process_queue_nolock pid s =
     (if queue_length s < PROCESS_COUNT
      then Some (s\<lparr>process_queue := (process_queue s)(queue_length s := pid),
                   queue_length := queue_length s + 1\<rparr>)
      else None)"

definition add_process_queue :: "u32 \<Rightarrow> 'a sched_state_scheme \<Rightarrow> 'a sched_state_scheme option" where
  "add_process_queue pid s = do {
     l \<leftarrow> spinlock_acquire (proc_lock s);
     s \<leftarrow> add_process_queue_nolock pid (s\<lparr>proc_lock := l\<rparr>);
     Some (s\<lparr>proc_lock := spinlock_release (proc_lock s)\<rparr>)
   }"

text \<open>The loop of \<^verbatim>\<open>remove_process_queue\<close>: it clears every cell that holds \<^verbatim>\<open>pid\<close> and remembers the last.\<close>

definition queue_clear :: "u32 \<Rightarrow> nat \<Rightarrow> (u32 \<Rightarrow> u32) \<Rightarrow> (u32 \<Rightarrow> u32) \<times> u32" where
  "queue_clear pid n q =
     fold (\<lambda>i (q, old_index). if q (of_nat i) = pid then (q(of_nat i := 0), of_nat i) else (q, old_index))
       [0..<n] (q, - 1)"

text \<open>
  With an empty queue \<^verbatim>\<open>last_queue_index\<close> is \<^verbatim>\<open>0xffffffff\<close> and the loop runs off the array; the
  same holds for a queue longer than the array.
\<close>

definition remove_process_queue :: "u32 \<Rightarrow> 'a sched_state_scheme \<Rightarrow> 'a sched_state_scheme option" where
  "remove_process_queue pid s = do {
     l \<leftarrow> spinlock_acquire (proc_lock s);
     let s = s\<lparr>proc_lock := l\<rparr>;
     let last_queue_index = queue_length s - 1;
     if last_queue_index \<ge> PROCESS_COUNT then None
     else let (q, old_index) = queue_clear pid (Suc (unat last_queue_index)) (process_queue s);
              s = s\<lparr>process_queue := q, queue_length := queue_length s - 1\<rparr>
          in if old_index = last_queue_index \<or> old_index > queue_length s \<or> old_index > PROCESS_COUNT
             then Some (s\<lparr>proc_lock := spinlock_release (proc_lock s)\<rparr>)
             else let s = s\<lparr>process_queue := (process_queue s)(old_index := process_queue s last_queue_index)\<rparr>;
                      s = s\<lparr>process_queue := (process_queue s)(last_queue_index := 0)\<rparr>;
                      s = (if current_queue_index s > 0
                           then s\<lparr>current_queue_index := current_queue_index s - 1\<rparr> else s)
                  in Some (s\<lparr>proc_lock := spinlock_release (proc_lock s)\<rparr>)
   }"

text \<open>
  \<^verbatim>\<open>schedule\<close>: \<open>regs\<close> is the register block the interrupt entry pushed; the result is the
  pointer to the block of the selected process.
\<close>

definition queue_read :: "u32 \<Rightarrow> 'a sched_state_scheme \<Rightarrow> u32 option" where
  "queue_read i s = (if i < PROCESS_COUNT then Some (process_queue s i) else None)"

definition schedule ::
    "cpu_registers_t \<Rightarrow> 'a sched_state_scheme \<Rightarrow> (u32 \<times> 'a sched_state_scheme) option" where
  "schedule regs s = do {
     s \<leftarrow> (if queue_length s = 0 then add_process_queue 0 s else Some s);
     s \<leftarrow> upd_process (current_pid s) (\<lambda>p. p\<lparr>cpuregs := regs\<rparr>) s;
     let s = s\<lparr>current_queue_index := current_queue_index s + 1\<rparr>;
     let s = (if current_queue_index s \<ge> queue_length s then s\<lparr>current_queue_index := 0\<rparr> else s);
     pid \<leftarrow> queue_read (current_queue_index s mod queue_length s) s;
     let s = s\<lparr>current_pid := pid\<rparr>;
     s \<leftarrow> (if queue_length s > 1 \<and> current_pid s = 0
           then do {
             let s = s\<lparr>current_queue_index := current_queue_index s + 1\<rparr>;
             pid \<leftarrow> queue_read (current_queue_index s mod queue_length s) s;
             Some (s\<lparr>current_pid := pid\<rparr>)
           }
           else Some s);
     if current_pid s < PROCESS_COUNT
     then let p = processes s (current_pid s)
          in Some (r_esp (cpuregs p), s\<lparr>cr3 := p_page_dir p\<rparr>)
     else None
   }"

text \<open>
  The search of \<^verbatim>\<open>spawn_new_process\<close> for a free slot, from the current pid around the table;
  \<open>Some None\<close> is a full table.
\<close>

function slot_search :: "'a sched_state_scheme \<Rightarrow> u32 \<Rightarrow> u32 option option" where
  "slot_search s i =
     (if i \<ge> PROCESS_COUNT \<or> current_pid s \<ge> PROCESS_COUNT then None
      else if \<not> present (flags (processes s i)) then Some (Some i)
      else let i' = (if i + 1 \<ge> PROCESS_COUNT then 0 else i + 1)
           in if i' = current_pid s then Some None else slot_search s i')"
  by pat_completeness auto
termination
proof (relation "measure (\<lambda>(s, i). if i < current_pid s then unat (current_pid s) - unat i
    else 0x10000 - unat i + unat (current_pid s))")
  fix s :: "'a sched_state_scheme" and i i' :: u32
  assume a: "\<not> (i \<ge> PROCESS_COUNT \<or> current_pid s \<ge> PROCESS_COUNT)"
    and i': "i' = (if i + 1 \<ge> PROCESS_COUNT then 0 else i + 1)" and ne: "i' \<noteq> current_pid s"
  then have u: "unat i < 0x10000" "unat (current_pid s) < 0x10000"
    by (simp_all add: not_le word_less_nat_alt)
  have "unat (i + 1) = Suc (unat i)" using a unat_Suc_less [of i PROCESS_COUNT] by (simp add: not_le)
  then have "unat i' = (if Suc (unat i) \<ge> 0x10000 then 0 else Suc (unat i))"
    using i' by (auto simp: word_le_nat_alt)
  moreover have "unat i' \<noteq> unat (current_pid s)" using ne by (simp add: unat_inj)
  ultimately show "((s, i'), s, i) \<in> measure (\<lambda>(s, i). if i < current_pid s then unat (current_pid s) - unat i
    else 0x10000 - unat i + unat (current_pid s))"
    using u by (auto simp: word_less_nat_alt split: if_splits)
qed simp

declare slot_search.simps [simp del]

definition spawn_new_process ::
    "cpu_registers_t \<Rightarrow> u32 \<Rightarrow> u32 \<Rightarrow> u32 \<Rightarrow> 'a sched_state_scheme \<Rightarrow> (u32 \<times> 'a sched_state_scheme) option" where
  "spawn_new_process defaultregs argv argc cr s = do {
     l \<leftarrow> spinlock_acquire (proc_lock s);
     let s = s\<lparr>proc_lock := l\<rparr>;
     r \<leftarrow> slot_search s (current_pid s);
     case r of
       None \<Rightarrow> Some (- 1, s\<lparr>proc_lock := spinlock_release (proc_lock s)\<rparr>)
     | Some i \<Rightarrow> do {
         let s = s\<lparr>active_processes := active_processes s + 1\<rparr>;
         let new_proc = zero_process\<lparr>p_argc := argc, p_argv := argv, p_page_dir := cr,
               cpuregs := defaultregs, parent := current_pid s,
               flags := \<lparr>blocked = False, system = system (flags (processes s (current_pid s))),
                 cpu_lvl = True, priority = 0, present = True, ran = False\<rparr>\<rparr>;
         (fd, s) \<leftarrow> kmalloc ((DEFAULT_FD_MAX * 4 + 4095) div 4096) s;
         let new_proc = new_proc\<lparr>file_descriptors := fd, max_descriptors := DEFAULT_FD_MAX\<rparr>;
         s \<leftarrow> upd_process i (\<lambda>_. new_proc) s;
         s \<leftarrow> add_process_queue_nolock i s;
         Some (i, s\<lparr>proc_lock := spinlock_release (proc_lock s)\<rparr>)
       }
   }"

definition get_pid_pd :: "u32 \<Rightarrow> 'a sched_state_scheme \<Rightarrow> u32 option" where
  "get_pid_pd pid s = (if pid < PROCESS_COUNT then Some (p_page_dir (processes s pid)) else None)"

definition get_pid_esp0 :: "u32 \<Rightarrow> 'a sched_state_scheme \<Rightarrow> u32 option" where
  "get_pid_esp0 pid s = (if pid < PROCESS_COUNT then Some (esp0 (processes s pid)) else None)"

text \<open>\<^verbatim>\<open>memcpy\<close> of a register block into memory, byte by byte.\<close>

definition store_regs :: "u32 \<Rightarrow> cpu_registers_t \<Rightarrow> 'a mm_state_scheme \<Rightarrow> 'a mm_state_scheme option" where
  "store_regs dest r s =
     fold_opt (\<lambda>i. store8 (dest + of_nat i) (ucast (drop_bit (8 * (i mod 4)) (regs_words r ! (i div 4)))))
       [0..<76] s"

definition fork ::
    "cpu_registers_t \<Rightarrow> 'a sched_state_scheme \<Rightarrow> (cpu_registers_t \<times> 'a sched_state_scheme) option" where
  "fork oldregs s = do {
     let regs = oldregs\<lparr>r_eax := 0\<rparr>;
     (new_pd, s) \<leftarrow> pm_alloc s;
     (new_pd_ptr, s) \<leftarrow> kmalloc_page_paddr new_pd 1 s;
     s \<leftarrow> mapdup_full new_pd_ptr s;
     p \<leftarrow> get_paddr (r_esp oldregs) s;
     (stack, s) \<leftarrow> kmalloc_page_paddr (p - 4096) 2 s;
     s \<leftarrow> store_regs stack regs s;
     s \<leftarrow> unmap new_pd_ptr s;
     s \<leftarrow> unmap stack s;
     s \<leftarrow> unmap (stack - PAGE_SIZE_BYTES) s;
     (retpid, s) \<leftarrow> spawn_new_process regs 0 0 new_pd s;
     s \<leftarrow> upd_process retpid (\<lambda>_. processes s (current_pid s)) s;
     s \<leftarrow> upd_process retpid (\<lambda>p. p\<lparr>cpuregs := regs, parent := current_pid s, p_page_dir := new_pd\<rparr>) s;
     Some (oldregs\<lparr>r_eax := retpid\<rparr>, s)
   }"

text \<open>The inner loop of \<^verbatim>\<open>kill\<close>: free the frames a page table lists.\<close>

definition free_table :: "u32 \<Rightarrow> 'a mm_state_scheme \<Rightarrow> 'a mm_state_scheme option" where
  "free_table pt_ptr s =
     fold_opt (\<lambda>j s. do {
         e \<leftarrow> load32 (pt_ptr + of_nat j * 4) s;
         pm_free (page_base e) s
       }) [0..<1024] s"

definition free_directory :: "u32 \<Rightarrow> 'a mm_state_scheme \<Rightarrow> 'a mm_state_scheme option" where
  "free_directory pd_ptr s =
     fold_opt (\<lambda>i s. do {
         e \<leftarrow> load32 (pd_ptr + of_nat i * 4) s;
         (pt_ptr, s) \<leftarrow> kmalloc_page_paddr e 1 s;
         s \<leftarrow> free_table pt_ptr s;
         s \<leftarrow> kfree pt_ptr s;
         e \<leftarrow> load32 (pd_ptr + of_nat i * 4) s;
         s \<leftarrow> pm_free (page_base e) s;
         store32 (pd_ptr + of_nat i * 4) 0 s
       }) [1..<768] s"

definition kill :: "u32 \<Rightarrow> 'a sched_state_scheme \<Rightarrow> 'a sched_state_scheme option" where
  "kill pid s = do {
     pd \<leftarrow> get_pid_pd pid s;
     (pd_ptr, s) \<leftarrow> kmalloc_page_paddr pd 1 s;
     s \<leftarrow> free_directory pd_ptr s;
     s \<leftarrow> kfree pd_ptr s;
     s \<leftarrow> pm_free pd s;
     s \<leftarrow> upd_process pid (\<lambda>p. p\<lparr>flags := flags p\<lparr>present := False\<rparr>, p_page_dir := 0\<rparr>) s;
     remove_process_queue pid s
   }"

definition set_pid_blocked :: "u32 \<Rightarrow> 'a sched_state_scheme \<Rightarrow> 'a sched_state_scheme option" where
  "set_pid_blocked pid s = do {
     s \<leftarrow> upd_process pid (\<lambda>p. p\<lparr>flags := flags p\<lparr>blocked := True\<rparr>\<rparr>) s;
     remove_process_queue pid s
   }"

definition set_pid_unblocked :: "u32 \<Rightarrow> 'a sched_state_scheme \<Rightarrow> 'a sched_state_scheme option" where
  "set_pid_unblocked pid s = do {
     s \<leftarrow> upd_process pid (\<lambda>p. p\<lparr>flags := flags p\<lparr>blocked := False\<rparr>\<rparr>) s;
     add_process_queue pid s
   }"

definition get_current_pid :: "'a sched_state_scheme \<Rightarrow> u32" where
  "get_current_pid s = current_pid s"

definition thread_start :: "u32 \<Rightarrow> 'a sched_state_scheme \<Rightarrow> (u32 \<times> 'a sched_state_scheme) option" where
  "thread_start entry s = do {
     (stack, s) \<leftarrow> kmalloc 8 s;
     let sp = stack + PAGE_SIZE_BYTES * 8 - 4 - sizeof_regs;
     let regs = zero_regs\<lparr>r_cs := 0x10, r_ds := 0x18, r_es := 0x18, r_ss := 0x18, r_eflags := 0x202,
           r_esp := sp, r_ebp := sp, r_eip := entry\<rparr>;
     s \<leftarrow> store_regs (r_esp regs) regs s;
     (retpid, s) \<leftarrow> spawn_new_process regs 0 0 0x10000 s;
     s \<leftarrow> upd_process retpid (\<lambda>p. p\<lparr>parent := current_pid s, esp0 := r_esp regs\<rparr>) s;
     Some (retpid, s)
   }"

text \<open>
  \<^verbatim>\<open>thread_join\<close> up to and including the \<^verbatim>\<open>int $32\<close> that gives up the processor with the registers
  \<open>regs\<close>, and what it does once it runs again.
\<close>

definition thread_join_wait ::
    "cpu_registers_t \<Rightarrow> 'a sched_state_scheme \<Rightarrow> (u32 \<times> 'a sched_state_scheme) option" where
  "thread_join_wait regs s = do {
     s \<leftarrow> set_pid_blocked (current_pid s) s;
     schedule regs s
   }"

definition thread_join_result :: "u32 \<Rightarrow> 'a sched_state_scheme \<Rightarrow> u32 option" where
  "thread_join_result tid s = (if tid < PROCESS_COUNT then Some (exit_value (processes s tid)) else None)"

definition thread_exit ::
    "u32 \<Rightarrow> cpu_registers_t \<Rightarrow> 'a sched_state_scheme \<Rightarrow> (u32 \<times> 'a sched_state_scheme) option" where
  "thread_exit exit_code regs s = do {
     s \<leftarrow> upd_process (current_pid s)
           (\<lambda>p. p\<lparr>flags := flags p\<lparr>present := False\<rparr>, exit_value := exit_code\<rparr>) s;
     s \<leftarrow> remove_process_queue (current_pid s) s;
     s \<leftarrow> set_pid_unblocked (parent (processes s (current_pid s))) s;
     schedule regs s
   }"

subsection \<open>The queue as a list\<close>

definition queue_list :: "(u32 \<Rightarrow> u32) \<Rightarrow> nat \<Rightarrow> u32 list" where
  "queue_list q n = map (\<lambda>i. q (of_nat i)) [0..<n]"

definition rq :: "'a sched_state_scheme \<Rightarrow> u32 list" where
  "rq s = queue_list (process_queue s) (unat (queue_length s))"

text \<open>The array fits, its entries are pids, nobody holds the lock.\<close>

definition queue_ok :: "'a sched_state_scheme \<Rightarrow> bool" where
  "queue_ok s \<longleftrightarrow> unat (queue_length s) \<le> 0x10000 \<and> (\<forall>p \<in> set (rq s). p < PROCESS_COUNT) \<and> \<not> lock (proc_lock s)"

lemma length_rq [simp]: "length (rq s) = unat (queue_length s)"
  by (simp add: rq_def queue_list_def)

lemma nth_rq: "i < unat (queue_length s) \<Longrightarrow> rq s ! i = process_queue s (of_nat i)"
  by (simp add: rq_def queue_list_def)

lemma of_nat_u32_inj:
  assumes "i < 0x100000000" "j < 0x100000000"
  shows "(of_nat i :: u32) = of_nat j \<longleftrightarrow> i = j"
proof -
  have "unat (of_nat i :: u32) = i" "unat (of_nat j :: u32) = j"
    using assms by (simp_all add: unat_of_nat_lt)
  then show ?thesis by metis
qed

lemma add_process_queue_spec:
  assumes "queue_ok s" "unat (queue_length s) < 0x10000" "pid < PROCESS_COUNT"
  shows "\<exists>s'. add_process_queue pid s = Some s' \<and> rq s' = rq s @ [pid] \<and> queue_ok s' \<and>
     s' = s\<lparr>process_queue := process_queue s', queue_length := queue_length s', proc_lock := proc_lock s'\<rparr>"
proof -
  let ?s = "s\<lparr>proc_lock := \<lparr>lock = False\<rparr>, process_queue := (process_queue s)(queue_length s := pid),
      queue_length := queue_length s + 1\<rparr>"
  have lt: "queue_length s < PROCESS_COUNT" using assms(2) by (simp add: word_less_nat_alt)
  then have suc: "unat (queue_length s + 1) = Suc (unat (queue_length s))" by (rule unat_Suc_less)
  have other: "(of_nat i :: u32) \<noteq> queue_length s" if "i < unat (queue_length s)" for i
    using that assms(2) unat_of_nat_lt [of i, where 'a = 32] by auto
  have rq: "rq ?s = rq s @ [pid]" using other by (simp add: rq_def queue_list_def suc)
  moreover have "queue_ok ?s" using assms rq by (auto simp: queue_ok_def suc)
  moreover have "add_process_queue pid s = Some ?s"
    using assms(1) lt by (simp add: add_process_queue_def add_process_queue_nolock_def queue_ok_def lock_defs)
  ultimately show ?thesis by (intro exI [of _ ?s]) simp
qed

lemma queue_clear_absent:
  assumes "n \<le> 2 ^ 32" "\<forall>i < n. q (of_nat i) \<noteq> pid"
  shows "queue_clear pid n q = (q, - 1)"
  using assms by (induction n) (auto simp: queue_clear_def)

lemma queue_clear_found:
  assumes "n \<le> 2 ^ 32" "k < n" "q (of_nat k) = pid" "\<forall>i < n. i \<noteq> k \<longrightarrow> q (of_nat i) \<noteq> pid"
  shows "queue_clear pid n q = (q(of_nat k := 0), of_nat k)"
  using assms
proof (induction n)
  case (Suc n)
  have step: "queue_clear pid (Suc n) q = (case queue_clear pid n q of (q, old) \<Rightarrow>
      if q (of_nat n) = pid then (q(of_nat n := 0), of_nat n) else (q, old))"
    by (simp add: queue_clear_def)
  show ?case
  proof (cases "k = n")
    case True
    then have "queue_clear pid n q = (q, - 1)" using Suc.prems by (intro queue_clear_absent) auto
    with True Suc.prems show ?thesis by (simp add: step fun_upd_def)
  next
    case False
    have "(of_nat n :: u32) \<noteq> of_nat k"
      using False Suc.prems(1,2) unat_of_nat_lt [of n, where 'a = 32] unat_of_nat_lt [of k, where 'a = 32] by auto
    with False Suc show ?thesis by (simp add: step)
  qed
qed simp

definition swap_remove :: "'b list \<Rightarrow> nat \<Rightarrow> 'b list" where
  "swap_remove xs k = butlast (xs[k := last xs])"

lemma swap_remove_mset:
  assumes "k < length xs"
  shows "mset (swap_remove xs k) = mset xs - {#xs ! k#}"
proof -
  define ys where "ys = xs[k := last xs]"
  have ne: "xs \<noteq> []" using assms by auto
  have ys: "ys \<noteq> []" "last ys = last xs"
    using ne assms by (auto simp: ys_def last_conv_nth nth_list_update)
  have "mset ys = add_mset (last xs) (mset xs - {#xs ! k#})"
    using assms by (simp add: ys_def mset_update)
  moreover have "mset (butlast ys) = mset ys - {#last ys#}"
    using ys(1) by (metis append_butlast_last_id add_diff_cancel_right' mset.simps(2) mset_append
        mset_single_iff_right union_mset_add_mset_right add_mset_remove_trivial add.right_neutral mset.simps(1))
  ultimately show ?thesis using ys(2) by (simp add: swap_remove_def ys_def)
qed

lemma queue_list_swap_remove:
  assumes "k < n" "n \<le> 0x10000"
    and "\<And>i. i < n - 1 \<Longrightarrow> q' (of_nat i) = (if i = k then q (of_nat (n - 1)) else q (of_nat i))"
  shows "queue_list q' (n - 1) = swap_remove (queue_list q n) k"
proof (rule nth_equalityI)
  show "length (queue_list q' (n - 1)) = length (swap_remove (queue_list q n) k)"
    by (simp add: queue_list_def swap_remove_def)
  fix i assume "i < length (queue_list q' (n - 1))"
  then have i: "i < n - 1" "i < n" by (simp_all add: queue_list_def)
  have "last (queue_list q n) = q (of_nat (n - 1))"
    using assms(1) by (simp add: queue_list_def last_conv_nth)
  with i assms(1,3) show "queue_list q' (n - 1) ! i = swap_remove (queue_list q n) k ! i"
    by (simp add: queue_list_def swap_remove_def nth_butlast nth_list_update)
qed

lemma queue_last_cell:
  assumes "queue_ok s" "0 < unat (queue_length s)"
  shows "unat (queue_length s - 1) = unat (queue_length s) - 1" "queue_length s - 1 = of_nat (unat (queue_length s) - 1)"
    "i < unat (queue_length s) \<Longrightarrow> j < unat (queue_length s) \<Longrightarrow> (of_nat i :: u32) = of_nat j \<longleftrightarrow> i = j"
    "i < unat (queue_length s) - 1 \<Longrightarrow> of_nat i \<noteq> queue_length s - 1"
proof -
  let ?L = "unat (queue_length s)"
  have L: "0 < ?L" "?L \<le> 0x10000" using assms by (auto simp: queue_ok_def)
  show ulast: "unat (queue_length s - 1) = ?L - 1" using L by (simp add: unat_sub word_le_nat_alt)
  show last: "queue_length s - 1 = of_nat (?L - 1)" using unat_of_nat_lt [of "?L - 1", where 'a = 32] L ulast
    by (simp add: word_unat_eq_iff)
  have cell: "(of_nat i :: u32) = of_nat j \<longleftrightarrow> i = j" if "i < ?L" "j < ?L" for i j
    using that L by (intro of_nat_u32_inj) simp_all
  then show "i < ?L \<Longrightarrow> j < ?L \<Longrightarrow> (of_nat i :: u32) = of_nat j \<longleftrightarrow> i = j" .
  show "of_nat i \<noteq> queue_length s - 1" if "i < ?L - 1" using that cell [of i "?L - 1"] unfolding last by simp
qed

lemma queue_clear_distinct:
  assumes ok: "queue_ok s" and dist: "distinct (rq s)" and k: "k < unat (queue_length s)" "rq s ! k = pid"
  shows "queue_clear pid (unat (queue_length s)) (process_queue s) = ((process_queue s)(of_nat k := 0), of_nat k)"
proof -
  let ?L = "unat (queue_length s)" and ?q = "process_queue s"
  have L: "0 < ?L" "?L \<le> 0x10000" using k ok by (auto simp: queue_ok_def)
  have "?q (of_nat i) \<noteq> pid" if "i < ?L" "i \<noteq> k" for i
  proof -
    have "rq s ! i \<noteq> rq s ! k" using that dist k(1) by (simp add: nth_eq_iff_index_eq)
    with that(1) k(2) show ?thesis by (simp add: nth_rq)
  qed
  then show ?thesis using L k nth_rq [of k s] by (intro queue_clear_found) auto
qed

lemma remove_process_queue_spec:
  assumes ok: "queue_ok s" and dist: "distinct (rq s)" and k: "k < unat (queue_length s)" "rq s ! k = pid"
  shows "\<exists>s'. remove_process_queue pid s = Some s' \<and> rq s' = swap_remove (rq s) k \<and> \<not> lock (proc_lock s') \<and>
     queue_length s' = queue_length s - 1 \<and> current_queue_index s' \<le> current_queue_index s \<and>
     s' = s\<lparr>process_queue := process_queue s', queue_length := queue_length s',
       current_queue_index := current_queue_index s', proc_lock := proc_lock s'\<rparr>"
proof -
  let ?L = "unat (queue_length s)" and ?last = "queue_length s - 1" and ?q = "process_queue s"
  have L: "0 < ?L" "?L \<le> 0x10000" using k ok by (auto simp: queue_ok_def)
  note ulast = queue_last_cell(1) [OF ok L(1)] and last = queue_last_cell(2) [OF ok L(1)]
    and cell = queue_last_cell(3) [OF ok L(1)] and before = queue_last_cell(4) [OF ok L(1)]
  have uk: "unat (of_nat k :: u32) = k" using k L by (simp add: unat_of_nat_lt)
  note clear = queue_clear_distinct [OF assms]
  have inb: "\<not> ?last \<ge> PROCESS_COUNT" "Suc (unat ?last) = ?L" using L ulast by (simp_all add: word_le_nat_alt)
  have small: "\<not> of_nat k > ?last" "\<not> (of_nat k :: u32) > PROCESS_COUNT"
    using uk k L ulast by (simp_all add: word_less_nat_alt)
  show ?thesis
  proof (cases "k = ?L - 1")
    case True
    let ?s = "s\<lparr>proc_lock := \<lparr>lock = False\<rparr>, process_queue := ?q(of_nat k := 0), queue_length := ?last\<rparr>"
    have eq: "of_nat k = ?last" using True last by simp
    have "remove_process_queue pid s = Some ?s"
      using ok clear inb eq by (simp add: remove_process_queue_def queue_ok_def lock_defs Let_def)
    moreover have "queue_list (?q(of_nat k := 0)) (?L - 1) = swap_remove (queue_list ?q ?L) k"
      by (rule queue_list_swap_remove [OF k(1) L(2)]) (use True before eq in simp)
    then have "rq ?s = swap_remove (rq s) k" by (simp add: rq_def ulast)
    ultimately show ?thesis by (intro exI [of _ ?s]) simp
  next
    case False
    let ?q' = "?q(of_nat k := ?q ?last, ?last := 0)"
    let ?s = "s\<lparr>proc_lock := \<lparr>lock = False\<rparr>, process_queue := ?q', queue_length := ?last,
        current_queue_index := (if current_queue_index s > 0 then current_queue_index s - 1 else current_queue_index s)\<rparr>"
    have neq: "of_nat k \<noteq> ?last" using False last cell [of k "?L - 1"] k(1) by simp
    have "remove_process_queue pid s = Some ?s"
      using ok clear inb neq small by (simp add: remove_process_queue_def queue_ok_def lock_defs Let_def)
    moreover have "queue_list ?q' (?L - 1) = swap_remove (queue_list ?q ?L) k"
    proof (rule queue_list_swap_remove [OF k(1) L(2)])
      fix i assume i: "i < ?L - 1"
      then show "?q' (of_nat i) = (if i = k then ?q (of_nat (?L - 1)) else ?q (of_nat i))"
        using before [OF i] cell [of i k] k(1) unfolding last by simp
    qed
    then have "rq ?s = swap_remove (rq s) k" by (simp add: rq_def ulast)
    moreover have "current_queue_index ?s \<le> current_queue_index s"
      using word_pred_less [of "current_queue_index s"] by (auto simp: less_imp_le)
    ultimately show ?thesis by (intro exI [of _ ?s]) simp
  qed
qed

subsection \<open>One tick\<close>

text \<open>The index arithmetic of \<^verbatim>\<open>schedule\<close> over the list of queued pids.\<close>

definition next_index :: "u32 list \<Rightarrow> nat \<Rightarrow> nat" where
  "next_index q c =
     (let c' = (if c + 1 \<ge> length q then 0 else c + 1)
      in if length q > 1 \<and> q ! c' = 0 then c' + 1 else c')"

definition sched_inv :: "'a sched_state_scheme \<Rightarrow> bool" where
  "sched_inv s \<longleftrightarrow> queue_ok s \<and> 0 < queue_length s \<and> current_queue_index s \<le> queue_length s \<and>
     current_pid s < PROCESS_COUNT"

definition save_regs :: "cpu_registers_t \<Rightarrow> 'a sched_state_scheme \<Rightarrow> 'a sched_state_scheme" where
  "save_regs regs s = s\<lparr>processes := (processes s)(current_pid s := (processes s (current_pid s))\<lparr>cpuregs := regs\<rparr>)\<rparr>"

lemma next_index_le: "0 < length q \<Longrightarrow> next_index q c \<le> length q"
  by (auto simp: next_index_def Let_def)

lemma queue_read_mod:
  fixes s t :: "'a sched_state_scheme"
  assumes "sched_inv s" "process_queue t = process_queue s"
  shows "queue_read (x mod queue_length s) t = Some (rq s ! (unat x mod unat (queue_length s)))"
proof -
  let ?L = "unat (queue_length s)"
  have L: "0 < ?L" "?L \<le> 0x10000" using assms(1) by (auto simp: sched_inv_def queue_ok_def word_less_nat_alt)
  have u: "unat (x mod queue_length s) = unat x mod ?L" by (rule unat_mod)
  moreover have lt: "unat x mod ?L < ?L" using L by simp
  ultimately have "x mod queue_length s < PROCESS_COUNT" using L(2) by (simp add: word_less_nat_alt)
  moreover have "rq s ! (unat x mod ?L) = process_queue s (x mod queue_length s)"
    using lt by (simp add: nth_rq u [symmetric])
  ultimately show ?thesis using assms(2) by (simp add: queue_read_def)
qed

lemma queued_pid_lt:
  assumes "sched_inv s"
  shows "rq s ! (c mod unat (queue_length s)) < PROCESS_COUNT"
proof -
  have "rq s ! (c mod unat (queue_length s)) \<in> set (rq s)"
    using assms by (intro nth_mem) (simp add: sched_inv_def word_less_nat_alt)
  then show ?thesis using assms by (auto simp: sched_inv_def queue_ok_def)
qed

lemma schedule_eq:
  fixes s :: "'a sched_state_scheme" and regs :: cpu_registers_t
  assumes "sched_inv s"
  defines "c \<equiv> next_index (rq s) (unat (current_queue_index s))"
  defines "pid \<equiv> rq s ! (c mod unat (queue_length s))"
  defines "s1 \<equiv> save_regs regs s"
  shows "schedule regs s = Some (r_esp (cpuregs (processes s1 pid)),
     s1\<lparr>current_queue_index := of_nat c, current_pid := pid, cr3 := p_page_dir (processes s1 pid)\<rparr>)"
proof -
  let ?L = "unat (queue_length s)" and ?c = "unat (current_queue_index s)"
  have L: "0 < ?L" "?L \<le> 0x10000" "?c \<le> ?L" "current_pid s < PROCESS_COUNT" "queue_length s \<noteq> 0"
    using assms(1) by (auto simp: sched_inv_def queue_ok_def word_le_nat_alt word_less_nat_alt)
  have up: "unat (current_queue_index s + 1) = Suc ?c"
    using L(2,3) by (simp add: unat_add_lt)
  define c' where "c' = (if current_queue_index s + 1 \<ge> queue_length s then 0 else current_queue_index s + 1)"
  have uc': "unat c' = (if ?c + 1 \<ge> ?L then 0 else ?c + 1)" using up by (simp add: c'_def word_le_nat_alt)
  then have lt: "unat c' < ?L" using L by auto
  note read = queue_read_mod [OF assms(1)]
  have c: "c = (if ?L > 1 \<and> rq s ! unat c' = 0 then unat c' + 1 else unat c')"
    by (simp add: c_def next_index_def uc' Let_def)
  have one: "queue_length s > 1 \<longleftrightarrow> ?L > 1" by (simp add: word_less_nat_alt)
  have uc1: "unat (c' + 1) = unat c' + 1" using lt L by (simp add: unat_add_lt)
  have pid: "pid < PROCESS_COUNT" unfolding pid_def by (rule queued_pid_lt [OF assms(1)])
  let ?t = "s1\<lparr>current_queue_index := c'\<rparr>"
  have wrap: "(if current_queue_index u \<ge> queue_length u then u\<lparr>current_queue_index := 0\<rparr> else u) = ?t"
    if "u = s1\<lparr>current_queue_index := current_queue_index s + 1\<rparr>" for u
    using that by (simp add: c'_def s1_def save_regs_def)
  have sel: "queue_length s1 = queue_length s" "process_queue s1 = process_queue s" "current_queue_index s1 = current_queue_index s"
    by (simp_all add: s1_def save_regs_def)
  have save: "upd_process (current_pid s) (\<lambda>p. p\<lparr>cpuregs := regs\<rparr>) s = Some s1"
    using L by (simp add: upd_process_def s1_def save_regs_def)
  define skip where "skip \<longleftrightarrow> ?L > 1 \<and> rq s ! unat c' = 0"
  have first: "rq s ! (unat c' mod ?L) = rq s ! unat c'" using lt by simp
  have "schedule regs s = do {
     s \<leftarrow> (if skip then Some (?t\<lparr>current_queue_index := c' + 1, current_pid := rq s ! (unat (c' + 1) mod ?L)\<rparr>)
           else Some (?t\<lparr>current_pid := rq s ! unat c'\<rparr>));
     if current_pid s < PROCESS_COUNT
     then Some (r_esp (cpuregs (processes s (current_pid s))), s\<lparr>cr3 := p_page_dir (processes s (current_pid s))\<rparr>)
     else None }"
    unfolding schedule_def skip_def
    using L(5) save wrap [OF refl] read sel one first by (simp add: Let_def cong: if_cong)
  moreover have "c = unat (c' + 1)" "of_nat c = c' + 1" if skip using that c uc1 by (simp_all add: skip_def)
  moreover have "c = unat c'" "of_nat c = c'" "pid = rq s ! unat c'" if "\<not> skip"
    using that c lt unfolding pid_def skip_def by auto
  ultimately show ?thesis using pid by (cases skip) (simp_all add: pid_def)
qed

lemma schedule_keeps:
  assumes "sched_inv s" "schedule regs s = Some (r, s')"
  shows "sched_inv s'" "rq s' = rq s" "unat (current_queue_index s') = next_index (rq s) (unat (current_queue_index s))"
    "current_pid s' = rq s ! (next_index (rq s) (unat (current_queue_index s)) mod unat (queue_length s))"
proof -
  let ?c = "next_index (rq s) (unat (current_queue_index s))"
  let ?pid = "rq s ! (?c mod unat (queue_length s))"
  let ?s1 = "save_regs regs s"
  have s': "s' = ?s1\<lparr>current_queue_index := of_nat ?c, current_pid := ?pid, cr3 := p_page_dir (processes ?s1 ?pid)\<rparr>"
    using schedule_eq [OF assms(1), of regs] assms(2) by simp
  have L: "0 < unat (queue_length s)" "unat (queue_length s) \<le> 0x10000"
    using assms(1) by (auto simp: sched_inv_def queue_ok_def word_less_nat_alt)
  have le: "?c \<le> unat (queue_length s)" using next_index_le [of "rq s"] L by simp
  then have u: "unat (of_nat ?c :: u32) = ?c" using L by (simp add: unat_of_nat_lt)
  have sel: "queue_length s' = queue_length s" "process_queue s' = process_queue s" "proc_lock s' = proc_lock s"
    by (simp_all add: s' save_regs_def)
  show rq: "rq s' = rq s" by (simp add: rq_def sel)
  show "unat (current_queue_index s') = ?c" using u by (simp add: s')
  show pid: "current_pid s' = ?pid" by (simp add: s')
  have "?pid \<in> set (rq s)" using L by (intro nth_mem) simp
  then have "?pid < PROCESS_COUNT" using assms(1) by (auto simp: sched_inv_def queue_ok_def)
  then show "sched_inv s'"
    using assms(1) le u pid unfolding sched_inv_def queue_ok_def rq sel by (simp add: word_le_nat_alt s')
qed

subsection \<open>Fairness\<close>

lemma next_index_reaches_up:
  assumes "k < length q" "q ! k \<noteq> 0" "c < k"
  shows "\<exists>m. 0 < m \<and> m \<le> k - c \<and> (next_index q ^^ m) c = k"
  using assms
proof (induction "k - c" arbitrary: c rule: less_induct)
  case less
  define d where "d = next_index q c"
  have d: "c < d" "d \<le> k"
    using less.prems by (auto simp: d_def next_index_def Let_def dest: Suc_lessI)
  show ?case
  proof (cases "d = k")
    case True
    then show ?thesis using less.prems by (intro exI [of _ 1]) (simp add: d_def)
  next
    case False
    have "k - d < k - c" using d by simp
    from less.hyps [OF this less.prems(1,2)] False d obtain m
      where m: "0 < m" "m \<le> k - d" "(next_index q ^^ m) d = k" by auto
    then show ?thesis
      using d by (intro exI [of _ "Suc m"]) (simp add: funpow_Suc_right d_def del: funpow.simps)
  qed
qed

lemma next_index_wraps:
  assumes "0 < length q" "c \<le> length q"
  shows "\<exists>m. 0 < m \<and> m \<le> max 1 (length q - c) \<and>
     (next_index q ^^ m) c = (if length q > 1 \<and> q ! 0 = 0 then 1 else 0)"
  using assms(2)
proof (induction "length q - c" arbitrary: c rule: less_induct)
  case less
  show ?case
  proof (cases "c + 1 \<ge> length q")
    case True
    then have "next_index q c = (if length q > 1 \<and> q ! 0 = 0 then 1 else 0)"
      by (simp add: next_index_def Let_def)
    with True less.prems show ?thesis by (intro exI [of _ 1]) auto
  next
    case False
    define d where "d = next_index q c"
    have d: "c < d" "d \<le> length q" using False by (auto simp: d_def next_index_def Let_def)
    then have "length q - d < length q - c" by simp
    from less.hyps [OF this d(2)] obtain m where m: "0 < m" "m \<le> max 1 (length q - d)"
        "(next_index q ^^ m) d = (if length q > 1 \<and> q ! 0 = 0 then 1 else 0)" by blast
    have "Suc m \<le> max 1 (length q - c)" using m(2) d False by auto
    with m show ?thesis
      by (intro exI [of _ "Suc m"]) (simp add: funpow_Suc_right d_def del: funpow.simps)
  qed
qed

lemma next_index_visits:
  assumes "k < length q" "q ! k \<noteq> 0" "c \<le> length q"
  shows "\<exists>m. 0 < m \<and> m \<le> length q \<and> (next_index q ^^ m) c = k"
proof (cases "c < k")
  case True
  with next_index_reaches_up [OF assms(1,2)] assms(1) show ?thesis by fastforce
next
  case False
  define r where "r = (if length q > 1 \<and> q ! 0 = 0 then 1 else 0 :: nat)"
  have "0 < length q" using assms(1) by auto
  from next_index_wraps [OF this assms(3)] obtain m where m: "0 < m" "m \<le> max 1 (length q - c)"
      "(next_index q ^^ m) c = r" unfolding r_def by blast
  have bound: "m + k \<le> length q" using m(2) False assms(1) by auto
  have "r \<le> k" using assms(2) by (cases k) (auto simp: r_def)
  show ?thesis
  proof (cases "r = k")
    case True
    with m bound show ?thesis by (intro exI [of _ m]) auto
  next
    case False
    with \<open>r \<le> k\<close> obtain n where n: "0 < n" "n \<le> k - r" "(next_index q ^^ n) r = k"
      using next_index_reaches_up [OF assms(1,2), of r] by auto
    then have "(next_index q ^^ (n + m)) c = k" using m(3) by (simp add: funpow_add)
    with n bound show ?thesis by (intro exI [of _ "n + m"]) auto
  qed
qed

primrec run_ticks :: "cpu_registers_t list \<Rightarrow> 'a sched_state_scheme \<Rightarrow> 'a sched_state_scheme option" where
  "run_ticks [] s = Some s"
| "run_ticks (regs # rs) s = do { (_, s) \<leftarrow> schedule regs s; run_ticks rs s }"

lemma run_ticks_index:
  assumes "sched_inv s"
  shows "\<exists>s'. run_ticks rs s = Some s' \<and> sched_inv s' \<and> rq s' = rq s \<and>
     unat (current_queue_index s') = (next_index (rq s) ^^ length rs) (unat (current_queue_index s)) \<and>
     (rs \<noteq> [] \<longrightarrow> current_pid s' = rq s ! (unat (current_queue_index s') mod length (rq s)))"
  using assms
proof (induction rs arbitrary: s)
  case (Cons regs rs)
  obtain r t where t: "schedule regs s = Some (r, t)" using schedule_eq [OF Cons.prems, of regs] by blast
  note keep = schedule_keeps [OF Cons.prems t]
  obtain s' where s': "run_ticks rs t = Some s'" "sched_inv s'" "rq s' = rq t"
     "unat (current_queue_index s') = (next_index (rq t) ^^ length rs) (unat (current_queue_index t))"
     "rs \<noteq> [] \<longrightarrow> current_pid s' = rq t ! (unat (current_queue_index s') mod length (rq t))"
    using Cons.IH [OF keep(1)] by blast
  have "current_pid s' = rq s ! (unat (current_queue_index s') mod length (rq s))"
  proof (cases "rs = []")
    case True
    then have "s' = t" using s'(1) by simp
    with keep show ?thesis by simp
  next
    case False
    with s'(5) keep(2) show ?thesis by simp
  qed
  with s' t keep show ?case by (simp add: funpow_Suc_right del: funpow.simps)
qed simp

subsection \<open>Properties of the scheduler\<close>

text \<open>Three runnable processes 0, 5 and 7 in the queue, process 5 running, the heap in use.\<close>

definition sched_example :: sched_state where
  "sched_example = mm_state.extend (mm_example\<lparr>heap_base := 0xd0000000\<rparr>)
     \<lparr>processes = (\<lambda>p. zero_process\<lparr>flags := (flags zero_process)\<lparr>present := p \<in> {0, 5, 7}\<rparr>,
         p_page_dir := 0x10000 + p, parent := 0\<rparr>),
      process_queue = (\<lambda>_. 0)(1 := 5, 2 := 7), active_processes = 3, current_pid = 5,
      queue_length = 3, current_queue_index = 1, proc_lock = \<lparr>lock = False\<rparr>\<rparr>"

lemma sched_example_sel:
  "process_queue sched_example = (\<lambda>_. 0)(1 := 5, 2 := 7)" "queue_length sched_example = 3"
  "current_queue_index sched_example = 1" "current_pid sched_example = 5" "proc_lock sched_example = \<lparr>lock = False\<rparr>"
  by (simp_all add: sched_example_def mm_state.defs)

lemma sched_example_rq: "rq sched_example = [0, 5, 7]"
  by (simp add: rq_def queue_list_def sched_example_sel upt_rec)

lemma sched_example_ok: "queue_ok sched_example" "sched_inv sched_example"
  by (simp_all add: sched_inv_def queue_ok_def sched_example_rq) (simp_all add: sched_example_sel)

text \<open>
  C10. Round robin is fair: with an unchanged queue of \<^verbatim>\<open>queue_length\<close> entries, every queued process
  but the idle one becomes the current process within \<^verbatim>\<open>queue_length\<close> timer ticks, wherever the
  queue index stands and whatever the registers are.
\<close>

theorem schedule_fair:
  assumes "sched_inv s" "k < length (rq s)" "rq s ! k \<noteq> 0" "length rs = length (rq s)"
  shows "\<exists>m s'. 0 < m \<and> m \<le> length (rq s) \<and> run_ticks (take m rs) s = Some s' \<and> current_pid s' = rq s ! k"
proof -
  have "unat (current_queue_index s) \<le> length (rq s)"
    using assms(1) by (simp add: sched_inv_def word_le_nat_alt)
  then obtain m where m: "0 < m" "m \<le> length (rq s)" "(next_index (rq s) ^^ m) (unat (current_queue_index s)) = k"
    using next_index_visits [OF assms(2,3)] by blast
  obtain s' where s': "run_ticks (take m rs) s = Some s'"
     "unat (current_queue_index s') = (next_index (rq s) ^^ length (take m rs)) (unat (current_queue_index s))"
     "take m rs \<noteq> [] \<longrightarrow> current_pid s' = rq s ! (unat (current_queue_index s') mod length (rq s))"
    using run_ticks_index [OF assms(1), of "take m rs"] by blast
  have len: "length (take m rs) = m" using m(2) assms(4) by simp
  then have "take m rs \<noteq> []" using m(1) by auto
  with s'(2,3) m(3) len assms(2) have "current_pid s' = rq s ! k" by simp
  with m s'(1) show ?thesis by blast
qed

theorem schedule_fair_witness:
  "\<exists>m s'. 0 < m \<and> m \<le> 3 \<and> run_ticks (take m [zero_regs, zero_regs, zero_regs]) sched_example = Some s' \<and>
     current_pid s' = 7"
  using schedule_fair [OF sched_example_ok(2), of 2 "[zero_regs, zero_regs, zero_regs]"]
  by (simp add: sched_example_rq numeral_3_eq_3)

text \<open>
  A tick saves the interrupted registers in the process that was running and switches to a
  queued process: its page directory is loaded, its saved stack pointer is returned, and with
  more than one entry in a queue of distinct pids the idle process is never chosen.  No other
  process is touched.
\<close>

theorem schedule_switches:
  assumes "sched_inv s" "distinct (rq s)"
  shows "\<exists>r s'. schedule regs s = Some (r, s') \<and> current_pid s' \<in> set (rq s) \<and> rq s' = rq s \<and> sched_inv s' \<and>
     (length (rq s) > 1 \<longrightarrow> current_pid s' \<noteq> 0) \<and>
     processes s' = (processes s)(current_pid s := (processes s (current_pid s))\<lparr>cpuregs := regs\<rparr>) \<and>
     cr3 s' = p_page_dir (processes s' (current_pid s')) \<and> r = r_esp (cpuregs (processes s' (current_pid s')))"
proof -
  let ?c = "next_index (rq s) (unat (current_queue_index s))" and ?L = "unat (queue_length s)"
  let ?pid = "rq s ! (?c mod ?L)"
  have L: "0 < ?L" using assms(1) by (simp add: sched_inv_def word_less_nat_alt)
  obtain r s' where s': "schedule regs s = Some (r, s')" using schedule_eq [OF assms(1), of regs] by blast
  note keep = schedule_keeps [OF assms(1) s']
  have "?pid \<noteq> 0" if "?L > 1"
  proof -
    define c' where "c' = (if unat (current_queue_index s) + 1 \<ge> ?L then 0 else unat (current_queue_index s) + 1)"
    have lt: "c' < ?L" using L by (simp add: c'_def)
    have c: "?c = (if rq s ! c' = 0 then c' + 1 else c')" using that by (simp add: next_index_def c'_def Let_def)
    show ?thesis
    proof (cases "rq s ! c' = 0")
      case True
      have "(c' + 1) mod ?L \<noteq> c'" using lt that by (cases "c' + 1 = ?L") auto
      moreover have "(c' + 1) mod ?L < ?L" using L by simp
      ultimately show ?thesis using True c lt assms(2) by (metis length_rq nth_eq_iff_index_eq)
    next
      case False
      then show ?thesis using c lt by simp
    qed
  qed
  moreover have "?pid \<in> set (rq s)" using L by (intro nth_mem) simp
  moreover have "processes s' = (processes s)(current_pid s := (processes s (current_pid s))\<lparr>cpuregs := regs\<rparr>)"
      "cr3 s' = p_page_dir (processes s' (current_pid s'))" "r = r_esp (cpuregs (processes s' (current_pid s')))"
    using schedule_eq [OF assms(1), of regs] s' by (auto simp: save_regs_def)
  ultimately show ?thesis using s' keep by auto
qed

theorem schedule_switches_witness:
  "\<exists>r s'. schedule zero_regs sched_example = Some (r, s') \<and> current_pid s' \<noteq> 0 \<and> rq s' = [0, 5, 7]"
  using schedule_switches [OF sched_example_ok(2), of zero_regs] by (auto simp: sched_example_rq)

lemma length_swap_remove [simp]: "length (swap_remove xs k) = length xs - 1"
  by (simp add: swap_remove_def)

lemma swap_remove_set:
  assumes "distinct xs" "k < length xs"
  shows "set (swap_remove xs k) = set xs - {xs ! k}" "distinct (swap_remove xs k)"
proof -
  note m = swap_remove_mset [OF assms(2)]
  have "count (mset xs) x = (if x \<in> set xs then 1 else 0)" for x
    using assms(1) by (simp add: distinct_count_atmost_1)
  then have c: "count (mset (swap_remove xs k)) x = (if x \<in> set xs - {xs ! k} then 1 else 0)" for x
    using assms(2) by (auto simp: m)
  show s: "set (swap_remove xs k) = set xs - {xs ! k}"
  proof (rule set_eqI)
    fix x
    have "x \<in> set (swap_remove xs k) \<longleftrightarrow> count (mset (swap_remove xs k)) x \<noteq> 0" by (simp add: count_mset_0_iff)
    then show "x \<in> set (swap_remove xs k) \<longleftrightarrow> x \<in> set xs - {xs ! k}" unfolding c by simp
  qed
  show "distinct (swap_remove xs k)"
    using c s by (simp add: distinct_count_atmost_1)
qed

lemma remove_process_queue_law:
  assumes "queue_ok s" "distinct (rq s)" "pid \<in> set (rq s)"
  shows "\<exists>s'. remove_process_queue pid s = Some s' \<and> queue_ok s' \<and> distinct (rq s') \<and>
     set (rq s') = set (rq s) - {pid} \<and> length (rq s') = length (rq s) - 1 \<and> processes s' = processes s"
proof -
  obtain k where k: "k < unat (queue_length s)" "rq s ! k = pid" using assms(3) by (auto simp: in_set_conv_nth)
  from remove_process_queue_spec [OF assms(1,2) this] obtain s' where s':
    "remove_process_queue pid s = Some s'" "rq s' = swap_remove (rq s) k" "\<not> lock (proc_lock s')"
    "queue_length s' = queue_length s - 1"
    and eq: "s' = s\<lparr>process_queue := process_queue s', queue_length := queue_length s',
       current_queue_index := current_queue_index s', proc_lock := proc_lock s'\<rparr>" by blast
  have procs: "processes s' = processes s" by (subst eq) simp
  have k': "k < length (rq s)" using k(1) by simp
  note set = swap_remove_set [OF assms(2) k']
  have len: "unat (queue_length s') = unat (queue_length s) - 1"
    using s'(4) k(1) by (simp add: unat_sub word_le_nat_alt)
  then have "queue_ok s'" using assms(1) s'(3) set(1) unfolding queue_ok_def s'(2) by auto
  with s'(1,2) set len k(2) procs show ?thesis by (intro exI [of _ s']) simp
qed

text \<open>
  Removing a queued pid takes out exactly that pid: the queue becomes one shorter, keeps every
  other pid, and stays free of duplicates.
\<close>

theorem remove_process_queue_removes:
  assumes "queue_ok s" "distinct (rq s)" "pid \<in> set (rq s)"
  shows "\<exists>s'. remove_process_queue pid s = Some s' \<and> queue_ok s' \<and> distinct (rq s') \<and>
     set (rq s') = set (rq s) - {pid} \<and> length (rq s') = length (rq s) - 1 \<and> processes s' = processes s"
  by (rule remove_process_queue_law [OF assms])

theorem remove_process_queue_removes_witness:
  "\<exists>s'. remove_process_queue 5 sched_example = Some s' \<and> set (rq s') = {0, 7}"
  using remove_process_queue_removes [OF sched_example_ok(1), of 5] by (auto simp: sched_example_rq)

text \<open>
  Removing a pid that is not queued drops the last entry of the queue: the length is
  decremented before the search result is looked at.  A process that was runnable is then
  never scheduled again.
\<close>

theorem remove_process_queue_absent_drops_last:
  assumes "queue_ok s" "rq s \<noteq> []" "pid \<notin> set (rq s)"
  shows "\<exists>s'. remove_process_queue pid s = Some s' \<and> rq s' = butlast (rq s)"
proof -
  let ?L = "unat (queue_length s)" and ?last = "queue_length s - 1"
  have L: "0 < ?L" "?L \<le> 0x10000" using assms by (auto simp: queue_ok_def simp flip: length_greater_0_conv)
  have ulast: "unat ?last = ?L - 1" using L by (simp add: unat_sub word_le_nat_alt)
  have clear: "queue_clear pid ?L (process_queue s) = (process_queue s, - 1)"
    using assms(3) L by (intro queue_clear_absent) (auto simp: in_set_conv_nth nth_rq)
  have inb: "\<not> ?last \<ge> PROCESS_COUNT" "Suc (unat ?last) = ?L" using L ulast by (simp_all add: word_le_nat_alt)
  have "?last \<noteq> - 1" using inb(1) by auto
  then have "- 1 > ?last" using word_order.not_eq_extremum by blast
  let ?s = "s\<lparr>proc_lock := \<lparr>lock = False\<rparr>, queue_length := ?last\<rparr>"
  have "remove_process_queue pid s = Some ?s"
    using assms(1) clear inb \<open>- 1 > ?last\<close>
    by (simp add: remove_process_queue_def queue_ok_def lock_defs Let_def)
  moreover have "rq ?s = butlast (rq s)"
  proof -
    obtain n where n: "?L = Suc n" using L(1) gr0_implies_Suc by blast
    show ?thesis unfolding rq_def queue_list_def by (simp add: ulast) (simp add: n)
  qed
  ultimately show ?thesis by blast
qed

theorem remove_process_queue_absent_drops_last_witness:
  "\<exists>s'. remove_process_queue 9 sched_example = Some s' \<and> rq s' = [0, 5]"
  using remove_process_queue_absent_drops_last [OF sched_example_ok(1), of 9] by (simp add: sched_example_rq)

subsection \<open>New processes\<close>

text \<open>The slots from \<open>i\<close> around the table up to, not including, the current pid.\<close>

definition round_from :: "nat \<Rightarrow> nat \<Rightarrow> nat set" where
  "round_from cur i = {j. if i < cur then i \<le> j \<and> j < cur else i \<le> j \<and> j < 0x10000 \<or> j < cur}"

lemma slot_search_spec:
  assumes "i < PROCESS_COUNT" "current_pid s < PROCESS_COUNT"
  shows "(\<exists>p. slot_search s i = Some (Some p) \<and> p < PROCESS_COUNT \<and> \<not> present (flags (processes s p))) \<or>
     slot_search s i = Some None \<and>
       (\<forall>p. unat p \<in> round_from (unat (current_pid s)) (unat i) \<longrightarrow> present (flags (processes s p)))"
  using assms
proof (induction s i rule: slot_search.induct)
  case (1 s i)
  let ?cur = "unat (current_pid s)"
  define i' :: u32 where "i' = (if i + 1 \<ge> PROCESS_COUNT then 0 else i + 1)"
  have u: "unat i < 0x10000" "?cur < 0x10000" using "1.prems" by (simp_all add: word_less_nat_alt)
  have guard: "\<not> (i \<ge> PROCESS_COUNT \<or> current_pid s \<ge> PROCESS_COUNT)" using "1.prems" by (simp add: not_le)
  have "unat (i + 1) = Suc (unat i)" by (rule unat_Suc_less [OF "1.prems"(1)])
  then have ui': "unat i' = (if Suc (unat i) \<ge> 0x10000 then 0 else Suc (unat i))"
    unfolding i'_def by (simp add: word_le_nat_alt)
  have step: "slot_search s i = (if \<not> present (flags (processes s i)) then Some (Some i)
      else if i' = current_pid s then Some None else slot_search s i')"
    using guard by (subst slot_search.simps) (simp add: i'_def Let_def)
  show ?case
  proof (cases "present (flags (processes s i))")
    case False
    then show ?thesis using "1.prems"(1) by (simp add: step)
  next
    case True
    show ?thesis
    proof (cases "i' = current_pid s")
      case eq: True
      then have c: "?cur = (if Suc (unat i) \<ge> 0x10000 then 0 else Suc (unat i))" using ui' by simp
      have "p = i" if "unat p \<in> round_from ?cur (unat i)" for p
        using that u unfolding c round_from_def by (simp add: unat_inj [symmetric] split: if_splits)
      with True eq show ?thesis by (auto simp: step)
    next
      case ne: False
      have lt: "i' < PROCESS_COUNT" using ui' u by (auto simp: word_less_nat_alt)
      have IH: "(\<exists>p. slot_search s i' = Some (Some p) \<and> p < PROCESS_COUNT \<and> \<not> present (flags (processes s p))) \<or>
          slot_search s i' = Some None \<and>
          (\<forall>p. unat p \<in> round_from ?cur (unat i') \<longrightarrow> present (flags (processes s p)))"
        using "1.IH" [OF guard _ i'_def ne lt "1.prems"(2)] True by simp
      have "unat i' \<noteq> ?cur" using ne by (simp add: unat_inj)
      then have "p = i \<or> unat p \<in> round_from ?cur (unat i')" if "unat p \<in> round_from ?cur (unat i)" for p
        using that u unfolding ui' round_from_def unat_inj [symmetric, of p i]
        by (simp split: if_splits) linarith+
      with IH True ne show ?thesis by (auto simp: step)
    qed
  qed
qed

lemma slot_search_current:
  assumes "current_pid s < PROCESS_COUNT"
  shows "(\<exists>p. slot_search s (current_pid s) = Some (Some p) \<and> p < PROCESS_COUNT \<and> \<not> present (flags (processes s p))) \<or>
     slot_search s (current_pid s) = Some None \<and> (\<forall>p < PROCESS_COUNT. present (flags (processes s p)))"
proof -
  have "unat p \<in> round_from (unat (current_pid s)) (unat (current_pid s))" if "p < PROCESS_COUNT" for p
    using that assms by (auto simp: round_from_def word_less_nat_alt)
  with slot_search_spec [OF assms assms] show ?thesis by blast
qed

lemma heap_alloc_frame:
  assumes "heap_alloc n s = Some (a, s')"
  shows "\<exists>m l. s' = s\<lparr>heap_map := m, heap_lock := l\<rparr>"
proof -
  have set: "\<exists>m. set_heap_index i f t = t\<lparr>heap_map := m\<rparr>" for i f and t :: "'a heap_state_scheme"
  proof (cases "i < heap_max_index t")
    case False
    then show ?thesis by (intro exI [of _ "heap_map t"]) (simp add: set_heap_index_def)
  qed (auto simp: set_heap_index_def Let_def)
  have mark: "\<exists>m. fold (\<lambda>i. set_heap_index (k + of_nat i) (heap_page_flags n (of_nat i))) xs t = t\<lparr>heap_map := m\<rparr>"
    for k xs and t :: "'a heap_state_scheme"
  proof (induction xs arbitrary: t)
    case Nil
    show ?case by (intro exI [of _ "heap_map t"]) simp
  next
    case (Cons x xs)
    obtain m where m: "set_heap_index (k + of_nat x) (heap_page_flags n (of_nat x)) t = t\<lparr>heap_map := m\<rparr>" using set by blast
    with Cons [of "t\<lparr>heap_map := m\<rparr>"] show ?case by auto
  qed
  from assms obtain r where r: "s' = s\<lparr>heap_lock := \<lparr>lock = False\<rparr>\<rparr> \<or>
      s' = (heap_mark r n (s\<lparr>heap_lock := \<lparr>lock = True\<rparr>\<rparr>))\<lparr>heap_lock := \<lparr>lock = False\<rparr>\<rparr>"
    by (auto simp: heap_alloc_def spinlock_acquire_eq spinlock_release_eq Let_def split: if_splits bind_splits)
  then show ?thesis
  proof
    assume "s' = s\<lparr>heap_lock := \<lparr>lock = False\<rparr>\<rparr>"
    then show ?thesis by (intro exI [of _ "heap_map s"] exI [of _ "\<lparr>lock = False\<rparr>"]) simp
  next
    assume "s' = (heap_mark r n (s\<lparr>heap_lock := \<lparr>lock = True\<rparr>\<rparr>))\<lparr>heap_lock := \<lparr>lock = False\<rparr>\<rparr>"
    moreover obtain m where "heap_mark r n (s\<lparr>heap_lock := \<lparr>lock = True\<rparr>\<rparr>) = s\<lparr>heap_lock := \<lparr>lock = True\<rparr>, heap_map := m\<rparr>"
      using mark [of r "[0..<unat n]" "s\<lparr>heap_lock := \<lparr>lock = True\<rparr>\<rparr>"] by (auto simp: heap_mark_def)
    ultimately show ?thesis by (intro exI [of _ m] exI [of _ "\<lparr>lock = False\<rparr>"]) simp
  qed
qed

lemma heap_cong:
  assumes "heap_map t = heap_map s" "heap_map_size t = heap_map_size s"
  shows "heap_rep B t = heap_rep B s" "heap_pages t = heap_pages s"
proof -
  have "get_heap_index t i = get_heap_index s i" for i
    using assms by (simp add: get_heap_index_def heap_max_index_def)
  moreover show "heap_pages t = heap_pages s" using assms by (simp add: heap_pages_def heap_max_index_def)
  ultimately show "heap_rep B t = heap_rep B s" by (simp add: heap_rep_def)
qed

text \<open>
  While the table has a free slot, the queue room, and the heap a free page,
  \<^verbatim>\<open>spawn_new_process\<close> takes a slot that was not in use, fills it, and appends its pid to the queue;
  no other process changes.  With every slot in use it returns -1 and leaves table and queue
  as they were.
\<close>

theorem spawn_new_process_takes_free_slot:
  assumes heap: "kheap_ready s" "heap_rep B s" "gap B (heap_pages s) b 1"
    and queue: "queue_ok s" "unat (queue_length s) < 0x10000" and cur: "current_pid s < PROCESS_COUNT"
  shows "\<exists>pid s'. spawn_new_process regs argv argc cr s = Some (pid, s') \<and>
     (if \<forall>p < PROCESS_COUNT. present (flags (processes s p))
      then pid = - 1 \<and> processes s' = processes s \<and> rq s' = rq s
      else pid < PROCESS_COUNT \<and> \<not> present (flags (processes s pid)) \<and> rq s' = rq s @ [pid] \<and> queue_ok s' \<and>
        present (flags (processes s' pid)) \<and> cpuregs (processes s' pid) = regs \<and>
        p_page_dir (processes s' pid) = cr \<and> parent (processes s' pid) = current_pid s \<and>
        (\<forall>q. q \<noteq> pid \<longrightarrow> processes s' q = processes s q))"
proof -
  let ?s1 = "s\<lparr>proc_lock := \<lparr>lock = True\<rparr>\<rparr>"
  have lock: "\<not> lock (proc_lock s)" using queue(1) by (simp add: queue_ok_def)
  have cur1: "current_pid ?s1 < PROCESS_COUNT" using cur by simp
  from slot_search_current [OF cur1] show ?thesis
  proof (elim disjE exE conjE)
    fix i assume i: "slot_search ?s1 (current_pid ?s1) = Some (Some i)" "i < PROCESS_COUNT"
      "\<not> present (flags (processes ?s1 i))"
    let ?s2 = "?s1\<lparr>active_processes := active_processes s + 1\<rparr>"
    have h2: "kheap_ready ?s2" "heap_rep B ?s2" "gap B (heap_pages ?s2) b (unat (1 :: u32))" "(0 :: u32) < 1"
      using heap heap_cong [of ?s2 s] by (simp_all add: kheap_ready_def heap_ready_def)
    obtain fd s3 where s3: "kmalloc 1 ?s2 = Some (fd, s3)" using kmem.alloc_law [OF h2(1,2,4,3)] by blast
    have "heap_alloc 1 ?s2 = Some (fd, s3)" using s3 heap(1) by (simp add: kmalloc_def kheap_ready_def)
    then obtain m l where m: "s3 = ?s2\<lparr>heap_map := m, heap_lock := l\<rparr>" using heap_alloc_frame by blast
    define np where "np = zero_process\<lparr>p_argc := argc, p_argv := argv, p_page_dir := cr,
      cpuregs := regs, parent := current_pid s,
      flags := \<lparr>blocked = False, system = system (flags (processes s (current_pid s))),
        cpu_lvl = True, priority = 0, present = True, ran = False\<rparr>,
      file_descriptors := fd, max_descriptors := DEFAULT_FD_MAX\<rparr>"
    define s4 where "s4 = s3\<lparr>processes := (processes s)(i := np), proc_lock := \<lparr>lock = False\<rparr>,
        process_queue := (process_queue s)(queue_length s := i), queue_length := queue_length s + 1\<rparr>"
    have lt: "queue_length s < PROCESS_COUNT" using queue(2) by (simp add: word_less_nat_alt)
    have run: "spawn_new_process regs argv argc cr s = Some (i, s4)"
      using lock i s3 lt
      by (simp add: spawn_new_process_def lock_defs upd_process_def add_process_queue_nolock_def m s4_def np_def Let_def)
    obtain s5 where s5: "add_process_queue i s = Some s5" "rq s5 = rq s @ [i]" "queue_ok s5"
      using add_process_queue_spec [OF queue i(2)] by blast
    have same: "process_queue s5 = process_queue s4" "queue_length s5 = queue_length s4" "proc_lock s5 = proc_lock s4"
      using s5(1) lock lt by (auto simp: add_process_queue_def add_process_queue_nolock_def lock_defs s4_def)
    have "rq s4 = rq s @ [i]" using s5(2) same by (simp add: rq_def)
    moreover have "queue_ok s4" using s5(2,3) same calculation by (simp add: queue_ok_def)
    moreover have "present (flags (processes s4 i)) \<and> cpuregs (processes s4 i) = regs \<and>
        p_page_dir (processes s4 i) = cr \<and> parent (processes s4 i) = current_pid s"
      "\<forall>q. q \<noteq> i \<longrightarrow> processes s4 q = processes s q"
      by (simp_all add: s4_def np_def)
    ultimately show ?thesis using run i(2,3) by (intro exI [of _ i] exI [of _ s4]) auto
  next
    assume full: "slot_search ?s1 (current_pid ?s1) = Some None" "\<forall>p < PROCESS_COUNT. present (flags (processes ?s1 p))"
    have "spawn_new_process regs argv argc cr s = Some (- 1, s\<lparr>proc_lock := \<lparr>lock = False\<rparr>\<rparr>)"
      using lock full(1) by (simp add: spawn_new_process_def lock_defs)
    then show ?thesis using full(2) by (simp add: rq_def)
  qed
qed

theorem spawn_new_process_takes_free_slot_witness:
  "\<exists>pid s'. spawn_new_process zero_regs 0 0 0x20000 sched_example = Some (pid, s') \<and>
     pid \<notin> {0, 5, 7} \<and> rq s' = [0, 5, 7, pid]"
proof -
  note defs = sched_example_def mm_example_def heap_example_def mm_state.defs heap_state.defs pm_state.defs
  have h: "kheap_ready sched_example" "heap_rep Map.empty sched_example" "gap Map.empty (heap_pages sched_example) 0 1"
    by (simp_all add: kheap_ready_def heap_ready_def heap_rep_def gap_def covered_def heap_pages_def
        heap_max_index_def get_heap_index_def) (simp_all add: defs)
  have procs: "present (flags (processes sched_example p)) \<longleftrightarrow> p \<in> {0, 5, 7}" for p by (simp add: defs)
  have "\<not> (\<forall>p < PROCESS_COUNT. present (flags (processes sched_example p)))"
    unfolding procs by (auto intro: exI [of _ 1])
  moreover have "unat (queue_length sched_example) < 0x10000" "current_pid sched_example < PROCESS_COUNT"
    by (simp_all add: sched_example_sel)
  ultimately obtain pid s' where "spawn_new_process zero_regs 0 0 0x20000 sched_example = Some (pid, s')"
      "\<not> present (flags (processes sched_example pid))" "rq s' = rq sched_example @ [pid]"
    using spawn_new_process_takes_free_slot [OF h sched_example_ok(1), of zero_regs 0 0 "0x20000"]
    by (simp only: if_False) blast
  then show ?thesis unfolding procs by (simp add: sched_example_rq)
qed

text \<open>
  \<^verbatim>\<open>thread_exit\<close> wakes the parent without asking whether it was blocked.  When the parent is still
  queued it is queued a second time, and then gets two turns in every round.
\<close>

theorem thread_exit_duplicates_parent:
  assumes inv: "sched_inv s" and dist: "distinct (rq s)" and cur: "current_pid s \<in> set (rq s)"
    and par: "parent (processes s (current_pid s)) = p" "p \<in> set (rq s)" "p \<noteq> current_pid s"
  shows "\<exists>r s'. thread_exit code regs s = Some (r, s') \<and> count (mset (rq s')) p = 2"
proof -
  let ?c = "current_pid s"
  have ok: "queue_ok s" "?c < PROCESS_COUNT" "p < PROCESS_COUNT" "current_queue_index s \<le> queue_length s"
    using inv par(2) by (auto simp: sched_inv_def queue_ok_def)
  define s1 where "s1 = s\<lparr>processes := (processes s)(?c := (processes s ?c)
      \<lparr>flags := (flags (processes s ?c))\<lparr>present := False\<rparr>, exit_value := code\<rparr>)\<rparr>"
  have s1: "queue_ok s1" "rq s1 = rq s" "current_pid s1 = ?c" "queue_length s1 = queue_length s"
      "current_queue_index s1 = current_queue_index s" "parent (processes s1 ?c) = p"
    using ok par by (simp_all add: s1_def queue_ok_def rq_def)
  obtain k where k: "k < unat (queue_length s1)" "rq s1 ! k = ?c"
    using cur s1(2,4) by (auto simp: in_set_conv_nth)
  obtain s2 where s2: "remove_process_queue ?c s1 = Some s2" "rq s2 = swap_remove (rq s) k" "\<not> lock (proc_lock s2)"
      "queue_length s2 = queue_length s - 1" "current_queue_index s2 \<le> current_queue_index s"
    and eq: "s2 = s1\<lparr>process_queue := process_queue s2, queue_length := queue_length s2,
       current_queue_index := current_queue_index s2, proc_lock := proc_lock s2\<rparr>"
    using remove_process_queue_spec [OF s1(1) _ k] dist s1 by metis
  have keep2: "processes s2 = processes s1" "current_pid s2 = ?c" using s1(3) by (subst eq, simp)+
  have k': "k < length (rq s)" "rq s ! k = ?c" using k s1(2,4) by simp_all
  note set2 = swap_remove_set [OF dist k'(1)]
  have len2: "unat (queue_length s2) = unat (queue_length s) - 1"
    using s2(4) k'(1) by (simp add: unat_sub word_le_nat_alt)
  have ok2: "queue_ok s2" using ok(1) s2(2,3) set2(1) len2 by (auto simp: queue_ok_def)
  define s3 where "s3 = s2\<lparr>processes := (processes s2)(p := (processes s2 p)
      \<lparr>flags := (flags (processes s2 p))\<lparr>blocked := False\<rparr>\<rparr>)\<rparr>"
  have s3: "queue_ok s3" "rq s3 = rq s2" "current_pid s3 = ?c" "queue_length s3 = queue_length s2"
      "current_queue_index s3 = current_queue_index s2"
    using ok2 keep2 by (simp_all add: s3_def queue_ok_def rq_def)
  have room: "unat (queue_length s3) < 0x10000" using len2 s3(4) k'(1) ok(1) by (auto simp: queue_ok_def)
  obtain s4 where s4: "add_process_queue p s3 = Some s4" "rq s4 = rq s3 @ [p]" "queue_ok s4"
    and eq4: "s4 = s3\<lparr>process_queue := process_queue s4, queue_length := queue_length s4, proc_lock := proc_lock s4\<rparr>"
    using add_process_queue_spec [OF s3(1) room ok(3)] by blast
  have keep4: "current_pid s4 = ?c" "current_queue_index s4 = current_queue_index s2" using s3 by (subst eq4, simp)+
  have len4: "unat (queue_length s4) = unat (queue_length s)"
    using arg_cong [OF s4(2), of length] s3(4) len2 k'(1) by simp
  have "sched_inv s4"
    using s4(3) keep4 ok s2(5) len4 k'(1) by (auto simp: sched_inv_def word_le_nat_alt word_less_nat_alt)
  then obtain r s5 where s5: "schedule regs s4 = Some (r, s5)" "rq s5 = rq s4"
    using schedule_eq [of s4 regs] schedule_keeps(2) [of s4 regs] by blast
  have upd: "upd_process ?c (\<lambda>p. p\<lparr>flags := flags p\<lparr>present := False\<rparr>, exit_value := code\<rparr>) s = Some s1"
      "upd_process p (\<lambda>p. p\<lparr>flags := flags p\<lparr>blocked := False\<rparr>\<rparr>) s2 = Some s3"
    using ok by (simp_all add: upd_process_def s1_def s3_def)
  have "thread_exit code regs s = Some (r, s5)"
    using upd s1(3,6) s2(1) s4(1) s5(1) keep2 by (simp add: thread_exit_def set_pid_unblocked_def)
  moreover have "count (mset (rq s5)) p = 2"
  proof -
    have "p \<in> set (rq s2)" using set2 s2(2) par(2,3) k'(2) by simp
    moreover have "distinct (rq s2)" using set2 s2(2) by simp
    ultimately have "count (mset (rq s2)) p = 1" by (simp add: distinct_count_atmost_1)
    then show ?thesis using s5(2) s4(2) s3(2) by simp
  qed
  ultimately show ?thesis by blast
qed

theorem thread_exit_duplicates_parent_witness:
  "\<exists>r s'. thread_exit 0 zero_regs sched_example = Some (r, s') \<and> count (mset (rq s')) 0 = 2"
proof (rule thread_exit_duplicates_parent [OF sched_example_ok(2)])
  show "parent (processes sched_example (current_pid sched_example)) = 0"
    by (simp add: sched_example_def mm_state.defs)
qed (simp_all add: sched_example_rq sched_example_sel)

subsection \<open>The contract of the run queue\<close>

locale pid_queue =
  fixes queue :: "'s \<Rightarrow> u32 list"
    and ok :: "'s \<Rightarrow> bool"
    and add :: "u32 \<Rightarrow> 's \<Rightarrow> 's option"
    and remove :: "u32 \<Rightarrow> 's \<Rightarrow> 's option"
  assumes add_law: "ok s \<Longrightarrow> length (queue s) < 0x10000 \<Longrightarrow> p < PROCESS_COUNT \<Longrightarrow>
      \<exists>s'. add p s = Some s' \<and> ok s' \<and> queue s' = queue s @ [p]"
    and remove_law: "ok s \<Longrightarrow> distinct (queue s) \<Longrightarrow> p \<in> set (queue s) \<Longrightarrow>
      \<exists>s'. remove p s = Some s' \<and> ok s' \<and> distinct (queue s') \<and> set (queue s') = set (queue s) - {p} \<and>
        length (queue s') = length (queue s) - 1"
    and ok_bound: "ok s \<Longrightarrow> length (queue s) \<le> 0x10000 \<and> (\<forall>p \<in> set (queue s). p < PROCESS_COUNT)"
begin

lemma remove_then_add:
  assumes "ok s" "distinct (queue s)" "p \<in> set (queue s)"
    and same: "\<And>t. ok t \<Longrightarrow> ok (f t) \<and> queue (f t) = queue t"
  shows "\<exists>s1 s2. remove p s = Some s1 \<and> add p (f s1) = Some s2 \<and> ok s2 \<and> distinct (queue s2) \<and>
     set (queue s2) = set (queue s) \<and> last (queue s2) = p"
proof -
  obtain s1 where s1: "remove p s = Some s1" "ok s1" "distinct (queue s1)" "set (queue s1) = set (queue s) - {p}"
      "length (queue s1) = length (queue s) - 1"
    using remove_law [OF assms(1-3)] by blast
  have "queue s \<noteq> []" using assms(3) by auto
  then have "length (queue s1) < length (queue s)" using s1(5) by (cases "queue s") auto
  then have room: "length (queue (f s1)) < 0x10000" and f: "ok (f s1)" "queue (f s1) = queue s1"
    using ok_bound [OF assms(1)] same [OF s1(2)] by auto
  have "p < PROCESS_COUNT" using ok_bound [OF assms(1)] assms(3) by blast
  then obtain s2 where "add p (f s1) = Some s2" "ok s2" "queue s2 = queue s1 @ [p]"
    using add_law [OF f(1) room] f(2) by auto
  with s1 assms(3) show ?thesis by auto
qed

end

interpretation run_queue: pid_queue
  "rq :: 'a sched_state_scheme \<Rightarrow> u32 list" queue_ok add_process_queue remove_process_queue
proof
  fix s :: "'a sched_state_scheme" and p :: u32
  assume ok: "queue_ok s"
  then show "length (rq s) \<le> 0x10000 \<and> (\<forall>p \<in> set (rq s). p < PROCESS_COUNT)" by (simp add: queue_ok_def)
  show "\<exists>s'. add_process_queue p s = Some s' \<and> queue_ok s' \<and> rq s' = rq s @ [p]"
    if "length (rq s) < 0x10000" "p < PROCESS_COUNT"
    using add_process_queue_spec [OF ok _ that(2)] that(1) by auto
  show "\<exists>s'. remove_process_queue p s = Some s' \<and> queue_ok s' \<and> distinct (rq s') \<and>
      set (rq s') = set (rq s) - {p} \<and> length (rq s') = length (rq s) - 1"
    if "distinct (rq s)" "p \<in> set (rq s)"
    using remove_process_queue_law [OF ok that] by blast
qed

text \<open>
  Blocking a queued process and unblocking it again restores the set of queued pids without
  duplicates; the process is then last in the queue.
\<close>

theorem block_unblock_restores_queue:
  assumes "queue_ok s" "distinct (rq s)" "pid \<in> set (rq s)"
  shows "\<exists>s1 s2. set_pid_blocked pid s = Some s1 \<and> set_pid_unblocked pid s1 = Some s2 \<and> queue_ok s2 \<and>
     distinct (rq s2) \<and> set (rq s2) = set (rq s) \<and> last (rq s2) = pid"
proof -
  have lt: "pid < PROCESS_COUNT" using assms(1,3) by (auto simp: queue_ok_def)
  define g where "g b t = t\<lparr>processes := (processes t)(pid := (processes t pid)
      \<lparr>flags := (flags (processes t pid))\<lparr>blocked := b\<rparr>\<rparr>)\<rparr>" for b and t :: "'a sched_state_scheme"
  have g: "rq (g b t) = rq t" "queue_ok (g b t) = queue_ok t" for b t
    by (simp_all add: g_def rq_def queue_ok_def)
  have "\<exists>s1 s2. remove_process_queue pid (g True s) = Some s1 \<and> add_process_queue pid (g False s1) = Some s2 \<and>
      queue_ok s2 \<and> distinct (rq s2) \<and> set (rq s2) = set (rq (g True s)) \<and> last (rq s2) = pid"
    by (rule run_queue.remove_then_add) (use assms g in auto)
  then show ?thesis
    using lt unfolding set_pid_blocked_def set_pid_unblocked_def upd_process_def g_def [symmetric]
    by (auto simp: g)
qed

theorem block_unblock_restores_queue_witness:
  "\<exists>s1 s2. set_pid_blocked 5 sched_example = Some s1 \<and> set_pid_unblocked 5 s1 = Some s2 \<and>
     set (rq s2) = {0, 5, 7} \<and> last (rq s2) = 5"
  using block_unblock_restores_queue [OF sched_example_ok(1), of 5] by (auto simp: sched_example_rq)

subsection \<open>Releasing an address space\<close>

lemma load32_cong:
  assumes "phys t = phys s" "cr3 t = cr3 s"
  shows "load32 v t = load32 v s"
proof -
  have "mmu_walk t v = mmu_walk s v" using assms by (simp add: mmu_walk_def Let_def)
  then show ?thesis using assms(1) by (simp add: load32_def)
qed

text \<open>
  The loop of \<^verbatim>\<open>kill\<close> over a page table frees exactly the frames its 1024 entries name.  It does
  not skip unused entries: a table with a free slot makes it release frame 0, which \<^verbatim>\<open>pm_init\<close> had
  reserved and whose address doubles as the failure value of \<^verbatim>\<open>pm_alloc\<close>.
\<close>

theorem free_table_releases_listed_frames:
  assumes "pm_ready s" "\<forall>j < 1024. load32 (pt + of_nat j * 4) s = Some (e j)"
  shows "\<exists>s'. free_table pt s = Some s' \<and> pm_ready s' \<and>
     used_frames s' = used_frames s - {page_base (e j) | j. j < 1024} \<and>
     ((\<exists>j < 1024. e j = 0) \<longrightarrow> 0 \<notin> used_frames s')"
proof -
  define P where "P n t \<longleftrightarrow> pm_ready t \<and> phys t = phys s \<and> cr3 t = cr3 s \<and>
      used_frames t = used_frames s - {page_base (e j) | j. j < n}" for n :: nat and t :: "'a mm_state_scheme"
  have "\<exists>s'. fold_opt (\<lambda>j s. do { e \<leftarrow> load32 (pt + of_nat j * 4) s; pm_free (page_base e) s }) [0..<1024] s = Some s' \<and>
      P 1024 s'"
  proof (rule fold_opt_invariant)
    show "P 0 s" using assms(1) by (simp add: P_def)
    fix j and t :: "'a mm_state_scheme" assume j: "j < 1024" and t: "P j t"
    have ld: "load32 (pt + of_nat j * 4) t = Some (e j)"
      using load32_cong [of t s] t assms(2) j by (simp add: P_def)
    have ready: "pm_ready t" using t by (simp add: P_def)
    let ?t = "t\<lparr>pm_map := pm_unmark (page_base (e j)) (pm_map t),
        pm_first_free := min (drop_bit 15 (page_base (e j))) (pm_first_free t), pm_lock := \<lparr>lock = False\<rparr>\<rparr>"
    have "used_frames ?t = used_frames t - {page_base (e j)}"
      by (auto simp: used_frames_def pm_used_unmark page_base_id)
    also have "\<dots> = used_frames s - {page_base (e i) | i. i < Suc j}"
      using t by (auto simp: P_def less_Suc_eq)
    finally have "P (Suc j) ?t" using t by (simp add: P_def pm_ready_def)
    then show "\<exists>u. do { e \<leftarrow> load32 (pt + of_nat j * 4) t; pm_free (page_base e) t } = Some u \<and> P (Suc j) u"
      using ld pm_free_eq [OF ready, of "page_base (e j)"] by simp
  qed
  then obtain s' where s': "free_table pt s = Some s'" "P 1024 s'" unfolding free_table_def by blast
  have "0 \<notin> used_frames s'" if "j < 1024" "e j = 0" for j
  proof -
    have "page_base (e j) = 0" using that(2) by (simp add: page_base_def)
    with that(1) s'(2) show ?thesis by (auto simp: P_def)
  qed
  with s' show ?thesis by (auto simp: P_def)
qed

theorem free_table_releases_listed_frames_witness:
  "\<exists>s'. free_table 0xfffff000 mm_example = Some s' \<and> 0 \<notin> used_frames s'"
proof -
  have "load32 (0xfffff000 + of_nat j * 4) mm_example = Some (page_dir mm_example j)" if "j < 1024" for j
  proof -
    have u: "unat (of_nat j :: u32) = j" "(of_nat j :: u32) < 0x400"
      using that by (simp_all add: unat_of_nat_lt word_less_nat_alt)
    then show ?thesis using load_pd_slot [OF mm_example_wf, of "of_nat j"] by (simp add: pd_slot_def)
  qed
  moreover have "page_dir mm_example 0 = 0" by (simp add: mm_example_dir)
  moreover have "pm_ready mm_example" using mm_example_ok by (simp add: mm_ok_def)
  ultimately obtain s' where "free_table 0xfffff000 mm_example = Some s'"
      "(\<exists>j < 1024. page_dir mm_example j = 0) \<longrightarrow> 0 \<notin> used_frames s'"
    using free_table_releases_listed_frames [of mm_example "0xfffff000" "page_dir mm_example"] by blast
  moreover have "\<exists>j < 1024. page_dir mm_example j = 0" by (intro exI [of _ 0]) (simp add: mm_example_dir)
  ultimately show ?thesis by blast
qed

subsection \<open>The memory operations leave the scheduler alone\<close>

named_theorems keeps

lemma fold_opt_keeps:
  assumes "fold_opt f xs s = Some s'" "\<And>x t t'. f x t = Some t' \<Longrightarrow> g t' = g t"
  shows "g s' = g s"
  using fold_opt_preserves [OF assms(1), of "\<lambda>t. g t = g s"] assms(2) by auto

lemma pm_keeps [keeps]:
  fixes s s' :: "'a mm_state_scheme"
  shows "pm_alloc s = Some (a, s') \<Longrightarrow> mm_state.more s' = mm_state.more s"
    "pm_free a s = Some s' \<Longrightarrow> mm_state.more s' = mm_state.more s"
  by (auto simp: pm_alloc_def pm_free_def Let_def split: bind_splits option.splits if_splits)

lemma heap_mark_keeps: "mm_state.more (heap_mark i n s) = mm_state.more s" for s :: "'a mm_state_scheme"
proof -
  have "mm_state.more (fold (\<lambda>i s. set_heap_index (j + of_nat i) (f i) s) xs s) = mm_state.more s" for f j xs and s :: "'a mm_state_scheme"
    by (induction xs arbitrary: s) (simp_all add: set_heap_index_def Let_def)
  then show ?thesis by (simp add: heap_mark_def)
qed

lemma heap_block_clear_keeps: "mm_state.more (heap_block_clear i s) = mm_state.more s" for s :: "'a mm_state_scheme"
proof (induction i s rule: heap_block_clear.induct)
  case (1 i s)
  then show ?case by (subst heap_block_clear.simps) (simp add: Let_def set_heap_index_def)
qed

lemma heap_keeps [keeps]:
  fixes s s' :: "'a mm_state_scheme"
  shows "heap_alloc n s = Some (a, s') \<Longrightarrow> mm_state.more s' = mm_state.more s"
    "heap_free a s = Some s' \<Longrightarrow> mm_state.more s' = mm_state.more s"
  by (auto simp: heap_alloc_def heap_free_def heap_mark_keeps heap_block_clear_keeps Let_def split: bind_splits if_splits)

lemma store_keeps [keeps]: "store32 v x s = Some s' \<Longrightarrow> mm_state.more s' = mm_state.more s"
  by (auto simp: store32_def split: bind_splits)

lemma fold_store_keeps [keeps]:
  "fold_opt (\<lambda>i. store32 (f i) (g i)) xs s = Some s' \<Longrightarrow> mm_state.more s' = mm_state.more s"
  by (erule fold_opt_keeps) (rule store_keeps)

lemma map_keeps [keeps]:
  "map_page v p f s = Some s' \<Longrightarrow> mm_state.more s' = mm_state.more s"
  "unmap v s = Some s' \<Longrightarrow> mm_state.more s' = mm_state.more s"
  by (auto simp: map_page_def unmap_def Let_def dest!: keeps split: bind_splits if_splits)

lemma fold_map_keeps [keeps]:
  "fold_opt (\<lambda>j. map_page (f j) (g j) (h j)) xs s = Some s' \<Longrightarrow> mm_state.more s' = mm_state.more s"
  by (erule fold_opt_keeps) (rule map_keeps)

lemma kmalloc_page_paddr_keeps [keeps]:
  "kmalloc_page_paddr p n s = Some (a, s') \<Longrightarrow> mm_state.more s' = mm_state.more s"
  by (auto simp: kmalloc_page_paddr_def Let_def dest!: keeps split: bind_splits option.splits)

lemma block_release_keeps [keeps]:
  assumes "block_release a s = Some s'"
  shows "mm_state.more s' = mm_state.more s"
proof (rule block_release.raw_induct [where P = "\<lambda>a s s'. mm_state.more s' = mm_state.more s", OF _ assms])
  fix loop and a :: u32 and s s' :: "'a mm_state_scheme"
  assume IH: "\<And>a s s'. loop a s = Some s' \<Longrightarrow> mm_state.more s' = mm_state.more (s :: 'a mm_state_scheme)"
    and step: "do {
       flags \<leftarrow> get_pflags a s;
       paddr \<leftarrow> get_paddr a s;
       s \<leftarrow> unmap a s;
       s \<leftarrow> pm_free paddr s;
       if flags AND PT_LINK_N = 0 then Some s else loop (a + 0x1000) s
     } = Some s'"
  then show "mm_state.more s' = mm_state.more s" by (auto dest!: keeps IH split: bind_splits if_splits)
qed

lemma kfree_keeps [keeps]: "kfree a s = Some s' \<Longrightarrow> mm_state.more s' = mm_state.more s"
  by (auto simp: kfree_def Let_def dest!: keeps split: bind_splits if_splits)

lemma kmalloc_map_keeps [keeps]: "kmalloc_map n i js s = Some (b, s') \<Longrightarrow> mm_state.more s' = mm_state.more s"
proof (induction js arbitrary: s)
  case (Cons j js)
  from Cons.prems show ?case by (auto dest!: keeps Cons.IH split: bind_splits if_splits)
qed simp

lemma kmalloc_keeps [keeps]: "kmalloc n s = Some (a, s') \<Longrightarrow> mm_state.more s' = mm_state.more s"
  by (auto simp: kmalloc_def Let_def dest!: keeps split: bind_splits if_splits option.splits)

lemma store8_keeps [keeps]: "store8 v x s = Some s' \<Longrightarrow> mm_state.more s' = mm_state.more s"
  by (auto simp: store8_def dest!: keeps split: bind_splits)

lemma fold_store8_keeps [keeps]:
  "fold_opt (\<lambda>i. store8 (f i) (g i)) xs s = Some s' \<Longrightarrow> mm_state.more s' = mm_state.more s"
  by (erule fold_opt_keeps) (rule store8_keeps)

lemma copy_keeps [keeps]:
  "memcpy src dest c s = Some s' \<Longrightarrow> mm_state.more s' = mm_state.more s"
  "memclr p c s = Some s' \<Longrightarrow> mm_state.more s' = mm_state.more s"
  "store_regs dest r s = Some s' \<Longrightarrow> mm_state.more s' = mm_state.more s"
proof -
  show "memcpy src dest c s = Some s' \<Longrightarrow> mm_state.more s' = mm_state.more s"
    unfolding memcpy_def by (erule fold_opt_keeps) (auto dest!: keeps split: bind_splits)
  show "memclr p c s = Some s' \<Longrightarrow> mm_state.more s' = mm_state.more s"
    unfolding memclr_def by (auto dest!: keeps split: if_splits)
  show "store_regs dest r s = Some s' \<Longrightarrow> mm_state.more s' = mm_state.more s"
    unfolding store_regs_def by (rule keeps)
qed

lemma dup_page_keeps: "dup_page i old new j s = Some s' \<Longrightarrow> mm_state.more s' = mm_state.more s"
  by (auto simp: dup_page_def dest!: keeps split: bind_splits if_splits)

lemma fold_dup_page_keeps [keeps]: "fold_opt (dup_page i old new) xs s = Some s' \<Longrightarrow> mm_state.more s' = mm_state.more s"
  by (erule fold_opt_keeps) (rule dup_page_keeps)

lemma dup_table_keeps: "dup_table pd i s = Some s' \<Longrightarrow> mm_state.more s' = mm_state.more s"
  by (auto simp: dup_table_def dest!: keeps split: bind_splits if_splits)

lemma fold_dup_table_keeps [keeps]: "fold_opt (dup_table pd) xs s = Some s' \<Longrightarrow> mm_state.more s' = mm_state.more s"
  by (erule fold_opt_keeps) (rule dup_table_keeps)

lemma fold_copy_keeps [keeps]:
  "fold_opt (\<lambda>i s. do { e \<leftarrow> load32 (f i) s; store32 (g i) e s }) xs s = Some s' \<Longrightarrow> mm_state.more s' = mm_state.more s"
  by (erule fold_opt_keeps) (auto dest!: keeps split: bind_splits)

lemma mapdup_full_keeps [keeps]:
  assumes "mapdup_full pd s = Some s'"
  shows "mm_state.more s' = mm_state.more s"
proof -
  obtain s1 s2 s3 s4 e p where t: "memclr pd PAGE_SIZE_BYTES s = Some s1" "fold_opt (dup_table pd) [1..<768] s1 = Some s2"
      "fold_opt (\<lambda>i s. do { e \<leftarrow> load32 (pd_slot (of_nat i)) s; store32 (pd + of_nat i * 4) e s }) [768..<1024] s2 = Some s3"
      "store32 pd e s3 = Some s4" "store32 (pd + 1023 * 4) (p OR PT_PRESENT) s4 = Some s'"
    using assms unfolding mapdup_full_def bind_eq_Some_conv by blast
  show ?thesis
    by (simp only: copy_keeps(2) [OF t(1)] fold_dup_table_keeps [OF t(2)] fold_copy_keeps [OF t(3)] store_keeps [OF t(4)] store_keeps [OF t(5)])
qed

lemma free_table_keeps [keeps]: "free_table pt s = Some s' \<Longrightarrow> mm_state.more s' = mm_state.more s"
  unfolding free_table_def by (erule fold_opt_keeps) (auto dest!: keeps split: bind_splits)

lemma free_directory_keeps [keeps]: "free_directory pd s = Some s' \<Longrightarrow> mm_state.more s' = mm_state.more s"
  unfolding free_directory_def by (erule fold_opt_keeps) (auto dest!: keeps split: bind_splits)

subsection \<open>Every reachable run queue is well-formed\<close>

text \<open>
  The operations of the scheduler: the timer, blocking and releasing a process, creating one, threads, and the end of a process; and
  everything else in the kernel, \<^verbatim>\<open>exec\<close> included, which changes neither the queue nor the current process nor the lock.
\<close>

inductive sched_step :: "'a sched_state_scheme \<Rightarrow> 'a sched_state_scheme \<Rightarrow> bool" where
  step_schedule: "schedule regs s = Some (r, s') \<Longrightarrow> sched_step s s'"
| step_block: "set_pid_blocked pid s = Some s' \<Longrightarrow> sched_step s s'"
| step_unblock: "set_pid_unblocked pid s = Some s' \<Longrightarrow> sched_step s s'"
| step_spawn: "spawn_new_process regs argv argc cr s = Some (pid, s') \<Longrightarrow> sched_step s s'"
| step_fork: "fork regs s = Some (regs', s') \<Longrightarrow> sched_step s s'"
| step_kill: "kill pid s = Some s' \<Longrightarrow> sched_step s s'"
| step_thread_start: "thread_start entry s = Some (pid, s') \<Longrightarrow> sched_step s s'"
| step_thread_join: "thread_join_wait regs s = Some (r, s') \<Longrightarrow> sched_step s s'"
| step_thread_exit: "thread_exit code regs s = Some (r, s') \<Longrightarrow> sched_step s s'"
| step_other: "process_queue s' = process_queue s \<Longrightarrow> queue_length s' = queue_length s \<Longrightarrow> current_pid s' = current_pid s \<Longrightarrow>
    proc_lock s' = proc_lock s \<Longrightarrow> sched_step s s'"

inductive sched_reachable :: "'a sched_state_scheme \<Rightarrow> bool" where
  reach_init: "scheduler_init s0 = Some s \<Longrightarrow> sched_reachable s"
| reach_step: "sched_reachable s \<Longrightarrow> sched_step s s' \<Longrightarrow> sched_reachable s'"

text \<open>The invariant over the cells of the array.\<close>

definition sched_wf :: "'a sched_state_scheme \<Rightarrow> bool" where
  "sched_wf s \<longleftrightarrow> queue_length s \<le> 0x10000 \<and> (\<forall>i < queue_length s. process_queue s i < PROCESS_COUNT) \<and>
     current_pid s < PROCESS_COUNT \<and> \<not> lock (proc_lock s)"

lemma rq_cells: "set (rq s) = process_queue s ` {i. i < queue_length s}"
proof -
  have "set (rq s) = process_queue s ` of_nat ` {..<unat (queue_length s)}"
    by (simp add: rq_def queue_list_def image_image atLeast0LessThan)
  moreover have "of_nat ` {..<unat (queue_length s)} = {i. i < queue_length s}"
  proof (intro set_eqI iffI)
    fix i :: u32
    assume "i \<in> {i. i < queue_length s}"
    then show "i \<in> of_nat ` {..<unat (queue_length s)}" by (intro image_eqI [of _ _ "unat i"]) (simp_all add: word_less_nat_alt)
  next
    fix i :: u32
    assume "i \<in> of_nat ` {..<unat (queue_length s)}"
    then obtain k where k: "i = of_nat k" "k < unat (queue_length s)" by auto
    then have "unat i = k" using unat_u32_less [of "queue_length s"] by (simp add: unat_of_nat_lt)
    then show "i \<in> {i. i < queue_length s}" using k(2) by (simp add: word_less_nat_alt)
  qed
  ultimately show ?thesis by simp
qed

lemma sched_wf_queue_ok: "sched_wf s \<longleftrightarrow> queue_ok s \<and> current_pid s < PROCESS_COUNT"
  by (auto simp: sched_wf_def queue_ok_def rq_cells word_le_nat_alt)

lemma scheduler_init_wf: "scheduler_init s0 = Some s \<Longrightarrow> sched_wf s"
  unfolding sched_wf_queue_ok
  by (auto simp: scheduler_init_def queue_ok_def rq_def queue_list_def lock_defs split: bind_splits)

lemma sched_more:
  fixes s s' :: "'a sched_state_scheme"
  assumes "mm_state.more s' = mm_state.more s"
  shows "process_queue s' = process_queue s" "queue_length s' = queue_length s" "current_pid s' = current_pid s" "proc_lock s' = proc_lock s"
  using assms by (cases s, cases s', simp)+

lemma wf_more:
  fixes s s' :: "'a sched_state_scheme"
  assumes "mm_state.more s' = mm_state.more s"
  shows "sched_wf s' \<longleftrightarrow> sched_wf s"
  using sched_more [OF assms] by (simp add: sched_wf_def)

lemma wf_upd: "upd_process pid f s = Some s' \<Longrightarrow> (sched_wf s' \<longleftrightarrow> sched_wf s) \<and> current_pid s' = current_pid s \<and> pid < PROCESS_COUNT"
  by (auto simp: upd_process_def sched_wf_def split: if_splits)

text \<open>Adding and removing one entry.  The first one is stated for the state with the lock held.\<close>

lemma add_nolock_wf:
  assumes "add_process_queue_nolock pid s = Some s'" "sched_wf (s\<lparr>proc_lock := l\<rparr>)" "pid < PROCESS_COUNT" "\<not> lock l"
  shows "sched_wf (s'\<lparr>proc_lock := l\<rparr>)"
proof -
  have s': "queue_length s < 0x10000" "s' = s\<lparr>process_queue := (process_queue s)(queue_length s := pid), queue_length := queue_length s + 1\<rparr>"
    using assms(1) by (auto simp: add_process_queue_nolock_def split: if_splits)
  have "queue_length s + 1 \<le> 0x10000" using word_succ_le [OF s'(1)] .
  moreover have "i < queue_length s" if "i < queue_length s + 1" "i \<noteq> queue_length s" for i
    using that unat_Suc_less [OF s'(1)] by (simp add: word_less_nat_alt word_unat_eq_iff)
  ultimately show ?thesis using assms(2-4) by (auto simp: sched_wf_def s'(2))
qed

lemma add_wf:
  assumes "add_process_queue pid s = Some s'" "sched_wf s" "pid < PROCESS_COUNT"
  shows "sched_wf s'"
proof -
  obtain l t where t: "spinlock_acquire (proc_lock s) = Some l" "add_process_queue_nolock pid (s\<lparr>proc_lock := l\<rparr>) = Some t"
      "s' = t\<lparr>proc_lock := spinlock_release (proc_lock t)\<rparr>"
    using assms(1) unfolding add_process_queue_def bind_eq_Some_conv by auto
  have "sched_wf (s\<lparr>proc_lock := l\<rparr>\<lparr>proc_lock := spinlock_release (proc_lock t)\<rparr>)"
    using assms(2) by (simp add: sched_wf_def lock_defs)
  from add_nolock_wf [OF t(2) this assms(3)] show ?thesis by (simp add: t(3) lock_defs)
qed

lemma queue_clear_cells: "fst (queue_clear pid n q) i = q i \<or> fst (queue_clear pid n q) i = 0"
proof (induction n)
  case (Suc n)
  have "queue_clear pid (Suc n) q = (case queue_clear pid n q of (q, old) \<Rightarrow>
      if q (of_nat n) = pid then (q(of_nat n := 0), of_nat n) else (q, old))"
    by (simp add: queue_clear_def)
  with Suc show ?case by (auto split: prod.splits if_splits)
qed (simp add: queue_clear_def)

lemma remove_wf:
  assumes "remove_process_queue pid s = Some s'" "sched_wf s"
  shows "sched_wf s'" "current_pid s' = current_pid s"
proof -
  let ?last = "queue_length s - 1"
  obtain q old where q: "queue_clear pid (Suc (unat ?last)) (process_queue s) = (q, old)" by (cases "queue_clear pid (Suc (unat ?last)) (process_queue s)")
  have last: "?last < PROCESS_COUNT" using assms(1) by (auto simp: remove_process_queue_def Let_def split: bind_splits if_splits)
  then have "queue_length s \<noteq> 0" by auto
  then have less: "?last < queue_length s" by (rule word_pred_less)
  have cells: "q i < PROCESS_COUNT" if "i < queue_length s" for i
    using queue_clear_cells [of pid "Suc (unat ?last)" "process_queue s" i] q assms(2) that by (auto simp: sched_wf_def)
  have old: "process_queue s' i < PROCESS_COUNT" if "i < ?last" for i
    using assms(1) q cells [of i] cells [OF less] that less
    by (auto simp: remove_process_queue_def Let_def split: bind_splits if_splits)
  have sel: "queue_length s' = ?last" "\<not> lock (proc_lock s')" "current_pid s' = current_pid s"
    using assms(1) q by (auto simp: remove_process_queue_def Let_def lock_defs split: bind_splits if_splits)
  then show "current_pid s' = current_pid s" by simp
  show "sched_wf s'" using old sel assms(2) last by (simp add: sched_wf_def)
qed

lemma block_wf: "set_pid_blocked pid s = Some s' \<Longrightarrow> sched_wf s \<Longrightarrow> sched_wf s'"
  unfolding set_pid_blocked_def bind_eq_Some_conv using wf_upd remove_wf by blast

lemma unblock_wf: "set_pid_unblocked pid s = Some s' \<Longrightarrow> sched_wf s \<Longrightarrow> sched_wf s'"
  unfolding set_pid_unblocked_def bind_eq_Some_conv using wf_upd add_wf by blast

lemma slot_search_lt: "slot_search s i = Some (Some j) \<Longrightarrow> j < PROCESS_COUNT"
proof (induction s i rule: slot_search.induct)
  case (1 s i)
  show ?case using "1.prems" "1.IH" [OF _ _ refl] by (subst (asm) slot_search.simps) (auto simp: Let_def split: if_splits)
qed

lemma spawn_wf:
  assumes "spawn_new_process regs argv argc cr s = Some (pid, s')" "sched_wf s"
  shows "sched_wf s' \<and> current_pid s' = current_pid s"
proof -
  let ?free = "\<lparr>lock = False\<rparr>"
  obtain l r where l: "spinlock_acquire (proc_lock s) = Some l" "slot_search (s\<lparr>proc_lock := l\<rparr>) (current_pid s) = Some r"
    using assms(1) by (auto simp: spawn_new_process_def Let_def split: bind_splits)
  show ?thesis
  proof (cases r)
    case None
    then show ?thesis using assms l by (auto simp: spawn_new_process_def sched_wf_def lock_defs)
  next
    case (Some i)
    let ?s1 = "s\<lparr>proc_lock := l, active_processes := active_processes s + 1\<rparr>"
    obtain fd s2 f s3 s4 where t: "kmalloc ((DEFAULT_FD_MAX * 4 + 4095) div 4096) ?s1 = Some (fd, s2)" "upd_process i f s2 = Some s3"
        "add_process_queue_nolock i s3 = Some s4" "s' = s4\<lparr>proc_lock := spinlock_release (proc_lock s4)\<rparr>"
      using assms(1) l Some unfolding spawn_new_process_def by (auto simp: Let_def bind_eq_Some_conv)
    note m = sched_more [OF kmalloc_keeps [OF t(1)]]
    have "sched_wf (s2\<lparr>proc_lock := ?free\<rparr>)" using assms(2) m by (simp add: sched_wf_def)
    then have "sched_wf (s3\<lparr>proc_lock := ?free\<rparr>)" using t(2) by (auto simp: upd_process_def sched_wf_def split: if_splits)
    moreover have "i < PROCESS_COUNT" using slot_search_lt l(2) Some by blast
    ultimately have "sched_wf (s4\<lparr>proc_lock := ?free\<rparr>)" using add_nolock_wf [OF t(3)] by simp
    moreover have "current_pid s3 = current_pid s" using wf_upd [OF t(2)] m by simp
    then have "current_pid s4 = current_pid s" using t(3) by (auto simp: add_process_queue_nolock_def split: if_splits)
    ultimately show ?thesis by (simp add: t(4) lock_defs)
  qed
qed

lemma kill_wf:
  assumes "kill pid s = Some s'" "sched_wf s"
  shows "sched_wf s'"
proof -
  obtain pd p s1 s2 s3 s4 f s5 where t: "kmalloc_page_paddr pd 1 s = Some (p, s1)" "free_directory p s1 = Some s2" "kfree p s2 = Some s3"
      "pm_free pd s3 = Some s4" "upd_process pid f s4 = Some s5" "remove_process_queue pid s5 = Some s'"
    using assms(1) unfolding kill_def by (auto simp: bind_eq_Some_conv)
  have "mm_state.more s4 = mm_state.more s"
    by (simp only: kmalloc_page_paddr_keeps [OF t(1)] free_directory_keeps [OF t(2)] kfree_keeps [OF t(3)] pm_keeps(2) [OF t(4)])
  then have "sched_wf s4" using assms(2) wf_more by blast
  then show ?thesis using wf_upd [OF t(5)] remove_wf(1) [OF t(6)] by blast
qed

lemma fork_wf:
  assumes "fork regs s = Some (regs', s')" "sched_wf s"
  shows "sched_wf s'"
proof -
  obtain pd s1 pdp s2 s3 pa st s4 r s5 s6 s7 s8 pid s9 f s10 g where t: "pm_alloc s = Some (pd, s1)" "kmalloc_page_paddr pd 1 s1 = Some (pdp, s2)"
      "mapdup_full pdp s2 = Some s3" "kmalloc_page_paddr pa 2 s3 = Some (st, s4)" "store_regs st r s4 = Some s5" "unmap pdp s5 = Some s6"
      "unmap st s6 = Some s7" "unmap (st - PAGE_SIZE_BYTES) s7 = Some s8" "spawn_new_process r 0 0 pd s8 = Some (pid, s9)"
      "upd_process pid f s9 = Some s10" "upd_process pid g s10 = Some s'"
    using assms(1) unfolding fork_def by (auto simp: Let_def bind_eq_Some_conv)
  have "mm_state.more s8 = mm_state.more s"
    by (simp only: pm_keeps(1) [OF t(1)] kmalloc_page_paddr_keeps [OF t(2)] mapdup_full_keeps [OF t(3)] kmalloc_page_paddr_keeps [OF t(4)]
        copy_keeps(3) [OF t(5)] map_keeps(2) [OF t(6)] map_keeps(2) [OF t(7)] map_keeps(2) [OF t(8)])
  then have "sched_wf s8" using assms(2) wf_more by blast
  then show ?thesis using spawn_wf [OF t(9)] wf_upd [OF t(10)] wf_upd [OF t(11)] by blast
qed

lemma thread_start_wf:
  assumes "thread_start entry s = Some (pid, s')" "sched_wf s"
  shows "sched_wf s'"
proof -
  obtain st s1 p r s2 s3 f where t: "kmalloc 8 s = Some (st, s1)" "store_regs p r s1 = Some s2" "spawn_new_process r 0 0 0x10000 s2 = Some (pid, s3)"
      "upd_process pid f s3 = Some s'"
    using assms(1) unfolding thread_start_def by (auto simp: Let_def bind_eq_Some_conv)
  have "mm_state.more s2 = mm_state.more s" by (simp only: kmalloc_keeps [OF t(1)] copy_keeps(3) [OF t(2)])
  then have "sched_wf s2" using assms(2) wf_more by blast
  then show ?thesis using spawn_wf [OF t(3)] wf_upd [OF t(4)] by blast
qed

lemma schedule_nonempty:
  assumes "queue_length s \<noteq> 0" "schedule regs s = Some (r, s')"
  shows "process_queue s' = process_queue s \<and> queue_length s' = queue_length s \<and> proc_lock s' = proc_lock s \<and> current_pid s' < PROCESS_COUNT"
  using assms by (auto simp: schedule_def upd_process_def Let_def split: bind_splits if_splits)

lemma schedule_first:
  assumes "sched_wf s"
  shows "\<exists>t. (if queue_length s = 0 then add_process_queue 0 s else Some s) = Some t \<and> sched_wf t \<and> queue_length t \<noteq> 0"
proof (cases "queue_length s = 0")
  case True
  then obtain t where "add_process_queue 0 s = Some t" "queue_length t = 1"
    using assms by (simp add: add_process_queue_def add_process_queue_nolock_def lock_defs sched_wf_def)
  then show ?thesis using True add_wf [OF _ assms] by auto
qed (use assms in simp)

lemma schedule_wf:
  assumes "schedule regs s = Some (r, s')" "sched_wf s"
  shows "sched_wf s'"
proof -
  obtain t where t: "(if queue_length s = 0 then add_process_queue 0 s else Some s) = Some t" "sched_wf t" "queue_length t \<noteq> 0"
    using schedule_first [OF assms(2)] by blast
  have "schedule regs t = Some (r, s')" using assms(1) t by (simp add: schedule_def)
  from schedule_nonempty [OF t(3) this] show ?thesis using t(2) by (simp add: sched_wf_def)
qed

lemma thread_wf:
  "thread_join_wait regs s = Some (r, s') \<Longrightarrow> sched_wf s \<Longrightarrow> sched_wf s'"
  "thread_exit code regs s = Some (r, s') \<Longrightarrow> sched_wf s \<Longrightarrow> sched_wf s'"
  unfolding thread_join_wait_def thread_exit_def bind_eq_Some_conv
  using block_wf schedule_wf wf_upd remove_wf unblock_wf by blast+

lemma sched_reachable_sched_wf: "sched_reachable s \<Longrightarrow> sched_wf s"
proof (induction rule: sched_reachable.induct)
  case (reach_init s0 s)
  then show ?case by (rule scheduler_init_wf)
next
  case (reach_step s s')
  from reach_step.hyps(2) reach_step.IH show ?case
  proof (cases rule: sched_step.cases)
    case step_other
    then show ?thesis using reach_step.IH by (simp add: sched_wf_def)
  qed (blast intro: schedule_wf block_wf unblock_wf fork_wf kill_wf thread_start_wf thread_wf dest: spawn_wf)+
qed

lemma schedule_returns:
  assumes "sched_wf s"
  shows "\<exists>r s'. schedule regs s = Some (r, s')"
proof -
  obtain t where t: "(if queue_length s = 0 then add_process_queue 0 s else Some s) = Some t" "sched_wf t" "queue_length t \<noteq> 0"
    using schedule_first [OF assms] by blast
  have rd: "i mod queue_length t < PROCESS_COUNT" "process_queue t (i mod queue_length t) < PROCESS_COUNT" for i
  proof -
    have lt: "i mod queue_length t < queue_length t" using t(3) by (simp add: unat_mod unat_gt_0 word_less_nat_alt)
    moreover have "queue_length t \<le> 0x10000" using t(2) by (simp add: sched_wf_def)
    ultimately show "i mod queue_length t < PROCESS_COUNT" by (rule less_le_trans)
    show "process_queue t (i mod queue_length t) < PROCESS_COUNT" using lt t(2) by (simp add: sched_wf_def)
  qed
  have "process_queue t 0 < PROCESS_COUNT" "queue_length t \<noteq> 1 \<longrightarrow> process_queue t 1 < PROCESS_COUNT" using rd(2) [of 0] rd(2) [of 1] t(3) by auto
  moreover have "current_pid t < PROCESS_COUNT" using t(2) by (simp add: sched_wf_def)
  ultimately have "\<exists>r s'. schedule regs t = Some (r, s')" using t(3) rd by (simp add: schedule_def upd_process_def queue_read_def Let_def)
  moreover have "schedule regs s = schedule regs t" using t(1,3) by (simp add: schedule_def)
  ultimately show ?thesis by (simp only:)
qed



end
