(* ===== verification/Interrupts.thy ===== *)
theory Interrupts
  imports Scheduler
begin

text \<open>
  Interrupt handling (\<^verbatim>\<open>src/kernel/arch_i386/interrupts.c\<close>, \<^verbatim>\<open>src/kernel/shared/interrupts.h\<close>) and the
  programmable interrupt controller (\<^verbatim>\<open>src/kernel/drivers/pic.c\<close>).

  The entry stubs push the registers on the stack of the interrupted thread and call
  \<^verbatim>\<open>_irq_handler\<close> with the address of that block; the handler returns the address of the block to
  resume, so that returning another block switches threads.  The block is memory like any other:
  it is read and written through the memory unit of \<open>Paging\<close>.

  The state extends the scheduler's with the descriptor tables, the task state segment, the table of
  handlers and the log \<open>port_out\<close> of the bytes written to I/O ports (newest last).  Handlers are
  function pointers; \<open>call\<close> says what a call of one does.  Text printed on the serial line is not
  part of the state; it is in \<open>Panic\<close>, with \<^verbatim>\<open>_isr_handler\<close> and \<^verbatim>\<open>kernel_panic\<close>.

  The gates, the descriptor of the task segment and the acknowledgement of interrupts are shown to
  be what the hardware needs; \<^verbatim>\<open>pit_reload\<close> sends the bytes of the divisor in the wrong order.
\<close>

subsection \<open>State\<close>

record idt_entry_t =
  offset_low :: u16
  code_seg :: u16
  idt_reserved :: u8
  gate_flags :: u8
  offset_high :: u16

record idt_t =
  idt_size :: u16
  idt_pointer :: u32

record gdt_entry_t =
  limit_low :: u16
  base_low :: u16
  base_med :: u8
  sd_type :: u8
  seg_type :: u8
  dpl :: u8
  seg_present :: u8
  limit_high :: u8
  gdt_flags :: u8
  base_high :: u8

text \<open>The fields of the task state segment that the kernel writes.\<close>

record tss_entry_t =
  tss_esp0_field :: u32
  tss_ss0 :: u32
  tss_ss :: u32

record int_state = sched_state +
  in_interrupt :: u8
  interrupt_handlers :: "u32 \<Rightarrow> u32"
  idt_table :: "u32 \<Rightarrow> idt_entry_t"
  idt_desc :: idt_t
  idtr :: u32
  gdt :: "u32 \<Rightarrow> gdt_entry_t"
  tss :: tss_entry_t
  tss_vaddr :: u32
  tss_esp0 :: u32
  task_register :: u32
  port_out :: "(u16 \<times> u8) list"

type_synonym 's irq_call = "u32 \<Rightarrow> u32 \<Rightarrow> 's \<Rightarrow> (u32 \<times> 's) option"

definition outb :: "u16 \<Rightarrow> u8 \<Rightarrow> 'a int_state_scheme \<Rightarrow> 'a int_state_scheme" where
  "outb port data s = s\<lparr>port_out := port_out s @ [(port, data)]\<rparr>"

subsection \<open>The interrupt controllers\<close>

text \<open>\<open>inb\<close> is what the device answers; \<^verbatim>\<open>idt_index\<close> is not used by the source.\<close>

definition pic_init :: "(u16 \<Rightarrow> u8) \<Rightarrow> u8 \<Rightarrow> 'a int_state_scheme \<Rightarrow> 'a int_state_scheme" where
  "pic_init inb idt_index s =
     (let a1 = inb 0x21; a2 = inb 0xa1;
          s = outb 0x20 (0x10 OR 0x01) s;
          s = outb 0xa0 (0x10 OR 0x01) s;
          s = outb 0x21 32 s;
          s = outb 0xa1 40 s;
          s = outb 0x21 4 s;
          s = outb 0xa1 2 s;
          s = outb 0x21 0x01 s;
          s = outb 0xa1 0x01 s;
          s = outb 0x21 a1 s
      in outb 0xa1 a2 s)"

definition pic_disable :: "'a int_state_scheme \<Rightarrow> 'a int_state_scheme" where
  "pic_disable s = outb 0xa1 0xff (outb 0x21 0xff s)"

definition pic_setmask :: "u8 \<Rightarrow> u16 \<Rightarrow> 'a int_state_scheme \<Rightarrow> 'a int_state_scheme" where
  "pic_setmask m pic s = outb pic m s"

definition pic_getmask :: "(u16 \<Rightarrow> u8) \<Rightarrow> u16 \<Rightarrow> u8" where
  "pic_getmask inb pic = inb pic"

subsection \<open>Tables\<close>

definition get_in_interrupt :: "'a int_state_scheme \<Rightarrow> u8" where
  "get_in_interrupt s = in_interrupt s"

definition set_idt_entry ::
    "u32 \<Rightarrow> u32 \<Rightarrow> u8 \<Rightarrow> u16 \<Rightarrow> 'a int_state_scheme \<Rightarrow> 'a int_state_scheme option" where
  "set_idt_entry index ptr fl segment s =
     (if index < 256
      then Some (s\<lparr>idt_table := (idt_table s)(index := (idt_table s index)
             \<lparr>offset_high := ucast (drop_bit 16 ptr), offset_low := ucast (ptr AND 0xffff),
              code_seg := segment, gate_flags := fl OR 0x80\<rparr>)\<rparr>)
      else None)"

definition install_irq_handler :: "u32 \<Rightarrow> u8 \<Rightarrow> 'a int_state_scheme \<Rightarrow> 'a int_state_scheme option" where
  "install_irq_handler handler irqno s =
     (if irqno < 16
      then Some (s\<lparr>interrupt_handlers := (interrupt_handlers s)(ucast irqno := handler)\<rparr>) else None)"

definition get_irq_handler :: "u32 \<Rightarrow> 'a int_state_scheme \<Rightarrow> u32 option" where
  "get_irq_handler irqno s = (if irqno < 16 then Some (interrupt_handlers s irqno) else None)"

definition pit_reload :: "u8 \<Rightarrow> u16 \<Rightarrow> 'a int_state_scheme \<Rightarrow> 'a int_state_scheme" where
  "pit_reload mode reload s =
     (let s = outb 0x43 (0x30 + mode) s;
          s = outb 0x40 (ucast (drop_bit 8 reload)) s
      in outb 0x40 (ucast (reload AND 0xff)) s)"

definition pit_ms :: "u32 \<Rightarrow> u32" where
  "pit_ms reload_value = (reload_value * 3000) div 3579545"

definition pit_init :: "u32 \<Rightarrow> 'a int_state_scheme \<Rightarrow> u32 \<times> 'a int_state_scheme" where
  "pit_init freq s =
     (let reload_value = 0x10000
      in if freq \<le> 18 then (pit_ms reload_value, pit_reload 4 (ucast reload_value) s)
         else if freq \<ge> 1193181 then (pit_ms reload_value, pit_reload 4 (ucast (drop_bit 16 reload_value)) s)
         else let reload_value = 3579545 div freq div 3
              in (pit_ms reload_value, pit_reload 4 (ucast reload_value) s))"

definition get_tss :: "'a int_state_scheme \<Rightarrow> u32" where
  "get_tss s = tss_vaddr s"

definition reset_tss_stack :: "u32 \<Rightarrow> 'a int_state_scheme \<Rightarrow> 'a int_state_scheme" where
  "reset_tss_stack esp s =
     (if get_tss s = 0 then s else s\<lparr>tss := (tss s)\<lparr>tss_esp0_field := esp, tss_ss := 0x18\<rparr>\<rparr>)"

text \<open>\<open>sizeof (tss_entry_t)\<close> is 108; \<^verbatim>\<open>(uint8_t)108 >> 16\<close> is 0.\<close>

definition tss_init :: "u32 \<Rightarrow> 'a int_state_scheme \<Rightarrow> 'a int_state_scheme option" where
  "tss_init entry_no s = do {
     (t, s) \<leftarrow> kmalloc 1 s;
     let s = s\<lparr>tss_vaddr := t\<rparr>;
     let e = (gdt s entry_no)
           \<lparr>base_low := ucast (t AND 0xffff), base_med := ucast (drop_bit 16 t AND 0xff),
            base_high := ucast (drop_bit 24 t AND 0xff), limit_low := 108,
            limit_high := drop_bit 16 108, sd_type := 9, seg_type := 0, dpl := 0, seg_present := 1,
            gdt_flags := 0\<rparr>;
     let s = s\<lparr>gdt := (gdt s)(entry_no := e)\<rparr>;
     let s = s\<lparr>tss := \<lparr>tss_esp0_field = 0, tss_ss0 = 0, tss_ss = 0\<rparr>\<rparr>;
     (stack, s) \<leftarrow> kmalloc 16 s;
     let s = s\<lparr>tss := (tss s)\<lparr>tss_ss0 := 0x18, tss_esp0_field := stack + PAGE_SIZE_BYTES * 16 - 4\<rparr>\<rparr>;
     let s = s\<lparr>tss_esp0 := tss_esp0_field (tss s)\<rparr>;
     Some (s\<lparr>task_register := entry_no\<rparr>)
   }"

text \<open>
  \<open>isr n\<close> is the address of \<^verbatim>\<open>_isr\<close>n, \<open>irq0\<close>, \<open>irq1\<close>, \<open>sysc\<close> those of \<^verbatim>\<open>_irq0\<close>, \<^verbatim>\<open>_irq1\<close> and \<^verbatim>\<open>_syscall\<close>,
  \<open>table\<close> and \<open>desc\<close> those of \<^verbatim>\<open>idt_table\<close> and \<^verbatim>\<open>idt_desc\<close>.
\<close>

definition idt_load ::
    "(u32 \<Rightarrow> u32) \<Rightarrow> u32 \<Rightarrow> u32 \<Rightarrow> u32 \<Rightarrow> u32 \<Rightarrow> u32 \<Rightarrow> 'a int_state_scheme \<Rightarrow> 'a int_state_scheme option" where
  "idt_load isr irq0 irq1 sysc tab desc s = do {
     s \<leftarrow> fold_opt (\<lambda>i. set_idt_entry (of_nat i) (isr (of_nat i)) 0xe 0x10) [0..<32] s;
     s \<leftarrow> fold_opt (\<lambda>i. set_idt_entry (of_nat i + 32) (irq0 + (irq1 - irq0) * of_nat i) 0xe 0x10) [0..<16] s;
     let s = s\<lparr>tss_vaddr := 0\<rparr>;
     s \<leftarrow> set_idt_entry 0x80 sysc (0xe OR push_bit 5 3) 0x10 s;
     let s = s\<lparr>idt_desc := \<lparr>idt_size = 8 * 256 - 1, idt_pointer = tab\<rparr>\<rparr>;
     let s = s\<lparr>interrupt_handlers := (\<lambda>i. if i < 16 then 0 else interrupt_handlers s i)\<rparr>;
     let s = snd (pit_init 1000 s);
     Some (s\<lparr>idtr := desc\<rparr>)
   }"

subsection \<open>Dispatching\<close>

definition load_regs :: "u32 \<Rightarrow> 'a mm_state_scheme \<Rightarrow> cpu_registers_t option" where
  "load_regs p s = do {
     gs \<leftarrow> load32 p s; fs \<leftarrow> load32 (p + 4) s; es \<leftarrow> load32 (p + 8) s; ds \<leftarrow> load32 (p + 12) s;
     edi \<leftarrow> load32 (p + 16) s; esi \<leftarrow> load32 (p + 20) s; ebp \<leftarrow> load32 (p + 24) s; esp \<leftarrow> load32 (p + 28) s;
     ebx \<leftarrow> load32 (p + 32) s; edx \<leftarrow> load32 (p + 36) s; ecx \<leftarrow> load32 (p + 40) s; eax \<leftarrow> load32 (p + 44) s;
     int_no \<leftarrow> load32 (p + 48) s; pfa \<leftarrow> load32 (p + 52) s;
     eip \<leftarrow> load32 (p + 56) s; cs \<leftarrow> load32 (p + 60) s; eflags \<leftarrow> load32 (p + 64) s;
     useresp \<leftarrow> load32 (p + 68) s; ss \<leftarrow> load32 (p + 72) s;
     Some \<lparr>r_gs = gs, r_fs = fs, r_es = es, r_ds = ds, r_edi = edi, r_esi = esi, r_ebp = ebp, r_esp = esp,
       r_ebx = ebx, r_edx = edx, r_ecx = ecx, r_eax = eax, r_int_no = int_no, r_pfa = pfa,
       r_eip = eip, r_cs = cs, r_eflags = eflags, r_useresp = useresp, r_ss = ss\<rparr>
   }"

text \<open>\<^verbatim>\<open>schedule\<close> as the timer handler: its argument is the address of the block.\<close>

definition schedule_handler :: "u32 \<Rightarrow> 'a sched_state_scheme \<Rightarrow> (u32 \<times> 'a sched_state_scheme) option" where
  "schedule_handler p s = do { r \<leftarrow> load_regs p s; schedule r s }"

definition run_handlers :: "'a int_state_scheme irq_call \<Rightarrow> u32 \<Rightarrow> u32 \<Rightarrow> 'a int_state_scheme \<Rightarrow>
    (u32 \<times> 'a int_state_scheme) option" where
  "run_handlers call int_no regs s = do {
     h \<leftarrow> get_irq_handler (int_no - 32) s;
     if h \<noteq> 0
     then do {
       (regs, s) \<leftarrow> call h regs s;
       h0 \<leftarrow> get_irq_handler 0 s;
       if int_no > 32 \<and> h0 \<noteq> 0 then call h0 regs s else Some (regs, s)
     }
     else Some (regs, s)
   }"

definition irq_end :: "u32 \<Rightarrow> u32 \<Rightarrow> 'a int_state_scheme \<Rightarrow> 'a int_state_scheme" where
  "irq_end int_no regs s =
     (let s = outb 0x20 0x20 s;
          s = (if int_no \<ge> 0x28 then outb 0xa0 0x20 s else s);
          s = s\<lparr>in_interrupt := 0\<rparr>
      in reset_tss_stack regs s)"

text \<open>
  \<^verbatim>\<open>syscall\<close>: \<open>Inl\<close> is the transfer of control by \<^verbatim>\<open>KOS_INT_EXIT\<close>, whose \<^verbatim>\<open>int $32\<close> is the argument
  \<open>int32\<close>: it gives the block the scheduler resumes.  \<open>Inr\<close> is the ordinary return.
\<close>

definition syscall ::
    "('a int_state_scheme \<Rightarrow> (u32 \<times> 'a int_state_scheme) option) \<Rightarrow> u32 \<Rightarrow> 'a int_state_scheme \<Rightarrow>
     ((u32 \<times> 'a int_state_scheme) + (u32 \<times> 'a int_state_scheme)) option" where
  "syscall int32 regs s = do {
     eax \<leftarrow> load32 (regs + 44) s;
     if eax = 0 then do {
       s \<leftarrow> kill (get_current_pid s) s;
       r \<leftarrow> int32 (reset_tss_stack (tss_esp0 s) s);
       Some (Inl r)
     }
     else if eax = 7 then do {
       r \<leftarrow> load_regs regs s;
       (r, s) \<leftarrow> fork r s;
       s \<leftarrow> store32 (regs + 44) (r_eax r) s;
       Some (Inr (regs, s))
     }
     else Some (Inr (regs, s))
   }"

definition irq_handler ::
    "'a int_state_scheme irq_call \<Rightarrow> ('a int_state_scheme \<Rightarrow> (u32 \<times> 'a int_state_scheme) option) \<Rightarrow>
     u32 \<Rightarrow> 'a int_state_scheme \<Rightarrow> (u32 \<times> 'a int_state_scheme) option" where
  "irq_handler call int32 regs s = do {
     let s = s\<lparr>in_interrupt := 1\<rparr>;
     s \<leftarrow> store32 (regs + 28) regs s;
     int_no \<leftarrow> load32 (regs + 48) s;
     r \<leftarrow> (if int_no = 0x80 then syscall int32 regs s
           else do { r \<leftarrow> run_handlers call int_no regs s; Some (Inr r) });
     case r of
       Inl (regs, s) \<Rightarrow> Some (regs, s)
     | Inr (regs, s) \<Rightarrow> Some (regs, irq_end int_no regs s)
   }"

subsection \<open>Gates and descriptors\<close>

definition gate_target :: "idt_entry_t \<Rightarrow> u32" where
  "gate_target e = push_bit 16 (ucast (offset_high e)) OR ucast (offset_low e)"

definition set_gate :: "u32 \<Rightarrow> u8 \<Rightarrow> u16 \<Rightarrow> idt_entry_t \<Rightarrow> idt_entry_t" where
  "set_gate ptr fl segment e = e\<lparr>offset_high := ucast (drop_bit 16 ptr),
     offset_low := ucast (ptr AND 0xffff), code_seg := segment, gate_flags := fl OR 0x80\<rparr>"

lemma u32_split16: "push_bit 16 (ucast (ucast (drop_bit 16 (p :: u32)) :: u16)) OR ucast (ucast (p AND 0xffff) :: u16) = p"
proof -
  have m: "(0xffff :: u32) = mask 16" by (simp add: mask_eq_exp_minus_1)
  show ?thesis unfolding m by (auto intro!: bit_word_eqI simp: bit_simps)
qed

lemma set_gate_sel [simp]:
  "gate_target (set_gate p fl seg e) = p" "gate_flags (set_gate p fl seg e) = fl OR 0x80"
  "code_seg (set_gate p fl seg e) = seg"
  by (simp_all add: set_gate_def gate_target_def u32_split16)

lemma set_idt_entry_eq:
  "set_idt_entry i p fl seg s =
     (if i < 256 then Some (s\<lparr>idt_table := (idt_table s)(i := set_gate p fl seg (idt_table s i))\<rparr>) else None)"
  by (simp add: set_idt_entry_def set_gate_def)

text \<open>A loop that fills the gates \<open>b\<close>, ..., \<open>b + n - 1\<close>.\<close>

lemma set_idt_loop:
  fixes s :: "'a int_state_scheme" and b :: nat
  assumes "b + n \<le> 256"
  shows "fold_opt (\<lambda>i. set_idt_entry (of_nat (b + i)) (f i) fl seg) [0..<n] s =
    Some (s\<lparr>idt_table := (\<lambda>v. if b \<le> unat v \<and> unat v < b + n then set_gate (f (unat v - b)) fl seg (idt_table s v)
       else idt_table s v)\<rparr>)"
proof -
  define tab where "tab i = (\<lambda>v. if b \<le> unat v \<and> unat v < b + i then set_gate (f (unat v - b)) fl seg (idt_table s v)
       else idt_table s v)" for i
  have "\<exists>s'. fold_opt (\<lambda>i. set_idt_entry (of_nat (b + i)) (f i) fl seg) [0..<n] s = Some s' \<and> s' = s\<lparr>idt_table := tab n\<rparr>"
  proof (rule fold_opt_invariant [where P = "\<lambda>i s'. s' = s\<lparr>idt_table := tab i\<rparr>"])
    have "tab 0 = idt_table s" by (rule ext) (auto simp: tab_def)
    then show "s = s\<lparr>idt_table := tab 0\<rparr>" by simp
    fix i and s' :: "'a int_state_scheme"
    assume i: "i < n" and s': "s' = s\<lparr>idt_table := tab i\<rparr>"
    have u: "unat (of_nat (b + i) :: u32) = b + i"
      by (rule unat_of_nat_lt) (use i assms in simp)
    then have "(of_nat (b + i) :: u32) < 256" using i assms by (simp add: word_less_nat_alt del: of_nat_add)
    moreover have "(tab i)(of_nat (b + i) := set_gate (f i) fl seg (tab i (of_nat (b + i)))) = tab (Suc i)"
    proof
      fix v
      show "((tab i)(of_nat (b + i) := set_gate (f i) fl seg (tab i (of_nat (b + i))))) v = tab (Suc i) v"
      proof (cases "v = of_nat (b + i)")
        case True
        then show ?thesis using u by (simp add: tab_def del: of_nat_add)
      next
        case False
        then have "unat v \<noteq> b + i" using u by (metis unat_inj)
        with False show ?thesis by (auto simp: tab_def simp del: of_nat_add)
      qed
    qed
    ultimately show "\<exists>s''. set_idt_entry (of_nat (b + i)) (f i) fl seg s' = Some s'' \<and> s'' = s\<lparr>idt_table := tab (Suc i)\<rparr>"
      unfolding s' by (simp add: set_idt_entry_eq del: of_nat_add)
  qed
  then show ?thesis by (simp add: tab_def)
qed

text \<open>
  \<^verbatim>\<open>idt_load\<close> installs a present interrupt gate with the kernel's code segment for each of the
  32 exceptions, the 16 hardware interrupts and the system call; the hardware reads the address of
  the right stub from each.  Only the gate of the system call may be entered from user mode, and no
  other gate changes.
\<close>

theorem idt_load_installs_gates:
  "\<exists>s'. idt_load isr irq0 irq1 sysc tab desc s = Some s' \<and>
    (\<forall>v. gate_target (idt_table s' v) =
       (if v < 32 then isr v
        else if v < 48 then irq0 + (irq1 - irq0) * (v - 32)
        else if v = 0x80 then sysc else gate_target (idt_table s v))) \<and>
    (\<forall>v. v < 48 \<longrightarrow> gate_flags (idt_table s' v) = 0x8e \<and> code_seg (idt_table s' v) = 0x10) \<and>
    gate_flags (idt_table s' 0x80) = 0xee \<and> code_seg (idt_table s' 0x80) = 0x10 \<and>
    (\<forall>v. 48 \<le> v \<and> v \<noteq> 0x80 \<longrightarrow> idt_table s' v = idt_table s v) \<and>
    (\<forall>i < 16. interrupt_handlers s' i = 0) \<and> idt_size (idt_desc s') = 2047 \<and> idtr s' = desc"
proof -
  define s1 where "s1 = s\<lparr>idt_table := (\<lambda>v. if unat v < 32 then set_gate (isr (of_nat (unat v))) 0xe 0x10 (idt_table s v)
       else idt_table s v)\<rparr>"
  define s2 where "s2 = s1\<lparr>idt_table := (\<lambda>v. if 32 \<le> unat v \<and> unat v < 48
       then set_gate (irq0 + (irq1 - irq0) * of_nat (unat v - 32)) 0xe 0x10 (idt_table s1 v)
       else idt_table s1 v)\<rparr>"
  have l1: "fold_opt (\<lambda>i. set_idt_entry (of_nat i) (isr (of_nat i)) 0xe 0x10) [0..<32] s = Some s1"
    using set_idt_loop [of 0 32 "\<lambda>i. isr (of_nat i)" "0xe" "0x10" s]
    by (simp only: s1_def add_0 minus_nat.diff_0) simp
  have l2: "fold_opt (\<lambda>i. set_idt_entry (of_nat i + 32) (irq0 + (irq1 - irq0) * of_nat i) 0xe 0x10) [0..<16] s1 = Some s2"
    using set_idt_loop [of 32 16 "\<lambda>i. irq0 + (irq1 - irq0) * of_nat i" "0xe" "0x10" s1]
    by (simp add: s2_def add.commute)
  have pit: "idt_table (snd (pit_init f x)) = idt_table x" "interrupt_handlers (snd (pit_init f x)) = interrupt_handlers x"
    "idt_desc (snd (pit_init f x)) = idt_desc x" for f and x :: "'a int_state_scheme"
    by (simp_all add: pit_init_def pit_reload_def outb_def Let_def)
  obtain s' where s': "idt_load isr irq0 irq1 sysc tab desc s = Some s'"
    "idt_table s' = (idt_table s2)(0x80 := set_gate sysc 0x6e 0x10 (idt_table s2 0x80))"
    "interrupt_handlers s' = (\<lambda>i. if i < 16 then 0 else interrupt_handlers s2 i)"
    "idt_size (idt_desc s') = 2047" "idtr s' = desc"
    by (simp add: idt_load_def l1 l2 set_idt_entry_eq pit Let_def cong: if_cong)
  have lt: "v < 32 \<longleftrightarrow> unat v < 32" "v < 48 \<longleftrightarrow> unat v < 48" for v :: u32
    by (simp_all add: word_less_nat_alt)
  have sub: "unat v - 32 = unat (v - 32)" if "\<not> v < 32" for v :: u32
    using that by (simp add: unat_sub word_le_nat_alt not_less)
  have "gate_target (idt_table s' v) =
       (if v < 32 then isr v
        else if v < 48 then irq0 + (irq1 - irq0) * (v - 32)
        else if v = 0x80 then sysc else gate_target (idt_table s v))" for v
    using sub [of v] by (auto simp: s'(2) s2_def s1_def lt not_less)
  moreover have "v < 48 \<longrightarrow> gate_flags (idt_table s' v) = 0x8e \<and> code_seg (idt_table s' v) = 0x10" for v
    by (auto simp: s'(2) s2_def s1_def lt not_less)
  moreover have "48 \<le> v \<and> v \<noteq> 0x80 \<longrightarrow> idt_table s' v = idt_table s v" for v
    by (auto simp: s'(2) s2_def s1_def word_le_nat_alt)
  ultimately show ?thesis using s' by (intro exI [of _ s']) simp
qed

definition int_example :: int_state where
  "int_example = sched_state.extend sched_example
     \<lparr>in_interrupt = 0, interrupt_handlers = (\<lambda>_. 0),
      idt_table = (\<lambda>_. \<lparr>offset_low = 0, code_seg = 0, idt_reserved = 0, gate_flags = 0, offset_high = 0\<rparr>),
      idt_desc = \<lparr>idt_size = 0, idt_pointer = 0\<rparr>, idtr = 0,
      gdt = (\<lambda>_. \<lparr>limit_low = 0, base_low = 0, base_med = 0, sd_type = 0, seg_type = 0, dpl = 0,
        seg_present = 0, limit_high = 0, gdt_flags = 0, base_high = 0\<rparr>),
      tss = \<lparr>tss_esp0_field = 0, tss_ss0 = 0, tss_ss = 0\<rparr>, tss_vaddr = 0, tss_esp0 = 0,
      task_register = 0, port_out = []\<rparr>"

theorem idt_load_installs_gates_witness:
  "\<exists>s'. idt_load (\<lambda>v. 0x100000 + v * 16) 0x100400 0x100410 0x100800 0x200000 0x201000 int_example = Some s' \<and>
    gate_target (idt_table s' 14) = 0x1000e0 \<and> gate_target (idt_table s' 33) = 0x100410 \<and>
    gate_flags (idt_table s' 33) = 0x8e \<and> gate_target (idt_table s' 0x80) = 0x100800"
proof -
  obtain s' where
    "idt_load (\<lambda>v. 0x100000 + v * 16) 0x100400 0x100410 0x100800 0x200000 0x201000 int_example = Some s'"
    and g: "\<forall>v. gate_target (idt_table s' v) = (if v < 32 then 0x100000 + v * 16
        else if v < 48 then 0x100400 + (0x100410 - 0x100400) * (v - 32)
        else if v = 0x80 then 0x100800 else gate_target (idt_table int_example v))"
    and f: "\<forall>v. v < 48 \<longrightarrow> gate_flags (idt_table s' v) = 0x8e \<and> code_seg (idt_table s' v) = 0x10"
    using idt_load_installs_gates [of "\<lambda>v. 0x100000 + v * 16" "0x100400" "0x100410" "0x100800"
        "0x200000" "0x201000" int_example] by blast
  moreover have "gate_target (idt_table s' 14) = 0x1000e0" "gate_target (idt_table s' 33) = 0x100410"
    "gate_target (idt_table s' 0x80) = 0x100800"
    by (simp_all add: g)
  moreover have "gate_flags (idt_table s' 33) = 0x8e" using f by simp
  ultimately show ?thesis by blast
qed

definition segment_base :: "gdt_entry_t \<Rightarrow> u32" where
  "segment_base e = push_bit 24 (ucast (base_high e)) OR push_bit 16 (ucast (base_med e)) OR ucast (base_low e)"

lemma u32_split_base:
  "push_bit 24 (ucast (ucast (drop_bit 24 (t :: u32) AND 0xff) :: u8)) OR
   push_bit 16 (ucast (ucast (drop_bit 16 t AND 0xff) :: u8)) OR ucast (ucast (t AND 0xffff) :: u16) = t"
proof -
  have m: "(0xffff :: u32) = mask 16" "(0xff :: u32) = mask 8" by (simp_all add: mask_eq_exp_minus_1)
  show ?thesis
    unfolding m
  proof (rule bit_word_eqI)
    fix n
    assume "n < LENGTH(32)"
    then consider "n < 16" | "16 \<le> n" "n < 24" | "24 \<le> n" "n < 32" by force
    then show "bit (push_bit 24 (ucast (ucast (drop_bit 24 t AND mask 8) :: u8)) OR
       push_bit 16 (ucast (ucast (drop_bit 16 t AND mask 8) :: u8)) OR
       ucast (ucast (t AND mask 16) :: u16) :: u32) n = bit t n"
      by cases (auto simp: bit_simps)
  qed
qed

lemma heap_cong_ready:
  assumes "heap_map t = heap_map s" "heap_map_size t = heap_map_size s" "heap_lock t = heap_lock s"
    "heap_base t = heap_base s" "heap_first_free t = heap_first_free s"
  shows "kheap_ready t = kheap_ready s" "heap_addr t = heap_addr s"
  using assms by (simp_all add: kheap_ready_def heap_ready_def heap_addr_def heap_pages_def heap_max_index_def fun_eq_iff)

text \<open>
  \<^verbatim>\<open>tss_init\<close> writes a descriptor from which the hardware reads the address of the new task
  state segment, as an available 32-bit segment of privilege 0; it names the kernel's stack segment
  and the stack that \<^verbatim>\<open>tss_esp0\<close> remembers, loads the task register, and touches no other descriptor.
\<close>

theorem tss_init_descriptor:
  fixes s :: "'a int_state_scheme"
  assumes h: "kheap_ready s" "heap_rep B s" "gap B (heap_pages s) b 1"
    and room: "\<forall>a. gap B (heap_pages s) a 1 \<longrightarrow> (\<exists>c. gap (B(a \<mapsto> 1)) (heap_pages s) c 16)"
  shows "\<exists>s'. tss_init n s = Some s' \<and> segment_base (gdt s' n) = tss_vaddr s' \<and>
    sd_type (gdt s' n) = 9 \<and> seg_present (gdt s' n) = 1 \<and> dpl (gdt s' n) = 0 \<and> limit_low (gdt s' n) = 108 \<and>
    (\<forall>k. k \<noteq> n \<longrightarrow> gdt s' k = gdt s k) \<and>
    tss_ss0 (tss s') = 0x18 \<and> tss_esp0_field (tss s') = tss_esp0 s' \<and> task_register s' = n"
proof -
  obtain a s1 where s1: "kmalloc 1 s = Some (heap_addr s a 0, s1)" "gap B (heap_pages s) a 1"
      "heap_rep (B(a \<mapsto> 1)) s1" "kheap_ready s1" "heap_pages s1 = heap_pages s"
    using kmem.alloc_law [OF h(1,2), of 1 b] h(3) by auto
  have "heap_alloc 1 s = Some (heap_addr s a 0, s1)" using s1(1) h(1) by (simp add: kmalloc_def kheap_ready_def)
  then obtain m1 l1 where f1: "s1 = s\<lparr>heap_map := m1, heap_lock := l1\<rparr>" using heap_alloc_frame by blast
  define t where "t = heap_addr s a 0"
  define e where "e = (gdt s n)
           \<lparr>base_low := ucast (t AND 0xffff), base_med := ucast (drop_bit 16 t AND 0xff),
            base_high := ucast (drop_bit 24 t AND 0xff), limit_low := 108,
            limit_high := drop_bit 16 108, sd_type := 9, seg_type := 0, dpl := 0, seg_present := 1,
            gdt_flags := 0\<rparr>"
  define s2 where "s2 = s1\<lparr>tss_vaddr := t, gdt := (gdt s1)(n := e),
      tss := \<lparr>tss_esp0_field = 0, tss_ss0 = 0, tss_ss = 0\<rparr>\<rparr>"
  have h2: "kheap_ready s2" "heap_rep (B(a \<mapsto> 1)) s2" "heap_pages s2 = heap_pages s"
    using s1(3,4,5) heap_cong [of s2 s1] heap_cong_ready [of s2 s1] by (simp_all add: s2_def)
  obtain c where c: "gap (B(a \<mapsto> 1)) (heap_pages s2) c (unat (16 :: u32))" using room s1(2) h2(3) by auto
  obtain p s3 where s3: "kmalloc 16 s2 = Some (p, s3)" using kmem.alloc_law [OF h2(1,2) _ c] by auto
  have "heap_alloc 16 s2 = Some (p, s3)" using s3 h2(1) by (simp add: kmalloc_def kheap_ready_def)
  then obtain m3 l3 where f3: "s3 = s2\<lparr>heap_map := m3, heap_lock := l3\<rparr>" using heap_alloc_frame by blast
  have gd: "gdt s1 = gdt s" by (simp add: f1)
  define s4 where "s4 = s3\<lparr>tss := (tss s3)\<lparr>tss_ss0 := 0x18, tss_esp0_field := p + PAGE_SIZE_BYTES * 16 - 4\<rparr>,
      tss_esp0 := p + PAGE_SIZE_BYTES * 16 - 4, task_register := n\<rparr>"
  have run: "tss_init n s = Some s4"
    using s1(1) s3 by (simp add: tss_init_def s4_def Let_def t_def [symmetric] gd s2_def e_def)
  have "gdt s4 = (gdt s)(n := e)" "tss_vaddr s4 = t" by (simp_all add: s4_def f3 s2_def gd)
  moreover have "segment_base e = t" by (simp add: segment_base_def e_def u32_split_base)
  moreover have "sd_type e = 9" "seg_present e = 1" "dpl e = 0" "limit_low e = 108" by (simp_all add: e_def)
  moreover have "tss_ss0 (tss s4) = 0x18" "tss_esp0_field (tss s4) = tss_esp0 s4" "task_register s4 = n"
    by (simp_all add: s4_def)
  ultimately show ?thesis using run by (intro exI [of _ s4]) simp
qed

theorem tss_init_descriptor_witness:
  "\<exists>s'. tss_init 6 (int_example\<lparr>heap_map_size := 32\<rparr>) = Some s' \<and> segment_base (gdt s' 6) = tss_vaddr s'"
proof -
  let ?s = "int_example\<lparr>heap_map_size := 32\<rparr>"
  note defs = int_example_def sched_example_def mm_example_def heap_example_def sched_state.defs
    mm_state.defs heap_state.defs pm_state.defs
  have pages: "heap_pages ?s = 64" by (simp add: heap_pages_def heap_max_index_def)
  have h: "kheap_ready ?s" "heap_rep Map.empty ?s"
    by (simp_all add: kheap_ready_def heap_ready_def pages heap_rep_def get_heap_index_def) (simp_all add: defs)
  have g: "gap Map.empty (heap_pages ?s) 0 1" by (simp add: gap_def covered_def pages)
  have "gap ([a \<mapsto> 1]) 64 (if a < 32 then a + 1 else 0) 16" for a :: nat
    by (auto simp: gap_def covered_def)
  then have "\<forall>a. gap Map.empty (heap_pages ?s) a 1 \<longrightarrow> (\<exists>c. gap ([a \<mapsto> 1]) (heap_pages ?s) c 16)"
    unfolding pages by blast
  from tss_init_descriptor [OF h g this, of 6] show ?thesis by blast
qed

subsection \<open>Interrupts and the scheduler\<close>

text \<open>
  C23. The timer interrupt with \<^verbatim>\<open>schedule\<close> as its handler switches threads: the interrupted block is
  saved in the process that was running, the block returned is the saved one of a queued process,
  never the idle one while others are queued; the controller is acknowledged once, the in-interrupt
  flag is cleared, and the task segment's stack is the block that is resumed.
\<close>

theorem timer_interrupt_switches:
  fixes s :: "'a int_state_scheme"
  assumes frame: "store32 (regs + 28) regs (s\<lparr>in_interrupt := 1\<rparr>) = Some s1" "load_regs regs s1 = Some rg"
      "r_int_no rg = 32"
    and handler: "interrupt_handlers s 0 = hs" "hs \<noteq> 0" "call hs = schedule_handler"
    and inv: "sched_inv s" "distinct (rq s)" and t: "tss_vaddr s \<noteq> 0"
  shows "\<exists>r s'. irq_handler call int32 regs s = Some (r, s') \<and>
    current_pid s' \<in> set (rq s) \<and> (length (rq s) > 1 \<longrightarrow> current_pid s' \<noteq> 0) \<and> sched_inv s' \<and>
    cpuregs (processes s' (current_pid s)) = rg \<and> r = r_esp (cpuregs (processes s' (current_pid s'))) \<and>
    cr3 s' = p_page_dir (processes s' (current_pid s')) \<and>
    port_out s' = port_out s @ [(0x20, 0x20)] \<and> in_interrupt s' = 0 \<and> tss_esp0_field (tss s') = r"
proof -
  obtain ph where s1: "s1 = s\<lparr>in_interrupt := 1, phys := ph\<rparr>"
    using frame(1) by (auto simp: store32_def split: bind_splits)
  have view: "rq s1 = rq s" "current_pid s1 = current_pid s" by (simp_all add: s1 rq_def)
  have inv1: "sched_inv s1" "distinct (rq s1)"
    using inv unfolding view by (simp_all add: s1 sched_inv_def queue_ok_def rq_def)
  obtain r s2 where s2: "schedule rg s1 = Some (r, s2)" "current_pid s2 \<in> set (rq s1)" "rq s2 = rq s1" "sched_inv s2"
      "length (rq s1) > 1 \<longrightarrow> current_pid s2 \<noteq> 0"
      "processes s2 = (processes s1)(current_pid s1 := (processes s1 (current_pid s1))\<lparr>cpuregs := rg\<rparr>)"
      "cr3 s2 = p_page_dir (processes s2 (current_pid s2))" "r = r_esp (cpuregs (processes s2 (current_pid s2)))"
    using schedule_switches [OF inv1, of rg] by blast
  have ext: "port_out s2 = port_out s" "tss_vaddr s2 = tss_vaddr s"
    using schedule_eq [OF inv1(1), of rg] s2(1) by (auto simp: save_regs_def s1)
  have int_no: "load32 (regs + 48) s1 = Some 32"
    using frame(2,3) by (auto simp: load_regs_def split: bind_splits)
  let ?s' = "irq_end 32 r s2"
  have end_eq: "?s' = s2\<lparr>port_out := port_out s2 @ [(0x20, 0x20)], in_interrupt := 0,
      tss := (tss s2)\<lparr>tss_esp0_field := r, tss_ss := 0x18\<rparr>\<rparr>"
    using t ext by (simp add: irq_end_def outb_def reset_tss_stack_def get_tss_def)
  have "run_handlers call 32 regs s1 = Some (r, s2)"
    using handler s2(1) frame(2) by (simp add: run_handlers_def get_irq_handler_def s1 schedule_handler_def)
  then have "irq_handler call int32 regs s = Some (r, ?s')"
    using frame(1) int_no by (simp add: irq_handler_def)
  moreover have "sched_inv ?s'" using s2(4) by (simp add: end_eq sched_inv_def queue_ok_def rq_def)
  moreover have "cpuregs (processes ?s' (current_pid s)) = rg" using s2(6) view by (simp add: end_eq)
  moreover have "current_pid ?s' = current_pid s2" "processes ?s' = processes s2" "cr3 ?s' = cr3 s2"
    "port_out ?s' = port_out s @ [(0x20, 0x20)]" "in_interrupt ?s' = 0" "tss_esp0_field (tss ?s') = r"
    by (simp_all add: end_eq ext)
  ultimately show ?thesis
    using s2(2,5,7,8) unfolding view by (intro exI [of _ r] exI [of _ ?s'] conjI) simp_all
qed

definition frame_example :: int_state where
  "frame_example = int_example\<lparr>interrupt_handlers := (\<lambda>_. 0)(0 := 0x500), tss_vaddr := 0x400,
     cr3 := 0x1000, phys := (\<lambda>_ _. 0)(0x1000 := (\<lambda>_. 0)(0 := 0x83), 0x300000 := (\<lambda>_. 0)(12 := 32))\<rparr>"

lemma frame_example_walk:
  "mmu_walk (frame_example\<lparr>in_interrupt := i, phys := (phys frame_example)(0x300000 := f)\<rparr>) v =
     (if unat (pd_index v) = 0 then Some (v AND 0x3fffff) else None)"
  by (simp add: mmu_walk_def frame_example_def page_base_def)

theorem timer_interrupt_switches_witness:
  "\<exists>r s'. irq_handler (\<lambda>h. schedule_handler) (\<lambda>_. None) 0x300000 frame_example = Some (r, s') \<and>
     current_pid s' \<in> {5, 7} \<and> port_out s' = [(0x20, 0x20)]"
proof -
  let ?p = "\<lambda>f. (phys frame_example)(0x300000 := f)"
  have same: "?p ((\<lambda>_. 0)(12 := 32)) = phys frame_example" by (simp add: frame_example_def fun_eq_iff)
  define s1 where "s1 = frame_example\<lparr>in_interrupt := 1, phys := ?p ((\<lambda>_. 0)(12 := 32, 7 := 0x300000))\<rparr>"
  have walk0: "mmu_walk (frame_example\<lparr>in_interrupt := 1\<rparr>) v =
      (if unat (pd_index v) = 0 then Some (v AND 0x3fffff) else None)" for v
    using frame_example_walk [where f = "(\<lambda>_. 0)(12 := 32)" and i = 1 and v = v] by (simp only: same) simp
  have walk1: "mmu_walk s1 v = (if unat (pd_index v) = 0 then Some (v AND 0x3fffff) else None)" for v
    unfolding s1_def by (rule frame_example_walk)
  have ph: "phys (frame_example\<lparr>in_interrupt := 1\<rparr>) 0x300000 = (\<lambda>_. 0)(12 := 32)" by (simp add: frame_example_def)
  have st: "store32 (0x300000 + 28) 0x300000 (frame_example\<lparr>in_interrupt := 1\<rparr>) = Some s1"
    using ph by (simp add: store32_def walk0 pd_index_def page_base_def word_slot_def s1_def)
  have ph1: "phys s1 0x300000 = (\<lambda>_. 0)(12 := 32, 7 := 0x300000)" by (simp add: s1_def)
  have ld: "load_regs 0x300000 s1 = Some (zero_regs\<lparr>r_int_no := 32, r_esp := 0x300000\<rparr>)"
    by (simp add: load_regs_def load32_def walk1 pd_index_def page_base_def word_slot_def ph1 zero_regs_def)
  have sched: "rq frame_example = [0, 5, 7]" "current_pid frame_example = 5" "current_queue_index frame_example = 1"
    "queue_length frame_example = 3" "proc_lock frame_example = \<lparr>lock = False\<rparr>" "port_out frame_example = []"
    using sched_example_rq sched_example_sel
    by (simp_all add: frame_example_def int_example_def sched_state.defs rq_def)
  have inv: "sched_inv frame_example" "distinct (rq frame_example)"
    by (simp_all add: sched_inv_def queue_ok_def sched)
  have h: "interrupt_handlers frame_example 0 = 0x500" "tss_vaddr frame_example \<noteq> 0" by (simp_all add: frame_example_def)
  obtain r s' where r: "irq_handler (\<lambda>h. schedule_handler) (\<lambda>_. None) 0x300000 frame_example = Some (r, s')"
      "current_pid s' \<in> set (rq frame_example)" "length (rq frame_example) > 1 \<longrightarrow> current_pid s' \<noteq> 0"
      "port_out s' = port_out frame_example @ [(0x20, 0x20)]"
    using timer_interrupt_switches [OF st ld _ h(1) _ refl inv h(2), of "\<lambda>_. None"] by auto
  show ?thesis using r by (intro exI [of _ r] exI [of _ s']) (auto simp: sched)
qed

subsection \<open>The timer\<close>

text \<open>
  What the interval timer makes of the bytes written to its data port in the mode that
  \<^verbatim>\<open>0b00110000\<close> selects, low byte first, then high byte.
\<close>

definition pit_count :: "(u16 \<times> u8) list \<Rightarrow> u16" where
  "pit_count log = (case rev [d. (p, d) \<leftarrow> log, p = 0x40] of
      hi # lo # _ \<Rightarrow> push_bit 8 (ucast hi) OR ucast lo | _ \<Rightarrow> 0)"

text \<open>
  \<^verbatim>\<open>pit_reload\<close> sends the high byte of the divisor first, so that the timer counts from the
  divisor with its bytes exchanged; for the 1000 Hz that \<^verbatim>\<open>idt_load\<close> asks for the timer runs with
  the divisor 43268 instead of 1193.
\<close>

theorem pit_reload_swaps_bytes:
  "pit_count (port_out (pit_reload mode reload s)) = push_bit 8 reload OR drop_bit 8 reload \<and>
   pit_count (port_out (snd (pit_init 1000 s))) = 43268"
proof -
  have rd: "pit_count (port_out (pit_reload mode reload s)) =
      push_bit 8 (ucast (ucast (reload AND 0xff) :: u8)) OR ucast (ucast (drop_bit 8 reload) :: u8)" for mode reload
    by (simp add: pit_count_def pit_reload_def outb_def)
  have m: "(0xff :: u16) = mask 8" by (simp add: mask_eq_exp_minus_1)
  have "pit_count (port_out (pit_reload mode reload s)) = push_bit 8 reload OR drop_bit 8 reload" for mode reload
    unfolding rd m
  proof (rule bit_word_eqI)
    fix n
    assume "n < LENGTH(16)"
    then consider "n < 8" | "8 \<le> n" "n < 16" by force
    then show "bit (push_bit 8 (ucast (ucast (reload AND mask 8) :: u8)) OR
        ucast (ucast (drop_bit 8 reload) :: u8) :: u16) n = bit (push_bit 8 reload OR drop_bit 8 reload) n"
      by cases (auto simp: bit_simps dest: bit_imp_le_length)
  qed
  moreover from this have "pit_count (port_out (snd (pit_init 1000 s))) = 43268"
    by (simp add: pit_init_def Let_def)
  ultimately show ?thesis by blast
qed

end
