(* ===== verification/KStrings.thy ===== *)
theory KStrings
  imports Prelude
begin

text \<open>
  The string and memory routines of the kernel (\<^verbatim>\<open>src/kernel/system/string.c\<close>,
  \<^verbatim>\<open>src/kernel/shared/string.h\<close>, \<^verbatim>\<open>atoi\<close> of \<^verbatim>\<open>src/kernel/shared/kstdlib.c\<close>).

  They run on a byte memory \<open>bmem\<close>: the bytes of the current address space, \<open>None\<close> where no page
  is present, so that an access there has no outcome.  A \<^verbatim>\<open>char *\<close> is an address, and overlapping
  strings share bytes as they do in the program.  \<^verbatim>\<open>char\<close> is signed on i386; where the source
  compares or subtracts characters as numbers the definitions use \<open>sint\<close>.

  \<open>cstr m p xs\<close> says that the characters \<open>xs\<close> and a terminating zero lie at \<open>p\<close>.  The lemmas
  compute every routine on such strings; \<^verbatim>\<open>itoa\<close> and \<^verbatim>\<open>atoi\<close> are inverse in base ten.
\<close>

type_synonym bmem = "u32 \<Rightarrow> u8 option"

subsection \<open>Operations\<close>

definition wr :: "u32 \<Rightarrow> u8 \<Rightarrow> bmem \<Rightarrow> bmem option" where
  "wr a v m = (if m a = None then None else Some (m(a \<mapsto> v)))"

partial_function (option) strlen_loop :: "bmem \<Rightarrow> u32 \<Rightarrow> u32 \<Rightarrow> u32 option" where
  "strlen_loop m str c = do {
     b \<leftarrow> m str;
     if b = 0 then Some c else strlen_loop m (str + 1) (c + 1)
   }"

definition strlen :: "bmem \<Rightarrow> u32 \<Rightarrow> u32 option" where
  "strlen m str = strlen_loop m str 0"

partial_function (option) strcmp_loop :: "bmem \<Rightarrow> u32 \<Rightarrow> u32 \<Rightarrow> u32 \<Rightarrow> u32 option" where
  "strcmp_loop m str1 str2 i = do {
     a \<leftarrow> m (str1 + i);
     b \<leftarrow> m (str2 + i);
     if a \<noteq> 0 \<and> a = b then strcmp_loop m str1 str2 (i + 1)
     else Some (if a = b then 0 else 1)
   }"

definition strcmp :: "bmem \<Rightarrow> u32 \<Rightarrow> u32 \<Rightarrow> u32 option" where
  "strcmp m str1 str2 = strcmp_loop m str1 str2 0"

definition copy_bytes :: "u32 \<Rightarrow> u32 \<Rightarrow> nat \<Rightarrow> bmem \<Rightarrow> bmem option" where
  "copy_bytes src dest n m =
     fold_opt (\<lambda>i m. do { b \<leftarrow> m (src + of_nat i); wr (dest + of_nat i) b m }) [0..<n] m"

definition memcpy_b :: "u32 \<Rightarrow> u32 \<Rightarrow> u32 \<Rightarrow> bmem \<Rightarrow> bmem option" where
  "memcpy_b src dest c m = copy_bytes src dest (unat c) m"

definition strcpy :: "u32 \<Rightarrow> u32 \<Rightarrow> bmem \<Rightarrow> bmem option" where
  "strcpy src dest m =
     (if src = 0 \<or> dest = 0 then Some m
      else do {
        len \<leftarrow> strlen m src;
        m \<leftarrow> copy_bytes src dest (unat len) m;
        wr (dest + len) 0 m
      })"

definition strcat :: "u32 \<Rightarrow> u32 \<Rightarrow> bmem \<Rightarrow> bmem option" where
  "strcat src dest m = do { n \<leftarrow> strlen m dest; strcpy src (dest + n) m }"

primrec memcmp_loop :: "bmem \<Rightarrow> u32 \<Rightarrow> u32 \<Rightarrow> nat list \<Rightarrow> int option" where
  "memcmp_loop m ptr1 ptr2 [] = Some 0"
| "memcmp_loop m ptr1 ptr2 (i # is) = do {
     a \<leftarrow> m (ptr1 + of_nat i);
     b \<leftarrow> m (ptr2 + of_nat i);
     if a = b then memcmp_loop m ptr1 ptr2 is else Some (sint a - sint b)
   }"

definition memcmp :: "bmem \<Rightarrow> u32 \<Rightarrow> u32 \<Rightarrow> u32 \<Rightarrow> int option" where
  "memcmp m ptr1 ptr2 n = memcmp_loop m ptr1 ptr2 [0..<unat n]"

definition memset :: "u32 \<Rightarrow> u32 \<Rightarrow> u32 \<Rightarrow> bmem \<Rightarrow> bmem option" where
  "memset ptr v num m = fold_opt (\<lambda>i. wr (ptr + of_nat i) (ucast v)) [0..<unat num] m"

text \<open>
  \<^verbatim>\<open>strpad\<close> uses a local array \<^verbatim>\<open>tmp[length]\<close>; \<open>tmp\<close> is the address the compiler gives it.  The
  first test compares the length with the padding \<^emph>\<open>character\<close>.
\<close>

definition strpad :: "u32 \<Rightarrow> u32 \<Rightarrow> u8 \<Rightarrow> u32 \<Rightarrow> bmem \<Rightarrow> bmem option" where
  "strpad tmp string padding len m = do {
     n \<leftarrow> strlen m string;
     if n \<ge> scast padding then Some m
     else do {
       m \<leftarrow> fold_opt (\<lambda>i. wr (tmp + of_nat i) padding) [0..<unat (len - n)] m;
       n \<leftarrow> strlen m string;
       m \<leftarrow> strcpy string (tmp + len - n) m;
       strcpy tmp string m
     }
   }"

text \<open>
  \<^verbatim>\<open>strtok\<close> keeps the rest of the string in the static \<^verbatim>\<open>input\<close> and copies the token to the
  global \<^verbatim>\<open>res[256]\<close>, whose address is \<open>res\<close>; a longer token leaves the array.
\<close>

partial_function (option) strtok_loop ::
    "u32 \<Rightarrow> u8 \<Rightarrow> u32 \<Rightarrow> u32 \<Rightarrow> bmem \<Rightarrow> (u32 \<times> bmem) option" where
  "strtok_loop res d input i m = do {
     c \<leftarrow> m (input + i);
     if i \<ge> 256 then None
     else if c = 0 then do { m \<leftarrow> wr (res + i) 0 m; Some (0, m) }
     else if c = d then do { m \<leftarrow> wr (res + i) 0 m; Some (input + i + 1, m) }
     else do { m \<leftarrow> wr (res + i) c m; strtok_loop res d input (i + 1) m }
   }"

definition strtok :: "u32 \<Rightarrow> u32 \<Rightarrow> u8 \<Rightarrow> u32 \<Rightarrow> bmem \<Rightarrow> (u32 \<times> u32 \<times> bmem) option" where
  "strtok res string d input m =
     (let input = (if string \<noteq> 0 then string else input)
      in if input = 0 then Some (0, 0, m)
         else do { (input, m) \<leftarrow> strtok_loop res d input 0 m; Some (res, input, m) })"

text \<open>
  \<^verbatim>\<open>itoa\<close>: \<^verbatim>\<open>carr\<close> is the array of 36 digits and its terminator.  The digits are collected, least
  significant first, in \<^verbatim>\<open>buffer[12]\<close>; the first argument of \<open>itoa_digits\<close> counts its free cells.
\<close>

definition carr :: "u32 \<Rightarrow> u8 option" where
  "carr i = (if i < 10 then Some (48 + ucast i) else if i < 36 then Some (55 + ucast i)
             else if i = 36 then Some 0 else None)"

primrec itoa_digits :: "nat \<Rightarrow> u32 \<Rightarrow> u32 \<Rightarrow> u8 list option" where
  "itoa_digits 0 base tmp = (if tmp = 0 then Some [] else None)"
| "itoa_digits (Suc k) base tmp =
     (if tmp = 0 then Some []
      else if base = 0 then None
      else do {
        c \<leftarrow> carr (tmp mod base);
        ds \<leftarrow> itoa_digits k base (tmp div base);
        Some (c # ds)
      })"

definition itoa :: "64 word \<Rightarrow> u32 \<Rightarrow> u8 \<Rightarrow> bmem \<Rightarrow> bmem option" where
  "itoa data res base m =
     (if res = 0 then Some m
      else if data = 0 then do { m \<leftarrow> wr res 48 m; wr (res + 1) 0 m }
      else do {
        let neg = (data <s 0 \<and> base = 10);
        let data = (if neg then - data else data);
        let negative = (if neg then 1 else 0);
        buffer \<leftarrow> itoa_digits 12 (ucast base) (ucast data);
        let n = length buffer;
        m \<leftarrow> wr (res + of_nat n) 0 m;
        m \<leftarrow> fold_opt (\<lambda>i. wr (res + of_nat (n - 1 - i) + negative) (buffer ! i)) [0..<n] m;
        c \<leftarrow> m res;
        wr res (c + (if neg then 45 else 0)) m
      })"

definition digit_value :: "u32 \<Rightarrow> u8 \<Rightarrow> u32" where
  "digit_value base c =
     (if sint c \<ge> 48 \<and> scast c \<le> (57 - (if base < 10 then 10 - base else 0) :: u32) then scast c - 48 else 0) +
     (if base > 10 \<and> sint c \<ge> 97 \<and> scast c \<le> (102 - (16 - base) :: u32) then scast c - 97 + 10 else 0)"

partial_function (option) atoi_loop :: "bmem \<Rightarrow> u32 \<Rightarrow> u32 \<Rightarrow> u32 \<Rightarrow> u32 \<Rightarrow> u32 option" where
  "atoi_loop m str base i tot = do {
     c \<leftarrow> m (str + i);
     if c = 0 then Some tot
     else atoi_loop m str base (i + 1) (tot * base + digit_value base c)
   }"

definition atoi :: "bmem \<Rightarrow> u32 \<Rightarrow> u32 \<Rightarrow> u32 option" where
  "atoi m str base = atoi_loop m str base 0 0"

subsection \<open>Strings in memory\<close>

definition span :: "u32 \<Rightarrow> nat \<Rightarrow> u32 \<Rightarrow> bool" where
  "span p n a \<longleftrightarrow> unat (a - p) < n"

definition mapped :: "bmem \<Rightarrow> u32 \<Rightarrow> nat \<Rightarrow> bool" where
  "mapped m p n \<longleftrightarrow> (\<forall>i<n. m (p + of_nat i) \<noteq> None)"

definition cstr :: "bmem \<Rightarrow> u32 \<Rightarrow> u8 list \<Rightarrow> bool" where
  "cstr m p xs \<longleftrightarrow> length xs < 2 ^ 32 \<and> 0 \<notin> set xs \<and>
     (\<forall>i\<le>length xs. m (p + of_nat i) = Some ((xs @ [0]) ! i))"

text \<open>Two ranges of \<open>n\<close> and \<open>k\<close> bytes that do not share an address.\<close>

definition apart :: "u32 \<Rightarrow> nat \<Rightarrow> u32 \<Rightarrow> nat \<Rightarrow> bool" where
  "apart p n q k \<longleftrightarrow> (\<forall>i<n. \<not> span q k (p + of_nat i))"

lemma span_at [simp]: "i < n \<Longrightarrow> i < 2 ^ 32 \<Longrightarrow> span p n (p + of_nat i)"
  by (simp add: span_def unat_of_nat_lt)

lemma span_offset:
  assumes "span p n a"
  obtains i where "i < n" "a = p + of_nat i"
  using assms that [of "unat (a - p)"] by (simp add: span_def)

lemma apart_ne:
  assumes "apart p n q k" "i < n" "j < k" "k \<le> 2 ^ 32"
  shows "p + of_nat i \<noteq> q + of_nat j"
  using assms span_at [of j k q] by (auto simp: apart_def)

lemma apart_mono: "apart p n q k \<Longrightarrow> n' \<le> n \<Longrightarrow> k' \<le> k \<Longrightarrow> apart p n' q k'"
  unfolding apart_def span_def by (meson less_le_trans)

lemma apart_off: "apart p n q k \<Longrightarrow> i < n \<Longrightarrow> j \<le> k \<Longrightarrow> \<not> span q j (p + of_nat i)"
  unfolding apart_def span_def by (meson less_le_trans)

lemma cstr_nth: "cstr m p xs \<Longrightarrow> i < length xs \<Longrightarrow> m (p + of_nat i) = Some (xs ! i)"
  by (auto simp: cstr_def nth_append)

lemma cstr_end: "cstr m p xs \<Longrightarrow> m (p + of_nat (length xs)) = Some 0"
  by (auto simp: cstr_def nth_append)

lemma cstr_nz: "cstr m p xs \<Longrightarrow> i < length xs \<Longrightarrow> xs ! i \<noteq> 0"
  by (metis cstr_def nth_mem)

lemma cstr_len: "cstr m p xs \<Longrightarrow> length xs < 2 ^ 32"
  by (simp add: cstr_def)

lemma cstrI:
  assumes "length xs < 2 ^ 32" "0 \<notin> set xs" "\<And>i. i < length xs \<Longrightarrow> m (p + of_nat i) = Some (xs ! i)"
    "m (p + of_nat (length xs)) = Some 0"
  shows "cstr m p xs"
  using assms by (auto simp: cstr_def nth_append)

lemma cstr_frame:
  assumes "cstr m p xs" "\<And>i. i \<le> length xs \<Longrightarrow> m' (p + of_nat i) = m (p + of_nat i)"
  shows "cstr m' p xs"
  using assms by (simp add: cstr_def)

lemma cstr_suffix:
  assumes "cstr m p (xs @ ys)"
  shows "cstr m (p + of_nat (length xs)) ys"
proof (rule cstrI)
  fix i
  assume "i < length ys"
  then show "m (p + of_nat (length xs) + of_nat i) = Some (ys ! i)"
    using cstr_nth [OF assms, of "length xs + i"] by (simp add: add.assoc)
qed (use assms cstr_end [OF assms] in \<open>auto simp: cstr_def add.assoc\<close>)

lemma strlen_loop_cstr:
  assumes "cstr m p xs" "i \<le> length xs"
  shows "strlen_loop m (p + of_nat i) (of_nat i) = Some (of_nat (length xs))"
  using assms(2)
proof (induction "length xs - i" arbitrary: i)
  case 0
  then show ?case using cstr_end [OF assms(1)] by (simp add: strlen_loop.simps)
next
  case (Suc k)
  then have "i < length xs" by simp
  with Suc.hyps(1) [of "Suc i"] Suc.hyps(2) show ?case
    using cstr_nth [OF assms(1)] cstr_nz [OF assms(1)]
    by (simp add: strlen_loop.simps [of m "p + of_nat i"] ac_simps)
qed

lemma strlen_cstr: "cstr m p xs \<Longrightarrow> strlen m p = Some (of_nat (length xs))"
  using strlen_loop_cstr [of m p xs 0] by (simp add: strlen_def)

lemma unat_strlen: "cstr m p xs \<Longrightarrow> unat (of_nat (length xs) :: u32) = length xs"
  using cstr_len by (simp add: unat_of_nat_lt)

subsection \<open>Comparing and copying\<close>

lemma strcmp_loop_cstr:
  assumes x: "cstr m p xs" and y: "cstr m q ys" and "take i xs = take i ys" "i \<le> length xs" "i \<le> length ys"
  shows "strcmp_loop m p q (of_nat i) = Some (if xs = ys then 0 else 1)"
  using assms(3-)
proof (induction "length xs - i" arbitrary: i)
  case 0
  then have i: "i = length xs" by simp
  have "ys = xs" if "i = length ys" using 0 i that by simp
  moreover have "ys \<noteq> xs" if "i < length ys" using i that by auto
  ultimately show ?case
    using i 0 cstr_end [OF x] cstr_end [OF y] cstr_nth [OF y, of i] cstr_nz [OF y, of i]
    by (cases "i = length ys") (auto simp: strcmp_loop.simps [of m p q])
next
  case (Suc k)
  then have i: "i < length xs" by simp
  show ?case
  proof (cases "i < length ys \<and> xs ! i = ys ! i")
    case True
    then have "take (Suc i) xs = take (Suc i) ys" using i Suc.prems by (simp add: take_Suc_conv_app_nth)
    with Suc.hyps(1) [of "Suc i"] Suc.hyps(2) True i show ?thesis
      using cstr_nth [OF x i] cstr_nz [OF x i] cstr_nth [OF y, of i]
      by (simp add: strcmp_loop.simps [of m p q "of_nat i"] ac_simps)
  next
    case False
    then have "xs \<noteq> ys" using i by auto
    with False show ?thesis
      using i Suc.prems cstr_nth [OF x i] cstr_nz [OF x i] cstr_nth [OF y, of i] cstr_end [OF y]
      by (cases "i < length ys")
        (auto simp: strcmp_loop.simps [of m p q "of_nat i"] strcmp_loop.simps [of m p q "of_nat (length ys)"])
  qed
qed

lemma strcmp_cstr: "cstr m p xs \<Longrightarrow> cstr m q ys \<Longrightarrow> strcmp m p q = Some (if xs = ys then 0 else 1)"
  using strcmp_loop_cstr [of m p xs q ys 0] by (simp add: strcmp_def)

definition overlay :: "u32 \<Rightarrow> nat \<Rightarrow> (nat \<Rightarrow> u8) \<Rightarrow> bmem \<Rightarrow> bmem" where
  "overlay p n f m = (\<lambda>a. if span p n a then Some (f (unat (a - p))) else m a)"

lemma overlay_0 [simp]: "overlay p 0 f m = m"
  by (simp add: overlay_def span_def)

lemma overlay_at [simp]: "i < n \<Longrightarrow> n \<le> 2 ^ 32 \<Longrightarrow> overlay p n f m (p + of_nat i) = Some (f i)"
  by (simp add: overlay_def unat_of_nat_lt)

lemma overlay_off: "\<not> span p n a \<Longrightarrow> overlay p n f m a = m a"
  by (simp add: overlay_def)

lemma overlay_cong: "(\<And>i. i < n \<Longrightarrow> f i = g i) \<Longrightarrow> overlay p n f m = overlay p n g m"
  by (auto simp: overlay_def span_def)

lemma mapped_overlay: "mapped m q k \<Longrightarrow> mapped (overlay p n f m) q k"
  by (simp add: mapped_def overlay_def)

lemma span_Suc:
  assumes "n < 2 ^ 32"
  shows "span p (Suc n) a \<longleftrightarrow> span p n a \<or> a = p + of_nat n"
proof
  assume "span p (Suc n) a"
  then consider "unat (a - p) < n" | "unat (a - p) = n" by (auto simp: span_def less_Suc_eq)
  then show "span p n a \<or> a = p + of_nat n"
  proof cases
    case 2
    then have "a - p = of_nat n" using assms by (simp add: word_unat_eq_iff unat_of_nat_lt)
    then show ?thesis by (simp add: diff_eq_eq add.commute)
  qed (simp add: span_def)
qed (use assms in \<open>auto simp: span_def unat_of_nat_lt\<close>)

lemma overlay_Suc:
  assumes "n < 2 ^ 32"
  shows "(overlay p n f m)(p + of_nat n \<mapsto> f n) = overlay p (Suc n) f m"
  using assms by (auto simp: overlay_def span_Suc fun_eq_iff unat_of_nat_lt)

text \<open>A loop that stores \<open>f 0\<close>, \<open>f 1\<close>, ... from \<open>p\<close> upwards.\<close>

lemma fill_loop:
  assumes "mapped m p n" "n \<le> 2 ^ 32"
    and "\<And>i. i < n \<Longrightarrow> g i (overlay p i f m) = wr (p + of_nat i) (f i) (overlay p i f m)"
  shows "fold_opt g [0..<n] m = Some (overlay p n f m)"
proof -
  have "\<exists>m'. fold_opt g [0..<n] m = Some m' \<and> m' = overlay p n f m"
  proof (rule fold_opt_invariant [where P = "\<lambda>i m'. m' = overlay p i f m"])
    fix i m'
    assume i: "i < n" "m' = overlay p i f m"
    then have "m' (p + of_nat i) \<noteq> None" using mapped_overlay [OF assms(1)] by (simp add: mapped_def)
    then show "\<exists>m''. g i m' = Some m'' \<and> m'' = overlay p (Suc i) f m"
      using assms(2,3) i by (auto simp: wr_def overlay_Suc)
  qed simp
  then show ?thesis by simp
qed

lemma copy_bytes_overlay:
  assumes "mapped m dest n" "n \<le> 2 ^ 32" "apart src n dest n"
    and "\<And>i. i < n \<Longrightarrow> m (src + of_nat i) = Some (f i)"
  shows "copy_bytes src dest n m = Some (overlay dest n f m)"
  unfolding copy_bytes_def
proof (rule fill_loop [OF assms(1,2)])
  fix i
  assume i: "i < n"
  then have "\<not> span dest i (src + of_nat i)" using assms(3) by (auto simp: apart_def span_def)
  then show "(do { b \<leftarrow> overlay dest i f m (src + of_nat i); wr (dest + of_nat i) b (overlay dest i f m) }) =
      wr (dest + of_nat i) (f i) (overlay dest i f m)"
    using assms(4) [OF i] by (simp add: overlay_off)
qed

lemma memset_overlay:
  assumes "mapped m ptr (unat num)"
  shows "memset ptr v num m = Some (overlay ptr (unat num) (\<lambda>_. ucast v) m)"
  unfolding memset_def
  by (rule fill_loop [OF assms]) (simp_all add: less_imp_le [OF unat_u32_less, simplified])

definition put_str :: "u32 \<Rightarrow> u8 list \<Rightarrow> bmem \<Rightarrow> bmem" where
  "put_str p xs m = overlay p (Suc (length xs)) (\<lambda>i. (xs @ [0]) ! i) m"

lemma put_str_cstr:
  assumes "length xs < 2 ^ 32" "0 \<notin> set xs"
  shows "cstr (put_str p xs m) p xs"
  using assms by (simp add: cstr_def put_str_def)

lemma put_str_off: "\<not> span p (Suc (length xs)) a \<Longrightarrow> put_str p xs m a = m a"
  by (simp add: put_str_def overlay_off)

lemma strcpy_cstr:
  assumes s: "cstr m src xs" and "src \<noteq> 0" "dest \<noteq> 0" and d: "mapped m dest (Suc (length xs))"
    and ap: "apart src (Suc (length xs)) dest (Suc (length xs))"
  shows "strcpy src dest m = Some (put_str dest xs m)"
proof -
  have n: "length xs < 2 ^ 32" using s by (rule cstr_len)
  let ?f = "\<lambda>i. (xs @ [0]) ! i"
  have "copy_bytes src dest (length xs) m = Some (overlay dest (length xs) ?f m)"
  proof (rule copy_bytes_overlay)
    show "mapped m dest (length xs)" using d by (simp add: mapped_def)
    show "apart src (length xs) dest (length xs)" using ap by (rule apart_mono) simp_all
    show "m (src + of_nat i) = Some (?f i)" if "i < length xs" for i
      using cstr_nth [OF s that] that by (simp add: nth_append)
  qed (use n in simp)
  moreover have "overlay dest (length xs) ?f m (dest + of_nat (length xs)) \<noteq> None"
    using mapped_overlay [OF d] by (simp add: mapped_def)
  ultimately show ?thesis
    using assms(2,3) n overlay_Suc [OF n, of dest ?f m]
    by (simp add: strcpy_def strlen_cstr [OF s] unat_strlen [OF s] wr_def put_str_def)
qed

lemma strcat_cstr:
  assumes s: "cstr m src xs" and d: "cstr m dest ys" and "src \<noteq> 0" "dest + of_nat (length ys) \<noteq> 0"
    and "mapped m (dest + of_nat (length ys)) (Suc (length xs))"
    and "apart src (Suc (length xs)) (dest + of_nat (length ys)) (Suc (length xs))"
  shows "strcat src dest m = Some (put_str (dest + of_nat (length ys)) xs m)"
  using strcpy_cstr [OF s assms(3,4,5,6)] by (simp add: strcat_def strlen_cstr [OF d])

subsection \<open>Tokens\<close>

lemma strtok_loop_token:
  assumes s: "cstr m input xs" and ys: "ys = takeWhile (\<lambda>c. c \<noteq> d) xs" and len: "length ys < 256"
    and res: "mapped m res 256" and ap: "apart input (Suc (length xs)) res 256"
    and i: "i \<le> length ys"
  shows "strtok_loop res d input (of_nat i) (overlay res i ((!) ys) m) =
    Some (if length ys = length xs then 0 else input + of_nat (Suc (length ys)), put_str res ys m)"
  using i
proof (induction "length ys - i" arbitrary: i)
  case (0 i)
  then have i: "i = length ys" by simp
  have le: "length ys \<le> length xs" unfolding ys by (rule length_takeWhile_le)
  let ?m = "overlay res i ((!) ys) m"
  have "\<not> span res i (input + of_nat i)"
    using apart_off [OF ap] len le i by simp
  then have rd: "?m (input + of_nat i) = Some (if length ys = length xs then 0 else d)"
    using cstr_end [OF s] cstr_nth [OF s, of i] nth_length_takeWhile [of "\<lambda>c. c \<noteq> d" xs] le i
    by (auto simp: overlay_off ys)
  have nz: "length ys \<noteq> length xs \<Longrightarrow> d \<noteq> 0"
    using cstr_nz [OF s, of i] nth_length_takeWhile [of "\<lambda>c. c \<noteq> d" xs] le i by (auto simp: ys)
  have "?m = overlay res i (\<lambda>i. (ys @ [0]) ! i) m"
    by (rule overlay_cong) (use i in \<open>simp add: nth_append\<close>)
  then have "?m(res + of_nat i \<mapsto> 0) = put_str res ys m"
    using overlay_Suc [of i res "\<lambda>i. (ys @ [0]) ! i" m] i len by (simp add: put_str_def)
  moreover have "?m (res + of_nat i) \<noteq> None"
    using mapped_overlay [OF res] i len by (simp add: mapped_def)
  ultimately have w: "wr (res + of_nat i) 0 ?m = Some (put_str res ys m)" by (simp add: wr_def)
  have "\<not> (256 :: u32) \<le> of_nat i" using i len by (simp add: word_le_nat_alt unat_of_nat_lt)
  then show ?case using rd w nz i by (auto simp: strtok_loop.simps [of res d input] ac_simps)
next
  case (Suc k i)
  then have i: "i < length ys" by simp
  have le: "length ys \<le> length xs" unfolding ys by (rule length_takeWhile_le)
  let ?m = "overlay res i ((!) ys) m"
  have "\<not> span res i (input + of_nat i)" using apart_off [OF ap] len le i by simp
  moreover have "xs ! i = ys ! i" using i by (simp add: ys takeWhile_nth)
  moreover have "ys ! i \<noteq> d" using i set_takeWhileD [of "ys ! i" "\<lambda>c. c \<noteq> d" xs] by (auto simp: ys)
  ultimately have c: "?m (input + of_nat i) = Some (ys ! i)" "ys ! i \<noteq> 0" "ys ! i \<noteq> d"
    using cstr_nth [OF s, of i] cstr_nz [OF s, of i] i le by (simp_all add: overlay_off)
  have "?m (res + of_nat i) \<noteq> None"
    using mapped_overlay [OF res] i len by (simp add: mapped_def)
  then have w: "wr (res + of_nat i) (ys ! i) ?m = Some (overlay res (Suc i) ((!) ys) m)"
    using overlay_Suc [of i res "(!) ys" m] i len by (simp add: wr_def)
  have "\<not> (256 :: u32) \<le> of_nat i" using i len by (simp add: word_le_nat_alt unat_of_nat_lt)
  then show ?case
    using c w Suc.hyps(1) [of "Suc i"] Suc.hyps(2) i
    by (simp add: strtok_loop.simps [of res d input "of_nat i"] ac_simps)
qed

subsection \<open>Numbers\<close>

lemma atoi_loop_cstr:
  assumes "cstr m p xs" "i \<le> length xs"
  shows "atoi_loop m p base (of_nat i) t =
    Some (foldl (\<lambda>t c. t * base + digit_value base c) t (drop i xs))"
  using assms(2)
proof (induction "length xs - i" arbitrary: i t)
  case 0
  then show ?case using cstr_end [OF assms(1)] by (simp add: atoi_loop.simps [of m p])
next
  case (Suc k)
  then have i: "i < length xs" by simp
  with Suc.hyps(1) [of "Suc i"] Suc.hyps(2) show ?case
    using cstr_nth [OF assms(1) i] cstr_nz [OF assms(1) i]
    by (simp add: atoi_loop.simps [of m p base "of_nat i"] ac_simps flip: Cons_nth_drop_Suc)
qed

lemma atoi_cstr: "cstr m p xs \<Longrightarrow>
    atoi m p base = Some (foldl (\<lambda>t c. t * base + digit_value base c) 0 xs)"
  using atoi_loop_cstr [of m p xs 0] by (simp add: atoi_def)

lemma small_char:
  fixes c :: u8
  assumes "unat c < 128"
  shows "sint c = int (unat c)" "unat (scast c :: u32) = unat c"
proof -
  have "uint c < 128" using assms unfolding uint_nat by linarith
  then have s: "sint c = uint c"
    unfolding sint_uint by (intro signed_take_bit_int_eq_self order.trans [OF _ uint_ge_0]) simp_all
  then show "sint c = int (unat c)" by (metis uint_nat)
  have "(scast c :: u32) = of_int (sint c)" by (rule of_int_sint [symmetric])
  also have "\<dots> = ucast c" unfolding s by (rule of_int_uint)
  finally have "(scast c :: u32) = ucast c" .
  then show "unat (scast c :: u32) = unat c" by (simp add: unat_ucast_up)
qed

lemma digit_value_carr:
  assumes "2 \<le> b" "b \<le> 10" "d < b"
  shows "carr d = Some (48 + ucast d) \<and> digit_value b (48 + ucast d) = d \<and> (48 + ucast d :: u8) \<noteq> 0"
proof -
  have b: "2 \<le> unat b" "unat b \<le> 10" and d: "unat d < unat b"
    using assms by (simp_all add: word_le_nat_alt word_less_nat_alt)
  let ?c = "48 + ucast d :: u8"
  have "unat (ucast d :: u8) = unat d" using b d by (simp add: unat_ucast_fits)
  then have c: "unat ?c = 48 + unat d" using b d by (subst unat_add_lt) simp_all
  note sc = small_char [of ?c, unfolded c]
  have sub: "unat (scast ?c - 48 :: u32) = unat d"
    using sc b d by (simp add: unat_sub word_le_nat_alt)
  have "unat (10 - b) = 10 - unat b" using b by (simp add: unat_sub word_le_nat_alt)
  then have "unat (57 - (if b < 10 then 10 - b else 0)) = 47 + unat b"
    using b by (subst unat_sub) (auto simp: word_le_nat_alt word_less_nat_alt)
  then have "scast ?c \<le> (57 - (if b < 10 then 10 - b else 0) :: u32)"
    using sc b d by (simp add: word_le_nat_alt)
  moreover have "sint ?c \<ge> 48" using sc b d by simp
  moreover have "\<not> b > 10" using assms by (simp add: not_less)
  ultimately have "digit_value b ?c = scast ?c - 48" by (simp add: digit_value_def)
  also have "\<dots> = d" using sub by (simp add: unat_inj)
  finally have "digit_value b ?c = d" .
  moreover have "?c \<noteq> 0" using c by (metis add_eq_0_iff_both_eq_0 unat_0 zero_neq_numeral)
  moreover have "d < 10" using b d by (simp add: word_less_nat_alt)
  ultimately show ?thesis by (simp add: carr_def)
qed

lemma itoa_digits_value:
  assumes "2 \<le> b" "b \<le> 10" "unat t < unat b ^ k"
  shows "\<exists>ds. itoa_digits k b t = Some ds \<and> length ds \<le> k \<and> 0 \<notin> set ds \<and> (ds = [] \<longleftrightarrow> t = 0) \<and>
    foldr (\<lambda>c v. v * b + digit_value b c) ds 0 = t"
  using assms(3)
proof (induction k arbitrary: t)
  case 0
  then show ?case by (simp add: unat_eq_0)
next
  case (Suc k)
  show ?case
  proof (cases "t = 0")
    case False
    have b: "unat b \<noteq> 0" "b \<noteq> 0" using assms by (auto simp: word_le_nat_alt)
    then have "unat (t div b) < unat b ^ k"
      using Suc.prems by (simp add: unat_div_distrib less_mult_imp_div_less ac_simps)
    then obtain ds where ds: "itoa_digits k b (t div b) = Some ds" "length ds \<le> k" "0 \<notin> set ds"
        "foldr (\<lambda>c v. v * b + digit_value b c) ds 0 = t div b"
      using Suc.IH by blast
    have "t mod b < b" using b(2) by (simp add: word_mod_less_divisor word_gt_0)
    from digit_value_carr [OF assms(1,2) this] ds b(2) False show ?thesis
      using word_mod_div_equality [of t b] by simp
  qed simp
qed

subsection \<open>Properties\<close>

text \<open>The memory of the examples: every page present, all bytes zero except those listed.\<close>

definition bytes_at :: "u32 \<Rightarrow> u8 list \<Rightarrow> bmem" where
  "bytes_at p xs = overlay p (length xs) ((!) xs) (\<lambda>_. Some 0)"

lemma bytes_at_mapped [simp]: "mapped (bytes_at p xs) q n"
  by (auto simp: bytes_at_def mapped_def overlay_def)

lemma bytes_at_cstr:
  assumes "length xs < 2 ^ 32" "0 \<notin> set xs"
  shows "cstr (bytes_at p xs) p xs"
proof (rule cstrI)
  have "\<not> span p (length xs) (p + of_nat (length xs))" using assms by (simp add: span_def unat_of_nat_lt)
  then show "bytes_at p xs (p + of_nat (length xs)) = Some 0" by (simp add: bytes_at_def overlay_off)
qed (use assms in \<open>simp_all add: bytes_at_def\<close>)

text \<open>
  \<^verbatim>\<open>strcpy\<close> between two buffers that do not overlap leaves the string in both of them,
  with its terminator, and changes no byte outside the destination; \<^verbatim>\<open>strcmp\<close> then finds the
  two equal.
\<close>

theorem strcpy_copies_string:
  assumes "cstr m src xs" "src \<noteq> 0" "dest \<noteq> 0" "mapped m dest (Suc (length xs))"
    and "apart src (Suc (length xs)) dest (Suc (length xs))"
  shows "\<exists>m'. strcpy src dest m = Some m' \<and> cstr m' dest xs \<and> cstr m' src xs \<and>
    strcmp m' src dest = Some 0 \<and> (\<forall>a. \<not> span dest (Suc (length xs)) a \<longrightarrow> m' a = m a)"
proof -
  let ?m = "put_str dest xs m"
  have d: "cstr ?m dest xs" using assms(1) by (intro put_str_cstr) (auto simp: cstr_def)
  have s: "cstr ?m src xs"
    by (rule cstr_frame [OF assms(1)]) (simp add: put_str_off apart_off [OF assms(5)])
  show ?thesis
    using strcpy_cstr [OF assms] d s strcmp_cstr [OF s d] by (auto simp: put_str_off)
qed

theorem strcpy_copies_string_witness:
  "\<exists>m'. strcpy 0x1000 0x2000 (bytes_at 0x1000 [104, 105]) = Some m' \<and> cstr m' 0x2000 [104, 105] \<and>
    strcmp m' 0x1000 0x2000 = Some 0"
proof -
  have "apart 0x1000 3 0x2000 3" by (simp add: apart_def span_def All_less_Suc numeral_3_eq_3)
  then show ?thesis
    using strcpy_copies_string [of "bytes_at 0x1000 [104, 105]" "0x1000" "[104, 105]" "0x2000"]
    by (auto simp: numeral_3_eq_3 bytes_at_cstr)
qed

text \<open>
  A call of \<^verbatim>\<open>strtok\<close> returns the part of the string before the first delimiter in the
  buffer \<^verbatim>\<open>res\<close> and remembers the rest: the string after the delimiter, or nothing when there was
  none.  Tokens of 256 characters and more leave the buffer and are excluded.
\<close>

theorem strtok_returns_token:
  assumes "cstr m string xs" "string \<noteq> 0" "length (takeWhile (\<lambda>c. c \<noteq> d) xs) < 256"
    and "mapped m res 256" "apart string (Suc (length xs)) res 256"
  shows "\<exists>input' m'. strtok res string d input m = Some (res, input', m') \<and>
    cstr m' res (takeWhile (\<lambda>c. c \<noteq> d) xs) \<and>
    (if d \<in> set xs then cstr m' input' (tl (dropWhile (\<lambda>c. c \<noteq> d) xs)) else input' = 0)"
proof -
  define ys where "ys = takeWhile (\<lambda>c. c \<noteq> d) xs"
  define m' where "m' = put_str res ys m"
  let ?in = "if length ys = length xs then 0 else string + of_nat (Suc (length ys))"
  have len: "length ys < 256" using assms(3) by (simp add: ys_def)
  have call: "strtok res string d input m = Some (res, ?in, m')"
    using strtok_loop_token [OF assms(1) ys_def len assms(4,5), of 0] assms(2)
    by (simp add: strtok_def Let_def m'_def)
  have "0 \<notin> set ys" using assms(1) by (auto simp: ys_def cstr_def dest: set_takeWhileD)
  then have token: "cstr m' res ys" using len by (simp add: m'_def put_str_cstr)
  have keep: "cstr m' string xs"
    using len by (intro cstr_frame [OF assms(1)]) (simp add: m'_def put_str_off apart_off [OF assms(5)])
  have split: "xs = ys @ dropWhile (\<lambda>c. c \<noteq> d) xs" by (simp add: ys_def)
  have "length ys = length xs \<longleftrightarrow> dropWhile (\<lambda>c. c \<noteq> d) xs = []"
    using arg_cong [OF split, of length] by auto
  then have all: "length ys = length xs \<longleftrightarrow> d \<notin> set xs" by (auto simp: dropWhile_eq_Nil_conv)
  have "cstr m' (string + of_nat (Suc (length ys))) (tl (dropWhile (\<lambda>c. c \<noteq> d) xs))" if "d \<in> set xs"
  proof -
    have ne: "dropWhile (\<lambda>c. c \<noteq> d) xs \<noteq> []" using that by (auto simp: dropWhile_eq_Nil_conv)
    then have "dropWhile (\<lambda>c. c \<noteq> d) xs = [d] @ tl (dropWhile (\<lambda>c. c \<noteq> d) xs)"
      using hd_dropWhile [OF ne] by (cases "dropWhile (\<lambda>c. c \<noteq> d) xs") auto
    then have "xs = (ys @ [d]) @ tl (dropWhile (\<lambda>c. c \<noteq> d) xs)"
      using split by simp
    with keep have "cstr m' string ((ys @ [d]) @ tl (dropWhile (\<lambda>c. c \<noteq> d) xs))" by simp
    from cstr_suffix [OF this] show ?thesis by simp
  qed
  then show ?thesis using call token all by (auto simp: ys_def)
qed

theorem strtok_returns_token_witness:
  "\<exists>input' m'. strtok 0x2000 0x1000 47 0 (bytes_at 0x1000 [97, 47, 98]) = Some (0x2000, input', m') \<and>
    cstr m' 0x2000 [97] \<and> cstr m' input' [98]"
proof -
  have "\<not> span 0x2000 256 (0x1000 + of_nat i)" if "i < 4" for i
  proof -
    have "i = 0 \<or> i = 1 \<or> i = 2 \<or> i = 3" using that by auto
    then show ?thesis by (auto simp: span_def)
  qed
  then have "apart 0x1000 (Suc (length [97, 47, 98 :: u8])) 0x2000 256" by (simp add: apart_def)
  then show ?thesis
    using strtok_returns_token [of "bytes_at 0x1000 [97, 47, 98]" "0x1000" "[97, 47, 98]" 47 "0x2000" 0]
    by (simp add: bytes_at_cstr)
qed

lemma span_shift:
  assumes "span (p + of_nat k) n a" "k + n \<le> N" "N \<le> 2 ^ 32"
  shows "span p N a"
proof -
  obtain i where i: "i < n" "a = p + of_nat k + of_nat i" using assms(1) by (rule span_offset)
  then have "a = p + of_nat (k + i)" by (simp add: add.assoc)
  then show ?thesis using span_at [of "k + i" N p] i(1) assms(2,3) by simp
qed

lemma apart_shift:
  assumes "apart p n q N" "k + j \<le> N" "N \<le> 2 ^ 32" "i \<le> n"
  shows "apart p i (q + of_nat k) j"
  unfolding apart_def using assms(1,4) span_shift [OF _ assms(2,3)] by (meson apart_def less_le_trans)

lemma mapped_at: "mapped m p n \<Longrightarrow> i < n \<Longrightarrow> m (p + of_nat i) \<noteq> None"
  by (simp add: mapped_def)

lemma unat_diff_next:
  fixes a p :: u32
  assumes "n \<le> unat (a - p)"
  shows "unat (a - (p + of_nat n)) = unat (a - p) - n"
proof -
  have un: "unat (of_nat n :: u32) = n" using assms unat_u32_less [of "a - p"] by (intro unat_of_nat_lt) simp
  then have "of_nat n \<le> a - p" using assms by (simp only: word_le_nat_alt)
  then have "unat ((a - p) - of_nat n) = unat (a - p) - n" using un by (simp only: unat_sub)
  then show ?thesis by (simp only: diff_diff_add)
qed

lemma span_next:
  assumes "n + k \<le> 2 ^ 32"
  shows "span (p + of_nat n) k a \<longleftrightarrow> n \<le> unat (a - p) \<and> unat (a - p) < n + k"
proof (cases "k = 0")
  case False
  show ?thesis
  proof (cases "n \<le> unat (a - p)")
    case True
    with unat_diff_next [OF True] show ?thesis unfolding span_def by auto
  next
    case False
    have "\<not> span (p + of_nat n) k a"
    proof
      assume "span (p + of_nat n) k a"
      then obtain i where i: "i < k" "a = p + of_nat n + of_nat i" by (rule span_offset)
      then have "a - p = of_nat (n + i)" by simp
      moreover have "unat (of_nat (n + i) :: u32) = n + i" using assms i by (intro unat_of_nat_lt) simp
      ultimately show False using False by simp
    qed
    with False show ?thesis by simp
  qed
qed (simp add: span_def)

lemma overlay_append:
  assumes "n + k \<le> 2 ^ 32"
  shows "overlay (p + of_nat n) k h (overlay p n g m) = overlay p (n + k) (\<lambda>i. if i < n then g i else h (i - n)) m"
proof
  fix a
  have "unat (a - (p + of_nat n)) = unat (a - p) - n" if "span (p + of_nat n) k a"
    using that span_next [OF assms] by (intro unat_diff_next) simp
  then show "overlay (p + of_nat n) k h (overlay p n g m) a =
      overlay p (n + k) (\<lambda>i. if i < n then g i else h (i - n)) m a"
    using span_next [OF assms, of p a] unfolding overlay_def span_def [of p] by auto
qed

lemma mapped_part:
  assumes "mapped m p z" "o1 + n \<le> z"
  shows "mapped m (p + of_nat o1) n"
  unfolding mapped_def
proof (intro allI impI)
  fix i
  assume "i < n"
  then show "m (p + of_nat o1 + of_nat i) \<noteq> None" using assms mapped_at [of m p z "o1 + i"] by (simp add: add.assoc)
qed

lemma span_before:
  assumes "x < a" "a + b \<le> 2 ^ 32"
  shows "\<not> span (p + of_nat a) b (p + of_nat x)"
proof
  assume "span (p + of_nat a) b (p + of_nat x)"
  then obtain j where j: "j < b" "p + of_nat x = p + of_nat (a + j)" by (rule span_offset) (simp add: add.assoc)
  then have "unat (of_nat x :: u32) = unat (of_nat (a + j) :: u32)" by simp
  moreover have "x < 2 ^ LENGTH(32)" "a + j < 2 ^ LENGTH(32)" using j(1) assms by simp_all
  ultimately have "x = a + j" by (simp only: unat_of_nat_lt)
  with assms(1) show False by simp
qed

lemma apart_part:
  assumes "apart p N q K" "a + n \<le> N" "b + k \<le> K" "K \<le> 2 ^ 32"
  shows "apart (p + of_nat a) n (q + of_nat b) k"
proof -
  have "apart (p + of_nat a) n q K"
    using assms(1,2) by (auto simp: apart_def add.assoc simp flip: of_nat_add)
  then show ?thesis using assms(3,4) by (intro apart_shift) auto
qed

lemma put_str_append:
  assumes "k + length xs < 2 ^ 32"
  shows "put_str (p + of_nat k) xs (overlay p k (\<lambda>_. c) m) = put_str p (replicate k c @ xs) m"
proof
  fix a
  show "put_str (p + of_nat k) xs (overlay p k (\<lambda>_. c) m) a = put_str p (replicate k c @ xs) m a"
  proof (cases "span (p + of_nat k) (Suc (length xs)) a")
    case True
    then obtain i where i: "i < Suc (length xs)" "a = p + of_nat k + of_nat i" by (rule span_offset)
    then have a: "a = p + of_nat (k + i)" by (simp add: add.assoc)
    have "put_str p (replicate k c @ xs) m a = Some ((xs @ [0]) ! i)"
      unfolding put_str_def a using i(1) assms by (subst overlay_at) (simp_all add: nth_append)
    then show ?thesis unfolding i(2) put_str_def using i(1) assms by (subst overlay_at) simp_all
  next
    case False
    then have *: "put_str (p + of_nat k) xs (overlay p k (\<lambda>_. c) m) a = overlay p k (\<lambda>_. c) m a"
      by (rule put_str_off)
    show ?thesis
    proof (cases "span p k a")
      case True
      then show ?thesis unfolding * by (auto simp: put_str_def overlay_def span_def nth_append)
    next
      case out: False
      have "\<not> span p (Suc (k + length xs)) a"
      proof
        assume "span p (Suc (k + length xs)) a"
        then obtain i where i: "i < Suc (k + length xs)" "a = p + of_nat i" by (rule span_offset)
        have "k \<le> i" by (rule ccontr) (use i out assms span_at [of i k p] in simp)
        from this have "a = p + of_nat k + of_nat (i - k)" using i by (simp add: of_nat_diff)
        moreover have "i - k < Suc (length xs)" using i by linarith
        ultimately show False using False assms span_at [of "i - k" "Suc (length xs)" "p + of_nat k"] by simp
      qed
      then show ?thesis using out unfolding * by (simp add: put_str_off overlay_off)
    qed
  qed
qed

lemma strpad_cstr:
  fixes len :: u32
  assumes s: "cstr m string xs" and ne: "string \<noteq> 0" "tmp \<noteq> 0" "tmp + len - of_nat (length xs) \<noteq> 0"
    and xs: "length xs \<le> unat len" "length xs < unat padding" and pad: "unat padding < 128"
    and t: "mapped m tmp (Suc (unat len))" and st: "mapped m string (Suc (unat len))"
    and ap: "apart string (Suc (unat len)) tmp (Suc (unat len))"
      "apart tmp (Suc (unat len)) string (Suc (unat len))"
  defines "ys \<equiv> replicate (unat len - length xs) padding @ xs"
  shows "strpad tmp string padding len m = Some (put_str string ys (put_str tmp ys m))"
proof -
  define k where "k = unat len - length xs"
  have len: "length ys = unat len" using xs by (simp add: ys_def)
  have big: "unat len < 2 ^ 32" using unat_u32_less [of len] by simp
  have lw: "len - of_nat (length xs) = of_nat k"
    using xs by (simp add: k_def of_nat_diff)
  have kk: "unat (len - of_nat (length xs)) = k" unfolding lw using big by (simp add: k_def unat_of_nat_lt)
  let ?m1 = "overlay tmp k (\<lambda>_. padding) m"
  have fill: "fold_opt (\<lambda>i. wr (tmp + of_nat i) padding) [0..<k] m = Some ?m1"
    using t big by (intro fill_loop) (simp_all add: mapped_def k_def)
  have s1: "cstr ?m1 string xs"
    using xs by (intro cstr_frame [OF s]) (simp add: overlay_off apart_off [OF ap(1)] k_def)
  have to: "tmp + len - of_nat (length xs) = tmp + of_nat k" using lw by (simp add: add_diff_eq [symmetric])
  have m2: "strcpy string (tmp + of_nat k) ?m1 = Some (put_str tmp ys m)"
  proof -
    have "mapped ?m1 (tmp + of_nat k) (Suc (length xs))"
      unfolding mapped_def
    proof (intro allI impI)
      fix i assume "i < Suc (length xs)"
      then have "k + i < Suc (unat len)" using xs by (simp add: k_def)
      then show "?m1 (tmp + of_nat k + of_nat i) \<noteq> None"
        using mapped_overlay [OF t] by (auto simp: mapped_def add.assoc simp flip: of_nat_add)
    qed
    moreover have "apart string (Suc (length xs)) (tmp + of_nat k) (Suc (length xs))"
      using xs big by (intro apart_shift [OF ap(1)]) (simp_all add: k_def)
    ultimately show ?thesis
      using strcpy_cstr [OF s1 ne(1)] ne(3) to put_str_append [of k xs tmp padding m] xs big
      by (simp add: ys_def k_def)
  qed
  have "0 \<notin> set ys" using s xs by (auto simp: ys_def cstr_def)
  then have t2: "cstr (put_str tmp ys m) tmp ys" using len big by (intro put_str_cstr) simp_all
  have "strcpy tmp string (put_str tmp ys m) = Some (put_str string ys (put_str tmp ys m))"
    using strcpy_cstr [OF t2 ne(2,1)] st ap(2) len by (simp add: put_str_def mapped_overlay)
  moreover have "\<not> scast padding \<le> (of_nat (length xs) :: u32)"
    using small_char(2) [OF pad] xs(2) unat_strlen [OF s] by (simp add: word_le_nat_alt)
  ultimately show ?thesis
    using fill m2 by (simp add: strpad_def strlen_cstr [OF s] strlen_cstr [OF s1] kk to)
qed

text \<open>
  \<^verbatim>\<open>strpad\<close> extends a string that is not longer than the requested length to exactly that
  length, with the padding character in front, as \<^verbatim>\<open>printf\<close> needs it for \<^verbatim>\<open>%x\<close>; it needs one byte more
  than \<^verbatim>\<open>tmp[length]\<close> has.  The string must be shorter than the \<^emph>\<open>code\<close> of the padding character.
\<close>

theorem strpad_pads_to_length:
  assumes "cstr m string xs" "string \<noteq> 0" "tmp \<noteq> 0" "tmp + len - of_nat (length xs) \<noteq> 0"
    and "length xs \<le> unat len" "length xs < unat padding" "unat padding < 128"
    and "mapped m tmp (Suc (unat len))" "mapped m string (Suc (unat len))"
    and "apart string (Suc (unat len)) tmp (Suc (unat len))"
      "apart tmp (Suc (unat len)) string (Suc (unat len))"
  shows "\<exists>m'. strpad tmp string padding len m = Some m' \<and>
    cstr m' string (replicate (unat len - length xs) padding @ xs) \<and>
    strlen m' string = Some len \<and>
    (\<forall>a. \<not> span string (Suc (unat len)) a \<and> \<not> span tmp (Suc (unat len)) a \<longrightarrow> m' a = m a)"
proof -
  let ?ys = "replicate (unat len - length xs) padding @ xs"
  let ?m = "put_str string ?ys (put_str tmp ?ys m)"
  have len: "length ?ys = unat len" using assms(5) by simp
  have "cstr ?m string ?ys"
    using assms(1,6) len unat_u32_less [of len] by (intro put_str_cstr) (auto simp: cstr_def)
  moreover from this have "strlen ?m string = Some len" using strlen_cstr len by fastforce
  moreover have "?m a = m a" if "\<not> span string (Suc (unat len)) a" "\<not> span tmp (Suc (unat len)) a" for a
    using that len by (simp add: put_str_off)
  ultimately show ?thesis using strpad_cstr [OF assms] by blast
qed

theorem strpad_pads_to_length_witness:
  "\<exists>m'. strpad 0x3000 0x1000 48 8 (bytes_at 0x1000 [70, 70]) = Some m' \<and>
     cstr m' 0x1000 [48, 48, 48, 48, 48, 48, 70, 70]"
proof -
  have far: "\<not> span q 9 (p + of_nat i)" if "unat (p - q) > 16 \<and> unat (p - q) < 0xffffff00" "i < 9" for p q :: u32 and i
  proof -
    have "p + of_nat i - q = (p - q) + of_nat i" by simp
    then have "unat (p + of_nat i - q) = unat (p - q) + i"
      using that by (simp only:) (simp add: unat_add_lt unat_of_nat_lt)
    with that show ?thesis by (simp add: span_def)
  qed
  have "apart 0x1000 (Suc (unat (8 :: u32))) 0x3000 (Suc (unat (8 :: u32)))"
    "apart 0x3000 (Suc (unat (8 :: u32))) 0x1000 (Suc (unat (8 :: u32)))"
    by (simp_all add: apart_def far)
  moreover have "replicate (unat (8 :: u32) - length [70, 70 :: u8]) 48 @ [70, 70] =
      ([48, 48, 48, 48, 48, 48, 70, 70] :: u8 list)"
  proof -
    have "unat (8 :: u32) - length [70, 70 :: u8] = Suc (Suc (Suc (Suc (Suc (Suc 0)))))" by simp
    then show ?thesis by (simp only: replicate.simps append.simps)
  qed
  ultimately show ?thesis
    using strpad_pads_to_length [of "bytes_at 0x1000 [70, 70]" "0x1000" "[70, 70]" "0x3000" 8 48]
    by (auto simp: bytes_at_cstr)
qed

subsection \<open>Printing and reading numbers\<close>

lemma itoa_digits_zero [simp]: "itoa_digits k base 0 = Some []"
  by (cases k) simp_all

lemma fill_down:
  assumes "mapped m p n" "n \<le> 2 ^ 32"
  shows "fold_opt (\<lambda>i. wr (p + of_nat (n - 1 - i)) (f i)) [0..<n] m =
    Some (overlay p n (\<lambda>j. f (n - 1 - j)) m)"
proof -
  define part where "part i = (\<lambda>a. if span p n a \<and> n - i \<le> unat (a - p) then Some (f (n - 1 - unat (a - p))) else m a)" for i
  have "\<exists>m'. fold_opt (\<lambda>i. wr (p + of_nat (n - 1 - i)) (f i)) [0..<n] m = Some m' \<and> m' = part n"
  proof (rule fold_opt_invariant [where P = "\<lambda>i m'. m' = part i"])
    show "m = part 0" by (auto simp: part_def span_def fun_eq_iff)
    fix i m'
    assume i: "i < n" and m': "m' = part i"
    let ?a = "p + of_nat (n - 1 - i)"
    have "?a - p = of_nat (n - 1 - i)" by (simp only: add_diff_cancel_left')
    moreover have "n - 1 - i < 2 ^ LENGTH(32)" using i assms(2) by simp
    ultimately have u: "unat (?a - p) = n - 1 - i" by (simp only: unat_of_nat_lt)
    have "m ?a \<noteq> None" by (rule mapped_at [OF assms(1)]) (use i in simp)
    then have "part i ?a \<noteq> None" by (simp add: part_def)
    moreover have "(part i)(?a \<mapsto> f i) = part (Suc i)"
    proof
      fix a
      show "((part i)(?a \<mapsto> f i)) a = part (Suc i) a"
      proof (cases "a = ?a")
        case True
        then show ?thesis using i u by (simp add: part_def span_def)
      next
        case False
        then have "unat (a - p) \<noteq> n - 1 - i"
          using u by (metis diff_add_cancel add.commute unat_inj)
        then show ?thesis using False i by (auto simp: part_def)
      qed
    qed
    ultimately show "\<exists>m''. wr ?a (f i) m' = Some m'' \<and> m'' = part (Suc i)" unfolding m' by (simp add: wr_def)
  qed
  moreover have "part n = overlay p n (\<lambda>j. f (n - 1 - j)) m" by (auto simp: part_def overlay_def fun_eq_iff)
  ultimately show ?thesis by simp
qed

lemma itoa_digits_written:
  fixes data :: u64
  assumes "itoa_digits 12 (ucast base) (ucast data) = Some ds" "data \<noteq> 0" "ds \<noteq> []" "length ds \<le> 12"
    and "res \<noteq> 0" "mapped m res 13" "\<not> (data <s 0 \<and> base = 10)"
  shows "itoa data res base m = Some (put_str res (rev ds) m)"
proof -
  let ?n = "length ds"
  define m1 where "m1 = m(res + of_nat ?n \<mapsto> 0)"
  have w1: "wr (res + of_nat ?n) 0 m = Some m1" using assms(4,6) by (simp add: wr_def m1_def mapped_def)
  have mm1: "mapped m1 res ?n" using assms(4,6) by (simp add: mapped_def m1_def)
  let ?m2 = "overlay res ?n (\<lambda>j. ds ! (?n - 1 - j)) m1"
  have loop: "fold_opt (\<lambda>i. wr (res + of_nat (?n - 1 - i)) (ds ! i)) [0..<?n] m1 = Some ?m2"
    using fill_down [OF mm1] assms(4) by simp
  have m2: "?m2 = put_str res (rev ds) m"
  proof
    fix a
    have "span res (Suc ?n) a \<longleftrightarrow> span res ?n a \<or> a = res + of_nat ?n" using assms(4) by (intro span_Suc) simp
    moreover have "unat (res + of_nat ?n - res) = ?n" using assms(4) by (simp add: unat_of_nat_lt)
    ultimately show "?m2 a = put_str res (rev ds) m a"
      by (auto simp: put_str_def overlay_def m1_def nth_append rev_nth span_def)
  qed
  obtain c where c: "?m2 res = Some c"
    using overlay_at [of 0 ?n res "\<lambda>j. ds ! (?n - 1 - j)" m1] assms(3,4) by auto
  then have "wr res (c + 0) ?m2 = Some ?m2" by (simp add: wr_def fun_upd_idem)
  moreover have "(data <s 0 \<and> base = 10) = False" using assms(7) by simp
  ultimately show ?thesis using assms(1,2,5) w1 loop c m2 by (simp only: itoa_def Let_def) simp
qed

lemma itoa_positive:
  assumes "itoa_digits 12 (ucast base) v = Some ds" "v \<noteq> 0" "ds \<noteq> []" "length ds \<le> 12"
    and "res \<noteq> 0" "mapped m res 13"
  shows "itoa (ucast v) res base m = Some (put_str res (rev ds) m)"
proof -
  let ?d = "ucast v :: u64"
  have uv: "unat ?d = unat v" by (simp add: unat_ucast_up)
  then have d: "?d \<noteq> 0" using assms(2) by (metis unat_0 unat_inj)
  have "unat ?d < 2 ^ 63" unfolding uv using unat_u32_less [of v] by simp
  then have "int (unat ?d) < int (2 ^ 63)" by (simp only: of_nat_less_iff)
  then have "uint ?d < 2 ^ 63" by (simp only: uint_nat of_nat_power of_nat_numeral)
  then have "sint ?d = uint ?d"
    unfolding sint_uint by (intro signed_take_bit_int_eq_self order.trans [OF _ uint_ge_0]) simp_all
  then have pos: "\<not> (?d <s 0 \<and> base = 10)" by (simp add: word_sless_alt not_less)
  have narrow: "(ucast ?d :: u32) = v" using uv unat_u32_less [of v] unat_ucast_fits [of ?d, where 'b = 32] by (simp flip: unat_inj)
  show ?thesis by (rule itoa_digits_written [OF _ d assms(3-6) pos]) (simp add: narrow assms(1))
qed

lemma foldl_rev_digits: "foldl (\<lambda>t c. t * b + g c) 0 (rev ds) = foldr (\<lambda>c v. v * b + g c) ds (0 :: u32)"
  by (simp add: foldl_conv_foldr)



text \<open>
  A negative number: the minus sign is added to whatever \<^verbatim>\<open>res[0]\<close> held, and the terminator is
  overwritten by the last digit.
\<close>

lemma itoa_negative_not_terminated:
  fixes old :: u8
  assumes "m = (\<lambda>_. Some old)" "res \<noteq> 0"
  shows "itoa (- 5) res 10 m = Some (m(res + 1 \<mapsto> 53, res \<mapsto> old + 45))"
proof -
  have twelve: "(12 :: nat) = Suc 11" by simp
  have "itoa_digits 12 10 5 = Some [53]" unfolding twelve itoa_digits.simps by (simp add: carr_def)
  moreover have "(- 5 :: u64) <s 0" by (simp add: word_sless_alt)
  ultimately show ?thesis using assms by (simp add: itoa_def wr_def fun_upd_twist)
qed

end
