(* ===== verification/KVector.thy ===== *)
theory KVector
  imports KStrings
begin

text \<open>
  The growable arrays of the kernel (\<^verbatim>\<open>vector_t\<close> in \<^verbatim>\<open>src/kernel/shared/kstdlib.c\<close>) and the small
  helpers of \<^verbatim>\<open>kstdlib.h\<close>.

  A vector is the \<^verbatim>\<open>struct\<close> passed by value; its elements are bytes of the address space \<open>bmem\<close>.
  The page allocator is an argument: \<open>alloc\<close> and \<open>free\<close> stand for \<^verbatim>\<open>kmalloc\<close> and \<^verbatim>\<open>kfree\<close> on their own
  state \<open>'h\<close>, so that the lemmas hold for \<^verbatim>\<open>kmalloc\<close> before and after the heap exists.

  A push that stays within the pages of the vector appends exactly one element; a push that needs
  a new page and has 256 bytes or more to copy never returns, its counter being a \<^verbatim>\<open>uint8_t\<close>.
\<close>

subsection \<open>Operations\<close>

definition signed_max :: "int \<Rightarrow> int \<Rightarrow> int" where
  "signed_max i1 i2 = (if i1 > i2 then i1 else i2)"

definition unsigned_max :: "u32 \<Rightarrow> u32 \<Rightarrow> u32" where
  "unsigned_max i1 i2 = (if i1 > i2 then i1 else i2)"

definition signed_min :: "int \<Rightarrow> int \<Rightarrow> int" where
  "signed_min i1 i2 = (if i1 < i2 then i1 else i2)"

definition unsigned_min :: "u32 \<Rightarrow> u32 \<Rightarrow> u32" where
  "unsigned_min i1 i2 = (if i1 < i2 then i1 else i2)"

record vector_t =
  v_ptr :: u32
  v_size :: u32
  sizeof_elements :: u32
  v_pages :: u32

type_synonym 'h allocator = "u32 \<Rightarrow> 'h \<Rightarrow> (u32 \<times> 'h) option"

text \<open>The copy loops of \<^verbatim>\<open>init_vector\<close> and \<^verbatim>\<open>vector_push\<close>; \<^verbatim>\<open>i\<close> is a \<^verbatim>\<open>uint8_t\<close>, \<open>stride\<close> the factor of the source index.\<close>

partial_function (option) byte_loop :: "u32 \<Rightarrow> u32 \<Rightarrow> u32 \<Rightarrow> u32 \<Rightarrow> u8 \<Rightarrow> bmem \<Rightarrow> bmem option" where
  "byte_loop src stride dest n i m =
     (if ucast i < n
      then do {
        b \<leftarrow> m (src + ucast i * stride);
        m \<leftarrow> wr (dest + ucast i) b m;
        byte_loop src stride dest n (i + 1) m
      }
      else Some m)"

definition init_vector ::
    "'h allocator \<Rightarrow> u32 \<Rightarrow> vector_t \<Rightarrow> u32 \<Rightarrow> u32 \<Rightarrow> u32 \<Rightarrow> 'h \<Rightarrow> bmem \<Rightarrow> (u32 \<times> vector_t \<times> 'h \<times> bmem) option" where
  "init_vector alloc vecptr old sz elements initializer h m = do {
     (ret, h) \<leftarrow> (if vecptr = 0 then alloc 1 h else Some (vecptr, h));
     let pages = (elements * sz) div 4096 + 1;
     (p, h) \<leftarrow> alloc pages h;
     let v = old\<lparr>sizeof_elements := sz, v_size := elements, v_ptr := p\<rparr>;
     if initializer = 0 then Some (ret, v, h, m)
     else do { m \<leftarrow> byte_loop initializer 1 p (elements * sz) 0 m; Some (ret, v, h, m) }
   }"

definition vector_get :: "u32 \<Rightarrow> vector_t \<Rightarrow> u32" where
  "vector_get pos v = (if pos > v_size v - 1 then 0 else v_ptr v + pos * sizeof_elements v)"

text \<open>The element size is \<^verbatim>\<open>sizeof(void *)\<close> in the address, whatever the vector says.\<close>

definition vector_set :: "u32 \<Rightarrow> vector_t \<Rightarrow> u32 \<Rightarrow> bmem \<Rightarrow> bmem option" where
  "vector_set pos v new_element m =
     (if pos > v_size v - 1 then Some m
      else copy_bytes new_element (v_ptr v + pos * 4) (unat (sizeof_elements v)) m)"

definition vector_crosses :: "vector_t \<Rightarrow> bool" where
  "vector_crosses v \<longleftrightarrow>
     drop_bit 12 ((v_size v + 1) * sizeof_elements v) \<noteq> drop_bit 12 (v_size v * sizeof_elements v)"

definition vector_grow ::
    "'h allocator \<Rightarrow> (u32 \<Rightarrow> 'h \<Rightarrow> 'h option) \<Rightarrow> vector_t \<Rightarrow> 'h \<Rightarrow> bmem \<Rightarrow> (vector_t \<times> 'h \<times> bmem) option" where
  "vector_grow alloc free v h m = do {
     (newptr, h) \<leftarrow> alloc ((v_size v * sizeof_elements v) div 4096) h;
     (h, m) \<leftarrow> (if v_ptr v \<noteq> 0
                then do {
                  m \<leftarrow> byte_loop (v_ptr v) (v_size v) newptr ((v_size v - 1) * sizeof_elements v) 0 m;
                  h \<leftarrow> free (v_ptr v) h;
                  Some (h, m)
                }
                else Some (h, m));
     Some (v\<lparr>v_ptr := newptr\<rparr>, h, m)
   }"

definition vector_push ::
    "'h allocator \<Rightarrow> (u32 \<Rightarrow> 'h \<Rightarrow> 'h option) \<Rightarrow> vector_t \<Rightarrow> u32 \<Rightarrow> 'h \<Rightarrow> bmem \<Rightarrow> (vector_t \<times> 'h \<times> bmem) option" where
  "vector_push alloc free v new_element h m = do {
     (v, h, m) \<leftarrow> (if vector_crosses v then vector_grow alloc free v h m else Some (v, h, m));
     m \<leftarrow> copy_bytes new_element (v_ptr v + v_size v * sizeof_elements v) (unat (sizeof_elements v)) m;
     Some (v\<lparr>v_size := v_size v + 1\<rparr>, h, m)
   }"

text \<open>\<^verbatim>\<open>pos\<close> is not used: the first element is copied out and the size shrinks.\<close>

definition vector_pop :: "u32 \<Rightarrow> vector_t \<Rightarrow> u32 \<Rightarrow> bmem \<Rightarrow> (vector_t \<times> bmem) option" where
  "vector_pop pos v element m = do {
     m \<leftarrow> copy_bytes (v_ptr v) element (unat (sizeof_elements v)) m;
     Some (v\<lparr>v_size := v_size v - 1\<rparr>, m)
   }"

subsection \<open>The elements of a vector\<close>

definition peek :: "bmem \<Rightarrow> u32 \<Rightarrow> nat \<Rightarrow> u8 option list" where
  "peek m p n = map (\<lambda>i. m (p + of_nat i)) [0..<n]"

definition elems :: "bmem \<Rightarrow> vector_t \<Rightarrow> u8 option list list" where
  "elems m v = map (\<lambda>k. peek m (v_ptr v + of_nat k * sizeof_elements v) (unat (sizeof_elements v)))
     [0..<unat (v_size v)]"

text \<open>The vector has room for one more element in its current pages, whose bytes are present.\<close>

definition vec_room :: "bmem \<Rightarrow> vector_t \<Rightarrow> bool" where
  "vec_room m v \<longleftrightarrow> (unat (v_size v) + 1) * unat (sizeof_elements v) < 2 ^ 32 \<and> \<not> vector_crosses v \<and>
     0 < sizeof_elements v \<and> mapped m (v_ptr v) ((unat (v_size v) + 1) * unat (sizeof_elements v))"

lemma byte_loop_never_ends:
  assumes "byte_loop src stride dest n i m = Some m'"
  shows "n \<le> 255"
proof (rule byte_loop.raw_induct [where P = "\<lambda>src stride dest n i m m'. n \<le> 255", OF _ assms])
  fix loop and src stride dest n :: u32 and i :: u8 and m m' :: bmem
  assume IH: "\<And>src stride dest n i m m'. loop src stride dest n i m = Some m' \<Longrightarrow> n \<le> (255 :: u32)"
    and step: "(if ucast i < n
      then do {
        b \<leftarrow> m (src + ucast i * stride);
        m \<leftarrow> wr (dest + ucast i) b m;
        loop src stride dest n (i + 1) m
      }
      else Some m) = Some m'"
  show "n \<le> 255"
  proof (cases "ucast i < n")
    case True
    with step show ?thesis by (auto split: bind_splits intro: IH)
  next
    case False
    have "unat (ucast i :: u32) < 256" using unsigned_less [of i] by (subst unat_ucast_up) simp_all
    with False show ?thesis by (simp add: word_less_nat_alt word_le_nat_alt)
  qed
qed

lemma peek_frame:
  assumes "\<And>i. i < n \<Longrightarrow> m' (p + of_nat i) = m (p + of_nat i)"
  shows "peek m' p n = peek m p n"
  using assms by (simp add: peek_def)

lemma peek_overlay: "n \<le> 2 ^ 32 \<Longrightarrow> peek (overlay p n f m) p n = map (\<lambda>i. Some (f i)) [0..<n]"
  by (simp add: peek_def)

lemma mult_of_nat_size: "of_nat k * (w :: u32) = of_nat (k * unat w)"
  by simp

lemma vector_push_room:
  assumes room: "vec_room m v"
    and el: "\<And>i. i < unat (sizeof_elements v) \<Longrightarrow> m (e + of_nat i) = Some (f i)"
    and ap: "apart e (unat (sizeof_elements v)) (v_ptr v + v_size v * sizeof_elements v) (unat (sizeof_elements v))"
  shows "vector_push alloc free v e h m =
    Some (v\<lparr>v_size := v_size v + 1\<rparr>, h,
      overlay (v_ptr v + v_size v * sizeof_elements v) (unat (sizeof_elements v)) f m)"
proof -
  let ?w = "unat (sizeof_elements v)" and ?n = "unat (v_size v)"
  let ?p = "v_ptr v + v_size v * sizeof_elements v"
  have at: "?p = v_ptr v + of_nat (?n * ?w)" by simp
  have "mapped m ?p ?w"
    unfolding mapped_def
  proof (intro allI impI)
    fix i
    assume "i < ?w"
    then have "?n * ?w + i < (?n + 1) * ?w" by simp
    then have "m (v_ptr v + of_nat (?n * ?w + i)) \<noteq> None"
      using room mapped_at unfolding vec_room_def by blast
    then show "m (?p + of_nat i) \<noteq> None" unfolding at by (simp add: add.assoc)
  qed
  then have "copy_bytes e ?p ?w m = Some (overlay ?p ?w f m)"
    using ap el unat_u32_less [of "sizeof_elements v"] by (intro copy_bytes_overlay) simp_all
  then show ?thesis using room by (simp add: vector_push_def vec_room_def)
qed

lemma vec_room_index:
  assumes "vec_room m v" "k \<le> unat (v_size v)" "i < unat (sizeof_elements v)"
  shows "unat (of_nat k * sizeof_elements v + of_nat i) = k * unat (sizeof_elements v) + i"
proof -
  let ?w = "unat (sizeof_elements v)" and ?n = "unat (v_size v)"
  have "k * ?w \<le> ?n * ?w" using assms(2) by (rule mult_le_mono1)
  then have "k * ?w + i < (?n + 1) * ?w" using assms(3) by (simp only: add_mult_distrib)
  then have lt: "k * ?w + i < 2 ^ LENGTH(32)" using assms(1) unfolding vec_room_def by simp
  have "of_nat k * sizeof_elements v + of_nat i = (of_nat (k * ?w + i) :: u32)" by simp
  then show ?thesis using unat_of_nat_lt [OF lt] by simp
qed

text \<open>
  As long as the element fits into the pages the vector already has, \<^verbatim>\<open>vector_push\<close> appends
  exactly that element: the vector then holds the old elements and the new one, \<^verbatim>\<open>vector_get\<close> of the
  last position points to it, no other byte changes and the allocator is not called.
\<close>

theorem vector_push_appends:
  assumes room: "vec_room m v"
    and el: "\<forall>i < unat (sizeof_elements v). m (e + of_nat i) \<noteq> None"
    and ap: "apart e (unat (sizeof_elements v)) (v_ptr v + v_size v * sizeof_elements v) (unat (sizeof_elements v))"
  shows "\<exists>v' m'. vector_push alloc free v e h m = Some (v', h, m') \<and>
    elems m' v' = elems m v @ [peek m e (unat (sizeof_elements v))] \<and>
    unat (v_size v') = unat (v_size v) + 1 \<and>
    peek m' (vector_get (v_size v) v') (unat (sizeof_elements v)) = peek m e (unat (sizeof_elements v)) \<and>
    (\<forall>a. \<not> span (v_ptr v + v_size v * sizeof_elements v) (unat (sizeof_elements v)) a \<longrightarrow> m' a = m a)"
proof -
  let ?w = "unat (sizeof_elements v)" and ?n = "unat (v_size v)"
  let ?p = "v_ptr v + v_size v * sizeof_elements v"
  let ?f = "\<lambda>i. the (m (e + of_nat i))"
  let ?m = "overlay ?p ?w ?f m" and ?v = "v\<lparr>v_size := v_size v + 1\<rparr>"
  have push: "vector_push alloc free v e h m = Some (?v, h, ?m)"
    using vector_push_room [OF room, of e ?f] el ap by auto
  have w: "0 < ?w" using room by (simp add: vec_room_def word_less_nat_alt)
  have "(?n + 1) * 1 \<le> (?n + 1) * ?w" using w by (intro mult_le_mono2) simp
  then have "?n + 1 \<le> (?n + 1) * ?w" by (simp only: mult_1_right)
  then have "unat (v_size v) + unat (1 :: u32) < 2 ^ LENGTH(32)" using room unfolding vec_room_def by simp
  then have size: "unat (v_size v + 1) = ?n + 1" by (simp only: unat_add_lt) simp
  have new: "peek ?m ?p ?w = peek m e ?w"
    using el unat_u32_less [of "sizeof_elements v"] by (subst peek_overlay) (auto simp: peek_def)
  have old: "peek ?m (v_ptr v + of_nat k * sizeof_elements v) ?w =
      peek m (v_ptr v + of_nat k * sizeof_elements v) ?w" if k: "k < ?n" for k
  proof (rule peek_frame, rule overlay_off)
    fix i
    assume i: "i < ?w"
    let ?x = "of_nat k * sizeof_elements v + of_nat i" and ?y = "v_size v * sizeof_elements v"
    have "unat ?x = k * ?w + i" using vec_room_index [OF room _ i, of k] k by simp
    moreover have "unat ?y = ?n * ?w" using vec_room_index [OF room _ w, of ?n] by simp
    moreover have "(k + 1) * ?w \<le> ?n * ?w" using k by (intro mult_le_mono1) simp
    ultimately have lt: "?x < ?y" using i by (simp add: word_less_nat_alt)
    show "\<not> span ?p ?w (v_ptr v + of_nat k * sizeof_elements v + of_nat i)"
    proof
      assume "span ?p ?w (v_ptr v + of_nat k * sizeof_elements v + of_nat i)"
      then obtain j where j: "j < ?w" "v_ptr v + of_nat k * sizeof_elements v + of_nat i = ?p + of_nat j"
        by (rule span_offset)
      then have "?x = ?y + of_nat j" by (simp add: algebra_simps)
      moreover have "unat (?y + of_nat j) = ?n * ?w + j" using vec_room_index [OF room _ j(1), of ?n] by simp
      ultimately have "unat ?y \<le> unat ?x" using \<open>unat ?y = ?n * ?w\<close> by simp
      with lt show False by (simp add: word_less_nat_alt)
    qed
  qed
  have "elems ?m ?v = elems m v @ [peek m e ?w]"
    using new by (simp add: elems_def size old)
  moreover have "vector_get (v_size v) ?v = ?p" by (simp add: vector_get_def)
  ultimately show ?thesis using push size new by (intro exI [of _ ?v] exI [of _ ?m]) (simp add: overlay_off)
qed

text \<open>
  C33. A push that needs a new page copies the old elements with an eight-bit counter; with 256
  bytes or more to copy the loop never ends, whatever the allocator does.
\<close>

theorem vector_push_diverges:
  assumes "vector_crosses v" "v_ptr v \<noteq> 0" "256 \<le> (v_size v - 1) * sizeof_elements v"
  shows "vector_push alloc free v e h m = None"
proof -
  have "byte_loop (v_ptr v) (v_size v) p ((v_size v - 1) * sizeof_elements v) 0 m = None" for p
  proof (rule ccontr)
    assume "byte_loop (v_ptr v) (v_size v) p ((v_size v - 1) * sizeof_elements v) 0 m \<noteq> None"
    then have "(v_size v - 1) * sizeof_elements v \<le> 255" using byte_loop_never_ends by blast
    with assms(3) show False by (simp add: word_le_nat_alt)
  qed
  then have "vector_grow alloc free v h m = None"
    using assms(2) by (simp add: vector_grow_def split: bind_split prod.split)
  then show ?thesis using assms(1) by (simp add: vector_push_def)
qed

definition vec_example :: "u32 \<Rightarrow> vector_t" where
  "vec_example n = \<lparr>v_ptr = 0x10000, v_size = n, sizeof_elements = 40, v_pages = 0\<rparr>"

theorem vector_push_appends_witness:
  "\<exists>v' m'. vector_push (\<lambda>_ _. None) (\<lambda>_ _. None) (vec_example 3) 0x2000 () (\<lambda>_. Some 1) = Some (v', (), m') \<and>
    length (elems m' v') = 4"
proof -
  have room: "vec_room (\<lambda>_. Some 1) (vec_example 3)"
    by (simp add: vec_room_def vec_example_def vector_crosses_def mapped_def)
  have "\<not> span (0x10000 + 3 * 40) 40 (0x2000 + of_nat i)" if "i < 40" for i
  proof -
    have "(0x2000 + of_nat i) - (0x10000 + 3 * 40) = (0xffff1f88 :: u32) + of_nat i" by simp
    then have "unat ((0x2000 + of_nat i) - (0x10000 + 3 * 40 :: u32)) = 0xffff1f88 + i"
      using that by (simp only:) (simp add: unat_add_lt unat_of_nat_lt)
    then show ?thesis by (simp add: span_def)
  qed
  then have "apart 0x2000 (unat (sizeof_elements (vec_example 3)))
      (v_ptr (vec_example 3) + v_size (vec_example 3) * sizeof_elements (vec_example 3))
      (unat (sizeof_elements (vec_example 3)))"
    by (simp add: apart_def vec_example_def)
  from vector_push_appends [OF room _ this, of "\<lambda>_ _. None" "\<lambda>_ _. None" "()"]
  show ?thesis by (auto simp: elems_def vec_example_def)
qed

theorem vector_push_diverges_witness:
  "vector_push (\<lambda>_ h. Some (0x20000, h)) (\<lambda>_ h. Some h) (vec_example 102) 0x2000 () (\<lambda>_. Some 1) = None"
  by (rule vector_push_diverges) (simp_all add: vec_example_def vector_crosses_def)

end
