(* ===== verification/RamFS.thy ===== *)
theory RamFS
  imports KVector Scheduler
begin

text \<open>
  The virtual file system (\<^verbatim>\<open>src/kernel/system/vfs.c\<close>, \<^verbatim>\<open>vfs.h\<close>) and the file system in memory
  that holds its root (\<^verbatim>\<open>src/kernel/system/ramfs.c\<close>).

  The \<^verbatim>\<open>vfile_t\<close> structures are objects in a store from addresses to records; directory entries and
  file contents are bytes of the address space, reached through \<^verbatim>\<open>private\<close>.  A directory is an array
  of pointers to its children.  The page allocator is an argument, as in \<open>KVector\<close>.

  Paths and names are the character lists of the strings.  Buffers from \<^verbatim>\<open>kmalloc\<close> that hold copies of
  them are allocated and freed, but their contents are kept as lists; a string that does not fit
  into the buffer the source allocates for it, or a name of 76 characters and more, has no outcome,
  and neither has a call after \<^verbatim>\<open>kmalloc\<close> returned null where the source does not test for it.

  A \<^verbatim>\<open>fileops_t\<close> is a record of functions, a null pointer being \<open>None\<close>; the argument \<open>fops\<close> says which
  table lies at an address, so that file systems of modules take part through it.
\<close>

subsection \<open>Data\<close>

record vfile_t =
  f_name :: "u8 list"
  f_flags :: u16
  f_ops :: u32
  refcount :: u32
  f_id :: u32
  f_private :: u32
  f_size :: u64
  f_offset :: u64
  block_size_bytes :: u16
  owner_uid :: u8
  owner_gid :: u8
  last_modified :: u32
  created :: u32
  permissions :: u16
  f_lock :: spinlock_t

definition zero_vfile :: vfile_t where
  "zero_vfile = \<lparr>f_name = [], f_flags = 0, f_ops = 0, refcount = 0, f_id = 0, f_private = 0, f_size = 0,
     f_offset = 0, block_size_bytes = 0, owner_uid = 0, owner_gid = 0, last_modified = 0, created = 0,
     permissions = 0, f_lock = \<lparr>lock = False\<rparr>\<rparr>"

record 'h fs_state =
  pages_st :: 'h
  vfiles :: "u32 \<Rightarrow> vfile_t option"
  fmem :: bmem
  root_dir :: u32
  ramfs_ops :: u32
  vfs_lock :: spinlock_t

record 's fileops_t =
  op_create :: "(u32 \<Rightarrow> u8 list \<Rightarrow> u32 \<Rightarrow> 's \<Rightarrow> (u32 \<times> 's) option) option"
  op_delete :: "(u32 \<Rightarrow> u8 list \<Rightarrow> 's \<Rightarrow> (u32 \<times> 's) option) option"
  op_write :: "(u32 \<Rightarrow> u32 \<Rightarrow> u64 \<Rightarrow> u64 \<Rightarrow> 's \<Rightarrow> (u32 \<times> 's) option) option"
  op_read :: "(u32 \<Rightarrow> u32 \<Rightarrow> u64 \<Rightarrow> u64 \<Rightarrow> 's \<Rightarrow> (u32 \<times> 's) option) option"
  op_close :: "(u32 \<Rightarrow> 's \<Rightarrow> 's option) option"
  op_rfopen :: "(u8 list \<Rightarrow> u32 \<Rightarrow> 's \<Rightarrow> (u32 \<times> 's) option) option"

abbreviation (input) FS_FILE_READ_ONLY :: u16 where "FS_FILE_READ_ONLY \<equiv> 1"
abbreviation (input) FS_FILE_SYSTEM :: u16 where "FS_FILE_SYSTEM \<equiv> 4"
abbreviation (input) FS_FILE_IS_DIR :: u16 where "FS_FILE_IS_DIR \<equiv> 0x10"
abbreviation (input) FS_FILE_MOUNT :: u16 where "FS_FILE_MOUNT \<equiv> 0x100"
abbreviation (input) slash :: u8 where "slash \<equiv> 47"

text \<open>Access to objects and to words in memory; the machine is little-endian.\<close>

definition upd_vfile :: "u32 \<Rightarrow> (vfile_t \<Rightarrow> vfile_t) \<Rightarrow> ('h, 'b) fs_state_scheme \<Rightarrow> ('h, 'b) fs_state_scheme option" where
  "upd_vfile p f s = do { v \<leftarrow> vfiles s p; Some (s\<lparr>vfiles := (vfiles s)(p \<mapsto> f v)\<rparr>) }"

definition rd16 :: "bmem \<Rightarrow> u32 \<Rightarrow> u16 option" where
  "rd16 m a = do { b0 \<leftarrow> m a; b1 \<leftarrow> m (a + 1); Some (ucast b0 OR push_bit 8 (ucast b1)) }"

definition wr16 :: "u32 \<Rightarrow> u16 \<Rightarrow> bmem \<Rightarrow> bmem option" where
  "wr16 a v m = do { m \<leftarrow> wr a (ucast v) m; wr (a + 1) (ucast (drop_bit 8 v)) m }"

definition rd32 :: "bmem \<Rightarrow> u32 \<Rightarrow> u32 option" where
  "rd32 m a = do {
     b0 \<leftarrow> m a; b1 \<leftarrow> m (a + 1); b2 \<leftarrow> m (a + 2); b3 \<leftarrow> m (a + 3);
     Some (ucast b0 OR push_bit 8 (ucast b1) OR push_bit 16 (ucast b2) OR push_bit 24 (ucast b3))
   }"

definition wr32 :: "u32 \<Rightarrow> u32 \<Rightarrow> bmem \<Rightarrow> bmem option" where
  "wr32 a v m = do {
     m \<leftarrow> wr a (ucast v) m;
     m \<leftarrow> wr (a + 1) (ucast (drop_bit 8 v)) m;
     m \<leftarrow> wr (a + 2) (ucast (drop_bit 16 v)) m;
     wr (a + 3) (ucast (drop_bit 24 v)) m
   }"

text \<open>\<^verbatim>\<open>memclr\<close> on the bytes of the address space, by words or by bytes.\<close>

definition memclr_b :: "u32 \<Rightarrow> u32 \<Rightarrow> bmem \<Rightarrow> bmem option" where
  "memclr_b ptr cnt m =
     (if cnt mod 4 = 0 then fold_opt (\<lambda>i. wr32 (ptr + of_nat i * 4) 0) [0..<unat (cnt div 4)] m
      else fold_opt (\<lambda>i. wr (ptr + of_nat i) 0) [0..<unat cnt] m)"

definition kalloc :: "'h allocator \<Rightarrow> u32 \<Rightarrow> ('h, 'b) fs_state_scheme \<Rightarrow> (u32 \<times> ('h, 'b) fs_state_scheme) option" where
  "kalloc alloc n s = do { (p, h) \<leftarrow> alloc n (pages_st s); Some (p, s\<lparr>pages_st := h\<rparr>) }"

definition krelease :: "(u32 \<Rightarrow> 'h \<Rightarrow> 'h option) \<Rightarrow> u32 \<Rightarrow> ('h, 'b) fs_state_scheme \<Rightarrow> ('h, 'b) fs_state_scheme option" where
  "krelease free p s = do { h \<leftarrow> free p (pages_st s); Some (s\<lparr>pages_st := h\<rparr>) }"

subsection \<open>The file system in memory\<close>

definition ramfs_init :: "('h, 'b) fs_state_scheme \<Rightarrow> ('h, 'b) fs_state_scheme option" where
  "ramfs_init s = upd_vfile (root_dir s) (\<lambda>v. v\<lparr>f_private := 0, f_size := 0\<rparr>) s"

definition get_root_dir :: "('h, 'b) fs_state_scheme \<Rightarrow> u32" where
  "get_root_dir s = root_dir s"

text \<open>The loop of \<^verbatim>\<open>search_dir\<close> over the entries with the given indices.\<close>

primrec search_entries :: "('h, 'b) fs_state_scheme \<Rightarrow> u8 list \<Rightarrow> u32 \<Rightarrow> nat list \<Rightarrow> u32 option" where
  "search_entries s subname children [] = Some 0"
| "search_entries s subname children (i # is) = do {
     c \<leftarrow> rd32 (fmem s) (children + of_nat i * 4);
     if c = 0 then search_entries s subname children is
     else do {
       v \<leftarrow> vfiles s c;
       if f_name v = subname then Some c else search_entries s subname children is
     }
   }"

definition search_dir :: "u8 list \<Rightarrow> u32 \<Rightarrow> ('h, 'b) fs_state_scheme \<Rightarrow> u32 option" where
  "search_dir subname directory s =
     (if directory = 0 then Some 0
      else do {
        d \<leftarrow> vfiles s directory;
        if f_private d = 0 then Some 0
        else search_entries s subname (f_private d) [0..<unat (f_size d) div 4]
      })"

text \<open>The tokens of a path: the parts between slashes.\<close>

fun path_tokens :: "u8 list \<Rightarrow> u8 list list" where
  "path_tokens [] = [[]]"
| "path_tokens (c # cs) =
     (if c = slash then [] # path_tokens cs
      else (case path_tokens cs of [] \<Rightarrow> [[c]] | t # ts \<Rightarrow> (c # t) # ts))"

text \<open>
  The loop of \<^verbatim>\<open>resolve_path\<close>; \<open>path\<close> is \<^verbatim>\<open>current_path\<close>, the part of the path that a mounted file
  system is asked for.
\<close>

primrec resolve_tokens ::
    "(u32 \<Rightarrow> ('h, 'b) fs_state_scheme fileops_t) \<Rightarrow> bool \<Rightarrow> u8 list list \<Rightarrow> u8 list \<Rightarrow> u32 \<Rightarrow>
     ('h, 'b) fs_state_scheme \<Rightarrow> (u32 \<times> ('h, 'b) fs_state_scheme) option" where
  "resolve_tokens fops get_last_child [] path entry s = Some (entry, s)"
| "resolve_tokens fops get_last_child (t # ts) path entry s = do {
     entry \<leftarrow> search_dir t entry s;
     let path = drop (length t) path;
     let path = (if path \<noteq> [] \<and> hd path = slash then tl path else path);
     if entry = 0 then Some (0, s)
     else do {
       v \<leftarrow> vfiles s entry;
       if f_flags v AND FS_FILE_MOUNT \<noteq> 0
       then if \<not> get_last_child then Some (0, s)
            else do { f \<leftarrow> op_rfopen (fops (f_ops v)); f path entry s }
       else resolve_tokens fops get_last_child ts path entry s
     }
   }"

definition resolve_path ::
    "'h allocator \<Rightarrow> (u32 \<Rightarrow> 'h \<Rightarrow> 'h option) \<Rightarrow> (u32 \<Rightarrow> ('h, 'b) fs_state_scheme fileops_t) \<Rightarrow>
     u8 list \<Rightarrow> u32 \<Rightarrow> bool \<Rightarrow> ('h, 'b) fs_state_scheme \<Rightarrow> (u32 \<times> ('h, 'b) fs_state_scheme) option" where
  "resolve_path alloc free fops pathname start get_last_child s =
     (if start = 0 then Some (0, s)
      else do {
        (p, s) \<leftarrow> kalloc alloc 1 s;
        if p = 0 \<or> length pathname \<ge> 4096 then None
        else do {
          let lead = (pathname \<noteq> [] \<and> hd pathname = slash);
          let p = (if lead then p + 1 else p);
          let path = (if lead then tl pathname else pathname);
          (t, s) \<leftarrow> kalloc alloc 1 s;
          if t = 0 then None
          else do {
            let tokens = take 1024 (path_tokens path);
            (entry, s) \<leftarrow> resolve_tokens fops get_last_child tokens pathname start s;
            s \<leftarrow> krelease free p s;
            s \<leftarrow> krelease free t s;
            Some (entry, s)
          }
        }
      })"

text \<open>\<^verbatim>\<open>(n + PAGE_SIZE_BYTES - 1)/PAGE_SIZE_BYTES\<close>, computed at the width of the operand.\<close>

definition ramfs_resize ::
    "'h allocator \<Rightarrow> (u32 \<Rightarrow> 'h \<Rightarrow> 'h option) \<Rightarrow> u32 \<Rightarrow> u32 \<Rightarrow> ('h, 'b) fs_state_scheme \<Rightarrow>
     (u32 \<times> ('h, 'b) fs_state_scheme) option" where
  "ramfs_resize alloc free file new_size_bytes s = do {
     v \<leftarrow> vfiles s file;
     if ucast new_size_bytes = f_size v then Some (new_size_bytes, s)
     else do {
       let new_size_pages = (new_size_bytes + 4096 - 1) div 4096;
       let old_size_pages = (ucast ((f_size v + 4096 - 1) div 4096) :: u32);
       if old_size_pages = new_size_pages
       then do {
         s \<leftarrow> upd_vfile file (\<lambda>v. v\<lparr>f_size := ucast new_size_bytes\<rparr>) s;
         Some (new_size_bytes, s)
       }
       else do {
         (new_ptr, s) \<leftarrow> kalloc alloc new_size_pages s;
         if new_ptr = 0 then Some (0, s)
         else do {
           s \<leftarrow> (if f_private v \<noteq> 0
                then do {
                  m \<leftarrow> memcpy_b (f_private v) new_ptr
                        (if new_size_bytes < old_size_pages then new_size_bytes else ucast (f_size v)) (fmem s);
                  krelease free (f_private v) (s\<lparr>fmem := m\<rparr>)
                }
                else Some s);
           s \<leftarrow> upd_vfile file (\<lambda>v. v\<lparr>f_private := new_ptr, f_size := ucast new_size_bytes\<rparr>) s;
           Some (new_size_bytes, s)
         }
       }
     }
   }"

text \<open>The loop of \<^verbatim>\<open>ramfs_create\<close> that looks for an empty entry.\<close>

primrec find_empty :: "bmem \<Rightarrow> u32 \<Rightarrow> nat list \<Rightarrow> nat option option" where
  "find_empty m dirents [] = Some None"
| "find_empty m dirents (i # is) = do {
     c \<leftarrow> rd32 m (dirents + of_nat i * 4);
     if c \<noteq> 0 then find_empty m dirents is else Some (Some i)
   }"

definition new_vfile :: "u8 list \<Rightarrow> u32 \<Rightarrow> u32 \<Rightarrow> vfile_t" where
  "new_vfile new_name fl opsp = zero_vfile\<lparr>f_name := new_name, f_flags := ucast fl, f_ops := opsp\<rparr>"

definition ramfs_create ::
    "'h allocator \<Rightarrow> (u32 \<Rightarrow> 'h \<Rightarrow> 'h option) \<Rightarrow> u32 \<Rightarrow> u8 list option \<Rightarrow> u32 \<Rightarrow> ('h, 'b) fs_state_scheme \<Rightarrow>
     (u32 \<times> ('h, 'b) fs_state_scheme) option" where
  "ramfs_create alloc free root path fl s =
     (case path of None \<Rightarrow> Some (0, s)
      | Some path \<Rightarrow> do {
          let new_name = (if path \<noteq> [] \<and> hd path = slash then tl path else path);
          if root = 0 then Some (0, s)
          else do {
            parent \<leftarrow> vfiles s root;
            if f_flags parent AND FS_FILE_IS_DIR = 0 then Some (0, s)
            else if length new_name \<ge> 76 then None
            else do {
              r \<leftarrow> find_empty (fmem s) (f_private parent) [0..<unat (f_size parent) div 4];
              case r of
                Some i \<Rightarrow> do {
                  (p, s) \<leftarrow> kalloc alloc 1 s;
                  if p = 0 then None
                  else do {
                    let s = s\<lparr>vfiles := (vfiles s)(p \<mapsto> new_vfile new_name fl (ramfs_ops s))\<rparr>;
                    m \<leftarrow> wr32 (f_private parent + of_nat i * 4) p (fmem s);
                    Some (p, s\<lparr>fmem := m\<rparr>)
                  }
                }
              | None \<Rightarrow> do {
                  (r, s) \<leftarrow> ramfs_resize alloc free root (ucast (f_size parent + 4)) s;
                  if r = 0 then Some (0, s)
                  else do {
                    (p, s) \<leftarrow> kalloc alloc 1 s;
                    if p = 0 then Some (0, s)
                    else do {
                      parent \<leftarrow> vfiles s root;
                      let s = s\<lparr>vfiles := (vfiles s)(p \<mapsto> (new_vfile new_name fl (ramfs_ops s))\<lparr>block_size_bytes := 1\<rparr>)\<rparr>;
                      m \<leftarrow> wr32 (f_private parent + ucast (f_size parent div 4 - 1) * 4) p (fmem s);
                      Some (p, s\<lparr>fmem := m\<rparr>)
                    }
                  }
                }
            }
          }
        })"

definition le_bytes :: "nat \<Rightarrow> 'a::len word \<Rightarrow> u8 list" where
  "le_bytes n w = map (\<lambda>i. ucast (drop_bit (8 * i) w)) [0..<n]"

text \<open>The 128 bytes of a \<^verbatim>\<open>vfile_t\<close> as the compiler lays them out on i386.\<close>

definition vfile_bytes :: "vfile_t \<Rightarrow> u8 list" where
  "vfile_bytes v = f_name v @ replicate (76 - length (f_name v)) 0 @ le_bytes 2 (f_flags v) @ [0, 0] @
     le_bytes 4 (f_ops v) @ le_bytes 4 (refcount v) @ le_bytes 4 (f_id v) @ le_bytes 4 (f_private v) @
     le_bytes 8 (f_size v) @ le_bytes 8 (f_offset v) @ le_bytes 2 (block_size_bytes v) @
     [owner_uid v, owner_gid v] @ le_bytes 4 (last_modified v) @ le_bytes 4 (created v) @
     le_bytes 2 (permissions v) @ [if lock (f_lock v) then 1 else 0, 0]"

definition put_bytes :: "u32 \<Rightarrow> u8 list \<Rightarrow> bmem \<Rightarrow> bmem option" where
  "put_bytes p xs m = fold_opt (\<lambda>i. wr (p + of_nat i) (xs ! i)) [0..<length xs] m"

definition ramfs_translate_dir ::
    "u32 \<Rightarrow> u32 \<Rightarrow> u64 \<Rightarrow> u64 \<Rightarrow> ('h, 'b) fs_state_scheme \<Rightarrow> (u32 \<times> ('h, 'b) fs_state_scheme) option" where
  "ramfs_translate_dir file buffer offset cnt s = do {
     v \<leftarrow> vfiles s file;
     let dirents_requested = (ucast (cnt div 128) :: u32);
     let dirents_availible = (ucast (f_size v div 4) :: u32);
     let to_copy = unsigned_min dirents_availible dirents_requested;
     s \<leftarrow> fold_opt (\<lambda>i s. do {
            c \<leftarrow> rd32 (fmem s) (f_private v + (of_nat i + ucast offset) * 4);
            w \<leftarrow> vfiles s c;
            m \<leftarrow> put_bytes (buffer + of_nat i * 128) (vfile_bytes w) (fmem s);
            Some (s\<lparr>fmem := m\<rparr>)
          }) [0..<unat to_copy] s;
     Some (to_copy * 128, s)
   }"

definition ramfs_delete :: "u32 \<Rightarrow> u8 list \<Rightarrow> ('h, 'b) fs_state_scheme \<Rightarrow> (u32 \<times> ('h, 'b) fs_state_scheme) option" where
  "ramfs_delete dir child s = Some (0, s)"

definition ramfs_write ::
    "'h allocator \<Rightarrow> (u32 \<Rightarrow> 'h \<Rightarrow> 'h option) \<Rightarrow> u32 \<Rightarrow> u32 \<Rightarrow> u64 \<Rightarrow> u64 \<Rightarrow> ('h, 'b) fs_state_scheme \<Rightarrow>
     (u32 \<times> ('h, 'b) fs_state_scheme) option" where
  "ramfs_write alloc free file buffer offset cnt s =
     (if file = 0 \<or> buffer = 0 then Some (0, s)
      else do {
        v \<leftarrow> vfiles s file;
        if f_flags v AND (FS_FILE_READ_ONLY OR FS_FILE_IS_DIR OR FS_FILE_MOUNT) \<noteq> 0 then Some (0, s)
        else do {
          (ok, s) \<leftarrow> (if cnt + offset > f_size v
                      then do { (r, s) \<leftarrow> ramfs_resize alloc free file (ucast (cnt + offset)) s; Some (r \<noteq> 0, s) }
                      else Some (True, s));
          if \<not> ok then Some (0, s)
          else do {
            v \<leftarrow> vfiles s file;
            m \<leftarrow> memcpy_b buffer (f_private v + ucast offset) (ucast cnt) (fmem s);
            Some (ucast cnt, s\<lparr>fmem := m\<rparr>)
          }
        }
      })"

definition ramfs_read ::
    "u32 \<Rightarrow> u32 \<Rightarrow> u64 \<Rightarrow> u64 \<Rightarrow> ('h, 'b) fs_state_scheme \<Rightarrow> (u32 \<times> ('h, 'b) fs_state_scheme) option" where
  "ramfs_read file buffer offset cnt s =
     (if file = 0 \<or> buffer = 0 then Some (0, s)
      else do {
        v \<leftarrow> vfiles s file;
        if f_private v = 0 \<or> f_flags v AND FS_FILE_MOUNT \<noteq> 0 then Some (0, s)
        else if f_flags v AND FS_FILE_IS_DIR \<noteq> 0 then ramfs_translate_dir file buffer offset cnt s
        else do {
          m \<leftarrow> memcpy_b (f_private v + ucast offset) buffer (ucast cnt) (fmem s);
          Some (ucast cnt, s\<lparr>fmem := m\<rparr>)
        }
      })"

definition ramfs_close :: "u32 \<Rightarrow> ('h, 'b) fs_state_scheme \<Rightarrow> ('h, 'b) fs_state_scheme option" where
  "ramfs_close file s = upd_vfile file (\<lambda>v. v\<lparr>refcount := refcount v - 1\<rparr>) s"

definition ramfs_rfopen ::
    "'h allocator \<Rightarrow> (u32 \<Rightarrow> 'h \<Rightarrow> 'h option) \<Rightarrow> (u32 \<Rightarrow> ('h, 'b) fs_state_scheme fileops_t) \<Rightarrow>
     u8 list \<Rightarrow> u32 \<Rightarrow> ('h, 'b) fs_state_scheme \<Rightarrow> (u32 \<times> ('h, 'b) fs_state_scheme) option" where
  "ramfs_rfopen alloc free fops name dir s = resolve_path alloc free fops name dir True s"

text \<open>The table \<^verbatim>\<open>ramfs_ops\<close>.\<close>

definition ramfs_fileops ::
    "'h allocator \<Rightarrow> (u32 \<Rightarrow> 'h \<Rightarrow> 'h option) \<Rightarrow> (u32 \<Rightarrow> ('h, 'b) fs_state_scheme fileops_t) \<Rightarrow>
     ('h, 'b) fs_state_scheme fileops_t" where
  "ramfs_fileops alloc free fops =
     \<lparr>op_create = Some (\<lambda>p n fl. ramfs_create alloc free p (Some n) fl), op_delete = Some ramfs_delete,
      op_write = Some (ramfs_write alloc free), op_read = Some ramfs_read,
      op_close = Some ramfs_close, op_rfopen = Some (ramfs_rfopen alloc free fops)\<rparr>"

subsection \<open>Words in memory\<close>

definition word_mapped :: "bmem \<Rightarrow> u32 \<Rightarrow> bool" where
  "word_mapped m a \<longleftrightarrow> m a \<noteq> None \<and> m (a + 1) \<noteq> None \<and> m (a + 2) \<noteq> None \<and> m (a + 3) \<noteq> None"

lemma le_word_bytes: "(ucast (ucast (v :: u32) :: u8) :: u32) OR push_bit 8 (ucast (ucast (drop_bit 8 v) :: u8)) OR
   push_bit 16 (ucast (ucast (drop_bit 16 v) :: u8)) OR push_bit 24 (ucast (ucast (drop_bit 24 v) :: u8)) = v"
proof (rule bit_word_eqI)
  fix n
  assume "n < LENGTH(32)"
  then consider "n < 8" | "8 \<le> n" "n < 16" | "16 \<le> n" "n < 24" | "24 \<le> n" "n < 32" by force
  then show "bit ((ucast (ucast v :: u8) :: u32) OR push_bit 8 (ucast (ucast (drop_bit 8 v) :: u8)) OR
     push_bit 16 (ucast (ucast (drop_bit 16 v) :: u8)) OR push_bit 24 (ucast (ucast (drop_bit 24 v) :: u8))) n = bit v n"
    by cases (auto simp: bit_simps)
qed

lemma wr32_total:
  assumes "word_mapped m a"
  shows "wr32 a v m = Some (m(a \<mapsto> ucast v, a + 1 \<mapsto> ucast (drop_bit 8 v),
     a + 2 \<mapsto> ucast (drop_bit 16 v), a + 3 \<mapsto> ucast (drop_bit 24 v)))"
  using assms by (auto simp: wr32_def wr_def word_mapped_def)

lemma rd32_wr32_same:
  assumes "wr32 a v m = Some m'"
  shows "rd32 m' a = Some v"
proof -
  have "m' = m(a \<mapsto> ucast v, a + 1 \<mapsto> ucast (drop_bit 8 v),
     a + 2 \<mapsto> ucast (drop_bit 16 v), a + 3 \<mapsto> ucast (drop_bit 24 v))"
    using assms by (auto simp: wr32_def wr_def split: if_splits bind_splits)
  then show ?thesis by (simp add: rd32_def le_word_bytes)
qed

lemma wr32_frame:
  assumes "wr32 a v m = Some m'" "b \<noteq> a" "b \<noteq> a + 1" "b \<noteq> a + 2" "b \<noteq> a + 3"
  shows "m' b = m b"
  using assms by (auto simp: wr32_def wr_def split: if_splits bind_splits)

lemma rd32_frame:
  assumes "m' b = m b" "m' (b + 1) = m (b + 1)" "m' (b + 2) = m (b + 2)" "m' (b + 3) = m (b + 3)"
  shows "rd32 m' b = rd32 m b"
  using assms by (simp add: rd32_def)

lemma span_word: "span a 4 b \<longleftrightarrow> b = a \<or> b = a + 1 \<or> b = a + 2 \<or> b = a + 3"
proof
  assume "span a 4 b"
  then obtain i where "i < 4" "b = a + of_nat i" by (rule span_offset)
  moreover from \<open>i < 4\<close> have "i = 0 \<or> i = 1 \<or> i = 2 \<or> i = 3" by auto
  ultimately show "b = a \<or> b = a + 1 \<or> b = a + 2 \<or> b = a + 3" by auto
qed (auto simp: span_def)

text \<open>Two words at different multiples of four from the same base do not overlap.\<close>

lemma rd32_wr32_other:
  assumes w: "wr32 (p + of_nat j * 4) v m = Some m'" and ij: "i \<noteq> j" "4 * i + 4 \<le> 2 ^ 32" "4 * j + 4 \<le> 2 ^ 32"
  shows "rd32 m' (p + of_nat i * 4) = rd32 m (p + of_nat i * 4)"
proof -
  have ne: "p + of_nat i * 4 + of_nat k \<noteq> p + of_nat j * 4 + of_nat l" if "k < 4" "l < 4" for k l
  proof -
    have "(of_nat (4 * i + k) :: u32) \<noteq> of_nat (4 * j + l)"
    proof
      assume "(of_nat (4 * i + k) :: u32) = of_nat (4 * j + l)"
      then have "4 * i + k = 4 * j + l"
        using ij that unat_of_nat_lt [where 'a = 32, of "4 * i + k"] unat_of_nat_lt [where 'a = 32, of "4 * j + l"]
        by (simp del: of_nat_add)
      then have "i = j" using that by presburger
      with ij show False by simp
    qed
    then show ?thesis by (simp add: algebra_simps)
  qed
  have "m' (p + of_nat i * 4 + of_nat k) = m (p + of_nat i * 4 + of_nat k)" if "k < 4" for k
    by (rule wr32_frame [OF w]) (use ne [OF that, of 0] ne [OF that, of 1] ne [OF that, of 2] ne [OF that, of 3] in auto)
  from this [of 0] this [of 1] this [of 2] this [of 3] show ?thesis by (intro rd32_frame) simp_all
qed

subsection \<open>Directories\<close>

text \<open>\<open>cs\<close> are the children of directory \<open>d\<close>, none of the entries being empty.\<close>

definition dir_entries :: "('h, 'b) fs_state_scheme \<Rightarrow> u32 \<Rightarrow> u32 list \<Rightarrow> bool" where
  "dir_entries s d cs \<longleftrightarrow> d \<noteq> 0 \<and> (\<exists>v. vfiles s d = Some v \<and> unat (f_size v) = 4 * length cs \<and>
     4 * length cs + 4096 \<le> 2 ^ 32 \<and> (f_private v = 0 \<longleftrightarrow> cs = []) \<and>
     (\<forall>i < length cs. rd32 (fmem s) (f_private v + of_nat i * 4) = Some (cs ! i))) \<and>
     (\<forall>c \<in> set cs. c \<noteq> 0 \<and> vfiles s c \<noteq> None)"

definition child_named :: "('h, 'b) fs_state_scheme \<Rightarrow> u32 list \<Rightarrow> u8 list \<Rightarrow> u32" where
  "child_named s cs n = (case find (\<lambda>c. f_name (the (vfiles s c)) = n) cs of Some c \<Rightarrow> c | None \<Rightarrow> 0)"

lemma search_entries_find:
  assumes "\<forall>i < length cs. rd32 (fmem s) (p + of_nat i * 4) = Some (cs ! i)"
    and "\<forall>c \<in> set cs. c \<noteq> 0 \<and> vfiles s c \<noteq> None"
  shows "search_entries s n p [length cs - k..<length cs] = Some (child_named s (drop (length cs - k) cs) n)"
proof (induction k)
  case 0
  then show ?case by (simp add: child_named_def)
next
  case (Suc k)
  show ?case
  proof (cases "k < length cs")
    case True
    define i where "i = length cs - Suc k"
    have i: "i < length cs" "Suc i = length cs - k" using True by (auto simp: i_def)
    have c: "rd32 (fmem s) (p + of_nat i * 4) = Some (cs ! i)" using assms(1) i(1) by simp
    have cs: "cs ! i \<noteq> 0" "vfiles s (cs ! i) \<noteq> None" using assms(2) nth_mem [OF i(1)] by auto
    have "[i..<length cs] = i # [Suc i..<length cs]" using i(1) by (simp add: upt_conv_Cons)
    moreover have "drop i cs = cs ! i # drop (Suc i) cs" using i(1) by (simp add: Cons_nth_drop_Suc)
    ultimately show ?thesis
      using Suc c cs i(2) unfolding i_def [symmetric] by (auto simp: child_named_def)
  next
    case False
    then show ?thesis using Suc by simp
  qed
qed

lemma search_dir_entries:
  assumes "dir_entries s d cs"
  shows "search_dir n d s = Some (child_named s cs n)"
proof -
  obtain v where v: "d \<noteq> 0" "vfiles s d = Some v" "unat (f_size v) = 4 * length cs" "f_private v = 0 \<longleftrightarrow> cs = []"
    "\<forall>i < length cs. rd32 (fmem s) (f_private v + of_nat i * 4) = Some (cs ! i)"
    "\<forall>c \<in> set cs. c \<noteq> 0 \<and> vfiles s c \<noteq> None"
    using assms unfolding dir_entries_def by blast
  show ?thesis
    using search_entries_find [OF v(5,6), of n "length cs"] v(1-4)
    by (cases "cs = []") (simp_all add: search_dir_def child_named_def)
qed

lemma find_empty_none:
  assumes "\<forall>i \<in> set is. rd32 m (p + of_nat i * 4) = Some (f i) \<and> f i \<noteq> 0"
  shows "find_empty m p is = Some None"
  using assms by (induction "is") auto

subsection \<open>The pages the file system takes from the allocator\<close>

definition free_pages :: "blocks \<Rightarrow> nat \<Rightarrow> nat set" where
  "free_pages B n = {i. i < n \<and> \<not> covered B i}"

lemma finite_free_pages [simp]: "finite (free_pages B n)"
  by (simp add: free_pages_def)

lemma gap_free_page: "gap B n a (Suc 0) \<longleftrightarrow> a \<in> free_pages B n"
  unfolding gap_def free_pages_def by (auto simp: less_Suc_eq_le dest: order.antisym)

lemma free_pages_take:
  assumes "a \<in> free_pages B n" "B a = None"
  shows "free_pages (B(a \<mapsto> 1)) n = free_pages B n - {a}"
  using assms by (auto simp: free_pages_def covered_def)

lemma card_take:
  assumes "a \<in> free_pages B n" "B a = None" "Suc k \<le> card (free_pages B n)"
  shows "k \<le> card (free_pages (B(a \<mapsto> 1)) n)"
  using assms(1,3) unfolding free_pages_take [OF assms(1,2)] by simp

text \<open>
  The allocator part of a file system state: at least \<open>k\<close> pages are free, and every file but the root
  lives in a page the allocator has handed out.
\<close>

definition pages_ok ::
    "(blocks \<Rightarrow> 'h \<Rightarrow> bool) \<Rightarrow> ('h \<Rightarrow> bool) \<Rightarrow> ('h \<Rightarrow> nat) \<Rightarrow> ('h \<Rightarrow> nat \<Rightarrow> nat \<Rightarrow> u32) \<Rightarrow>
     blocks \<Rightarrow> nat \<Rightarrow> ('h, 'b) fs_state_scheme \<Rightarrow> bool" where
  "pages_ok rep ready pages addr B k s \<longleftrightarrow>
     ready (pages_st s) \<and> rep B (pages_st s) \<and> k \<le> card (free_pages B (pages (pages_st s))) \<and>
     (\<forall>p. vfiles s p \<noteq> None \<longrightarrow> p = root_dir s \<or> (\<exists>a \<in> dom B. p = addr (pages_st s) a 0)) \<and>
     (\<forall>a < pages (pages_st s). addr (pages_st s) a 0 \<noteq> root_dir s)"

text \<open>
  What the file system needs beyond the contract of a block allocator: distinct pages have distinct
  addresses, none of which is null, and the addresses of one page are consecutive.
\<close>

locale page_source = block_allocator rep ready pages addr alloc free
  for rep :: "blocks \<Rightarrow> 'h \<Rightarrow> bool" and ready :: "'h \<Rightarrow> bool" and pages :: "'h \<Rightarrow> nat"
    and addr :: "'h \<Rightarrow> nat \<Rightarrow> nat \<Rightarrow> u32"
    and alloc :: "u32 \<Rightarrow> 'h \<Rightarrow> (u32 \<times> 'h) option" and free :: "u32 \<Rightarrow> 'h \<Rightarrow> 'h option" +
  assumes addr_nonzero: "ready h \<Longrightarrow> a < pages h \<Longrightarrow> addr h a 0 \<noteq> 0"
    and addr_inj: "ready h \<Longrightarrow> a < pages h \<Longrightarrow> b < pages h \<Longrightarrow> addr h a 0 = addr h b 0 \<Longrightarrow> a = b"
    and addr_offset: "addr h a 1 = addr h a 0 + 1"
    and rep_bound: "rep B h \<Longrightarrow> B a = Some n \<Longrightarrow> 0 < n \<and> a + n \<le> pages h"
begin

abbreviation fs_pages :: "blocks \<Rightarrow> nat \<Rightarrow> ('h, 'b) fs_state_scheme \<Rightarrow> bool" where
  "fs_pages \<equiv> pages_ok rep ready pages addr"

lemma kalloc_page:
  assumes "fs_pages B (Suc k) s"
  shows "\<exists>a h'. kalloc alloc 1 s = Some (addr (pages_st s) a 0, s\<lparr>pages_st := h'\<rparr>) \<and> B a = None \<and>
    a < pages (pages_st s) \<and> addr (pages_st s) a 0 \<noteq> 0 \<and> vfiles s (addr (pages_st s) a 0) = None \<and>
    addr h' = addr (pages_st s) \<and> pages h' = pages (pages_st s) \<and>
    fs_pages (B(a \<mapsto> 1)) k (s\<lparr>pages_st := h'\<rparr>)"
proof -
  let ?h = "pages_st s"
  have s: "ready ?h" "rep B ?h" "Suc k \<le> card (free_pages B (pages ?h))"
    "\<And>p. vfiles s p \<noteq> None \<Longrightarrow> p = root_dir s \<or> (\<exists>a \<in> dom B. p = addr ?h a 0)"
    "\<And>a. a < pages ?h \<Longrightarrow> addr ?h a 0 \<noteq> root_dir s"
    using assms unfolding pages_ok_def by blast+
  have "free_pages B (pages ?h) \<noteq> {}" using s(3) by auto
  then obtain b where "gap B (pages ?h) b (unat (1 :: u32))" using gap_free_page by auto
  then obtain a h' where a: "alloc 1 ?h = Some (addr ?h a 0, h')" "gap B (pages ?h) a (unat (1 :: u32))"
      "rep (B(a \<mapsto> unat (1 :: u32))) h'" "ready h'" "pages h' = pages ?h" "addr h' = addr ?h"
    using alloc_law [OF s(1,2), of 1 b] by auto
  have none: "B a = None" using rep_fresh [OF s(2) a(2)] by simp
  have fp: "a \<in> free_pages B (pages ?h)" using a(2) gap_free_page by simp
  then have lt: "a < pages ?h" by (simp add: free_pages_def)
  have fresh: "vfiles s (addr ?h a 0) = None"
  proof (rule ccontr)
    assume "vfiles s (addr ?h a 0) \<noteq> None"
    then obtain c where c: "c \<in> dom B" "addr ?h a 0 = addr ?h c 0" using s(4) s(5) [OF lt] by metis
    then obtain n where "B c = Some n" by blast
    then have "c < pages ?h" using rep_bound [OF s(2)] by fastforce
    then have "a = c" using addr_inj [OF s(1) lt] c(2) by blast
    with none c(1) show False by auto
  qed
  have "fs_pages (B(a \<mapsto> 1)) k (s\<lparr>pages_st := h'\<rparr>)"
    using a(3-6) s(4,5) card_take [OF fp none s(3)] by (auto simp: pages_ok_def)
  with a none lt fresh addr_nonzero [OF s(1) lt] show ?thesis by (auto simp: kalloc_def)
qed

lemma krelease_page:
  assumes "fs_pages B k s" "B a = Some 1" "off < 2" "vfiles s (addr (pages_st s) a 0) = None"
  shows "\<exists>h'. krelease free (addr (pages_st s) a off) s = Some (s\<lparr>pages_st := h'\<rparr>) \<and>
    addr h' = addr (pages_st s) \<and> pages h' = pages (pages_st s) \<and> fs_pages (B(a := None)) k (s\<lparr>pages_st := h'\<rparr>)"
proof -
  let ?h = "pages_st s"
  have s: "ready ?h" "rep B ?h" "k \<le> card (free_pages B (pages ?h))"
    "\<And>p. vfiles s p \<noteq> None \<Longrightarrow> p = root_dir s \<or> (\<exists>a \<in> dom B. p = addr ?h a 0)"
    "\<And>a. a < pages ?h \<Longrightarrow> addr ?h a 0 \<noteq> root_dir s"
    using assms(1) unfolding pages_ok_def by blast+
  obtain h' where h': "free (addr ?h a off) ?h = Some h'" "rep (B(a := None)) h'" "ready h'"
      "pages h' = pages ?h" "addr h' = addr ?h"
    using free_law [OF s(1,2) assms(2), of a off] assms(3) by auto
  have "free_pages B (pages ?h) \<subseteq> free_pages (B(a := None)) (pages ?h)"
    by (auto simp: free_pages_def covered_def split: if_splits)
  then have "k \<le> card (free_pages (B(a := None)) (pages ?h))"
    using s(3) card_mono [of "free_pages (B(a := None)) (pages ?h)" "free_pages B (pages ?h)"] by simp
  moreover have "p = root_dir s \<or> (\<exists>c \<in> dom (B(a := None)). p = addr ?h c 0)" if "vfiles s p \<noteq> None" for p
    using s(4) [OF that] that assms(4) by auto
  ultimately have "fs_pages (B(a := None)) k (s\<lparr>pages_st := h'\<rparr>)"
    using h'(2-5) s(5) by (auto simp: pages_ok_def)
  with h' show ?thesis by (auto simp: krelease_def)
qed

lemma pages_ok_cong:
  assumes "fs_pages B k s" "pages_st t = pages_st s" "dom (vfiles t) = dom (vfiles s)" "root_dir t = root_dir s"
  shows "fs_pages B k t"
  using assms by (auto simp: pages_ok_def dom_def set_eq_iff)

end

lemma heap_addr_page:
  assumes "kheap_ready h" "a < heap_pages h"
  shows "unat (heap_addr h a 0) = unat (heap_base h) + a * 4096"
proof -
  have "unat (heap_base h) + heap_pages h * 4096 \<le> 4294967296" "a * 4096 < heap_pages h * 4096"
    using assms by (simp_all add: kheap_ready_def heap_ready_def)
  then have lt: "unat (heap_base h) + a * 4096 < 4294967296" by linarith
  then have "unat (of_nat (a * 4096) :: u32) = a * 4096" by (intro unat_of_nat_lt) simp
  then show ?thesis
    using lt unat_add_lt [of "heap_base h" "of_nat (a * 4096)"] by (simp add: heap_addr_def)
qed

interpretation kpages: page_source
  "heap_rep :: blocks \<Rightarrow> 'a mm_state_scheme \<Rightarrow> bool" kheap_ready heap_pages heap_addr kmalloc kfree
proof
  fix h :: "'a mm_state_scheme" and a b n and B :: blocks
  note u = heap_addr_page
  show "heap_addr h a 0 \<noteq> 0" if "kheap_ready h" "a < heap_pages h"
  proof
    assume "heap_addr h a 0 = 0"
    then have "unat (heap_base h) + a * 4096 = 0" using u [OF that] by (simp only: unat_0)
    then have "unat (heap_base h) = 0" by linarith
    then show False using that(1) by (simp add: kheap_ready_def unat_eq_0)
  qed
  show "a = b" if "kheap_ready h" "a < heap_pages h" "b < heap_pages h" "heap_addr h a 0 = heap_addr h b 0"
    using u [OF that(1,2)] u [OF that(1,3)] unfolding that(4) by linarith
  show "heap_addr h a 1 = heap_addr h a 0 + 1" by (simp add: heap_addr_def)
  show "0 < n \<and> a + n \<le> heap_pages h" if "heap_rep B h" "B a = Some n" using heap_repD(1,2) [OF that] by simp
qed

subsection \<open>Creating a file\<close>

lemma page_ceiling:
  fixes n :: nat
  assumes "n mod 1024 \<noteq> 0"
  shows "(4 * n + 4 + 4095) div 4096 = (4 * n + 4095) div 4096"
proof -
  define q r where "q = n div 1024" and "r = n mod 1024"
  have n: "n = 1024 * q + r" by (simp add: q_def r_def)
  have r: "0 < r" "r < 1024" using assms by (simp_all add: r_def)
  have "(4 * n + 4 + 4095) div 4096 = q + 1" by (rule div_nat_eqI) (use n r in simp_all)
  moreover have "(4 * n + 4095) div 4096 = q + 1" by (rule div_nat_eqI) (use n r in simp_all)
  ultimately show ?thesis by simp
qed

lemma u64_of_nat: "unat x = n \<Longrightarrow> x = (of_nat n :: u64)"
  by auto

lemma unat_div_page:
  fixes x :: "'a::len word"
  assumes "unat x + 4096 < 2 ^ LENGTH('a)" "13 \<le> LENGTH('a)"
  shows "unat ((x + 4096 - 1) div 4096) = (unat x + 4095) div 4096"
proof -
  have big: "(2 :: nat) ^ 13 \<le> 2 ^ LENGTH('a)" using assms(2) by (intro power_increasing) simp_all
  then have n: "unat (4096 :: 'a word) = 4096" "unat (4095 :: 'a word) = 4095"
    using unat_of_nat_lt [where 'a = 'a, of 4096] unat_of_nat_lt [where 'a = 'a, of 4095] by simp_all
  have "x + 4096 - 1 = x + 4095" by (simp add: add_diff_eq [symmetric])
  moreover have "unat (x + 4095) = unat x + 4095" using assms(1) n by (subst unat_add_lt) simp_all
  ultimately show ?thesis using n by (simp only: unat_div_distrib)
qed

lemma ramfs_resize_same_pages:
  assumes v: "vfiles s d = Some v" "unat (f_size v) = old" and n: "new \<noteq> old" "old + 4096 < 2 ^ 32" "new + 4096 < 2 ^ 32"
    and pages: "(new + 4095) div 4096 = (old + 4095) div 4096"
  shows "ramfs_resize alloc free d (of_nat new) s =
    Some (of_nat new, s\<lparr>vfiles := (vfiles s)(d \<mapsto> v\<lparr>f_size := of_nat new\<rparr>)\<rparr>)"
proof -
  let ?new = "of_nat new :: u32"
  have new: "unat ?new = new" by (rule unat_of_nat_lt) (use n in simp)
  have u: "unat (ucast ?new :: u64) = new" using new unat_ucast_up [of ?new, where 'b = 64] by simp
  then have wide: "(ucast ?new :: u64) = of_nat new" by (rule u64_of_nat)
  have ne: "(ucast ?new :: u64) \<noteq> f_size v" using u v(2) n(1) by auto
  have "unat ((?new + 4096 - 1) div 4096) = (new + 4095) div 4096"
    using unat_div_page [of ?new] new n(3) by simp
  moreover have "unat (ucast ((f_size v + 4096 - 1) div 4096) :: u32) = (old + 4095) div 4096"
  proof -
    have "unat ((f_size v + 4096 - 1) div 4096) = (old + 4095) div 4096"
      using unat_div_page [of "f_size v"] v(2) n(2) by simp
    moreover have "(old + 4095) div 4096 < 2 ^ LENGTH(32)" using n(2) by (simp add: less_mult_imp_div_less)
    ultimately show ?thesis using unat_ucast_fits [of "(f_size v + 4096 - 1) div 4096", where 'b = 32] by simp
  qed
  ultimately have same: "(ucast ((f_size v + 4096 - 1) div 4096) :: u32) = (?new + 4096 - 1) div 4096"
    unfolding word_unat_eq_iff using pages by simp
  show ?thesis
    unfolding ramfs_resize_def v(1) using ne same wide v(1) by (simp add: Let_def upd_vfile_def)
qed

lemma ramfs_resize_in_page:
  assumes "vfiles s d = Some v" "unat (f_size v) = 4 * n" "n mod 1024 \<noteq> 0" "4 * n + 8192 < 2 ^ 32"
  shows "ramfs_resize alloc free d (of_nat (4 * n + 4)) s =
    Some (of_nat (4 * n + 4), s\<lparr>vfiles := (vfiles s)(d \<mapsto> v\<lparr>f_size := of_nat (4 * n + 4)\<rparr>)\<rparr>)"
  using assms page_ceiling [OF assms(3)] by (intro ramfs_resize_same_pages [of s d v "4 * n"]) simp_all

lemma ramfs_resize_first:
  assumes "vfiles s d = Some v" "f_size v = 0" "f_private v = 0"
    and "kalloc alloc 1 s = Some (q, s1)" "q \<noteq> 0" "vfiles s1 = vfiles s"
  shows "ramfs_resize alloc free d 4 s =
    Some (4, s1\<lparr>vfiles := (vfiles s)(d \<mapsto> v\<lparr>f_private := q, f_size := 4\<rparr>)\<rparr>)"
  using assms by (simp add: ramfs_resize_def upd_vfile_def)

lemma ramfs_create_append:
  assumes v: "d \<noteq> 0" "vfiles s d = Some v" "f_flags v AND FS_FILE_IS_DIR \<noteq> 0"
    and name: "n \<noteq> [] \<longrightarrow> hd n \<noteq> slash" "length n < 76"
    and full: "find_empty (fmem s) (f_private v) [0..<unat (f_size v) div 4] = Some None"
    and resize: "ramfs_resize alloc free d (ucast (f_size v + 4)) s = Some (r, s2)" "r \<noteq> 0"
      "vfiles s2 d = Some v2" "unat (f_size v2) = 4 * k + 4" "4 * k + 4 < 2 ^ 32"
    and page: "kalloc alloc 1 s2 = Some (p, s3)" "p \<noteq> 0" "vfiles s3 d = Some v2"
    and word: "wr32 (f_private v2 + of_nat k * 4) p (fmem s3) = Some m"
  shows "ramfs_create alloc free d (Some n) fl s =
    Some (p, s3\<lparr>vfiles := (vfiles s3)(p \<mapsto> (new_vfile n fl (ramfs_ops s3))\<lparr>block_size_bytes := 1\<rparr>), fmem := m\<rparr>)"
proof -
  have "unat (f_size v2 div 4) = Suc k" using resize(4) by (simp add: unat_div_distrib)
  then have "unat (f_size v2 div 4 - 1) = k"
    by (subst unat_sub) (simp_all add: word_le_nat_alt)
  then have slot: "(ucast (f_size v2 div 4 - 1) :: u32) = of_nat k"
    using resize(5) unat_ucast_fits [of "f_size v2 div 4 - 1", where 'b = 32]
    by (simp add: word_unat_eq_iff unat_of_nat_lt)
  have "(if n \<noteq> [] \<and> hd n = slash then tl n else n) = n" using name(1) by auto
  then show ?thesis
    using assms slot unfolding ramfs_create_def by (simp only: option.case Let_def) simp
qed

text \<open>The directory \<open>d\<close> can take one more entry without moving to new pages, or is still empty.\<close>

definition entry_room :: "('h, 'b) fs_state_scheme \<Rightarrow> vfile_t \<Rightarrow> nat \<Rightarrow> bool" where
  "entry_room s v n \<longleftrightarrow> n = 0 \<or> n mod 1024 \<noteq> 0 \<and> word_mapped (fmem s) (f_private v + of_nat n * 4)"

context page_source
begin

text \<open>A directory with room grows by one entry: the old entries stay, a slot follows them.\<close>

lemma ramfs_resize_entry:
  assumes dir: "vfiles s d = Some v" "unat (f_size v) = 4 * length cs" "f_private v = 0 \<longleftrightarrow> cs = []"
      "\<forall>i < length cs. rd32 (fmem s) (f_private v + of_nat i * 4) = Some (cs ! i)"
    and room: "entry_room s v (length cs)" "4 * length cs + 8192 < 2 ^ 32"
    and fs: "fs_pages B (Suc (Suc k)) s"
    and mem: "\<forall>a < pages (pages_st s). mapped (fmem s) (addr (pages_st s) a 0) 4096"
  obtains s2 v2 B2 where "ramfs_resize alloc free d (ucast (f_size v + 4)) s = Some (of_nat (4 * length cs + 4), s2)"
    "vfiles s2 = (vfiles s)(d \<mapsto> v2)" "fmem s2 = fmem s" "root_dir s2 = root_dir s" "ramfs_ops s2 = ramfs_ops s"
    "vfs_lock s2 = vfs_lock s" "addr (pages_st s2) = addr (pages_st s)" "pages (pages_st s2) = pages (pages_st s)"
    "unat (f_size v2) = 4 * length cs + 4" "f_private v2 \<noteq> 0" "f_name v2 = f_name v" "f_flags v2 = f_flags v"
    "f_ops v2 = f_ops v" "refcount v2 = refcount v"
    "\<forall>i < length cs. rd32 (fmem s) (f_private v2 + of_nat i * 4) = Some (cs ! i)"
    "word_mapped (fmem s) (f_private v2 + of_nat (length cs) * 4)"
    "fs_pages B2 (Suc k) s2" "B \<subseteq>\<^sub>m B2"
proof -
  let ?n = "length cs"
  have new: "(ucast (f_size v + 4) :: u32) = of_nat (4 * ?n + 4)"
  proof -
    have "unat (f_size v + 4) = 4 * ?n + 4" using dir(2) room(2) by (subst unat_add_lt) simp_all
    then show ?thesis
      using room(2) unat_ucast_fits [of "f_size v + 4", where 'b = 32] unat_of_nat_lt [where 'a = 32, of "4 * ?n + 4"]
      by (simp add: word_unat_eq_iff del: of_nat_add of_nat_mult)
  qed
  show ?thesis
  proof (cases "cs = []")
    case True
    then have z: "f_size v = 0" "f_private v = 0" using dir(2,3) by (simp_all add: unat_eq_0)
    obtain a h1 where a: "kalloc alloc 1 s = Some (addr (pages_st s) a 0, s\<lparr>pages_st := h1\<rparr>)" "B a = None"
        "a < pages (pages_st s)" "addr (pages_st s) a 0 \<noteq> 0" "addr h1 = addr (pages_st s)" "pages h1 = pages (pages_st s)"
        "fs_pages (B(a \<mapsto> 1)) (Suc k) (s\<lparr>pages_st := h1\<rparr>)"
      using kalloc_page [OF fs] by blast
    let ?q = "addr (pages_st s) a 0"
    let ?v2 = "v\<lparr>f_private := ?q, f_size := 4\<rparr>"
    let ?s2 = "s\<lparr>pages_st := h1, vfiles := (vfiles s)(d \<mapsto> ?v2)\<rparr>"
    have "ramfs_resize alloc free d (ucast (f_size v + 4)) s = Some (of_nat (4 * ?n + 4), ?s2)"
      using ramfs_resize_first [OF dir(1) z a(1,4)] True unfolding new by simp
    moreover have "mapped (fmem s) ?q 4096" using mem a(3) by blast
    then have "word_mapped (fmem s) ?q"
      using mapped_at [of "fmem s" ?q 4096 0] mapped_at [of "fmem s" ?q 4096 1]
        mapped_at [of "fmem s" ?q 4096 2] mapped_at [of "fmem s" ?q 4096 3] by (simp add: word_mapped_def)
    moreover have "fs_pages (B(a \<mapsto> 1)) (Suc k) ?s2"
      using dir(1) by (intro pages_ok_cong [OF a(7)]) auto
    moreover have "B \<subseteq>\<^sub>m B(a \<mapsto> 1)" using a(2) by (auto simp: map_le_def)
    ultimately show ?thesis using True a(4,5,6) by (intro that [of ?s2 ?v2 "B(a \<mapsto> 1)"]) simp_all
  next
    case False
    then have r: "?n mod 1024 \<noteq> 0" "word_mapped (fmem s) (f_private v + of_nat ?n * 4)"
      using room(1) by (simp_all add: entry_room_def)
    let ?v2 = "v\<lparr>f_size := of_nat (4 * ?n + 4)\<rparr>"
    let ?s2 = "s\<lparr>vfiles := (vfiles s)(d \<mapsto> ?v2)\<rparr>"
    have "ramfs_resize alloc free d (ucast (f_size v + 4)) s = Some (of_nat (4 * ?n + 4), ?s2)"
      unfolding new by (rule ramfs_resize_in_page [OF dir(1,2) r(1) room(2)])
    moreover have "unat (f_size ?v2) = 4 * ?n + 4"
      using unat_of_nat_lt [where 'a = 64, of "4 * ?n + 4"] room(2) by (simp del: of_nat_add of_nat_mult)
    moreover have "fs_pages B (Suc k) ?s2"
    proof -
      have "fs_pages B (Suc k) s" using fs by (auto simp: pages_ok_def)
      then show ?thesis using dir(1) by (rule_tac pages_ok_cong) auto
    qed
    ultimately show ?thesis using False dir(3,4) r(2) by (intro that [of ?s2 ?v2 B]) simp_all
  qed
qed

text \<open>
  Creation in a directory with room: a fresh page becomes the new file and is appended to the
  entries; every other file keeps its record.
\<close>

lemma ramfs_create_entry:
  assumes dir: "dir_entries s d cs" "vfiles s d = Some v" "f_flags v AND FS_FILE_IS_DIR \<noteq> 0"
    and room: "entry_room s v (length cs)" "4 * length cs + 8192 < 2 ^ 32"
    and name: "n \<noteq> [] \<longrightarrow> hd n \<noteq> slash" "length n < 76"
    and fs: "fs_pages B (Suc (Suc k)) s"
    and mem: "\<forall>a < pages (pages_st s). mapped (fmem s) (addr (pages_st s) a 0) 4096"
  shows "\<exists>p s' B'. ramfs_create alloc free d (Some n) fl s = Some (p, s') \<and> p \<noteq> 0 \<and> vfiles s p = None \<and>
    dir_entries s' d (cs @ [p]) \<and>
    vfiles s' p = Some ((new_vfile n fl (ramfs_ops s))\<lparr>block_size_bytes := 1\<rparr>) \<and>
    (\<exists>v'. vfiles s' d = Some v' \<and> f_name v' = f_name v \<and> f_flags v' = f_flags v \<and> f_ops v' = f_ops v \<and> refcount v' = refcount v) \<and>
    (\<forall>q. q \<noteq> d \<and> q \<noteq> p \<longrightarrow> vfiles s' q = vfiles s q) \<and>
    root_dir s' = root_dir s \<and> ramfs_ops s' = ramfs_ops s \<and> vfs_lock s' = vfs_lock s \<and>
    addr (pages_st s') = addr (pages_st s) \<and> pages (pages_st s') = pages (pages_st s) \<and>
    (\<exists>c < pages (pages_st s). p = addr (pages_st s) c 0 \<and> B c = None) \<and> B \<subseteq>\<^sub>m B' \<and> fs_pages B' k s'"
proof -
  let ?n = "length cs"
  obtain v0 where "vfiles s d = Some v0" "d \<noteq> 0" "unat (f_size v0) = 4 * ?n" "f_private v0 = 0 \<longleftrightarrow> cs = []"
      "\<forall>i < ?n. rd32 (fmem s) (f_private v0 + of_nat i * 4) = Some (cs ! i)" "\<forall>c \<in> set cs. c \<noteq> 0 \<and> vfiles s c \<noteq> None"
    using dir(1) unfolding dir_entries_def by blast
  then have v: "d \<noteq> 0" "unat (f_size v) = 4 * ?n" "f_private v = 0 \<longleftrightarrow> cs = []"
      "\<forall>i < ?n. rd32 (fmem s) (f_private v + of_nat i * 4) = Some (cs ! i)" "\<forall>c \<in> set cs. c \<noteq> 0 \<and> vfiles s c \<noteq> None"
    using dir(2) by auto
  have full: "find_empty (fmem s) (f_private v) [0..<unat (f_size v) div 4] = Some None"
    using v(2,4,5) by (intro find_empty_none [where f = "\<lambda>i. cs ! i"]) auto
  have nz: "(of_nat (4 * ?n + 4) :: u32) \<noteq> 0"
    using unat_of_nat_lt [where 'a = 32, of "4 * ?n + 4"] room(2) by (auto simp: unat_eq_0 simp del: of_nat_add of_nat_mult)
  \<comment> \<open>after the resize: the entries lie at \<open>f_private v2\<close>, followed by a free slot\<close>
  obtain s2 v2 B2 where resize: "ramfs_resize alloc free d (ucast (f_size v + 4)) s = Some (of_nat (4 * ?n + 4), s2)"
    and s2: "vfiles s2 = (vfiles s)(d \<mapsto> v2)" "fmem s2 = fmem s" "root_dir s2 = root_dir s" "ramfs_ops s2 = ramfs_ops s"
      "vfs_lock s2 = vfs_lock s" "addr (pages_st s2) = addr (pages_st s)" "pages (pages_st s2) = pages (pages_st s)"
    and v2: "unat (f_size v2) = 4 * ?n + 4" "f_private v2 \<noteq> 0" "f_name v2 = f_name v" "f_flags v2 = f_flags v"
      "f_ops v2 = f_ops v" "refcount v2 = refcount v"
      "\<forall>i < ?n. rd32 (fmem s) (f_private v2 + of_nat i * 4) = Some (cs ! i)"
      "word_mapped (fmem s) (f_private v2 + of_nat ?n * 4)"
    and fs2: "fs_pages B2 (Suc k) s2" "B \<subseteq>\<^sub>m B2"
    using ramfs_resize_entry [OF dir(2) v(2,3,4) room fs mem] by metis
  obtain a h3 where a: "kalloc alloc 1 s2 = Some (addr (pages_st s2) a 0, s2\<lparr>pages_st := h3\<rparr>)" "B2 a = None"
      "a < pages (pages_st s2)" "addr (pages_st s2) a 0 \<noteq> 0" "vfiles s2 (addr (pages_st s2) a 0) = None"
      "addr h3 = addr (pages_st s2)" "pages h3 = pages (pages_st s2)" "fs_pages (B2(a \<mapsto> 1)) k (s2\<lparr>pages_st := h3\<rparr>)"
    using kalloc_page [OF fs2(1)] by blast
  let ?p = "addr (pages_st s2) a 0"
  have pd: "?p \<noteq> d" "vfiles s ?p = None" using a(5) s2(1) by (auto split: if_splits)
  have "word_mapped (fmem s2) (f_private v2 + of_nat ?n * 4)" using v2(8) s2(2) by simp
  then obtain m where m: "wr32 (f_private v2 + of_nat ?n * 4) ?p (fmem s2) = Some m" using wr32_total by blast
  let ?nv = "(new_vfile n fl (ramfs_ops s))\<lparr>block_size_bytes := 1\<rparr>"
  let ?s' = "s2\<lparr>pages_st := h3, vfiles := (vfiles s2)(?p \<mapsto> ?nv), fmem := m\<rparr>"
  have run: "ramfs_create alloc free d (Some n) fl s = Some (?p, ?s')"
    using ramfs_create_append [OF v(1) dir(2,3) name full resize nz _ v2(1) _ a(1,4)] room(2) s2(1,4) m by simp
  have old: "rd32 m (f_private v2 + of_nat i * 4) = Some (cs ! i)" if "i < ?n" for i
    using rd32_wr32_other [OF m, of i] that room(2) v2(7) s2(2) by simp
  have "dir_entries ?s' d (cs @ [?p])"
    using v(1,5) pd(1) s2(1) v2(1,2) room(2) old rd32_wr32_same [OF m] a(4)
    by (auto simp: dir_entries_def nth_append less_Suc_eq)
  moreover have "fs_pages (B2(a \<mapsto> 1)) k ?s'"
    using a(8) by (auto simp: pages_ok_def a(6) split: if_splits)
  moreover have "B \<subseteq>\<^sub>m B2(a \<mapsto> 1)" using fs2(2) a(2) by (auto simp: map_le_def dom_def)
  moreover have "\<exists>c < pages (pages_st s). ?p = addr (pages_st s) c 0 \<and> B c = None"
    using fs2(2) a(2,3) s2(6,7) by (intro exI [of _ a]) (auto simp: map_le_def dom_def)
  ultimately show ?thesis
    using run a(4,6,7) pd s2 v2 by (intro exI [of _ ?p] exI [of _ ?s'] exI [of _ "B2(a \<mapsto> 1)"] conjI) auto
qed

end

subsection \<open>Properties of the file system in memory\<close>

lemma child_named_append:
  assumes "\<forall>c \<in> set cs. f_name (the (vfiles s' c)) = f_name (the (vfiles s c))" "\<forall>c \<in> set cs. c \<noteq> 0"
  shows "child_named s' (cs @ [p]) g =
    (if child_named s cs g \<noteq> 0 then child_named s cs g
     else if f_name (the (vfiles s' p)) = g then p else 0)"
  using assms by (induction cs) (auto simp: child_named_def)

lemma search_after_append:
  assumes "dir_entries s d cs" "vfiles s d = Some v" "vfiles s p = None" "dir_entries s' d (cs @ [p])"
    "vfiles s' p = Some w" "f_name w = n" "vfiles s' d = Some v'" "f_name v' = f_name v"
    "\<forall>q. q \<noteq> d \<and> q \<noteq> p \<longrightarrow> vfiles s' q = vfiles s q"
  shows "search_dir g d s' = (if g = n \<and> search_dir g d s = Some 0 then Some p else search_dir g d s)"
proof -
  have cs: "\<forall>c \<in> set cs. c \<noteq> 0 \<and> vfiles s c \<noteq> None" using assms(1) unfolding dir_entries_def by blast
  have "\<forall>c \<in> set cs. f_name (the (vfiles s' c)) = f_name (the (vfiles s c))"
  proof
    fix c
    assume "c \<in> set cs"
    then have "c \<noteq> p" using cs assms(3) by auto
    then show "f_name (the (vfiles s' c)) = f_name (the (vfiles s c))"
      using assms(2,7,8,9) by (cases "c = d") auto
  qed
  from child_named_append [OF this, of p g] show ?thesis
    using cs assms(5,6) by (auto simp: search_dir_entries [OF assms(1)] search_dir_entries [OF assms(4)])
qed

text \<open>A memory file system with an empty root, on a heap of eight free pages.\<close>

definition fs_example :: "mm_state fs_state" where
  "fs_example = \<lparr>pages_st = mm_example\<lparr>heap_base := 0xd0000000, heap_map_size := 4\<rparr>,
     vfiles = [0x100000 \<mapsto> zero_vfile\<lparr>f_name := [slash], f_flags := FS_FILE_IS_DIR OR FS_FILE_SYSTEM, f_ops := 0x200\<rparr>],
     fmem = (\<lambda>_. Some 0), root_dir = 0x100000, ramfs_ops = 0x200, vfs_lock = \<lparr>lock = False\<rparr>\<rparr>"

abbreviation (input) kernel_pages :: "blocks \<Rightarrow> nat \<Rightarrow> ('a mm_state_scheme, 'b) fs_state_scheme \<Rightarrow> bool" where
  "kernel_pages \<equiv> pages_ok heap_rep kheap_ready heap_pages heap_addr"

lemma fs_example_heap:
  "kheap_ready (pages_st fs_example)" "heap_rep Map.empty (pages_st fs_example)" "heap_pages (pages_st fs_example) = 8"
  by (simp_all add: kheap_ready_def heap_ready_def heap_rep_def heap_pages_def heap_max_index_def get_heap_index_def
      fs_example_def mm_example_def heap_example_def heap_state.defs pm_state.defs)

lemma fs_example_pages:
  assumes "k \<le> 8"
  shows "kernel_pages Map.empty k fs_example"
proof -
  have "free_pages Map.empty 8 = {..<8}" by (auto simp: free_pages_def covered_def)
  then have "k \<le> card (free_pages Map.empty 8)" using assms by simp
  moreover have "heap_addr (pages_st fs_example) a 0 \<noteq> 0x100000" if "a < 8" for a
  proof -
    have "unat (heap_addr (pages_st fs_example) a 0) = 0xd0000000 + a * 4096"
      using heap_addr_page [OF fs_example_heap(1), of a] that fs_example_heap(3) by (simp add: fs_example_def)
    then show ?thesis by auto
  qed
  ultimately show ?thesis
    using fs_example_heap by (auto simp: pages_ok_def) (auto simp: fs_example_def split: if_splits)
qed

lemma fs_example_root:
  "dir_entries fs_example 0x100000 []"
  "vfiles fs_example 0x100000 =
     Some (zero_vfile\<lparr>f_name := [slash], f_flags := FS_FILE_IS_DIR OR FS_FILE_SYSTEM, f_ops := 0x200\<rparr>)"
  by (simp_all add: dir_entries_def fs_example_def zero_vfile_def)

text \<open>
  \<^verbatim>\<open>ramfs_create\<close> in a directory whose entries still fit into its pages takes a fresh page for the
  new file and appends it: afterwards the directory finds the new file under its name, if the name
  was not taken, every other name is found as before, and no other file changes.
\<close>

theorem ramfs_create_then_search:
  fixes s :: "('a mm_state_scheme, 'b) fs_state_scheme"
  assumes dir: "dir_entries s d cs" "vfiles s d = Some v" "f_flags v AND FS_FILE_IS_DIR \<noteq> 0"
    and room: "entry_room s v (length cs)" "4 * length cs + 8192 < 2 ^ 32"
    and name: "n \<noteq> [] \<longrightarrow> hd n \<noteq> slash" "length n < 76"
    and fs: "kernel_pages B (Suc (Suc k)) s"
    and mem: "\<forall>a < heap_pages (pages_st s). mapped (fmem s) (heap_addr (pages_st s) a 0) 4096"
  shows "\<exists>p s'. ramfs_create kmalloc kfree d (Some n) fl s = Some (p, s') \<and> p \<noteq> 0 \<and> vfiles s p = None \<and>
    dir_entries s' d (cs @ [p]) \<and>
    (\<forall>g. search_dir g d s' =
       (if g = n \<and> search_dir g d s = Some 0 then Some p else search_dir g d s)) \<and>
    (\<forall>q. q \<noteq> d \<and> q \<noteq> p \<longrightarrow> vfiles s' q = vfiles s q)"
proof -
  obtain p s' v' where p: "ramfs_create kmalloc kfree d (Some n) fl s = Some (p, s')" "p \<noteq> 0" "vfiles s p = None"
      "dir_entries s' d (cs @ [p])" "vfiles s' p = Some ((new_vfile n fl (ramfs_ops s))\<lparr>block_size_bytes := 1\<rparr>)"
      "vfiles s' d = Some v'" "f_name v' = f_name v" "\<forall>q. q \<noteq> d \<and> q \<noteq> p \<longrightarrow> vfiles s' q = vfiles s q"
    using kpages.ramfs_create_entry [OF dir room name fs mem, of fl] by blast
  have "search_dir g d s' = (if g = n \<and> search_dir g d s = Some 0 then Some p else search_dir g d s)" for g
    using search_after_append [OF dir(1,2) p(3,4,5) _ p(6,7,8)] by (simp add: new_vfile_def)
  then show ?thesis using p by blast
qed

theorem ramfs_create_then_search_witness:
  "\<exists>p s'. ramfs_create kmalloc kfree 0x100000 (Some [116, 109, 112]) 0x10 fs_example = Some (p, s') \<and>
     search_dir [116, 109, 112] 0x100000 s' = Some p \<and> p \<noteq> 0"
proof -
  let ?n = "[116, 109, 112] :: u8 list"
  let ?v = "zero_vfile\<lparr>f_name := [slash], f_flags := FS_FILE_IS_DIR OR FS_FILE_SYSTEM, f_ops := 0x200\<rparr>"
  have pages: "kernel_pages Map.empty (Suc (Suc 2)) fs_example" by (rule fs_example_pages) simp
  have dir: "f_flags ?v AND FS_FILE_IS_DIR \<noteq> 0" "entry_room fs_example ?v (length ([] :: u32 list))"
    "4 * length ([] :: u32 list) + 8192 < 2 ^ 32"
    by (simp_all add: entry_room_def)
  have name: "?n \<noteq> [] \<longrightarrow> hd ?n \<noteq> slash" "length ?n < 76" by simp_all
  have mem: "\<forall>a < heap_pages (pages_st fs_example). mapped (fmem fs_example) (heap_addr (pages_st fs_example) a 0) 4096"
    by (simp add: mapped_def fs_example_def)
  note ramfs_create_then_search [OF fs_example_root dir name pages mem, of "0x10"]
  moreover have "search_dir [116, 109, 112] 0x100000 fs_example = Some 0"
    using search_dir_entries [OF fs_example_root(1)] by (simp add: child_named_def)
  ultimately show ?thesis by auto
qed

text \<open>The file \<open>v\<close> may be written, and \<open>e\<close> bytes fit into the pages it has.\<close>

definition file_room :: "vfile_t \<Rightarrow> nat \<Rightarrow> bool" where
  "file_room v e \<longleftrightarrow> f_flags v AND (FS_FILE_READ_ONLY OR FS_FILE_IS_DIR OR FS_FILE_MOUNT) = 0 \<and> f_private v \<noteq> 0 \<and>
     unat (f_size v) + 4096 < 2 ^ 32 \<and> e + 4096 < 2 ^ 32 \<and>
     (e \<le> unat (f_size v) \<or> (e + 4095) div 4096 = (unat (f_size v) + 4095) div 4096)"

lemma file_room_flags:
  assumes "file_room v e"
  shows "f_flags v AND FS_FILE_MOUNT = 0" "f_flags v AND FS_FILE_IS_DIR = 0"
proof -
  have all: "f_flags v AND (FS_FILE_READ_ONLY OR FS_FILE_IS_DIR OR FS_FILE_MOUNT) = 0"
    using assms by (simp add: file_room_def)
  have "f_flags v AND FS_FILE_MOUNT =
      (f_flags v AND (FS_FILE_READ_ONLY OR FS_FILE_IS_DIR OR FS_FILE_MOUNT)) AND FS_FILE_MOUNT"
    by (simp add: and.assoc)
  then show "f_flags v AND FS_FILE_MOUNT = 0" using all by simp
  have "f_flags v AND FS_FILE_IS_DIR =
      (f_flags v AND (FS_FILE_READ_ONLY OR FS_FILE_IS_DIR OR FS_FILE_MOUNT)) AND FS_FILE_IS_DIR"
    by (simp add: and.assoc)
  then show "f_flags v AND FS_FILE_IS_DIR = 0" using all by simp
qed

lemma narrow_of_nat:
  assumes "k < 2 ^ 32"
  shows "(ucast (of_nat k :: u64) :: u32) = of_nat k"
proof -
  have "unat (of_nat k :: u64) = k" "unat (of_nat k :: u32) = k" using assms by (simp_all add: unat_of_nat_lt)
  then show ?thesis using assms unat_ucast_fits [of "of_nat k :: u64", where 'b = 32] by (simp add: word_unat_eq_iff)
qed

lemma memcpy_overlay:
  assumes "mapped m dest n" "apart src n dest n" "\<And>i. i < n \<Longrightarrow> m (src + of_nat i) = Some (f i)" "n < 2 ^ 32"
  shows "memcpy_b src dest (of_nat n) m = Some (overlay dest n f m)"
  using copy_bytes_overlay [of m dest n src f] assms by (simp add: memcpy_b_def unat_of_nat_lt)

text \<open>What a successful write does: the bytes of the buffer replace those of the file.\<close>

lemma ramfs_write_fits:
  assumes v: "vfiles s file = Some v" "file \<noteq> 0" "file_room v (o1 + n)" and n: "n < 2 ^ 32" "o1 < 2 ^ 32"
    and buf: "buffer \<noteq> 0" "\<And>i. i < n \<Longrightarrow> fmem s (buffer + of_nat i) = Some (f i)"
    and area: "mapped (fmem s) (f_private v + of_nat o1) n" "apart buffer n (f_private v + of_nat o1) n"
  shows "ramfs_write alloc free file buffer (of_nat o1) (of_nat n) s =
    Some (of_nat n, s\<lparr>vfiles := (vfiles s)(file \<mapsto> v\<lparr>f_size := of_nat (max (o1 + n) (unat (f_size v)))\<rparr>),
      fmem := overlay (f_private v + of_nat o1) n f (fmem s)\<rparr>)"
proof -
  let ?sum = "of_nat n + of_nat o1 :: u64"
  have u: "unat ?sum = o1 + n"
    using n by (subst unat_add_lt) (simp_all add: unat_of_nat_lt)
  have narrow: "(ucast ?sum :: u32) = of_nat (o1 + n)"
    using u v(3) unat_ucast_fits [of ?sum, where 'b = 32] unat_of_nat_lt [where 'a = 32, of "o1 + n"]
    by (simp add: word_unat_eq_iff file_room_def del: of_nat_add)
  have cast: "(ucast (of_nat o1 :: u64) :: u32) = of_nat o1" "(ucast (of_nat n :: u64) :: u32) = of_nat n"
    using n by (simp_all add: narrow_of_nat)
  have copy: "memcpy_b buffer (f_private v + of_nat o1) (of_nat n) (fmem s) =
      Some (overlay (f_private v + of_nat o1) n f (fmem s))"
    using memcpy_overlay [OF area buf(2) n(1)] .
  have fl: "f_flags v AND (FS_FILE_READ_ONLY OR FS_FILE_IS_DIR OR FS_FILE_MOUNT) = 0" using v(3) by (simp add: file_room_def)
  show ?thesis
  proof (cases "o1 + n \<le> unat (f_size v)")
    case True
    then have "\<not> ?sum > f_size v" "max (o1 + n) (unat (f_size v)) = unat (f_size v)"
      using u by (simp_all add: word_less_nat_alt)
    then show ?thesis
      using v(1,2) buf(1) fl copy cast by (simp add: ramfs_write_def fun_upd_idem)
  next
    case False
    then have gt: "?sum > f_size v" using u by (simp add: word_less_nat_alt)
    have "ramfs_resize alloc free file (of_nat (o1 + n)) s =
        Some (of_nat (o1 + n), s\<lparr>vfiles := (vfiles s)(file \<mapsto> v\<lparr>f_size := of_nat (o1 + n)\<rparr>)\<rparr>)"
      using v(3) False by (intro ramfs_resize_same_pages [OF v(1) refl]) (auto simp: file_room_def)
    moreover have "(of_nat (o1 + n) :: u32) \<noteq> 0"
      using False v(3) unat_of_nat_lt [where 'a = 32, of "o1 + n"] by (auto simp: file_room_def unat_eq_0 simp del: of_nat_add)
    moreover have "max (o1 + n) (unat (f_size v)) = o1 + n" using False by simp
    ultimately show ?thesis
      using v(1,2) buf(1) fl copy cast gt narrow by (simp add: ramfs_write_def del: of_nat_add)
  qed
qed

lemma apart_far:
  assumes "k \<le> unat (p - q)" "unat (p - q) + n \<le> 2 ^ 32"
  shows "apart p n q k"
  unfolding apart_def span_def
proof (intro allI impI)
  fix i
  assume "i < n"
  have e: "p + of_nat i - q = (p - q) + of_nat i" by simp
  have "unat (of_nat i :: u32) = i" using \<open>i < n\<close> assms(2) by (intro unat_of_nat_lt) simp
  then have "unat (p + of_nat i - q) = unat (p - q) + i"
    using \<open>i < n\<close> assms(2) unfolding e by (subst unat_add_lt) simp_all
  then show "\<not> unat (p + of_nat i - q) < k" using assms(1) by simp
qed

text \<open>The number of pages that \<open>n\<close> bytes take.\<close>

definition page_count :: "nat \<Rightarrow> nat" where
  "page_count n = (n + 4095) div 4096"

text \<open>
  A file without bytes has no pages; any other one has the block of the heap that begins at page \<open>a\<close>, with just enough pages for
  its size.
\<close>

definition owns_pages :: "blocks \<Rightarrow> 'a heap_state_scheme \<Rightarrow> vfile_t \<Rightarrow> nat \<Rightarrow> bool" where
  "owns_pages B h v a \<longleftrightarrow>
     (if f_size v = 0 then f_private v = 0 else B a = Some (page_count (unat (f_size v))) \<and> f_private v = heap_addr h a 0)"

text \<open>The blocks other than that of the file.\<close>

definition other_blocks :: "blocks \<Rightarrow> vfile_t \<Rightarrow> nat \<Rightarrow> blocks" where
  "other_blocks B v a = (if f_size v = 0 then B else B(a := None))"

text \<open>The page of the heap in which an address lies, and a range of addresses that lies in no page the file has or may get.\<close>

definition page_of :: "'a heap_state_scheme \<Rightarrow> u32 \<Rightarrow> nat" where
  "page_of h x = unat (x - heap_base h) div 4096"

definition clear_of_file :: "blocks \<Rightarrow> 'a heap_state_scheme \<Rightarrow> vfile_t \<Rightarrow> nat \<Rightarrow> u32 \<Rightarrow> nat \<Rightarrow> bool" where
  "clear_of_file B h v a q n \<longleftrightarrow> (\<forall>i < n. page_of h (q + of_nat i) < heap_pages h \<longrightarrow> covered (other_blocks B v a) (page_of h (q + of_nat i)))"

lemma page_count_mono: "m \<le> n \<Longrightarrow> page_count m \<le> page_count n"
  by (simp add: page_count_def div_le_mono)

lemma page_count_covers: "n \<le> 4096 * page_count n" "page_count n \<le> n" "0 < n \<Longrightarrow> 0 < page_count n"
proof -
  have e: "4096 * page_count n + (n + 4095) mod 4096 = n + 4095" by (simp add: page_count_def)
  moreover have m: "(n + 4095) mod 4096 < 4096" by simp
  ultimately show "n \<le> 4096 * page_count n" by linarith
  show "0 < n \<Longrightarrow> 0 < page_count n" using e m by linarith
  show "page_count n \<le> n" using e by (cases "n = 0") (simp_all add: page_count_def)
qed

lemma heap_below: "kheap_ready h \<Longrightarrow> heap_pages h * 4096 \<le> 2 ^ 31"
  by (simp add: kheap_ready_def heap_ready_def)

lemma block_span:
  assumes "kheap_ready h" "a + k \<le> heap_pages h"
  shows "span (heap_addr h a 0) (4096 * k) x \<longleftrightarrow> a \<le> page_of h x \<and> page_of h x < a + k"
proof -
  have le: "a * 4096 + 4096 * k \<le> 2 ^ 32" using heap_below [OF assms(1)] assms(2) by simp
  have "span (heap_addr h a 0) (4096 * k) x \<longleftrightarrow>
      a * 4096 \<le> unat (x - heap_base h) \<and> unat (x - heap_base h) < a * 4096 + 4096 * k"
    using span_next [OF le, of "heap_base h" x] by (simp add: heap_addr_def)
  also have "\<dots> \<longleftrightarrow> a \<le> page_of h x \<and> page_of h x < a + k"
    using less_eq_div_iff_mult_less_eq [of 4096 a "unat (x - heap_base h)"] div_less_iff_less_mult [of 4096 "unat (x - heap_base h)" "a + k"]
    by (simp add: page_of_def add_mult_distrib mult.commute)
  finally show ?thesis .
qed

lemma block_mapped:
  assumes "\<forall>p < heap_pages h. mapped m (heap_addr h p 0) 4096" "a + k \<le> heap_pages h"
  shows "mapped m (heap_addr h a 0) (4096 * k)"
  unfolding mapped_def
proof (intro allI impI)
  fix i
  assume i: "i < 4096 * k"
  then have "i div 4096 < k" by (simp add: less_mult_imp_div_less mult.commute)
  then have p: "mapped m (heap_addr h (a + i div 4096) 0) 4096" using assms by simp
  have "a * 4096 + i = (a + i div 4096) * 4096 + i mod 4096" by simp
  then have "heap_base h + of_nat (a * 4096 + i) = heap_base h + of_nat ((a + i div 4096) * 4096 + i mod 4096)" by (simp only:)
  then have "heap_addr h a 0 + of_nat i = heap_addr h (a + i div 4096) 0 + of_nat (i mod 4096)"
    unfolding heap_addr_def by (simp only: of_nat_add add_0_right add.assoc)
  then show "m (heap_addr h a 0 + of_nat i) \<noteq> None" using mapped_at [OF p, of "i mod 4096"] by simp
qed

text \<open>A range that is clear of the file does not meet a block whose pages are the file's or free.\<close>

lemma clear_block:
  assumes "kheap_ready h" "a' + k \<le> heap_pages h" "\<forall>p. a' \<le> p \<and> p < a' + k \<longrightarrow> \<not> covered (other_blocks B v a) p"
    and "clear_of_file B h v a q n" "i < n"
  shows "\<not> span (heap_addr h a' 0) (4096 * k) (q + of_nat i)"
  unfolding block_span [OF assms(1,2)] using assms(2-5) by (fastforce simp: clear_of_file_def)

lemma clear_apart:
  assumes "kheap_ready h" "a' + k \<le> heap_pages h" "\<forall>p. a' \<le> p \<and> p < a' + k \<longrightarrow> \<not> covered (other_blocks B v a) p"
    and "clear_of_file B h v a q n" "o1 + l \<le> 4096 * k"
  shows "apart q n (heap_addr h a' 0 + of_nat o1) l" "apart (heap_addr h a' 0 + of_nat o1) l q n"
proof -
  have le: "4096 * k \<le> 2 ^ 32" using heap_below [OF assms(1)] assms(2) by simp
  show "apart q n (heap_addr h a' 0 + of_nat o1) l"
    using clear_block [OF assms(1-4)] span_shift [OF _ assms(5) le] unfolding apart_def by blast
  show "apart (heap_addr h a' 0 + of_nat o1) l q n"
    unfolding apart_def
  proof (intro allI impI notI)
    fix i
    assume i: "i < l" "span q n (heap_addr h a' 0 + of_nat o1 + of_nat i)"
    from i(2) obtain j where j: "j < n" "heap_addr h a' 0 + of_nat o1 + of_nat i = q + of_nat j" by (rule span_offset)
    have "span (heap_addr h a' 0) (4096 * k) (heap_addr h a' 0 + of_nat (o1 + i))"
      using i(1) assms(5) le by (intro span_at) simp_all
    then show False using clear_block [OF assms(1-4) j(1)] j(2) by (simp add: add.assoc)
  qed
qed

lemma ramfs_resize_moves:
  assumes v: "vfiles s d = Some v" "unat (f_size v) < new" "new + 4096 < 2 ^ 32" "page_count new \<noteq> page_count (unat (f_size v))"
    and new: "kalloc alloc (of_nat (page_count new)) s = Some (q, s1)" "q \<noteq> 0"
    and move: "if f_private v = 0 then s2 = s1 else
      \<exists>m. memcpy_b (f_private v) q (of_nat (unat (f_size v))) (fmem s1) = Some m \<and> krelease free (f_private v) (s1\<lparr>fmem := m\<rparr>) = Some s2"
    and files: "vfiles s2 = vfiles s"
  shows "ramfs_resize alloc free d (of_nat new) s =
    Some (of_nat new, s2\<lparr>vfiles := (vfiles s)(d \<mapsto> v\<lparr>f_private := q, f_size := of_nat new\<rparr>)\<rparr>)"
proof -
  let ?new = "of_nat new :: u32" and ?old = "unat (f_size v)"
  have u: "unat ?new = new" by (rule unat_of_nat_lt) (use v in simp)
  have u64: "unat (ucast ?new :: u64) = new" using u unat_ucast_up [of ?new, where 'b = 64] by simp
  then have wide: "(ucast ?new :: u64) = of_nat new" by (rule u64_of_nat)
  have ne: "(ucast ?new :: u64) \<noteq> f_size v" using u64 v(2) by auto
  have np: "unat ((?new + 4096 - 1) div 4096) = page_count new"
    using unat_div_page [of ?new] u v(3) by (simp add: page_count_def)
  have "unat (of_nat (page_count new) :: u32) = page_count new"
    using page_count_covers(2) [of new] v(3) by (intro unat_of_nat_lt) simp
  then have np': "(?new + 4096 - 1) div 4096 = of_nat (page_count new)" using np by (simp only: word_unat_eq_iff)
  have lt: "page_count ?old < 2 ^ LENGTH(32)" using page_count_covers(2) [of ?old] v(2,3) by simp
  have "unat ((f_size v + 4096 - 1) div 4096) = page_count ?old"
    using unat_div_page [of "f_size v"] v(2,3) by (simp add: page_count_def)
  then have op: "unat (ucast ((f_size v + 4096 - 1) div 4096) :: u32) = page_count ?old"
    using unat_ucast_fits [of "(f_size v + 4096 - 1) div 4096", where 'b = 32] lt by simp
  have diff: "(ucast ((f_size v + 4096 - 1) div 4096) :: u32) \<noteq> (?new + 4096 - 1) div 4096"
    using op np v(4) by auto
  have small: "\<not> ?new < ucast ((f_size v + 4096 - 1) div 4096)"
    using op u v(2) page_count_covers(2) [of ?old] by (simp add: word_less_nat_alt)
  have sz: "(ucast (f_size v) :: u32) = of_nat ?old"
    using v(2,3) unat_ucast_fits [of "f_size v", where 'b = 32] unat_of_nat_lt [where 'a = 32, of ?old] by (simp add: word_unat_eq_iff)
  show ?thesis
    unfolding ramfs_resize_def v(1) using ne diff small wide new move files v(1) unfolding np' sz
    by (auto simp: Let_def upd_vfile_def split: if_splits)
qed

lemma ramfs_resize_block:
  fixes s :: "('x mm_state_scheme, 'b) fs_state_scheme"
  defines "h \<equiv> pages_st s"
  assumes heap: "kheap_ready h" "heap_rep B h" "owns_pages B h v a"
    and v: "vfiles s d = Some v" "unat (f_size v) < new" "new + 4096 < 2 ^ 32" "page_count new \<noteq> page_count (unat (f_size v))"
    and room: "gap B (heap_pages h) b (page_count new)"
    and mem: "\<forall>p < heap_pages h. mapped (fmem s) (heap_addr h p 0) 4096"
  obtains a' h' where "ramfs_resize kmalloc kfree d (of_nat new) s = Some (of_nat new,
      s\<lparr>pages_st := h', vfiles := (vfiles s)(d \<mapsto> v\<lparr>f_private := heap_addr h a' 0, f_size := of_nat new\<rparr>),
        fmem := overlay (heap_addr h a' 0) (unat (f_size v)) (\<lambda>i. the (fmem s (f_private v + of_nat i))) (fmem s)\<rparr>)"
    "gap B (heap_pages h) a' (page_count new)" "heap_rep ((other_blocks B v a)(a' \<mapsto> page_count new)) h'" "kheap_ready h'"
    "heap_addr h' = heap_addr h" "heap_pages h' = heap_pages h"
proof -
  let ?N = "page_count new" and ?old = "unat (f_size v)"
  have "?N \<le> heap_pages h" using room by (simp add: gap_def)
  then have N: "unat (of_nat ?N :: u32) = ?N" "0 < ?N"
    using heap_below [OF heap(1)] page_count_covers(3) [of new] v(2) by (simp_all add: unat_of_nat_lt)
  obtain a' h1 where a': "kmalloc (of_nat ?N) h = Some (heap_addr h a' 0, h1)" "gap B (heap_pages h) a' ?N"
      "heap_rep (B(a' \<mapsto> ?N)) h1" "kheap_ready h1" "heap_pages h1 = heap_pages h" "heap_addr h1 = heap_addr h"
    using kmem.alloc_law [OF heap(1,2), of "of_nat ?N" b] room N by (auto simp: word_less_nat_alt)
  have fit: "a' + ?N \<le> heap_pages h" using a'(2) by (simp add: gap_def)
  then have q0: "heap_addr h a' 0 \<noteq> 0" using kpages.addr_nonzero [OF heap(1), of a'] N(2) by simp
  let ?s1 = "s\<lparr>pages_st := h1\<rparr>"
  have al: "kalloc kmalloc (of_nat ?N) s = Some (heap_addr h a' 0, ?s1)" using a'(1) by (simp add: kalloc_def h_def)
  show ?thesis
  proof (cases "f_size v = 0")
    case True
    then have "f_private v = 0" using heap(3) by (simp add: owns_pages_def)
    then show ?thesis
      using ramfs_resize_moves [OF v al q0, of ?s1 kfree] that [OF _ a'(2), of h1] a'(3-6) True by (simp add: other_blocks_def)
  next
    case False
    then have blk: "B a = Some (page_count ?old)" "f_private v = heap_addr h a 0" using heap(3) by (simp_all add: owns_pages_def)
    have afit: "a + page_count ?old \<le> heap_pages h" using heap_repD(2) [OF heap(2) blk(1)] .
    have old: "0 < page_count ?old" using False page_count_covers(3) [of ?old] by (simp add: unat_gt_0)
    have p0: "f_private v \<noteq> 0" unfolding blk(2) using kpages.addr_nonzero [OF heap(1), of a] afit old by simp
    have cov: "covered B p" if "a \<le> p" "p < a + page_count ?old" for p using blk(1) that by (auto simp: covered_def)
    have le: "4096 * page_count ?old \<le> 2 ^ 32" "4096 * ?N \<le> 2 ^ 32" using heap_below [OF heap(1)] afit fit by simp_all
    have bytes: "?old \<le> 4096 * page_count ?old" "?old \<le> 4096 * ?N" using page_count_covers(1) [of ?old] page_count_covers(1) [of new] v(2) by simp_all
    have src: "span (f_private v) (4096 * page_count ?old) (f_private v + of_nat i)" if "i < ?old" for i
      using that bytes(1) le(1) by (intro span_at) simp_all
    have ap: "apart (f_private v) ?old (heap_addr h a' 0) ?old"
      unfolding apart_def
    proof (intro allI impI notI)
      fix i
      assume i: "i < ?old" "span (heap_addr h a' 0) ?old (f_private v + of_nat i)"
      then have "span (heap_addr h a' 0) (4096 * ?N) (f_private v + of_nat i)" using bytes(2) by (simp add: span_def)
      then have "\<not> covered B (page_of h (f_private v + of_nat i))"
        using a'(2) unfolding block_span [OF heap(1) fit] by (simp add: gap_def)
      moreover have "covered B (page_of h (f_private v + of_nat i))"
        using src [OF i(1)] unfolding blk(2) block_span [OF heap(1) afit] by (intro cov) simp_all
      ultimately show False by blast
    qed
    let ?g = "\<lambda>i. the (fmem s (f_private v + of_nat i))"
    have "mapped (fmem s) (heap_addr h a' 0) ?old" using block_mapped [OF mem fit] bytes(2) by (simp add: mapped_def)
    moreover have "fmem s (f_private v + of_nat i) = Some (?g i)" if "i < ?old" for i
      using block_mapped [OF mem afit] bytes(1) that unfolding blk(2) mapped_def by auto
    ultimately have cp: "memcpy_b (f_private v) (heap_addr h a' 0) (of_nat ?old) (fmem s) = Some (overlay (heap_addr h a' 0) ?old ?g (fmem s))"
      using ap v(2,3) by (intro memcpy_overlay) simp_all
    have "B a' = None" using kmem.rep_fresh [OF heap(2) a'(2)] N(2) by simp
    then have ne: "a \<noteq> a'" using blk(1) by auto
    then obtain h2 where h2: "kfree (heap_addr h a 0) h1 = Some h2" "heap_rep ((B(a' \<mapsto> ?N))(a := None)) h2" "kheap_ready h2"
        "heap_pages h2 = heap_pages h" "heap_addr h2 = heap_addr h"
      using kmem.free_law [OF a'(4,3), of a "page_count ?old" a 0] blk(1) old a'(5,6) by auto
    have "(B(a' \<mapsto> ?N))(a := None) = (other_blocks B v a)(a' \<mapsto> ?N)" using ne False by (auto simp: other_blocks_def)
    then have rep: "heap_rep ((other_blocks B v a)(a' \<mapsto> ?N)) h2" using h2(2) by simp
    let ?s2 = "s\<lparr>pages_st := h2, fmem := overlay (heap_addr h a' 0) ?old ?g (fmem s)\<rparr>"
    have "krelease kfree (f_private v) (?s1\<lparr>fmem := overlay (heap_addr h a' 0) ?old ?g (fmem s)\<rparr>) = Some ?s2"
      using h2(1) by (simp add: krelease_def blk(2))
    then have "if f_private v = 0 then ?s2 = ?s1 else \<exists>m. memcpy_b (f_private v) (heap_addr h a' 0) (of_nat ?old) (fmem ?s1) = Some m \<and>
        krelease kfree (f_private v) (?s1\<lparr>fmem := m\<rparr>) = Some ?s2" using p0 cp by simp
    from ramfs_resize_moves [OF v al q0 this] show ?thesis
      by (intro that [OF _ a'(2) rep h2(3,5,4)]) simp
  qed
qed

text \<open>The pages of the file are covered by no other block.\<close>

lemma own_pages_apart:
  fixes h :: "'x mm_state_scheme"
  assumes "heap_rep B h" "B a = Some k" "f_size v \<noteq> 0" "a \<le> p" "p < a + k"
  shows "\<not> covered (other_blocks B v a) p"
proof
  assume "covered (other_blocks B v a) p"
  then obtain c m where c: "B c = Some m" "c \<noteq> a" "c \<le> p" "p < c + m" using assms(3) by (auto simp: covered_def other_blocks_def split: if_splits)
  then show False using kmem.rep_separate [OF assms(1,2) c(1)] assms(4,5) by auto
qed

lemma covered_other: "covered (other_blocks B v a) p \<Longrightarrow> covered B p"
  by (auto simp: covered_def other_blocks_def split: if_splits)

text \<open>
  The memory after a write of \<open>n\<close> bytes \<open>f\<close> at offset \<open>o1\<close> of a file of \<open>k\<close> bytes at \<open>p\<close>, which then has \<open>e\<close> bytes at \<open>q\<close>: the new bytes, the
  old bytes of the file around them, and everything outside the file as it was.
\<close>

definition file_written :: "u32 \<Rightarrow> nat \<Rightarrow> u32 \<Rightarrow> nat \<Rightarrow> nat \<Rightarrow> nat \<Rightarrow> (nat \<Rightarrow> u8) \<Rightarrow> bmem \<Rightarrow> bmem \<Rightarrow> bool" where
  "file_written p k q e o1 n f m m' \<longleftrightarrow>
     (\<forall>i < n. m' (q + of_nat (o1 + i)) = Some (f i)) \<and>
     (\<forall>i < k. \<not> (o1 \<le> i \<and> i < o1 + n) \<longrightarrow> m' (q + of_nat i) = m (p + of_nat i)) \<and>
     (\<forall>x. \<not> span q e x \<longrightarrow> m' x = m x) \<and> (\<forall>x. m x \<noteq> None \<longrightarrow> m' x \<noteq> None)"

lemma file_written_overlay:
  assumes m0: "\<forall>i < k. m0 (q + of_nat i) = m (p + of_nat i)" "\<forall>x. \<not> span q k x \<longrightarrow> m0 x = m x" "\<forall>x. m x \<noteq> None \<longrightarrow> m0 x \<noteq> None"
    and e: "e = max (o1 + n) k" "e < 2 ^ 32"
  shows "file_written p k q e o1 n f m (overlay (q + of_nat o1) n f m0)"
proof -
  have 1: "overlay (q + of_nat o1) n f m0 (q + of_nat (o1 + i)) = Some (f i)" if "i < n" for i
    using overlay_at [of i n "q + of_nat o1" f m0] that e by (simp add: add.assoc)
  have off: "span (q + of_nat o1) n x \<longleftrightarrow> o1 \<le> unat (x - q) \<and> unat (x - q) < o1 + n" for x
    using span_next [of o1 n q x] e by simp
  have "overlay (q + of_nat o1) n f m0 (q + of_nat i) = m (p + of_nat i)" if "i < k" "\<not> (o1 \<le> i \<and> i < o1 + n)" for i
  proof -
    have "unat (of_nat i :: u32) = i" using that e by (intro unat_of_nat_lt) simp
    then have "\<not> span (q + of_nat o1) n (q + of_nat i)" using off that(2) by simp
    then show ?thesis using m0(1) that(1) by (simp add: overlay_off)
  qed
  moreover have "overlay (q + of_nat o1) n f m0 x = m x" if "\<not> span q e x" for x
  proof -
    have "\<not> span (q + of_nat o1) n x" "\<not> span q k x" using that off e(1) by (auto simp: span_def)
    then show ?thesis using m0(2) by (simp add: overlay_off)
  qed
  ultimately show ?thesis using 1 m0(3) unfolding file_written_def by (auto simp: overlay_def)
qed

lemma ramfs_write_block:
  fixes s :: "('x mm_state_scheme, 'b) fs_state_scheme"
  defines "h \<equiv> pages_st s"
  assumes v: "vfiles s file = Some v" "file \<noteq> 0" "f_flags v AND (FS_FILE_READ_ONLY OR FS_FILE_IS_DIR OR FS_FILE_MOUNT) = 0"
    and heap: "kheap_ready h" "heap_rep B h" "owns_pages B h v a"
    and n: "0 < n" "o1 + n + 4096 < 2 ^ 32" "unat (f_size v) + 4096 < 2 ^ 32"
    and room: "page_count (unat (f_size v)) < page_count (o1 + n) \<longrightarrow> (\<exists>b. gap B (heap_pages h) b (page_count (o1 + n)))"
    and mem: "\<forall>p < heap_pages h. mapped (fmem s) (heap_addr h p 0) 4096"
    and buf: "buffer \<noteq> 0" "\<forall>i < n. fmem s (buffer + of_nat i) = Some (f i)" "clear_of_file B h v a buffer n"
  defines "e \<equiv> max (o1 + n) (unat (f_size v))"
  obtains a' h' m' where "ramfs_write kmalloc kfree file buffer (of_nat o1) (of_nat n) s = Some (of_nat n,
      s\<lparr>pages_st := h', vfiles := (vfiles s)(file \<mapsto> v\<lparr>f_private := heap_addr h a' 0, f_size := of_nat e\<rparr>), fmem := m'\<rparr>)"
    "heap_rep ((other_blocks B v a)(a' \<mapsto> page_count e)) h'" "kheap_ready h'" "heap_addr h' = heap_addr h" "heap_pages h' = heap_pages h"
    "a' + page_count e \<le> heap_pages h" "\<forall>p. a' \<le> p \<and> p < a' + page_count e \<longrightarrow> \<not> covered (other_blocks B v a) p"
    "file_written (f_private v) (unat (f_size v)) (heap_addr h a' 0) e o1 n f (fmem s) m'"
proof (cases "page_count (unat (f_size v)) < page_count (o1 + n)")
  case False
  let ?k = "unat (f_size v)"
  have pos: "0 < page_count (o1 + n)" using n(1) by (intro page_count_covers(3)) simp
  have nz: "f_size v \<noteq> 0" using False pos by (auto simp: page_count_def)
  then have blk: "B a = Some (page_count ?k)" "f_private v = heap_addr h a 0" using heap(3) by (simp_all add: owns_pages_def)
  have fit: "a + page_count ?k \<le> heap_pages h" using heap_repD(2) [OF heap(2) blk(1)] .
  have ek: "page_count e = page_count ?k" using False page_count_mono [of ?k "o1 + n"] unfolding e_def by (simp add: max_def)
  have p0: "f_private v \<noteq> 0" unfolding blk(2) using kpages.addr_nonzero [OF heap(1), of a] fit False pos by simp
  have roomy: "file_room v (o1 + n)"
    using v(3) p0 n(2,3) False page_count_mono [of ?k "o1 + n"] unfolding file_room_def page_count_def by auto
  have own: "\<forall>p. a \<le> p \<and> p < a + page_count ?k \<longrightarrow> \<not> covered (other_blocks B v a) p" using own_pages_apart [OF heap(2) blk(1) nz] by blast
  have in_block: "o1 + n \<le> 4096 * page_count ?k" using page_count_covers(1) [of e] ek unfolding e_def by simp
  have area: "mapped (fmem s) (f_private v + of_nat o1) n" "apart buffer n (f_private v + of_nat o1) n"
    unfolding blk(2) using mapped_part [OF block_mapped [OF mem fit] in_block] clear_apart(1) [OF heap(1) fit own buf(3) in_block] by simp_all
  have "ramfs_write kmalloc kfree file buffer (of_nat o1) (of_nat n) s =
      Some (of_nat n, s\<lparr>vfiles := (vfiles s)(file \<mapsto> v\<lparr>f_size := of_nat e\<rparr>), fmem := overlay (f_private v + of_nat o1) n f (fmem s)\<rparr>)"
    using n(2) buf(2) unfolding e_def by (intro ramfs_write_fits [OF v(1,2) roomy _ _ buf(1) _ area]) simp_all
  moreover have "v\<lparr>f_size := of_nat e\<rparr> = v\<lparr>f_private := heap_addr h a 0, f_size := of_nat e\<rparr>" using blk(2) by (cases v) simp
  moreover have "(other_blocks B v a)(a \<mapsto> page_count e) = B" using blk(1) nz ek by (auto simp: other_blocks_def)
  moreover have "file_written (f_private v) ?k (heap_addr h a 0) e o1 n f (fmem s) (overlay (f_private v + of_nat o1) n f (fmem s))"
    unfolding blk(2) using n(2,3) by (intro file_written_overlay) (simp_all add: e_def)
  ultimately show ?thesis using that [where h' = h and a' = a and m' = "overlay (f_private v + of_nat o1) n f (fmem s)"] heap fit own ek by (simp add: h_def)
next
  case True
  let ?k = "unat (f_size v)"
  have gt: "?k < o1 + n" using True page_count_mono [of "o1 + n" ?k] by (cases "?k < o1 + n") simp_all
  have e: "e = o1 + n" using gt by (simp add: e_def)
  obtain b where b: "gap B (heap_pages h) b (page_count (o1 + n))" using room True by blast
  obtain a' h' where r: "ramfs_resize kmalloc kfree file (of_nat (o1 + n)) s = Some (of_nat (o1 + n),
      s\<lparr>pages_st := h', vfiles := (vfiles s)(file \<mapsto> v\<lparr>f_private := heap_addr h a' 0, f_size := of_nat (o1 + n)\<rparr>),
        fmem := overlay (heap_addr h a' 0) ?k (\<lambda>i. the (fmem s (f_private v + of_nat i))) (fmem s)\<rparr>)"
    and h': "gap B (heap_pages h) a' (page_count (o1 + n))" "heap_rep ((other_blocks B v a)(a' \<mapsto> page_count (o1 + n))) h'" "kheap_ready h'"
      "heap_addr h' = heap_addr h" "heap_pages h' = heap_pages h"
    by (rule ramfs_resize_block [OF heap [unfolded h_def] v(1) gt n(2) less_imp_neq [OF True, THEN not_sym] b [unfolded h_def] mem [unfolded h_def],
          folded h_def], rule that; assumption)
  define N where "N = page_count (o1 + n)"
  define q where "q = heap_addr h a' 0"
  define m0 where "m0 = overlay q ?k (\<lambda>i. the (fmem s (f_private v + of_nat i))) (fmem s)"
  have fit: "a' + N \<le> heap_pages h" using h'(1) by (simp add: gap_def N_def)
  have own: "\<forall>p. a' \<le> p \<and> p < a' + N \<longrightarrow> \<not> covered (other_blocks B v a) p"
    using h'(1) covered_other unfolding gap_def N_def by blast
  have in_block: "o1 + n \<le> 4096 * N" using page_count_covers(1) [of "o1 + n"] by (simp add: N_def)
  have clear: "\<not> span q ?k (buffer + of_nat i)" if "i < n" for i
    using clear_block [OF heap(1) fit own buf(3) that] in_block gt by (simp add: q_def span_def)
  have "mapped m0 (q + of_nat o1) n"
    unfolding m0_def q_def by (rule mapped_overlay) (rule mapped_part [OF block_mapped [OF mem fit] in_block])
  moreover have "apart buffer n (q + of_nat o1) n" using clear_apart(1) [OF heap(1) fit own buf(3) in_block] by (simp add: q_def)
  moreover have "m0 (buffer + of_nat i) = Some (f i)" if "i < n" for i
    using clear [OF that] buf(2) that by (simp add: m0_def overlay_off)
  ultimately have copy: "memcpy_b buffer (q + of_nat o1) (of_nat n) m0 = Some (overlay (q + of_nat o1) n f m0)"
    using n(2) by (intro memcpy_overlay) simp_all
  have old: "fmem s (f_private v + of_nat i) \<noteq> None" if "i < ?k" for i
  proof -
    have nz: "f_size v \<noteq> 0" using that by auto
    then have blk: "B a = Some (page_count ?k)" "f_private v = heap_addr h a 0" using heap(3) by (simp_all add: owns_pages_def)
    have "mapped (fmem s) (f_private v) (4096 * page_count ?k)"
      unfolding blk(2) by (rule block_mapped [OF mem heap_repD(2) [OF heap(2) blk(1)]])
    then show ?thesis using that page_count_covers(1) [of ?k] by (simp add: mapped_def)
  qed
  have "file_written (f_private v) ?k q e o1 n f (fmem s) (overlay (q + of_nat o1) n f m0)"
  proof (rule file_written_overlay)
    show "\<forall>i < ?k. m0 (q + of_nat i) = fmem s (f_private v + of_nat i)"
      using old n(3) by (auto simp: m0_def)
  qed (use n(2,3) in \<open>auto simp: m0_def e_def overlay_def\<close>)
  moreover have "ramfs_write kmalloc kfree file buffer (of_nat o1) (of_nat n) s = Some (of_nat n,
      s\<lparr>pages_st := h', vfiles := (vfiles s)(file \<mapsto> v\<lparr>f_private := q, f_size := of_nat e\<rparr>), fmem := overlay (q + of_nat o1) n f m0\<rparr>)"
  proof -
    have u: "unat (of_nat n + of_nat o1 :: u64) = o1 + n" using n(2) by (subst unat_add_lt) (simp_all add: unat_of_nat_lt)
    then have more: "of_nat n + of_nat o1 > f_size v" using gt by (simp add: word_less_nat_alt)
    have "(of_nat n + of_nat o1 :: u64) = of_nat (o1 + n)" by simp
    then have narrow: "(ucast (of_nat n + of_nat o1 :: u64) :: u32) = of_nat (o1 + n)" using narrow_of_nat [of "o1 + n"] n(2) by (simp only:)
    have cast: "(ucast (of_nat o1 :: u64) :: u32) = of_nat o1" "(ucast (of_nat n :: u64) :: u32) = of_nat n"
      using n(2) by (simp_all add: narrow_of_nat)
    have nz: "(of_nat (o1 + n) :: u32) \<noteq> 0"
      using n(1,2) unat_of_nat_lt [where 'a = 32, of "o1 + n"] by (auto simp del: of_nat_add)
    show ?thesis using v buf(1) more narrow nz r copy cast unfolding e q_def [symmetric] m0_def [symmetric]
      by (simp add: ramfs_write_def del: of_nat_add)
  qed
  ultimately show ?thesis using that h'(2-5) fit own unfolding e q_def N_def by blast
qed

text \<open>
  C9. What \<^verbatim>\<open>ramfs_write\<close> puts into a file at an offset, \<^verbatim>\<open>ramfs_read\<close> returns from there, and the rest of the file keeps its bytes.  That holds
  for a write inside the pages of the file, for the first write to an empty file and for a write that makes the file larger than its
  pages, which copies it to a new block and frees the old one; when more pages are needed, the heap has a free run of that length.
  Both calls report the full count.  The file grows to the end of the data if it was shorter and owns just the pages it needs.  No
  other file changes, the allocator keeps all other blocks, and no byte outside the file and the read buffer changes.  The two buffers lie
  in none of the free pages of the heap and in none of the pages of the file.
\<close>

theorem ramfs_write_read_roundtrip:
  fixes s :: "('x mm_state_scheme, 'b) fs_state_scheme"
  assumes v: "vfiles s file = Some v" "file \<noteq> 0" "f_flags v AND (FS_FILE_READ_ONLY OR FS_FILE_IS_DIR OR FS_FILE_MOUNT) = 0"
    and heap: "kheap_ready (pages_st s)" "heap_rep B (pages_st s)" "owns_pages B (pages_st s) v a"
    and n: "0 < n" "o1 + n + 4096 < 2 ^ 32" "unat (f_size v) + 4096 < 2 ^ 32"
    and room: "page_count (unat (f_size v)) < page_count (o1 + n) \<longrightarrow> (\<exists>b. gap B (heap_pages (pages_st s)) b (page_count (o1 + n)))"
    and mem: "\<forall>p < heap_pages (pages_st s). mapped (fmem s) (heap_addr (pages_st s) p 0) 4096"
    and buf: "buffer \<noteq> 0" "\<forall>i < n. fmem s (buffer + of_nat i) = Some (f i)" "clear_of_file B (pages_st s) v a buffer n"
    and dst: "target \<noteq> 0" "mapped (fmem s) target n" "clear_of_file B (pages_st s) v a target n"
  shows "\<exists>s1 s2 a' v'. ramfs_write kmalloc kfree file buffer (of_nat o1) (of_nat n) s = Some (of_nat n, s1) \<and>
    ramfs_read file target (of_nat o1) (of_nat n) s1 = Some (of_nat n, s2) \<and>
    (\<forall>i < n. fmem s2 (target + of_nat i) = Some (f i)) \<and>
    vfiles s2 = (vfiles s)(file \<mapsto> v') \<and> unat (f_size v') = max (o1 + n) (unat (f_size v)) \<and>
    v' = v\<lparr>f_private := f_private v', f_size := f_size v'\<rparr> \<and>
    kheap_ready (pages_st s2) \<and> heap_rep ((other_blocks B v a)(a' \<mapsto> page_count (unat (f_size v')))) (pages_st s2) \<and>
    f_private v' = heap_addr (pages_st s2) a' 0 \<and>
    (\<forall>i < unat (f_size v). \<not> (o1 \<le> i \<and> i < o1 + n) \<longrightarrow> fmem s2 (f_private v' + of_nat i) = fmem s (f_private v + of_nat i)) \<and>
    (\<forall>x. \<not> span (f_private v') (unat (f_size v')) x \<and> \<not> span target n x \<longrightarrow> fmem s2 x = fmem s x)"
proof -
  let ?h = "pages_st s" and ?k = "unat (f_size v)"
  define e where "e = max (o1 + n) ?k"
  obtain a' h' m' where w: "ramfs_write kmalloc kfree file buffer (of_nat o1) (of_nat n) s = Some (of_nat n,
      s\<lparr>pages_st := h', vfiles := (vfiles s)(file \<mapsto> v\<lparr>f_private := heap_addr ?h a' 0, f_size := of_nat e\<rparr>), fmem := m'\<rparr>)"
    and h': "heap_rep ((other_blocks B v a)(a' \<mapsto> page_count e)) h'" "kheap_ready h'" "heap_addr h' = heap_addr ?h" "heap_pages h' = heap_pages ?h"
    and blk: "a' + page_count e \<le> heap_pages ?h" "\<forall>p. a' \<le> p \<and> p < a' + page_count e \<longrightarrow> \<not> covered (other_blocks B v a) p"
    and fw: "file_written (f_private v) ?k (heap_addr ?h a' 0) e o1 n f (fmem s) m'"
    by (rule ramfs_write_block [OF v heap n room mem buf, folded e_def], rule that; assumption)
  let ?q = "heap_addr ?h a' 0"
  let ?v = "v\<lparr>f_private := ?q, f_size := of_nat e\<rparr>" and ?m2 = "overlay target n f m'"
  let ?s1 = "s\<lparr>pages_st := h', vfiles := (vfiles s)(file \<mapsto> ?v), fmem := m'\<rparr>"
  have e: "unat (of_nat e :: u64) = e" "0 < page_count e" "e \<le> 4096 * page_count e"
    using n page_count_covers(1,3) [of e] by (auto simp: e_def intro!: unat_of_nat_lt)
  have q0: "?q \<noteq> 0" using kpages.addr_nonzero [OF heap(1), of a'] blk(1) e(2) by simp
  have cast: "(ucast (of_nat o1 :: u64) :: u32) = of_nat o1" "(ucast (of_nat n :: u64) :: u32) = of_nat n"
    using n(2) by (simp_all add: narrow_of_nat)
  have inside: "o1 + n \<le> 4096 * page_count e" "?k \<le> 4096 * page_count e" using e(3) by (simp_all add: e_def)
  have at: "m' (?q + of_nat o1 + of_nat i) = Some (f i)" if "i < n" for i using fw that by (simp add: file_written_def add.assoc)
  have "memcpy_b (?q + of_nat o1) target (of_nat n) m' = Some ?m2"
  proof (rule memcpy_overlay)
    show "mapped m' target n" using dst(2) fw by (auto simp: mapped_def file_written_def)
    show "apart (?q + of_nat o1) n target n" by (rule clear_apart(2) [OF heap(1) blk dst(3) inside(1)])
  qed (use at n(2) in simp_all)
  moreover have "f_flags v AND FS_FILE_MOUNT = 0" "f_flags v AND FS_FILE_IS_DIR = 0"
    using file_room_flags [of "?v\<lparr>f_size := 0\<rparr>" 0] v(3) q0 by (simp_all add: file_room_def)
  ultimately have r: "ramfs_read file target (of_nat o1) (of_nat n) ?s1 = Some (of_nat n, ?s1\<lparr>fmem := ?m2\<rparr>)"
    using v dst(1) cast q0 by (simp add: ramfs_read_def)
  have keep: "?m2 (?q + of_nat i) = fmem s (f_private v + of_nat i)" if "i < ?k" "\<not> (o1 \<le> i \<and> i < o1 + n)" for i
  proof -
    have "\<not> span target n (?q + of_nat i)"
      using clear_apart(2) [OF heap(1) blk dst(3), of 0 ?k] inside(2) that(1) by (simp add: apart_def)
    then have "?m2 (?q + of_nat i) = m' (?q + of_nat i)" by (rule overlay_off)
    then show ?thesis using fw that unfolding file_written_def by simp
  qed
  have frame: "?m2 x = fmem s x" if "\<not> span ?q e x" "\<not> span target n x" for x
    using that fw unfolding file_written_def by (simp add: overlay_off)
  have "?m2 (target + of_nat i) = Some (f i)" if "i < n" for i using that n(2) by simp
  then show ?thesis
    using w r h' keep frame e(1)
    by (intro exI [of _ ?s1] exI [of _ "?s1\<lparr>fmem := ?m2\<rparr>"] exI [of _ a'] exI [of _ ?v]) (simp add: e_def)
qed

text \<open>A heap of eight pages of which the first one is in use.\<close>

definition used_page_heap :: mm_state where
  "used_page_heap = (pages_st fs_example)\<lparr>heap_map := (\<lambda>_. 0)(0 := 1)\<rparr>"

lemma used_page_heap_ready:
  "kheap_ready used_page_heap" "heap_pages used_page_heap = 8" "heap_base used_page_heap = 0xd0000000"
  by (simp_all add: kheap_ready_def heap_ready_def heap_pages_def heap_max_index_def used_page_heap_def
      fs_example_def mm_example_def heap_example_def heap_state.defs pm_state.defs)

lemma used_page_heap_rep: "heap_rep [0 \<mapsto> 1] used_page_heap"
proof -
  note defs = used_page_heap_def fs_example_def mm_example_def heap_example_def heap_state.defs pm_state.defs get_heap_index_def heap_max_index_def
  have "get_heap_index used_page_heap (of_nat k) = 0" if "k < 8" "\<not> covered [0 \<mapsto> 1] k" for k
  proof -
    have "k = 1 \<or> k = 2 \<or> k = 3 \<or> k = 4 \<or> k = 5 \<or> k = 6 \<or> k = 7" using that by (auto simp: covered_def)
    then show ?thesis by (auto simp: defs)
  qed
  moreover have "get_heap_index used_page_heap 0 = 1" by (simp add: defs)
  ultimately show ?thesis using used_page_heap_ready(2) by (auto simp: heap_rep_def heap_page_flags_def split: if_splits)
qed

text \<open>A file of 10 bytes in that page; a write across the end of the page moves it to a block of two pages.\<close>

definition file_example :: "mm_state fs_state" where
  "file_example = fs_example\<lparr>pages_st := used_page_heap, fmem := (\<lambda>_. Some 7),
     vfiles := (vfiles fs_example)(0x500 \<mapsto> zero_vfile\<lparr>f_private := 0xd0000000, f_size := 10, f_ops := 0x200\<rparr>)\<rparr>"

theorem ramfs_write_read_roundtrip_witness:
  "\<exists>s1 s2 a'. ramfs_write kmalloc kfree 0x500 0x9000 (of_nat 4094) (of_nat 4) file_example = Some (of_nat 4, s1) \<and>
     ramfs_read 0x500 0xb000 (of_nat 4094) (of_nat 4) s1 = Some (of_nat 4, s2) \<and>
     (\<forall>i < 4. fmem s2 (0xb000 + of_nat i) = Some 7) \<and> heap_rep [a' \<mapsto> 2] (pages_st s2)"
proof -
  let ?v = "zero_vfile\<lparr>f_private := 0xd0000000, f_size := 10, f_ops := 0x200\<rparr>"
  have h: "pages_st file_example = used_page_heap" by (simp add: file_example_def)
  have v: "vfiles file_example 0x500 = Some ?v" "(0x500 :: u32) \<noteq> 0" "f_flags ?v AND (FS_FILE_READ_ONLY OR FS_FILE_IS_DIR OR FS_FILE_MOUNT) = 0"
    by (simp_all add: file_example_def zero_vfile_def)
  have sz: "unat (f_size ?v) = 10" "page_count 10 = 1" "page_count 4098 = 2" by (simp_all add: page_count_def)
  have owns: "owns_pages [0 \<mapsto> 1] (pages_st file_example) ?v 0"
    using used_page_heap_ready(3) by (simp add: owns_pages_def h sz heap_addr_def)
  have "gap [0 \<mapsto> 1] (heap_pages (pages_st file_example)) 1 (page_count (4094 + 4))"
    using used_page_heap_ready(2) sz(3) by (simp add: gap_def h covered_def)
  then have room: "page_count (unat (f_size ?v)) < page_count (4094 + 4) \<longrightarrow> (\<exists>b. gap [0 \<mapsto> 1] (heap_pages (pages_st file_example)) b (page_count (4094 + 4)))"
    by blast
  have mem: "\<forall>p < heap_pages (pages_st file_example). mapped (fmem file_example) (heap_addr (pages_st file_example) p 0) 4096"
    "mapped (fmem file_example) 0xb000 4" "\<forall>i < 4. fmem file_example (0x9000 + of_nat i) = Some 7"
    by (simp_all add: mapped_def file_example_def)
  have far: "8 \<le> page_of used_page_heap (q + of_nat i)" if "q = 0x9000 \<or> q = 0xb000" "i < 4" for q :: u32 and i :: nat
  proof -
    have "i = 0 \<or> i = 1 \<or> i = 2 \<or> i = 3" using that(2) by linarith
    with that(1) show ?thesis using used_page_heap_ready(3) by (elim disjE) (simp_all add: page_of_def)
  qed
  have clear: "clear_of_file [0 \<mapsto> 1] (pages_st file_example) ?v 0 0x9000 4" "clear_of_file [0 \<mapsto> 1] (pages_st file_example) ?v 0 0xb000 4"
    unfolding clear_of_file_def h used_page_heap_ready(2) using far [of "0x9000"] far [of "0xb000"] by (simp_all add: leD)
  have small: "(0 :: nat) < 4" "4094 + 4 + 4096 < (2 :: nat) ^ 32" "unat (f_size ?v) + 4096 < 2 ^ 32" "(0x9000 :: u32) \<noteq> 0" "(0xb000 :: u32) \<noteq> 0" by simp_all
  have "other_blocks [0 \<mapsto> 1] ?v 0 = Map.empty" by (simp add: other_blocks_def)
  then show ?thesis
    using ramfs_write_read_roundtrip [OF v used_page_heap_ready(1) [folded h] used_page_heap_rep [folded h] owns small(1-3) room mem(1)
        small(4) mem(3) clear(1) small(5) mem(2) clear(2)] sz by auto
qed

text \<open>
  \<^verbatim>\<open>ramfs_read\<close> does not look at the size of the file: it copies and reports bytes behind its end.
\<close>

lemma ramfs_read_ignores_size:
  assumes "vfiles s file = Some v" "file \<noteq> 0" "buffer \<noteq> 0" "f_private v \<noteq> 0"
    and "f_flags v AND FS_FILE_MOUNT = 0" "f_flags v AND FS_FILE_IS_DIR = 0" "f_size v = 0" "n < 2 ^ 32"
    and "mapped (fmem s) buffer n" "apart (f_private v) n buffer n" "\<And>i. i < n \<Longrightarrow> fmem s (f_private v + of_nat i) = Some (f i)"
  shows "ramfs_read file buffer 0 (of_nat n) s = Some (of_nat n, s\<lparr>fmem := overlay buffer n f (fmem s)\<rparr>)"
  using assms(1-7) memcpy_overlay [OF assms(9,10,11,8)] by (simp add: ramfs_read_def narrow_of_nat [OF assms(8)])

text \<open>\<^verbatim>\<open>ramfs_close\<close> of a file nobody has counted wraps its reference count.\<close>

lemma ramfs_close_wraps:
  assumes "vfiles s file = Some v" "refcount v = 0"
  shows "ramfs_close file s = Some (s\<lparr>vfiles := (vfiles s)(file \<mapsto> v\<lparr>refcount := - 1\<rparr>)\<rparr>)"
  using assms by (simp add: ramfs_close_def upd_vfile_def)

end
