(* ===== verification/Vfs.thy ===== *)
theory Vfs
  imports RamFS
begin

text \<open>
  The entry points of the virtual file system (\<^verbatim>\<open>src/kernel/system/vfs.c\<close>): they check their
  arguments and call the operation of the file's own table.  Null pointers are 0 for files and
  \<open>None\<close> for strings.

  The properties connect these entry points with the file system in memory: a path is resolved by
  walking down the directories named by its parts, a file created by \<^verbatim>\<open>fcreate\<close> is found by \<^verbatim>\<open>fopen\<close>,
  and the buffers used on the way are returned to the allocator.
\<close>

subsection \<open>Operations\<close>

definition vfs_init :: "('h, 'b) fs_state_scheme \<Rightarrow> ('h, 'b) fs_state_scheme" where
  "vfs_init s = s\<lparr>vfs_lock := spinlock_init (vfs_lock s)\<rparr>"

definition fwrite ::
    "(u32 \<Rightarrow> ('h, 'b) fs_state_scheme fileops_t) \<Rightarrow> u32 \<Rightarrow> u32 \<Rightarrow> u64 \<Rightarrow> u64 \<Rightarrow> ('h, 'b) fs_state_scheme \<Rightarrow>
     (u32 \<times> ('h, 'b) fs_state_scheme) option" where
  "fwrite fops file_entry byte_array offset cnt s =
     (if file_entry = 0 then Some (0, s)
      else do {
        v \<leftarrow> vfiles s file_entry;
        if f_ops v = 0 \<or> op_write (fops (f_ops v)) = None \<or> byte_array = 0 \<or> cnt = 0 then Some (0, s)
        else do { f \<leftarrow> op_write (fops (f_ops v)); f file_entry byte_array offset cnt s }
      })"

definition fread ::
    "(u32 \<Rightarrow> ('h, 'b) fs_state_scheme fileops_t) \<Rightarrow> u32 \<Rightarrow> u32 \<Rightarrow> u64 \<Rightarrow> u64 \<Rightarrow> ('h, 'b) fs_state_scheme \<Rightarrow>
     (u32 \<times> ('h, 'b) fs_state_scheme) option" where
  "fread fops file_entry byte_array offset cnt s =
     (if file_entry = 0 then Some (0, s)
      else do {
        v \<leftarrow> vfiles s file_entry;
        if f_ops v = 0 \<or> op_read (fops (f_ops v)) = None \<or> byte_array = 0 \<or> cnt = 0 then Some (0, s)
        else do { f \<leftarrow> op_read (fops (f_ops v)); f file_entry byte_array offset cnt s }
      })"

definition rfopen ::
    "(u32 \<Rightarrow> ('h, 'b) fs_state_scheme fileops_t) \<Rightarrow> u8 list option \<Rightarrow> u32 \<Rightarrow> ('h, 'b) fs_state_scheme \<Rightarrow>
     (u32 \<times> ('h, 'b) fs_state_scheme) option" where
  "rfopen fops name dir s =
     (case name of None \<Rightarrow> Some (0, s)
      | Some n \<Rightarrow>
          if dir = 0 then Some (0, s)
          else do {
            v \<leftarrow> vfiles s dir;
            if f_ops v = 0 \<or> op_rfopen (fops (f_ops v)) = None then Some (0, s)
            else do { f \<leftarrow> op_rfopen (fops (f_ops v)); f n dir s }
          })"

definition readdir :: "u32 \<Rightarrow> u32 \<Rightarrow> u32 \<Rightarrow> u32 \<Rightarrow> u32" where
  "readdir file buffer offset cnt = 0"

definition fopen ::
    "(u32 \<Rightarrow> ('h, 'b) fs_state_scheme fileops_t) \<Rightarrow> u8 list option \<Rightarrow> ('h, 'b) fs_state_scheme \<Rightarrow>
     (u32 \<times> ('h, 'b) fs_state_scheme) option" where
  "fopen fops name s =
     (case name of None \<Rightarrow> Some (0, s)
      | Some n \<Rightarrow>
          if n = [slash] then Some (get_root_dir s, s)
          else do {
            root \<leftarrow> vfiles s (get_root_dir s);
            f \<leftarrow> op_rfopen (fops (f_ops root));
            f (if n \<noteq> [] \<and> hd n = slash then tl n else n) (get_root_dir s) s
          })"

definition fclose ::
    "(u32 \<Rightarrow> ('h, 'b) fs_state_scheme fileops_t) \<Rightarrow> u32 \<Rightarrow> ('h, 'b) fs_state_scheme \<Rightarrow>
     (u32 \<times> ('h, 'b) fs_state_scheme) option" where
  "fclose fops file s =
     (if file = 0 then Some (0, s)
      else do {
        v \<leftarrow> vfiles s file;
        if f_ops v = 0 \<or> op_close (fops (f_ops v)) = None then Some (0, s)
        else do { f \<leftarrow> op_close (fops (f_ops v)); s \<leftarrow> f file s; Some (0, s) }
      })"

text \<open>
  \<^verbatim>\<open>vfcreate\<close> copies the path into a buffer of \<open>(length + 4095) / 4096\<close> pages, which is too small for
  the terminator when the length is a multiple of the page size.  \<open>len\<close> is \<^verbatim>\<open>name_length\<close>, taken
  before a trailing slash is cut off.
\<close>

partial_function (option) vfcreate ::
    "'h allocator \<Rightarrow> (u32 \<Rightarrow> 'h \<Rightarrow> 'h option) \<Rightarrow> (u32 \<Rightarrow> ('h, 'b) fs_state_scheme fileops_t) \<Rightarrow>
     u32 \<Rightarrow> u8 list \<Rightarrow> u32 \<Rightarrow> ('h, 'b) fs_state_scheme \<Rightarrow> (u32 \<times> ('h, 'b) fs_state_scheme) option" where
  "vfcreate alloc free fops parent_dir relpath fl s =
     (if length relpath mod 4096 = 0 then None
      else do {
        (buf, s) \<leftarrow> kalloc alloc (of_nat ((length relpath + 4095) div 4096)) s;
        if buf = 0 then None
        else do {
          let lead = (hd relpath = slash);
          let name = (if lead then tl relpath else relpath);
          let buf = (if lead then buf + 1 else buf);
          let len = length name;
          let name = (if name \<noteq> [] \<and> last name = slash then butlast name else name);
          let part = takeWhile (\<lambda>c. c \<noteq> slash) name;
          if length part \<ge> len
          then do {
            v \<leftarrow> vfiles s parent_dir;
            f \<leftarrow> op_create (fops (f_ops v));
            (new_file, s) \<leftarrow> f parent_dir part fl s;
            s \<leftarrow> krelease free buf s;
            Some (new_file, s)
          }
          else do {
            (new_parent, s) \<leftarrow> rfopen fops (Some part) parent_dir s;
            if new_parent = 0
            then do { s \<leftarrow> krelease free buf s; Some (0, s) }
            else do {
              (new_file, s) \<leftarrow> vfcreate alloc free fops new_parent (drop (length part + 1) name) fl s;
              (z, s) \<leftarrow> fclose fops new_parent s;
              s \<leftarrow> krelease free buf s;
              Some (new_file, s)
            }
          }
        }
      })"

definition fcreate ::
    "'h allocator \<Rightarrow> (u32 \<Rightarrow> 'h \<Rightarrow> 'h option) \<Rightarrow> (u32 \<Rightarrow> ('h, 'b) fs_state_scheme fileops_t) \<Rightarrow>
     u8 list option \<Rightarrow> u32 \<Rightarrow> ('h, 'b) fs_state_scheme \<Rightarrow> (u32 \<times> ('h, 'b) fs_state_scheme) option" where
  "fcreate alloc free fops path fl s = do {
     l \<leftarrow> spinlock_acquire (vfs_lock s);
     let s = s\<lparr>vfs_lock := l\<rparr>;
     (r, s) \<leftarrow> (case path of None \<Rightarrow> Some (0, s)
                | Some p \<Rightarrow> vfcreate alloc free fops (get_root_dir s) p fl s);
     Some (r, s\<lparr>vfs_lock := spinlock_release (vfs_lock s)\<rparr>)
   }"

definition fdelete ::
    "(u32 \<Rightarrow> ('h, 'b) fs_state_scheme fileops_t) \<Rightarrow> u32 \<Rightarrow> u8 list option \<Rightarrow> ('h, 'b) fs_state_scheme \<Rightarrow>
     (u32 \<times> ('h, 'b) fs_state_scheme) option" where
  "fdelete fops dir child s = do {
     l \<leftarrow> spinlock_acquire (vfs_lock s);
     let s = s\<lparr>vfs_lock := l\<rparr>;
     let dir = (if dir = 0 then get_root_dir s else dir);
     v \<leftarrow> vfiles s dir;
     (r, s) \<leftarrow> (if f_ops v = 0 \<or> op_delete (fops (f_ops v)) = None \<or> child = None then Some (0, s)
                else do { f \<leftarrow> op_delete (fops (f_ops v)); f dir (the child) s });
     Some (r, s\<lparr>vfs_lock := spinlock_release (vfs_lock s)\<rparr>)
   }"

subsection \<open>Paths\<close>

text \<open>The path that names a sequence of parts.\<close>

fun join_path :: "u8 list list \<Rightarrow> u8 list" where
  "join_path [] = []"
| "join_path [t] = t"
| "join_path (t # ts) = t @ slash # join_path ts"

lemma path_tokens_part: "slash \<notin> set t \<Longrightarrow> path_tokens t = [t]"
  by (induction t) auto

lemma path_tokens_append: "slash \<notin> set t \<Longrightarrow> path_tokens (t @ slash # p) = t # path_tokens p"
  by (induction t) auto

text \<open>
  Splitting a path at its slashes is the inverse of joining parts that contain none: the loop
  of \<^verbatim>\<open>resolve_path\<close> finds exactly the parts of the path.
\<close>

theorem path_tokens_join:
  assumes "ts \<noteq> []" "\<forall>t \<in> set ts. slash \<notin> set t"
  shows "path_tokens (join_path ts) = ts"
  using assms by (induction ts rule: join_path.induct) (simp_all add: path_tokens_part path_tokens_append)

theorem path_tokens_join_witness: "path_tokens (join_path [[100, 101], [112]]) = [[100, 101], [112]]"
  by (rule path_tokens_join) simp_all

text \<open>
  The contents of a directory, in memory: \<open>cs\<close> are the pointers in its slots, 0 where a file was deleted.  \<open>first_named s cs t c\<close>: of the files in
  the slots, \<open>c\<close> is the first one with name \<open>t\<close>.
\<close>

definition dir_slots :: "('h, 'b) fs_state_scheme \<Rightarrow> u32 \<Rightarrow> u32 list \<Rightarrow> bool" where
  "dir_slots s d cs \<longleftrightarrow> d \<noteq> 0 \<and> (\<exists>v. vfiles s d = Some v \<and> unat (f_size v) = 4 * length cs \<and> (f_private v = 0 \<longrightarrow> cs = []) \<and>
     (\<forall>i < length cs. rd32 (fmem s) (f_private v + of_nat i * 4) = Some (cs ! i))) \<and> (\<forall>c \<in> set cs. c \<noteq> 0 \<longrightarrow> vfiles s c \<noteq> None)"

definition has_name :: "('h, 'b) fs_state_scheme \<Rightarrow> u8 list \<Rightarrow> u32 \<Rightarrow> bool" where
  "has_name s t c \<longleftrightarrow> c \<noteq> 0 \<and> (\<exists>v. vfiles s c = Some v \<and> f_name v = t)"

definition first_named :: "('h, 'b) fs_state_scheme \<Rightarrow> u32 list \<Rightarrow> u8 list \<Rightarrow> u32 \<Rightarrow> bool" where
  "first_named s cs t c \<longleftrightarrow> (\<exists>us vs. cs = us @ c # vs \<and> has_name s t c \<and> (\<forall>u \<in> set us. \<not> has_name s t u))"

text \<open>\<open>walks s d ts e\<close>: from directory \<open>d\<close> the parts \<open>ts\<close> lead to \<open>e\<close> without meeting a mounted file system.\<close>

inductive walks :: "('h, 'b) fs_state_scheme \<Rightarrow> u32 \<Rightarrow> u8 list list \<Rightarrow> u32 \<Rightarrow> bool" for s where
  here: "walks s d [] d"
| down: "dir_slots s d cs \<Longrightarrow> first_named s cs t c \<Longrightarrow> vfiles s c = Some v \<Longrightarrow> f_flags v AND FS_FILE_MOUNT = 0 \<Longrightarrow>
    walks s c ts e \<Longrightarrow> walks s d (t # ts) e"

text \<open>The loop over the slots finds the first file with the name.\<close>

lemma search_entries_slots:
  assumes "\<forall>i < length cs. rd32 (fmem s) (p + of_nat i * 4) = Some (cs ! i)" "\<forall>c \<in> set cs. c \<noteq> 0 \<longrightarrow> vfiles s c \<noteq> None" "k \<le> length cs"
  shows "search_entries s n p [k..<length cs] = Some (case find (has_name s n) (drop k cs) of Some c \<Rightarrow> c | None \<Rightarrow> 0)"
  using assms(3)
proof (induction rule: inc_induct)
  case (step k)
  then have "rd32 (fmem s) (p + of_nat k * 4) = Some (cs ! k)" "cs ! k \<noteq> 0 \<longrightarrow> vfiles s (cs ! k) \<noteq> None" "[k..<length cs] = k # [Suc k..<length cs]"
      "drop k cs = cs ! k # drop (Suc k) cs"
    using assms(1,2) by (simp_all add: upt_conv_Cons Cons_nth_drop_Suc)
  then show ?case using step.IH by (auto simp: has_name_def)
qed simp

lemma search_dir_slots:
  assumes "dir_slots s d cs"
  shows "search_dir n d s = Some (case find (has_name s n) cs of Some c \<Rightarrow> c | None \<Rightarrow> 0)"
proof -
  obtain v where v: "d \<noteq> 0" "vfiles s d = Some v" "unat (f_size v) = 4 * length cs" "f_private v = 0 \<longrightarrow> cs = []"
    "\<forall>i < length cs. rd32 (fmem s) (f_private v + of_nat i * 4) = Some (cs ! i)" "\<forall>c \<in> set cs. c \<noteq> 0 \<longrightarrow> vfiles s c \<noteq> None"
    using assms unfolding dir_slots_def by blast
  show ?thesis using search_entries_slots [OF v(5,6), of 0 n] v(1-4) by (simp add: search_dir_def)
qed

lemma search_dir_first:
  assumes "dir_slots s d cs" "first_named s cs t c"
  shows "search_dir t d s = Some c" "c \<noteq> 0"
proof -
  obtain us vs where cs: "cs = us @ c # vs" "has_name s t c" "\<forall>u \<in> set us. \<not> has_name s t u"
    using assms(2) unfolding first_named_def by blast
  from cs(3) have "find (has_name s t) (us @ c # vs) = Some c" using cs(2) by (induction us) simp_all
  then show "search_dir t d s = Some c" using search_dir_slots [OF assms(1), of t] cs(1) by simp
  show "c \<noteq> 0" using cs(2) by (simp add: has_name_def)
qed

lemma search_dir_missing:
  assumes "dir_slots s d cs" "\<forall>c \<in> set cs. \<not> has_name s t c"
  shows "search_dir t d s = Some 0"
  using search_dir_slots [OF assms(1), of t] assms(2) by (simp add: find_None_iff [THEN iffD2])

lemma resolve_tokens_walks:
  "walks s d ts e \<Longrightarrow> resolve_tokens fops b ts path d s = Some (e, s)"
  by (induction arbitrary: path rule: walks.induct) (simp_all add: Let_def search_dir_first)

text \<open>A part that is not there: the search ends with the null pointer.\<close>

lemma resolve_tokens_missing:
  assumes "walks s d ts e" "search_dir t e s = Some 0"
  shows "resolve_tokens fops b (ts @ t # us) path d s = Some (0, s)"
  using assms by (induction arbitrary: path rule: walks.induct) (simp_all add: Let_def search_dir_first)

context page_source
begin

text \<open>
  Resolving a path takes two pages and returns both: the result is that of the loop, and the
  allocator has the same blocks as before.
\<close>

lemma resolve_path_pages:
  assumes fs: "fs_pages B (Suc (Suc k)) s" and path: "length path < 4096"
    and loop: "\<And>h. resolve_tokens fops b (take 1024 (path_tokens (if path \<noteq> [] \<and> hd path = slash then tl path else path)))
      path d (s\<lparr>pages_st := h\<rparr>) = Some (e, s\<lparr>pages_st := h\<rparr>)"
    and d: "d \<noteq> 0"
  shows "\<exists>h'. resolve_path alloc free fops path d b s = Some (e, s\<lparr>pages_st := h'\<rparr>) \<and>
    addr h' = addr (pages_st s) \<and> pages h' = pages (pages_st s) \<and> fs_pages B k (s\<lparr>pages_st := h'\<rparr>)"
proof -
  let ?addr = "addr (pages_st s)"
  let ?lead = "path \<noteq> [] \<and> hd path = slash"
  obtain a h1 where a: "kalloc alloc 1 s = Some (?addr a 0, s\<lparr>pages_st := h1\<rparr>)" "B a = None"
      "?addr a 0 \<noteq> 0" "vfiles s (?addr a 0) = None" "addr h1 = ?addr" "pages h1 = pages (pages_st s)"
      "fs_pages (B(a \<mapsto> 1)) (Suc k) (s\<lparr>pages_st := h1\<rparr>)"
    using kalloc_page [OF fs] by blast
  obtain c h2 where c: "kalloc alloc 1 (s\<lparr>pages_st := h1\<rparr>) = Some (?addr c 0, s\<lparr>pages_st := h2\<rparr>)"
      "(B(a \<mapsto> 1)) c = None" "?addr c 0 \<noteq> 0" "vfiles s (?addr c 0) = None" "addr h2 = ?addr"
      "pages h2 = pages (pages_st s)" "fs_pages (B(a \<mapsto> 1, c \<mapsto> 1)) k (s\<lparr>pages_st := h2\<rparr>)"
    using kalloc_page [OF a(7)] a(5,6) by auto
  have ac: "a \<noteq> c" using c(2) by auto
  define off :: nat where "off = (if ?lead then 1 else 0)"
  have off: "off < 2" by (simp add: off_def)
  obtain h3 where h3: "krelease free (?addr a off) (s\<lparr>pages_st := h2\<rparr>) = Some (s\<lparr>pages_st := h3\<rparr>)" "addr h3 = ?addr"
      "pages h3 = pages (pages_st s)" "fs_pages ((B(a \<mapsto> 1, c \<mapsto> 1))(a := None)) k (s\<lparr>pages_st := h3\<rparr>)"
    using krelease_page [OF c(7), of a off] ac off a(4) c(5,6) by auto
  obtain h4 where h4: "krelease free (?addr c 0) (s\<lparr>pages_st := h3\<rparr>) = Some (s\<lparr>pages_st := h4\<rparr>)" "addr h4 = ?addr"
      "pages h4 = pages (pages_st s)" "fs_pages (((B(a \<mapsto> 1, c \<mapsto> 1))(a := None))(c := None)) k (s\<lparr>pages_st := h4\<rparr>)"
    using krelease_page [OF h3(4), of c 0] ac c(4) h3(2,3) by auto
  have "((B(a \<mapsto> 1, c \<mapsto> 1))(a := None))(c := None) = B" using a(2) c(2) ac by (auto simp: fun_eq_iff)
  then have "fs_pages B k (s\<lparr>pages_st := h4\<rparr>)" using h4(4) by simp
  moreover have "resolve_path alloc free fops path d b s = Some (e, s\<lparr>pages_st := h4\<rparr>)"
    using a(1,3) c(1,3) h3(1) h4(1) loop [of h2] path d
    by (cases ?lead) (auto simp: resolve_path_def Let_def off_def addr_offset [unfolded One_nat_def])
  ultimately show ?thesis using h4(2,3) by blast
qed

end

text \<open>The state without its allocator part: what paths mean does not depend on it.\<close>

lemma search_entries_pages [simp]: "search_entries (s\<lparr>pages_st := h\<rparr>) n p is = search_entries s n p is"
  by (induction "is") (simp_all cong: if_cong)

lemma search_dir_pages [simp]: "search_dir n d (s\<lparr>pages_st := h\<rparr>) = search_dir n d s"
  by (simp add: search_dir_def cong: if_cong)

lemma slots_pages [simp]: "dir_slots (s\<lparr>pages_st := h\<rparr>) d cs = dir_slots s d cs" "has_name (s\<lparr>pages_st := h\<rparr>) t c = has_name s t c"
  "first_named (s\<lparr>pages_st := h\<rparr>) cs t c = first_named s cs t c"
  by (simp_all add: dir_slots_def has_name_def first_named_def)

lemma walks_pages: "walks s d ts e \<Longrightarrow> walks (s\<lparr>pages_st := h\<rparr>) d ts e"
proof (induction rule: walks.induct)
  case (down d cs t c v ts e)
  then show ?case by (intro walks.down [of _ _ cs _ c v]) simp_all
qed (rule walks.here)

text \<open>
  C21. \<^verbatim>\<open>resolve_path\<close> implements the walk through the directories.  The path consists of slash-free parts \<open>ts @ us\<close> joined by slashes,
  with or without a slash in front.  If the parts \<open>ts\<close> lead from the start, through the contents of the directories in memory and past no
  mounted file system, to the file \<open>e\<close>, the result is \<open>e\<close> when no part is left, and null when no file in \<open>e\<close> has the name of the next part.
  The file system is unchanged and the allocator holds the blocks it held before.
\<close>

theorem resolve_path_walks:
  fixes s :: "('a mm_state_scheme, 'b) fs_state_scheme"
  assumes fs: "kernel_pages B (Suc (Suc k)) s"
    and parts: "ts @ us \<noteq> []" "\<forall>t \<in> set (ts @ us). slash \<notin> set t" "length (ts @ us) \<le> 1024"
    and path: "path = slash # join_path (ts @ us) \<or> path = join_path (ts @ us) \<and> hd (ts @ us) \<noteq> []" "length path < 4096"
    and walk: "d \<noteq> 0" "walks s d ts e" "us = [] \<or> (\<exists>cs. dir_slots s e cs \<and> (\<forall>c \<in> set cs. \<not> has_name s (hd us) c))"
  shows "\<exists>h'. resolve_path kmalloc kfree fops path d b s =
      Some (if us = [] then e else 0, s\<lparr>pages_st := h'\<rparr>) \<and> kernel_pages B k (s\<lparr>pages_st := h'\<rparr>)"
proof -
  have "hd (join_path ps) \<noteq> slash" if "hd ps \<noteq> []" "ps \<noteq> []" "\<forall>t \<in> set ps. slash \<notin> set t" for ps
    using that by (cases ps rule: join_path.cases) (auto simp: hd_append dest: hd_in_set)
  then have "(if path \<noteq> [] \<and> hd path = slash then tl path else path) = join_path (ts @ us)"
    using path(1) parts(1,2) by auto
  then have toks: "take 1024 (path_tokens (if path \<noteq> [] \<and> hd path = slash then tl path else path)) = ts @ us"
    using path_tokens_join [OF parts(1,2)] parts(3) by simp
  have "resolve_tokens fops b (ts @ us) path d (s\<lparr>pages_st := h\<rparr>) = Some (if us = [] then e else 0, s\<lparr>pages_st := h\<rparr>)" for h
  proof (cases us)
    case Nil
    then show ?thesis using resolve_tokens_walks [OF walks_pages [OF walk(2)]] by simp
  next
    case (Cons u us')
    then have "search_dir u e s = Some 0" using walk(3) search_dir_missing by auto
    then show ?thesis using Cons resolve_tokens_missing [OF walks_pages [OF walk(2)], of u] by simp
  qed
  then show ?thesis using kpages.resolve_path_pages [OF fs path(2), unfolded toks] walk(1) by blast
qed

definition no_fileops :: "'s fileops_t" where
  "no_fileops = \<lparr>op_create = None, op_delete = None, op_write = None, op_read = None, op_close = None, op_rfopen = None\<rparr>"

text \<open>A root with a deleted file in its first slot and a file \<open>x\<close> in the second one, which the path \<open>/x\<close> leads to; \<open>x/y\<close> does not exist.\<close>

definition tree_example :: "mm_state fs_state" where
  "tree_example = fs_example\<lparr>pages_st := used_page_heap,
     vfiles := [0x100000 \<mapsto> zero_vfile\<lparr>f_name := [slash], f_flags := FS_FILE_IS_DIR, f_size := 8, f_private := 0x130000\<rparr>,
       0xd0000000 \<mapsto> zero_vfile\<lparr>f_name := [120]\<rparr>],
     fmem := (\<lambda>a. Some (if a = 0x130007 then 0xd0 else 0))\<rparr>"

lemma tree_example_heap: "pages_st tree_example = used_page_heap"
  by (simp add: tree_example_def)

lemma tree_example_pages: "kernel_pages [0 \<mapsto> 1] (Suc (Suc 2)) tree_example"
proof -
  have "{1, 2, 3, 4} \<subseteq> free_pages [0 \<mapsto> 1] 8" by (auto simp: free_pages_def covered_def)
  moreover have "finite (free_pages [0 \<mapsto> 1] 8)" by (simp add: free_pages_def)
  ultimately have "card {1, 2, 3, 4 :: nat} \<le> card (free_pages [0 \<mapsto> 1] 8)" by (intro card_mono)
  then have "Suc (Suc 2) \<le> card (free_pages [0 \<mapsto> 1] 8)" by simp
  moreover have "heap_addr (used_page_heap) a 0 \<noteq> 0x100000" if "a < 8" for a
  proof -
    have "unat (heap_addr (used_page_heap) a 0) = 0xd0000000 + a * 4096"
      using heap_addr_page [OF used_page_heap_ready(1), of a] that used_page_heap_ready(2,3) by simp
    then show ?thesis by auto
  qed
  moreover have "heap_addr (used_page_heap) 0 0 = 0xd0000000" using used_page_heap_ready(3) by (simp add: heap_addr_def)
  moreover have "root_dir tree_example = 0x100000" by (simp add: tree_example_def fs_example_def)
  moreover have "p = 0x100000 \<or> p = 0xd0000000" if "vfiles tree_example p \<noteq> None" for p
    using that by (auto simp: tree_example_def split: if_splits)
  ultimately show ?thesis using used_page_heap_ready(1,2) used_page_heap_rep unfolding pages_ok_def tree_example_heap by auto
qed

theorem resolve_path_walks_witness:
  "(\<exists>h'. resolve_path kmalloc kfree (\<lambda>_. no_fileops) [47, 120] 0x100000 True tree_example =
     Some (0xd0000000, tree_example\<lparr>pages_st := h'\<rparr>) \<and> kernel_pages [0 \<mapsto> 1] 2 (tree_example\<lparr>pages_st := h'\<rparr>)) \<and>
   (\<exists>h'. resolve_path kmalloc kfree (\<lambda>_. no_fileops) [120, 47, 121] 0x100000 True tree_example =
     Some (0, tree_example\<lparr>pages_st := h'\<rparr>) \<and> kernel_pages [0 \<mapsto> 1] 2 (tree_example\<lparr>pages_st := h'\<rparr>))"
proof -
  have "rd32 (fmem tree_example) 0x130000 = Some 0" "rd32 (fmem tree_example) 0x130004 = Some 0xd0000000"
    by (simp_all add: rd32_def tree_example_def push_bit_eq_mult)
  then have slots: "dir_slots tree_example 0x100000 [0, 0xd0000000]" "dir_slots tree_example 0xd0000000 []"
    by (auto simp: dir_slots_def tree_example_def zero_vfile_def less_Suc_eq)
  have "first_named tree_example [0, 0xd0000000] [120] 0xd0000000"
    unfolding first_named_def by (rule exI [of _ "[0]"]) (simp add: has_name_def tree_example_def)
  moreover have "vfiles tree_example 0xd0000000 = Some (zero_vfile\<lparr>f_name := [120]\<rparr>)" "f_flags (zero_vfile\<lparr>f_name := [120]\<rparr>) AND FS_FILE_MOUNT = 0"
    by (simp_all add: tree_example_def zero_vfile_def)
  ultimately have walk: "walks tree_example 0x100000 [[120]] 0xd0000000"
    by (rule walks.down [OF slots(1) _ _ _ walks.here])
  have none: "\<exists>cs. dir_slots tree_example 0xd0000000 cs \<and> (\<forall>c \<in> set cs. \<not> has_name tree_example [121] c)"
    using slots(2) by (intro exI [of _ "[]"]) simp
  show ?thesis
    using resolve_path_walks [OF tree_example_pages, of "[[120]]" "[]" "[47, 120]" "0x100000" "0xd0000000" "\<lambda>_. no_fileops" True]
      resolve_path_walks [OF tree_example_pages, of "[[120]]" "[[121]]" "[120, 47, 121]" "0x100000" "0xd0000000" "\<lambda>_. no_fileops" True]
      walk none by auto
qed

subsection \<open>Creating and opening\<close>

lemma dir_entries_cong:
  "vfiles t = vfiles s \<Longrightarrow> fmem t = fmem s \<Longrightarrow> dir_entries t d cs = dir_entries s d cs"
  by (simp add: dir_entries_def)

lemma takeWhile_part: "slash \<notin> set n \<Longrightarrow> takeWhile (\<lambda>c. c \<noteq> slash) n = n"
  by (auto simp: takeWhile_eq_all_conv)

text \<open>\<^verbatim>\<open>vfcreate\<close> of a name in the directory itself: a buffer, the file system's own creation, the buffer back.\<close>

lemma vfcreate_name:
  assumes n: "n \<noteq> []" "slash \<notin> set n" "length n < 76"
    and buf: "kalloc alloc 1 s = Some (p, s1)" "p \<noteq> 0"
    and create: "vfiles s1 d = Some v" "op_create (fops (f_ops v)) = Some f" "f d n fl s1 = Some (q, s2)"
    and release: "krelease free (p + 1) s2 = Some s3"
  shows "vfcreate alloc free fops d (slash # n) fl s = Some (q, s3)"
proof -
  have "last n \<noteq> slash" using n(1,2) by (metis last_in_set)
  moreover have "(Suc (length n) + 4095) div 4096 = 1" using n(3) by simp
  moreover have "Suc (length n) mod 4096 \<noteq> 0" using n(3) by simp
  ultimately show ?thesis
    using assms by (subst vfcreate.simps) (simp add: Let_def takeWhile_part)
qed

lemma five: "(5 :: nat) = Suc (Suc (Suc 2))" "(2 :: nat) = Suc (Suc 0)"
  by simp_all

text \<open>The part of \<^verbatim>\<open>fcreate\<close> under the lock.\<close>

lemma vfcreate_in_root:
  fixes t :: "('a mm_state_scheme, 'b) fs_state_scheme"
  assumes root: "dir_entries t r cs" "vfiles t r = Some v" "f_flags v AND FS_FILE_IS_DIR \<noteq> 0"
      "f_ops v = ramfs_ops t" "fops (ramfs_ops t) = ramfs_fileops kmalloc kfree ext"
    and room: "entry_room t v (length cs)" "4 * length cs + 8192 < 2 ^ 32"
    and name: "n \<noteq> []" "slash \<notin> set n" "length n < 76" and pt: "kernel_pages B (Suc (Suc (Suc 2))) t"
    and mem: "\<forall>a < heap_pages (pages_st t). mapped (fmem t) (heap_addr (pages_st t) a 0) 4096"
  obtains p t' B' v' where "vfcreate kmalloc kfree fops r (slash # n) fl t = Some (p, t')" "p \<noteq> 0" "vfiles t p = None"
    "dir_entries t' r (cs @ [p])" "vfiles t' p = Some ((new_vfile n fl (ramfs_ops t))\<lparr>block_size_bytes := 1\<rparr>)"
    "vfiles t' r = Some v'" "f_name v' = f_name v" "f_ops v' = f_ops v" "\<forall>q. q \<noteq> r \<and> q \<noteq> p \<longrightarrow> vfiles t' q = vfiles t q"
    "root_dir t' = root_dir t" "kernel_pages B' 2 t'"
proof -
  obtain a h1 where a: "kalloc kmalloc 1 t = Some (heap_addr (pages_st t) a 0, t\<lparr>pages_st := h1\<rparr>)" "B a = None"
      "heap_addr (pages_st t) a 0 \<noteq> 0" "vfiles t (heap_addr (pages_st t) a 0) = None"
      "heap_addr h1 = heap_addr (pages_st t)" "heap_pages h1 = heap_pages (pages_st t)"
      "kernel_pages (B(a \<mapsto> 1)) (Suc (Suc 2)) (t\<lparr>pages_st := h1\<rparr>)"
    using kpages.kalloc_page [OF pt] by blast
  define t1 where "t1 = t\<lparr>pages_st := h1\<rparr>"
  have t1: "dir_entries t1 r cs" "vfiles t1 r = Some v" "entry_room t1 v (length cs)"
    "\<forall>a < heap_pages (pages_st t1). mapped (fmem t1) (heap_addr (pages_st t1) a 0) 4096"
    using root(1,2) room(1) mem a(5,6) dir_entries_cong [of t1 t] by (simp_all add: t1_def entry_room_def)
  have n1: "n \<noteq> [] \<longrightarrow> hd n \<noteq> slash" using name(1,2) by (metis hd_in_set)
  obtain p t2 v' B' where p: "ramfs_create kmalloc kfree r (Some n) fl t1 = Some (p, t2)" "p \<noteq> 0" "vfiles t1 p = None"
      "dir_entries t2 r (cs @ [p])" "vfiles t2 p = Some ((new_vfile n fl (ramfs_ops t1))\<lparr>block_size_bytes := 1\<rparr>)"
      "vfiles t2 r = Some v'" "f_name v' = f_name v" "f_ops v' = f_ops v" "\<forall>q. q \<noteq> r \<and> q \<noteq> p \<longrightarrow> vfiles t2 q = vfiles t1 q"
      "root_dir t2 = root_dir t1" "ramfs_ops t2 = ramfs_ops t1" "vfs_lock t2 = vfs_lock t1"
      "heap_addr (pages_st t2) = heap_addr (pages_st t1)" "heap_pages (pages_st t2) = heap_pages (pages_st t1)"
      "\<exists>c < heap_pages (pages_st t1). p = heap_addr (pages_st t1) c 0 \<and> (B(a \<mapsto> 1)) c = None"
      "B(a \<mapsto> 1) \<subseteq>\<^sub>m B'" "kernel_pages B' 2 t2"
    using kpages.ramfs_create_entry [OF t1(1,2) root(3) t1(3) room(2) n1 name(3) a(7) [folded t1_def] t1(4), of fl] by blast
  have at: "heap_addr (pages_st t2) = heap_addr (pages_st t)" using p(13) a(5) by (simp add: t1_def)
  have buf: "vfiles t2 (heap_addr (pages_st t) a 0) = None"
  proof -
    obtain c where c: "c < heap_pages (pages_st t1)" "p = heap_addr (pages_st t1) c 0" "c \<noteq> a"
      using p(15) by (auto split: if_splits)
    have "a < heap_pages (pages_st t1)" using kpages.rep_bound [of "B(a \<mapsto> 1)" h1 a 1] a(7)
      by (simp add: pages_ok_def t1_def)
    moreover have "kheap_ready (pages_st t1)" using a(7) by (simp add: pages_ok_def t1_def)
    ultimately have "heap_addr (pages_st t1) a 0 \<noteq> p" using kpages.addr_inj c by blast
    moreover have "heap_addr (pages_st t) a 0 \<noteq> r" using a(4) root(2) by auto
    ultimately show ?thesis using p(9) a(4,5) by (simp add: t1_def)
  qed
  have "B' a = Some 1" using p(16) by (auto simp: map_le_def dom_def)
  then obtain h3 where h3: "krelease kfree (heap_addr (pages_st t) a 1) t2 = Some (t2\<lparr>pages_st := h3\<rparr>)"
      "kernel_pages (B'(a := None)) 2 (t2\<lparr>pages_st := h3\<rparr>)"
    using kpages.krelease_page [OF p(17), of a 1] buf at by auto
  have "vfcreate kmalloc kfree fops r (slash # n) fl t = Some (p, t2\<lparr>pages_st := h3\<rparr>)"
  proof (rule vfcreate_name [OF name(1-3) a(1,3)])
    show "vfiles (t\<lparr>pages_st := h1\<rparr>) r = Some v" using t1(2) by (simp add: t1_def)
    show "op_create (fops (f_ops v)) = Some (\<lambda>p n fl. ramfs_create kmalloc kfree p (Some n) fl)"
      using root(4,5) by (simp add: ramfs_fileops_def)
    show "ramfs_create kmalloc kfree r (Some n) fl (t\<lparr>pages_st := h1\<rparr>) = Some (p, t2)" using p(1) by (simp add: t1_def)
    show "krelease kfree (heap_addr (pages_st t) a 0 + 1) t2 = Some (t2\<lparr>pages_st := h3\<rparr>)"
      using h3(1) kpages.addr_offset [of "pages_st t" a] by simp
  qed
  moreover have "dir_entries (t2\<lparr>pages_st := h3\<rparr>) r (cs @ [p])" using p(4) dir_entries_cong [of "t2\<lparr>pages_st := h3\<rparr>" t2] by simp
  ultimately show ?thesis using that [of p "t2\<lparr>pages_st := h3\<rparr>" v' "B'(a := None)"] p h3(2) by (simp add: t1_def)
qed

lemma fcreate_in_root:
  fixes s :: "('a mm_state_scheme, 'b) fs_state_scheme"
  assumes root: "dir_entries s (root_dir s) cs" "vfiles s (root_dir s) = Some v" "f_flags v AND FS_FILE_IS_DIR \<noteq> 0"
      "f_ops v = ramfs_ops s" "fops (ramfs_ops s) = ramfs_fileops kmalloc kfree ext"
    and room: "entry_room s v (length cs)" "4 * length cs + 8192 < 2 ^ 32"
    and name: "n \<noteq> []" "slash \<notin> set n" "length n < 76" "search_dir n (root_dir s) s = Some 0"
    and fl: "(ucast fl :: u16) AND FS_FILE_MOUNT = 0"
    and fs: "kernel_pages B 5 s" "\<not> lock (vfs_lock s)"
    and mem: "\<forall>a < heap_pages (pages_st s). mapped (fmem s) (heap_addr (pages_st s) a 0) 4096"
  shows "\<exists>p s1 B1 v1 w. fcreate kmalloc kfree fops (Some (slash # n)) fl s = Some (p, s1) \<and> p \<noteq> 0 \<and>
    dir_entries s1 (root_dir s) (cs @ [p]) \<and> \<not> lock (vfs_lock s1) \<and> root_dir s1 = root_dir s \<and>
    kernel_pages B1 (Suc (Suc 0)) s1 \<and> vfiles s1 (root_dir s) = Some v1 \<and> f_ops v1 = f_ops v \<and>
    vfiles s1 p = Some w \<and> f_flags w = ucast fl \<and> search_dir n (root_dir s) s1 = Some p"
proof -
  let ?r = "root_dir s"
  define t where "t = s\<lparr>vfs_lock := \<lparr>lock = True\<rparr>\<rparr>"
  have t: "dir_entries t ?r cs" "vfiles t ?r = Some v" "f_ops v = ramfs_ops t" "fops (ramfs_ops t) = ramfs_fileops kmalloc kfree ext"
      "entry_room t v (length cs)" "kernel_pages B (Suc (Suc (Suc 2))) t" "\<forall>a < heap_pages (pages_st t). mapped (fmem t) (heap_addr (pages_st t) a 0) 4096"
    using root room(1) fs(1) mem dir_entries_cong [of t s] unfolding five(1) by (simp_all add: t_def entry_room_def pages_ok_def)
  let ?w = "(new_vfile n fl (ramfs_ops t))\<lparr>block_size_bytes := 1\<rparr>"
  obtain p t' B' v' where vf: "vfcreate kmalloc kfree fops ?r (slash # n) fl t = Some (p, t')" and p: "p \<noteq> 0" "vfiles t p = None"
      "dir_entries t' ?r (cs @ [p])" "vfiles t' p = Some ?w"
      "vfiles t' ?r = Some v'" "f_name v' = f_name v" "f_ops v' = f_ops v" "\<forall>q. q \<noteq> ?r \<and> q \<noteq> p \<longrightarrow> vfiles t' q = vfiles t q"
      "root_dir t' = root_dir t" "kernel_pages B' 2 t'"
    by (rule vfcreate_in_root [where fops = fops and fl = fl, OF t(1,2) root(3) t(3-5) room(2) name(1-3) t(6,7)], rule that; assumption)
  define s1 where "s1 = t'\<lparr>vfs_lock := \<lparr>lock = False\<rparr>\<rparr>"
  have run: "fcreate kmalloc kfree fops (Some (slash # n)) fl s = Some (p, s1)"
    using vf fs(2) by (simp add: fcreate_def get_root_dir_def t_def s1_def lock_defs)
  have s1: "dir_entries s1 ?r (cs @ [p])" "kernel_pages B' (Suc (Suc 0)) s1" "vfiles s1 = vfiles t'" "root_dir s1 = ?r" "\<not> lock (vfs_lock s1)"
    using p(3,9,10) dir_entries_cong [of s1 t'] unfolding five(2) by (simp_all add: s1_def pages_ok_def t_def)
  have "search_dir n ?r s1 = Some p"
    using search_after_append [OF root(1,2) _ s1(1), of ?w n v' n] p(2,4-6,8) s1(3) name(4) by (simp add: new_vfile_def t_def)
  moreover have "vfiles s1 p = Some ?w" "f_flags ?w = ucast fl" using p(4) s1(3) by (simp_all add: new_vfile_def)
  ultimately show ?thesis using run p(1,5,7) s1 by metis
qed

text \<open>
  C22. A file created in the root directory is found there: \<^verbatim>\<open>fcreate\<close> of \<^verbatim>\<open>/name\<close>, where the name is
  not yet taken, returns a new file, appends it to the root directory and gives up the lock, and
  \<^verbatim>\<open>fopen\<close> of the same path returns that file.
\<close>

theorem fcreate_then_fopen:
  fixes s :: "('a mm_state_scheme, 'b) fs_state_scheme"
  assumes root: "dir_entries s (root_dir s) cs" "vfiles s (root_dir s) = Some v" "f_flags v AND FS_FILE_IS_DIR \<noteq> 0"
      "f_ops v = ramfs_ops s" "fops (ramfs_ops s) = ramfs_fileops kmalloc kfree ext"
    and room: "entry_room s v (length cs)" "4 * length cs + 8192 < 2 ^ 32"
    and name: "n \<noteq> []" "slash \<notin> set n" "length n < 76" "search_dir n (root_dir s) s = Some 0"
    and fl: "(ucast fl :: u16) AND FS_FILE_MOUNT = 0"
    and fs: "kernel_pages B 5 s" "\<not> lock (vfs_lock s)"
    and mem: "\<forall>a < heap_pages (pages_st s). mapped (fmem s) (heap_addr (pages_st s) a 0) 4096"
  shows "\<exists>p s1 s2. fcreate kmalloc kfree fops (Some (slash # n)) fl s = Some (p, s1) \<and> p \<noteq> 0 \<and>
    dir_entries s1 (root_dir s) (cs @ [p]) \<and> \<not> lock (vfs_lock s1) \<and>
    fopen fops (Some (slash # n)) s1 = Some (p, s2)"
proof -
  let ?r = "root_dir s"
  obtain p s1 B1 v1 w where s1: "fcreate kmalloc kfree fops (Some (slash # n)) fl s = Some (p, s1)" "p \<noteq> 0"
      "dir_entries s1 ?r (cs @ [p])" "\<not> lock (vfs_lock s1)" "root_dir s1 = ?r" "kernel_pages B1 (Suc (Suc 0)) s1"
      "vfiles s1 ?r = Some v1" "f_ops v1 = f_ops v" "vfiles s1 p = Some w" "f_flags w = ucast fl" "search_dir n ?r s1 = Some p"
    using fcreate_in_root [where fops = fops, OF root room name fl fs mem] by blast
  have "f_flags w AND FS_FILE_MOUNT = 0" using s1(10) fl by simp
  then have walk: "resolve_tokens ext True [n] n ?r (s1\<lparr>pages_st := h\<rparr>) = Some (p, s1\<lparr>pages_st := h\<rparr>)" for h
    using s1(2,9,11) by (simp add: Let_def)
  have "length n < 4096" "take 1024 (path_tokens (if n \<noteq> [] \<and> hd n = slash then tl n else n)) = [n]" "?r \<noteq> 0"
    using name(1-3) path_tokens_part [OF name(2)] root(1) by (auto simp: dir_entries_def dest: hd_in_set)
  then obtain h' where "resolve_path kmalloc kfree ext n ?r True s1 = Some (p, s1\<lparr>pages_st := h'\<rparr>)"
    using kpages.resolve_path_pages [OF s1(6), of n ext True ?r p] walk by auto
  then have "fopen fops (Some (slash # n)) s1 = Some (p, s1\<lparr>pages_st := h'\<rparr>)"
    using root(4,5) name(1) s1(5,7,8)
    by (simp add: fopen_def get_root_dir_def ramfs_fileops_def ramfs_rfopen_def)
  then show ?thesis using s1(1-4) by blast
qed

theorem fcreate_then_fopen_witness:
  "\<exists>p s1 s2. fcreate kmalloc kfree (\<lambda>_. ramfs_fileops kmalloc kfree (\<lambda>_. no_fileops)) (Some [47, 116, 109, 112]) 0x10 fs_example =
      Some (p, s1) \<and> p \<noteq> 0 \<and>
    fopen (\<lambda>_. ramfs_fileops kmalloc kfree (\<lambda>_. no_fileops)) (Some [47, 116, 109, 112]) s1 = Some (p, s2)"
proof -
  let ?n = "[116, 109, 112] :: u8 list"
  let ?v = "zero_vfile\<lparr>f_name := [slash], f_flags := FS_FILE_IS_DIR OR FS_FILE_SYSTEM, f_ops := 0x200\<rparr>"
  let ?fops = "\<lambda>_. ramfs_fileops kmalloc kfree (\<lambda>_. no_fileops)"
  have r: "root_dir fs_example = 0x100000" "ramfs_ops fs_example = 0x200" by (simp_all add: fs_example_def)
  have s0: "search_dir ?n 0x100000 fs_example = Some 0"
    using search_dir_entries [OF fs_example_root(1)] by (simp add: child_named_def)
  have dir: "f_flags ?v AND FS_FILE_IS_DIR \<noteq> 0" "f_ops ?v = ramfs_ops fs_example"
    "entry_room fs_example ?v (length ([] :: u32 list))" "4 * length ([] :: u32 list) + 8192 < 2 ^ 32"
    by (simp_all add: entry_room_def r)
  have name: "?n \<noteq> []" "slash \<notin> set ?n" "length ?n < 76" "(ucast (0x10 :: u32) :: u16) AND FS_FILE_MOUNT = 0" by simp_all
  have mem: "\<forall>a < heap_pages (pages_st fs_example). mapped (fmem fs_example) (heap_addr (pages_st fs_example) a 0) 4096"
    and unlocked: "\<not> lock (vfs_lock fs_example)"
    by (simp_all add: mapped_def fs_example_def)
  have pages: "kernel_pages Map.empty 5 fs_example" by (rule fs_example_pages) simp
  show ?thesis
    using fcreate_then_fopen [where fops = ?fops and ext = "\<lambda>_. no_fileops", OF fs_example_root [folded r(1)] dir(1,2) refl dir(3,4) name(1-3) s0 [folded r(1)] name(4)
        pages unlocked mem] by blast
qed

text \<open>
  A trailing slash is cut off only after the length was taken, so that the last part is opened as a
  directory instead of being created: \<^verbatim>\<open>fcreate\<close> of \<^verbatim>\<open>/name/\<close> fails unless \<^verbatim>\<open>name\<close> exists.
\<close>

lemma vfcreate_trailing_slash:
  assumes n: "n \<noteq> []" "slash \<notin> set n" "length n < 76"
    and buf: "kalloc alloc 1 s = Some (p, s1)" "p \<noteq> 0"
    and missing: "rfopen fops (Some n) d s1 = Some (0, s2)" and release: "krelease free (p + 1) s2 = Some s3"
  shows "vfcreate alloc free fops d (slash # n @ [slash]) fl s = Some (0, s3)"
proof -
  have "(Suc (Suc (length n)) + 4095) div 4096 = 1" "Suc (Suc (length n)) mod 4096 \<noteq> 0" using n(3) by simp_all
  then show ?thesis
    using assms by (subst vfcreate.simps) (simp add: Let_def takeWhile_part)
qed

end
