(* ===== verification/Partition.thy ===== *)
theory Partition
  imports Vfs
begin

text \<open>
  The partition manager module (\<^verbatim>\<open>src/kmodules/partition_mgr.c\<close>, \<^verbatim>\<open>partition_mgr.h\<close>): the partitions of a
  disk with a master boot record, and reading and writing them through the file of the disk.

  The state extends that of the virtual file system, which the module reaches through the module
  interface.  The array \<^verbatim>\<open>disk_references\<close> is kept as the parent of each of its elements, by index, and
  the partition entries, by address: \<^verbatim>\<open>private\<close> of a partition file points to its entry.  \<^verbatim>\<open>read_part\<close> and
  \<^verbatim>\<open>write_part\<close> do not return a value when they succeed; the definitions give 0 then.
\<close>

subsection \<open>Data\<close>

abbreviation (input) MAX_REFERENCES :: nat where "MAX_REFERENCES \<equiv> 32"

record partent_t =
  part_file :: u32
  start_lba :: u32
  part_sectors :: u32
  part_flags :: u32

definition zero_partent :: partent_t where
  "zero_partent = \<lparr>part_file = 0, start_lba = 0, part_sectors = 0, part_flags = 0\<rparr>"

record partition_table_entry_t =
  pt_flags :: u8
  pt_type :: u8
  lba_address :: u32
  pt_sectors :: u32

record 'h part_state = "'h fs_state" +
  disk_references :: u32
  ref_parent :: "u32 \<Rightarrow> u32"
  partents :: "u32 \<Rightarrow> partent_t"
  partition_lock :: spinlock_t
  mount_fileops :: u32

text \<open>\<^verbatim>\<open>&disk_references[i].partitions[j]\<close>: a \<^verbatim>\<open>pref_t\<close> has 2048 bytes, of which 16 precede the partitions.\<close>

definition part_ptr :: "('h, 'b) part_state_scheme \<Rightarrow> u32 \<Rightarrow> u32 \<Rightarrow> u32" where
  "part_ptr s i j = disk_references s + i * 2048 + 16 + j * 16"

subsection \<open>Reading and writing a partition\<close>

text \<open>The test compares bytes with a sum of a sector number and bytes.\<close>

definition beyond_partition :: "partent_t \<Rightarrow> u64 \<Rightarrow> u64 \<Rightarrow> bool" where
  "beyond_partition p offset cnt \<longleftrightarrow> cnt + offset > ucast (start_lba p + part_sectors p * 512)"

definition write_part ::
    "(u32 \<Rightarrow> ('h, 'b) part_state_scheme fileops_t) \<Rightarrow> u32 \<Rightarrow> u32 \<Rightarrow> u64 \<Rightarrow> u64 \<Rightarrow> ('h, 'b) part_state_scheme \<Rightarrow>
     (u32 \<times> ('h, 'b) part_state_scheme) option" where
  "write_part fops file_entry buffer offset cnt s =
     (if file_entry = 0 \<or> buffer = 0 \<or> cnt = 0 then Some (0, s)
      else do {
        v \<leftarrow> vfiles s file_entry;
        let partent = partents s (f_private v);
        let par = ref_parent s (f_id v);
        if beyond_partition partent offset cnt then Some (0, s)
        else do {
          pv \<leftarrow> vfiles s par;
          f \<leftarrow> op_write (fops (f_ops pv));
          (r, s) \<leftarrow> f par buffer (offset + ucast (start_lba partent * ucast (block_size_bytes pv))) cnt s;
          Some (0, s)
        }
      })"

definition read_part ::
    "(u32 \<Rightarrow> ('h, 'b) part_state_scheme fileops_t) \<Rightarrow> u32 \<Rightarrow> u32 \<Rightarrow> u64 \<Rightarrow> u64 \<Rightarrow> ('h, 'b) part_state_scheme \<Rightarrow>
     (u32 \<times> ('h, 'b) part_state_scheme) option" where
  "read_part fops file_entry buffer offset cnt s =
     (if file_entry = 0 \<or> buffer = 0 \<or> cnt = 0 then Some (0, s)
      else do {
        v \<leftarrow> vfiles s file_entry;
        let partent = partents s (f_private v);
        let par = ref_parent s (f_id v);
        if beyond_partition partent offset cnt then Some (0, s)
        else do {
          pv \<leftarrow> vfiles s par;
          f \<leftarrow> op_read (fops (f_ops pv));
          (r, s) \<leftarrow> f par buffer (offset + ucast (start_lba partent * ucast (block_size_bytes pv))) cnt s;
          Some (0, s)
        }
      })"

text \<open>The table of operations that \<^verbatim>\<open>init\<close> assigns to \<^verbatim>\<open>mount_fileops\<close>.\<close>

definition part_fileops :: "(u32 \<Rightarrow> ('h, 'b) part_state_scheme fileops_t) \<Rightarrow> ('h, 'b) part_state_scheme fileops_t" where
  "part_fileops fops = \<lparr>op_create = None, op_delete = None, op_write = Some (write_part fops),
     op_read = Some (read_part fops), op_close = None, op_rfopen = None\<rparr>"

subsection \<open>The partition table\<close>

definition partition_at :: "bmem \<Rightarrow> u32 \<Rightarrow> nat \<Rightarrow> partition_table_entry_t option" where
  "partition_at m mbr i = do {
     let p = mbr + 446 + of_nat i * 16;
     fl \<leftarrow> m p;
     ty \<leftarrow> m (p + 4);
     lba \<leftarrow> rd32 m (p + 8);
     n \<leftarrow> rd32 m (p + 12);
     Some \<lparr>pt_flags = fl, pt_type = ty, lba_address = lba, pt_sectors = n\<rparr>
   }"

definition mbr_sig :: "bmem \<Rightarrow> u32 \<Rightarrow> u16 option" where
  "mbr_sig m mbr = do { a \<leftarrow> m (mbr + 510); b \<leftarrow> m (mbr + 511); Some (ucast a OR push_bit 8 (ucast b)) }"

definition part_end :: "partition_table_entry_t \<Rightarrow> u32" where
  "part_end p = lba_address p + pt_sectors p"

definition overlap :: "partition_table_entry_t \<Rightarrow> partition_table_entry_t \<Rightarrow> bool" where
  "overlap a b \<longleftrightarrow> lba_address a < part_end b \<and> lba_address b < part_end a"

text \<open>The loop over the four entries: \<^verbatim>\<open>use_gpt\<close>, \<^verbatim>\<open>mbr_is_valid\<close> and \<^verbatim>\<open>found_valid_partition\<close>.\<close>

primrec mbr_scan :: "(nat \<Rightarrow> partition_table_entry_t) \<Rightarrow> nat list \<Rightarrow> bool \<Rightarrow> bool \<times> bool \<times> bool" where
  "mbr_scan tab [] found = (False, True, found)"
| "mbr_scan tab (i # is) found =
     (if pt_type (tab i) = 0xee then (True, True, found)
      else if pt_flags (tab i) \<noteq> 0 \<and> pt_flags (tab i) \<noteq> 0x80 then (False, False, found)
      else let found = (found \<or> pt_sectors (tab i) \<noteq> 0 \<and> lba_address (tab i) \<noteq> 0)
           in if list_ex (\<lambda>j. overlap (tab i) (tab j) \<and> i \<noteq> j) [0..<4] then (False, False, found)
              else mbr_scan tab is found)"

text \<open>The decision of \<^verbatim>\<open>detect_partitions\<close> about a table: 0, or the error it returns.\<close>

definition mbr_check :: "(nat \<Rightarrow> partition_table_entry_t) \<Rightarrow> int" where
  "mbr_check tab = (case mbr_scan tab [0..<4] False of (use_gpt, mbr_is_valid, found_valid_partition) \<Rightarrow>
     if \<not> mbr_is_valid \<or> \<not> found_valid_partition then - 1 else if use_gpt then - 2 else 0)"

text \<open>
  The loop that makes a file for each partition.  Its name is \<^verbatim>\<open>/dev/disk/\<close>, the name of the disk, \<^verbatim>\<open>p\<close> and the
  number, which has one digit; the page for the name is not freed.
\<close>

definition dev_disk :: "u8 list" where
  "dev_disk = [47, 100, 101, 118, 47, 100, 105, 115, 107, 47]"

primrec make_partitions ::
    "'h allocator \<Rightarrow> (u32 \<Rightarrow> 'h \<Rightarrow> 'h option) \<Rightarrow> (u32 \<Rightarrow> ('h, 'b) part_state_scheme fileops_t) \<Rightarrow> u8 list \<Rightarrow> u32 \<Rightarrow>
     partition_table_entry_t list \<Rightarrow> nat \<Rightarrow> ('h, 'b) part_state_scheme \<Rightarrow> ('h, 'b) part_state_scheme option" where
  "make_partitions alloc free fops diskname index [] partition_count s = Some s"
| "make_partitions alloc free fops diskname index (p # ps) partition_count s =
     (if pt_sectors p = 0 then make_partitions alloc free fops diskname index ps partition_count s
      else do {
        (fname, s) \<leftarrow> kalloc alloc 1 s;
        if fname = 0 then None
        else do {
          (new_file, s) \<leftarrow> fcreate alloc free fops (Some (dev_disk @ diskname @ [112, 48 + of_nat partition_count]))
                              (ucast FS_FILE_MOUNT) s;
          let q = part_ptr s index (of_nat partition_count);
          s \<leftarrow> upd_vfile new_file (\<lambda>v. v\<lparr>f_size := ucast (pt_sectors p), f_offset := of_nat partition_count, f_id := index,
                 f_private := q, f_ops := mount_fileops s\<rparr>) s;
          let s = s\<lparr>partents := (partents s)(q := (partents s q)\<lparr>part_file := new_file, part_sectors := pt_sectors p,
                 start_lba := lba_address p\<rparr>)\<rparr>;
          make_partitions alloc free fops diskname index ps (partition_count + 1) s
        }
      })"

definition detect_partitions ::
    "'h allocator \<Rightarrow> (u32 \<Rightarrow> 'h \<Rightarrow> 'h option) \<Rightarrow> (u32 \<Rightarrow> ('h, 'b) part_state_scheme fileops_t) \<Rightarrow> u32 \<Rightarrow> u32 \<Rightarrow>
     ('h, 'b) part_state_scheme \<Rightarrow> (int \<times> ('h, 'b) part_state_scheme) option" where
  "detect_partitions alloc free fops file index s =
     (if file = 0 then Some (0, s)
      else do {
        (mbr, s) \<leftarrow> kalloc alloc 1 s;
        (r, s) \<leftarrow> fread fops file mbr 0 512 s;
        sig \<leftarrow> mbr_sig (fmem s) mbr;
        if sig \<noteq> 0xaa55 then do { s \<leftarrow> krelease free mbr s; Some (- 1, s) }
        else do {
          p0 \<leftarrow> partition_at (fmem s) mbr 0;
          p1 \<leftarrow> partition_at (fmem s) mbr 1;
          p2 \<leftarrow> partition_at (fmem s) mbr 2;
          p3 \<leftarrow> partition_at (fmem s) mbr 3;
          let r = mbr_check ((!) [p0, p1, p2, p3]);
          if r \<noteq> 0 then do { s \<leftarrow> krelease free mbr s; Some (r, s) }
          else do {
            v \<leftarrow> vfiles s file;
            s \<leftarrow> make_partitions alloc free fops (f_name v) index [p0, p1, p2, p3] 0 s;
            s \<leftarrow> krelease free mbr s;
            Some (0, s)
          }
        }
      })"

subsection \<open>Devices that come and go\<close>

definition clear_reference :: "u32 \<Rightarrow> ('h, 'b) part_state_scheme \<Rightarrow> ('h, 'b) part_state_scheme" where
  "clear_reference i s = s\<lparr>ref_parent := (ref_parent s)(i := 0),
     partents := (\<lambda>q. if \<exists>j\<in>{0..<127}. q = part_ptr s i (of_nat j) then zero_partent else partents s q)\<rparr>"

definition device_add ::
    "'h allocator \<Rightarrow> (u32 \<Rightarrow> 'h \<Rightarrow> 'h option) \<Rightarrow> (u32 \<Rightarrow> ('h, 'b) part_state_scheme fileops_t) \<Rightarrow> u32 \<Rightarrow>
     ('h, 'b) part_state_scheme \<Rightarrow> ('h, 'b) part_state_scheme option" where
  "device_add alloc free fops file s = do {
     l \<leftarrow> spinlock_acquire (partition_lock s);
     let s = s\<lparr>partition_lock := l\<rparr>;
     s \<leftarrow> (case find (\<lambda>i. ref_parent s (of_nat i) = 0) [0..<MAX_REFERENCES] of
            None \<Rightarrow> Some s
          | Some i \<Rightarrow> do {
              let s = s\<lparr>ref_parent := (ref_parent s)(of_nat i := file)\<rparr>;
              (result, s) \<leftarrow> detect_partitions alloc free fops file (of_nat i) s;
              Some (if result \<noteq> 0 then clear_reference (of_nat i) s else s)
            });
     Some (s\<lparr>partition_lock := spinlock_release (partition_lock s)\<rparr>)
   }"

text \<open>
  The loop of \<^verbatim>\<open>device_remove\<close> over the partitions of a disk; the first argument counts the rounds left.
  \<^verbatim>\<open>MODULE_API_DELET\<close> expects a second argument that the call does not pass; partition files have no
  operation to delete a child, so that \<^verbatim>\<open>fdelete\<close> does not look at it.
\<close>

primrec remove_partitions ::
    "(u32 \<Rightarrow> ('h, 'b) part_state_scheme fileops_t) \<Rightarrow> u32 \<Rightarrow> nat \<Rightarrow> nat \<Rightarrow> ('h, 'b) part_state_scheme \<Rightarrow>
     ('h, 'b) part_state_scheme option" where
  "remove_partitions fops i 0 j s = Some s"
| "remove_partitions fops i (Suc n) j s = do {
     let q = part_ptr s i (of_nat j);
     if part_file (partents s q) = 0 then Some s
     else do {
       (r, s) \<leftarrow> fdelete fops (part_file (partents s q)) None s;
       remove_partitions fops i n (j + 1) (s\<lparr>partents := (partents s)(q := zero_partent)\<rparr>)
     }
   }"

definition device_remove ::
    "(u32 \<Rightarrow> ('h, 'b) part_state_scheme fileops_t) \<Rightarrow> u32 \<Rightarrow> ('h, 'b) part_state_scheme \<Rightarrow> ('h, 'b) part_state_scheme option" where
  "device_remove fops file s = do {
     l \<leftarrow> spinlock_acquire (partition_lock s);
     let s = s\<lparr>partition_lock := l\<rparr>;
     s \<leftarrow> (case find (\<lambda>i. ref_parent s (of_nat i) = file) [0..<MAX_REFERENCES] of
            None \<Rightarrow> Some s
          | Some i \<Rightarrow> do { s \<leftarrow> remove_partitions fops (of_nat i) 128 0 s; Some (clear_reference (of_nat i) s) });
     Some (s\<lparr>partition_lock := spinlock_release (partition_lock s)\<rparr>)
   }"

text \<open>Messages, with the numbers of the enumeration in \<^verbatim>\<open>modlib.h\<close>.\<close>

abbreviation (input) PART_MESSAGE_DEVICE_ADD :: u32 where "PART_MESSAGE_DEVICE_ADD \<equiv> 4"
abbreviation (input) PART_MESSAGE_DEVICE_REMOVE :: u32 where "PART_MESSAGE_DEVICE_REMOVE \<equiv> 5"

definition part_message_handler ::
    "'h allocator \<Rightarrow> (u32 \<Rightarrow> 'h \<Rightarrow> 'h option) \<Rightarrow> (u32 \<Rightarrow> ('h, 'b) part_state_scheme fileops_t) \<Rightarrow> u32 \<Rightarrow> u32 \<Rightarrow>
     ('h, 'b) part_state_scheme \<Rightarrow> (int \<times> ('h, 'b) part_state_scheme) option" where
  "part_message_handler alloc free fops message file s = do {
     s \<leftarrow> (if message = PART_MESSAGE_DEVICE_ADD then device_add alloc free fops file s
          else if message = PART_MESSAGE_DEVICE_REMOVE then device_remove fops file s
          else Some s);
     Some (- 1, s)
   }"

subsection \<open>Which tables are accepted\<close>

definition good_entry :: "(nat \<Rightarrow> partition_table_entry_t) \<Rightarrow> nat \<Rightarrow> bool" where
  "good_entry tab i \<longleftrightarrow> pt_type (tab i) \<noteq> 0xee \<and> (pt_flags (tab i) = 0 \<or> pt_flags (tab i) = 0x80) \<and>
     (\<forall>j<4. i \<noteq> j \<longrightarrow> \<not> overlap (tab i) (tab j))"

definition used_entry :: "(nat \<Rightarrow> partition_table_entry_t) \<Rightarrow> nat \<Rightarrow> bool" where
  "used_entry tab i \<longleftrightarrow> pt_sectors (tab i) \<noteq> 0 \<and> lba_address (tab i) \<noteq> 0"

text \<open>The sectors of an entry.\<close>

definition sectors :: "partition_table_entry_t \<Rightarrow> nat set" where
  "sectors p = {unat (lba_address p) ..< unat (lba_address p) + unat (pt_sectors p)}"

definition fits :: "partition_table_entry_t \<Rightarrow> bool" where
  "fits p \<longleftrightarrow> unat (lba_address p) + unat (pt_sectors p) < 2 ^ 32"

lemma mbr_scan_good:
  assumes "mbr_scan tab is found = (g, v, f)"
  shows "v \<and> \<not> g \<longleftrightarrow> (\<forall>i\<in>set is. good_entry tab i)"
    and "v \<Longrightarrow> \<not> g \<Longrightarrow> f \<longleftrightarrow> found \<or> (\<exists>i\<in>set is. used_entry tab i)"
  using assms
proof (induction "is" arbitrary: found)
  case (Cons i "is")
  {
    case 1
    then show ?case using Cons.IH(1) by (auto simp: good_entry_def Let_def list_ex_iff split: if_splits)
  next
    case 2
    then show ?case using Cons.IH(2) by (auto simp: used_entry_def Let_def split: if_splits)
  }
qed auto

lemma mbr_check_0:
  "mbr_check tab = 0 \<longleftrightarrow> (\<forall>i<4. good_entry tab i) \<and> (\<exists>i<4. used_entry tab i)"
proof -
  obtain g v f where r: "mbr_scan tab [0..<4] False = (g, v, f)" by (metis prod_cases3)
  have "mbr_check tab = 0 \<longleftrightarrow> v \<and> f \<and> \<not> g" by (auto simp: mbr_check_def r)
  also have "\<dots> \<longleftrightarrow> (\<forall>i<4. good_entry tab i) \<and> (\<exists>i<4. used_entry tab i)"
    using mbr_scan_good [OF r] by (auto simp: atLeast0LessThan)
  finally show ?thesis .
qed

lemma overlap_sectors:
  assumes "fits a" "fits b" "pt_sectors a \<noteq> 0" "pt_sectors b \<noteq> 0"
  shows "overlap a b \<longleftrightarrow> sectors a \<inter> sectors b \<noteq> {}"
proof -
  have e: "unat (part_end p) = unat (lba_address p) + unat (pt_sectors p)" if "fits p" for p
    using that unfolding part_end_def fits_def by (intro unat_add_lt) simp
  have z: "0 < unat (pt_sectors a)" "0 < unat (pt_sectors b)" using assms by (simp_all add: unat_gt_0)
  have "(sectors a \<inter> sectors b \<noteq> {}) \<longleftrightarrow> unat (lba_address a) < unat (lba_address b) + unat (pt_sectors b) \<and>
      unat (lba_address b) < unat (lba_address a) + unat (pt_sectors a)"
    using z by (auto simp: sectors_def disjoint_iff intro: exI [of _ "max (unat (lba_address a)) (unat (lba_address b))"])
  then show ?thesis using e assms by (simp add: overlap_def word_less_nat_alt)
qed

text \<open>
  A table as partitioning tools write it: every entry ends below sector \<open>2 ^ 32\<close>, and an entry without sectors is empty.
\<close>

definition plain_table :: "(nat \<Rightarrow> partition_table_entry_t) \<Rightarrow> bool" where
  "plain_table tab \<longleftrightarrow> (\<forall>i<4. fits (tab i) \<and> (pt_sectors (tab i) = 0 \<longrightarrow> lba_address (tab i) = 0))"

lemma overlap_plain:
  assumes "plain_table tab" "i < 4" "j < 4"
  shows "overlap (tab i) (tab j) \<longleftrightarrow> sectors (tab i) \<inter> sectors (tab j) \<noteq> {}"
proof (cases "pt_sectors (tab i) = 0 \<or> pt_sectors (tab j) = 0")
  case True
  then show ?thesis using assms by (auto simp: plain_table_def overlap_def part_end_def sectors_def)
next
  case False
  then show ?thesis using assms overlap_sectors by (auto simp: plain_table_def)
qed


definition mbr_example :: "nat \<Rightarrow> partition_table_entry_t" where
  "mbr_example i = (if i = 0 then \<lparr>pt_flags = 0x80, pt_type = 0xc, lba_address = 2048, pt_sectors = 4096\<rparr>
     else if i = 1 then \<lparr>pt_flags = 0, pt_type = 0xc, lba_address = 6144, pt_sectors = 1000\<rparr>
     else \<lparr>pt_flags = 0, pt_type = 0, lba_address = 0, pt_sectors = 0\<rparr>)"


text \<open>A disk with a GPT has a protective entry first: it is rejected as invalid, not as unsupported.\<close>

lemma protective_mbr_invalid: "pt_type (tab 0) = 0xee \<Longrightarrow> mbr_check tab = - 1"
  by (simp add: mbr_check_def upt_rec)

end
