(* ===== verification/FatTable.thy ===== *)
theory FatTable
  imports Partition
begin

text \<open>
  The file allocation table of the FAT32 module (\<^verbatim>\<open>src/kmodules/fs_driver.c\<close>, \<^verbatim>\<open>fs_driver.h\<close>): the
  window of the table that the driver keeps in memory, its write-back, the lookup and the update of
  an entry and the search for a free cluster.

  The state extends that of the virtual file system and of the partition manager: the calls \<^verbatim>\<open>fread(api, ...)\<close>, \<^verbatim>\<open>fwrite(api, ...)\<close> and
  \<^verbatim>\<open>malloc(api, ...)\<close> of the module go through the module interface to \<open>fread\<close>, \<open>fwrite\<close> of \<open>Vfs\<close> and to
  the page allocator.  The cached window is bytes of the address space at \<^verbatim>\<open>fat_cache\<close>.  Structures
  that are only reached through a pointer are objects in stores, as the \<^verbatim>\<open>vfile_t\<close> are.

  The locale \<open>mounted_disk\<close> states what the driver relies on from the file a volume is mounted from;
  the lemmas show that the cached table behaves as one array of entries, whatever is cached.
\<close>

subsection \<open>Data\<close>

abbreviation (input) FAT32_EOC_MIN :: u32 where "FAT32_EOC_MIN \<equiv> 0x0FFFFFF8"
abbreviation (input) FAT32_EOC :: u32 where "FAT32_EOC \<equiv> 0x0FFFFFFF"
abbreviation (input) FAT_CACHE_SIZE_ENTRIES :: u32 where "FAT_CACHE_SIZE_ENTRIES \<equiv> 16384"
abbreviation (input) MAX_MOUNT_COUNT :: u32 where "MAX_MOUNT_COUNT \<equiv> 64"

record fat32_bpb_t =
  bytes_per_sector :: u16
  sectors_per_cluster :: u8
  reserved_sectors :: u16
  fat_count :: u8
  sectors_small :: u16
  sector_count :: u32
  sectors_per_fat :: u32
  root_dir_cluster :: u32
  fsinfo_sector :: u16
  bpb_signature :: u8

record fsinfo_t =
  lead_sig :: u32
  sig2 :: u32
  fsinfo_free_count :: u32
  first_free_cluster :: u32
  trail_sig :: u32

record fat_mount_t =
  bpb :: u32
  mount_src :: u32
  cache_dirty :: bool
  m_spinlock :: spinlock_t
  last_free_cluster_count :: u32
  fat_search_start :: u32
  max_clusters :: u32
  fat_start_sector :: u32
  data_start_sector :: u32
  fat_cache_start :: u32
  fat_cache_size :: u32
  fat_cache :: u32

record fat_open_file_t =
  of_filename :: "u8 list"
  of_refcount :: u32
  mount_index :: u32
  first_cluster :: u32
  size_clusters :: u32
  size_bytes :: u32
  file_flags :: u32
  dirent_cluster :: u32
  dirent_offset :: u32

record 'h fat_state = "'h part_state" +
  fat32_mounts :: "u32 \<Rightarrow> fat_mount_t"
  bpbs :: "u32 \<Rightarrow> fat32_bpb_t option"
  open_files :: "u32 \<Rightarrow> fat_open_file_t option"
  first_free_open_file_index :: u32
  open_file_cache_size :: u32
  open_file_cache :: u32
  fat32_ops :: u32

text \<open>Access to the array of mounts, which has 64 elements.\<close>

definition mount_at :: "u32 \<Rightarrow> ('h, 'b) fat_state_scheme \<Rightarrow> fat_mount_t option" where
  "mount_at i s = (if i < MAX_MOUNT_COUNT then Some (fat32_mounts s i) else None)"

definition upd_mount :: "u32 \<Rightarrow> (fat_mount_t \<Rightarrow> fat_mount_t) \<Rightarrow> ('h, 'b) fat_state_scheme \<Rightarrow> ('h, 'b) fat_state_scheme option" where
  "upd_mount i f s = (if i < MAX_MOUNT_COUNT
     then Some (s\<lparr>fat32_mounts := (fat32_mounts s)(i := f (fat32_mounts s i))\<rparr>) else None)"

definition bpb_of :: "fat_mount_t \<Rightarrow> ('h, 'b) fat_state_scheme \<Rightarrow> fat32_bpb_t option" where
  "bpb_of mt s = bpbs s (bpb mt)"

subsection \<open>Operations\<close>

definition fat32_check_valid :: "fat32_bpb_t \<Rightarrow> bool" where
  "fat32_check_valid b \<longleftrightarrow> bpb_signature b = 0x28 \<or> bpb_signature b = 0x29"

definition fat32_check_fsinfo :: "fsinfo_t \<Rightarrow> bool" where
  "fat32_check_fsinfo info \<longleftrightarrow>
     lead_sig info = 0x41615252 \<and> sig2 info = 0x61417272 \<and> trail_sig info = 0xAA550000"

definition translate_fat32_flags_to_vfile :: "u32 \<Rightarrow> u32" where
  "translate_fat32_flags_to_vfile fat32_flags = fat32_flags AND 0x37"

definition translate_vfile_flags_to_fat32 :: "u32 \<Rightarrow> u32" where
  "translate_vfile_flags_to_fat32 vfile_flags = vfile_flags AND 0x3f"

text \<open>The argument \<^verbatim>\<open>size\<close> of \<^verbatim>\<open>recache_fat32_table\<close> is not used by the source.\<close>

definition recache_fat32_table ::
    "'h allocator \<Rightarrow> (u32 \<Rightarrow> ('h, 'b) fat_state_scheme fileops_t) \<Rightarrow> u32 \<Rightarrow> u32 \<Rightarrow>
     ('h, 'b) fat_state_scheme \<Rightarrow> ('h, 'b) fat_state_scheme option" where
  "recache_fat32_table alloc fops index mi s = do {
     mt \<leftarrow> mount_at mi s;
     let new_allocation = (fat_cache mt = 0);
     s \<leftarrow> (if new_allocation
          then do {
            (p, s) \<leftarrow> kalloc alloc ((FAT_CACHE_SIZE_ENTRIES * 4 + PAGE_SIZE_BYTES - 1) div PAGE_SIZE_BYTES) s;
            upd_mount mi (\<lambda>mt. mt\<lparr>fat_cache := p\<rparr>) s
          }
          else Some s);
     mt \<leftarrow> mount_at mi s;
     let min_fat_index = fat_cache_start mt;
     src \<leftarrow> vfiles s (mount_src mt);
     let fat_start = fat_start_sector mt * ucast (block_size_bytes src);
     s \<leftarrow> (if \<not> new_allocation \<and> cache_dirty mt
          then do {
            (r, s) \<leftarrow> fwrite fops (mount_src mt) (fat_cache mt) (ucast (fat_start + min_fat_index * 4))
                        (ucast (FAT_CACHE_SIZE_ENTRIES * 4)) s;
            Some s
          }
          else Some s);
     let min_fat_index = index AND - FAT_CACHE_SIZE_ENTRIES;
     s \<leftarrow> upd_mount mi (\<lambda>mt. mt\<lparr>fat_cache_start := min_fat_index,
            fat_cache_size := FAT_CACHE_SIZE_ENTRIES, cache_dirty := False\<rparr>) s;
     (r, s) \<leftarrow> fread fops (mount_src mt) (fat_cache mt) (ucast (fat_start + min_fat_index * 4))
                 (ucast (FAT_CACHE_SIZE_ENTRIES * 4)) s;
     Some s
   }"

definition fat32_check_bounds :: "u32 \<Rightarrow> fat_mount_t \<Rightarrow> bool" where
  "fat32_check_bounds index mt \<longleftrightarrow>
     fat_cache_size mt \<noteq> 0 \<and>
     \<not> (index < fat_cache_start mt \<or> index \<ge> fat_cache_start mt + fat_cache_size mt)"

definition fat32_set_next_cluster ::
    "'h allocator \<Rightarrow> (u32 \<Rightarrow> ('h, 'b) fat_state_scheme fileops_t) \<Rightarrow> u32 \<Rightarrow> u32 \<Rightarrow> u32 \<Rightarrow>
     ('h, 'b) fat_state_scheme \<Rightarrow> ('h, 'b) fat_state_scheme option" where
  "fat32_set_next_cluster alloc fops index v mi s = do {
     mt \<leftarrow> mount_at mi s;
     s \<leftarrow> (if \<not> fat32_check_bounds index mt then recache_fat32_table alloc fops index mi s else Some s);
     s \<leftarrow> upd_mount mi (\<lambda>mt. mt\<lparr>cache_dirty := True\<rparr>) s;
     mt \<leftarrow> mount_at mi s;
     m \<leftarrow> wr32 (fat_cache mt + (index - fat_cache_start mt) * 4) v (fmem s);
     upd_mount mi (\<lambda>mt. mt\<lparr>fat_search_start := index\<rparr>) (s\<lparr>fmem := m\<rparr>)
   }"

definition fat32_get_next_cluster ::
    "'h allocator \<Rightarrow> (u32 \<Rightarrow> ('h, 'b) fat_state_scheme fileops_t) \<Rightarrow> u32 \<Rightarrow> u32 \<Rightarrow>
     ('h, 'b) fat_state_scheme \<Rightarrow> (u32 \<times> ('h, 'b) fat_state_scheme) option" where
  "fat32_get_next_cluster alloc fops index mi s = do {
     mt \<leftarrow> mount_at mi s;
     s \<leftarrow> (if \<not> fat32_check_bounds index mt then recache_fat32_table alloc fops index mi s else Some s);
     mt \<leftarrow> mount_at mi s;
     v \<leftarrow> rd32 (fmem s) (fat_cache mt + (index - fat_cache_start mt) * 4);
     Some (v, s)
   }"

text \<open>The loop of \<^verbatim>\<open>fat32_get_free_cluster\<close>.\<close>

function free_cluster_scan ::
    "'h allocator \<Rightarrow> (u32 \<Rightarrow> ('h, 'b) fat_state_scheme fileops_t) \<Rightarrow> u32 \<Rightarrow> u32 \<Rightarrow> u32 \<Rightarrow>
     ('h, 'b) fat_state_scheme \<Rightarrow> (u32 \<times> ('h, 'b) fat_state_scheme) option" where
  "free_cluster_scan alloc fops mi entry_count i s =
     (if i < entry_count
      then do {
        (v, s) \<leftarrow> fat32_get_next_cluster alloc fops i mi s;
        if v = 0 then do { s \<leftarrow> upd_mount mi (\<lambda>mt. mt\<lparr>fat_search_start := i\<rparr>) s; Some (i, s) }
        else free_cluster_scan alloc fops mi entry_count (i + 1) s
      }
      else Some (0, s))"
  by pat_completeness auto
termination
  by (relation "measure (\<lambda>(alloc, fops, mi, entry_count, i, s). unat entry_count - unat i)")
    (simp_all add: word_loop_measure)

declare free_cluster_scan.simps [simp del]

definition fat_entry_count :: "fat32_bpb_t \<Rightarrow> u32 option" where
  "fat_entry_count b =
     (if sectors_per_cluster b = 0 then None
      else Some ((sector_count b - ucast (reserved_sectors b) - ucast (fat_count b) * sectors_per_fat b)
             div ucast (sectors_per_cluster b)))"

definition fat32_get_free_cluster ::
    "'h allocator \<Rightarrow> (u32 \<Rightarrow> ('h, 'b) fat_state_scheme fileops_t) \<Rightarrow> u32 \<Rightarrow>
     ('h, 'b) fat_state_scheme \<Rightarrow> (u32 \<times> ('h, 'b) fat_state_scheme) option" where
  "fat32_get_free_cluster alloc fops mi s = do {
     mt \<leftarrow> mount_at mi s;
     b \<leftarrow> bpb_of mt s;
     entry_count \<leftarrow> fat_entry_count b;
     free_cluster_scan alloc fops mi entry_count (fat_search_start mt) s
   }"

subsection \<open>The disk a volume is mounted from\<close>

text \<open>
  \<open>keeps s s'\<close>: nothing but memory and the state of device drivers differs.
\<close>

definition keeps :: "('h, 'b) fat_state_scheme \<Rightarrow> ('h, 'b) fat_state_scheme \<Rightarrow> bool" where
  "keeps s s' \<longleftrightarrow> pages_st s' = pages_st s \<and> vfiles s' = vfiles s \<and> root_dir s' = root_dir s \<and>
     ramfs_ops s' = ramfs_ops s \<and> vfs_lock s' = vfs_lock s \<and>
     disk_references s' = disk_references s \<and> ref_parent s' = ref_parent s \<and> partents s' = partents s \<and>
     partition_lock s' = partition_lock s \<and> mount_fileops s' = mount_fileops s \<and>
     fat32_mounts s' = fat32_mounts s \<and> bpbs s' = bpbs s \<and> open_files s' = open_files s \<and>
     first_free_open_file_index s' = first_free_open_file_index s \<and>
     open_file_cache_size s' = open_file_cache_size s \<and> open_file_cache s' = open_file_cache s \<and>
     fat32_ops s' = fat32_ops s"

text \<open>What drivers below a volume may keep: the partitions, the files of other disks and their own state.\<close>

definition same_devices :: "('h, 'b) fat_state_scheme \<Rightarrow> ('h, 'b) fat_state_scheme \<Rightarrow> bool" where
  "same_devices s s' \<longleftrightarrow> ref_parent s' = ref_parent s \<and> partents s' = partents s \<and>
     (\<forall>i. vfiles s' (ref_parent s i) = vfiles s (ref_parent s i)) \<and> fat_state.more s' = fat_state.more s"

text \<open>
  What the driver relies on from the file \<open>src\<close>: it holds \<open>dsize\<close> bytes \<open>disk\<close>, keeps them in (and only
  changes) addresses it owns, reads give those bytes and writes replace them, and nothing the driver
  does to its own data or to other memory changes them.
\<close>

locale mounted_disk =
  fixes fops :: "u32 \<Rightarrow> ('h, 'b) fat_state_scheme fileops_t"
    and src :: u32
    and disk :: "('h, 'b) fat_state_scheme \<Rightarrow> nat \<Rightarrow> u8"
    and dsize :: "('h, 'b) fat_state_scheme \<Rightarrow> nat"
    and owned :: "('h, 'b) fat_state_scheme \<Rightarrow> u32 \<Rightarrow> bool"
    and ok :: "('h, 'b) fat_state_scheme \<Rightarrow> bool"
  assumes read_law: "ok s \<Longrightarrow> buf \<noteq> 0 \<Longrightarrow> 0 < n \<Longrightarrow> unat n < 2 ^ 32 \<Longrightarrow> unat off + unat n \<le> dsize s \<Longrightarrow>
      mapped (fmem s) buf (unat n) \<Longrightarrow> \<forall>i<unat n. \<not> owned s (buf + of_nat i) \<Longrightarrow>
      \<exists>r s'. fread fops src buf off n s = Some (r, s') \<and> keeps s s' \<and> ok s' \<and> disk s' = disk s \<and>
        dsize s' = dsize s \<and> owned s' = owned s \<and>
        (\<forall>a. \<not> owned s a \<longrightarrow> fmem s' a = overlay buf (unat n) (\<lambda>i. disk s (unat off + i)) (fmem s) a)"
    and write_law: "ok s \<Longrightarrow> buf \<noteq> 0 \<Longrightarrow> 0 < n \<Longrightarrow> unat n < 2 ^ 32 \<Longrightarrow> unat off + unat n \<le> dsize s \<Longrightarrow>
      mapped (fmem s) buf (unat n) \<Longrightarrow> \<forall>i<unat n. \<not> owned s (buf + of_nat i) \<Longrightarrow>
      \<exists>r s'. fwrite fops src buf off n s = Some (r, s') \<and> keeps s s' \<and> ok s' \<and>
        disk s' = (\<lambda>k. if unat off \<le> k \<and> k < unat off + unat n
                       then the (fmem s (buf + of_nat (k - unat off))) else disk s k) \<and>
        dsize s' = dsize s \<and> owned s' = owned s \<and> (\<forall>a. \<not> owned s a \<longrightarrow> fmem s' a = fmem s a)"
    and stable: "ok s \<Longrightarrow> vfiles s' src = vfiles s src \<Longrightarrow> same_devices s s' \<Longrightarrow>
      \<forall>a. owned s a \<longrightarrow> fmem s' a = fmem s a \<Longrightarrow>
      ok s' \<and> disk s' = disk s \<and> dsize s' = dsize s \<and> owned s' = owned s"

subsection \<open>The table as an array\<close>

definition le32 :: "(nat \<Rightarrow> u8) \<Rightarrow> nat \<Rightarrow> u32" where
  "le32 f k = ucast (f k) OR push_bit 8 (ucast (f (k + 1))) OR push_bit 16 (ucast (f (k + 2))) OR
     push_bit 24 (ucast (f (k + 3)))"

definition fat_base :: "u32 \<Rightarrow> ('h, 'b) fat_state_scheme \<Rightarrow> nat" where
  "fat_base mi s = (let mt = fat32_mounts s mi in
     unat (fat_start_sector mt) * unat (block_size_bytes (the (vfiles s (mount_src mt)))))"

text \<open>Byte \<open>k\<close> of the table: cached, or on the disk; and entry \<open>i\<close>.\<close>

definition fat_byte :: "(('h, 'b) fat_state_scheme \<Rightarrow> nat \<Rightarrow> u8) \<Rightarrow> u32 \<Rightarrow> ('h, 'b) fat_state_scheme \<Rightarrow> nat \<Rightarrow> u8" where
  "fat_byte disk mi s k = (let mt = fat32_mounts s mi; st = 4 * unat (fat_cache_start mt) in
     if fat_cache_size mt \<noteq> 0 \<and> st \<le> k \<and> k < st + 65536
     then the (fmem s (fat_cache mt + of_nat (k - st))) else disk s (fat_base mi s + k))"

definition fat_entry :: "(('h, 'b) fat_state_scheme \<Rightarrow> nat \<Rightarrow> u8) \<Rightarrow> u32 \<Rightarrow> ('h, 'b) fat_state_scheme \<Rightarrow> u32 \<Rightarrow> u32" where
  "fat_entry disk mi s i = le32 (fat_byte disk mi s) (4 * unat i)"

text \<open>The buffer of the window, allocated at the first use of the table.\<close>

definition cache_ptr :: "'h allocator \<Rightarrow> u32 \<Rightarrow> ('h, 'b) fat_state_scheme \<Rightarrow> u32" where
  "cache_ptr alloc mi s = (let mt = fat32_mounts s mi in
     if fat_cache mt = 0 then fst (the (alloc 16 (pages_st s))) else fat_cache mt)"

definition fat_ok ::
    "(('h, 'b) fat_state_scheme \<Rightarrow> nat \<Rightarrow> u8) \<Rightarrow> (('h, 'b) fat_state_scheme \<Rightarrow> nat) \<Rightarrow>
     (('h, 'b) fat_state_scheme \<Rightarrow> u32 \<Rightarrow> bool) \<Rightarrow> (('h, 'b) fat_state_scheme \<Rightarrow> bool) \<Rightarrow> u32 \<Rightarrow>
     'h allocator \<Rightarrow> u32 \<Rightarrow> nat \<Rightarrow> ('h, 'b) fat_state_scheme \<Rightarrow> bool" where
  "fat_ok disk dsize owned ok src alloc mi N s \<longleftrightarrow>
     (let mt = fat32_mounts s mi; p = cache_ptr alloc mi s in
      mi < MAX_MOUNT_COUNT \<and> ok s \<and> mount_src mt = src \<and> vfiles s src \<noteq> None \<and>
      N mod 16384 = 0 \<and> fat_base mi s + 4 * N \<le> dsize s \<and> fat_base mi s + 4 * N < 2 ^ 32 \<and>
      p \<noteq> 0 \<and> mapped (fmem s) p 65536 \<and> (\<forall>i<65536. \<not> owned s (p + of_nat i)) \<and>
      (fat_cache mt = 0 \<longrightarrow> fat_cache_size mt = 0 \<and> alloc 16 (pages_st s) \<noteq> None) \<and>
      (fat_cache mt \<noteq> 0 \<longrightarrow> fat_cache_size mt = 16384 \<and> unat (fat_cache_start mt) mod 16384 = 0 \<and>
         unat (fat_cache_start mt) + 16384 \<le> N \<and>
         (\<not> cache_dirty mt \<longrightarrow>
            (\<forall>i<65536. fmem s (p + of_nat i) = Some (disk s (fat_base mi s + 4 * unat (fat_cache_start mt) + i))))))"

text \<open>The fields of a mount that operations on the table do not assign.\<close>

definition mount_rest :: "fat_mount_t \<Rightarrow> fat_mount_t" where
  "mount_rest mt = mt\<lparr>fat_cache := 0, fat_cache_start := 0, fat_cache_size := 0, cache_dirty := False,
     fat_search_start := 0\<rparr>"

text \<open>
  What an operation on the volume leaves alone: everything but memory, the table on the disk and the
  fields of the mount that describe the window and the search; an operation on the table itself
  leaves all memory but the window alone, too.
\<close>

definition fat_same ::
    "(('h, 'b) fat_state_scheme \<Rightarrow> nat \<Rightarrow> u8) \<Rightarrow> (('h, 'b) fat_state_scheme \<Rightarrow> nat) \<Rightarrow>
     (('h, 'b) fat_state_scheme \<Rightarrow> u32 \<Rightarrow> bool) \<Rightarrow> 'h allocator \<Rightarrow> u32 \<Rightarrow> nat \<Rightarrow>
     ('h, 'b) fat_state_scheme \<Rightarrow> ('h, 'b) fat_state_scheme \<Rightarrow> bool" where
  "fat_same disk dsize owned alloc mi N s s' \<longleftrightarrow>
     cache_ptr alloc mi s' = cache_ptr alloc mi s \<and> fat_base mi s' = fat_base mi s \<and>
     dsize s' = dsize s \<and> owned s' = owned s \<and> vfiles s' = vfiles s \<and> bpbs s' = bpbs s \<and>
     open_files s' = open_files s \<and>
     (\<forall>j. j \<noteq> mi \<longrightarrow> fat32_mounts s' j = fat32_mounts s j) \<and>
     mount_rest (fat32_mounts s' mi) = mount_rest (fat32_mounts s mi) \<and>
     (\<forall>k. k < fat_base mi s \<or> fat_base mi s + 4 * N \<le> k \<longrightarrow> disk s' k = disk s k)"

definition fat_frame ::
    "(('h, 'b) fat_state_scheme \<Rightarrow> nat \<Rightarrow> u8) \<Rightarrow> (('h, 'b) fat_state_scheme \<Rightarrow> nat) \<Rightarrow>
     (('h, 'b) fat_state_scheme \<Rightarrow> u32 \<Rightarrow> bool) \<Rightarrow> 'h allocator \<Rightarrow> u32 \<Rightarrow> nat \<Rightarrow>
     ('h, 'b) fat_state_scheme \<Rightarrow> ('h, 'b) fat_state_scheme \<Rightarrow> bool" where
  "fat_frame disk dsize owned alloc mi N s s' \<longleftrightarrow> fat_same disk dsize owned alloc mi N s s' \<and>
     (\<forall>a. \<not> owned s a \<and> \<not> span (cache_ptr alloc mi s) 65536 a \<longrightarrow> fmem s' a = fmem s a)"

lemma unat_window: "unat (i AND - 16384 :: u32) = 16384 * (unat i div 16384)"
proof -
  have m: "(- 16384 :: u32) = NOT (mask 14)" by (simp add: mask_eq_exp_minus_1)
  have "(i AND NOT (mask 14)) + (i AND mask 14) = (i AND NOT (mask 14)) OR (i AND mask 14)"
    by (rule disjunctive_add) (auto simp: bit_simps)
  also have "\<dots> = i" by (auto intro!: bit_word_eqI simp: bit_simps)
  finally have "i AND NOT (mask 14) = i - (i AND mask 14)" by (simp add: eq_diff_eq)
  moreover have "i AND mask 14 \<le> i" by (rule word_and_le2)
  ultimately have "unat (i AND NOT (mask 14)) = unat i - unat i mod 16384"
    by (simp add: unat_sub unat_and_mask)
  then show ?thesis unfolding m by (simp add: minus_mod_eq_mult_div)
qed

lemma u32_of_nat_inj:
  assumes "(of_nat x :: u32) = of_nat y" "x < 2 ^ 32" "y < 2 ^ 32"
  shows "x = y"
proof -
  have "unat (of_nat x :: u32) = x" "unat (of_nat y :: u32) = y" using assms(2,3) unat_of_nat_lt [where 'a = 32, of x] unat_of_nat_lt [where 'a = 32, of y] by simp_all
  with assms(1) show ?thesis by metis
qed

lemma window_bound:
  assumes "(i :: nat) < N" "N mod c = 0"
  shows "c * (i div c) + c \<le> N"
proof -
  obtain k where k: "N = c * k" using assms(2) by (auto simp: mod_eq_0_iff_dvd)
  then have "i div c < k" using assms(1) by (simp add: less_mult_imp_div_less mult.commute)
  then have "c * Suc (i div c) \<le> c * k" by (intro mult_le_mono2) simp
  then show ?thesis using k by simp
qed

lemma fat_offset:
  assumes "unat a * unat (b :: u16) + 4 * unat w < 2 ^ 32"
  shows "unat (ucast (a * ucast b + w * 4 :: u32) :: u64) = unat a * unat b + 4 * unat w"
proof -
  have b: "unat (ucast b :: u32) = unat b" by (simp add: unat_ucast_up)
  have "unat (a * ucast b) = unat a * unat b" using assms b by (subst unat_mult_lt) simp_all
  moreover have "unat (w * 4) = 4 * unat w" using assms by (subst unat_mult_lt) simp_all
  ultimately have "unat (a * ucast b + w * 4) = unat a * unat b + 4 * unat w"
    using assms by (subst unat_add_lt) simp_all
  then show ?thesis by (simp add: unat_ucast_up)
qed

lemma rd32_le32:
  assumes "\<And>j. j < 4 \<Longrightarrow> m (p + of_nat j) = Some (f (k + j))"
  shows "rd32 m p = Some (le32 f k)"
  using assms [of 0] assms [of 1] assms [of 2] assms [of 3] by (simp add: rd32_def le32_def)

lemma wr32_mapped:
  assumes "wr32 a v m = Some m'" "mapped m p n"
  shows "mapped m' p n"
proof -
  have wr: "mapped m' p n" if "wr a v m = Some m'" "mapped m p n" for a v m m'
    using that by (auto simp: wr_def mapped_def split: if_splits)
  from assms show ?thesis unfolding wr32_def bind_eq_Some_conv by (blast intro: wr)
qed

lemma le32_cong:
  assumes "\<And>j. j < 4 \<Longrightarrow> f (k + j) = g (k' + j)"
  shows "le32 f k = le32 g k'"
  using assms [of 0] assms [of 1] assms [of 2] assms [of 3] by (simp add: le32_def)

lemma mount_rest_fields:
  assumes "mount_rest mt' = mount_rest mt"
  shows "bpb mt' = bpb mt" "mount_src mt' = mount_src mt" "m_spinlock mt' = m_spinlock mt"
    "fat_start_sector mt' = fat_start_sector mt" "data_start_sector mt' = data_start_sector mt"
  using assms by (cases mt; cases mt'; simp add: mount_rest_def)+

lemma fat_frame_refl: "fat_frame disk dsize owned alloc mi N s s"
  by (simp add: fat_frame_def fat_same_def)

lemma fat_frame_trans:
  assumes "fat_frame disk dsize owned alloc mi N s t" "fat_frame disk dsize owned alloc mi N t u"
  shows "fat_frame disk dsize owned alloc mi N s u"
  using assms unfolding fat_frame_def fat_same_def by auto

definition lowest_free :: "(u32 \<Rightarrow> u32) \<Rightarrow> u32 \<Rightarrow> u32 \<Rightarrow> u32 \<Rightarrow> bool" where
  "lowest_free tab i n c \<longleftrightarrow> i \<le> c \<and> c < n \<and> tab c = 0 \<and> (\<forall>j. i \<le> j \<and> j < c \<longrightarrow> tab j \<noteq> 0)"

definition none_free :: "(u32 \<Rightarrow> u32) \<Rightarrow> u32 \<Rightarrow> u32 \<Rightarrow> bool" where
  "none_free tab i n \<longleftrightarrow> (\<forall>j. i \<le> j \<and> j < n \<longrightarrow> tab j \<noteq> 0)"

lemma lowest_free_step:
  assumes i: "i < n" "tab i \<noteq> 0" and tab: "\<And>j. j < n \<Longrightarrow> tab' j = tab j"
  shows "lowest_free tab' (i + 1) n c \<longleftrightarrow> lowest_free tab i n c" "none_free tab' (i + 1) n \<longleftrightarrow> none_free tab i n"
proof -
  have step: "i + 1 \<le> j \<longleftrightarrow> i \<le> j \<and> j \<noteq> i" for j
    using unat_Suc_less [OF i(1)] by (auto simp: word_le_nat_alt word_unat_eq_iff)
  show "lowest_free tab' (i + 1) n c \<longleftrightarrow> lowest_free tab i n c"
    unfolding lowest_free_def step using i tab by (metis order.strict_trans)
  show "none_free tab' (i + 1) n \<longleftrightarrow> none_free tab i n"
    unfolding none_free_def step using i tab by metis
qed

lemma fat_same_trans:
  assumes "fat_same disk dsize owned alloc mi N s t" "fat_same disk dsize owned alloc mi N t u"
  shows "fat_same disk dsize owned alloc mi N s u"
  using assms unfolding fat_same_def by auto

context mounted_disk
begin

abbreviation volume :: "'h allocator \<Rightarrow> u32 \<Rightarrow> nat \<Rightarrow> ('h, 'b) fat_state_scheme \<Rightarrow> bool" where
  "volume \<equiv> fat_ok disk dsize owned ok src"

abbreviation table_frame ::
    "'h allocator \<Rightarrow> u32 \<Rightarrow> nat \<Rightarrow> ('h, 'b) fat_state_scheme \<Rightarrow> ('h, 'b) fat_state_scheme \<Rightarrow> bool" where
  "table_frame \<equiv> fat_frame disk dsize owned"

text \<open>Writing the window back makes the disk agree with the table.\<close>

lemma flush_window:
  assumes v: "volume alloc mi N s" and c: "fat_cache (fat32_mounts s mi) \<noteq> 0"
  defines "mt \<equiv> fat32_mounts s mi"
  shows "\<exists>r s'. fwrite fops src (fat_cache mt)
      (ucast (fat_start_sector mt * ucast (block_size_bytes (the (vfiles s src))) + fat_cache_start mt * 4))
      (ucast (FAT_CACHE_SIZE_ENTRIES * 4)) s = Some (r, s') \<and> keeps s s' \<and> ok s' \<and>
      dsize s' = dsize s \<and> owned s' = owned s \<and> (\<forall>a. \<not> owned s a \<longrightarrow> fmem s' a = fmem s a) \<and>
      (\<forall>k<4 * N. disk s' (fat_base mi s + k) = fat_byte disk mi s k) \<and>
      (\<forall>k. k < fat_base mi s \<or> fat_base mi s + 4 * N \<le> k \<longrightarrow> disk s' k = disk s k)"
proof -
  define off :: u64 where "off = ucast (fat_start_sector mt * ucast (block_size_bytes (the (vfiles s src))) + fat_cache_start mt * 4)"
  have st: "unat (fat_cache_start mt) + 16384 \<le> N" and sz: "fat_cache_size mt = 16384"
    and base: "fat_base mi s + 4 * N \<le> dsize s" "fat_base mi s + 4 * N < 2 ^ 32"
    and fb: "fat_base mi s = unat (fat_start_sector mt) * unat (block_size_bytes (the (vfiles s src)))"
    using v c by (auto simp: fat_ok_def Let_def mt_def fat_base_def)
  have off: "unat off = fat_base mi s + 4 * unat (fat_cache_start mt)"
    unfolding off_def fb by (rule fat_offset) (use st base fb in simp)
  have cp: "cache_ptr alloc mi s = fat_cache mt" using c by (simp add: cache_ptr_def mt_def)
  have "\<exists>r s'. fwrite fops src (fat_cache mt) off (ucast (FAT_CACHE_SIZE_ENTRIES * 4)) s = Some (r, s') \<and> keeps s s' \<and> ok s' \<and>
        disk s' = (\<lambda>k. if unat off \<le> k \<and> k < unat off + unat (ucast (FAT_CACHE_SIZE_ENTRIES * 4) :: u64)
                       then the (fmem s (fat_cache mt + of_nat (k - unat off))) else disk s k) \<and>
        dsize s' = dsize s \<and> owned s' = owned s \<and> (\<forall>a. \<not> owned s a \<longrightarrow> fmem s' a = fmem s a)"
    by (rule write_law) (use v c base st off cp in \<open>auto simp: fat_ok_def Let_def mt_def\<close>)
  then obtain r s' where w: "fwrite fops src (fat_cache mt) off (ucast (FAT_CACHE_SIZE_ENTRIES * 4)) s = Some (r, s')"
      "keeps s s'" "ok s'" "dsize s' = dsize s" "owned s' = owned s" "\<forall>a. \<not> owned s a \<longrightarrow> fmem s' a = fmem s a"
    and d: "disk s' = (\<lambda>k. if unat off \<le> k \<and> k < unat off + 65536
                       then the (fmem s (fat_cache mt + of_nat (k - unat off))) else disk s k)"
    by auto
  have "disk s' (fat_base mi s + k) = fat_byte disk mi s k" for k
    unfolding d fat_byte_def Let_def mt_def [symmetric] using off sz by auto
  moreover have "disk s' k = disk s k" if "k < fat_base mi s \<or> fat_base mi s + 4 * N \<le> k" for k
    unfolding d using off st that by auto
  ultimately show ?thesis using w unfolding off_def by blast
qed

text \<open>Reading a window after the disk has been brought up to date.\<close>

lemma load_window:
  assumes "ok t" "mi < MAX_MOUNT_COUNT" "unat i < N" "N mod 16384 = 0"
    and src: "mount_src (fat32_mounts t mi) = src" "vfiles t src \<noteq> None"
    and base: "fat_base mi t + 4 * N \<le> dsize t" "fat_base mi t + 4 * N < 2 ^ 32"
    and p: "fat_cache (fat32_mounts t mi) = p" "p \<noteq> 0" "mapped (fmem t) p 65536" "\<forall>i<65536. \<not> owned t (p + of_nat i)"
  defines "w \<equiv> i AND - 16384" and "mt \<equiv> fat32_mounts t mi"
  defines "t1 \<equiv> t\<lparr>fat32_mounts := (fat32_mounts t)(mi := mt\<lparr>fat_cache_start := w, fat_cache_size := 16384, cache_dirty := False\<rparr>)\<rparr>"
  shows "\<exists>r s'. fread fops src p
      (ucast (fat_start_sector mt * ucast (block_size_bytes (the (vfiles t src))) + w * 4))
      (ucast (FAT_CACHE_SIZE_ENTRIES * 4)) t1 = Some (r, s') \<and> volume alloc mi N s' \<and>
      fat32_mounts s' = fat32_mounts t1 \<and> (\<forall>k<4 * N. fat_byte disk mi s' k = disk t (fat_base mi t + k)) \<and>
      table_frame alloc mi N t s'"
proof -
  define off :: u64 where "off = ucast (fat_start_sector mt * ucast (block_size_bytes (the (vfiles t src))) + w * 4)"
  have w: "unat w = 16384 * (unat i div 16384)" unfolding w_def by (rule unat_window)
  then have wN: "unat w + 16384 \<le> N" "unat w mod 16384 = 0"
    using assms(3,4) window_bound [of "unat i" N 16384] by simp_all
  have fb: "fat_base mi t = unat (fat_start_sector mt) * unat (block_size_bytes (the (vfiles t src)))"
    using src by (simp add: fat_base_def Let_def mt_def)
  have off: "unat off = fat_base mi t + 4 * unat w"
    unfolding off_def fb by (rule fat_offset) (use wN base fb in simp)
  have t1: "ok t1" "disk t1 = disk t" "dsize t1 = dsize t" "owned t1 = owned t"
    using stable [OF assms(1), of t1] by (auto simp: t1_def same_devices_def)
  have "\<exists>r s'. fread fops src p off (ucast (FAT_CACHE_SIZE_ENTRIES * 4)) t1 = Some (r, s') \<and> keeps t1 s' \<and> ok s' \<and>
      disk s' = disk t1 \<and> dsize s' = dsize t1 \<and> owned s' = owned t1 \<and>
      (\<forall>a. \<not> owned t1 a \<longrightarrow> fmem s' a = overlay p (unat (ucast (FAT_CACHE_SIZE_ENTRIES * 4) :: u64))
         (\<lambda>i. disk t1 (unat off + i)) (fmem t1) a)"
    by (rule read_law) (use t1 base off wN p in \<open>auto simp: t1_def\<close>)
  then obtain r s' where f: "fread fops src p off (ucast (FAT_CACHE_SIZE_ENTRIES * 4)) t1 = Some (r, s')"
      "keeps t1 s'" "ok s'" "disk s' = disk t" "dsize s' = dsize t" "owned s' = owned t"
    and m: "\<And>a. \<not> owned t a \<Longrightarrow> fmem s' a = overlay p 65536 (\<lambda>i. disk t (unat off + i)) (fmem t) a"
    using t1 by (auto simp: t1_def)
  have ms: "fat32_mounts s' = fat32_mounts t1" "vfiles s' = vfiles t" "pages_st s' = pages_st t" "bpbs s' = bpbs t"
      "open_files s' = open_files t" using f(2) by (auto simp: keeps_def t1_def)
  have m': "fmem s' (p + of_nat j) = Some (disk t (fat_base mi t + 4 * unat w + j))" if "j < 65536" for j
    using m [of "p + of_nat j"] p(4) that off by (simp add: overlay_at)
  have fb': "fat_base mi s' = fat_base mi t" by (simp add: fat_base_def Let_def ms t1_def mt_def)
  have cp: "cache_ptr alloc mi s' = p" "cache_ptr alloc mi t = p" using p by (simp_all add: cache_ptr_def ms t1_def mt_def)
  have vol: "volume alloc mi N s'"
    unfolding fat_ok_def Let_def cp using assms(2,4) src base p f fb' m' wN
    by (simp add: ms t1_def mt_def mapped_def)
  have by': "fat_byte disk mi s' k = disk t (fat_base mi t + k)" for k
    using m' [of "k - 4 * unat w"] p(1) by (auto simp: fat_byte_def Let_def fb' ms t1_def mt_def f(4))
  have "table_frame alloc mi N t s'"
    unfolding fat_frame_def fat_same_def cp using fb' f(4-6) ms m by (auto simp: t1_def mt_def mount_rest_def overlay_off)
  with vol by' f(1) ms(1) show ?thesis unfolding off_def by blast
qed

text \<open>
  The part of \<^verbatim>\<open>recache_fat32_table\<close> before the window moves: the buffer is allocated, or a changed
  window is written back.
\<close>

definition synced :: "'h allocator \<Rightarrow> u32 \<Rightarrow> nat \<Rightarrow> ('h, 'b) fat_state_scheme \<Rightarrow> ('h, 'b) fat_state_scheme \<Rightarrow> bool" where
  "synced alloc mi N s t \<longleftrightarrow> ok t \<and> fat_cache (fat32_mounts t mi) = cache_ptr alloc mi s \<and>
     mapped (fmem t) (cache_ptr alloc mi s) 65536 \<and>
     (\<forall>k<4 * N. disk t (fat_base mi s + k) = fat_byte disk mi s k) \<and> table_frame alloc mi N s t \<and>
     fat_search_start (fat32_mounts t mi) = fat_search_start (fat32_mounts s mi)"

lemma recache_synced:
  assumes v: "volume alloc mi N s" and i: "unat i < N" and t: "synced alloc mi N s t"
  defines "w \<equiv> i AND - 16384" and "mt \<equiv> fat32_mounts t mi"
  defines "t1 \<equiv> t\<lparr>fat32_mounts := (fat32_mounts t)(mi := mt\<lparr>fat_cache_start := w, fat_cache_size := 16384, cache_dirty := False\<rparr>)\<rparr>"
  shows "\<exists>r s'. fread fops src (fat_cache mt)
      (ucast (fat_start_sector mt * ucast (block_size_bytes (the (vfiles t src))) + w * 4))
      (ucast (FAT_CACHE_SIZE_ENTRIES * 4)) t1 = Some (r, s') \<and> volume alloc mi N s' \<and>
      fat32_check_bounds i (fat32_mounts s' mi) \<and> (\<forall>k<4 * N. fat_byte disk mi s' k = fat_byte disk mi s k) \<and>
      table_frame alloc mi N s s' \<and> fat_search_start (fat32_mounts s' mi) = fat_search_start (fat32_mounts s mi)"
proof -
  have f: "table_frame alloc mi N s t" using t by (simp add: synced_def)
  then have src: "mount_src mt = src" "vfiles t = vfiles s"
    using v mount_rest_fields [of mt "fat32_mounts s mi"] by (auto simp: fat_frame_def fat_same_def fat_ok_def Let_def mt_def)
  have "\<exists>r s'. fread fops src (cache_ptr alloc mi s)
      (ucast (fat_start_sector mt * ucast (block_size_bytes (the (vfiles t src))) + w * 4))
      (ucast (FAT_CACHE_SIZE_ENTRIES * 4)) t1 = Some (r, s') \<and> volume alloc mi N s' \<and>
      fat32_mounts s' = fat32_mounts t1 \<and> (\<forall>k<4 * N. fat_byte disk mi s' k = disk t (fat_base mi t + k)) \<and>
      table_frame alloc mi N t s'"
    unfolding w_def mt_def t1_def
    by (rule load_window) (use t v f i src in \<open>auto simp: fat_ok_def Let_def synced_def fat_frame_def fat_same_def mt_def\<close>)
  then obtain r s' where s': "fread fops src (cache_ptr alloc mi s)
      (ucast (fat_start_sector mt * ucast (block_size_bytes (the (vfiles t src))) + w * 4))
      (ucast (FAT_CACHE_SIZE_ENTRIES * 4)) t1 = Some (r, s')" "volume alloc mi N s'" "fat32_mounts s' = fat32_mounts t1"
      "\<forall>k<4 * N. fat_byte disk mi s' k = disk t (fat_base mi t + k)" "table_frame alloc mi N t s'" by blast
  have w: "unat w = 16384 * (unat i div 16384)" unfolding w_def by (rule unat_window)
  have "unat w + 16384 \<le> N" using w window_bound [OF i, of 16384] v by (simp add: fat_ok_def Let_def)
  moreover have "N < 2 ^ 30" using v by (simp add: fat_ok_def Let_def)
  ultimately have "unat (w + 16384) = unat w + 16384" by (subst unat_add_lt) simp_all
  moreover have "16384 * (unat i div 16384) \<le> unat i" "unat i < 16384 * (unat i div 16384) + 16384"
    using mod_less_divisor [of 16384 "unat i"] mult_div_mod_eq [of 16384 "unat i"] by linarith+
  ultimately have "fat32_check_bounds i (fat32_mounts s' mi)"
    using w by (simp add: s'(3) t1_def fat32_check_bounds_def word_less_nat_alt word_le_nat_alt)
  moreover have "fat_base mi t = fat_base mi s" using f by (simp add: fat_frame_def fat_same_def)
  ultimately show ?thesis
    using s' t fat_frame_trans [OF f s'(5)] by (auto simp: synced_def mt_def t1_def)
qed

lemma synced_clean:
  assumes v: "volume alloc mi N s" "fat_cache (fat32_mounts s mi) \<noteq> 0" "\<not> cache_dirty (fat32_mounts s mi)"
  shows "synced alloc mi N s s"
proof -
  let ?mt = "fat32_mounts s mi"
  have cp: "cache_ptr alloc mi s = fat_cache ?mt" using v by (simp add: cache_ptr_def)
  have "disk s (fat_base mi s + k) = fat_byte disk mi s k" for k
  proof (cases "4 * unat (fat_cache_start ?mt) \<le> k \<and> k < 4 * unat (fat_cache_start ?mt) + 65536")
    case True
    then have "fmem s (fat_cache ?mt + of_nat (k - 4 * unat (fat_cache_start ?mt))) = Some (disk s (fat_base mi s + k))"
      using v unfolding fat_ok_def Let_def cp
      by (auto dest!: spec [of _ "k - 4 * unat (fat_cache_start ?mt)"])
    then show ?thesis by (auto simp: fat_byte_def Let_def simp del: of_nat_diff)
  next
    case False
    then show ?thesis by (auto simp: fat_byte_def Let_def)
  qed
  then show ?thesis using v by (simp add: synced_def cp fat_frame_refl) (simp add: fat_ok_def Let_def cp)
qed

lemma synced_alloc:
  assumes v: "volume alloc mi N s" "fat_cache (fat32_mounts s mi) = 0" and a: "alloc 16 (pages_st s) = Some (p, h)"
  shows "synced alloc mi N s (s\<lparr>pages_st := h, fat32_mounts := (fat32_mounts s)(mi := (fat32_mounts s mi)\<lparr>fat_cache := p\<rparr>)\<rparr>)"
    (is "synced alloc mi N s ?t")
proof -
  have st: "ok ?t" "disk ?t = disk s" "dsize ?t = dsize s" "owned ?t = owned s"
    using stable [of s ?t] v by (auto simp: fat_ok_def Let_def same_devices_def)
  have cp: "cache_ptr alloc mi s = p" "cache_ptr alloc mi ?t = p" "p \<noteq> 0"
    using v a by (auto simp: cache_ptr_def fat_ok_def Let_def)
  have fb: "fat_base mi ?t = fat_base mi s" by (simp add: fat_base_def Let_def)
  have "fat_byte disk mi s k = disk s (fat_base mi s + k)" for k
    using v by (simp add: fat_byte_def Let_def fat_ok_def)
  moreover have "mapped (fmem s) p 65536" using v cp by (simp add: fat_ok_def Let_def)
  ultimately show ?thesis using st by (simp add: synced_def cp fat_frame_def fat_same_def fb mount_rest_def)
qed

lemma synced_flush:
  assumes v: "volume alloc mi N s" "fat_cache (fat32_mounts s mi) \<noteq> 0"
    and t: "keeps s t" "ok t" "dsize t = dsize s" "owned t = owned s" "\<forall>a. \<not> owned s a \<longrightarrow> fmem t a = fmem s a"
      "\<forall>k<4 * N. disk t (fat_base mi s + k) = fat_byte disk mi s k"
      "\<forall>k. k < fat_base mi s \<or> fat_base mi s + 4 * N \<le> k \<longrightarrow> disk t k = disk s k"
  shows "synced alloc mi N s t"
proof -
  have cp: "cache_ptr alloc mi s = fat_cache (fat32_mounts s mi)" "cache_ptr alloc mi t = fat_cache (fat32_mounts s mi)"
    using v t(1) by (simp_all add: cache_ptr_def keeps_def)
  have fb: "fat_base mi t = fat_base mi s" using t(1) by (simp add: fat_base_def keeps_def)
  have "mapped (fmem t) (fat_cache (fat32_mounts s mi)) 65536"
    using v t(5) cp by (simp add: fat_ok_def Let_def mapped_def)
  then show ?thesis using v t cp fb by (auto simp: synced_def fat_frame_def fat_same_def keeps_def)
qed

lemma recache_spec:
  assumes v: "volume alloc mi N s" and i: "unat i < N"
  shows "\<exists>s'. recache_fat32_table alloc fops i mi s = Some s' \<and> volume alloc mi N s' \<and>
    fat32_check_bounds i (fat32_mounts s' mi) \<and> (\<forall>k<4 * N. fat_byte disk mi s' k = fat_byte disk mi s k) \<and>
    table_frame alloc mi N s s' \<and> fat_search_start (fat32_mounts s' mi) = fat_search_start (fat32_mounts s mi)"
proof -
  let ?mt = "fat32_mounts s mi"
  obtain f where f: "vfiles s src = Some f" and src: "mount_src ?mt = src" and mi: "mi < 64"
    using v by (auto simp: fat_ok_def Let_def)
  note defs = recache_fat32_table_def mount_at_def upd_mount_def kalloc_def Let_def
  consider (new) "fat_cache ?mt = 0" | (dirty) "fat_cache ?mt \<noteq> 0" "cache_dirty ?mt"
    | (clean) "fat_cache ?mt \<noteq> 0" "\<not> cache_dirty ?mt" by blast
  then show ?thesis
  proof cases
    case new
    then obtain p h where a: "alloc 16 (pages_st s) = Some (p, h)" using v by (auto simp: fat_ok_def Let_def)
    show ?thesis
      using recache_synced [OF v i synced_alloc [OF v new a]] f src mi new a by (auto simp: defs)
  next
    case dirty
    then obtain r t where t: "fwrite fops src (fat_cache ?mt)
        (ucast (fat_start_sector ?mt * ucast (block_size_bytes (the (vfiles s src))) + fat_cache_start ?mt * 4))
        (ucast (FAT_CACHE_SIZE_ENTRIES * 4)) s = Some (r, t)" "keeps s t" "synced alloc mi N s t"
      using flush_window [OF v dirty(1)] synced_flush [OF v dirty(1)] by (metis (no_types, lifting))
    then show ?thesis
      using recache_synced [OF v i t(3)] f src mi dirty by (auto simp: defs keeps_def)
  next
    case clean
    show ?thesis
      using recache_synced [OF v i synced_clean [OF v clean]] f src mi clean by (auto simp: defs)
  qed
qed

text \<open>An entry inside the window.\<close>

lemma in_window:
  assumes v: "volume alloc mi N s" and b: "fat32_check_bounds i (fat32_mounts s mi)"
  defines "mt \<equiv> fat32_mounts s mi"
  shows "fat_cache mt \<noteq> 0" "fat_cache_size mt = 16384" "cache_ptr alloc mi s = fat_cache mt"
    and "unat (fat_cache_start mt) \<le> unat i" "unat i < unat (fat_cache_start mt) + 16384"
    and "unat (fat_cache_start mt) + 16384 \<le> N"
    and "(i - fat_cache_start mt) * 4 = of_nat (4 * unat i - 4 * unat (fat_cache_start mt))"
proof -
  show c: "fat_cache mt \<noteq> 0" using v b by (auto simp: fat_ok_def Let_def fat32_check_bounds_def mt_def)
  then show sz: "fat_cache_size mt = 16384" and cp: "cache_ptr alloc mi s = fat_cache mt"
    and N: "unat (fat_cache_start mt) + 16384 \<le> N"
    using v by (auto simp: fat_ok_def Let_def mt_def cache_ptr_def)
  have "N < 2 ^ 30" using v by (simp add: fat_ok_def Let_def)
  with N have "unat (fat_cache_start mt + 16384) = unat (fat_cache_start mt) + 16384" by (subst unat_add_lt) simp_all
  then show le: "unat (fat_cache_start mt) \<le> unat i" and "unat i < unat (fat_cache_start mt) + 16384"
    using b sz by (simp_all add: fat32_check_bounds_def mt_def word_less_nat_alt word_le_nat_alt)
  show "(i - fat_cache_start mt) * 4 = of_nat (4 * unat i - 4 * unat (fat_cache_start mt))"
    using le by (simp add: algebra_simps)
qed

lemma window_bytes:
  assumes v: "volume alloc mi N s" and b: "fat32_check_bounds i (fat32_mounts s mi)" and j: "j < 4"
  defines "mt \<equiv> fat32_mounts s mi"
  shows "fmem s (fat_cache mt + (i - fat_cache_start mt) * 4 + of_nat j) = Some (fat_byte disk mi s (4 * unat i + j))"
proof -
  note w = in_window [OF v b, folded mt_def]
  let ?k = "4 * unat i - 4 * unat (fat_cache_start mt) + j"
  have k: "?k < 65536" and e: "4 * unat i + j - 4 * unat (fat_cache_start mt) = ?k" using w(4,5) j by simp_all
  have "mapped (fmem s) (fat_cache mt) 65536" using v w(3) by (simp add: fat_ok_def Let_def)
  then have "fmem s (fat_cache mt + of_nat ?k) \<noteq> None" using k by (rule mapped_at)
  moreover have "fat_cache mt + (i - fat_cache_start mt) * 4 + of_nat j = fat_cache mt + of_nat ?k"
    unfolding w(7) by (simp only: of_nat_add add.assoc)
  moreover have "fat_byte disk mi s (4 * unat i + j) = the (fmem s (fat_cache mt + of_nat ?k))"
    unfolding fat_byte_def Let_def mt_def [symmetric] e using w(2,4,5) j by auto
  ultimately show ?thesis by (metis option.collapse)
qed

lemma window_read:
  assumes "volume alloc mi N s" "fat32_check_bounds i (fat32_mounts s mi)"
  shows "rd32 (fmem s) (fat_cache (fat32_mounts s mi) + (i - fat_cache_start (fat32_mounts s mi)) * 4) =
     Some (fat_entry disk mi s i)"
  unfolding fat_entry_def by (rule rd32_le32) (rule window_bytes [OF assms])

text \<open>After moving the window if necessary.\<close>

lemma ensure_window:
  assumes v: "volume alloc mi N s" and i: "unat i < N"
  shows "\<exists>s'. (if \<not> fat32_check_bounds i (fat32_mounts s mi) then recache_fat32_table alloc fops i mi s else Some s) = Some s' \<and>
    volume alloc mi N s' \<and> fat32_check_bounds i (fat32_mounts s' mi) \<and>
    (\<forall>k<4 * N. fat_byte disk mi s' k = fat_byte disk mi s k) \<and> table_frame alloc mi N s s' \<and>
    fat_search_start (fat32_mounts s' mi) = fat_search_start (fat32_mounts s mi)"
  using recache_spec [OF v i] v by (auto simp: fat_frame_refl)

lemma entry_cong:
  assumes "\<forall>k<4 * N. fat_byte disk mi s' k = fat_byte disk mi s k" "unat j < N"
  shows "fat_entry disk mi s' j = fat_entry disk mi s j"
  unfolding fat_entry_def using assms by (intro le32_cong) simp

lemma get_next_cluster_spec:
  assumes v: "volume alloc mi N s" and i: "unat i < N"
  shows "\<exists>s'. fat32_get_next_cluster alloc fops i mi s = Some (fat_entry disk mi s i, s') \<and> volume alloc mi N s' \<and>
    (\<forall>j. unat j < N \<longrightarrow> fat_entry disk mi s' j = fat_entry disk mi s j) \<and> table_frame alloc mi N s s' \<and>
    fat_search_start (fat32_mounts s' mi) = fat_search_start (fat32_mounts s mi)"
proof -
  from ensure_window [OF v i] obtain s' where s':
    "(if \<not> fat32_check_bounds i (fat32_mounts s mi) then recache_fat32_table alloc fops i mi s else Some s) = Some s'"
    "volume alloc mi N s'" "fat32_check_bounds i (fat32_mounts s' mi)"
    "\<forall>k<4 * N. fat_byte disk mi s' k = fat_byte disk mi s k" "table_frame alloc mi N s s'"
    "fat_search_start (fat32_mounts s' mi) = fat_search_start (fat32_mounts s mi)" by blast
  have mi: "mi < 64" using v by (simp add: fat_ok_def Let_def)
  have "fat32_get_next_cluster alloc fops i mi s = Some (fat_entry disk mi s' i, s')"
    unfolding fat32_get_next_cluster_def using s'(1) window_read [OF s'(2,3)] mi by (simp add: mount_at_def)
  then show ?thesis using s' entry_cong [OF s'(4)] i by auto
qed

lemma window_addr_ne:
  assumes v: "volume alloc mi N s" and b: "fat32_check_bounds i (fat32_mounts s mi)"
  defines "mt \<equiv> fat32_mounts s mi"
  assumes k: "4 * unat (fat_cache_start mt) \<le> k" "k < 4 * unat (fat_cache_start mt) + 65536" "k \<noteq> 4 * unat i + j" "j < 4"
  shows "fat_cache mt + of_nat (k - 4 * unat (fat_cache_start mt)) \<noteq>
    fat_cache mt + (i - fat_cache_start mt) * 4 + of_nat j"
proof
  note w = in_window [OF v b, folded mt_def]
  let ?x = "k - 4 * unat (fat_cache_start mt)" and ?y = "4 * unat i - 4 * unat (fat_cache_start mt) + j"
  assume "fat_cache mt + of_nat ?x = fat_cache mt + (i - fat_cache_start mt) * 4 + of_nat j"
  then have "(of_nat ?x :: u32) = of_nat ?y" unfolding w(7) by (simp only: of_nat_add add.assoc add_left_cancel)
  moreover have "?x < 2 ^ 32" "?y < 2 ^ 32" using k w(4,5) by simp_all
  ultimately have "?x = ?y" by (metis u32_of_nat_inj)
  then show False using k w(4,5) by simp
qed

lemma window_store:
  assumes v: "volume alloc mi N s" and b: "fat32_check_bounds i (fat32_mounts s mi)"
  defines "mt \<equiv> fat32_mounts s mi"
  assumes m: "wr32 (fat_cache mt + (i - fat_cache_start mt) * 4) x (fmem s) = Some m"
  shows "\<not> span (fat_cache mt) 65536 c \<Longrightarrow> m c = fmem s c"
    and "4 * unat (fat_cache_start mt) \<le> k \<Longrightarrow> k < 4 * unat (fat_cache_start mt) + 65536 \<Longrightarrow>
      (\<And>j. j < 4 \<Longrightarrow> k \<noteq> 4 * unat i + j) \<Longrightarrow>
      m (fat_cache mt + of_nat (k - 4 * unat (fat_cache_start mt))) =
      fmem s (fat_cache mt + of_nat (k - 4 * unat (fat_cache_start mt)))"
proof -
  note w = in_window [OF v b, folded mt_def]
  let ?a = "fat_cache mt + (i - fat_cache_start mt) * 4"
  have fr: "m c = fmem s c" if "\<And>j. j < 4 \<Longrightarrow> c \<noteq> ?a + of_nat j" for c
    using wr32_frame [OF m, of c] that [of 0] that [of 1] that [of 2] that [of 3] by simp
  have in_buf: "?a + of_nat j = fat_cache mt + of_nat (4 * unat i - 4 * unat (fat_cache_start mt) + j)"
      "4 * unat i - 4 * unat (fat_cache_start mt) + j < 65536" if "j < 4" for j
    unfolding w(7) using w(4,5) that by (simp_all only: of_nat_add add.assoc)
  show "m c = fmem s c" if "\<not> span (fat_cache mt) 65536 c"
  proof (rule fr)
    fix j :: nat
    assume "j < 4"
    from in_buf(2) [OF this] have "span (fat_cache mt) 65536 (?a + of_nat j)"
      unfolding in_buf(1) [OF \<open>j < 4\<close>] by (intro span_at) simp_all
    with that show "c \<noteq> ?a + of_nat j" by blast
  qed
  show "m (fat_cache mt + of_nat (k - 4 * unat (fat_cache_start mt))) =
      fmem s (fat_cache mt + of_nat (k - 4 * unat (fat_cache_start mt)))"
    if "4 * unat (fat_cache_start mt) \<le> k" "k < 4 * unat (fat_cache_start mt) + 65536"
      "\<And>j. j < 4 \<Longrightarrow> k \<noteq> 4 * unat i + j"
    by (rule fr) (metis window_addr_ne [OF v b, folded mt_def] that)
qed

lemma window_write:
  assumes v: "volume alloc mi N s" and b: "fat32_check_bounds i (fat32_mounts s mi)"
  defines "mt \<equiv> fat32_mounts s mi"
  shows "\<exists>m. wr32 (fat_cache mt + (i - fat_cache_start mt) * 4) x (fmem s) = Some m \<and>
    (let s' = s\<lparr>fmem := m, fat32_mounts := (fat32_mounts s)(mi := mt\<lparr>cache_dirty := True, fat_search_start := i\<rparr>)\<rparr>
     in volume alloc mi N s' \<and> table_frame alloc mi N s s' \<and> fat_entry disk mi s' i = x \<and>
        (\<forall>j. j \<noteq> i \<longrightarrow> fat_entry disk mi s' j = fat_entry disk mi s j))"
proof -
  note w = in_window [OF v b, folded mt_def]
  let ?a = "fat_cache mt + (i - fat_cache_start mt) * 4"
  have "word_mapped (fmem s) ?a"
    using window_bytes [OF v b, of 0] window_bytes [OF v b, of 1] window_bytes [OF v b, of 2] window_bytes [OF v b, of 3]
    by (simp add: word_mapped_def mt_def)
  then obtain m where m: "wr32 ?a x (fmem s) = Some m" by (simp add: wr32_total)
  note st = window_store [OF v b, folded mt_def, OF m]
  define s' where "s' = s\<lparr>fmem := m, fat32_mounts := (fat32_mounts s)(mi := mt\<lparr>cache_dirty := True, fat_search_start := i\<rparr>)\<rparr>"
  have no: "\<not> span (fat_cache mt) 65536 c" if "owned s c" for c
    using v w(3) that by (auto simp: fat_ok_def Let_def elim: span_offset)
  have dev: "ok s'" "disk s' = disk s" "dsize s' = dsize s" "owned s' = owned s"
    using stable [of s s'] st(1) no v by (auto simp: s'_def fat_ok_def Let_def same_devices_def)
  have fb: "fat_base mi s' = fat_base mi s" by (simp add: fat_base_def Let_def s'_def mt_def)
  have cp: "cache_ptr alloc mi s' = fat_cache mt" using w(1) by (simp add: cache_ptr_def s'_def)
  have vol: "volume alloc mi N s'"
    using v wr32_mapped [OF m] w dev unfolding fat_ok_def Let_def fb cp by (simp add: s'_def mt_def)
  have frame: "table_frame alloc mi N s s'"
    unfolding fat_frame_def fat_same_def cp w(3) fb using dev st(1) by (simp add: s'_def mount_rest_def mt_def)
  have same: "fat_byte disk mi s' k = fat_byte disk mi s k" if "\<And>j. j < 4 \<Longrightarrow> k \<noteq> 4 * unat i + j" for k
    using st(2) [OF _ _ that] unfolding fat_byte_def Let_def fb dev(2) by (auto simp: s'_def mt_def simp del: of_nat_diff)
  have other: "fat_entry disk mi s' j = fat_entry disk mi s j" if "j \<noteq> i" for j
    unfolding fat_entry_def
  proof (intro le32_cong)
    fix l :: nat
    assume l: "l < 4"
    have "unat j \<noteq> unat i" using that by (simp add: unat_inj)
    with l show "fat_byte disk mi s' (4 * unat j + l) = fat_byte disk mi s (4 * unat j + l)" by (intro same) arith
  qed
  have "fat32_check_bounds i (fat32_mounts s' mi)" using b by (simp add: s'_def fat32_check_bounds_def mt_def)
  from window_read [OF vol this] rd32_wr32_same [OF m] have "fat_entry disk mi s' i = x" by (simp add: s'_def)
  with m vol frame other show ?thesis unfolding s'_def Let_def by blast
qed

lemma set_next_cluster_spec:
  assumes v: "volume alloc mi N s" and i: "unat i < N"
  shows "\<exists>s'. fat32_set_next_cluster alloc fops i x mi s = Some s' \<and> volume alloc mi N s' \<and>
    (\<forall>j. unat j < N \<longrightarrow> fat_entry disk mi s' j = (if j = i then x else fat_entry disk mi s j)) \<and>
    table_frame alloc mi N s s' \<and> fat_search_start (fat32_mounts s' mi) = i"
proof -
  from ensure_window [OF v i] obtain t where t:
    "(if \<not> fat32_check_bounds i (fat32_mounts s mi) then recache_fat32_table alloc fops i mi s else Some s) = Some t"
    "volume alloc mi N t" "fat32_check_bounds i (fat32_mounts t mi)"
    "\<forall>k<4 * N. fat_byte disk mi t k = fat_byte disk mi s k" "table_frame alloc mi N s t" by blast
  let ?mt = "fat32_mounts t mi"
  from window_write [OF t(2,3), of x] obtain m where m:
    "wr32 (fat_cache ?mt + (i - fat_cache_start ?mt) * 4) x (fmem t) = Some m" and s':
    "let s' = t\<lparr>fmem := m, fat32_mounts := (fat32_mounts t)(mi := ?mt\<lparr>cache_dirty := True, fat_search_start := i\<rparr>)\<rparr>
     in volume alloc mi N s' \<and> table_frame alloc mi N t s' \<and> fat_entry disk mi s' i = x \<and>
        (\<forall>j. j \<noteq> i \<longrightarrow> fat_entry disk mi s' j = fat_entry disk mi t j)" by blast
  have mi: "mi < 64" using v by (simp add: fat_ok_def Let_def)
  have "fat32_set_next_cluster alloc fops i x mi s =
      Some (t\<lparr>fmem := m, fat32_mounts := (fat32_mounts t)(mi := ?mt\<lparr>cache_dirty := True, fat_search_start := i\<rparr>)\<rparr>)"
    unfolding fat32_set_next_cluster_def using t(1) m mi by (simp add: mount_at_def upd_mount_def)
  then show ?thesis
    using s' entry_cong [OF t(4)] fat_frame_trans [OF t(5)] by (auto simp: Let_def)
qed

lemma search_start_frame:
  fixes c :: u32
  assumes "volume alloc mi N s"
  defines "s' \<equiv> s\<lparr>fat32_mounts := (fat32_mounts s)(mi := (fat32_mounts s mi)\<lparr>fat_search_start := c\<rparr>)\<rparr>"
  shows "volume alloc mi N s'" "table_frame alloc mi N s s'" "fat_entry disk mi s' j = fat_entry disk mi s j"
proof -
  have st: "ok s'" "disk s' = disk s" "dsize s' = dsize s" "owned s' = owned s"
    using stable [of s s'] assms by (auto simp: fat_ok_def Let_def same_devices_def)
  have e: "fat_base mi s' = fat_base mi s" "cache_ptr alloc mi s' = cache_ptr alloc mi s"
    by (simp_all add: fat_base_def cache_ptr_def Let_def s'_def)
  show "volume alloc mi N s'" using assms(1) st unfolding fat_ok_def Let_def e by (simp add: s'_def)
  show "table_frame alloc mi N s s'" using st e by (simp add: fat_frame_def fat_same_def s'_def mount_rest_def)
  have "fat_byte disk mi s' = fat_byte disk mi s" using st e by (auto simp: fat_byte_def fun_eq_iff Let_def s'_def)
  then show "fat_entry disk mi s' j = fat_entry disk mi s j" by (simp add: fat_entry_def)
qed

text \<open>The search returns the lowest free entry from the hint on, or 0.\<close>

lemma free_cluster_scan_spec:
  assumes "volume alloc mi N s" "unat n \<le> N"
  shows "\<exists>c s'. free_cluster_scan alloc fops mi n i s = Some (c, s') \<and> volume alloc mi N s' \<and>
    (\<forall>j. unat j < N \<longrightarrow> fat_entry disk mi s' j = fat_entry disk mi s j) \<and> table_frame alloc mi N s s' \<and>
    (lowest_free (fat_entry disk mi s) i n c \<and> fat_search_start (fat32_mounts s' mi) = c \<or>
     c = 0 \<and> none_free (fat_entry disk mi s) i n)"
  using assms
proof (induction "unat n - unat i" arbitrary: i s rule: less_induct)
  case less
  show ?case
  proof (cases "i < n")
    case False
    then have "none_free (fat_entry disk mi s) i n" by (auto simp: none_free_def)
    with False less.prems show ?thesis by (simp add: free_cluster_scan.simps [of alloc fops mi n i] fat_frame_refl)
  next
    case True
    then have iN: "unat i < N" using less.prems by (simp add: word_less_nat_alt)
    with less.prems(1) obtain t where t: "fat32_get_next_cluster alloc fops i mi s = Some (fat_entry disk mi s i, t)"
        "volume alloc mi N t" "\<forall>j. unat j < N \<longrightarrow> fat_entry disk mi t j = fat_entry disk mi s j" "table_frame alloc mi N s t"
      using get_next_cluster_spec by blast
    have mi: "mi < 64" using less.prems by (simp add: fat_ok_def Let_def)
    show ?thesis
    proof (cases "fat_entry disk mi s i = 0")
      case z: True
      define s' where "s' = t\<lparr>fat32_mounts := (fat32_mounts t)(mi := (fat32_mounts t mi)\<lparr>fat_search_start := i\<rparr>)\<rparr>"
      have "free_cluster_scan alloc fops mi n i s = Some (i, s')"
        using t z True mi by (simp add: free_cluster_scan.simps [of alloc fops mi n i] upd_mount_def s'_def)
      moreover have "lowest_free (fat_entry disk mi s) i n i" using z True by (auto simp: lowest_free_def)
      ultimately show ?thesis using search_start_frame [OF t(2), of i] t(3) fat_frame_trans [OF t(4)]
        by (auto simp: s'_def)
    next
      case nz: False
      have scan: "free_cluster_scan alloc fops mi n i s = free_cluster_scan alloc fops mi n (i + 1) t"
        using t nz True by (simp add: free_cluster_scan.simps [of alloc fops mi n i])
      have tab: "fat_entry disk mi t j = fat_entry disk mi s j" if "j < n" for j
        using t(3) that less.prems by (simp add: word_less_nat_alt)
      have "\<exists>c s'. free_cluster_scan alloc fops mi n (i + 1) t = Some (c, s') \<and> volume alloc mi N s' \<and>
        (\<forall>j. unat j < N \<longrightarrow> fat_entry disk mi s' j = fat_entry disk mi t j) \<and> table_frame alloc mi N t s' \<and>
        (lowest_free (fat_entry disk mi t) (i + 1) n c \<and> fat_search_start (fat32_mounts s' mi) = c \<or>
         c = 0 \<and> none_free (fat_entry disk mi t) (i + 1) n)"
        by (rule less.hyps) (use True t less.prems in \<open>simp_all add: word_loop_measure\<close>)
      then show ?thesis
        unfolding scan using t(3) fat_frame_trans [OF t(4)] lowest_free_step [where tab = "fat_entry disk mi s" and tab' = "fat_entry disk mi t", OF True nz tab] by auto
    qed
  qed
qed

end

subsection \<open>A volume on a file in memory\<close>

definition ram_disk :: "u32 \<Rightarrow> ('h, 'b) fat_state_scheme \<Rightarrow> nat \<Rightarrow> u8" where
  "ram_disk src s k = (let v = the (vfiles s src) in
     if k < unat (f_size v) then the (fmem s (f_private v + of_nat k)) else 0)"

definition ram_size :: "u32 \<Rightarrow> ('h, 'b) fat_state_scheme \<Rightarrow> nat" where
  "ram_size src s = unat (f_size (the (vfiles s src)))"

definition ram_owned :: "u32 \<Rightarrow> ('h, 'b) fat_state_scheme \<Rightarrow> u32 \<Rightarrow> bool" where
  "ram_owned src s a \<longleftrightarrow> (let v = the (vfiles s src) in span (f_private v) (unat (f_size v)) a)"

definition ram_ok ::
    "'h allocator \<Rightarrow> (u32 \<Rightarrow> 'h \<Rightarrow> 'h option) \<Rightarrow> (u32 \<Rightarrow> ('h, 'b) fat_state_scheme fileops_t) \<Rightarrow> u32 \<Rightarrow>
     ('h, 'b) fat_state_scheme \<Rightarrow> bool" where
  "ram_ok alloc free fops src s \<longleftrightarrow> src \<noteq> 0 \<and>
     (case vfiles s src of None \<Rightarrow> False
      | Some v \<Rightarrow> f_ops v \<noteq> 0 \<and> op_read (fops (f_ops v)) = Some ramfs_read \<and>
          op_write (fops (f_ops v)) = Some (ramfs_write alloc free) \<and> f_private v \<noteq> 0 \<and>
          f_flags v AND (FS_FILE_READ_ONLY OR FS_FILE_IS_DIR OR FS_FILE_MOUNT) = 0 \<and>
          unat (f_size v) + 4096 < 2 ^ 32 \<and> mapped (fmem s) (f_private v) (unat (f_size v)))"

lemma ram_okE:
  assumes "ram_ok alloc free fops src s"
  obtains v where "vfiles s src = Some v" "src \<noteq> 0" "f_ops v \<noteq> 0" "op_read (fops (f_ops v)) = Some ramfs_read"
    "op_write (fops (f_ops v)) = Some (ramfs_write alloc free)" "f_private v \<noteq> 0"
    "f_flags v AND (FS_FILE_READ_ONLY OR FS_FILE_IS_DIR OR FS_FILE_MOUNT) = 0"
    "unat (f_size v) + 4096 < 2 ^ 32" "mapped (fmem s) (f_private v) (unat (f_size v))"
  using assms by (auto simp: ram_ok_def split: option.splits)

text \<open>A buffer outside the bytes of the file.\<close>

lemma file_apart:
  assumes out: "\<forall>i<n. \<not> span p z (buf + of_nat i)" and fit: "o1 + n \<le> z" "z \<le> 2 ^ 32"
  shows "apart (p + of_nat o1) n buf n" "apart buf n (p + of_nat o1) n"
proof -
  have inside: "span p z (p + of_nat o1 + of_nat i)" if "i < n" for i
    using span_at [of "o1 + i" z p] fit that by (simp add: add.assoc)
  show "apart (p + of_nat o1) n buf n"
    unfolding apart_def using out inside by (metis span_offset)
  show "apart buf n (p + of_nat o1) n"
    unfolding apart_def using out inside by (metis span_offset)
qed

lemma overlay_part:
  assumes "o1 + n \<le> z" "z < 2 ^ 32" "k < z"
  shows "overlay (p + of_nat o1) n f m (p + of_nat k) =
    (if o1 \<le> k \<and> k < o1 + n then Some (f (k - o1)) else m (p + of_nat k))"
proof (cases "o1 \<le> k")
  case True
  then have e: "p + of_nat k = p + of_nat o1 + of_nat (k - o1)" by (simp flip: of_nat_add)
  have "unat (p + of_nat k - (p + of_nat o1)) = k - o1"
    unfolding e using assms unat_of_nat_lt [where 'a = 32, of "k - o1"] by (simp del: of_nat_diff)
  then show ?thesis using True by (auto simp: overlay_def span_def)
next
  case False
  have "\<not> span (p + of_nat o1) n (p + of_nat k)"
  proof
    assume "span (p + of_nat o1) n (p + of_nat k)"
    then obtain i where "i < n" "p + of_nat k = p + of_nat o1 + of_nat i" by (rule span_offset)
    then have "(of_nat k :: u32) = of_nat (o1 + i)" by (simp add: add.assoc)
    then have "k = o1 + i" by (rule u32_of_nat_inj) (use assms \<open>i < n\<close> in simp_all)
    with False show False by simp
  qed
  then show ?thesis using False by (simp add: overlay_off)
qed

lemma ram_read_law:
  fixes s :: "('h, 'b) fat_state_scheme"
  assumes ok: "ram_ok alloc free fops src s" and buf: "buf \<noteq> 0" "mapped (fmem s) buf (unat n)"
    "\<forall>i<unat n. \<not> ram_owned src s (buf + of_nat i)"
    and n: "0 < n" "unat n < 2 ^ 32" "unat off + unat n \<le> ram_size src s"
  shows "\<exists>r. fread fops src buf off n s =
    Some (r, s\<lparr>fmem := overlay buf (unat n) (\<lambda>i. ram_disk src s (unat off + i)) (fmem s)\<rparr>)"
proof -
  obtain v where v: "vfiles s src = Some v" "src \<noteq> 0" "f_ops v \<noteq> 0" "op_read (fops (f_ops v)) = Some ramfs_read"
    "f_private v \<noteq> 0" "f_flags v AND (FS_FILE_READ_ONLY OR FS_FILE_IS_DIR OR FS_FILE_MOUNT) = 0"
    "unat (f_size v) + 4096 < 2 ^ 32" "mapped (fmem s) (f_private v) (unat (f_size v))"
    using ok by (rule ram_okE)
  have fit: "unat off + unat n \<le> unat (f_size v)" using n(3) v(1) by (simp add: ram_size_def)
  have room: "file_room v (unat (f_size v))" using v by (simp add: file_room_def)
  have cast: "(ucast off :: u32) = of_nat (unat off)" "(ucast n :: u32) = of_nat (unat n)"
    using narrow_of_nat [of "unat off"] narrow_of_nat [of "unat n"] fit v(7) n(2) by simp_all
  have "memcpy_b (f_private v + of_nat (unat off)) buf (of_nat (unat n)) (fmem s) =
      Some (overlay buf (unat n) (\<lambda>i. ram_disk src s (unat off + i)) (fmem s))"
  proof (rule memcpy_overlay [OF buf(2) _ _ n(2)])
    show "apart (f_private v + of_nat (unat off)) (unat n) buf (unat n)"
      using buf(3) v(1,7) fit by (intro file_apart(1)) (auto simp: ram_owned_def)
    fix i
    assume "i < unat n"
    then show "fmem s (f_private v + of_nat (unat off) + of_nat i) = Some (ram_disk src s (unat off + i))"
      using fit v(1) mapped_at [OF v(8), of "unat off + i"] by (auto simp: ram_disk_def add.assoc)
  qed
  from this [folded cast] show ?thesis
    using v(1-5) buf(1) n(1) file_room_flags [OF room] by (simp add: fread_def ramfs_read_def)
qed

lemma ram_write_law:
  fixes s :: "('h, 'b) fat_state_scheme"
  assumes ok: "ram_ok alloc free fops src s" and buf: "buf \<noteq> 0" "mapped (fmem s) buf (unat n)"
    "\<forall>i<unat n. \<not> ram_owned src s (buf + of_nat i)"
    and n: "0 < n" "unat n < 2 ^ 32" "unat off + unat n \<le> ram_size src s"
  defines "p \<equiv> f_private (the (vfiles s src))"
  shows "\<exists>r. fwrite fops src buf off n s =
    Some (r, s\<lparr>fmem := overlay (p + of_nat (unat off)) (unat n) (\<lambda>i. the (fmem s (buf + of_nat i))) (fmem s)\<rparr>)"
proof -
  obtain v where v: "vfiles s src = Some v" "src \<noteq> 0" "f_ops v \<noteq> 0" "op_write (fops (f_ops v)) = Some (ramfs_write alloc free)"
    "f_private v \<noteq> 0" "f_flags v AND (FS_FILE_READ_ONLY OR FS_FILE_IS_DIR OR FS_FILE_MOUNT) = 0"
    "unat (f_size v) + 4096 < 2 ^ 32" "mapped (fmem s) (f_private v) (unat (f_size v))"
    using ok by (rule ram_okE)
  have fit: "unat off + unat n \<le> unat (f_size v)" using n(3) v(1) by (simp add: ram_size_def)
  have "ramfs_write alloc free src buf (of_nat (unat off)) (of_nat (unat n)) s =
    Some (of_nat (unat n), s\<lparr>vfiles := (vfiles s)(src \<mapsto> v\<lparr>f_size := of_nat (max (unat off + unat n) (unat (f_size v)))\<rparr>),
      fmem := overlay (f_private v + of_nat (unat off)) (unat n) (\<lambda>i. the (fmem s (buf + of_nat i))) (fmem s)\<rparr>)"
  proof (rule ramfs_write_fits)
    show "file_room v (unat off + unat n)" using v fit by (simp add: file_room_def)
    show "mapped (fmem s) (f_private v + of_nat (unat off)) (unat n)" using v(8) fit by (rule mapped_part)
    show "apart buf (unat n) (f_private v + of_nat (unat off)) (unat n)"
      using buf(3) v(1,7) fit by (intro file_apart(2)) (auto simp: ram_owned_def)
    show "fmem s (buf + of_nat i) = Some (the (fmem s (buf + of_nat i)))" if "i < unat n" for i
      using mapped_at [OF buf(2) that] by simp
  qed (use v buf n fit in simp_all)
  moreover have "max (unat off + unat n) (unat (f_size v)) = unat (f_size v)" using fit by simp
  ultimately show ?thesis using v buf(1) n(1) by (auto simp: fwrite_def p_def fun_upd_idem)
qed

lemma ram_stable:
  assumes ok: "ram_ok alloc free fops src s" and eq: "vfiles s' src = vfiles s src"
    "\<forall>a. ram_owned src s a \<longrightarrow> fmem s' a = fmem s a"
  shows "ram_ok alloc free fops src s' \<and> ram_disk src s' = ram_disk src s \<and>
    ram_size src s' = ram_size src s \<and> ram_owned src s' = ram_owned src s"
proof -
  obtain v where v: "vfiles s src = Some v" "unat (f_size v) + 4096 < 2 ^ 32"
      "mapped (fmem s) (f_private v) (unat (f_size v))" using ok by (rule ram_okE)
  have "fmem s' (f_private v + of_nat k) = fmem s (f_private v + of_nat k)" if "k < unat (f_size v)" for k
    using that v eq by (simp add: ram_owned_def)
  with eq(1) v ok show ?thesis
    by (auto simp: ram_ok_def ram_disk_def ram_size_def ram_owned_def mapped_def fun_eq_iff)
qed

lemma ram_written:
  fixes f :: "nat \<Rightarrow> u8"
  assumes ok: "ram_ok alloc free fops src s" and n: "0 < n" "o1 + n \<le> ram_size src s"
  defines "s' \<equiv> s\<lparr>fmem := overlay (f_private (the (vfiles s src)) + of_nat o1) n f (fmem s)\<rparr>"
  shows "ram_ok alloc free fops src s'" "ram_size src s' = ram_size src s" "ram_owned src s' = ram_owned src s"
    and "ram_disk src s' k = (if o1 \<le> k \<and> k < o1 + n then f (k - o1) else ram_disk src s k)"
    and "\<not> ram_owned src s a \<Longrightarrow> fmem s' a = fmem s a"
proof -
  obtain v where v: "vfiles s src = Some v" "unat (f_size v) + 4096 < 2 ^ 32"
      "mapped (fmem s) (f_private v) (unat (f_size v))" using ok by (rule ram_okE)
  have fit: "o1 + n \<le> unat (f_size v)" using n v by (simp add: ram_size_def)
  show "ram_ok alloc free fops src s'" "ram_size src s' = ram_size src s" "ram_owned src s' = ram_owned src s"
    using ok v by (auto simp: ram_ok_def ram_size_def ram_owned_def s'_def mapped_overlay fun_eq_iff)
  have at: "overlay (f_private v + of_nat o1) n f (fmem s) (f_private v + of_nat k) =
      (if o1 \<le> k \<and> k < o1 + n then Some (f (k - o1)) else fmem s (f_private v + of_nat k))" if "k < unat (f_size v)" for k
    using overlay_part [of o1 n "unat (f_size v)" k] fit v(2) that by simp
  show "ram_disk src s' k = (if o1 \<le> k \<and> k < o1 + n then f (k - o1) else ram_disk src s k)"
    using v(1) at fit by (auto simp: ram_disk_def s'_def)
  show "fmem s' a = fmem s a" if "\<not> ram_owned src s a"
  proof -
    have "\<not> span (f_private v + of_nat o1) n a"
    proof
      assume "span (f_private v + of_nat o1) n a"
      then obtain i where "i < n" "a = f_private v + of_nat o1 + of_nat i" by (rule span_offset)
      then have "span (f_private v) (unat (f_size v)) a"
        using span_at [of "o1 + i" "unat (f_size v)" "f_private v"] fit v(2) by (simp add: add.assoc)
      with that v(1) show False by (simp add: ram_owned_def)
    qed
    then show ?thesis using v(1) by (simp add: s'_def overlay_off)
  qed
qed

interpretation ram: mounted_disk fops src "ram_disk src" "ram_size src" "ram_owned src" "ram_ok alloc free fops src"
  for alloc :: "'h allocator" and free and fops :: "u32 \<Rightarrow> ('h, 'b) fat_state_scheme fileops_t" and src
proof (unfold_locales, goal_cases)
  case (1 s buf n off)
  then obtain r where r: "fread fops src buf off n s =
      Some (r, s\<lparr>fmem := overlay buf (unat n) (\<lambda>i. ram_disk src s (unat off + i)) (fmem s)\<rparr>)"
    using ram_read_law by blast
  let ?s = "s\<lparr>fmem := overlay buf (unat n) (\<lambda>i. ram_disk src s (unat off + i)) (fmem s)\<rparr>"
  have "fmem ?s a = fmem s a" if "ram_owned src s a" for a
    using 1(7) that by (simp add: overlay_off) (metis overlay_off span_offset)
  then show ?case using r ram_stable [OF 1(1), of ?s] by (auto simp: keeps_def)
next
  case (2 s buf n off)
  then obtain r where r: "fwrite fops src buf off n s = Some (r, s\<lparr>fmem := overlay (f_private (the (vfiles s src)) + of_nat (unat off))
      (unat n) (\<lambda>i. the (fmem s (buf + of_nat i))) (fmem s)\<rparr>)"
    using ram_write_law by blast
  have "0 < unat n" using 2 by (simp add: word_less_nat_alt)
  note w = ram_written [OF 2(1) this 2(5), where f = "\<lambda>i. the (fmem s (buf + of_nat i))"]
  let ?s = "s\<lparr>fmem := overlay (f_private (the (vfiles s src)) + of_nat (unat off))
      (unat n) (\<lambda>i. the (fmem s (buf + of_nat i))) (fmem s)\<rparr>"
  have "keeps s ?s" by (simp add: keeps_def)
  moreover have "ram_disk src ?s = (\<lambda>k. if unat off \<le> k \<and> k < unat off + unat n
      then the (fmem s (buf + of_nat (k - unat off))) else ram_disk src s k)" using w(4) by (rule ext)
  moreover have "\<forall>a. \<not> ram_owned src s a \<longrightarrow> fmem ?s a = fmem s a" using w(5) by blast
  ultimately show ?case using r w(1-3) by blast
next
  case (3 s s')
  then show ?case using ram_stable by blast
qed

text \<open>
  A volume on the file at \<open>0x100\<close>: 256 KiB, of which 64 KiB from offset 16384 are the table.  The window
  is in memory at \<open>0x200000\<close> and has been changed: it links cluster 2 to cluster 3, the last one,
  while the table on the disk is still empty.
\<close>

definition fat_mem :: bmem where
  "fat_mem a = Some (if a = 0x200008 then 3 else if 0x20000c \<le> a \<and> a < 0x20000f then 0xff
     else if a = 0x20000f then 0x0f else if 0x114000 \<le> a \<and> a < 0x140000 then ucast a else 0)"

definition fat_mount_example :: fat_mount_t where
  "fat_mount_example = \<lparr>bpb = 0x300, mount_src = 0x100, cache_dirty = True, m_spinlock = \<lparr>lock = False\<rparr>,
     last_free_cluster_count = 0, fat_search_start = 2, max_clusters = 512, fat_start_sector = 32,
     data_start_sector = 160, fat_cache_start = 0, fat_cache_size = 16384, fat_cache = 0x200000\<rparr>"

definition fat_bpb_example :: fat32_bpb_t where
  "fat_bpb_example = \<lparr>bytes_per_sector = 512, sectors_per_cluster = 1, reserved_sectors = 32, fat_count = 1,
     sectors_small = 0, sector_count = 512, sectors_per_fat = 128, root_dir_cluster = 2, fsinfo_sector = 1,
     bpb_signature = 0x29\<rparr>"

definition fat_example :: "mm_state fat_state" where
  "fat_example = \<lparr>pages_st = pages_st fs_example,
     vfiles = [0x100 \<mapsto> zero_vfile\<lparr>f_private := 0x100000, f_size := 0x40000, f_ops := 0x200, block_size_bytes := 512\<rparr>],
     fmem = fat_mem, root_dir = 0x100000, ramfs_ops = 0x200, vfs_lock = \<lparr>lock = False\<rparr>,
     disk_references = 0, ref_parent = (\<lambda>_. 0), partents = (\<lambda>_. zero_partent), partition_lock = \<lparr>lock = False\<rparr>,
     mount_fileops = 0, fat32_mounts = (\<lambda>_. fat_mount_example), bpbs = [0x300 \<mapsto> fat_bpb_example], open_files = Map.empty,
     first_free_open_file_index = 0, open_file_cache_size = 0, open_file_cache = 0, fat32_ops = 0x400\<rparr>"

definition fat_example_ops :: "u32 \<Rightarrow> mm_state fat_state fileops_t" where
  "fat_example_ops = (\<lambda>_. ramfs_fileops kmalloc kfree (\<lambda>_. no_fileops))"

abbreviation (input) ram_volume :: "u32 \<Rightarrow> u32 \<Rightarrow> nat \<Rightarrow> mm_state fat_state \<Rightarrow> bool" where
  "ram_volume src mi N \<equiv> fat_ok (ram_disk src) (ram_size src) (ram_owned src) (ram_ok kmalloc kfree fat_example_ops src) src kmalloc mi N"

lemma fat_example_ok: "ram_volume 0x100 0 16384 fat_example"
proof -
  have all: "mapped (fmem fat_example) p n" for p n by (simp add: mapped_def fat_example_def fat_mem_def)
  have "apart 0x200000 65536 0x100000 0x40000" by (rule apart_far) simp_all
  then show ?thesis using all
    by (simp add: fat_ok_def Let_def cache_ptr_def fat_base_def ram_ok_def ram_owned_def ram_size_def apart_def)
      (simp add: fat_example_def fat_mount_example_def fat_example_ops_def ramfs_fileops_def zero_vfile_def)
qed

text \<open>
  C3. The window of the table that the driver keeps in memory is transparent.  With the table seen as one
  array of entries, cached or on the disk, \<^verbatim>\<open>fat32_get_next_cluster\<close> returns the entry and leaves the
  array as it was, and \<^verbatim>\<open>fat32_set_next_cluster\<close> replaces exactly that entry, whichever window is in
  memory, changed or not, or none yet.  Both keep the volume well-formed and touch no memory but the
  window, no byte of the disk outside the table and no file.
\<close>

theorem fat32_cache_transparent:
  assumes "mounted_disk fops src disk dsize owned ok"
    and "fat_ok disk dsize owned ok src alloc mi N s" "unat i < N"
  shows "(\<exists>s'. fat32_get_next_cluster alloc fops i mi s = Some (fat_entry disk mi s i, s') \<and>
      fat_ok disk dsize owned ok src alloc mi N s' \<and>
      (\<forall>j. unat j < N \<longrightarrow> fat_entry disk mi s' j = fat_entry disk mi s j) \<and>
      fat_frame disk dsize owned alloc mi N s s') \<and>
    (\<exists>s'. fat32_set_next_cluster alloc fops i x mi s = Some s' \<and>
      fat_ok disk dsize owned ok src alloc mi N s' \<and>
      (\<forall>j. unat j < N \<longrightarrow> fat_entry disk mi s' j = (if j = i then x else fat_entry disk mi s j)) \<and>
      fat_frame disk dsize owned alloc mi N s s')"
  using mounted_disk.get_next_cluster_spec [OF assms] mounted_disk.set_next_cluster_spec [OF assms] by blast

theorem fat32_cache_transparent_witness:
  "(\<exists>s'. fat32_get_next_cluster kmalloc fat_example_ops 2 0 fat_example = Some (3, s')) \<and>
   (\<exists>s'. fat32_set_next_cluster kmalloc fat_example_ops 3 5 0 fat_example = Some s' \<and> fat_entry (ram_disk 0x100) 0 s' 2 = 3)"
proof -
  have e: "fat_entry (ram_disk 0x100) 0 fat_example 2 = 3"
    by (simp add: fat_entry_def le32_def fat_byte_def Let_def fat_example_def fat_mount_example_def fat_mem_def)
  have lt: "unat (2 :: u32) < 16384" "unat (3 :: u32) < 16384" by simp_all
  from fat32_cache_transparent [OF ram.mounted_disk_axioms fat_example_ok lt(1)]
    fat32_cache_transparent [OF ram.mounted_disk_axioms fat_example_ok lt(2), of 5] e
  show ?thesis by (force simp: lt)
qed

text \<open>
  C34. \<^verbatim>\<open>fat32_get_free_cluster\<close> returns the lowest free cluster from the search hint on, and the hint moves
  there; when every entry from the hint to the end of the volume is in use it returns 0.  Either way it
  returns, and the table and the volume are as before.
\<close>

theorem fat32_get_free_cluster_lowest:
  assumes "mounted_disk fops src disk dsize owned ok"
    and "fat_ok disk dsize owned ok src alloc mi N s"
    and "bpb_of (fat32_mounts s mi) s = Some b" "fat_entry_count b = Some n" "unat n \<le> N"
  shows "\<exists>c s'. fat32_get_free_cluster alloc fops mi s = Some (c, s') \<and> fat_ok disk dsize owned ok src alloc mi N s' \<and>
    (\<forall>j. unat j < N \<longrightarrow> fat_entry disk mi s' j = fat_entry disk mi s j) \<and> fat_frame disk dsize owned alloc mi N s s' \<and>
    (lowest_free (fat_entry disk mi s) (fat_search_start (fat32_mounts s mi)) n c \<and>
       fat_search_start (fat32_mounts s' mi) = c \<or>
     c = 0 \<and> none_free (fat_entry disk mi s) (fat_search_start (fat32_mounts s mi)) n)"
proof -
  have "mi < 64" using assms(2) by (simp add: fat_ok_def Let_def)
  with mounted_disk.free_cluster_scan_spec [OF assms(1,2,5)] assms(3,4) show ?thesis
    by (simp add: fat32_get_free_cluster_def mount_at_def)
qed

theorem fat32_get_free_cluster_lowest_witness:
  "\<exists>s'. fat32_get_free_cluster kmalloc fat_example_ops 0 fat_example = Some (4, s')"
proof -
  have e: "fat_entry (ram_disk 0x100) 0 fat_example 2 = 3" "fat_entry (ram_disk 0x100) 0 fat_example 3 = 0x0fffffff"
      "fat_entry (ram_disk 0x100) 0 fat_example 4 = 0"
    by (simp_all add: fat_entry_def le32_def fat_byte_def Let_def fat_example_def fat_mount_example_def fat_mem_def)
  have b: "bpb_of (fat32_mounts fat_example 0) fat_example = Some fat_bpb_example" "fat_entry_count fat_bpb_example = Some 352"
      "unat (352 :: u32) \<le> 16384" "fat_search_start (fat32_mounts fat_example 0) = 2"
    by (simp_all add: bpb_of_def fat_entry_count_def fat_example_def fat_mount_example_def fat_bpb_example_def)
  have "c = 4" if "lowest_free (fat_entry (ram_disk 0x100) 0 fat_example) 2 352 c" for c
  proof -
    have "\<not> 4 < c" using that e(3) by (auto simp: lowest_free_def)
    moreover have "2 \<le> c" "c \<noteq> 2" "c \<noteq> 3" using that e by (auto simp: lowest_free_def)
    ultimately show ?thesis by (auto simp: word_less_nat_alt word_le_nat_alt word_unat_eq_iff)
  qed
  moreover have "\<not> none_free (fat_entry (ram_disk 0x100) 0 fat_example) 2 352" using e(3) by (auto simp: none_free_def intro: exI [of _ 4])
  ultimately show ?thesis
    using fat32_get_free_cluster_lowest [OF ram.mounted_disk_axioms fat_example_ok b(1-3)] unfolding b(4) by metis
qed

end
