(* ===== verification/FatFile.thy ===== *)
theory FatFile
  imports FatTable
begin

text \<open>
  Files on a FAT32 volume (\<^verbatim>\<open>src/kmodules/fs_driver.c\<close>): reading through the chain of clusters of a file.

  Offsets on the disk are computed at 32 bits before they are widened, as in the source.  A pointer
  \<^verbatim>\<open>mount\<close> into the array of mounts is read once at the start of an operation: its fields that are
  read later are assigned by \<^verbatim>\<open>fat32_mount\<close> only.

  The lemmas show that reading follows the chain: whatever part of the table is in memory, the
  buffer receives the bytes of the clusters of the file in order.
\<close>

subsection \<open>Operations\<close>

text \<open>The instruction \<^verbatim>\<open>divl\<close> faults when the quotient does not fit into 32 bits.\<close>

definition udiv64 :: "u64 \<Rightarrow> u32 \<Rightarrow> u32 option" where
  "udiv64 dividend divisor =
     (if divisor \<le> ucast (drop_bit 32 dividend) then None else Some (ucast (dividend div ucast divisor)))"

definition cluster_size_bytes :: "fat32_bpb_t \<Rightarrow> u32" where
  "cluster_size_bytes b = ucast (bytes_per_sector b) * ucast (sectors_per_cluster b)"

definition cluster_offset :: "fat_mount_t \<Rightarrow> fat32_bpb_t \<Rightarrow> u32 \<Rightarrow> u64" where
  "cluster_offset mt b cluster = ucast ((cluster - 2) * cluster_size_bytes b) +
     ucast (data_start_sector mt * ucast (bytes_per_sector b))"

text \<open>The loop of \<^verbatim>\<open>fat32_read\<close> up to the first cluster; \<open>None\<close> in the result means that the chain ended.\<close>

primrec skip_clusters ::
    "'h allocator \<Rightarrow> (u32 \<Rightarrow> ('h, 'b) fat_state_scheme fileops_t) \<Rightarrow> u32 \<Rightarrow> nat \<Rightarrow> u32 \<Rightarrow>
     ('h, 'b) fat_state_scheme \<Rightarrow> (u32 option \<times> ('h, 'b) fat_state_scheme) option" where
  "skip_clusters alloc fops mi 0 cluster s = Some (Some cluster, s)"
| "skip_clusters alloc fops mi (Suc n) cluster s = do {
     (cluster, s) \<leftarrow> fat32_get_next_cluster alloc fops cluster mi s;
     if cluster \<ge> FAT32_EOC_MIN then Some (None, s) else skip_clusters alloc fops mi n cluster s
   }"

text \<open>The main loop of \<^verbatim>\<open>fat32_read\<close>; the result is the value of an early return, if any.\<close>

partial_function (option) read_clusters ::
    "'h allocator \<Rightarrow> (u32 \<Rightarrow> ('h, 'b) fat_state_scheme fileops_t) \<Rightarrow> u32 \<Rightarrow> fat_mount_t \<Rightarrow> fat32_bpb_t \<Rightarrow>
     u32 \<Rightarrow> u32 \<Rightarrow> u64 \<Rightarrow> u32 \<Rightarrow> u32 \<Rightarrow> ('h, 'b) fat_state_scheme \<Rightarrow>
     (u32 option \<times> ('h, 'b) fat_state_scheme) option" where
  "read_clusters alloc fops mi mt b buffer clusters_to_read remaining_count i cluster s =
     (if remaining_count > 0
      then do {
        let csz = cluster_size_bytes b;
        let part = (if remaining_count < ucast csz then remaining_count else ucast csz);
        (r, s) \<leftarrow> fread fops (mount_src mt) (buffer + i * csz) (cluster_offset mt b cluster) part s;
        let remaining_count = remaining_count - part;
        (cluster, s) \<leftarrow> fat32_get_next_cluster alloc fops cluster mi s;
        if cluster \<ge> FAT32_EOC_MIN \<and> i < clusters_to_read - 1 then Some (Some ((i + 1) * csz), s)
        else read_clusters alloc fops mi mt b buffer clusters_to_read remaining_count (i + 1) cluster s
      }
      else Some (None, s))"

text \<open>The rest of \<^verbatim>\<open>fat32_read\<close>, from the cluster that holds \<^verbatim>\<open>offset\<close> on: a first part that does not begin
  at a cluster boundary, then whole clusters.\<close>

definition read_from ::
    "'h allocator \<Rightarrow> (u32 \<Rightarrow> ('h, 'b) fat_state_scheme fileops_t) \<Rightarrow> u32 \<Rightarrow> fat_mount_t \<Rightarrow> fat32_bpb_t \<Rightarrow>
     u32 \<Rightarrow> u64 \<Rightarrow> u64 \<Rightarrow> u32 \<Rightarrow> u32 \<Rightarrow> ('h, 'b) fat_state_scheme \<Rightarrow> (u32 \<times> ('h, 'b) fat_state_scheme) option" where
  "read_from alloc fops mi mt b buffer offset cnt clusters_to_read cluster s =
     (let csz = cluster_size_bytes b in
      if offset AND ucast (csz - 1) \<noteq> 0
      then do {
        let offset_in_cluster = (ucast (offset AND ucast (csz - 1)) :: u32);
        let rest = (ucast (csz - offset_in_cluster) :: u64);
        (r, s) \<leftarrow> fread fops (mount_src mt) buffer (cluster_offset mt b cluster + ucast offset_in_cluster)
                    (if rest > cnt then cnt else rest) s;
        if rest > cnt then Some (ucast cnt, s)
        else do {
          let buffer = buffer + (csz - offset_in_cluster);
          (cluster, s) \<leftarrow> fat32_get_next_cluster alloc fops cluster mi s;
          let remaining_count = cnt - rest;
          if cluster \<ge> FAT32_EOC_MIN then Some (ucast (cnt - remaining_count), s)
          else do {
            (e, s) \<leftarrow> read_clusters alloc fops mi mt b buffer clusters_to_read remaining_count 0 cluster s;
            Some (case e of Some r \<Rightarrow> r | None \<Rightarrow> ucast cnt, s)
          }
        }
      }
      else do {
        (e, s) \<leftarrow> read_clusters alloc fops mi mt b buffer clusters_to_read cnt 0 cluster s;
        Some (case e of Some r \<Rightarrow> r | None \<Rightarrow> ucast cnt, s)
      })"

definition fat32_read ::
    "'h allocator \<Rightarrow> (u32 \<Rightarrow> ('h, 'b) fat_state_scheme fileops_t) \<Rightarrow> u32 \<Rightarrow> u32 \<Rightarrow> u64 \<Rightarrow> u64 \<Rightarrow>
     ('h, 'b) fat_state_scheme \<Rightarrow> (u32 \<times> ('h, 'b) fat_state_scheme) option" where
  "fat32_read alloc fops file buffer offset cnt s = do {
     v \<leftarrow> vfiles s file;
     f \<leftarrow> open_files s (f_private v);
     let mi = mount_index f;
     mt \<leftarrow> mount_at mi s;
     b \<leftarrow> bpb_of mt s;
     let csz = cluster_size_bytes b;
     clusters_until_start \<leftarrow> udiv64 offset csz;
     clusters_to_read \<leftarrow> udiv64 (cnt + ucast csz - 1) csz;
     (c, s) \<leftarrow> skip_clusters alloc fops mi (unat clusters_until_start) (first_cluster f) s;
     case c of None \<Rightarrow> Some (0, s)
     | Some cluster \<Rightarrow> read_from alloc fops mi mt b buffer offset cnt clusters_to_read cluster s
   }"

subsection \<open>The clusters of a file\<close>

text \<open>\<open>chain tab c cs\<close>: the clusters \<open>cs\<close>, from \<open>c\<close> on, are linked by the table and end with an end mark.\<close>

fun chain :: "(u32 \<Rightarrow> u32) \<Rightarrow> u32 \<Rightarrow> u32 list \<Rightarrow> bool" where
  "chain tab c [] \<longleftrightarrow> False"
| "chain tab c [x] \<longleftrightarrow> x = c \<and> FAT32_EOC_MIN \<le> tab c"
| "chain tab c (x # y # ys) \<longleftrightarrow> x = c \<and> tab c = y \<and> y < FAT32_EOC_MIN \<and> chain tab y (y # ys)"

definition data_base :: "u32 \<Rightarrow> fat32_bpb_t \<Rightarrow> ('h, 'b) fat_state_scheme \<Rightarrow> nat" where
  "data_base mi b s = unat (data_start_sector (fat32_mounts s mi)) * unat (bytes_per_sector b)"

definition cluster_at :: "u32 \<Rightarrow> fat32_bpb_t \<Rightarrow> ('h, 'b) fat_state_scheme \<Rightarrow> u32 \<Rightarrow> nat" where
  "cluster_at mi b s c = data_base mi b s + (unat c - 2) * unat (cluster_size_bytes b)"

text \<open>A cluster of the volume: its offsets fit into the widths the driver computes with, and the data lies
  behind the table.\<close>

definition data_ok :: "(('h, 'b) fat_state_scheme \<Rightarrow> nat) \<Rightarrow> u32 \<Rightarrow> nat \<Rightarrow> fat32_bpb_t \<Rightarrow> ('h, 'b) fat_state_scheme \<Rightarrow> u32 \<Rightarrow> bool" where
  "data_ok dsize mi N b s c \<longleftrightarrow> 2 \<le> unat c \<and> unat c < N \<and> 0 < unat (cluster_size_bytes b) \<and>
     data_base mi b s < 2 ^ 32 \<and> fat_base mi s + 4 * N \<le> data_base mi b s \<and>
     (unat c - 2) * unat (cluster_size_bytes b) < 2 ^ 32 \<and>
     cluster_at mi b s c + unat (cluster_size_bytes b) \<le> dsize s"

definition file_byte ::
    "(('h, 'b) fat_state_scheme \<Rightarrow> nat \<Rightarrow> u8) \<Rightarrow> u32 \<Rightarrow> fat32_bpb_t \<Rightarrow> ('h, 'b) fat_state_scheme \<Rightarrow> u32 list \<Rightarrow> nat \<Rightarrow> u8" where
  "file_byte disk mi b s cs k = (let z = unat (cluster_size_bytes b) in
     disk s (cluster_at mi b s (cs ! (k div z)) + k mod z))"

text \<open>A buffer of the caller: mapped, apart from the window and from what the disk keeps in memory.\<close>

definition buffer_ok ::
    "(('h, 'b) fat_state_scheme \<Rightarrow> u32 \<Rightarrow> bool) \<Rightarrow> 'h allocator \<Rightarrow> u32 \<Rightarrow> ('h, 'b) fat_state_scheme \<Rightarrow> u32 \<Rightarrow> nat \<Rightarrow> bool" where
  "buffer_ok owned alloc mi s p n \<longleftrightarrow> p \<noteq> 0 \<and> unat p + n \<le> 2 ^ 32 \<and> mapped (fmem s) p n \<and>
     (\<forall>i<n. \<not> owned s (p + of_nat i)) \<and> apart p n (cache_ptr alloc mi s) 65536"

lemma cluster_size_mult: "unat (cluster_size_bytes b) = unat (bytes_per_sector b) * unat (sectors_per_cluster b)"
proof -
  have "unat (bytes_per_sector b) < 2 ^ 16" "unat (sectors_per_cluster b) < 2 ^ 8"
    using unsigned_less [of "bytes_per_sector b"] unsigned_less [of "sectors_per_cluster b"] by simp_all
  then have "unat (bytes_per_sector b) * unat (sectors_per_cluster b) \<le> 2 ^ 16 * 2 ^ 8" by (intro mult_le_mono) simp_all
  then show ?thesis unfolding cluster_size_bytes_def by (subst unat_mult_lt) (simp_all add: unat_ucast_up)
qed

lemma cluster_size_less: "unat (cluster_size_bytes b) < 2 ^ 24"
proof -
  have "unat (bytes_per_sector b) < 2 ^ 16" "unat (sectors_per_cluster b) < 2 ^ 8"
    using unsigned_less [of "bytes_per_sector b"] unsigned_less [of "sectors_per_cluster b"] by simp_all
  then have "unat (bytes_per_sector b) * unat (sectors_per_cluster b) < 2 ^ 16 * 2 ^ 8" by (intro mult_strict_mono) simp_all
  then show ?thesis by (simp add: cluster_size_mult)
qed

lemma unat_cluster_offset:
  assumes d: "data_ok dsize mi N b s c" and mt: "mount_rest (fat32_mounts s mi) = mount_rest mt"
  shows "unat (cluster_offset mt b c) = cluster_at mi b s c"
proof -
  have ds: "data_start_sector mt = data_start_sector (fat32_mounts s mi)" using mount_rest_fields(5) [OF mt] by simp
  have "unat (c - 2) = unat c - 2" using d by (simp add: data_ok_def unat_sub word_le_nat_alt)
  then have c: "unat ((c - 2) * cluster_size_bytes b) = (unat c - 2) * unat (cluster_size_bytes b)"
    using d by (subst unat_mult_lt) (simp_all add: data_ok_def)
  have b: "unat (data_start_sector mt * ucast (bytes_per_sector b)) = data_base mi b s"
    using d by (subst unat_mult_lt) (simp_all add: data_ok_def data_base_def unat_ucast_up ds)
  show ?thesis unfolding cluster_offset_def cluster_at_def
    using d by (subst unat_add_lt) (simp_all add: unat_ucast_up c b data_ok_def)
qed

lemma data_same:
  assumes "fat_same disk dsize owned alloc mi N s s'"
  shows "data_base mi b s' = data_base mi b s" "cluster_at mi b s' c = cluster_at mi b s c"
    and "data_ok dsize mi N b s' c = data_ok dsize mi N b s c"
proof -
  show 1: "data_base mi b s' = data_base mi b s"
    using assms mount_rest_fields(5) [of "fat32_mounts s' mi" "fat32_mounts s mi"] by (simp add: fat_same_def data_base_def)
  then show "cluster_at mi b s' c = cluster_at mi b s c" by (simp add: cluster_at_def)
  with 1 assms show "data_ok dsize mi N b s' c = data_ok dsize mi N b s c" by (simp add: data_ok_def fat_same_def)
qed

lemma data_bytes_same:
  assumes "fat_same disk dsize owned alloc mi N s s'" "data_ok dsize mi N b s c"
  shows "disk s' (cluster_at mi b s c + k) = disk s (cluster_at mi b s c + k)"
  using assms by (simp add: fat_same_def data_ok_def cluster_at_def)

lemma buffer_part:
  assumes "buffer_ok owned alloc mi s p n" "o1 + k \<le> n" "0 < k"
  shows "buffer_ok owned alloc mi s (p + of_nat o1) k"
proof -
  have p: "p \<noteq> 0" "unat p + n \<le> 2 ^ 32" "mapped (fmem s) p n" "\<forall>i<n. \<not> owned s (p + of_nat i)"
    "apart p n (cache_ptr alloc mi s) 65536" using assms(1) by (auto simp: buffer_ok_def)
  have "unat (of_nat o1 :: u32) = o1" using p assms by (intro unat_of_nat_lt) simp
  then have u: "unat (p + of_nat o1) = unat p + o1" using p assms by (subst unat_add_lt) simp_all
  then have "p + of_nat o1 \<noteq> 0" using p(1) by (metis add_is_0 unat_0 unat_eq_0)
  moreover have e: "p + of_nat o1 + of_nat i = p + of_nat (o1 + i)" for i by (simp add: add.assoc)
  ultimately show ?thesis
    using p assms(2) u mapped_part [OF p(3) assms(2)] unfolding buffer_ok_def apart_def e by (auto simp del: of_nat_add)
qed

lemma chain_cong:
  assumes "\<And>x. x \<in> set cs \<Longrightarrow> tab' x = tab x"
  shows "chain tab' c cs \<longleftrightarrow> chain tab c cs"
  using assms by (induction tab c cs rule: chain.induct) auto

lemma chain_hd: "chain tab c cs \<Longrightarrow> \<exists>ds. cs = c # ds"
  by (induction tab c cs rule: chain.induct) auto

lemma file_byte_first: "k < unat (cluster_size_bytes b) \<Longrightarrow> file_byte disk mi b s (c # cs) k = disk s (cluster_at mi b s c + k)"
  by (simp add: file_byte_def Let_def)

lemma file_byte_next:
  assumes "unat (cluster_size_bytes b) \<le> k" "0 < unat (cluster_size_bytes b)"
  shows "file_byte disk mi b s (c # cs) k = file_byte disk mi b s cs (k - unat (cluster_size_bytes b))"
  using assms by (simp add: file_byte_def Let_def le_div_geq le_mod_geq)

lemma file_byte_same:
  assumes "fat_same disk dsize owned alloc mi N s s'" "\<forall>c\<in>set cs. data_ok dsize mi N b s c"
    "k < length cs * unat (cluster_size_bytes b)"
  shows "file_byte disk mi b s' cs k = file_byte disk mi b s cs k"
proof -
  have "k div unat (cluster_size_bytes b) < length cs" using assms(3) by (simp add: less_mult_imp_div_less)
  then have "data_ok dsize mi N b s (cs ! (k div unat (cluster_size_bytes b)))" using assms(2) by simp
  from data_bytes_same [OF assms(1) this] show ?thesis by (simp add: file_byte_def Let_def data_same [OF assms(1)])
qed

definition chunks :: "nat \<Rightarrow> nat \<Rightarrow> nat" where
  "chunks z n = (n + z - 1) div z"

lemma chunks_one: "0 < n \<Longrightarrow> n \<le> z \<Longrightarrow> chunks z n = 1"
  by (simp add: chunks_def div_nat_eqI)

lemma chunks_step: "0 < z \<Longrightarrow> z < n \<Longrightarrow> chunks z n = Suc (chunks z (n - z))"
  by (simp add: chunks_def le_div_geq)

subsection \<open>Reading\<close>

context mounted_disk
begin

lemma read_data:
  assumes v: "volume alloc mi N s" and buf: "buffer_ok owned alloc mi s buf n"
    and n: "0 < n" "n < 2 ^ 32" "unat off + n \<le> dsize s"
  shows "\<exists>r s'. fread fops src buf off (of_nat n) s = Some (r, s') \<and> volume alloc mi N s' \<and>
    fat_entry disk mi s' = fat_entry disk mi s \<and> fat_same disk dsize owned alloc mi N s s' \<and>
    (\<forall>a. \<not> owned s a \<longrightarrow> fmem s' a = overlay buf n (\<lambda>i. disk s (unat off + i)) (fmem s) a)"
proof -
  have un: "unat (of_nat n :: u64) = n" using n by (intro unat_of_nat_lt) simp
  have "(0 :: u64) < of_nat n" using un n(1) by (simp add: word_less_nat_alt)
  then have "\<exists>r s'. fread fops src buf off (of_nat n) s = Some (r, s') \<and> keeps s s' \<and> ok s' \<and> disk s' = disk s \<and>
      dsize s' = dsize s \<and> owned s' = owned s \<and>
      (\<forall>a. \<not> owned s a \<longrightarrow> fmem s' a = overlay buf (unat (of_nat n :: u64)) (\<lambda>i. disk s (unat off + i)) (fmem s) a)"
    by (intro read_law) (use v buf n un in \<open>auto simp: fat_ok_def Let_def buffer_ok_def\<close>)
  then obtain r s' where f: "fread fops src buf off (of_nat n) s = Some (r, s')" "keeps s s'" "ok s'" "disk s' = disk s"
      "dsize s' = dsize s" "owned s' = owned s"
      "\<forall>a. \<not> owned s a \<longrightarrow> fmem s' a = overlay buf n (\<lambda>i. disk s (unat off + i)) (fmem s) a" unfolding un by blast
  have e: "fat_base mi s' = fat_base mi s" "cache_ptr alloc mi s' = cache_ptr alloc mi s" "fat32_mounts s' = fat32_mounts s"
    using f(2) by (simp_all add: fat_base_def cache_ptr_def Let_def keeps_def)
  have c: "fmem s' (cache_ptr alloc mi s + of_nat j) = fmem s (cache_ptr alloc mi s + of_nat j)" if "j < 65536" for j
  proof -
    have "\<not> span buf n (cache_ptr alloc mi s + of_nat j)"
    proof
      assume "span buf n (cache_ptr alloc mi s + of_nat j)"
      then obtain i where "i < n" "cache_ptr alloc mi s + of_nat j = buf + of_nat i" by (rule span_offset)
      moreover have "apart buf n (cache_ptr alloc mi s) 65536" using buf by (simp add: buffer_ok_def)
      ultimately show False using apart_ne [of buf n "cache_ptr alloc mi s" 65536 i j] that by simp
    qed
    moreover have "\<not> owned s (cache_ptr alloc mi s + of_nat j)" using v that by (simp add: fat_ok_def Let_def)
    ultimately show ?thesis using f(7) by (simp add: overlay_off)
  qed
  have "mapped (fmem s') (cache_ptr alloc mi s) 65536" using v c by (simp add: mapped_def fat_ok_def Let_def)
  then have "volume alloc mi N s'"
    using v c f(2-6) unfolding fat_ok_def Let_def e by (simp add: keeps_def)
  moreover have "fat_byte disk mi s' k = fat_byte disk mi s k" for k
    using v c [of "k - 4 * unat (fat_cache_start (fat32_mounts s mi))"]
    by (auto simp: fat_byte_def Let_def e f(4) cache_ptr_def fat_ok_def simp del: of_nat_diff)
  then have "fat_entry disk mi s' = fat_entry disk mi s" by (auto simp: fat_entry_def fun_eq_iff intro: le32_cong)
  moreover have "fat_same disk dsize owned alloc mi N s s'" using f(2-6) e by (simp add: fat_same_def keeps_def)
  ultimately show ?thesis using f(1,7) by blast
qed

text \<open>What reading \<open>n\<close> bytes into a buffer does to memory.\<close>

definition got :: "'h allocator \<Rightarrow> u32 \<Rightarrow> ('h, 'b) fat_state_scheme \<Rightarrow> u32 \<Rightarrow> nat \<Rightarrow> (nat \<Rightarrow> u8) \<Rightarrow> ('h, 'b) fat_state_scheme \<Rightarrow> bool" where
  "got alloc mi s p n g s' \<longleftrightarrow>
     (\<forall>a. \<not> owned s a \<and> \<not> span (cache_ptr alloc mi s) 65536 a \<longrightarrow> fmem s' a = overlay p n g (fmem s) a)"

abbreviation same_table :: "u32 \<Rightarrow> nat \<Rightarrow> ('h, 'b) fat_state_scheme \<Rightarrow> ('h, 'b) fat_state_scheme \<Rightarrow> bool" where
  "same_table mi N s s' \<equiv> \<forall>j. unat j < N \<longrightarrow> fat_entry disk mi s' j = fat_entry disk mi s j"

abbreviation same_volume :: "'h allocator \<Rightarrow> u32 \<Rightarrow> nat \<Rightarrow> ('h, 'b) fat_state_scheme \<Rightarrow> ('h, 'b) fat_state_scheme \<Rightarrow> bool" where
  "same_volume alloc mi N s s' \<equiv> volume alloc mi N s' \<and> same_table mi N s s' \<and> fat_same disk dsize owned alloc mi N s s'"

lemma same_volume_trans:
  "same_volume alloc mi N s t \<Longrightarrow> same_volume alloc mi N t u \<Longrightarrow> same_volume alloc mi N s u"
  using fat_same_trans by fastforce

lemma next_cluster:
  assumes "volume alloc mi N s" "unat c < N"
  shows "\<exists>s'. fat32_get_next_cluster alloc fops c mi s = Some (fat_entry disk mi s c, s') \<and>
    same_volume alloc mi N s s' \<and> got alloc mi s p 0 g s'"
  using get_next_cluster_spec [OF assms] by (auto simp: fat_frame_def got_def)

lemma got_trans:
  assumes "got alloc mi s p n g t" "got alloc mi t (p + of_nat n) k h u" "n + k \<le> 2 ^ 32"
    and "fat_same disk dsize owned alloc mi N s t"
  shows "got alloc mi s p (n + k) (\<lambda>i. if i < n then g i else h (i - n)) u"
  unfolding got_def
proof (intro allI impI)
  fix a
  assume a: "\<not> owned s a \<and> \<not> span (cache_ptr alloc mi s) 65536 a"
  then have "fmem u a = overlay (p + of_nat n) k h (fmem t) a" using assms by (simp add: got_def fat_same_def)
  also have "\<dots> = overlay (p + of_nat n) k h (overlay p n g (fmem s)) a"
    using assms(1) a by (simp add: overlay_def got_def)
  also have "\<dots> = overlay p (n + k) (\<lambda>i. if i < n then g i else h (i - n)) (fmem s) a"
    using overlay_append [OF assms(3)] by simp
  finally show "fmem u a = overlay p (n + k) (\<lambda>i. if i < n then g i else h (i - n)) (fmem s) a" .
qed

lemma got_cong: "got alloc mi s p n g s' \<Longrightarrow> (\<And>i. i < n \<Longrightarrow> g i = h i) \<Longrightarrow> got alloc mi s p n h s'"
  unfolding got_def using overlay_cong [of n g h p] by metis

lemma buffer_got:
  assumes "buffer_ok owned alloc mi s q k" "got alloc mi s p n g s'" "fat_same disk dsize owned alloc mi N s s'"
  shows "buffer_ok owned alloc mi s' q k"
proof -
  have "fmem s' (q + of_nat i) \<noteq> None" if "i < k" for i
  proof -
    have "\<not> owned s (q + of_nat i)" "\<not> span (cache_ptr alloc mi s) 65536 (q + of_nat i)" "fmem s (q + of_nat i) \<noteq> None"
      using assms(1) that by (auto simp: buffer_ok_def apart_def mapped_def)
    then show ?thesis using assms(2) by (auto simp: got_def overlay_def)
  qed
  then show ?thesis using assms(1,3) by (simp add: buffer_ok_def fat_same_def mapped_def)
qed

text \<open>Reading inside one cluster.\<close>

lemma read_in_cluster:
  assumes v: "volume alloc mi N s" and c: "data_ok dsize mi N b s c" and mt: "mount_rest (fat32_mounts s mi) = mount_rest mt"
    and buf: "buffer_ok owned alloc mi s buf k" and k: "0 < k" "o1 + k \<le> unat (cluster_size_bytes b)"
  shows "\<exists>r s'. fread fops (mount_src mt) buf (cluster_offset mt b c + of_nat o1) (of_nat k) s = Some (r, s') \<and>
    same_volume alloc mi N s s' \<and> got alloc mi s buf k (\<lambda>i. disk s (cluster_at mi b s c + (o1 + i))) s'"
proof -
  have src: "mount_src mt = src" using v mount_rest_fields(2) [OF mt] by (simp add: fat_ok_def Let_def)
  have o1: "unat (of_nat o1 :: u64) = o1" using k cluster_size_less [of b] by (intro unat_of_nat_lt) simp
  have d: "cluster_at mi b s c < 2 ^ 33" using c by (simp add: data_ok_def cluster_at_def)
  have off: "unat (cluster_offset mt b c + of_nat o1) = cluster_at mi b s c + o1"
    using unat_cluster_offset [OF c mt] o1 d k cluster_size_less [of b] by (subst unat_add_lt) simp_all
  have "unat (cluster_offset mt b c + of_nat o1) + k \<le> dsize s" using off c k by (simp add: data_ok_def)
  from read_data [OF v buf k(1) _ this] show ?thesis
    using k cluster_size_less [of b] unfolding off src got_def by (auto simp: add.assoc)
qed

lemma read_step:
  assumes v: "volume alloc mi N s" and c: "data_ok dsize mi N b s c" and mt: "mount_rest (fat32_mounts s mi) = mount_rest mt"
    and buf: "buffer_ok owned alloc mi s buf k" and k: "0 < k" "o1 + k \<le> unat (cluster_size_bytes b)"
  shows "\<exists>r s1 s2. fread fops (mount_src mt) buf (cluster_offset mt b c + of_nat o1) (of_nat k) s = Some (r, s1) \<and>
    fat32_get_next_cluster alloc fops c mi s1 = Some (fat_entry disk mi s c, s2) \<and>
    same_volume alloc mi N s s2 \<and> got alloc mi s buf k (\<lambda>i. disk s (cluster_at mi b s c + (o1 + i))) s2"
proof -
  from read_in_cluster [OF assms] obtain r s1 where s1:
    "fread fops (mount_src mt) buf (cluster_offset mt b c + of_nat o1) (of_nat k) s = Some (r, s1)"
    "same_volume alloc mi N s s1" "got alloc mi s buf k (\<lambda>i. disk s (cluster_at mi b s c + (o1 + i))) s1" by blast
  have cN: "unat c < N" using c by (simp add: data_ok_def)
  from next_cluster [of alloc mi N s1 c "buf + of_nat k" "\<lambda>_. 0", OF _ cN] s1(2) obtain s2 where s2:
    "fat32_get_next_cluster alloc fops c mi s1 = Some (fat_entry disk mi s1 c, s2)" "same_volume alloc mi N s1 s2"
    "got alloc mi s1 (buf + of_nat k) 0 (\<lambda>_. 0) s2" by blast
  have "got alloc mi s buf (k + 0) (\<lambda>i. if i < k then disk s (cluster_at mi b s c + (o1 + i)) else 0) s2"
    by (rule got_trans [OF s1(3) s2(3)]) (use s1(2) k cluster_size_less [of b] in auto)
  then have "got alloc mi s buf k (\<lambda>i. disk s (cluster_at mi b s c + (o1 + i))) s2"
    by (auto intro: got_cong)
  then show ?thesis using s1 s2 cN same_volume_trans [OF s1(2) s2(2)] by auto
qed

text \<open>
  The loop reads the rest of the chain.  It returns early, with the number of whole clusters, when the
  chain ends in its last round but \<open>clusters_to_read\<close> has not been reached.
\<close>

definition early_return :: "u32 \<Rightarrow> nat \<Rightarrow> u32 \<Rightarrow> nat \<Rightarrow> nat \<Rightarrow> nat \<Rightarrow> u32 option" where
  "early_return csz z ctr n i len =
     (if chunks z n = len \<and> of_nat (i + chunks z n - 1) < ctr - 1 then Some (of_nat (i + chunks z n) * csz) else None)"

lemma early_return_step:
  assumes "0 < z" "z < n"
  shows "early_return csz z ctr (n - z) (Suc i) len = early_return csz z ctr n i (Suc len)"
  using chunks_step [OF assms] by (auto simp: early_return_def)

lemma read_clusters_last:
  assumes v: "volume alloc mi N s" and mt: "mount_rest (fat32_mounts s mi) = mount_rest mt"
    and c: "chain (fat_entry disk mi s) c (c # ds)" "data_ok dsize mi N b s c"
    and n: "0 < n" "n \<le> unat (cluster_size_bytes b)"
    and buf: "buffer_ok owned alloc mi s (buf + of_nat i * cluster_size_bytes b) n"
  shows "\<exists>s'. read_clusters alloc fops mi mt b buf ctr (of_nat n) (of_nat i) c s =
      Some (early_return (cluster_size_bytes b) (unat (cluster_size_bytes b)) ctr n i (Suc (length ds)), s') \<and>
    same_volume alloc mi N s s' \<and>
    got alloc mi s (buf + of_nat i * cluster_size_bytes b) n (file_byte disk mi b s (c # ds)) s'"
proof -
  have un: "unat (of_nat n :: u64) = n" using n cluster_size_less [of b] by (intro unat_of_nat_lt) simp
  have part: "(0 :: u64) < of_nat n" "(if of_nat n < (ucast (cluster_size_bytes b) :: u64) then of_nat n else ucast (cluster_size_bytes b)) = (of_nat n :: u64)"
    using n un by (simp_all add: word_less_nat_alt unat_ucast_up word_unat_eq_iff)
  from read_step [OF v c(2) mt buf n(1), of 0] n(2) obtain r s1 s2 where s:
    "fread fops (mount_src mt) (buf + of_nat i * cluster_size_bytes b) (cluster_offset mt b c) (of_nat n) s = Some (r, s1)"
    "fat32_get_next_cluster alloc fops c mi s1 = Some (fat_entry disk mi s c, s2)" "same_volume alloc mi N s s2"
    "got alloc mi s (buf + of_nat i * cluster_size_bytes b) n (\<lambda>i. disk s (cluster_at mi b s c + i)) s2" by auto
  have g: "got alloc mi s (buf + of_nat i * cluster_size_bytes b) n (file_byte disk mi b s (c # ds)) s2"
    using s(4) by (rule got_cong) (use n in \<open>simp add: file_byte_first\<close>)
  have zero: "read_clusters alloc fops mi mt b buf ctr 0 j d t = Some (None, t)" for j d t
    by (simp add: read_clusters.simps)
  have "FAT32_EOC_MIN \<le> fat_entry disk mi s c \<longleftrightarrow> ds = []"
    using c(1) by (cases ds) (auto simp: not_le [symmetric])
  then have "read_clusters alloc fops mi mt b buf ctr (of_nat n) (of_nat i) c s =
      Some (early_return (cluster_size_bytes b) (unat (cluster_size_bytes b)) ctr n i (Suc (length ds)), s2)"
    using s part by (subst read_clusters.simps) (auto simp: early_return_def chunks_one [OF n] zero Let_def ac_simps)
  with s(3) g show ?thesis by blast
qed

lemma got_file_step:
  assumes "got alloc mi s p (unat (cluster_size_bytes b)) (\<lambda>i. disk s (cluster_at mi b s c + i)) t"
    and "got alloc mi t (p + of_nat (unat (cluster_size_bytes b))) (n - unat (cluster_size_bytes b)) (file_byte disk mi b t ds) u"
    and same: "fat_same disk dsize owned alloc mi N s t"
    and n: "unat (cluster_size_bytes b) < n" "n \<le> Suc (length ds) * unat (cluster_size_bytes b)" "n < 2 ^ 32"
    and ds: "\<forall>c\<in>set (c # ds). data_ok dsize mi N b s c"
  shows "got alloc mi s p n (file_byte disk mi b s (c # ds)) u"
proof -
  let ?z = "unat (cluster_size_bytes b)"
  have "got alloc mi s p (?z + (n - ?z)) (\<lambda>i. if i < ?z then disk s (cluster_at mi b s c + i) else file_byte disk mi b t ds (i - ?z)) u"
    by (rule got_trans [OF assms(1,2) _ same]) (use n in simp)
  moreover have "(if i < ?z then disk s (cluster_at mi b s c + i) else file_byte disk mi b t ds (i - ?z)) =
      file_byte disk mi b s (c # ds) i" if "i < ?z + (n - ?z)" for i
  proof (cases "i < ?z")
    case False
    have "file_byte disk mi b t ds (i - ?z) = file_byte disk mi b s ds (i - ?z)"
      by (rule file_byte_same [OF same]) (use ds n that False in auto)
    then show ?thesis using False ds by (simp add: file_byte_next data_ok_def)
  qed (simp add: file_byte_first)
  ultimately have "got alloc mi s p (?z + (n - ?z)) (file_byte disk mi b s (c # ds)) u" by (rule got_cong)
  then show ?thesis using n(1) by simp
qed

lemma read_clusters_spec:
  assumes "volume alloc mi N s" "mount_rest (fat32_mounts s mi) = mount_rest mt"
    and "chain (fat_entry disk mi s) c cs" "\<forall>c\<in>set cs. data_ok dsize mi N b s c"
    and "0 < n" "n \<le> length cs * unat (cluster_size_bytes b)" "n < 2 ^ 32"
    and "buffer_ok owned alloc mi s (buf + of_nat i * cluster_size_bytes b) n"
  shows "\<exists>s'. read_clusters alloc fops mi mt b buf ctr (of_nat n) (of_nat i) c s =
      Some (early_return (cluster_size_bytes b) (unat (cluster_size_bytes b)) ctr n i (length cs), s') \<and>
    same_volume alloc mi N s s' \<and>
    got alloc mi s (buf + of_nat i * cluster_size_bytes b) n (file_byte disk mi b s cs) s'"
  using assms
proof (induction cs arbitrary: c s n i)
  case (Cons x ds)
  let ?z = "unat (cluster_size_bytes b)"
  have x: "x = c" using Cons.prems(3) chain_hd by blast
  have z: "0 < ?z" using Cons.prems(4) by (simp add: data_ok_def)
  show ?case
  proof (cases "n \<le> ?z")
    case True
    then show ?thesis using read_clusters_last [OF Cons.prems(1,2), of c ds b n buf i ctr] Cons.prems x by simp
  next
    case False
    then obtain d es where ds: "ds = d # es" using Cons.prems(6) by (cases ds) auto
    let ?B = "buf + of_nat i * cluster_size_bytes b"
    have B: "buffer_ok owned alloc mi s ?B ?z" "buffer_ok owned alloc mi s (?B + of_nat ?z) (n - ?z)"
      using buffer_part [OF Cons.prems(8), of 0 ?z] buffer_part [OF Cons.prems(8), of ?z "n - ?z"] False z by simp_all
    have d: "fat_entry disk mi s c = d" "\<not> FAT32_EOC_MIN \<le> d" "chain (fat_entry disk mi s) d ds"
      using Cons.prems(3) by (auto simp: ds x not_le)
    from read_step [where c = c and b = b and ?o1.0 = 0, OF Cons.prems(1) _ Cons.prems(2) B(1) z] Cons.prems(4) x obtain r s1 s2 where s:
      "fread fops (mount_src mt) ?B (cluster_offset mt b c) (of_nat ?z) s = Some (r, s1)"
      "fat32_get_next_cluster alloc fops c mi s1 = Some (d, s2)" "same_volume alloc mi N s s2"
      "got alloc mi s ?B ?z (\<lambda>i. disk s (cluster_at mi b s c + i)) s2" by (auto simp: d)
    have same: "fat_same disk dsize owned alloc mi N s s2" using s(3) by simp
    have un: "unat (of_nat n :: u64) = n" using Cons.prems(7) by (intro unat_of_nat_lt) simp
    have part: "(0 :: u64) < of_nat n" "\<not> of_nat n < (ucast (cluster_size_bytes b) :: u64)"
      using False un z by (simp_all add: word_less_nat_alt unat_ucast_up)
    have sub: "(of_nat n :: u64) - ucast (cluster_size_bytes b) = of_nat (n - ?z)" using False by simp
    have e: "?B + of_nat ?z = buf + of_nat (Suc i) * cluster_size_bytes b" by (simp add: algebra_simps)
    have "\<exists>s'. read_clusters alloc fops mi mt b buf ctr (of_nat (n - ?z)) (of_nat (Suc i)) d s2 =
        Some (early_return (cluster_size_bytes b) ?z ctr (n - ?z) (Suc i) (length ds), s') \<and> same_volume alloc mi N s2 s' \<and>
        got alloc mi s2 (buf + of_nat (Suc i) * cluster_size_bytes b) (n - ?z) (file_byte disk mi b s2 ds) s'"
    proof (rule Cons.IH)
      show "chain (fat_entry disk mi s2) d ds"
        using d(3) s(3) Cons.prems(4) chain_cong [of ds "fat_entry disk mi s2" "fat_entry disk mi s"] by (simp add: data_ok_def)
      show "mount_rest (fat32_mounts s2 mi) = mount_rest mt" using same Cons.prems(2) by (simp add: fat_same_def)
      show "buffer_ok owned alloc mi s2 (buf + of_nat (Suc i) * cluster_size_bytes b) (n - ?z)"
        using buffer_got [OF B(2) s(4) same] unfolding e .
    qed (use Cons.prems False s(3) data_same(3) [OF same] in auto)
    then obtain s' where s': "read_clusters alloc fops mi mt b buf ctr (of_nat (n - ?z)) (of_nat (Suc i)) d s2 =
        Some (early_return (cluster_size_bytes b) ?z ctr (n - ?z) (Suc i) (length ds), s')" "same_volume alloc mi N s2 s'"
        "got alloc mi s2 (?B + of_nat ?z) (n - ?z) (file_byte disk mi b s2 ds) s'" unfolding e by blast
    have "read_clusters alloc fops mi mt b buf ctr (of_nat n) (of_nat i) c s =
        Some (early_return (cluster_size_bytes b) ?z ctr n i (length (x # ds)), s')"
      using s'(1) s(1,2) part d(2) early_return_step [OF z, of n] False
      by (subst read_clusters.simps) (simp add: Let_def ac_simps flip: sub)
    moreover have "got alloc mi s ?B n (file_byte disk mi b s (x # ds)) s'"
      using got_file_step [OF s(4) s'(3) same] Cons.prems(4,6,7,8) False x by simp
    ultimately show ?thesis using same_volume_trans [OF s(3) s'(2)] by blast
  qed
qed simp

lemma got_0: "got alloc mi s p 0 g s' \<Longrightarrow> got alloc mi s q 0 h s'"
  by (simp add: got_def)

lemma same_volume_refl: "volume alloc mi N s \<Longrightarrow> same_volume alloc mi N s s"
  by (simp add: fat_same_def)

lemma skip_clusters_spec:
  assumes "volume alloc mi N s" "chain (fat_entry disk mi s) c cs" "\<forall>c\<in>set cs. unat c < N" "n < length cs"
  shows "\<exists>s'. skip_clusters alloc fops mi n c s = Some (Some (cs ! n), s') \<and> same_volume alloc mi N s s' \<and> got alloc mi s p 0 g s' \<and>
    chain (fat_entry disk mi s') (cs ! n) (drop n cs)"
  using assms
proof (induction n arbitrary: c cs s)
  case 0
  then show ?case using chain_hd [of "fat_entry disk mi s" c cs] by (auto simp: fat_same_def got_def)
next
  case (Suc n)
  then obtain d ds where cs: "cs = c # d # ds" using chain_hd [of "fat_entry disk mi s" c cs]
    by (cases cs; cases "tl cs") auto
  have d: "fat_entry disk mi s c = d" "\<not> FAT32_EOC_MIN \<le> d" "chain (fat_entry disk mi s) d (d # ds)"
    using Suc.prems(2) by (auto simp: cs not_le)
  from next_cluster [OF Suc.prems(1), of c p g] Suc.prems(3) d obtain t where t:
    "fat32_get_next_cluster alloc fops c mi s = Some (d, t)" "same_volume alloc mi N s t" "got alloc mi s p 0 g t" by (auto simp: cs)
  have "chain (fat_entry disk mi t) d (d # ds)"
    using d(3) t(2) Suc.prems(3) by (subst chain_cong [of "d # ds" _ "fat_entry disk mi s"]) (auto simp: cs)
  with Suc.IH [of t d "d # ds"] t Suc.prems(3,4) obtain s' where s':
    "skip_clusters alloc fops mi n d t = Some (Some ((d # ds) ! n), s')" "same_volume alloc mi N t s'" "got alloc mi t p 0 g s'"
    "chain (fat_entry disk mi s') ((d # ds) ! n) (drop n (d # ds))" by (auto simp: cs)
  have "got alloc mi s p 0 g s'" using t(2,3) s'(3) by (simp add: got_def fat_same_def)
  with s' t d same_volume_trans [OF t(2) s'(2)] show ?case by (auto simp: cs)
qed

lemma unat_offset_in_cluster:
  assumes "cluster_size_bytes b = 2 ^ k" "k < 32"
  shows "unat (offset AND ucast (cluster_size_bytes b - 1) :: u64) = unat offset mod unat (cluster_size_bytes b)"
proof -
  have "(ucast (cluster_size_bytes b - 1) :: u64) = mask k"
    using assms by (auto intro!: bit_word_eqI simp: bit_simps simp flip: mask_eq_exp_minus_1)
  moreover have "(2 :: nat) ^ k < 2 ^ 32" using assms(2) by (rule power_strict_increasing) simp
  then have "unat (cluster_size_bytes b) = 2 ^ k" using assms unat_of_nat_lt [where 'a = 32, of "2 ^ k"] by simp
  ultimately show ?thesis by (simp only: unat_and_mask)
qed

lemma udiv64_fits:
  assumes "unat x < 2 ^ 32 * unat d"
  shows "udiv64 x d = Some (of_nat (unat x div unat d))"
proof -
  have d: "0 < unat d" using assms by (cases "unat d") simp_all
  have "unat x div 2 ^ 32 < unat d" using assms by (simp add: less_mult_imp_div_less mult.commute)
  moreover have "unat (drop_bit 32 x) = unat x div 2 ^ 32" by (rule unat_drop_bit)
  moreover from calculation have "unat (ucast (drop_bit 32 x) :: u32) = unat x div 2 ^ 32"
    using unat_u32_less [of d] by (subst unat_ucast_fits) simp_all
  ultimately have "\<not> d \<le> ucast (drop_bit 32 x)" by (simp add: word_le_nat_alt)
  moreover have "unat x div unat d < 2 ^ 64"
  proof (rule order.strict_trans1 [OF div_le_dividend])
    show "unat x < 2 ^ 64" using unsigned_less [of x] by simp
  qed
  then have "x div ucast d = of_nat (unat x div unat d)"
    by (simp add: word_unat_eq_iff unat_div unat_ucast_up unat_of_nat take_bit_eq_mod)
  moreover have "unat x div unat d < 2 ^ 32" using assms d by (simp add: less_mult_imp_div_less)
  ultimately show ?thesis by (simp add: udiv64_def narrow_of_nat)
qed

lemma file_byte_drop:
  assumes "q * unat (cluster_size_bytes b) \<le> k" "0 < unat (cluster_size_bytes b)" "q \<le> length cs"
  shows "file_byte disk mi b s (drop q cs) (k - q * unat (cluster_size_bytes b)) = file_byte disk mi b s cs k"
  using assms(1,3)
proof (induction q arbitrary: k cs)
  case (Suc q)
  then obtain c ds where cs: "cs = c # ds" by (cases cs) auto
  have k: "unat (cluster_size_bytes b) \<le> k" using Suc.prems(1) by simp
  have "file_byte disk mi b s (drop q ds) (k - unat (cluster_size_bytes b) - q * unat (cluster_size_bytes b)) =
      file_byte disk mi b s ds (k - unat (cluster_size_bytes b))"
    using Suc.prems cs k by (intro Suc.IH) auto
  then show ?case by (simp add: cs add.commute file_byte_next [OF k assms(2)])
qed simp

text \<open>From a cluster boundary the result is the number of bytes asked for.\<close>

lemma read_from_aligned:
  assumes v: "volume alloc mi N s" and mt: "mount_rest (fat32_mounts s mi) = mount_rest mt"
    and c: "chain (fat_entry disk mi s) c cs" "\<forall>c\<in>set cs. data_ok dsize mi N b s c"
    and n: "0 < n" "n \<le> length cs * unat (cluster_size_bytes b)" "n < 2 ^ 32"
    and buf: "buffer_ok owned alloc mi s buf n" and al: "offset AND ucast (cluster_size_bytes b - 1) = 0"
    and ctr: "ctr = of_nat (chunks (unat (cluster_size_bytes b)) n)"
  shows "\<exists>s'. read_from alloc fops mi mt b buf offset (of_nat n) ctr c s = Some (of_nat n, s') \<and>
    same_volume alloc mi N s s' \<and> got alloc mi s buf n (file_byte disk mi b s cs) s'"
proof -
  have z: "0 < unat (cluster_size_bytes b)" using c chain_hd by (fastforce simp: data_ok_def)
  have "0 < chunks (unat (cluster_size_bytes b)) n" using n(1) z by (simp add: chunks_def div_greater_zero_iff)
  then have "early_return (cluster_size_bytes b) (unat (cluster_size_bytes b)) ctr n 0 (length cs) = None"
    by (simp add: early_return_def ctr)
  with read_clusters_spec [OF v mt c n, of buf 0 ctr] buf narrow_of_nat [OF n(3)] al show ?thesis
    by (auto simp: read_from_def Let_def)
qed

text \<open>The numbers of a first part that begins inside a cluster, at \<open>o1\<close>.\<close>

lemma first_part_words:
  assumes o1: "unat (offset AND ucast (cluster_size_bytes b - 1) :: u64) = o1" "o1 < unat (cluster_size_bytes b)"
  defines "oc \<equiv> (ucast (offset AND ucast (cluster_size_bytes b - 1) :: u64) :: u32)"
  shows "ucast oc = (of_nat o1 :: u64)" "cluster_size_bytes b - oc = of_nat (unat (cluster_size_bytes b) - o1)"
    and "(ucast (cluster_size_bytes b - oc) :: u64) = of_nat (unat (cluster_size_bytes b) - o1)"
proof -
  let ?z = "unat (cluster_size_bytes b)"
  have z: "?z < 2 ^ 24" by (rule cluster_size_less)
  have oc: "unat oc = o1" unfolding oc_def using o1 z by (subst unat_ucast_fits) simp_all
  show "ucast oc = (of_nat o1 :: u64)"
    using oc o1 z by (simp add: word_unat_eq_iff unat_ucast_up unat_of_nat_lt)
  have sub: "unat (cluster_size_bytes b - oc) = ?z - o1" using oc o1 by (simp add: unat_sub word_le_nat_alt)
  show "cluster_size_bytes b - oc = of_nat (?z - o1)"
    using sub z unat_of_nat_lt [where 'a = 32, of "?z - o1"] by (simp add: word_unat_eq_iff del: of_nat_diff)
  show "(ucast (cluster_size_bytes b - oc) :: u64) = of_nat (?z - o1)"
    using sub z unat_of_nat_lt [where 'a = 64, of "?z - o1"] by (simp add: word_unat_eq_iff unat_ucast_up del: of_nat_diff)
qed

lemma read_from_inside:
  assumes v: "volume alloc mi N s" and mt: "mount_rest (fat32_mounts s mi) = mount_rest mt"
    and c: "data_ok dsize mi N b s c"
    and o1: "unat (offset AND ucast (cluster_size_bytes b - 1) :: u64) = o1" "0 < o1"
    and n: "0 < n" "o1 + n < unat (cluster_size_bytes b)"
    and buf: "buffer_ok owned alloc mi s buf n"
  shows "\<exists>s'. read_from alloc fops mi mt b buf offset (of_nat n) ctr c s = Some (of_nat n, s') \<and>
    same_volume alloc mi N s s' \<and> got alloc mi s buf n (\<lambda>i. disk s (cluster_at mi b s c + (o1 + i))) s'"
proof -
  have "o1 < unat (cluster_size_bytes b)" using n by simp
  note w = first_part_words [OF o1(1) this]
  have nz: "offset AND ucast (cluster_size_bytes b - 1) \<noteq> 0" using o1 by (metis less_numeral_extra(3) unat_0)
  have z: "unat (cluster_size_bytes b) < 2 ^ 24" by (rule cluster_size_less)
  have "unat (of_nat n :: u64) = n" "unat (of_nat (unat (cluster_size_bytes b) - o1) :: u64) = unat (cluster_size_bytes b) - o1"
    using n z by (intro unat_of_nat_lt; simp)+
  then have gt: "(of_nat (unat (cluster_size_bytes b) - o1) :: u64) > of_nat n"
    using n by (simp add: word_less_nat_alt del: of_nat_diff)
  have "(ucast (of_nat n :: u64) :: u32) = of_nat n" by (rule narrow_of_nat) (use n z in simp)
  then show ?thesis
    using read_in_cluster [OF v c mt buf n(1), of o1] n(2) nz gt
    unfolding read_from_def Let_def unfolding w(3) unfolding w(1,2) by (auto simp del: of_nat_diff)
qed

lemma got_first_part:
  assumes "got alloc mi s p r (\<lambda>i. disk s (cluster_at mi b s c + (o1 + i))) t"
    and "got alloc mi t (p + of_nat r) (n - r) (file_byte disk mi b t ds) u"
    and same: "fat_same disk dsize owned alloc mi N s t"
    and n: "o1 + r = unat (cluster_size_bytes b)" "r < n" "o1 + n \<le> Suc (length ds) * unat (cluster_size_bytes b)" "n < 2 ^ 32"
    and ds: "\<forall>c\<in>set (c # ds). data_ok dsize mi N b s c"
  shows "got alloc mi s p n (\<lambda>i. file_byte disk mi b s (c # ds) (o1 + i)) u"
proof -
  let ?z = "unat (cluster_size_bytes b)"
  have z: "0 < ?z" using ds by (simp add: data_ok_def)
  have "got alloc mi s p (r + (n - r)) (\<lambda>i. if i < r then disk s (cluster_at mi b s c + (o1 + i)) else file_byte disk mi b t ds (i - r)) u"
    by (rule got_trans [OF assms(1,2) _ same]) (use n in simp)
  moreover have "(if i < r then disk s (cluster_at mi b s c + (o1 + i)) else file_byte disk mi b t ds (i - r)) =
      file_byte disk mi b s (c # ds) (o1 + i)" if "i < r + (n - r)" for i
  proof (cases "i < r")
    case True
    then show ?thesis using n(1) by (simp add: file_byte_first)
  next
    case False
    have "file_byte disk mi b t ds (i - r) = file_byte disk mi b s ds (i - r)"
      by (rule file_byte_same [OF same]) (use ds n that False in auto)
    moreover have "?z \<le> o1 + i" "o1 + i - ?z = i - r" using False n(1) by simp_all
    ultimately show ?thesis using False z by (simp add: file_byte_next)
  qed
  ultimately have "got alloc mi s p (r + (n - r)) (\<lambda>i. file_byte disk mi b s (c # ds) (o1 + i)) u" by (rule got_cong)
  then show ?thesis using n(2) by simp
qed

text \<open>A read that begins inside a cluster and goes on in the next ones.\<close>

lemma read_from_across:
  assumes v: "volume alloc mi N s" and mt: "mount_rest (fat32_mounts s mi) = mount_rest mt"
    and c: "chain (fat_entry disk mi s) c (c # ds)" "\<forall>c\<in>set (c # ds). data_ok dsize mi N b s c"
    and o1: "unat (offset AND ucast (cluster_size_bytes b - 1) :: u64) = o1" "0 < o1" "o1 < unat (cluster_size_bytes b)"
    and n: "unat (cluster_size_bytes b) < o1 + n" "o1 + n \<le> Suc (length ds) * unat (cluster_size_bytes b)" "n < 2 ^ 32"
    and buf: "buffer_ok owned alloc mi s buf n"
  defines "z \<equiv> unat (cluster_size_bytes b)"
  shows "\<exists>s'. read_from alloc fops mi mt b buf offset (of_nat n) ctr c s =
      Some (case early_return (cluster_size_bytes b) z ctr (n - (z - o1)) 0 (length ds) of Some r \<Rightarrow> r | None \<Rightarrow> of_nat n, s') \<and>
    same_volume alloc mi N s s' \<and> got alloc mi s buf n (\<lambda>i. file_byte disk mi b s (c # ds) (o1 + i)) s'"
proof -
  note w = first_part_words [OF o1(1,3), folded z_def]
  define r where "r = z - o1"
  have z: "z < 2 ^ 24" unfolding z_def by (rule cluster_size_less)
  have r: "0 < r" "r < n" "o1 + r = z" using o1 n(1) by (simp_all add: r_def z_def)
  have nz: "offset AND ucast (cluster_size_bytes b - 1) \<noteq> 0" using o1(1,2) by (metis less_numeral_extra(3) unat_0)
  obtain d es where ds: "ds = d # es" using n(1,2) by (cases ds) auto
  have d: "fat_entry disk mi s c = d" "\<not> FAT32_EOC_MIN \<le> d" "chain (fat_entry disk mi s) d ds"
    using c(1) by (auto simp: ds not_le)
  have un: "unat (of_nat n :: u64) = n" "unat (of_nat r :: u64) = r" using n(3) r z by (intro unat_of_nat_lt; simp)+
  have gt: "\<not> (of_nat r :: u64) > of_nat n" using r un by (simp add: word_less_nat_alt)
  have sub: "(of_nat n :: u64) - of_nat r = of_nat (n - r)" using r by simp
  have B: "buffer_ok owned alloc mi s buf r" "buffer_ok owned alloc mi s (buf + of_nat r) (n - r)"
    using buffer_part [OF buf, of 0 r] buffer_part [OF buf, of r "n - r"] r by simp_all
  from read_step [where c = c and b = b and ?o1.0 = o1, OF v _ mt B(1) r(1)] c(2) r(3) obtain q s1 s2 where s:
    "fread fops (mount_src mt) buf (cluster_offset mt b c + of_nat o1) (of_nat r) s = Some (q, s1)"
    "fat32_get_next_cluster alloc fops c mi s1 = Some (d, s2)" "same_volume alloc mi N s s2"
    "got alloc mi s buf r (\<lambda>i. disk s (cluster_at mi b s c + (o1 + i))) s2" by (auto simp: d z_def)
  have same: "fat_same disk dsize owned alloc mi N s s2" using s(3) by simp
  have "\<exists>s'. read_clusters alloc fops mi mt b (buf + of_nat r) ctr (of_nat (n - r)) (of_nat 0) d s2 =
      Some (early_return (cluster_size_bytes b) (unat (cluster_size_bytes b)) ctr (n - r) 0 (length ds), s') \<and>
      same_volume alloc mi N s2 s' \<and>
      got alloc mi s2 (buf + of_nat r + of_nat 0 * cluster_size_bytes b) (n - r) (file_byte disk mi b s2 ds) s'"
  proof (rule read_clusters_spec)
    show "chain (fat_entry disk mi s2) d ds"
      using d(3) s(3) c(2) by (subst chain_cong [of ds _ "fat_entry disk mi s"]) (auto simp: data_ok_def)
    show "mount_rest (fat32_mounts s2 mi) = mount_rest mt" using same mt by (simp add: fat_same_def)
    show "buffer_ok owned alloc mi s2 (buf + of_nat r + of_nat 0 * cluster_size_bytes b) (n - r)"
      using buffer_got [OF B(2) s(4) same] by simp
  qed (use s(3) c(2) data_same(3) [OF same] n r in \<open>auto simp: z_def\<close>)
  then obtain s' where s': "read_clusters alloc fops mi mt b (buf + of_nat r) ctr (of_nat (n - r)) 0 d s2 =
      Some (early_return (cluster_size_bytes b) z ctr (n - r) 0 (length ds), s')" "same_volume alloc mi N s2 s'"
      "got alloc mi s2 (buf + of_nat r) (n - r) (file_byte disk mi b s2 ds) s'" by (auto simp: z_def)
  have "read_from alloc fops mi mt b buf offset (of_nat n) ctr c s =
      Some (case early_return (cluster_size_bytes b) z ctr (n - r) 0 (length ds) of Some r \<Rightarrow> r | None \<Rightarrow> of_nat n, s')"
    using s(1,2) s'(1) nz gt d(2) narrow_of_nat [OF n(3)] unfolding read_from_def Let_def
    unfolding w(3) unfolding w(1,2) unfolding r_def [symmetric] sub by (auto simp del: of_nat_diff split: option.splits)
  moreover have "got alloc mi s buf n (\<lambda>i. file_byte disk mi b s (c # ds) (o1 + i)) s'"
    using got_first_part [OF s(4) s'(3) same] c(2) n(2,3) r by (simp add: z_def)
  ultimately show ?thesis using same_volume_trans [OF s(3) s'(2)] unfolding r_def by blast
qed

text \<open>A read that ends with the cluster it begins in.\<close>

lemma read_from_exact:
  assumes v: "volume alloc mi N s" and mt: "mount_rest (fat32_mounts s mi) = mount_rest mt"
    and c: "data_ok dsize mi N b s c"
    and o1: "unat (offset AND ucast (cluster_size_bytes b - 1) :: u64) = o1" "0 < o1"
    and n: "0 < n" "o1 + n = unat (cluster_size_bytes b)"
    and buf: "buffer_ok owned alloc mi s buf n"
  shows "\<exists>s'. read_from alloc fops mi mt b buf offset (of_nat n) ctr c s = Some (of_nat n, s') \<and>
    same_volume alloc mi N s s' \<and> got alloc mi s buf n (\<lambda>i. disk s (cluster_at mi b s c + (o1 + i))) s'"
proof -
  have "o1 < unat (cluster_size_bytes b)" "n = unat (cluster_size_bytes b) - o1" using n by simp_all
  note w = first_part_words [OF o1(1) this(1), folded this(2)]
  have nz: "offset AND ucast (cluster_size_bytes b - 1) \<noteq> 0" using o1 by (metis less_numeral_extra(3) unat_0)
  have u: "(ucast (of_nat n :: u64) :: u32) = of_nat n" by (rule narrow_of_nat) (use n cluster_size_less [of b] in simp)
  have zero: "read_clusters alloc fops mi mt b q ctr 0 j d t = Some (None, t)" for q j d t
    by (simp add: read_clusters.simps)
  from read_step [where ?o1.0 = o1, OF v c mt buf n(1)] n(2) nz show ?thesis
    unfolding read_from_def Let_def unfolding w(3) unfolding w(1,2) by (auto simp: u zero)
qed

lemma read_from_spec:
  assumes v: "volume alloc mi N s" and mt: "mount_rest (fat32_mounts s mi) = mount_rest mt"
    and c: "chain (fat_entry disk mi s) c cs" "\<forall>c\<in>set cs. data_ok dsize mi N b s c"
    and p: "unat (offset AND ucast (cluster_size_bytes b - 1) :: u64) = p" "p < unat (cluster_size_bytes b)"
    and n: "0 < n" "p + n \<le> length cs * unat (cluster_size_bytes b)" "n < 2 ^ 32"
    and buf: "buffer_ok owned alloc mi s buf n"
    and ctr: "ctr = of_nat (chunks (unat (cluster_size_bytes b)) n)"
  shows "\<exists>r s'. read_from alloc fops mi mt b buf offset (of_nat n) ctr c s = Some (r, s') \<and>
    same_volume alloc mi N s s' \<and> got alloc mi s buf n (\<lambda>i. file_byte disk mi b s cs (p + i)) s' \<and>
    (p = 0 \<longrightarrow> r = of_nat n)"
proof -
  let ?z = "unat (cluster_size_bytes b)"
  obtain ds where cs: "cs = c # ds" using c(1) chain_hd by blast
  then have d: "data_ok dsize mi N b s c" using c(2) by simp
  consider (zero) "p = 0" | (inside) "0 < p" "p + n < ?z" | (exact) "0 < p" "p + n = ?z" | (across) "0 < p" "?z < p + n" by linarith
  then show ?thesis
  proof cases
    case zero
    then have "offset AND ucast (cluster_size_bytes b - 1) = 0" using p(1) by (simp add: unat_eq_0)
    from read_from_aligned [OF v mt c n(1) _ n(3) buf this ctr] n(2) zero show ?thesis by auto
  next
    case inside
    from read_from_inside [OF v mt d p(1) inside(1) n(1) inside(2) buf, of ctr] obtain s' where s':
      "read_from alloc fops mi mt b buf offset (of_nat n) ctr c s = Some (of_nat n, s')" "same_volume alloc mi N s s'"
      "got alloc mi s buf n (\<lambda>i. disk s (cluster_at mi b s c + (p + i))) s'" by blast
    have "got alloc mi s buf n (\<lambda>i. file_byte disk mi b s cs (p + i)) s'"
      using s'(3) by (rule got_cong) (use inside cs in \<open>simp add: file_byte_first\<close>)
    with s' show ?thesis by blast
  next
    case exact
    from read_from_exact [OF v mt d p(1) exact(1) n(1) exact(2) buf, of ctr] obtain s' where s':
      "read_from alloc fops mi mt b buf offset (of_nat n) ctr c s = Some (of_nat n, s')" "same_volume alloc mi N s s'"
      "got alloc mi s buf n (\<lambda>i. disk s (cluster_at mi b s c + (p + i))) s'" by blast
    have "got alloc mi s buf n (\<lambda>i. file_byte disk mi b s cs (p + i)) s'"
      using s'(3) by (rule got_cong) (use exact cs in \<open>simp add: file_byte_first\<close>)
    with s' show ?thesis by blast
  next
    case across
    from read_from_across [OF v mt _ _ p(1) across(1) p(2) across(2) _ n(3) buf, of c ds ctr] c n(2) across(1)
    show ?thesis by (auto simp: cs)
  qed
qed

lemma read_counts:
  assumes z: "0 < unat (cluster_size_bytes b)" and n: "n < 2 ^ 32" "o1 < 2 ^ 32"
  shows "udiv64 (of_nat o1) (cluster_size_bytes b) = Some (of_nat (o1 div unat (cluster_size_bytes b)))"
    and "udiv64 (of_nat n + ucast (cluster_size_bytes b) - 1) (cluster_size_bytes b) =
      Some (of_nat (chunks (unat (cluster_size_bytes b)) n))"
    and "unat (of_nat (o1 div unat (cluster_size_bytes b)) :: u32) = o1 div unat (cluster_size_bytes b)"
proof -
  let ?z = "unat (cluster_size_bytes b)"
  have z2: "?z < 2 ^ 24" by (rule cluster_size_less)
  have un: "unat (of_nat o1 :: u64) = o1" using n(2) by (intro unat_of_nat_lt) simp
  have big: "2 ^ 32 \<le> 2 ^ 32 * ?z" using z by simp
  show "udiv64 (of_nat o1) (cluster_size_bytes b) = Some (of_nat (o1 div ?z))"
    using udiv64_fits [of "of_nat o1" "cluster_size_bytes b"] n(2) big unfolding un by simp
  have e: "(of_nat n + ucast (cluster_size_bytes b) - 1 :: u64) = of_nat (n + ?z - 1)" using z by (simp add: of_nat_diff)
  have ue: "unat (of_nat (n + ?z - 1) :: u64) = n + ?z - 1" using n(1) z2 by (intro unat_of_nat_lt) simp
  have "n + ?z - 1 < 2 ^ 32 * ?z"
  proof (cases "?z = 1")
    case False
    then have "2 ^ 32 * 2 \<le> 2 ^ 32 * ?z" using z by (intro mult_le_mono2) simp
    then show ?thesis using n(1) z2 by simp
  qed (use n in simp)
  then show "udiv64 (of_nat n + ucast (cluster_size_bytes b) - 1) (cluster_size_bytes b) = Some (of_nat (chunks ?z n))"
    unfolding e chunks_def using udiv64_fits [of "of_nat (n + ?z - 1)" "cluster_size_bytes b"] ue by simp
  have "o1 div ?z < 2 ^ 32" by (rule order.strict_trans1 [OF div_le_dividend n(2)])
  then show "unat (of_nat (o1 div ?z) :: u32) = o1 div ?z" by (intro unat_of_nat_lt) simp
qed

lemma got_at_offset:
  assumes "got alloc mi s buf 0 h t" "got alloc mi t buf n (\<lambda>i. file_byte disk mi b t (drop q cs) (p + i)) u"
    and same: "fat_same disk dsize owned alloc mi N s t" and c: "\<forall>c\<in>set cs. data_ok dsize mi N b s c"
    and q: "q * unat (cluster_size_bytes b) + p = o1" "q < length cs" "o1 + n \<le> length cs * unat (cluster_size_bytes b)" "n < 2 ^ 32"
  shows "got alloc mi s buf n (\<lambda>i. file_byte disk mi b s cs (o1 + i)) u"
proof -
  let ?z = "unat (cluster_size_bytes b)"
  have z: "0 < ?z" using c nth_mem [OF q(2)] by (auto simp: data_ok_def)
  have "got alloc mi s buf (0 + n) (\<lambda>i. if i < 0 then h i else file_byte disk mi b t (drop q cs) (p + (i - 0))) u"
    by (rule got_trans [OF assms(1) _ _ same]) (use assms(2) q in simp_all)
  moreover have "(if i < 0 then h i else file_byte disk mi b t (drop q cs) (p + (i - 0))) = file_byte disk mi b s cs (o1 + i)"
    if "i < 0 + n" for i
  proof -
    have "p + i < length (drop q cs) * ?z" using that q by (simp add: diff_mult_distrib)
    then have "file_byte disk mi b t (drop q cs) (p + i) = file_byte disk mi b s (drop q cs) (p + i)"
      using c by (intro file_byte_same [OF same]) (auto dest: in_set_dropD)
    moreover have e: "p + i = (o1 + i) - q * ?z" using q(1) by simp
    have "file_byte disk mi b s (drop q cs) (p + i) = file_byte disk mi b s cs (o1 + i)"
      unfolding e using q z by (intro file_byte_drop) auto
    ultimately show ?thesis by simp
  qed
  ultimately have "got alloc mi s buf (0 + n) (\<lambda>i. file_byte disk mi b s cs (o1 + i)) u" by (rule got_cong)
  then show ?thesis by simp
qed

lemma fat32_read_spec:
  assumes v: "volume alloc mi N s" and f: "vfiles s file = Some vf" "open_files s (f_private vf) = Some f" "mount_index f = mi"
    and b: "bpb_of (fat32_mounts s mi) s = Some b" "cluster_size_bytes b = 2 ^ k" "k < 32"
    and c: "chain (fat_entry disk mi s) (first_cluster f) cs" "\<forall>c\<in>set cs. data_ok dsize mi N b s c"
    and n: "0 < n" "o1 + n \<le> length cs * unat (cluster_size_bytes b)" "o1 + n < 2 ^ 32"
    and buf: "buffer_ok owned alloc mi s buf n"
  shows "\<exists>r s'. fat32_read alloc fops file buf (of_nat o1) (of_nat n) s = Some (r, s') \<and> same_volume alloc mi N s s' \<and>
    got alloc mi s buf n (\<lambda>i. file_byte disk mi b s cs (o1 + i)) s' \<and>
    (o1 mod unat (cluster_size_bytes b) = 0 \<longrightarrow> r = of_nat n)"
proof -
  let ?z = "unat (cluster_size_bytes b)" and ?mt = "fat32_mounts s mi"
  let ?q = "o1 div ?z" and ?p = "o1 mod ?z"
  obtain c0 ds where "cs = c0 # ds" using c(1) chain_hd by blast
  then have z: "0 < ?z" using c(2) by (simp add: data_ok_def)
  have "n < 2 ^ 32" "o1 < 2 ^ 32" using n(3) by simp_all
  note d = read_counts [OF z this]
  have q: "?q < length cs" using n(1,2) by (intro less_mult_imp_div_less) simp
  have cN: "\<forall>c\<in>set cs. unat c < N" using c(2) by (simp add: data_ok_def)
  from skip_clusters_spec [OF v c(1) cN q, of buf "\<lambda>_. 0"] obtain s1 where s1:
    "skip_clusters alloc fops mi ?q (first_cluster f) s = Some (Some (cs ! ?q), s1)" "same_volume alloc mi N s s1"
    "got alloc mi s buf 0 (\<lambda>_. 0) s1" "chain (fat_entry disk mi s1) (cs ! ?q) (drop ?q cs)" by blast
  have same: "fat_same disk dsize owned alloc mi N s s1" using s1(2) by simp
  have "unat (of_nat o1 :: u64) = o1" using n(3) by (intro unat_of_nat_lt) simp
  then have p: "unat (of_nat o1 AND ucast (cluster_size_bytes b - 1) :: u64) = ?p"
    using unat_offset_in_cluster [OF b(2,3), of "of_nat o1"] by simp
  have "length (drop ?q cs) * ?z = length cs * ?z - ?q * ?z" by (simp add: diff_mult_distrib)
  then have len: "?p + n \<le> length (drop ?q cs) * ?z" using n(2) div_mult_mod_eq [of o1 ?z] by linarith
  have "\<exists>r s'. read_from alloc fops mi ?mt b buf (of_nat o1) (of_nat n) (of_nat (chunks ?z n)) (cs ! ?q) s1 = Some (r, s') \<and>
    same_volume alloc mi N s1 s' \<and> got alloc mi s1 buf n (\<lambda>i. file_byte disk mi b s1 (drop ?q cs) (?p + i)) s' \<and>
    (?p = 0 \<longrightarrow> r = of_nat n)"
  proof (rule read_from_spec [OF _ _ s1(4) _ p _ n(1) len _ buffer_got [OF buf s1(3) same] refl])
    show "mount_rest (fat32_mounts s1 mi) = mount_rest ?mt" using same by (simp add: fat_same_def)
    show "\<forall>c\<in>set (drop ?q cs). data_ok dsize mi N b s1 c"
      using c(2) set_drop_subset [of ?q cs] by (simp only: data_same(3) [OF same]) blast
  qed (use s1(2) z n(3) in simp_all)
  then obtain r s' where s': "read_from alloc fops mi ?mt b buf (of_nat o1) (of_nat n) (of_nat (chunks ?z n)) (cs ! ?q) s1 = Some (r, s')"
    "same_volume alloc mi N s1 s'" "got alloc mi s1 buf n (\<lambda>i. file_byte disk mi b s1 (drop ?q cs) (?p + i)) s'"
    "?p = 0 \<longrightarrow> r = of_nat n" by (elim exE conjE) (rule that; (intro conjI)?; assumption)
  have "got alloc mi s buf n (\<lambda>i. file_byte disk mi b s cs (o1 + i)) s'"
    using got_at_offset [OF s1(3) s'(3) same c(2) _ q n(2)] n(3) by simp
  moreover have "fat32_read alloc fops file buf (of_nat o1) (of_nat n) s = Some (r, s')"
    using f b(1) v d s1(1) s'(1) by (simp add: fat32_read_def mount_at_def fat_ok_def Let_def)
  ultimately show ?thesis
    using same_volume_trans [OF s1(2) s'(2)] s'(4) by (intro exI [of _ r] exI [of _ s']) simp
qed

text \<open>
  The count that is reported for a read that begins inside a cluster and ends in the last cluster of
  the file: here the file has two clusters, and the result is the size of one.
\<close>

lemma fat32_read_short_count:
  assumes v: "volume alloc mi N s" and f: "vfiles s file = Some vf" "open_files s (f_private vf) = Some f" "mount_index f = mi"
    and b: "bpb_of (fat32_mounts s mi) s = Some b" "cluster_size_bytes b = 2 ^ k" "k < 32"
    and c: "chain (fat_entry disk mi s) (first_cluster f) [x, y]" "\<forall>c\<in>set [x, y]. data_ok dsize mi N b s c"
    and n: "0 < o1" "o1 < unat (cluster_size_bytes b)" "unat (cluster_size_bytes b) < n" "o1 + n \<le> 2 * unat (cluster_size_bytes b)"
    and buf: "buffer_ok owned alloc mi s buf n"
  shows "\<exists>s'. fat32_read alloc fops file buf (of_nat o1) (of_nat n) s = Some (cluster_size_bytes b, s')"
proof -
  let ?z = "unat (cluster_size_bytes b)" and ?mt = "fat32_mounts s mi"
  have z: "?z < 2 ^ 24" by (rule cluster_size_less)
  have "0 < ?z" "n < 2 ^ 32" "o1 < 2 ^ 32" using n z by simp_all
  note d = read_counts [OF this]
  have x: "first_cluster f = x" using c(1) by simp
  have "chunks ?z n = 2" "chunks ?z (n - (?z - o1)) = 1" using n by (simp_all add: chunks_def div_nat_eqI)
  then have e: "early_return (cluster_size_bytes b) ?z (of_nat (chunks ?z n)) (n - (?z - o1)) 0 (length [y]) = Some (cluster_size_bytes b)"
    by (simp add: early_return_def)
  have "unat (of_nat o1 :: u64) = o1" using n z by (intro unat_of_nat_lt) simp
  then have p: "unat (of_nat o1 AND ucast (cluster_size_bytes b - 1) :: u64) = o1"
    using unat_offset_in_cluster [OF b(2,3), of "of_nat o1"] n by simp
  have q: "o1 div ?z = 0" using n by simp
  from read_from_across [OF v refl c(1) [unfolded x] c(2) p n(1,2) _ _ _ buf, of "of_nat (chunks ?z n)"] n z
  show ?thesis unfolding e using f b(1) v d q x by (auto simp: fat32_read_def mount_at_def fat_ok_def Let_def)
qed

end

text \<open>
  C5. \<^verbatim>\<open>fat32_read\<close> follows the chain of clusters: for any part inside the clusters of the file, the buffer
  receives exactly the bytes of the file, wherever the part begins and however many clusters it spans,
  although the driver may move the window of the table while it reads.  No other memory changes apart
  from the window, the table and the volume are as before, and for a part that begins at a cluster
  the result is its length.
\<close>

theorem fat32_read_returns_file_bytes:
  assumes dev: "mounted_disk fops src disk dsize owned ok"
    and v: "fat_ok disk dsize owned ok src alloc mi N s"
    and f: "vfiles s file = Some vf" "open_files s (f_private vf) = Some f" "mount_index f = mi"
    and b: "bpb_of (fat32_mounts s mi) s = Some b" "cluster_size_bytes b = 2 ^ k" "k < 32"
    and c: "chain (fat_entry disk mi s) (first_cluster f) cs" "\<forall>c\<in>set cs. data_ok dsize mi N b s c"
    and n: "0 < n" "o1 + n \<le> length cs * unat (cluster_size_bytes b)" "o1 + n < 2 ^ 32"
    and buf: "buffer_ok owned alloc mi s buf n"
  shows "\<exists>r s'. fat32_read alloc fops file buf (of_nat o1) (of_nat n) s = Some (r, s') \<and>
    (\<forall>i<n. fmem s' (buf + of_nat i) = Some (file_byte disk mi b s cs (o1 + i))) \<and>
    (\<forall>a. \<not> owned s a \<and> \<not> span (cache_ptr alloc mi s) 65536 a \<and> \<not> span buf n a \<longrightarrow> fmem s' a = fmem s a) \<and>
    fat_ok disk dsize owned ok src alloc mi N s' \<and>
    (\<forall>j. unat j < N \<longrightarrow> fat_entry disk mi s' j = fat_entry disk mi s j) \<and>
    fat_same disk dsize owned alloc mi N s s' \<and>
    (o1 mod unat (cluster_size_bytes b) = 0 \<longrightarrow> r = of_nat n)"
proof -
  from mounted_disk.fat32_read_spec [OF dev v f b c n buf] obtain r s' where s':
    "fat32_read alloc fops file buf (of_nat o1) (of_nat n) s = Some (r, s')" "fat_ok disk dsize owned ok src alloc mi N s'"
    "\<forall>j. unat j < N \<longrightarrow> fat_entry disk mi s' j = fat_entry disk mi s j" "fat_same disk dsize owned alloc mi N s s'"
    "mounted_disk.got owned alloc mi s buf n (\<lambda>i. file_byte disk mi b s cs (o1 + i)) s'"
    "o1 mod unat (cluster_size_bytes b) = 0 \<longrightarrow> r = of_nat n" by (elim exE conjE) (rule that)
  note m = s'(5) [unfolded mounted_disk.got_def [OF dev]]
  have "fmem s' (buf + of_nat i) = Some (file_byte disk mi b s cs (o1 + i))" if "i < n" for i
    using m buf that n(3) by (auto simp: buffer_ok_def apart_def)
  moreover have "fmem s' a = fmem s a" if "\<not> owned s a \<and> \<not> span (cache_ptr alloc mi s) 65536 a \<and> \<not> span buf n a" for a
    using m that by (simp add: overlay_off)
  ultimately show ?thesis using s' by (intro exI [of _ r] exI [of _ s']) simp
qed

definition fat_file_example :: "mm_state fat_state" where
  "fat_file_example = fat_example\<lparr>vfiles := (vfiles fat_example)(0x600 \<mapsto> zero_vfile\<lparr>f_private := 0x700\<rparr>),
     open_files := [0x700 \<mapsto> \<lparr>of_filename = [], of_refcount = 1, mount_index = 0, first_cluster = 2, size_clusters = 2,
       size_bytes = 1000, file_flags = 0, dirent_cluster = 2, dirent_offset = 0\<rparr>]\<rparr>"

lemma fat_file_example_ok: "ram_volume 0x100 0 16384 fat_file_example"
proof -
  have all: "mapped (fmem fat_file_example) p n" for p n by (simp add: mapped_def fat_file_example_def fat_example_def fat_mem_def)
  have "apart 0x200000 65536 0x100000 0x40000" by (rule apart_far) simp_all
  then show ?thesis using all
    by (simp add: fat_ok_def Let_def cache_ptr_def fat_base_def ram_ok_def ram_owned_def ram_size_def apart_def)
      (simp add: fat_file_example_def fat_example_def fat_mount_example_def fat_example_ops_def ramfs_fileops_def zero_vfile_def)
qed

lemma fat_file_example_file:
  "chain (fat_entry (ram_disk 0x100) 0 fat_file_example) 2 [2, 3]"
  "bpb_of (fat32_mounts fat_file_example 0) fat_file_example = Some fat_bpb_example"
  "cluster_size_bytes fat_bpb_example = 512" "unat (cluster_size_bytes fat_bpb_example) = 512"
  "\<forall>c\<in>set [2, 3]. data_ok (ram_size 0x100) 0 16384 fat_bpb_example fat_file_example c"
proof -
  show z: "cluster_size_bytes fat_bpb_example = 512" "unat (cluster_size_bytes fat_bpb_example) = 512"
    by (simp_all add: cluster_size_bytes_def fat_bpb_example_def)
  show "chain (fat_entry (ram_disk 0x100) 0 fat_file_example) 2 [2, 3]"
    by (simp add: fat_entry_def le32_def fat_byte_def Let_def fat_file_example_def fat_example_def fat_mount_example_def fat_mem_def)
  show "bpb_of (fat32_mounts fat_file_example 0) fat_file_example = Some fat_bpb_example"
    by (simp add: bpb_of_def fat_file_example_def fat_example_def fat_mount_example_def)
  show "\<forall>c\<in>set [2, 3]. data_ok (ram_size 0x100) 0 16384 fat_bpb_example fat_file_example c"
    by (simp add: data_ok_def z cluster_at_def data_base_def ram_size_def fat_base_def Let_def)
      (simp add: fat_file_example_def fat_example_def fat_mount_example_def fat_bpb_example_def zero_vfile_def)
qed

lemma fat_file_example_buffer: "buffer_ok (ram_owned 0x100) kmalloc 0 fat_file_example 0x400000 n" if "n \<le> 0x1000"
proof -
  have "apart 0x400000 n 0x200000 65536" "apart 0x400000 n 0x100000 0x40000"
    using that by (auto intro!: apart_far)
  then show ?thesis using that
    by (auto simp: buffer_ok_def mapped_def cache_ptr_def ram_owned_def apart_def fat_file_example_def fat_example_def
        fat_mem_def fat_mount_example_def)
qed

theorem fat32_read_returns_file_bytes_witness:
  "\<exists>r s'. fat32_read kmalloc fat_example_ops 0x600 0x400000 (of_nat 100) (of_nat 600) fat_file_example = Some (r, s') \<and>
     fmem s' 0x400000 = Some 0x64 \<and> fmem s' (0x400000 + of_nat 500) = Some 0x58"
proof -
  have f: "vfiles fat_file_example 0x600 = Some (zero_vfile\<lparr>f_private := 0x700\<rparr>)"
      "open_files fat_file_example (f_private (zero_vfile\<lparr>f_private := 0x700\<rparr>)) = Some \<lparr>of_filename = [], of_refcount = 1,
       mount_index = 0, first_cluster = 2, size_clusters = 2, size_bytes = 1000, file_flags = 0, dirent_cluster = 2, dirent_offset = 0\<rparr>"
    by (simp_all add: fat_file_example_def)
  note x = fat_file_example_file
  have byte: "file_byte (ram_disk 0x100) 0 fat_bpb_example fat_file_example [2, 3] 100 = 0x64"
    "file_byte (ram_disk 0x100) 0 fat_bpb_example fat_file_example [2, 3] 600 = 0x58"
    by (simp_all add: file_byte_def Let_def x(4) cluster_at_def data_base_def ram_disk_def)
      (simp_all add: fat_file_example_def fat_example_def fat_mount_example_def fat_bpb_example_def zero_vfile_def fat_mem_def)
  let ?f = "\<lparr>of_filename = [], of_refcount = 1, mount_index = 0, first_cluster = 2, size_clusters = 2, size_bytes = 1000,
    file_flags = 0, dirent_cluster = 2, dirent_offset = 0\<rparr> :: fat_open_file_t"
  have h: "mount_index ?f = 0" "cluster_size_bytes fat_bpb_example = 2 ^ 9" "(9 :: nat) < 32"
      "chain (fat_entry (ram_disk 0x100) 0 fat_file_example) (first_cluster ?f) [2, 3]" "0 < (600 :: nat)"
      "100 + 600 \<le> length [2 :: u32, 3] * unat (cluster_size_bytes fat_bpb_example)" "100 + 600 < (2 :: nat) ^ 32"
    using x by simp_all
  from fat32_read_returns_file_bytes [OF ram.mounted_disk_axioms fat_file_example_ok f h(1) x(2) h(2-4) x(5) h(5-7)
    fat_file_example_buffer]
  obtain r s' where s': "fat32_read kmalloc fat_example_ops 0x600 0x400000 (of_nat 100) (of_nat 600) fat_file_example = Some (r, s')"
    "\<forall>i<600. fmem s' (0x400000 + of_nat i) = Some (file_byte (ram_disk 0x100) 0 fat_bpb_example fat_file_example [2, 3] (100 + i))"
    by auto
  from s'(2) [rule_format, of 0] s'(2) [rule_format, of 500] byte have
    "fmem s' 0x400000 = Some 0x64 \<and> fmem s' (0x400000 + of_nat 500) = Some 0x58" by simp
  with s'(1) show ?thesis by blast
qed

end
