(* ===== verification/FatWrite.thy ===== *)
theory FatWrite
  imports FatFile
begin

text \<open>
  Writing to files of a FAT32 volume (\<^verbatim>\<open>src/kmodules/fs_driver.c\<close>): the chain of clusters is extended as
  far as the data needs, the data is written cluster by cluster, and the directory entry of the file
  is written back.  The list of open files is an array of pointers in memory.
\<close>

subsection \<open>Operations\<close>

text \<open>
  \<^verbatim>\<open>fat32_cache_open\<close>: the loop over the array, and the enlarging of the array.  The loop that should
  clear the new array assigns the pointer instead, so the array is taken to lie at address 0.
\<close>

function cache_open_scan :: "bmem \<Rightarrow> u32 \<Rightarrow> u32 \<Rightarrow> u32 \<Rightarrow> u32 option option" where
  "cache_open_scan m cache sz i =
     (if i < sz
      then do {
        p \<leftarrow> rd32 m (cache + i * 4);
        if p \<noteq> 0 then cache_open_scan m cache sz (i + 1) else Some (Some i)
      }
      else Some None)"
  by pat_completeness auto
termination
  by (relation "measure (\<lambda>(m, cache, sz, i). unat sz - unat i)") (simp_all add: word_loop_measure)

declare cache_open_scan.simps [simp del]

definition enlarge_open_files ::
    "'h allocator \<Rightarrow> (u32 \<Rightarrow> 'h \<Rightarrow> 'h option) \<Rightarrow> ('h, 'b) fat_state_scheme \<Rightarrow> ('h, 'b) fat_state_scheme option" where
  "enlarge_open_files alloc free s = do {
     let used_pages = (open_file_cache_size s + PAGE_SIZE_BYTES - 1) div PAGE_SIZE_BYTES;
     let new_pages = used_pages + 4;
     (new_cache, s) \<leftarrow> kalloc alloc new_pages s;
     let new_cache = (if 0 < new_pages * PAGE_SIZE_BYTES div 4 then 0 else new_cache);
     m \<leftarrow> memcpy_b (open_file_cache s) new_cache (open_file_cache_size s * 4) (fmem s);
     let s = s\<lparr>fmem := m, open_file_cache_size := new_pages * PAGE_SIZE_BYTES div 4\<rparr>;
     s \<leftarrow> krelease free (open_file_cache s) s;
     Some (s\<lparr>open_file_cache := new_cache\<rparr>)
   }"

partial_function (option) fat32_cache_open ::
    "'h allocator \<Rightarrow> (u32 \<Rightarrow> 'h \<Rightarrow> 'h option) \<Rightarrow> u32 \<Rightarrow> ('h, 'b) fat_state_scheme \<Rightarrow>
     (u32 \<times> ('h, 'b) fat_state_scheme) option" where
  "fat32_cache_open alloc free file s = do {
     r \<leftarrow> cache_open_scan (fmem s) (open_file_cache s) (open_file_cache_size s) (first_free_open_file_index s);
     case r of
       Some i \<Rightarrow> do {
         m \<leftarrow> wr32 (open_file_cache s + i * 4) file (fmem s);
         Some (i, s\<lparr>first_free_open_file_index := i, fmem := m\<rparr>)
       }
     | None \<Rightarrow> do { s \<leftarrow> enlarge_open_files alloc free s; fat32_cache_open alloc free file s }
   }"

text \<open>Taking a free cluster and linking it behind \<open>last\<close>, under the lock of the mount; 0 when there is none.\<close>

definition extend_chain ::
    "'h allocator \<Rightarrow> (u32 \<Rightarrow> ('h, 'b) fat_state_scheme fileops_t) \<Rightarrow> u32 \<Rightarrow> u32 \<Rightarrow>
     ('h, 'b) fat_state_scheme \<Rightarrow> (u32 \<times> ('h, 'b) fat_state_scheme) option" where
  "extend_chain alloc fops mi last_cluster s = do {
     mt \<leftarrow> mount_at mi s;
     l \<leftarrow> spinlock_acquire (m_spinlock mt);
     s \<leftarrow> upd_mount mi (\<lambda>mt. mt\<lparr>m_spinlock := l\<rparr>) s;
     (new_cluster, s) \<leftarrow> fat32_get_free_cluster alloc fops mi s;
     s \<leftarrow> (if new_cluster = 0 then Some s
          else do {
            s \<leftarrow> fat32_set_next_cluster alloc fops last_cluster new_cluster mi s;
            fat32_set_next_cluster alloc fops new_cluster FAT32_EOC mi s
          });
     s \<leftarrow> upd_mount mi (\<lambda>mt. mt\<lparr>m_spinlock := spinlock_release (m_spinlock mt)\<rparr>) s;
     Some (new_cluster, s)
   }"

text \<open>The loop of \<^verbatim>\<open>fat32_write\<close> up to the first cluster; new clusters are cleared, a page at a time, from a
  buffer that has already been freed.\<close>

primrec skip_or_extend ::
    "'h allocator \<Rightarrow> (u32 \<Rightarrow> 'h \<Rightarrow> 'h option) \<Rightarrow> (u32 \<Rightarrow> ('h, 'b) fat_state_scheme fileops_t) \<Rightarrow> u32 \<Rightarrow>
     fat_mount_t \<Rightarrow> fat32_bpb_t \<Rightarrow> nat \<Rightarrow> u32 \<Rightarrow> ('h, 'b) fat_state_scheme \<Rightarrow>
     (u32 option \<times> ('h, 'b) fat_state_scheme) option" where
  "skip_or_extend alloc free fops mi mt b 0 cluster s = Some (Some cluster, s)"
| "skip_or_extend alloc free fops mi mt b (Suc n) cluster s = do {
     let last_cluster = cluster;
     (cluster, s) \<leftarrow> fat32_get_next_cluster alloc fops cluster mi s;
     if cluster \<ge> FAT32_EOC_MIN
     then do {
       (new_cluster, s) \<leftarrow> extend_chain alloc fops mi last_cluster s;
       if new_cluster = 0 then Some (None, s)
       else do {
         (cleared, s) \<leftarrow> kalloc alloc 1 s;
         if cleared = 0 then Some (None, s)
         else do {
           m \<leftarrow> fold_opt (\<lambda>j. wr32 (cleared + of_nat j * 4) 0) [0..<1024] (fmem s);
           s \<leftarrow> krelease free cleared (s\<lparr>fmem := m\<rparr>);
           (r, s) \<leftarrow> fwrite fops (mount_src mt) cleared (cluster_offset mt b new_cluster) 4096 s;
           skip_or_extend alloc free fops mi mt b n new_cluster s
         }
       }
     }
     else skip_or_extend alloc free fops mi mt b n cluster s
   }"

text \<open>The main loop of \<^verbatim>\<open>fat32_write\<close>; the result is the value of an early return, if any.\<close>

partial_function (option) write_clusters ::
    "'h allocator \<Rightarrow> (u32 \<Rightarrow> ('h, 'b) fat_state_scheme fileops_t) \<Rightarrow> u32 \<Rightarrow> fat_mount_t \<Rightarrow> fat32_bpb_t \<Rightarrow>
     u32 \<Rightarrow> u64 \<Rightarrow> u32 \<Rightarrow> u32 \<Rightarrow> ('h, 'b) fat_state_scheme \<Rightarrow>
     (u32 option \<times> ('h, 'b) fat_state_scheme) option" where
  "write_clusters alloc fops mi mt b buffer remaining_count i cluster s =
     (if remaining_count > 0
      then do {
        let csz = cluster_size_bytes b;
        let part = (if remaining_count < ucast csz then remaining_count else ucast csz);
        (r, s) \<leftarrow> fwrite fops (mount_src mt) (buffer + i * csz) (cluster_offset mt b cluster) part s;
        let remaining_count = remaining_count - part;
        let last_cluster = cluster;
        (cluster, s) \<leftarrow> fat32_get_next_cluster alloc fops cluster mi s;
        if cluster \<ge> FAT32_EOC_MIN \<and> remaining_count > 0
        then do {
          (new_cluster, s) \<leftarrow> extend_chain alloc fops mi last_cluster s;
          if new_cluster = 0 then Some (Some (i * csz), s)
          else write_clusters alloc fops mi mt b buffer remaining_count (i + 1) new_cluster s
        }
        else write_clusters alloc fops mi mt b buffer remaining_count (i + 1) cluster s
      }
      else Some (None, s))"

text \<open>\<^verbatim>\<open>dirent_writeback\<close>: the first loop, and the operation.  The caller does not use its result.  A
  directory entry has 32 bytes; the offset of the cluster is computed at 32 bits altogether.\<close>

primrec dirent_cluster_loop ::
    "'h allocator \<Rightarrow> (u32 \<Rightarrow> ('h, 'b) fat_state_scheme fileops_t) \<Rightarrow> u32 \<Rightarrow> u32 \<Rightarrow> nat list \<Rightarrow> u32 \<Rightarrow>
     ('h, 'b) fat_state_scheme \<Rightarrow> (u32 option \<times> ('h, 'b) fat_state_scheme) option" where
  "dirent_cluster_loop alloc fops mi count_clusters [] cluster s = Some (Some cluster, s)"
| "dirent_cluster_loop alloc fops mi count_clusters (i # is) cluster s =
     (if cluster \<ge> FAT32_EOC \<and> of_nat i < count_clusters - 1 then Some (None, s)
      else do {
        (cluster, s) \<leftarrow> fat32_get_next_cluster alloc fops cluster mi s;
        dirent_cluster_loop alloc fops mi count_clusters is cluster s
      })"

definition dirent_writeback ::
    "'h allocator \<Rightarrow> (u32 \<Rightarrow> ('h, 'b) fat_state_scheme fileops_t) \<Rightarrow> u32 \<Rightarrow>
     ('h, 'b) fat_state_scheme \<Rightarrow> ('h, 'b) fat_state_scheme option" where
  "dirent_writeback alloc fops file s = do {
     v \<leftarrow> vfiles s file;
     f \<leftarrow> open_files s (f_private v);
     let mi = mount_index f;
     mt \<leftarrow> mount_at mi s;
     b \<leftarrow> bpb_of mt s;
     let csz = cluster_size_bytes b;
     let dirents_per_cluster = csz div 32;
     let dirent_index = dirent_offset f;
     if dirents_per_cluster = 0 then None
     else do {
       let count_clusters = dirent_index div dirents_per_cluster;
       (c, s) \<leftarrow> dirent_cluster_loop alloc fops mi count_clusters [0..<unat count_clusters] (dirent_cluster f) s;
       case c of None \<Rightarrow> Some s
       | Some cluster \<Rightarrow> do {
           (dir, s) \<leftarrow> kalloc alloc 1 s;
           let cluster_offset_bytes = (ucast ((cluster - 2) * csz + data_start_sector mt * ucast (bytes_per_sector b)) :: u64);
           (r, s) \<leftarrow> fread fops (mount_src mt) dir cluster_offset_bytes (ucast PAGE_SIZE_BYTES) s;
           let ent = dir + (dirent_index mod dirents_per_cluster) * 32;
           m \<leftarrow> wr32 (ent + 28) (size_bytes f) (fmem s);
           m \<leftarrow> wr16 (ent + 20) (ucast (drop_bit 16 (first_cluster f))) m;
           m \<leftarrow> wr16 (ent + 26) (ucast (first_cluster f AND 0xffff)) m;
           m \<leftarrow> wr (ent + 11) (ucast (file_flags f)) m;
           (r, s) \<leftarrow> fwrite fops (mount_src mt) dir cluster_offset_bytes (ucast PAGE_SIZE_BYTES) (s\<lparr>fmem := m\<rparr>);
           Some s
         }
     }
   }"

definition upd_open_file ::
    "u32 \<Rightarrow> (fat_open_file_t \<Rightarrow> fat_open_file_t) \<Rightarrow> ('h, 'b) fat_state_scheme \<Rightarrow> ('h, 'b) fat_state_scheme option" where
  "upd_open_file p g s = do { f \<leftarrow> open_files s p; Some (s\<lparr>open_files := (open_files s)(p \<mapsto> g f)\<rparr>) }"

text \<open>The end of \<^verbatim>\<open>fat32_write\<close>: the size in the array of open files, and the directory entry.\<close>

definition write_finish ::
    "'h allocator \<Rightarrow> (u32 \<Rightarrow> ('h, 'b) fat_state_scheme fileops_t) \<Rightarrow> u32 \<Rightarrow> u64 \<Rightarrow> u64 \<Rightarrow>
     ('h, 'b) fat_state_scheme \<Rightarrow> (u32 \<times> ('h, 'b) fat_state_scheme) option" where
  "write_finish alloc fops file offset cnt s = do {
     v \<leftarrow> vfiles s file;
     p \<leftarrow> rd32 (fmem s) (open_file_cache s + ucast (f_offset v) * 4);
     f \<leftarrow> open_files s p;
     s \<leftarrow> (if offset + cnt > ucast (size_bytes f)
          then upd_open_file p (\<lambda>f. f\<lparr>size_bytes := ucast (offset + cnt)\<rparr>) s else Some s);
     s \<leftarrow> dirent_writeback alloc fops file s;
     Some (ucast cnt, s)
   }"

text \<open>The part of \<^verbatim>\<open>fat32_write\<close> from the cluster that holds \<^verbatim>\<open>offset\<close> on.\<close>

definition write_from ::
    "'h allocator \<Rightarrow> (u32 \<Rightarrow> ('h, 'b) fat_state_scheme fileops_t) \<Rightarrow> u32 \<Rightarrow> fat_mount_t \<Rightarrow> fat32_bpb_t \<Rightarrow>
     u32 \<Rightarrow> u32 \<Rightarrow> u64 \<Rightarrow> u64 \<Rightarrow> u32 \<Rightarrow> ('h, 'b) fat_state_scheme \<Rightarrow> (u32 \<times> ('h, 'b) fat_state_scheme) option" where
  "write_from alloc fops mi mt b file buffer offset cnt cluster s =
     (let csz = cluster_size_bytes b in
      if offset AND ucast (csz - 1) \<noteq> 0
      then do {
        let offset_in_cluster = (ucast (offset AND ucast (csz - 1)) :: u32);
        let rest = (ucast (csz - offset_in_cluster) :: u64);
        (r, s) \<leftarrow> fwrite fops (mount_src mt) buffer (cluster_offset mt b cluster + ucast offset_in_cluster)
                    (if rest > cnt then cnt else rest) s;
        if rest > cnt then Some (ucast cnt, s)
        else do {
          let buffer = buffer + (csz - offset_in_cluster);
          (cluster, s) \<leftarrow> fat32_get_next_cluster alloc fops cluster mi s;
          let remaining_count = cnt - rest;
          if cluster \<ge> FAT32_EOC_MIN then Some (ucast (cnt - remaining_count), s)
          else do {
            (e, s) \<leftarrow> write_clusters alloc fops mi mt b buffer remaining_count 0 cluster s;
            case e of Some r \<Rightarrow> Some (r, s) | None \<Rightarrow> write_finish alloc fops file offset cnt s
          }
        }
      }
      else do {
        (e, s) \<leftarrow> write_clusters alloc fops mi mt b buffer cnt 0 cluster s;
        case e of Some r \<Rightarrow> Some (r, s) | None \<Rightarrow> write_finish alloc fops file offset cnt s
      })"

definition fat32_write ::
    "'h allocator \<Rightarrow> (u32 \<Rightarrow> 'h \<Rightarrow> 'h option) \<Rightarrow> (u32 \<Rightarrow> ('h, 'b) fat_state_scheme fileops_t) \<Rightarrow>
     u32 \<Rightarrow> u32 \<Rightarrow> u64 \<Rightarrow> u64 \<Rightarrow> ('h, 'b) fat_state_scheme \<Rightarrow> (u32 \<times> ('h, 'b) fat_state_scheme) option" where
  "fat32_write alloc free fops file buffer offset cnt s = do {
     v \<leftarrow> vfiles s file;
     f \<leftarrow> open_files s (f_private v);
     let mi = mount_index f;
     mt \<leftarrow> mount_at mi s;
     (first, s) \<leftarrow> (if first_cluster f = 0
        then do {
          (c, s) \<leftarrow> fat32_get_free_cluster alloc fops (f_id v) s;
          if c = 0 then Some (0, s)
          else do {
            s \<leftarrow> fat32_set_next_cluster alloc fops c FAT32_EOC (f_id v) s;
            s \<leftarrow> upd_open_file (f_private v) (\<lambda>f. f\<lparr>first_cluster := c\<rparr>) s;
            Some (c, s)
          }
        }
        else Some (first_cluster f, s));
     if first = 0 then Some (0, s)
     else do {
       b \<leftarrow> bpb_of mt s;
       let csz = cluster_size_bytes b;
       clusters_until_start \<leftarrow> udiv64 offset csz;
       clusters_to_write \<leftarrow> udiv64 (cnt + ucast csz - 1) csz;
       (c, s) \<leftarrow> skip_or_extend alloc free fops mi mt b (unat clusters_until_start) first s;
       case c of None \<Rightarrow> Some (0, s)
       | Some cluster \<Rightarrow> write_from alloc fops mi mt b file buffer offset cnt cluster s
     }
   }"

subsection \<open>Chains and free clusters\<close>

lemma chain_unique: "chain tab c cs \<Longrightarrow> chain tab c ds \<Longrightarrow> cs = ds"
proof (induction tab c cs arbitrary: ds rule: chain.induct)
  case (2 tab c x)
  then show ?case by (cases ds rule: list.exhaust; cases "tl ds") (auto simp: not_less [symmetric])
next
  case (3 tab c x y ys)
  then show ?case by (cases ds; cases "tl ds") (auto simp: not_less [symmetric])
qed simp

lemma chain_suffix: "chain tab c (cs @ x # ds) \<Longrightarrow> chain tab x (x # ds)"
proof (induction cs arbitrary: c)
  case Nil
  then show ?case using chain_hd [of tab c "x # ds"] by simp
next
  case (Cons y cs)
  then show ?case by (cases cs) auto
qed

lemma chain_distinct: "chain tab c cs \<Longrightarrow> distinct cs"
proof (rule ccontr)
  assume c: "chain tab c cs" and "\<not> distinct cs"
  then obtain xs ys zs x where "cs = xs @ [x] @ ys @ [x] @ zs" using not_distinct_decomp by blast
  then have "chain tab x (x # ys @ x # zs)" "chain tab x (x # zs)"
    using chain_suffix [of tab c xs x "ys @ x # zs"] chain_suffix [of tab c "xs @ x # ys" x zs] c by simp_all
  then have "x # ys @ x # zs = x # zs" by (rule chain_unique)
  then show False by simp
qed

lemma chain_entry_nonzero:
  assumes "chain tab c cs" "\<forall>x\<in>set cs. x \<noteq> 0" "x \<in> set cs"
  shows "tab x \<noteq> 0"
  using assms by (induction tab c cs rule: chain.induct) auto

text \<open>Linking a free cluster behind the last one of a chain.\<close>

lemma chain_append:
  assumes "chain tab c cs" "new \<notin> set cs" "new < FAT32_EOC_MIN" "distinct cs"
    and tab': "\<And>x. x \<in> set cs \<Longrightarrow> tab' x = (if x = last cs then new else tab x)" "FAT32_EOC_MIN \<le> tab' new"
  shows "chain tab' c (cs @ [new])"
  using assms
proof (induction tab c cs rule: chain.induct)
  case (3 tab c x y ys)
  then have "x \<noteq> last (y # ys)" by (metis distinct.simps(2) last_in_set list.discI)
  with 3 have "tab' x = tab x" by auto
  moreover have "chain tab' y ((y # ys) @ [new])" using 3 by (intro "3.IH") auto
  ultimately show ?case using 3 by auto
qed auto

lemma chain_other:
  assumes "chain tab c cs" "\<And>x. x \<in> set cs \<Longrightarrow> tab' x = tab x"
  shows "chain tab' c cs"
  using assms chain_cong by metis

context mounted_disk
begin

definition set_lock :: "u32 \<Rightarrow> spinlock_t \<Rightarrow> ('h, 'b) fat_state_scheme \<Rightarrow> ('h, 'b) fat_state_scheme" where
  "set_lock mi l s = s\<lparr>fat32_mounts := (fat32_mounts s)(mi := (fat32_mounts s mi)\<lparr>m_spinlock := l\<rparr>)\<rparr>"

lemma set_lock_frame:
  assumes v: "volume alloc mi N s"
  shows "volume alloc mi N (set_lock mi l s)" "fat_entry disk mi (set_lock mi l s) = fat_entry disk mi s"
    "cache_ptr alloc mi (set_lock mi l s) = cache_ptr alloc mi s" "fat_base mi (set_lock mi l s) = fat_base mi s"
    "disk (set_lock mi l s) = disk s" "dsize (set_lock mi l s) = dsize s" "owned (set_lock mi l s) = owned s"
proof -
  let ?s = "set_lock mi l s"
  show e: "cache_ptr alloc mi ?s = cache_ptr alloc mi s" "fat_base mi ?s = fat_base mi s"
    by (simp_all add: fat_base_def cache_ptr_def Let_def set_lock_def)
  show st: "disk ?s = disk s" "dsize ?s = dsize s" "owned ?s = owned s"
    using stable [of s ?s] v by (auto simp: fat_ok_def Let_def set_lock_def same_devices_def)
  have "ok ?s" using stable [of s ?s] v by (auto simp: fat_ok_def Let_def set_lock_def same_devices_def)
  then show "volume alloc mi N ?s" using v st unfolding fat_ok_def Let_def e by (simp add: set_lock_def)
  have "fat_byte disk mi ?s = fat_byte disk mi s" using st e by (auto simp: fat_byte_def fun_eq_iff Let_def set_lock_def)
  then show "fat_entry disk mi ?s = fat_entry disk mi s" by (intro ext) (simp add: fat_entry_def)
qed

text \<open>Working on the table under the lock.\<close>

lemma locked_same:
  assumes v: "volume alloc mi N s" "volume alloc mi N t" and l: "m_spinlock (fat32_mounts s mi) = l"
    and f: "fat_same disk dsize owned alloc mi N (set_lock mi k s) t"
  shows "fat_same disk dsize owned alloc mi N s (set_lock mi l t)"
proof -
  note fs = set_lock_frame [OF v(1), of k] and ft = set_lock_frame [OF v(2), of l]
  have "mount_rest (fat32_mounts t mi) = mount_rest ((fat32_mounts s mi)\<lparr>m_spinlock := k\<rparr>)"
    using f by (simp add: fat_same_def set_lock_def)
  then have "mount_rest ((fat32_mounts t mi)\<lparr>m_spinlock := l\<rparr>) = mount_rest (fat32_mounts s mi)"
    using l by (cases "fat32_mounts t mi"; cases "fat32_mounts s mi") (simp add: mount_rest_def)
  then show ?thesis using f fs(3-7) ft(3-7) unfolding fat_same_def by (simp add: set_lock_def)
qed

lemma free_cluster_spec:
  assumes v: "volume alloc mi N s" and b: "bpb_of (fat32_mounts s mi) s = Some b" "fat_entry_count b = Some n" "unat n \<le> N"
  shows "\<exists>c s'. fat32_get_free_cluster alloc fops mi s = Some (c, s') \<and> same_volume alloc mi N s s' \<and>
    (lowest_free (fat_entry disk mi s) (fat_search_start (fat32_mounts s mi)) n c \<or>
     c = 0 \<and> none_free (fat_entry disk mi s) (fat_search_start (fat32_mounts s mi)) n)"
proof -
  have "mi < 64" using v by (simp add: fat_ok_def Let_def)
  with free_cluster_scan_spec [OF v b(3), of "fat_search_start (fat32_mounts s mi)"] b(1,2) show ?thesis
    by (auto simp: fat32_get_free_cluster_def mount_at_def fat_frame_def)
qed

text \<open>Two updates of the table, as \<^verbatim>\<open>fat32_write\<close> makes them.\<close>

lemma link_clusters:
  assumes v: "volume alloc mi N s" "unat l < N" "unat c < N"
  shows "\<exists>t s'. fat32_set_next_cluster alloc fops l c mi s = Some t \<and> fat32_set_next_cluster alloc fops c x mi t = Some s' \<and>
    volume alloc mi N s' \<and> fat_same disk dsize owned alloc mi N s s' \<and>
    (\<forall>j. unat j < N \<longrightarrow> fat_entry disk mi s' j = (if j = c then x else if j = l then c else fat_entry disk mi s j))"
proof -
  from set_next_cluster_spec [OF v(1,2), of c] obtain t where t: "fat32_set_next_cluster alloc fops l c mi s = Some t"
    "volume alloc mi N t" "\<forall>j. unat j < N \<longrightarrow> fat_entry disk mi t j = (if j = l then c else fat_entry disk mi s j)"
    "fat_same disk dsize owned alloc mi N s t" by (auto simp: fat_frame_def)
  from set_next_cluster_spec [OF t(2) v(3), of x] obtain s' where "fat32_set_next_cluster alloc fops c x mi t = Some s'"
    "volume alloc mi N s'" "\<forall>j. unat j < N \<longrightarrow> fat_entry disk mi s' j = (if j = c then x else fat_entry disk mi t j)"
    "fat_same disk dsize owned alloc mi N t s'" by (auto simp: fat_frame_def)
  with t fat_same_trans [OF t(4)] show ?thesis by auto
qed

lemma extend_chain_spec:
  assumes v: "volume alloc mi N s" "unat l < N" and lk: "m_spinlock (fat32_mounts s mi) = \<lparr>lock = False\<rparr>"
    and b: "bpb_of (fat32_mounts s mi) s = Some b" "fat_entry_count b = Some n" "unat n \<le> N"
    and st: "fat_search_start (fat32_mounts s mi) \<noteq> 0"
  shows "\<exists>c s'. extend_chain alloc fops mi l s = Some (c, s') \<and> volume alloc mi N s' \<and>
    fat_same disk dsize owned alloc mi N s s' \<and>
    (c = 0 \<and> none_free (fat_entry disk mi s) (fat_search_start (fat32_mounts s mi)) n \<and> same_table mi N s s' \<or>
     c \<noteq> 0 \<and> c < n \<and> fat_entry disk mi s c = 0 \<and>
     (\<forall>j. unat j < N \<longrightarrow> fat_entry disk mi s' j = (if j = c then FAT32_EOC else if j = l then c else fat_entry disk mi s j)))"
proof -
  have mi: "mi < 64" using v by (simp add: fat_ok_def Let_def)
  let ?k = "\<lparr>lock = True\<rparr>"
  let ?s1 = "set_lock mi ?k s"
  note f = set_lock_frame [OF v(1), of ?k]
  have b1: "bpb_of (fat32_mounts ?s1 mi) ?s1 = Some b" using b(1) by (simp add: bpb_of_def set_lock_def)
  have st1: "fat_search_start (fat32_mounts ?s1 mi) = fat_search_start (fat32_mounts s mi)" by (simp add: set_lock_def)
  from free_cluster_spec [OF f(1) b1 b(2,3)] obtain c t where t: "fat32_get_free_cluster alloc fops mi ?s1 = Some (c, t)"
    "same_volume alloc mi N ?s1 t" "lowest_free (fat_entry disk mi s) (fat_search_start (fat32_mounts s mi)) n c \<or>
     c = 0 \<and> none_free (fat_entry disk mi s) (fat_search_start (fat32_mounts s mi)) n" unfolding f(2) st1 by blast
  have ex: "extend_chain alloc fops mi l s = Some (c, set_lock mi \<lparr>lock = False\<rparr> u)"
    if "(if c = 0 then Some t else do { s \<leftarrow> fat32_set_next_cluster alloc fops l c mi t;
          fat32_set_next_cluster alloc fops c FAT32_EOC mi s }) = Some u" for u
    using that t(1) lk mi by (simp add: extend_chain_def mount_at_def upd_mount_def lock_defs set_lock_def)
  show ?thesis
  proof (cases "c = 0")
    case True
    then have "none_free (fat_entry disk mi s) (fat_search_start (fat32_mounts s mi)) n"
      using t(3) st by (auto simp: lowest_free_def)
    moreover have "volume alloc mi N t" "fat_same disk dsize owned alloc mi N ?s1 t" using t(2) by simp_all
    ultimately show ?thesis
      using ex [of t] True t(2) locked_same [OF v(1) _ lk, of t ?k] set_lock_frame [of alloc mi N t "\<lparr>lock = False\<rparr>"] f(2) by auto
  next
    case False
    then have c: "c < n" "fat_entry disk mi s c = 0" using t(3) by (auto simp: lowest_free_def)
    have cN: "unat c < N" using c(1) b(3) by (simp add: word_less_nat_alt)
    have "volume alloc mi N t" using t(2) by simp
    from link_clusters [OF this v(2) cN, of FAT32_EOC] obtain w u where u: "fat32_set_next_cluster alloc fops l c mi t = Some w"
      "fat32_set_next_cluster alloc fops c FAT32_EOC mi w = Some u" "volume alloc mi N u" "fat_same disk dsize owned alloc mi N t u"
      "\<forall>j. unat j < N \<longrightarrow> fat_entry disk mi u j = (if j = c then FAT32_EOC else if j = l then c else fat_entry disk mi t j)"
      by blast
    have "fat_same disk dsize owned alloc mi N ?s1 u" using t(2) u(4) fat_same_trans by blast
    from locked_same [OF v(1) u(3) lk this] set_lock_frame [OF u(3), of "\<lparr>lock = False\<rparr>"] ex [of u] u(1,2,5) False c t(2) f(2)
    show ?thesis by auto
  qed
qed

end

text \<open>
  C35. Extending a file: \<^verbatim>\<open>fat32_write\<close> takes a free cluster under the lock of the mount and links it behind
  the last cluster of the file.  The entry of the new cluster was 0, the chain of the file grows by exactly
  that cluster, and no entry changes but that of the new cluster, which becomes the end of the chain, and
  that of the cluster before; so every chain that shares no cluster with the file is as before.  When no
  cluster from the search hint on is free the result is 0 and no entry changes.
\<close>

theorem extend_chain_appends:
  assumes dev: "mounted_disk fops src disk dsize owned ok"
    and v: "fat_ok disk dsize owned ok src alloc mi N s" and lk: "m_spinlock (fat32_mounts s mi) = \<lparr>lock = False\<rparr>"
    and b: "bpb_of (fat32_mounts s mi) s = Some b" "fat_entry_count b = Some n" "unat n \<le> N" "n \<le> FAT32_EOC_MIN"
    and st: "fat_search_start (fat32_mounts s mi) \<noteq> 0"
    and c: "chain (fat_entry disk mi s) c cs" "\<forall>x\<in>set cs. x \<noteq> 0 \<and> unat x < N"
  shows "\<exists>new s'. extend_chain alloc fops mi (last cs) s = Some (new, s') \<and> fat_ok disk dsize owned ok src alloc mi N s' \<and>
    fat_same disk dsize owned alloc mi N s s' \<and>
    (new = 0 \<and> none_free (fat_entry disk mi s) (fat_search_start (fat32_mounts s mi)) n \<and>
       (\<forall>j. unat j < N \<longrightarrow> fat_entry disk mi s' j = fat_entry disk mi s j) \<or>
     new \<noteq> 0 \<and> new < n \<and> fat_entry disk mi s new = 0 \<and> new \<notin> set cs \<and> chain (fat_entry disk mi s') c (cs @ [new]) \<and>
       (\<forall>j. unat j < N \<longrightarrow> fat_entry disk mi s' j = (if j = new then FAT32_EOC else if j = last cs then new else fat_entry disk mi s j)) \<and>
       (\<forall>d ds. chain (fat_entry disk mi s) d ds \<and> (\<forall>x\<in>set ds. x \<noteq> 0 \<and> unat x < N) \<and> set ds \<inter> set cs = {} \<longrightarrow>
          new \<notin> set ds \<and> chain (fat_entry disk mi s') d ds))"
proof -
  obtain ds where "cs = c # ds" using c(1) chain_hd by blast
  then have l: "last cs \<in> set cs" by simp
  then have lN: "unat (last cs) < N" using c(2) by blast
  from mounted_disk.extend_chain_spec [OF dev v lN lk b(1-3) st] obtain new s' where s':
    "extend_chain alloc fops mi (last cs) s = Some (new, s')" "fat_ok disk dsize owned ok src alloc mi N s'"
    "fat_same disk dsize owned alloc mi N s s'"
    "new = 0 \<and> none_free (fat_entry disk mi s) (fat_search_start (fat32_mounts s mi)) n \<and>
       (\<forall>j. unat j < N \<longrightarrow> fat_entry disk mi s' j = fat_entry disk mi s j) \<or>
     new \<noteq> 0 \<and> new < n \<and> fat_entry disk mi s new = 0 \<and>
       (\<forall>j. unat j < N \<longrightarrow> fat_entry disk mi s' j = (if j = new then FAT32_EOC else if j = last cs then new else fat_entry disk mi s j))"
    by blast
  have fresh: "new \<notin> set es" if "fat_entry disk mi s new = 0" "chain (fat_entry disk mi s) e es" "\<forall>x\<in>set es. x \<noteq> 0" for e es
    using chain_entry_nonzero [OF that(2,3)] that(1) by blast
  show ?thesis
  proof (cases "new = 0")
    case True
    with s' show ?thesis by blast
  next
    case False
    with s'(4) have n: "new < n" "fat_entry disk mi s new = 0"
      "\<forall>j. unat j < N \<longrightarrow> fat_entry disk mi s' j = (if j = new then FAT32_EOC else if j = last cs then new else fat_entry disk mi s j)"
      by blast+
    have "unat new < N" "new < FAT32_EOC_MIN" using n(1) b(3,4) by (simp_all add: word_less_nat_alt word_le_nat_alt)
    moreover have nc: "new \<notin> set cs" using fresh [OF n(2) c(1)] c(2) by blast
    ultimately have "chain (fat_entry disk mi s') c (cs @ [new])"
      using n(3) c(2) nc by (intro chain_append [OF c(1) _ _ chain_distinct [OF c(1)]]) auto
    moreover have "new \<notin> set es \<and> chain (fat_entry disk mi s') e es"
      if "chain (fat_entry disk mi s) e es \<and> (\<forall>x\<in>set es. x \<noteq> 0 \<and> unat x < N) \<and> set es \<inter> set cs = {}" for e es
      using that fresh [OF n(2), of e es] n(3) l by (auto intro!: chain_other [of "fat_entry disk mi s"])
    ultimately show ?thesis using s'(1-3) False nc n by blast
  qed
qed

theorem extend_chain_appends_witness:
  "\<exists>new s'. extend_chain kmalloc fat_example_ops 0 3 fat_file_example = Some (new, s') \<and> new \<noteq> 0 \<and>
     chain (fat_entry (ram_disk 0x100) 0 s') 2 [2, 3, new]"
proof -
  note x = fat_file_example_file
  have h: "m_spinlock (fat32_mounts fat_file_example 0) = \<lparr>lock = False\<rparr>" "fat_entry_count fat_bpb_example = Some 352"
    "unat (352 :: u32) \<le> 16384" "(352 :: u32) \<le> FAT32_EOC_MIN" "fat_search_start (fat32_mounts fat_file_example 0) \<noteq> 0"
    "\<forall>x\<in>set [2, 3 :: u32]. x \<noteq> 0 \<and> unat x < 16384"
    by (simp_all add: fat_file_example_def fat_example_def fat_mount_example_def fat_entry_count_def fat_bpb_example_def)
  have "fat_entry (ram_disk 0x100) 0 fat_file_example 4 = 0"
    by (simp add: fat_entry_def le32_def fat_byte_def Let_def fat_file_example_def fat_example_def fat_mount_example_def fat_mem_def)
  moreover have "fat_search_start (fat32_mounts fat_file_example 0) = 2"
    by (simp add: fat_file_example_def fat_example_def fat_mount_example_def)
  ultimately have some: "\<not> none_free (fat_entry (ram_disk 0x100) 0 fat_file_example) (fat_search_start (fat32_mounts fat_file_example 0)) 352"
    by (auto simp: none_free_def intro: exI [of _ 4])
  from extend_chain_appends [OF ram.mounted_disk_axioms fat_file_example_ok h(1) x(2) h(2-5) x(1) h(6)] some
  show ?thesis by auto
qed

subsection \<open>Open files\<close>

text \<open>
  The first file that is opened: the array of open files is empty, four pages are allocated for it, and
  the pointer to them is overwritten with 0 by the loop that was to clear them.
\<close>

lemma first_open_loses_array:
  assumes "open_file_cache_size s = 0" "open_file_cache s = 0" "kalloc alloc 4 s = Some (p, s1)"
    and "krelease free 0 (s1\<lparr>open_file_cache_size := 4096\<rparr>) = Some s2"
  shows "enlarge_open_files alloc free s = Some (s2\<lparr>open_file_cache := 0\<rparr>)"
    and "fat32_cache_open alloc free file s = fat32_cache_open alloc free file (s2\<lparr>open_file_cache := 0\<rparr>)"
proof -
  have k: "open_file_cache_size s1 = 0" "open_file_cache s1 = 0"
    using assms(1-3) by (auto simp: kalloc_def split: bind_splits)
  show e: "enlarge_open_files alloc free s = Some (s2\<lparr>open_file_cache := 0\<rparr>)"
    using assms k by (simp add: enlarge_open_files_def memcpy_b_def copy_bytes_def)
  show "fat32_cache_open alloc free file s = fat32_cache_open alloc free file (s2\<lparr>open_file_cache := 0\<rparr>)"
    using assms(1) e by (subst fat32_cache_open.simps) (simp add: cache_open_scan.simps [of _ _ _ "first_free_open_file_index s"])
qed

text \<open>A write that begins and ends inside one cluster returns before the size and the directory entry are
  brought up to date.\<close>

lemma write_inside_skips_writeback:
  assumes "offset AND ucast (cluster_size_bytes b - 1) \<noteq> 0"
    and "ucast (cluster_size_bytes b - ucast (offset AND ucast (cluster_size_bytes b - 1))) > cnt"
    and "fwrite fops (mount_src mt) buffer (cluster_offset mt b cluster + ucast (ucast (offset AND ucast (cluster_size_bytes b - 1)) :: u32)) cnt s = Some (r, s')"
  shows "write_from alloc fops mi mt b file buffer offset cnt cluster s = Some (ucast cnt, s')"
  using assms by (simp add: write_from_def Let_def)

end
