(* ===== verification/FatDir.thy ===== *)
theory FatDir
  imports FatWrite
begin

text \<open>
  Directories of a FAT32 volume (\<^verbatim>\<open>src/kmodules/fs_driver.c\<close>): reading a directory, the long and short
  names of its entries and the search for a name.

  A directory is read into a buffer in memory; its entries are the groups of 32 bytes there, seen
  as \<^verbatim>\<open>fat_dirent_t\<close> or as \<^verbatim>\<open>fat_lfn_t\<close>.  The local array \<^verbatim>\<open>filename[256]\<close> is a list of 256 characters; an
  access outside it has no outcome.

  The main lemma is a round trip: the long-name entries that \<^verbatim>\<open>fat32_create\<close> makes for a name are read
  back to that name.
\<close>

subsection \<open>Data\<close>

definition le16 :: "u8 \<Rightarrow> u8 \<Rightarrow> u16" where
  "le16 a b = ucast a OR push_bit 8 (ucast b)"

fun units :: "u8 list \<Rightarrow> u16 list" where
  "units (a # b # xs) = le16 a b # units xs"
| "units _ = []"

primrec rd_bytes :: "bmem \<Rightarrow> u32 \<Rightarrow> nat \<Rightarrow> u8 list option" where
  "rd_bytes m p 0 = Some []"
| "rd_bytes m p (Suc n) = do { b \<leftarrow> m p; bs \<leftarrow> rd_bytes m (p + 1) n; Some (b # bs) }"

record fat_dirent_t =
  d_name :: "u8 list"
  d_flags :: u8
  cluster_high :: u16
  cluster_low :: u16
  d_size :: u32

text \<open>The fields of the 32 bytes of an entry that the driver reads; the times are not among them.\<close>

definition dirent_of :: "u8 list \<Rightarrow> fat_dirent_t" where
  "dirent_of e = \<lparr>d_name = take 11 e, d_flags = e ! 11, cluster_high = le16 (e ! 20) (e ! 21),
     cluster_low = le16 (e ! 26) (e ! 27),
     d_size = ucast (e ! 28) OR push_bit 8 (ucast (e ! 29)) OR push_bit 16 (ucast (e ! 30)) OR push_bit 24 (ucast (e ! 31))\<rparr>"

definition zero_dirent :: fat_dirent_t where
  "zero_dirent = \<lparr>d_name = replicate 11 0, d_flags = 0, cluster_high = 0, cluster_low = 0, d_size = 0\<rparr>"

definition dirent_first_cluster :: "fat_dirent_t \<Rightarrow> u32" where
  "dirent_first_cluster d = push_bit 16 (ucast (cluster_high d)) OR ucast (cluster_low d)"

record fat_lfn_t =
  entry_no :: u8
  name0 :: "u16 list"
  lfn_attribute :: u8
  lfn_checksum_field :: u8
  name1 :: "u16 list"
  name2 :: "u16 list"

definition lfn_of :: "u8 list \<Rightarrow> fat_lfn_t" where
  "lfn_of e = \<lparr>entry_no = e ! 0, name0 = units (take 10 (drop 1 e)), lfn_attribute = e ! 11, lfn_checksum_field = e ! 13,
     name1 = units (take 12 (drop 14 e)), name2 = units (take 4 (drop 28 e))\<rparr>"

definition dirent_at :: "bmem \<Rightarrow> u32 \<Rightarrow> u32 \<Rightarrow> u8 list option" where
  "dirent_at m dir_data i = rd_bytes m (dir_data + i * 32) 32"

subsection \<open>Reading a directory\<close>

partial_function (option) read_dirent_loop ::
    "'h allocator \<Rightarrow> (u32 \<Rightarrow> ('h, 'b) fat_state_scheme fileops_t) \<Rightarrow> u32 \<Rightarrow> fat_mount_t \<Rightarrow> fat32_bpb_t \<Rightarrow>
     u32 \<Rightarrow> u32 \<Rightarrow> u32 \<Rightarrow> ('h, 'b) fat_state_scheme \<Rightarrow> ('h, 'b) fat_state_scheme option" where
  "read_dirent_loop alloc fops mi mt b buffer cluster_number cluster s =
     (if cluster < FAT32_EOC_MIN
      then do {
        let start = (data_start_sector mt + (cluster - 2) * ucast (sectors_per_cluster b)) * ucast (bytes_per_sector b);
        (r, s) \<leftarrow> fread fops (mount_src mt) (buffer + cluster_number * ucast (sectors_per_cluster b) * ucast (bytes_per_sector b))
                    (ucast start) (ucast (cluster_size_bytes b)) s;
        (cluster, s) \<leftarrow> fat32_get_next_cluster alloc fops cluster mi s;
        read_dirent_loop alloc fops mi mt b buffer (cluster_number + 1) cluster s
      }
      else Some s)"

definition fat32_read_dirent ::
    "'h allocator \<Rightarrow> (u32 \<Rightarrow> ('h, 'b) fat_state_scheme fileops_t) \<Rightarrow> fat_dirent_t \<Rightarrow> u32 \<Rightarrow> u32 \<Rightarrow>
     ('h, 'b) fat_state_scheme \<Rightarrow> (u32 \<times> ('h, 'b) fat_state_scheme) option" where
  "fat32_read_dirent alloc fops dirent buffer mi s = do {
     mt \<leftarrow> mount_at mi s;
     b \<leftarrow> bpb_of mt s;
     let cluster = (if d_name dirent ! 0 \<noteq> 0 then dirent_first_cluster dirent else root_dir_cluster b);
     s \<leftarrow> read_dirent_loop alloc fops mi mt b buffer 0 cluster s;
     Some (0, s)
   }"

subsection \<open>Names\<close>

definition set_char :: "u8 list \<Rightarrow> u32 \<Rightarrow> u8 \<Rightarrow> u8 list option" where
  "set_char fn i c = (if unat i < length fn then Some (fn[unat i := c]) else None)"

definition get_char :: "u8 list \<Rightarrow> u32 \<Rightarrow> u8 option" where
  "get_char fn i = (if unat i < length fn then Some (fn ! unat i) else None)"

text \<open>One of the three loops of \<^verbatim>\<open>fat32_build_filename_long\<close> over the characters of an entry.\<close>

primrec lfn_copy :: "u16 list \<Rightarrow> u32 \<Rightarrow> u32 \<Rightarrow> u8 list \<Rightarrow> (u32 \<times> u8 list) option" where
  "lfn_copy [] start i filename = Some (i, filename)"
| "lfn_copy (u # us) start i filename =
     (if u = 0xffff \<or> u = 0 then Some (i, filename)
      else do {
        filename \<leftarrow> set_char filename (i + start) (ucast u);
        lfn_copy us start (i + 1) filename
      })"

definition lfn_entry_copy :: "fat_lfn_t \<Rightarrow> u8 list \<Rightarrow> u8 list option" where
  "lfn_entry_copy l filename = do {
     let start = (ucast (entry_no l AND 0x3f) - 1) * 13;
     (i, filename) \<leftarrow> lfn_copy (name0 l) start 0 filename;
     (i, filename) \<leftarrow> lfn_copy (name1 l) start i filename;
     (i, filename) \<leftarrow> lfn_copy (name2 l) start i filename;
     Some filename
   }"

partial_function (option) build_long_loop :: "bmem \<Rightarrow> u32 \<Rightarrow> u32 \<Rightarrow> u8 list \<Rightarrow> (u32 \<times> u8 list) option" where
  "build_long_loop m dir_data index filename = do {
     e \<leftarrow> dirent_at m dir_data index;
     if e ! 11 AND 0xf \<noteq> 0 \<and> e ! 0 \<noteq> 0
     then do {
       filename \<leftarrow> lfn_entry_copy (lfn_of e) filename;
       build_long_loop m dir_data (index + 1) filename
     }
     else Some (index, filename)
   }"

definition fat32_build_filename_long :: "u32 \<Rightarrow> u8 list \<Rightarrow> u32 \<Rightarrow> bmem \<Rightarrow> (u32 \<times> u8 list) option" where
  "fat32_build_filename_long start_index filename dir_data m =
     (if dir_data = 0 then Some (start_index, filename)
      else do {
        e \<leftarrow> dirent_at m dir_data start_index;
        if e ! 11 \<noteq> 0xf then Some (start_index, filename)
        else build_long_loop m dir_data start_index filename
      })"

text \<open>\<^verbatim>\<open>fat32_copy_short_filename\<close>: the loop that cuts off blanks, and the operation.\<close>

primrec cut_blanks :: "nat \<Rightarrow> u8 list \<Rightarrow> (nat \<times> u8 list) option" where
  "cut_blanks 0 filename = Some (0, filename)"
| "cut_blanks (Suc j) filename = do {
     c \<leftarrow> get_char filename (of_nat (Suc j));
     if c = 32 \<or> c = 0
     then do { filename \<leftarrow> set_char filename (of_nat (Suc j)) 0; cut_blanks j filename }
     else Some (Suc j, filename)
   }"

definition fat32_copy_short_filename :: "u8 list \<Rightarrow> u8 list \<Rightarrow> u8 list option" where
  "fat32_copy_short_filename filename e = do {
     let name = d_name (dirent_of e);
     filename \<leftarrow> fold_opt (\<lambda>j fn. set_char fn (of_nat j) (name ! j)) [0..<8] filename;
     (j, filename) \<leftarrow> cut_blanks 8 filename;
     let j = j + 1;
     filename \<leftarrow> set_char filename (of_nat j) (if name ! 8 \<noteq> 0 then 46 else 0);
     fold_opt (\<lambda>i fn. set_char fn (of_nat (j + i - 7)) (name ! i)) [8..<11] filename
   }"

text \<open>The string in a character array, and \<^verbatim>\<open>fat32_search_dir\<close>: the index and the bytes of the entry found.\<close>

definition str_of :: "u8 list \<Rightarrow> u8 list" where
  "str_of fn = takeWhile (\<lambda>c. c \<noteq> 0) fn"

partial_function (option) search_dir_loop :: "bmem \<Rightarrow> u8 list \<Rightarrow> u32 \<Rightarrow> u32 \<Rightarrow> (u32 \<times> u8 list) option option" where
  "search_dir_loop m path dir_data i = do {
     e \<leftarrow> dirent_at m dir_data i;
     if e ! 0 \<noteq> 0 \<and> i < 65536
     then do {
       let filename = replicate 256 0;
       (i, filename) \<leftarrow> (if e ! 11 = 0xf then fat32_build_filename_long i filename dir_data m
          else do { filename \<leftarrow> fat32_copy_short_filename filename e; Some (i, filename) });
       if path = str_of filename then do { e \<leftarrow> dirent_at m dir_data i; Some (Some (i, e)) }
       else search_dir_loop m path dir_data (i + 1)
     }
     else Some None
   }"

definition fat32_search_dir :: "u8 list \<Rightarrow> u32 \<Rightarrow> bmem \<Rightarrow> (u32 \<times> u8 list) option option" where
  "fat32_search_dir path dir_data m = search_dir_loop m path dir_data 0"

subsection \<open>Making the entries of a name\<close>

definition lfn_checksum :: "u8 list \<Rightarrow> u8" where
  "lfn_checksum sfn = foldl (\<lambda>chk i. (if chk AND 1 \<noteq> 0 then 0x80 else 0) + drop_bit 1 chk + sfn ! i) 0 [0..<11]"

text \<open>
  The \<open>i\<close>-th long-name entry that \<^verbatim>\<open>fat32_create\<close> makes: thirteen characters of the name, each widened
  as a signed character, zeros behind its end; the last of \<open>count\<close> entries is marked.
\<close>

definition lfn_units :: "u8 list \<Rightarrow> nat \<Rightarrow> u16 list" where
  "lfn_units name i = (let cs = take 13 (drop (13 * i) name) in map scast cs @ replicate (13 - length cs) 0)"

definition unit_bytes :: "u16 list \<Rightarrow> u8 list" where
  "unit_bytes us = concat (map (le_bytes 2) us)"

definition lfn_entry :: "u8 list \<Rightarrow> u8 \<Rightarrow> nat \<Rightarrow> nat \<Rightarrow> u8 list" where
  "lfn_entry name chk cnt i = (let us = lfn_units name i in
     [of_nat (i + 1) OR (if Suc i = cnt then 0x40 else 0)] @ unit_bytes (take 5 us) @ [0xf, 0, chk] @
     unit_bytes (take 6 (drop 5 us)) @ [0, 0] @ unit_bytes (drop 11 us))"

definition lfn_count :: "u8 list \<Rightarrow> nat" where
  "lfn_count name = (length name + 12) div 13"

subsection \<open>Long names are read back\<close>

lemma le16_bytes: "le16 (ucast v) (ucast (drop_bit 8 v)) = v"
proof (rule bit_word_eqI)
  fix n
  assume "n < LENGTH(16)"
  then consider "n < 8" | "8 \<le> n" "n < 16" by force
  then show "bit (le16 (ucast v) (ucast (drop_bit 8 v))) n = bit v n"
    by cases (auto simp: le16_def bit_simps)
qed

lemma units_bytes [simp]: "units (unit_bytes us) = us"
  by (induction us) (simp_all add: unit_bytes_def le_bytes_def upt_rec le16_bytes)

lemma unit_bytes_length [simp]: "length (unit_bytes us) = 2 * length us"
  by (induction us) (simp_all add: unit_bytes_def le_bytes_def)

lemma lfn_units_length [simp]: "length (lfn_units name i) = 13"
  by (simp add: lfn_units_def Let_def)

lemma lfn_entry_fields:
  assumes "i < 0x3f" "i < cnt"
  shows "entry_no (lfn_of (lfn_entry name chk cnt i)) AND 0x3f = of_nat (i + 1)"
    and "name0 (lfn_of (lfn_entry name chk cnt i)) = take 5 (lfn_units name i)"
    and "name1 (lfn_of (lfn_entry name chk cnt i)) = take 6 (drop 5 (lfn_units name i))"
    and "name2 (lfn_of (lfn_entry name chk cnt i)) = drop 11 (lfn_units name i)"
    and "lfn_entry name chk cnt i ! 11 = 0xf" "lfn_entry name chk cnt i ! 0 \<noteq> 0" "length (lfn_entry name chk cnt i) = 32"
proof -
  let ?us = "lfn_units name i"
  have l: "length (unit_bytes (take 5 ?us)) = 10" "length (unit_bytes (take 6 (drop 5 ?us))) = 12" "length (unit_bytes (drop 11 ?us)) = 4"
    by simp_all
  note d = lfn_of_def lfn_entry_def Let_def nth_append
  show "name0 (lfn_of (lfn_entry name chk cnt i)) = take 5 ?us" "name1 (lfn_of (lfn_entry name chk cnt i)) = take 6 (drop 5 ?us)"
    "name2 (lfn_of (lfn_entry name chk cnt i)) = drop 11 ?us" "lfn_entry name chk cnt i ! 11 = 0xf"
    "length (lfn_entry name chk cnt i) = 32"
    by (simp_all add: d l)
  have u: "unat (of_nat (i + 1) :: u8) = i + 1" using assms(1) by (intro unat_of_nat_lt) simp
  show "lfn_entry name chk cnt i ! 0 \<noteq> 0"
  proof -
    have "(of_nat (i + 1) :: u8) \<noteq> 0" using u by (metis Suc_eq_plus1 nat.distinct(1) unat_0)
    then show ?thesis by (simp add: d or_eq_0_iff del: of_nat_add)
  qed
  have m: "(0x3f :: u8) = mask 6" by (simp add: mask_eq_exp_minus_1)
  have "unat ((of_nat (i + 1) :: u8) AND mask 6) = i + 1" using u assms(1) by (simp only: unat_and_mask) simp
  then have "(of_nat (i + 1) :: u8) AND 0x3f = of_nat (i + 1)" unfolding m using u by (simp only: word_unat_eq_iff)
  then show "entry_no (lfn_of (lfn_entry name chk cnt i)) AND 0x3f = of_nat (i + 1)"
    by (simp add: d bit.conj_disj_distrib2)
qed

text \<open>Overwriting part of an array.\<close>

definition put_at :: "'a list \<Rightarrow> nat \<Rightarrow> 'a list \<Rightarrow> 'a list" where
  "put_at fn k xs = take k fn @ xs @ drop (k + length xs) fn"

lemma put_at_length [simp]: "k + length xs \<le> length fn \<Longrightarrow> length (put_at fn k xs) = length fn"
  by (simp add: put_at_def)

lemma put_at_Nil [simp]: "put_at fn k [] = fn"
  by (simp add: put_at_def)

lemma put_at_Cons:
  assumes "k + Suc (length xs) \<le> length fn"
  shows "put_at (fn[k := x]) (Suc k) xs = put_at fn k (x # xs)"
  using assms by (simp add: put_at_def take_Suc_conv_app_nth take_update_cancel drop_update_cancel)

definition lfn_char :: "u8 \<Rightarrow> bool" where
  "lfn_char c \<longleftrightarrow> c \<noteq> 0 \<and> c \<noteq> 0xff"

lemma lfn_char_unit:
  assumes "lfn_char c"
  shows "(scast c :: u16) \<noteq> 0xffff" "(scast c :: u16) \<noteq> 0" "ucast (scast c :: u16) = c"
proof -
  show u: "ucast (scast c :: u16) = c" by (rule bit_word_eqI) (auto simp: bit_simps)
  show "(scast c :: u16) \<noteq> 0xffff" using assms u by (auto simp: lfn_char_def)
  show "(scast c :: u16) \<noteq> 0" using assms u by (auto simp: lfn_char_def)
qed

lemma lfn_copy_chars:
  assumes "list_all lfn_char xs" "unat st + unat i + length xs \<le> length fn" "length fn < 2 ^ 32"
  shows "lfn_copy (map scast xs @ replicate z 0) st i fn = Some (i + of_nat (length xs), put_at fn (unat st + unat i) xs)"
  using assms
proof (induction xs arbitrary: i fn)
  case Nil
  then show ?case by (cases z) simp_all
next
  case (Cons x xs)
  have k: "unat (i + st) = unat st + unat i" using Cons.prems by (subst unat_add_lt) simp_all
  have i1: "unat (i + 1) = unat i + 1" using Cons.prems by (subst unat_add_lt) simp_all
  have "lfn_copy (map scast xs @ replicate z 0) st (i + 1) (fn[unat st + unat i := x]) =
      Some (i + 1 + of_nat (length xs), put_at (fn[unat st + unat i := x]) (unat st + unat (i + 1)) xs)"
    using Cons.prems i1 by (intro Cons.IH) simp_all
  moreover have "put_at (fn[unat st + unat i := x]) (unat st + unat (i + 1)) xs = put_at fn (unat st + unat i) (x # xs)"
    using Cons.prems i1 by (simp add: put_at_Cons)
  ultimately show ?case
    using Cons.prems k lfn_char_unit [of x] by (simp add: set_char_def add.assoc)
qed

lemma lfn_copy_zeros: "lfn_copy (replicate z 0) st i fn = Some (i, fn)"
  by (cases z) simp_all

lemma lfn_copy_split:
  assumes "us @ vs = map scast xs @ replicate z 0" "list_all lfn_char xs"
  shows "lfn_copy (us @ vs) st i fn = do { (i, fn) \<leftarrow> lfn_copy us st i fn; lfn_copy vs st i fn }"
  using assms
proof (induction us arbitrary: xs z i fn)
  case (Cons u us)
  show ?case
  proof (cases xs)
    case Nil
    then have "(u # us) @ vs = replicate z 0" using Cons.prems by simp
    then have "u = 0" "set vs \<subseteq> {0}" by (metis append_Cons in_set_replicate list.set_intros(1), metis UnCI in_set_replicate set_append singleton_iff subsetI)
    moreover from this(2) have "lfn_copy vs st i fn = Some (i, fn)" by (cases vs) auto
    ultimately show ?thesis by simp
  next
    case (Cons x ys)
    with Cons.prems have "u = scast x" "us @ vs = map scast ys @ replicate z 0" "list_all lfn_char ys" "lfn_char x" by simp_all
    then show ?thesis using Cons.IH lfn_char_unit [of x] by (simp split: bind_splits)
  qed
qed simp

lemma lfn_copy_three:
  assumes us: "us @ vs @ ws = map scast xs @ replicate z 0" "list_all lfn_char xs"
  shows "lfn_copy (us @ vs @ ws) st i fn =
    do { (i, fn) \<leftarrow> lfn_copy us st i fn; (i, fn) \<leftarrow> lfn_copy vs st i fn; lfn_copy ws st i fn }"
proof -
  have "vs @ ws = drop (length us) (map scast xs @ replicate z 0)" using us(1) by (metis append_eq_conv_conj)
  then have "vs @ ws = map scast (drop (length us) xs) @ replicate (z - (length us - length xs)) 0" by (simp add: drop_map)
  moreover have "list_all lfn_char (drop (length us) xs)" using us(2) by (auto simp: list_all_iff dest: in_set_dropD)
  ultimately have "lfn_copy (vs @ ws) st i fn = do { (i, fn) \<leftarrow> lfn_copy vs st i fn; lfn_copy ws st i fn }" for i fn
    by (rule lfn_copy_split)
  then show ?thesis using lfn_copy_split [OF us] by simp
qed

lemma lfn_entry_copy_part:
  assumes i: "i < 0x3f" "i < cnt" and n: "list_all lfn_char name" "13 * i < length name" "length name \<le> length fn" "length fn < 2 ^ 32"
  defines "cs \<equiv> take 13 (drop (13 * i) name)"
  shows "lfn_entry_copy (lfn_of (lfn_entry name chk cnt i)) fn = Some (put_at fn (13 * i) cs)"
proof -
  let ?us = "lfn_units name i"
  let ?st = "(ucast (of_nat (i + 1) :: u8) - 1) * 13 :: u32"
  have us: "?us = map scast cs @ replicate (13 - length cs) 0" by (simp add: lfn_units_def Let_def cs_def)
  have cs: "list_all lfn_char cs" "13 * i + length cs \<le> length fn"
    using n by (auto simp: cs_def list_all_iff dest!: in_set_takeD in_set_dropD)
  have "unat (of_nat (i + 1) :: u8) = i + 1" "unat (of_nat (i + 1) :: u32) = i + 1" using i by (intro unat_of_nat_lt; simp)+
  then have "(ucast (of_nat (i + 1) :: u8) :: u32) = of_nat (i + 1)"
    by (simp add: word_unat_eq_iff unat_ucast_up del: of_nat_add)
  then have e: "?st = of_nat (13 * i)" by simp
  have st: "unat ?st = 13 * i" unfolding e using i by (intro unat_of_nat_lt) simp
  have "drop 5 ?us = take 6 (drop 5 ?us) @ drop 11 ?us" using append_take_drop_id [of 6 "drop 5 ?us"] by simp
  then have parts: "take 5 ?us @ take 6 (drop 5 ?us) @ drop 11 ?us = ?us" using append_take_drop_id [of 5 ?us] by metis
  have "lfn_copy ?us ?st 0 fn = Some (of_nat (length cs), put_at fn (13 * i) cs)"
    unfolding us using lfn_copy_chars [OF cs(1), of ?st 0 fn "13 - length cs"] st cs(2) n(4) by simp
  moreover have "lfn_copy ?us ?st 0 fn = do { (i, fn) \<leftarrow> lfn_copy (take 5 ?us) ?st 0 fn;
      (i, fn) \<leftarrow> lfn_copy (take 6 (drop 5 ?us)) ?st i fn; lfn_copy (drop 11 ?us) ?st i fn }"
    using lfn_copy_three [of "take 5 ?us" "take 6 (drop 5 ?us)" "drop 11 ?us" cs "13 - length cs" ?st 0 fn] us cs(1) unfolding parts by metis
  ultimately have c: "(do { (i, fn) \<leftarrow> lfn_copy (take 5 ?us) ?st 0 fn;
      (i, fn) \<leftarrow> lfn_copy (take 6 (drop 5 ?us)) ?st i fn; lfn_copy (drop 11 ?us) ?st i fn }) =
    Some (of_nat (length cs), put_at fn (13 * i) cs)" by simp
  show ?thesis
    unfolding lfn_entry_copy_def lfn_entry_fields [OF i] Let_def using c by (auto split: bind_splits)
qed

text \<open>The array while the entries from \<open>i\<close> on have been read.\<close>

definition partial_name :: "u8 list \<Rightarrow> nat \<Rightarrow> u8 list" where
  "partial_name name i = replicate (min (13 * i) (length name)) 0 @ drop (13 * i) name @ replicate (256 - length name) 0"

lemma partial_name_length: "length name \<le> 256 \<Longrightarrow> length (partial_name name i) = 256"
  by (simp add: partial_name_def)

lemma partial_name_step:
  assumes "13 * i < length name"
  shows "put_at (partial_name name (Suc i)) (13 * i) (take 13 (drop (13 * i) name)) = partial_name name i"
proof -
  have e: "13 * i + length (take 13 (drop (13 * i) name)) = min (13 * Suc i) (length name)" using assms by auto
  have "take (13 * i) (partial_name name (Suc i)) = replicate (13 * i) 0" using assms by (simp add: partial_name_def)
  moreover have "drop (min (13 * Suc i) (length name)) (partial_name name (Suc i)) = drop (13 * Suc i) name @ replicate (256 - length name) 0"
    by (simp add: partial_name_def)
  moreover have "take 13 (drop (13 * i) name) @ drop (13 * Suc i) name = drop (13 * i) name"
    using append_take_drop_id [of 13 "drop (13 * i) name"] by (simp add: add.commute)
  moreover have "min (13 * i) (length name) = 13 * i" using assms by simp
  ultimately show ?thesis unfolding put_at_def e by (simp add: partial_name_def flip: append_assoc)
qed

lemma lfn_count_bounds:
  assumes "name \<noteq> []" "length name \<le> 255"
  shows "0 < lfn_count name" "lfn_count name \<le> 20" "length name \<le> 13 * lfn_count name" "i < lfn_count name \<Longrightarrow> 13 * i < length name"
proof -
  have "lfn_count name * 13 \<le> length name + 12" "length name + 12 < lfn_count name * 13 + 13"
    unfolding lfn_count_def using mod_less_divisor [of 13 "length name + 12"] div_mult_mod_eq [of "length name + 12" 13] by linarith+
  moreover have "0 < length name" using assms(1) by simp
  ultimately show "0 < lfn_count name" "lfn_count name \<le> 20" "length name \<le> 13 * lfn_count name"
    "i < lfn_count name \<Longrightarrow> 13 * i < length name" using assms(2) by linarith+
qed

lemma build_long_entries:
  assumes n: "list_all lfn_char name" "name \<noteq> []" "length name \<le> 255"
    and e: "\<forall>k<lfn_count name. dirent_at m dir (of_nat (st + k)) = Some (lfn_entry name chk (lfn_count name) (lfn_count name - 1 - k))"
    and last: "dirent_at m dir (of_nat (st + lfn_count name)) = Some l" "l ! 11 AND 0xf = 0"
    and i: "i \<le> lfn_count name"
  shows "build_long_loop m dir (of_nat (st + (lfn_count name - i))) (partial_name name i) =
    Some (of_nat (st + lfn_count name), partial_name name 0)"
  using i
proof (induction i)
  case 0
  then show ?case using last by (subst build_long_loop.simps) (simp del: of_nat_add)
next
  case (Suc i)
  note b = lfn_count_bounds [OF n(2,3)]
  have i: "i < 0x3f" "i < lfn_count name" using Suc.prems b(2) by simp_all
  have "dirent_at m dir (of_nat (st + (lfn_count name - Suc i))) = Some (lfn_entry name chk (lfn_count name) i)"
    using e [rule_format, of "lfn_count name - Suc i"] Suc.prems by simp
  moreover have "lfn_entry_copy (lfn_of (lfn_entry name chk (lfn_count name) i)) (partial_name name (Suc i)) = Some (partial_name name i)"
    using lfn_entry_copy_part [OF i n(1) b(4) [OF i(2)], of "partial_name name (Suc i)" chk] n(3) partial_name_length [of name "Suc i"]
      partial_name_step [OF b(4) [OF i(2)]] by simp
  moreover have "(of_nat (st + (lfn_count name - Suc i)) + 1 :: u32) = of_nat (st + (lfn_count name - i))"
    using Suc.prems by (simp add: of_nat_diff)
  ultimately show ?case
    using Suc.IH Suc.prems lfn_entry_fields(5,6) [OF i, of name chk]
    by (subst build_long_loop.simps) (simp del: of_nat_add of_nat_diff)
qed

text \<open>
  Long names survive the directory: the entries that \<^verbatim>\<open>fat32_create\<close> makes for a name of at most 255
  characters, stored in reverse order before a short entry, are read back by
  \<^verbatim>\<open>fat32_build_filename_long\<close> to exactly that name, and the result is the index of the short entry.  The
  characters 0 and 255 are excluded, since they mark the end of a name.
\<close>

theorem long_filename_roundtrip:
  assumes n: "list_all lfn_char name" "name \<noteq> []" "length name \<le> 255" and dir: "dir_data \<noteq> 0"
    and e: "\<forall>k<lfn_count name. dirent_at m dir_data (of_nat (st + k)) = Some (lfn_entry name chk (lfn_count name) (lfn_count name - 1 - k))"
    and last: "dirent_at m dir_data (of_nat (st + lfn_count name)) = Some l" "l ! 11 AND 0xf = 0"
  shows "\<exists>filename. fat32_build_filename_long (of_nat st) (replicate 256 0) dir_data m =
      Some (of_nat (st + lfn_count name), filename) \<and> str_of filename = name"
proof -
  note b = lfn_count_bounds [OF n(2,3)]
  have i: "lfn_count name - 1 < 0x3f" "lfn_count name - 1 < lfn_count name" using b(1,2) by simp_all
  have z: "partial_name name (lfn_count name) = replicate 256 0"
    using b(3) n(3) by (simp add: partial_name_def min_def replicate_add [symmetric])
  have "build_long_loop m dir_data (of_nat st) (replicate 256 0) = Some (of_nat (st + lfn_count name), partial_name name 0)"
    using build_long_entries [OF n e last, of "lfn_count name"] z by (simp del: of_nat_add)
  moreover have "dirent_at m dir_data (of_nat st) = Some (lfn_entry name chk (lfn_count name) (lfn_count name - 1))"
    using e [rule_format, of 0] b(1) by simp
  moreover have "str_of (partial_name name 0) = name"
    using n(1,3) by (auto simp: str_of_def partial_name_def list_all_iff lfn_char_def takeWhile_append2 takeWhile_eq_Nil_iff)
  ultimately show ?thesis
    using dir lfn_entry_fields(5) [OF i, of name chk] by (simp add: fat32_build_filename_long_def)
qed

lemma rd_bytes_at:
  assumes "\<And>i. i < length xs \<Longrightarrow> m (p + of_nat i) = Some (xs ! i)"
  shows "rd_bytes m p (length xs) = Some xs"
  using assms
proof (induction xs arbitrary: p)
  case (Cons x xs)
  have "rd_bytes m (p + 1) (length xs) = Some xs"
    using Cons.prems [of "Suc _"] by (intro Cons.IH) (simp add: add.assoc)
  with Cons.prems [of 0] show ?case by simp
qed simp

theorem long_filename_roundtrip_witness:
  "\<exists>filename. fat32_build_filename_long (of_nat 0) (replicate 256 0) 0x5000
      (bytes_at 0x5000 (lfn_entry [107, 105, 109, 105] 0x55 1 0 @ replicate 32 0x20)) = Some (of_nat (0 + 1), filename) \<and>
    str_of filename = [107, 105, 109, 105]"
proof -
  let ?n = "[107, 105, 109, 105] :: u8 list"
  let ?e = "lfn_entry ?n 0x55 1 0"
  let ?m = "bytes_at 0x5000 (?e @ replicate 32 0x20)"
  have l: "length ?e = 32" by (rule lfn_entry_fields(7)) simp_all
  have c: "lfn_count ?n = 1" by (simp add: lfn_count_def)
  have at: "?m (0x5000 + of_nat i) = Some ((?e @ replicate 32 0x20) ! i)" if "i < 64" for i
    using that l by (simp add: bytes_at_def unat_of_nat_lt)
  have first: "dirent_at ?m 0x5000 (of_nat (0 + 0)) = Some ?e"
    using rd_bytes_at [of ?e ?m "0x5000"] at l by (simp add: dirent_at_def nth_append)
  have "?m (0x5000 + of_nat 32 + of_nat i) = Some (replicate 32 0x20 ! i)" if "i < 32" for i
    using at [of "32 + i"] that l by (simp add: nth_append add.assoc)
  then have second: "dirent_at ?m 0x5000 (of_nat (0 + 1)) = Some (replicate 32 0x20)"
    using rd_bytes_at [of "replicate 32 0x20" ?m "0x5000 + of_nat 32"] by (simp add: dirent_at_def)
  have h: "list_all lfn_char ?n" "?n \<noteq> []" "length ?n \<le> 255" "(0x5000 :: u32) \<noteq> 0"
    "\<forall>k<lfn_count ?n. dirent_at ?m 0x5000 (of_nat (0 + k)) = Some (lfn_entry ?n 0x55 (lfn_count ?n) (lfn_count ?n - 1 - k))"
    "dirent_at ?m 0x5000 (of_nat (0 + lfn_count ?n)) = Some (replicate 32 0x20)" "replicate 32 (0x20 :: u8) ! 11 AND 0xf = 0"
    using first second by (simp_all add: lfn_char_def c)
  from long_filename_roundtrip [OF h] show ?thesis unfolding c .
qed

end
