(* ===== verification/FatMount.thy ===== *)
theory FatMount
  imports FatDir
begin

text \<open>
  Opening files of a FAT32 volume and mounting a volume (\<^verbatim>\<open>src/kmodules/fs_driver.c\<close>): the resolution of a path
  through the directories of the volume, \<^verbatim>\<open>fat32_open\<close>, \<^verbatim>\<open>fat32_mount\<close> and the handler of messages.

  Pages from \<^verbatim>\<open>malloc\<close> are not cleared.  Where the driver leaves fields of a structure in such a page as they are,
  the definitions take them from \<open>fresh\<close>, the contents of the page as a structure.  The boot sector and the
  information sector are read into memory and decoded from their bytes; the decoded boot sector is kept in the
  store \<open>bpbs\<close> at its address.  Printing is left out.

  The property shows that \<^verbatim>\<open>fat32_read_dirent\<close> loads a directory: all clusters of its chain, in order.
\<close>

subsection \<open>Paths\<close>

record fresh_t =
  fresh_open_file :: "u32 \<Rightarrow> fat_open_file_t"
  fresh_vfile :: "u32 \<Rightarrow> vfile_t"

definition dir_pages :: "fat_dirent_t \<Rightarrow> u32" where
  "dir_pages parent_dir =
     (let n = (if d_name parent_dir ! 0 \<noteq> 0 then (d_size parent_dir + PAGE_SIZE_BYTES - 1) div PAGE_SIZE_BYTES else 8)
      in n + (if n = 0 then 8 else 0))"

text \<open>The loop over the parts of the path: the directory, its parent and the index found last; \<open>None\<close> when a part is missing.\<close>

primrec walk_tokens ::
    "'h allocator \<Rightarrow> (u32 \<Rightarrow> 'h \<Rightarrow> 'h option) \<Rightarrow> (u32 \<Rightarrow> ('h, 'b) fat_state_scheme fileops_t) \<Rightarrow> u32 \<Rightarrow> u8 list list \<Rightarrow>
     fat_dirent_t \<Rightarrow> fat_dirent_t \<Rightarrow> u32 \<Rightarrow> ('h, 'b) fat_state_scheme \<Rightarrow>
     ((fat_dirent_t \<times> fat_dirent_t \<times> u32) option \<times> ('h, 'b) fat_state_scheme) option" where
  "walk_tokens alloc free fops mi [] last_parent_dir parent_dir dirent_index s =
     Some (Some (last_parent_dir, parent_dir, dirent_index), s)"
| "walk_tokens alloc free fops mi (t # ts) last_parent_dir parent_dir dirent_index s = do {
     (dir_data, s) \<leftarrow> kalloc alloc (dir_pages parent_dir) s;
     (r, s) \<leftarrow> fat32_read_dirent alloc fops parent_dir dir_data mi s;
     result \<leftarrow> fat32_search_dir t dir_data (fmem s);
     s \<leftarrow> krelease free dir_data s;
     case result of
       None \<Rightarrow> Some (None, s)
     | Some (i, e) \<Rightarrow> walk_tokens alloc free fops mi ts parent_dir (dirent_of e) i s
   }"

text \<open>\<^verbatim>\<open>memcpy(path, returnable->filename, copy_count)\<close>: up to 100 bytes into 96, the last four being \<^verbatim>\<open>refcount\<close>.\<close>

definition copy_filename :: "u8 list \<Rightarrow> fat_open_file_t \<Rightarrow> fat_open_file_t" where
  "copy_filename path f =
     (let old = of_filename f @ le_bytes 4 (of_refcount f);
          bs = take 100 path @ drop (length (take 100 path)) old
      in f\<lparr>of_filename := take 96 bs, of_refcount := le32 (\<lambda>i. bs ! i) 96\<rparr>)"

definition set_open_file :: "u32 \<Rightarrow> fat_open_file_t \<Rightarrow> ('h, 'b) fat_state_scheme \<Rightarrow> ('h, 'b) fat_state_scheme" where
  "set_open_file p f s = s\<lparr>open_files := (open_files s)(p \<mapsto> f)\<rparr>"

definition fat_resolve_path ::
    "'h allocator \<Rightarrow> (u32 \<Rightarrow> 'h \<Rightarrow> 'h option) \<Rightarrow> (u32 \<Rightarrow> ('h, 'b) fat_state_scheme fileops_t) \<Rightarrow> fresh_t \<Rightarrow>
     u8 list option \<Rightarrow> u32 \<Rightarrow> ('h, 'b) fat_state_scheme \<Rightarrow> (u32 \<times> ('h, 'b) fat_state_scheme) option" where
  "fat_resolve_path alloc free fops fresh path_arg par s =
     (if par = 0 \<or> path_arg = None \<or> path_arg = Some [] then Some (0, s)
      else do {
        let path = the path_arg;
        (pathname, s) \<leftarrow> kalloc alloc 1 s;
        if pathname = 0 then Some (0, s)
        else if length path \<ge> 4096 then None
        else do {
          let lead = (hd path = slash);
          let pathname = (if lead then pathname + 1 else pathname);
          (toks, s) \<leftarrow> kalloc alloc 1 s;
          if toks = 0 then do { s \<leftarrow> krelease free pathname s; Some (0, s) }
          else do {
            v \<leftarrow> vfiles s par;
            let tokens = take 1024 (path_tokens (if lead then tl path else path));
            (found, s) \<leftarrow> walk_tokens alloc free fops (f_id v) tokens zero_dirent zero_dirent 0 s;
            s \<leftarrow> krelease free pathname s;
            s \<leftarrow> krelease free toks s;
            case found of
              None \<Rightarrow> Some (0, s)
            | Some (last_parent_dir, parent_dir, dirent_index) \<Rightarrow> do {
                (p, s) \<leftarrow> kalloc alloc 1 s;
                if p = 0 then Some (0, s)
                else do {
                  mt \<leftarrow> mount_at (f_id v) s;
                  b \<leftarrow> bpb_of mt s;
                  let csz = cluster_size_bytes b;
                  if csz = 0 then None
                  else do {
                    let f = (copy_filename path (fresh_open_file fresh p))\<lparr>first_cluster := dirent_first_cluster parent_dir,
                      dirent_cluster := (if d_name last_parent_dir ! 0 = 0 then root_dir_cluster b
                                         else dirent_first_cluster last_parent_dir),
                      dirent_offset := dirent_index, file_flags := ucast (d_flags parent_dir), mount_index := f_id v,
                      size_bytes := d_size parent_dir, size_clusters := (d_size parent_dir + csz - 1) div csz\<rparr>;
                    Some (p, set_open_file p f s)
                  }
                }
              }
          }
        }
      })"

text \<open>The structure for the root directory of the mount, made when the path is empty.\<close>

definition root_open_file :: "fat_open_file_t \<Rightarrow> vfile_t \<Rightarrow> u32 \<Rightarrow> fat_open_file_t" where
  "root_open_file f v cluster =
     f\<lparr>file_flags := ucast (f_flags v), dirent_cluster := 0, dirent_offset := 0,
       of_filename := f_name v @ [0] @ drop (length (f_name v) + 1) (of_filename f),
       mount_index := f_id v, of_refcount := 1, first_cluster := cluster, size_clusters := - 1, size_bytes := 0\<rparr>"

definition fat32_open ::
    "'h allocator \<Rightarrow> (u32 \<Rightarrow> 'h \<Rightarrow> 'h option) \<Rightarrow> (u32 \<Rightarrow> ('h, 'b) fat_state_scheme fileops_t) \<Rightarrow> fresh_t \<Rightarrow>
     u8 list option \<Rightarrow> u32 \<Rightarrow> ('h, 'b) fat_state_scheme \<Rightarrow> (u32 \<times> ('h, 'b) fat_state_scheme) option" where
  "fat32_open alloc free fops fresh path par s = do {
     (file, s) \<leftarrow> fat_resolve_path alloc free fops fresh path par s;
     (file, s) \<leftarrow> (if file \<noteq> 0 then Some (file, s)
        else do {
          p \<leftarrow> path;
          if p \<noteq> [] then Some (0, s)
          else do {
            (file, s) \<leftarrow> kalloc alloc 1 s;
            v \<leftarrow> vfiles s par;
            mt \<leftarrow> mount_at (f_id v) s;
            b \<leftarrow> bpb_of mt s;
            if file = 0 then None
            else Some (file, set_open_file file (root_open_file (fresh_open_file fresh file) v (root_dir_cluster b)) s)
          }
        });
     if file = 0 then Some (0, s)
     else do {
       (to_return, s) \<leftarrow> kalloc alloc 1 s;
       f \<leftarrow> open_files s file;
       (off, s) \<leftarrow> fat32_cache_open alloc free file s;
       if to_return = 0 then None
       else do {
         let v = (fresh_vfile fresh to_return)\<lparr>f_ops := fat32_ops s,
               f_flags := ucast (translate_fat32_flags_to_vfile (file_flags f)), f_id := mount_index f,
               f_offset := ucast off, f_private := file, block_size_bytes := 0, refcount := 1, f_size := ucast (size_bytes f)\<rparr>;
         Some (to_return, s\<lparr>vfiles := (vfiles s)(to_return \<mapsto> v)\<rparr>)
       }
     }
   }"

text \<open>\<^verbatim>\<open>fat32_delete\<close> and \<^verbatim>\<open>fat32_close\<close> have empty bodies; the value the first returns is not defined, 0 here.\<close>

definition fat32_delete :: "u32 \<Rightarrow> u8 list \<Rightarrow> ('h, 'b) fat_state_scheme \<Rightarrow> (u32 \<times> ('h, 'b) fat_state_scheme) option" where
  "fat32_delete file child s = Some (0, s)"

definition fat32_close :: "u32 \<Rightarrow> ('h, 'b) fat_state_scheme \<Rightarrow> ('h, 'b) fat_state_scheme option" where
  "fat32_close file s = Some s"

subsection \<open>Mounting\<close>

definition bpb_at :: "bmem \<Rightarrow> u32 \<Rightarrow> fat32_bpb_t option" where
  "bpb_at m p = do {
     bps \<leftarrow> rd16 m (p + 11);
     spc \<leftarrow> m (p + 13);
     res \<leftarrow> rd16 m (p + 14);
     fats \<leftarrow> m (p + 16);
     small \<leftarrow> rd16 m (p + 19);
     sectors \<leftarrow> rd32 m (p + 32);
     spf \<leftarrow> rd32 m (p + 36);
     root \<leftarrow> rd32 m (p + 44);
     info \<leftarrow> rd16 m (p + 48);
     sig \<leftarrow> m (p + 66);
     Some \<lparr>bytes_per_sector = bps, sectors_per_cluster = spc, reserved_sectors = res, fat_count = fats,
       sectors_small = small, sector_count = sectors, sectors_per_fat = spf, root_dir_cluster = root,
       fsinfo_sector = info, bpb_signature = sig\<rparr>
   }"

definition fsinfo_at :: "bmem \<Rightarrow> u32 \<Rightarrow> fsinfo_t option" where
  "fsinfo_at m p = do {
     lead \<leftarrow> rd32 m p;
     s2 \<leftarrow> rd32 m (p + 484);
     cnt \<leftarrow> rd32 m (p + 488);
     first \<leftarrow> rd32 m (p + 492);
     trail \<leftarrow> rd32 m (p + 508);
     Some \<lparr>lead_sig = lead, sig2 = s2, fsinfo_free_count = cnt, first_free_cluster = first, trail_sig = trail\<rparr>
   }"

definition zero_mount :: fat_mount_t where
  "zero_mount = \<lparr>bpb = 0, mount_src = 0, cache_dirty = False, m_spinlock = \<lparr>lock = False\<rparr>, last_free_cluster_count = 0,
     fat_search_start = 0, max_clusters = 0, fat_start_sector = 0, data_start_sector = 0, fat_cache_start = 0,
     fat_cache_size = 0, fat_cache = 0\<rparr>"

text \<open>The first free slot; slot 0 when none is free.\<close>

definition mount_slot :: "('h, 'b) fat_state_scheme \<Rightarrow> u32" where
  "mount_slot s = (case find (\<lambda>i. bpb (fat32_mounts s (of_nat i)) = 0) [0..<64] of Some i \<Rightarrow> of_nat i | None \<Rightarrow> 0)"

definition new_mount :: "u32 \<Rightarrow> u32 \<Rightarrow> fat32_bpb_t \<Rightarrow> fat_mount_t" where
  "new_mount p dev_file b = zero_mount\<lparr>bpb := p, mount_src := dev_file,
     max_clusters := sector_count b div ucast (sectors_per_cluster b),
     data_start_sector := ucast (reserved_sectors b) + ucast (fat_count b) * sectors_per_fat b,
     fat_start_sector := ucast (reserved_sectors b)\<rparr>"

definition use_fsinfo :: "fsinfo_t \<Rightarrow> fat_mount_t \<Rightarrow> fat_mount_t" where
  "use_fsinfo i mt = (if fat32_check_fsinfo i
     then mt\<lparr>fat_search_start := first_free_cluster i, last_free_cluster_count := fsinfo_free_count i\<rparr> else mt)"

text \<open>The file of the mount point.\<close>

definition mount_file :: "fat32_bpb_t \<Rightarrow> u32 \<Rightarrow> u32 \<Rightarrow> u32 \<Rightarrow> vfile_t \<Rightarrow> vfile_t" where
  "mount_file b index ops root v = v\<lparr>f_ops := ops, f_id := index,
     f_size := ucast ((sector_count b - (ucast (reserved_sectors b) + ucast (fat_count b) * sectors_per_fat b)) *
                  ucast (bytes_per_sector b)),
     block_size_bytes := bytes_per_sector b * ucast (sectors_per_cluster b), f_private := root\<rparr>"

definition fat32_mount ::
    "'h allocator \<Rightarrow> (u32 \<Rightarrow> 'h \<Rightarrow> 'h option) \<Rightarrow> (u32 \<Rightarrow> ('h, 'b) fat_state_scheme fileops_t) \<Rightarrow> fresh_t \<Rightarrow>
     u32 \<Rightarrow> u8 list option \<Rightarrow> u32 \<Rightarrow> ('h, 'b) fat_state_scheme \<Rightarrow> (u32 \<times> ('h, 'b) fat_state_scheme) option" where
  "fat32_mount alloc free fops fresh dev_file destination offset s =
     (if dev_file = 0 then Some (- 1, s)
      else do {
        (p, s) \<leftarrow> kalloc alloc 1 s;
        (r, s) \<leftarrow> fread fops dev_file p (ucast offset) 512 s;
        b \<leftarrow> bpb_at (fmem s) p;
        if \<not> fat32_check_valid b \<and> sectors_small b > 0 then do { s \<leftarrow> krelease free p s; Some (- 1, s) }
        else if sectors_per_cluster b = 0 then None
        else do {
          let index = mount_slot s;
          let s = s\<lparr>bpbs := (bpbs s)(p \<mapsto> b), fat32_mounts := (fat32_mounts s)(index := new_mount p dev_file b)\<rparr>;
          (q, s) \<leftarrow> kalloc alloc 1 s;
          (r, s) \<leftarrow> fread fops dev_file q (ucast (ucast (fsinfo_sector b) * ucast (bytes_per_sector b) :: u32)) 512 s;
          info \<leftarrow> fsinfo_at (fmem s) q;
          s \<leftarrow> upd_mount index (use_fsinfo info) s;
          (mountfile, s) \<leftarrow> fcreate alloc free fops destination (ucast FS_FILE_MOUNT) s;
          if mountfile = 0
          then do {
            s \<leftarrow> krelease free p s;
            s \<leftarrow> krelease free q s;
            s \<leftarrow> upd_mount index (\<lambda>_. zero_mount) s;
            Some (- 1, s)
          }
          else do {
            (root, s) \<leftarrow> kalloc alloc 1 s;
            s \<leftarrow> (if root = 0 then None else Some s);
            let s = set_open_file root ((fresh_open_file fresh root)\<lparr>first_cluster := root_dir_cluster b, mount_index := index\<rparr>) s;
            s \<leftarrow> upd_vfile mountfile (mount_file b index (fat32_ops s) root) s;
            s \<leftarrow> upd_mount index (\<lambda>mt. mt\<lparr>m_spinlock := spinlock_init (m_spinlock mt)\<rparr>) s;
            s \<leftarrow> krelease free q s;
            Some (0, s)
          }
        }
      })"

definition fat_message_handler ::
    "'h allocator \<Rightarrow> (u32 \<Rightarrow> 'h \<Rightarrow> 'h option) \<Rightarrow> (u32 \<Rightarrow> ('h, 'b) fat_state_scheme fileops_t) \<Rightarrow> fresh_t \<Rightarrow>
     u32 \<Rightarrow> u32 \<Rightarrow> u8 list option \<Rightarrow> u32 \<Rightarrow> ('h, 'b) fat_state_scheme \<Rightarrow> (int \<times> ('h, 'b) fat_state_scheme) option" where
  "fat_message_handler alloc free fops fresh message device dest offset s =
     (if message = 0 then do { (r, s) \<leftarrow> fat32_mount alloc free fops fresh device dest offset s; Some (sint r, s) }
      else Some (- 1, s))"

subsection \<open>Reading a directory\<close>

text \<open>The driver computes the place of a cluster of a directory in sectors, at 32 bits.\<close>

definition dir_offset :: "fat_mount_t \<Rightarrow> fat32_bpb_t \<Rightarrow> u32 \<Rightarrow> u32" where
  "dir_offset mt b c = (data_start_sector mt + (c - 2) * ucast (sectors_per_cluster b)) * ucast (bytes_per_sector b)"

lemma unat_dir_offset:
  assumes d: "data_ok dsize mi N b s c" "cluster_at mi b s c < 2 ^ 32" and mt: "mount_rest (fat32_mounts s mi) = mount_rest mt"
  shows "(ucast (dir_offset mt b c) :: u64) = cluster_offset mt b c"
proof -
  let ?x = "data_start_sector mt * ucast (bytes_per_sector b)" and ?y = "(c - 2) * cluster_size_bytes b"
  have eq: "dir_offset mt b c = ?x + ?y"
    by (simp add: dir_offset_def cluster_size_bytes_def algebra_simps)
  have o1: "unat (cluster_offset mt b c) = cluster_at mi b s c" by (rule unat_cluster_offset [OF d(1) mt])
  have "cluster_offset mt b c = ucast ?x + ucast ?y" by (simp add: cluster_offset_def)
  then have "unat (ucast ?x + ucast ?y :: u64) = cluster_at mi b s c" using o1 by simp
  moreover have "unat (ucast ?x + ucast ?y :: u64) = unat ?x + unat ?y"
    using unat_u32_less [of ?x] unat_u32_less [of ?y] by (subst unat_add_lt) (simp_all add: unat_ucast_up)
  ultimately have "unat (?x + ?y) = cluster_at mi b s c" using d(2) by (subst unat_add_lt) simp_all
  then show ?thesis using o1 by (simp add: word_unat_eq_iff unat_ucast_up eq)
qed

context mounted_disk
begin

lemma read_dirent_loop_spec:
  assumes "volume alloc mi N s" "mount_rest (fat32_mounts s mi) = mount_rest mt"
    and "chain (fat_entry disk mi s) c cs" "\<forall>c\<in>set cs. data_ok dsize mi N b s c \<and> cluster_at mi b s c < 2 ^ 32"
    and "length cs * unat (cluster_size_bytes b) < 2 ^ 32" "c < FAT32_EOC_MIN"
    and "buffer_ok owned alloc mi s (buf + of_nat i * cluster_size_bytes b) (length cs * unat (cluster_size_bytes b))"
  shows "\<exists>s'. read_dirent_loop alloc fops mi mt b buf (of_nat i) c s = Some s' \<and> same_volume alloc mi N s s' \<and>
    got alloc mi s (buf + of_nat i * cluster_size_bytes b) (length cs * unat (cluster_size_bytes b)) (file_byte disk mi b s cs) s'"
  using assms
proof (induction cs arbitrary: c s i)
  case (Cons x ds)
  let ?z = "unat (cluster_size_bytes b)" and ?B = "buf + of_nat i * cluster_size_bytes b"
  have x: "x = c" using Cons.prems(3) chain_hd by blast
  have z: "0 < ?z" and c: "data_ok dsize mi N b s c" "cluster_at mi b s c < 2 ^ 32" using Cons.prems(4) x by (simp_all add: data_ok_def)
  have B: "buffer_ok owned alloc mi s ?B ?z" using buffer_part [OF Cons.prems(7), of 0 ?z] z by simp
  have a: "buf + of_nat i * ucast (sectors_per_cluster b) * ucast (bytes_per_sector b) = ?B"
    by (simp add: cluster_size_bytes_def algebra_simps)
  from read_step [where c = c and b = b and ?o1.0 = 0, OF Cons.prems(1) c(1) Cons.prems(2) B z] obtain r s1 s2 where s:
    "fread fops (mount_src mt) ?B (cluster_offset mt b c) (of_nat ?z) s = Some (r, s1)"
    "fat32_get_next_cluster alloc fops c mi s1 = Some (fat_entry disk mi s c, s2)" "same_volume alloc mi N s s2"
    "got alloc mi s ?B ?z (\<lambda>i. disk s (cluster_at mi b s c + i)) s2" by auto
  have step: "read_dirent_loop alloc fops mi mt b buf (of_nat i) c s =
      read_dirent_loop alloc fops mi mt b buf (of_nat (Suc i)) (fat_entry disk mi s c) s2"
    using s(1,2) Cons.prems(6) unat_dir_offset [OF c Cons.prems(2)]
    by (subst read_dirent_loop.simps) (simp add: a dir_offset_def Let_def add.commute)
  have same: "fat_same disk dsize owned alloc mi N s s2" using s(3) by simp
  show ?case
  proof (cases ds)
    case Nil
    then have "read_dirent_loop alloc fops mi mt b buf (of_nat (Suc i)) (fat_entry disk mi s c) s2 = Some s2"
      using Cons.prems(3) x by (subst read_dirent_loop.simps) (auto simp: not_less)
    moreover have "got alloc mi s ?B ?z (file_byte disk mi b s [x]) s2"
      using s(4) by (rule got_cong) (simp add: file_byte_first x)
    ultimately show ?thesis using step s(3) Nil by auto
  next
    case (Cons d es)
    have d: "fat_entry disk mi s c = d" "d < FAT32_EOC_MIN" "chain (fat_entry disk mi s) d ds"
      using Cons.prems(3) x by (auto simp: Cons)
    have e: "?B + of_nat ?z = buf + of_nat (Suc i) * cluster_size_bytes b" by (simp add: algebra_simps)
    have rest: "buffer_ok owned alloc mi s (?B + of_nat ?z) (length ds * ?z)"
      using buffer_part [OF Cons.prems(7), of ?z "length ds * ?z"] z by (simp add: Cons)
    have "\<exists>s'. read_dirent_loop alloc fops mi mt b buf (of_nat (Suc i)) d s2 = Some s' \<and> same_volume alloc mi N s2 s' \<and>
        got alloc mi s2 (buf + of_nat (Suc i) * cluster_size_bytes b) (length ds * ?z) (file_byte disk mi b s2 ds) s'"
    proof (rule Cons.IH)
      show "chain (fat_entry disk mi s2) d ds"
        using d(3) s(3) Cons.prems(4) chain_cong [of ds "fat_entry disk mi s2" "fat_entry disk mi s"] by (simp add: data_ok_def)
      show "mount_rest (fat32_mounts s2 mi) = mount_rest mt" using same Cons.prems(2) by (simp add: fat_same_def)
      show "buffer_ok owned alloc mi s2 (buf + of_nat (Suc i) * cluster_size_bytes b) (length ds * ?z)"
        using buffer_got [OF rest s(4) same] unfolding e .
    qed (use Cons.prems d(2) s(3) data_same(2,3) [OF same] in auto)
    then obtain s' where s': "read_dirent_loop alloc fops mi mt b buf (of_nat (Suc i)) d s2 = Some s'" "same_volume alloc mi N s2 s'"
        "got alloc mi s2 (?B + of_nat ?z) (length ds * ?z) (file_byte disk mi b s2 ds) s'" unfolding e by blast
    have "got alloc mi s ?B (length (x # ds) * ?z) (file_byte disk mi b s (x # ds)) s'"
      using got_file_step [where n = "length (x # ds) * ?z" and c = c and ds = ds, OF s(4) _ same] s'(3) Cons.prems(4,5) z x by (simp add: Cons)
    then show ?thesis using step s' d(1) same_volume_trans [OF s(3) s'(2)] by auto
  qed
qed simp

end

text \<open>
  C38. \<^verbatim>\<open>fat32_read_dirent\<close> loads a directory: the buffer receives the bytes of all the clusters of the directory, in the
  order of its chain, for the root directory (an entry without a name) as for any other, wherever the window of the
  table is.  No other memory changes apart from the window, and the table and the volume are as before.
\<close>

theorem fat32_read_dirent_loads_directory:
  assumes dev: "mounted_disk fops src disk dsize owned ok"
    and v: "fat_ok disk dsize owned ok src alloc mi N s"
    and b: "bpb_of (fat32_mounts s mi) s = Some b"
    and first: "first = (if d_name d ! 0 \<noteq> 0 then dirent_first_cluster d else root_dir_cluster b)" "first < FAT32_EOC_MIN"
    and c: "chain (fat_entry disk mi s) first cs" "\<forall>c\<in>set cs. data_ok dsize mi N b s c \<and> cluster_at mi b s c < 2 ^ 32"
    and n: "length cs * unat (cluster_size_bytes b) < 2 ^ 32"
    and buf: "buffer_ok owned alloc mi s buf (length cs * unat (cluster_size_bytes b))"
  shows "\<exists>s'. fat32_read_dirent alloc fops d buf mi s = Some (0, s') \<and>
    (\<forall>i<length cs * unat (cluster_size_bytes b). fmem s' (buf + of_nat i) = Some (file_byte disk mi b s cs i)) \<and>
    (\<forall>a. \<not> owned s a \<and> \<not> span (cache_ptr alloc mi s) 65536 a \<and> \<not> span buf (length cs * unat (cluster_size_bytes b)) a \<longrightarrow>
       fmem s' a = fmem s a) \<and>
    fat_ok disk dsize owned ok src alloc mi N s' \<and>
    (\<forall>j. unat j < N \<longrightarrow> fat_entry disk mi s' j = fat_entry disk mi s j) \<and>
    fat_same disk dsize owned alloc mi N s s'"
proof -
  let ?n = "length cs * unat (cluster_size_bytes b)"
  have mi: "mount_at mi s = Some (fat32_mounts s mi)" using v by (simp add: mount_at_def fat_ok_def Let_def)
  have "buffer_ok owned alloc mi s (buf + of_nat 0 * cluster_size_bytes b) ?n" using buf by simp
  from mounted_disk.read_dirent_loop_spec [OF dev v refl c n first(2) this]
  obtain s' where s': "read_dirent_loop alloc fops mi (fat32_mounts s mi) b buf 0 first s = Some s'"
    "fat_ok disk dsize owned ok src alloc mi N s'" "\<forall>j. unat j < N \<longrightarrow> fat_entry disk mi s' j = fat_entry disk mi s j"
    "fat_same disk dsize owned alloc mi N s s'" "mounted_disk.got owned alloc mi s buf ?n (file_byte disk mi b s cs) s'"
    by auto
  note m = s'(5) [unfolded mounted_disk.got_def [OF dev]]
  have "fat32_read_dirent alloc fops d buf mi s = Some (0, s')"
    using s'(1) mi b by (simp add: fat32_read_dirent_def first(1) Let_def)
  moreover have "fmem s' (buf + of_nat i) = Some (file_byte disk mi b s cs i)" if "i < ?n" for i
    using m buf that n by (auto simp: buffer_ok_def apart_def)
  moreover have "fmem s' a = fmem s a" if "\<not> owned s a \<and> \<not> span (cache_ptr alloc mi s) 65536 a \<and> \<not> span buf ?n a" for a
    using m that by (simp add: overlay_off)
  ultimately show ?thesis using s'(2-4) by (intro exI [of _ s']) simp
qed

lemma fat32_read_dirent_loads_directory_witness:
  "\<exists>s'. fat32_read_dirent kmalloc fat_example_ops zero_dirent 0x400000 0 fat_file_example = Some (0, s') \<and>
     fmem s' (0x400000 + of_nat 600) = Some 0x58"
proof -
  note x = fat_file_example_file
  have byte: "file_byte (ram_disk 0x100) 0 fat_bpb_example fat_file_example [2, 3] 600 = 0x58"
    by (simp add: file_byte_def Let_def x(4) cluster_at_def data_base_def ram_disk_def)
      (simp add: fat_file_example_def fat_example_def fat_mount_example_def fat_bpb_example_def zero_vfile_def fat_mem_def)
  have first: "(2 :: u32) = (if d_name zero_dirent ! 0 \<noteq> 0 then dirent_first_cluster zero_dirent else root_dir_cluster fat_bpb_example)"
    by (simp add: zero_dirent_def fat_bpb_example_def)
  have c: "\<forall>c\<in>set [2, 3]. data_ok (ram_size 0x100) 0 16384 fat_bpb_example fat_file_example c \<and>
      cluster_at 0 fat_bpb_example fat_file_example c < 2 ^ 32"
    using x(5) by (simp add: cluster_at_def data_base_def x(4))
      (simp add: fat_file_example_def fat_example_def fat_mount_example_def fat_bpb_example_def)
  have n: "length [2 :: u32, 3] * unat (cluster_size_bytes fat_bpb_example) = 1024" by (simp add: x(4))
  from fat32_read_dirent_loads_directory [OF ram.mounted_disk_axioms fat_file_example_ok x(2) first _ x(1) c, of "0x400000"]
  obtain s' where s': "fat32_read_dirent kmalloc fat_example_ops zero_dirent 0x400000 0 fat_file_example = Some (0, s')"
    "\<forall>i<1024. fmem s' (0x400000 + of_nat i) = Some (file_byte (ram_disk 0x100) 0 fat_bpb_example fat_file_example [2, 3] i)"
    unfolding n using fat_file_example_buffer [of 1024] by auto
  from s'(2) [rule_format, of 600] byte s'(1) show ?thesis by auto
qed

text \<open>
  The test of the boot sector rejects it only when the signature is wrong and the 16-bit number of sectors is not
  zero; a boot sector of zeros passes and makes the division by the cluster size fail.
\<close>

lemma zero_boot_sector_divides_by_zero:
  assumes "dev \<noteq> 0" "kalloc alloc 1 s = Some (p, s1)" "fread fops dev p (ucast offset) 512 s1 = Some (r, s2)"
    "\<forall>i<512. fmem s2 (p + of_nat i) = Some 0"
  shows "fat32_mount alloc free fops fresh dev destination offset s = None"
proof -
  have z: "fmem s2 (p + of_nat i) = Some 0" if "i < 512" for i using assms(4) that by blast
  note zs = z [of 11] z [of 12] z [of 13] z [of 14] z [of 15] z [of 16] z [of 19] z [of 20] z [of 32] z [of 33] z [of 34] z [of 35]
    z [of 36] z [of 37] z [of 38] z [of 39] z [of 44] z [of 45] z [of 46] z [of 47] z [of 48] z [of 49] z [of 66]
  have "\<exists>b. bpb_at (fmem s2) p = Some b \<and> sectors_small b = 0 \<and> sectors_per_cluster b = 0"
    using zs by (simp add: bpb_at_def rd16_def rd32_def le16_def add.assoc)
  then show ?thesis using assms(1-3) by (auto simp: fat32_mount_def)
qed

end
