(* ===== verification/FatCreate.thy ===== *)
theory FatCreate
  imports FatMount
begin

text \<open>
  Creating a file on a FAT32 volume (\<^verbatim>\<open>fat32_create\<close> in \<^verbatim>\<open>src/kmodules/fs_driver.c\<close>): the path is split into directory and
  name, the directory is read into a buffer, a run of free entries is looked for, the directory is extended
  when there is none, and the entries of the new name are written into the buffer and from there to the volume.

  Two arguments stand for memory that is not initialised: \<open>stack\<close> is what the local array \<^verbatim>\<open>short_filename[20]\<close> holds at
  entry, and \<open>behind\<close> are the bytes behind the end of the name in its page, which the copies of a fixed number of characters
  reach.
\<close>

text \<open>
  The last part of a path and the part before it, without a slash at either end; the flag says whether there
  is a part before it.
\<close>

definition split_path :: "u8 list \<Rightarrow> bool \<times> u8 list \<times> u8 list" where
  "split_path path =
     (let p = (if last path = slash then butlast path else path)
      in if slash \<in> set p
         then (True, rev (tl (dropWhile (\<lambda>c. c \<noteq> slash) (rev p))), rev (takeWhile (\<lambda>c. c \<noteq> slash) (rev p)))
         else (False, [], p))"

text \<open>The clusters of a directory: their number and the last one.  Only \<^verbatim>\<open>FAT32_EOC\<close> itself ends the loop.\<close>

partial_function (option) count_clusters ::
    "'h allocator \<Rightarrow> (u32 \<Rightarrow> ('h, 'b) fat_state_scheme fileops_t) \<Rightarrow> u32 \<Rightarrow> u32 \<Rightarrow> u32 \<Rightarrow> u32 \<Rightarrow>
     ('h, 'b) fat_state_scheme \<Rightarrow> ((u32 \<times> u32) \<times> ('h, 'b) fat_state_scheme) option" where
  "count_clusters alloc fops mi cnt last_cluster cluster s =
     (if cluster < FAT32_EOC
      then do {
        (c, s) \<leftarrow> fat32_get_next_cluster alloc fops cluster mi s;
        count_clusters alloc fops mi (cnt + 1) cluster c s
      }
      else Some ((cnt, last_cluster), s))"

text \<open>The search for a run of free entries.  \<^verbatim>\<open>name[0] != 0xe5\<close> compares a signed character.\<close>

definition entry_name0 :: "bmem \<Rightarrow> u32 \<Rightarrow> u32 \<Rightarrow> u8 option" where
  "entry_name0 m buffer i = m (buffer + i * 32)"

function run_at :: "bmem \<Rightarrow> u32 \<Rightarrow> u32 \<Rightarrow> u32 \<Rightarrow> u32 \<Rightarrow> u32 \<Rightarrow> (bool \<times> u32) option" where
  "run_at m buffer dir_entry_count total_dirents i j =
     (if j < total_dirents
      then if i + j \<ge> dir_entry_count then Some (False, i)
           else do {
             c \<leftarrow> entry_name0 m buffer (i + j);
             if c = 0 then Some (True, i)
             else if sint c \<noteq> 0xe5 then Some (False, i + j)
             else run_at m buffer dir_entry_count total_dirents i (j + 1)
           }
      else Some (True, i))"
  by pat_completeness auto
termination
  by (relation "measure (\<lambda>(m, buffer, n, total_dirents, i, j). unat total_dirents - unat j)") (simp_all add: word_loop_measure)

declare run_at.simps [simp del]

record free_search =
  fs_found :: bool
  fs_free_index :: u32
  fs_matches :: u32

partial_function (option) find_free ::
    "bmem \<Rightarrow> u32 \<Rightarrow> u32 \<Rightarrow> u32 \<Rightarrow> u8 \<Rightarrow> u32 \<Rightarrow> free_search \<Rightarrow> free_search option" where
  "find_free m buffer dir_entry_count total_dirents c0 i r =
     (if i < dir_entry_count
      then do {
        (found, i) \<leftarrow> run_at m buffer dir_entry_count total_dirents i 0;
        c \<leftarrow> entry_name0 m buffer i;
        if c = 0 then Some (r\<lparr>fs_found := True, fs_free_index := i\<rparr>)
        else do {
          let r = (if c = c0 then r\<lparr>fs_matches := fs_matches r + 1\<rparr> else r);
          let r = r\<lparr>fs_found := found, fs_free_index := (if found \<and> i < fs_free_index r then i else fs_free_index r)\<rparr>;
          find_free m buffer dir_entry_count total_dirents c0 (i + 1) r
        }
      }
      else Some r)"

text \<open>
  The short name: a character, a tilde and a number, and the extension.  The local array is addressed from 1.
\<close>

definition local_array :: "u8 list \<Rightarrow> bmem" where
  "local_array xs a = (if a \<noteq> 0 \<and> unat (a - 1) < length xs then Some (xs ! unat (a - 1)) else None)"

definition ext_index :: "u8 list \<Rightarrow> nat" where
  "ext_index name = (if 46 \<in> set name then Suc (length (takeWhile (\<lambda>c. c \<noteq> 46) name)) else length name)"

definition short_name :: "u8 list \<Rightarrow> u8 list \<Rightarrow> u8 list \<Rightarrow> u32 \<Rightarrow> u8 list option" where
  "short_name stack name behind matches = do {
     let text = name @ [0] @ behind;
     if length stack \<noteq> 20 \<or> length text < ext_index name + 3 \<or> length text < 6 then None
     else do {
       let a = take 6 text @ drop 6 stack;
       let a = a[0 := hd text, 1 := 126];
       m \<leftarrow> itoa (ucast matches) 3 10 (local_array a);
       a \<leftarrow> rd_bytes m 1 20;
       Some (take 8 a @ take 3 (drop (ext_index name) text) @ drop 11 a)
     }
   }"

text \<open>The bytes of the entries in \<^verbatim>\<open>dirents_to_write\<close>; the last entry keeps what the page held in the fields that are not assigned.\<close>

definition put_dirents :: "u32 \<Rightarrow> u8 list \<Rightarrow> u8 list \<Rightarrow> u32 \<Rightarrow> bmem \<Rightarrow> bmem option" where
  "put_dirents p name sfn fl m = do {
     let n = lfn_count name;
     m \<leftarrow> fold_opt (\<lambda>i. put_bytes (p + of_nat i * 32) (lfn_entry name (lfn_checksum sfn) n i)) [0..<n] m;
     let d = p + of_nat n * 32;
     m \<leftarrow> put_bytes d (take 11 sfn) m;
     m \<leftarrow> wr (d + 11) (ucast fl AND 0x2f) m;
     m \<leftarrow> wr32 (d + 28) 0 m;
     m \<leftarrow> wr16 (d + 20) 0 m;
     wr16 (d + 26) 0 m
   }"

definition copy_dirents :: "u32 \<Rightarrow> u32 \<Rightarrow> u32 \<Rightarrow> nat \<Rightarrow> bmem \<Rightarrow> bmem option" where
  "copy_dirents p buffer free_index n m = do {
     m \<leftarrow> fold_opt (\<lambda>i. copy_bytes (p + of_nat (n - 1 - i) * 32) (buffer + (of_nat i + free_index) * 32) 32) [0..<n] m;
     copy_bytes (p + of_nat n * 32) (buffer + (of_nat n + free_index) * 32) 32 m
   }"

text \<open>
  Reading the directory: the buffer, the number of clusters and the last cluster; \<open>None\<close> when the function returns null.
\<close>

definition load_directory ::
    "'h allocator \<Rightarrow> (u32 \<Rightarrow> ('h, 'b) fat_state_scheme fileops_t) \<Rightarrow> u32 \<Rightarrow> u32 \<Rightarrow> u32 \<Rightarrow> u32 \<Rightarrow>
     ('h, 'b) fat_state_scheme \<Rightarrow> ((u32 \<times> u32 \<times> u32) option \<times> ('h, 'b) fat_state_scheme) option" where
  "load_directory alloc fops mi csz parent_dir cluster s =
     (if cluster = 0
      then do {
        (cluster, s) \<leftarrow> fat32_get_free_cluster alloc fops mi s;
        if cluster = 0 then Some (None, s)
        else do {
          s \<leftarrow> fat32_set_next_cluster alloc fops cluster FAT32_EOC mi s;
          (buffer, s) \<leftarrow> kalloc alloc ((csz + PAGE_SIZE_BYTES - 1) div PAGE_SIZE_BYTES) s;
          if buffer = 0 then Some (None, s)
          else do {
            m \<leftarrow> fold_opt (\<lambda>i. wr32 (buffer + of_nat i * 4) 0) [0..<unat (csz div 4)] (fmem s);
            Some (Some (buffer, 1, cluster), s\<lparr>fmem := m\<rparr>)
          }
        }
      }
      else do {
        ((cnt, last_cluster), s) \<leftarrow> count_clusters alloc fops mi 0 0 cluster s;
        (buffer, s) \<leftarrow> kalloc alloc ((csz * cnt + PAGE_SIZE_BYTES - 1) div PAGE_SIZE_BYTES) s;
        if buffer = 0 then Some (None, s)
        else do {
          (r, s) \<leftarrow> fat32_read alloc fops parent_dir buffer 0 (ucast (cnt * csz)) s;
          Some (Some (buffer, cnt, last_cluster), s)
        }
      })"

text \<open>
  Extending the directory by a cluster: the new buffer and number of clusters.  The address that is cleared counts
  entries of 32 bytes, not bytes.
\<close>

definition extend_directory ::
    "'h allocator \<Rightarrow> (u32 \<Rightarrow> 'h \<Rightarrow> 'h option) \<Rightarrow> (u32 \<Rightarrow> ('h, 'b) fat_state_scheme fileops_t) \<Rightarrow> u32 \<Rightarrow> u32 \<Rightarrow> u32 \<Rightarrow> u32 \<Rightarrow> u32 \<Rightarrow>
     ('h, 'b) fat_state_scheme \<Rightarrow> ((u32 \<times> u32) option \<times> ('h, 'b) fat_state_scheme) option" where
  "extend_directory alloc free fops mi csz last_cluster buffer cnt s = do {
     (new_cluster, s) \<leftarrow> fat32_get_free_cluster alloc fops mi s;
     s \<leftarrow> fat32_set_next_cluster alloc fops new_cluster FAT32_EOC mi s;
     if new_cluster = 0 then do { s \<leftarrow> krelease free buffer s; Some (None, s) }
     else do {
       s \<leftarrow> fat32_set_next_cluster alloc fops last_cluster new_cluster mi s;
       (new, s) \<leftarrow> kalloc alloc (((cnt + 1) * csz + PAGE_SIZE_BYTES - 1) div PAGE_SIZE_BYTES) s;
       m \<leftarrow> memcpy_b buffer new (cnt * csz) (fmem s);
       m \<leftarrow> memclr_b (new + csz * (cnt + 1) * 32) csz m;
       s \<leftarrow> krelease free buffer (s\<lparr>fmem := m\<rparr>);
       Some (Some (new, cnt + 1), s)
     }
   }"

text \<open>The part after the search: the entries are made, copied into the buffer and written.\<close>

definition write_entries ::
    "'h allocator \<Rightarrow> (u32 \<Rightarrow> 'h \<Rightarrow> 'h option) \<Rightarrow> (u32 \<Rightarrow> ('h, 'b) fat_state_scheme fileops_t) \<Rightarrow> u8 list \<Rightarrow> u8 list \<Rightarrow> u32 \<Rightarrow>
     u8 list \<Rightarrow> u32 \<Rightarrow> u32 \<Rightarrow> u32 \<Rightarrow> u32 \<Rightarrow> u32 \<Rightarrow> u32 \<Rightarrow> ('h, 'b) fat_state_scheme \<Rightarrow> (bool \<times> ('h, 'b) fat_state_scheme) option" where
  "write_entries alloc free fops stack behind parent_dir name fl trunc_path buffer free_index matches nbytes s = do {
     (p, s) \<leftarrow> kalloc alloc ((of_nat (lfn_count name) + 1 + PAGE_SIZE_BYTES - 1) div PAGE_SIZE_BYTES) s;
     if matches > 999999
     then do {
       s \<leftarrow> krelease free buffer s;
       s \<leftarrow> krelease free trunc_path s;
       s \<leftarrow> krelease free p s;
       Some (False, s)
     }
     else do {
       sfn \<leftarrow> short_name stack name behind matches;
       m \<leftarrow> put_dirents p name sfn fl (fmem s);
       m \<leftarrow> copy_dirents p buffer free_index (lfn_count name) m;
       (r, s) \<leftarrow> fat32_write alloc free fops parent_dir buffer 0 (ucast nbytes) (s\<lparr>fmem := m\<rparr>);
       s \<leftarrow> krelease free trunc_path s;
       s \<leftarrow> krelease free buffer s;
       s \<leftarrow> krelease free p s;
       Some (True, s)
     }
   }"

text \<open>The part in a directory that has been found; the flag says whether the new file is to be opened.\<close>

definition create_in ::
    "'h allocator \<Rightarrow> (u32 \<Rightarrow> 'h \<Rightarrow> 'h option) \<Rightarrow> (u32 \<Rightarrow> ('h, 'b) fat_state_scheme fileops_t) \<Rightarrow> u8 list \<Rightarrow> u8 list \<Rightarrow> u32 \<Rightarrow> u32 \<Rightarrow>
     u32 \<Rightarrow> u8 list \<Rightarrow> u32 \<Rightarrow> u32 \<Rightarrow> ('h, 'b) fat_state_scheme \<Rightarrow> (bool \<times> ('h, 'b) fat_state_scheme) option" where
  "create_in alloc free fops stack behind mi csz parent_dir name fl trunc_path s = do {
     pv \<leftarrow> vfiles s parent_dir;
     if f_private pv = 0 then do { s \<leftarrow> krelease free trunc_path s; Some (False, s) }
     else do {
       f \<leftarrow> open_files s (f_private pv);
       (d, s) \<leftarrow> load_directory alloc fops mi csz parent_dir (first_cluster f) s;
       case d of
         None \<Rightarrow> do { s \<leftarrow> krelease free trunc_path s; Some (False, s) }
       | Some (buffer, cnt, last_cluster) \<Rightarrow> do {
           let total_dirents = of_nat (lfn_count name) + 1;
           let dir_entry_count = csz * cnt div 32;
           let c0 = (name @ [0]) ! 0;
           r \<leftarrow> find_free (fmem s) buffer dir_entry_count total_dirents c0 0 \<lparr>fs_found = False, fs_free_index = - 1, fs_matches = 0\<rparr>;
           if \<not> fs_found r \<or> fs_free_index r + total_dirents > dir_entry_count
           then do {
             (e, s) \<leftarrow> extend_directory alloc free fops mi csz last_cluster buffer cnt s;
             case e of
               None \<Rightarrow> do { s \<leftarrow> krelease free trunc_path s; Some (False, s) }
             | Some (buffer, cnt) \<Rightarrow>
                 write_entries alloc free fops stack behind parent_dir name fl trunc_path buffer
                   (if fs_found r then fs_free_index r else dir_entry_count) (fs_matches r) (csz * cnt) s
           }
           else write_entries alloc free fops stack behind parent_dir name fl trunc_path buffer (fs_free_index r)
                  (fs_matches r) (csz * cnt) s
         }
     }
   }"

definition fat32_create ::
    "'h allocator \<Rightarrow> (u32 \<Rightarrow> 'h \<Rightarrow> 'h option) \<Rightarrow> (u32 \<Rightarrow> ('h, 'b) fat_state_scheme fileops_t) \<Rightarrow> fresh_t \<Rightarrow> u8 list \<Rightarrow> u8 list \<Rightarrow>
     u32 \<Rightarrow> u8 list \<Rightarrow> u32 \<Rightarrow> ('h, 'b) fat_state_scheme \<Rightarrow> (u32 \<times> ('h, 'b) fat_state_scheme) option" where
  "fat32_create alloc free fops fresh stack behind par path fl s = do {
     v \<leftarrow> vfiles s par;
     mt \<leftarrow> mount_at (f_id v) s;
     b \<leftarrow> bpb_of mt s;
     let csz = cluster_size_bytes b;
     if path = [] then Some (0, s)
     else do {
       (trunc_path, s) \<leftarrow> kalloc alloc ((of_nat (length path) + PAGE_SIZE_BYTES) div PAGE_SIZE_BYTES) s;
       if trunc_path = 0 then Some (0, s)
       else do {
         let path = (if hd path = slash then tl path else path);
         if path = [] then None
         else do {
           let (split, dir, name) = split_path path;
           (parent_dir, s) \<leftarrow> (if split then fat32_open alloc free fops fresh (Some dir) par s else Some (par, s));
           if parent_dir = 0 then do { s \<leftarrow> krelease free trunc_path s; Some (0, s) }
           else do {
             (ok, s) \<leftarrow> create_in alloc free fops stack behind (f_id v) csz parent_dir name fl trunc_path s;
             if ok then fat32_open alloc free fops fresh (Some path) par s else Some (0, s)
           }
         }
       }
     }
   }"

text \<open>The operations \<^verbatim>\<open>init\<close> puts into \<^verbatim>\<open>fat32_fileops\<close>.\<close>

definition fat32_fileops ::
    "'h allocator \<Rightarrow> (u32 \<Rightarrow> 'h \<Rightarrow> 'h option) \<Rightarrow> (u32 \<Rightarrow> ('h, 'b) fat_state_scheme fileops_t) \<Rightarrow> fresh_t \<Rightarrow> u8 list \<Rightarrow> u8 list \<Rightarrow>
     ('h, 'b) fat_state_scheme fileops_t" where
  "fat32_fileops alloc free fops fresh stack behind =
     \<lparr>op_create = Some (\<lambda>par path fl. fat32_create alloc free fops fresh stack behind par path fl),
      op_delete = Some fat32_delete,
      op_write = Some (fat32_write alloc free fops),
      op_read = Some (fat32_read alloc fops),
      op_close = Some fat32_close,
      op_rfopen = Some (\<lambda>name par. fat32_open alloc free fops fresh (Some name) par)\<rparr>"

subsection \<open>The search for a free entry\<close>

lemma run_at_first:
  assumes "0 < total_dirents" "i < n" "entry_name0 m buffer i = Some c"
  shows "run_at m buffer n total_dirents i 0 = Some (c = 0, i)"
proof -
  have "sint c < 128" using sint_less [of c] by simp
  then show ?thesis using assms by (subst run_at.simps) (auto simp: not_le)
qed

lemma find_free_step:
  assumes "0 < total_dirents" "i < n" "entry_name0 m buffer i = Some c"
  shows "find_free m buffer n total_dirents c0 i \<lparr>fs_found = False, fs_free_index = fi, fs_matches = k\<rparr> =
    (if c = 0 then Some \<lparr>fs_found = True, fs_free_index = i, fs_matches = k\<rparr>
     else find_free m buffer n total_dirents c0 (i + 1)
       \<lparr>fs_found = False, fs_free_index = fi, fs_matches = (if c = c0 then k + 1 else k)\<rparr>)"
  using assms by (subst find_free.simps) (simp add: run_at_first Let_def)

text \<open>The result for a directory whose entries begin with the characters \<open>cs\<close>.\<close>

definition first_unused :: "u8 list \<Rightarrow> u8 \<Rightarrow> free_search" where
  "first_unused cs c0 = (let used = takeWhile (\<lambda>c. c \<noteq> 0) cs in
     \<lparr>fs_found = (length used < length cs), fs_free_index = (if length used < length cs then of_nat (length used) else - 1),
      fs_matches = of_nat (count_list used c0)\<rparr>)"

lemma find_free_from:
  assumes t: "0 < total_dirents" and cs: "length cs = unat n" "\<And>k. k < length cs \<Longrightarrow> entry_name0 m buffer (of_nat k) = Some (cs ! k)"
    and i: "i \<le> length cs"
  shows "find_free m buffer n total_dirents c0 (of_nat i) \<lparr>fs_found = False, fs_free_index = - 1, fs_matches = a\<rparr> =
    (let used = takeWhile (\<lambda>c. c \<noteq> 0) (drop i cs) in
     Some \<lparr>fs_found = (i + length used < length cs),
       fs_free_index = (if i + length used < length cs then of_nat (i + length used) else - 1),
       fs_matches = a + of_nat (count_list used c0)\<rparr>)"
  using i
proof (induction i arbitrary: a rule: inc_induct)
  case base
  show ?case using cs(1) by (subst find_free.simps) simp
next
  case (step i)
  have "i < 2 ^ 32" using step.hyps(2) cs(1) unat_u32_less [of n] by simp
  then have lt: "of_nat i < n" using step.hyps(2) cs(1) by (simp add: word_less_nat_alt unat_of_nat_lt)
  have d: "drop i cs = cs ! i # drop (Suc i) cs" using step.hyps(2) by (simp add: Cons_nth_drop_Suc)
  have s1: "of_nat i + 1 = (of_nat (Suc i) :: u32)" by simp
  show ?case
    unfolding find_free_step [OF t lt cs(2) [OF step.hyps(2)]] d
    using step.IH [of a] step.IH [of "a + 1"] step.hyps(2) unfolding s1 by (auto simp: Let_def add.assoc)
qed

text \<open>
  C39. Where a new entry goes.  The search of \<^verbatim>\<open>fat32_create\<close> yields the first entry of the directory that was never used,
  and counts the entries before it that begin with the same character; it reports failure exactly when there is
  none.  Entries of deleted files are passed over however many there are, because their mark is compared
  as a signed character.
\<close>

theorem find_free_first_unused:
  assumes "0 < total_dirents" "length cs = unat n"
    "\<forall>k<length cs. entry_name0 m buffer (of_nat k) = Some (cs ! k)"
  shows "find_free m buffer n total_dirents c0 0 \<lparr>fs_found = False, fs_free_index = - 1, fs_matches = 0\<rparr> =
    Some (first_unused cs c0)"
  using find_free_from [OF assms(1,2), of m buffer 0 c0 0] assms(3) by (simp add: first_unused_def Let_def)

lemma find_free_first_unused_witness:
  "find_free (bytes_at 0x5000 (replicate 32 0xe5 @ replicate 64 0)) 0x5000 3 2 65 0
      \<lparr>fs_found = False, fs_free_index = - 1, fs_matches = 0\<rparr> =
    Some \<lparr>fs_found = True, fs_free_index = 1, fs_matches = 0\<rparr>"
proof -
  let ?m = "bytes_at 0x5000 (replicate 32 0xe5 @ replicate 64 0)"
  have "entry_name0 ?m 0x5000 0 = Some 0xe5" "entry_name0 ?m 0x5000 1 = Some 0" "entry_name0 ?m 0x5000 2 = Some 0"
    by (simp_all add: entry_name0_def bytes_at_def overlay_def span_def nth_append)
  then have "\<forall>k<length [0xe5, 0, 0 :: u8]. entry_name0 ?m 0x5000 (of_nat k) = Some ([0xe5, 0, 0] ! k)"
    by (simp add: less_Suc_eq)
  from find_free_first_unused [OF _ _ this, of 2 3 65] show ?thesis by (simp add: first_unused_def)
qed

subsection \<open>The entries of a new name\<close>

lemma put_bytes_overlay:
  assumes "mapped m p (length xs)" "length xs \<le> 2 ^ 32"
  shows "put_bytes p xs m = Some (overlay p (length xs) (\<lambda>i. xs ! i) m)"
  unfolding put_bytes_def by (rule fill_loop [OF assms]) simp

lemma block_index: "32 * i \<le> k \<Longrightarrow> k < 32 * i + 32 \<Longrightarrow> k div 32 = i \<and> k mod 32 = k - 32 * i" for k :: nat
  by (auto simp: div_nat_eqI modulo_nat_def)

text \<open>A loop that stores blocks of 32 bytes one behind the other.\<close>

lemma block_loop:
  assumes "mapped m p (32 * n)" "32 * n \<le> 2 ^ 32"
    and "\<And>i. i < n \<Longrightarrow> g i (overlay p (32 * i) (\<lambda>k. e (k div 32) ! (k mod 32)) m) =
      Some (overlay (p + of_nat (32 * i)) 32 (\<lambda>k. e i ! k) (overlay p (32 * i) (\<lambda>k. e (k div 32) ! (k mod 32)) m))"
  shows "fold_opt g [0..<n] m = Some (overlay p (32 * n) (\<lambda>k. e (k div 32) ! (k mod 32)) m)"
proof -
  have "\<exists>m'. fold_opt g [0..<n] m = Some m' \<and> m' = overlay p (32 * n) (\<lambda>k. e (k div 32) ! (k mod 32)) m"
  proof (rule fold_opt_invariant [where P = "\<lambda>i m'. m' = overlay p (32 * i) (\<lambda>k. e (k div 32) ! (k mod 32)) m"])
    fix i m'
    assume i: "i < n" "m' = overlay p (32 * i) (\<lambda>k. e (k div 32) ! (k mod 32)) m"
    have "overlay (p + of_nat (32 * i)) 32 (\<lambda>k. e i ! k) m' = overlay p (32 * i + 32) (\<lambda>k. e (k div 32) ! (k mod 32)) m"
      unfolding i(2) using i(1) assms(2) by (subst overlay_append) (auto intro!: overlay_cong simp: block_index not_less)
    then show "\<exists>m''. g i m' = Some m'' \<and> m'' = overlay p (32 * Suc i) (\<lambda>k. e (k div 32) ! (k mod 32)) m"
      using assms(3) [OF i(1)] i(2) by (simp add: add.commute)
  qed simp
  then show ?thesis by simp
qed

lemma dirent_tail:
  assumes d: "mapped m d 32" and sfn: "11 \<le> length sfn"
  shows "\<exists>m'. (do { m \<leftarrow> put_bytes d (take 11 sfn) m; m \<leftarrow> wr (d + 11) (ucast fl AND 0x2f) m; m \<leftarrow> wr32 (d + 28) 0 m;
      m \<leftarrow> wr16 (d + 20) 0 m; wr16 (d + 26) 0 m }) = Some m' \<and>
    (\<forall>q n. mapped m q n \<longrightarrow> mapped m' q n) \<and> (\<forall>a. \<not> span d 32 a \<longrightarrow> m' a = m a) \<and> m' (d + 11) = Some (ucast (fl :: u32) AND 0x2f)"
proof -
  define m1 where "m1 = overlay d 11 (\<lambda>i. take 11 sfn ! i) m"
  have p: "put_bytes d (take 11 sfn) m = Some m1"
    using put_bytes_overlay [of m d "take 11 sfn"] d sfn by (simp add: m1_def mapped_def)
  have at: "m1 (d + of_nat k) \<noteq> None" if "k < 32" for k
    using mapped_at [OF mapped_overlay [OF d] that] by (simp add: m1_def)
  have ne: "a \<noteq> d + of_nat k" if "\<not> span d 32 a" "k < 32" for a k using that span_at [of k 32 d] by auto
  note ats = at [of 11] at [of 20] at [of 21] at [of 26] at [of 27] at [of 28] at [of 29] at [of 30] at [of 31]
  define m' where "m' = m1(d + 11 \<mapsto> ucast fl AND 0x2f, d + 28 \<mapsto> 0, d + 29 \<mapsto> 0, d + 30 \<mapsto> 0, d + 31 \<mapsto> 0,
    d + 20 \<mapsto> 0, d + 21 \<mapsto> 0, d + 26 \<mapsto> 0, d + 27 \<mapsto> 0)"
  have "(do { m \<leftarrow> wr (d + 11) (ucast fl AND 0x2f) m1; m \<leftarrow> wr32 (d + 28) 0 m; m \<leftarrow> wr16 (d + 20) 0 m; wr16 (d + 26) 0 m }) = Some m'"
    using ats by (simp add: wr_def wr32_def wr16_def m'_def add.assoc)
  moreover have "mapped m' q n" if "mapped m q n" for q n
    using mapped_overlay [OF that, of d 11] by (simp add: m'_def m1_def mapped_def)
  moreover have "m' a = m a" if "\<not> span d 32 a" for a
  proof -
    have "\<not> span d 11 a" using that by (auto simp: span_def)
    then show ?thesis using ne [OF that, of 11] ne [OF that, of 20] ne [OF that, of 21] ne [OF that, of 26] ne [OF that, of 27]
      ne [OF that, of 28] ne [OF that, of 29] ne [OF that, of 30] ne [OF that, of 31] by (simp add: m'_def m1_def overlay_off)
  qed
  moreover have "m' (d + 11) = Some (ucast fl AND 0x2f)" by (simp add: m'_def)
  ultimately show ?thesis using p by simp
qed

lemma put_dirents_memory:
  assumes m: "mapped m p (32 * lfn_count name + 32)" "32 * lfn_count name + 32 \<le> 2 ^ 32" and sfn: "11 \<le> length sfn"
    and cnt: "lfn_count name < 0x3f"
  defines "e \<equiv> lfn_entry name (lfn_checksum sfn) (lfn_count name)"
  shows "\<exists>m'. put_dirents p name sfn fl m = Some m' \<and> (\<forall>q n. mapped m q n \<longrightarrow> mapped m' q n) \<and>
    (\<forall>i<lfn_count name. \<forall>k<32. m' (p + of_nat (32 * i + k)) = Some (e i ! k)) \<and>
    m' (p + of_nat (32 * lfn_count name + 11)) = Some (ucast fl AND 0x2f) \<and>
    (\<forall>a. \<not> span p (32 * lfn_count name + 32) a \<longrightarrow> m' a = m a)"
proof -
  let ?n = "lfn_count name" and ?F = "\<lambda>k. e (k div 32) ! (k mod 32)"
  let ?m = "overlay p (32 * ?n) ?F m" and ?d = "p + of_nat (32 * ?n)"
  have loop: "fold_opt (\<lambda>i. put_bytes (p + of_nat i * 32) (e i)) [0..<?n] m = Some ?m"
  proof (rule block_loop)
    fix i
    assume i: "i < ?n"
    have len: "length (e i) = 32" using lfn_entry_fields(7) [of i ?n] i cnt by (simp add: e_def)
    have "mapped (overlay p (32 * i) ?F m) (p + of_nat (32 * i)) 32"
      using i by (intro mapped_overlay mapped_part [OF m(1)]) simp
    then show "put_bytes (p + of_nat i * 32) (e i) (overlay p (32 * i) ?F m) =
        Some (overlay (p + of_nat (32 * i)) 32 (\<lambda>k. e i ! k) (overlay p (32 * i) ?F m))"
      using put_bytes_overlay [of _ "p + of_nat i * 32" "e i"] len by (simp add: mult.commute)
  qed (use m in \<open>auto simp: mapped_def\<close>)
  have "mapped ?m ?d 32" by (intro mapped_overlay mapped_part [OF m(1)]) simp
  from dirent_tail [OF this sfn, of fl]
  obtain m' where m': "(do { m \<leftarrow> put_bytes ?d (take 11 sfn) ?m; m \<leftarrow> wr (?d + 11) (ucast fl AND 0x2f) m; m \<leftarrow> wr32 (?d + 28) 0 m;
      m \<leftarrow> wr16 (?d + 20) 0 m; wr16 (?d + 26) 0 m }) = Some m'" "\<forall>q n. mapped ?m q n \<longrightarrow> mapped m' q n"
      "\<forall>a. \<not> span ?d 32 a \<longrightarrow> m' a = ?m a" "m' (?d + 11) = Some (ucast fl AND 0x2f)"
    by (elim exE conjE) (rule that)
  have "put_dirents p name sfn fl m = Some m'"
    using m'(1) loop by (simp add: put_dirents_def Let_def e_def mult.commute)
  moreover have "\<forall>q n. mapped m q n \<longrightarrow> mapped m' q n" using m'(2) mapped_overlay by blast
  moreover have "m' (p + of_nat (32 * i + k)) = Some (e i ! k)" if "i < ?n" "k < 32" for i k
  proof -
    have lt: "32 * i + k < 32 * ?n" using that by simp
    have "\<not> span ?d 32 (p + of_nat (32 * i + k))" using lt m(2) by (rule span_before)
    then have "m' (p + of_nat (32 * i + k)) = ?m (p + of_nat (32 * i + k))" using m'(3) by blast
    also have "\<dots> = Some (?F (32 * i + k))" using lt m(2) by (intro overlay_at) simp_all
    finally show ?thesis using block_index [of i "32 * i + k"] that by simp
  qed
  moreover have "m' (p + of_nat (32 * ?n + 11)) = Some (ucast fl AND 0x2f)" using m'(4) by (simp add: add.assoc)
  moreover have "m' a = m a" if "\<not> span p (32 * ?n + 32) a" for a
  proof -
    have "\<not> span ?d 32 a" using that span_shift [of p "32 * ?n" 32 a "32 * ?n + 32"] m(2) by auto
    moreover have "\<not> span p (32 * ?n) a" using that by (auto simp: span_def)
    ultimately show ?thesis using m'(3) by (simp add: overlay_off)
  qed
  ultimately show ?thesis by blast
qed

lemma copy_dirents_memory:
  assumes m: "mapped m q (32 * n + 32)" "32 * n + 32 \<le> 2 ^ 32" "q = buffer + free_index * 32"
    and ap: "apart p (32 * n + 32) q (32 * n + 32)" and "0 < n"
    and e: "\<And>i k. i < n \<Longrightarrow> k < 32 \<Longrightarrow> m (p + of_nat (32 * i + k)) = Some (e i ! k)"
    and l: "\<And>k. k < 32 \<Longrightarrow> m (p + of_nat (32 * n + k)) = Some (l ! k)"
  shows "\<exists>m'. copy_dirents p buffer free_index n m = Some m' \<and>
    (\<forall>i<n. \<forall>k<32. m' (q + of_nat (32 * i + k)) = Some (e (n - 1 - i) ! k)) \<and>
    (\<forall>k<32. m' (q + of_nat (32 * n + k)) = Some (l ! k)) \<and> (\<forall>a. \<not> span q (32 * n + 32) a \<longrightarrow> m' a = m a)"
proof -
  let ?F = "\<lambda>k. e (n - 1 - k div 32) ! (k mod 32)"
  let ?m = "overlay q (32 * n) ?F m"
  let ?G = "\<lambda>k. if k < 32 * n then ?F k else l ! (k - 32 * n)"
  have copy: "copy_bytes (p + of_nat (32 * a)) (q + of_nat (32 * b)) 32 (overlay q (32 * b) f m) =
      Some (overlay (q + of_nat (32 * b)) 32 (\<lambda>k. x ! k) (overlay q (32 * b) f m))"
    if x: "\<And>k. k < 32 \<Longrightarrow> m (p + of_nat (32 * a + k)) = Some (x ! k)" and ab: "a \<le> n" "b \<le> n" for a b f x
  proof (rule copy_bytes_overlay)
    show "mapped (overlay q (32 * b) f m) (q + of_nat (32 * b)) 32"
      using ab by (intro mapped_overlay mapped_part [OF m(1)]) simp
    show "apart (p + of_nat (32 * a)) 32 (q + of_nat (32 * b)) 32" using ab m(2) by (intro apart_part [OF ap]) simp_all
    fix k
    assume "k < (32 :: nat)"
    then have "\<not> span q (32 * b) (p + of_nat (32 * a + k))" using ab by (intro apart_off [OF ap]) simp_all
    then show "overlay q (32 * b) f m (p + of_nat (32 * a) + of_nat k) = Some (x ! k)"
      using x [OF \<open>k < 32\<close>] by (simp add: overlay_off add.assoc)
  qed simp
  have dest: "buffer + (of_nat b + free_index) * 32 = q + of_nat (32 * b)" for b by (simp add: m(3) algebra_simps)
  have "fold_opt (\<lambda>i. copy_bytes (p + of_nat (n - 1 - i) * 32) (buffer + (of_nat i + free_index) * 32) 32) [0..<n] m = Some ?m"
  proof (rule block_loop [where e = "\<lambda>i. e (n - 1 - i)"])
    show "mapped m q (32 * n)" "32 * n \<le> 2 ^ 32" using m(1,2) by (simp_all add: mapped_def)
    fix i
    assume i: "i < n"
    have "copy_bytes (p + of_nat (32 * (n - 1 - i))) (q + of_nat (32 * i)) 32 (overlay q (32 * i) ?F m) =
        Some (overlay (q + of_nat (32 * i)) 32 (\<lambda>k. e (n - 1 - i) ! k) (overlay q (32 * i) ?F m))"
      using i by (intro copy e) simp_all
    then show "copy_bytes (p + of_nat (n - 1 - i) * 32) (buffer + (of_nat i + free_index) * 32) 32 (overlay q (32 * i) ?F m) =
        Some (overlay (q + of_nat (32 * i)) 32 (\<lambda>k. e (n - 1 - i) ! k) (overlay q (32 * i) ?F m))"
      unfolding dest by (simp add: mult.commute del: of_nat_diff)
  qed
  moreover have "copy_bytes (p + of_nat n * 32) (buffer + (of_nat n + free_index) * 32) 32 ?m = Some (overlay q (32 * n + 32) ?G m)"
    unfolding dest using copy [of n l n ?F] l overlay_append [of "32 * n" 32 q "\<lambda>k. l ! k" ?F m] m(2) by (simp add: mult.commute)
  ultimately have c: "copy_dirents p buffer free_index n m = Some (overlay q (32 * n + 32) ?G m)" by (simp add: copy_dirents_def)
  have "overlay q (32 * n + 32) ?G m (q + of_nat (32 * i + k)) = Some (e (n - 1 - i) ! k)" if "i < n" "k < 32" for i k
    using overlay_at [of "32 * i + k" "32 * n + 32" q ?G m] that m(2) block_index [of i "32 * i + k"] by simp
  moreover have "overlay q (32 * n + 32) ?G m (q + of_nat (32 * n + k)) = Some (l ! k)" if "k < 32" for k
    using overlay_at [of "32 * n + k" "32 * n + 32" q ?G m] that m(2) by simp
  ultimately show ?thesis using c overlay_off by (intro exI [of _ "overlay q (32 * n + 32) ?G m"]) blast
qed



end
