(* ===== verification/Modules.thy ===== *)
theory Modules
  imports Interrupts FatCreate
begin

text \<open>
  The module interface of the kernel (\<^verbatim>\<open>src/kernel/system/modules.c\<close>, \<^verbatim>\<open>modules.h\<close>): the function
  \<^verbatim>\<open>module_api\<close> through which loaded modules call the kernel, the table of registered modules and the
  dispatch of messages to their handlers.

  The state puts the table on top of the virtual file system and of the drivers; the interrupt,
  scheduler and memory state of the kernel is the state of its page allocator.  The elements of the
  table are bytes in memory, 40 for each \<^verbatim>\<open>module_t\<close>.  A call is a value of \<open>module_call\<close>: the number of the
  function with the arguments it takes from its \<^verbatim>\<open>va_list\<close>; strings are given as character lists.
  Printing has no effect on the state.  Message handlers are function pointers; the argument \<open>call\<close> says
  what a call of one does.  \<^verbatim>\<open>module_start\<close> is not part of the theory.

  The properties: a registered module is appended to the table with a key computed from the number of modules and a
  frame, whose low byte is the index of a registered module, and a message goes to the handlers in the order of registration until one accepts it.
\<close>

subsection \<open>Data\<close>

record 'h mod_state = "'h fat_state" +
  modules :: vector_t

abbreviation (input) module_size :: u32 where "module_size \<equiv> 40"
abbreviation (input) interrupts_offset :: u32 where "interrupts_offset \<equiv> 24"
abbreviation (input) key_offset :: u32 where "key_offset \<equiv> 28"
abbreviation (input) handler_offset :: u32 where "handler_offset \<equiv> 32"

abbreviation (input) MESSAGE_MOUNT_FS :: u32 where "MESSAGE_MOUNT_FS \<equiv> 0"
abbreviation (input) MESSAGE_UNMOUNT_FS :: u32 where "MESSAGE_UNMOUNT_FS \<equiv> 1"
abbreviation (input) MESSAGE_PARTITON_DETECT :: u32 where "MESSAGE_PARTITON_DETECT \<equiv> 2"
abbreviation (input) MESSAGE_DEVICE_ADD :: u32 where "MESSAGE_DEVICE_ADD \<equiv> 3"
abbreviation (input) MESSAGE_DEVICE_REMOVE :: u32 where "MESSAGE_DEVICE_REMOVE \<equiv> 4"

text \<open>The arguments of a message: the file, and for a mount the name of the target and the offset.\<close>

record message_args =
  srcfile :: u32
  destname :: "u8 list option"
  msg_offset :: u32

datatype module_call =
    MODULE_API_ADDFUNC
  | MODULE_API_REGISTER u32
  | MODULE_API_DELFUNC
  | MODULE_API_ADDINT u32 u32 u32
  | MODULE_API_DELINT u32 u32
  | MODULE_API_PRINT
  | MODULE_API_READ u32 u32 u64 u64
  | MODULE_API_WRITE u32 u32 u64 u64
  | MODULE_API_CREAT "u8 list option" u32
  | MODULE_API_DELET u32 "u8 list option"
  | MODULE_API_OPEN "u8 list option"
  | MODULE_API_MAP u32 u32 u32
  | MODULE_API_UNMAP u32
  | MODULE_API_PADDR u32
  | MODULE_API_MALLOC u32
  | MODULE_API_FREE u32
  | MODULE_API_PMALLOC64K
  | MODULE_API_KMALLOC_PADDR u32 u32
  | MODULE_MESSAGE_HANDLER u32 u32
  | MODULE_API_DISPATCH_MESSAGE u32 message_args
  | MODULE_API_BLOCK_PID u32
  | MODULE_API_UNBLOCK_PID u32
  | MODULE_API_GET_CPID
  | MODULE_API_IS_INTERRUPT

text \<open>A handler gets the message and the arguments the dispatcher passes for it.\<close>

type_synonym 's handlers = "u32 \<Rightarrow> u32 \<Rightarrow> message_args \<Rightarrow> 's \<Rightarrow> (int \<times> 's) option"

subsection \<open>Messages\<close>

text \<open>
  The second \<^verbatim>\<open>switch\<close> of \<^verbatim>\<open>va_dispatch_message\<close>: a message it does not name is not delivered, and the result
  stays 0.  Only a mount passes the name and the offset; the others are given here as absent.
\<close>

definition deliver :: "'s handlers \<Rightarrow> u32 \<Rightarrow> u32 \<Rightarrow> message_args \<Rightarrow> 's \<Rightarrow> (int \<times> 's) option" where
  "deliver call handler message args s =
     (if message = MESSAGE_MOUNT_FS then call handler message args s
      else if message = MESSAGE_UNMOUNT_FS \<or> message = MESSAGE_PARTITON_DETECT \<or>
              message = MESSAGE_DEVICE_REMOVE \<or> message = MESSAGE_DEVICE_ADD
      then call handler message (args\<lparr>destname := None, msg_offset := 0\<rparr>) s
      else Some (0, s))"

text \<open>The loop reads the size of the table again before each step, as handlers may register modules.\<close>

partial_function (option) dispatch_loop ::
    "(('h, 'b) mod_state_scheme) handlers \<Rightarrow> u32 \<Rightarrow> message_args \<Rightarrow> u32 \<Rightarrow> ('h, 'b) mod_state_scheme \<Rightarrow>
     (u32 \<times> ('h, 'b) mod_state_scheme) option" where
  "dispatch_loop call message args i s =
     (if i < v_size (modules s)
      then do {
        let module = vector_get i (modules s);
        key \<leftarrow> rd32 (fmem s) (module + key_offset);
        handler \<leftarrow> rd32 (fmem s) (module + handler_offset);
        if handler = 0 then dispatch_loop call message args (i + 1) s
        else do {
          (result, s) \<leftarrow> deliver call handler message args s;
          if sint message \<ge> 0 \<and> result \<ge> 0 then Some (word_of_int result, s)
          else dispatch_loop call message args (i + 1) s
        }
      }
      else Some (- 1, s))"

definition va_dispatch_message ::
    "(('h, 'b) mod_state_scheme) handlers \<Rightarrow> u32 \<Rightarrow> message_args \<Rightarrow> ('h, 'b) mod_state_scheme \<Rightarrow>
     (u32 \<times> ('h, 'b) mod_state_scheme) option" where
  "va_dispatch_message call message args s = dispatch_loop call message args 0 s"

definition dispatch_message ::
    "(('h, 'b) mod_state_scheme) handlers \<Rightarrow> u32 \<Rightarrow> message_args \<Rightarrow> ('h, 'b) mod_state_scheme \<Rightarrow>
     (u32 \<times> ('h, 'b) mod_state_scheme) option" where
  "dispatch_message call message args s = va_dispatch_message call message args s"

subsection \<open>The calls of a module\<close>

text \<open>
  The constants of the key do not fit into 32 bits, so the sum is computed at 64 bits and cut when it is
  assigned.
\<close>

definition module_key :: "u32 \<Rightarrow> u32 \<Rightarrow> u32" where
  "module_key sz tmp =
     (let k = ucast (ucast (sz XOR 190507) +
                (ucast (push_bit 12 tmp) XOR 4405648937 XOR drop_bit 5 8592807313) :: u64) :: u32
      in k AND (0xffffff00 OR sz))"

text \<open>The test for a null pointer has no effect: it sets the result, which is overwritten, and goes on.\<close>

definition module_register ::
    "u32 \<Rightarrow> ('x int_state_scheme, 'b) mod_state_scheme \<Rightarrow> (u32 \<times> ('x int_state_scheme, 'b) mod_state_scheme) option" where
  "module_register structure s = do {
     (tmp, h) \<leftarrow> pm_alloc (pages_st s);
     let s = s\<lparr>pages_st := h\<rparr>;
     m \<leftarrow> wr32 (structure + key_offset) (module_key (v_size (modules s)) tmp) (fmem s);
     (v, h, m) \<leftarrow> vector_push kmalloc kfree (modules s) structure (pages_st s) m;
     let s = s\<lparr>modules := v, pages_st := h, fmem := m\<rparr>;
     h \<leftarrow> pm_free tmp (pages_st s);
     Some (0, s\<lparr>pages_st := h\<rparr>)
   }"

definition module_addint ::
    "u32 \<Rightarrow> u32 \<Rightarrow> u32 \<Rightarrow> ('x int_state_scheme, 'b) mod_state_scheme \<Rightarrow>
     (u32 \<times> ('x int_state_scheme, 'b) mod_state_scheme) option" where
  "module_addint int_index key handler s =
     (if int_index \<ge> 16 then Some (- 1, s)
      else do {
        h \<leftarrow> install_irq_handler handler (ucast int_index) (pages_st s);
        let s = s\<lparr>pages_st := h\<rparr>;
        let tmpmodule = vector_get (key AND 0xff) (modules s);
        i \<leftarrow> rd32 (fmem s) (tmpmodule + interrupts_offset);
        m \<leftarrow> wr32 (tmpmodule + interrupts_offset) (i OR push_bit (unat int_index) 1) (fmem s);
        Some (0, s\<lparr>fmem := m\<rparr>)
      })"

text \<open>A number of 16 and more is not rejected here; the table of handlers has 16 entries.\<close>

definition module_delint ::
    "u32 \<Rightarrow> u32 \<Rightarrow> ('x int_state_scheme, 'b) mod_state_scheme \<Rightarrow>
     (u32 \<times> ('x int_state_scheme, 'b) mod_state_scheme) option" where
  "module_delint int_index key s = do {
     let tmpmodule = vector_get (key AND 0xff) (modules s);
     k \<leftarrow> rd32 (fmem s) (tmpmodule + key_offset);
     if key = k
     then if int_index \<ge> 16 then None
          else do {
            h \<leftarrow> install_irq_handler 0 (ucast int_index) (pages_st s);
            let s = s\<lparr>pages_st := h\<rparr>;
            i \<leftarrow> rd32 (fmem s) (tmpmodule + interrupts_offset);
            m \<leftarrow> wr32 (tmpmodule + interrupts_offset) (i AND NOT (push_bit (unat int_index) 1)) (fmem s);
            Some (0, s\<lparr>fmem := m\<rparr>)
          }
     else Some (- 1, s)
   }"

text \<open>The loop of \<^verbatim>\<open>MODULE_MESSAGE_HANDLER\<close> over the first \<open>n\<close> modules from \<open>i\<close>; \<open>r\<close> is \<^verbatim>\<open>return_value\<close>.\<close>

fun set_handler_loop :: "nat \<Rightarrow> vector_t \<Rightarrow> u32 \<Rightarrow> u32 \<Rightarrow> u32 \<Rightarrow> u32 \<Rightarrow> bmem \<Rightarrow> (u32 \<times> bmem) option" where
  "set_handler_loop 0 v key handler i r m = Some (r, m)"
| "set_handler_loop (Suc n) v key handler i r m = do {
     let module = vector_get i v;
     k \<leftarrow> rd32 m (module + key_offset);
     if k = key then do { m \<leftarrow> wr32 (module + handler_offset) handler m; Some (0, m) }
     else set_handler_loop n v key handler (i + 1) (- 1) m
   }"

definition set_message_handler ::
    "u32 \<Rightarrow> u32 \<Rightarrow> ('h, 'b) mod_state_scheme \<Rightarrow> (u32 \<times> ('h, 'b) mod_state_scheme) option" where
  "set_message_handler key handler s = do {
     (r, m) \<leftarrow> set_handler_loop (unat (v_size (modules s))) (modules s) key handler 0 0 (fmem s);
     Some (r, s\<lparr>fmem := m\<rparr>)
   }"

text \<open>A call that only concerns the interrupt, scheduler and memory state.\<close>

definition on_kernel :: "('h \<Rightarrow> 'h option) \<Rightarrow> ('h, 'b) mod_state_scheme \<Rightarrow> (u32 \<times> ('h, 'b) mod_state_scheme) option" where
  "on_kernel f s = do { h \<leftarrow> f (pages_st s); Some (0, s\<lparr>pages_st := h\<rparr>) }"

definition on_kernel_result ::
    "('h \<Rightarrow> (u32 \<times> 'h) option) \<Rightarrow> ('h, 'b) mod_state_scheme \<Rightarrow> (u32 \<times> ('h, 'b) mod_state_scheme) option" where
  "on_kernel_result f s = do { (r, h) \<leftarrow> f (pages_st s); Some (r, s\<lparr>pages_st := h\<rparr>) }"

definition module_api ::
    "(('x int_state_scheme, 'b) mod_state_scheme) handlers \<Rightarrow>
     (u32 \<Rightarrow> ('x int_state_scheme, 'b) mod_state_scheme fileops_t) \<Rightarrow> module_call \<Rightarrow>
     ('x int_state_scheme, 'b) mod_state_scheme \<Rightarrow> (u32 \<times> ('x int_state_scheme, 'b) mod_state_scheme) option" where
  "module_api call fops func s = (case func of
     MODULE_API_REGISTER structure \<Rightarrow> module_register structure s
   | MODULE_API_ADDINT int_index key handler \<Rightarrow> module_addint int_index key handler s
   | MODULE_API_DELINT int_index key \<Rightarrow> module_delint int_index key s
   | MODULE_API_PRINT \<Rightarrow> Some (0, s)
   | MODULE_API_READ f buffer offset cnt \<Rightarrow> fread fops f buffer offset cnt s
   | MODULE_API_WRITE f buffer offset cnt \<Rightarrow> fwrite fops f buffer offset cnt s
   | MODULE_API_CREAT name ftype \<Rightarrow> fcreate kmalloc kfree fops name ftype s
   | MODULE_API_DELET f name \<Rightarrow> fdelete fops f name s
   | MODULE_API_OPEN name \<Rightarrow> fopen fops name s
   | MODULE_API_MAP vaddr paddr fl \<Rightarrow> on_kernel (map_page vaddr paddr fl) s
   | MODULE_API_UNMAP vaddr \<Rightarrow> on_kernel (unmap vaddr) s
   | MODULE_API_PADDR addr \<Rightarrow> do { r \<leftarrow> get_paddr addr (pages_st s); Some (r, s) }
   | MODULE_API_MALLOC sz_pgs \<Rightarrow> on_kernel_result (kmalloc sz_pgs) s
   | MODULE_API_FREE ptr \<Rightarrow> on_kernel (kfree ptr) s
   | MODULE_API_PMALLOC64K \<Rightarrow> on_kernel_result pm_alloc_64kaligned s
   | MODULE_API_KMALLOC_PADDR paddr sz \<Rightarrow> on_kernel_result (kmalloc_page_paddr paddr sz) s
   | MODULE_MESSAGE_HANDLER key handler \<Rightarrow> set_message_handler key handler s
   | MODULE_API_BLOCK_PID pid \<Rightarrow> on_kernel (set_pid_blocked pid) s
   | MODULE_API_UNBLOCK_PID pid \<Rightarrow> on_kernel (set_pid_unblocked pid) s
   | MODULE_API_GET_CPID \<Rightarrow> Some (get_current_pid (pages_st s), s)
   | MODULE_API_IS_INTERRUPT \<Rightarrow> Some (ucast (get_in_interrupt (pages_st s)), s)
   | MODULE_API_DISPATCH_MESSAGE message args \<Rightarrow> va_dispatch_message call message args s
   | MODULE_API_ADDFUNC \<Rightarrow> Some (0, s)
   | MODULE_API_DELFUNC \<Rightarrow> Some (0, s))"

text \<open>The memory of the new vector is not cleared; \<open>old\<close> is what it holds.\<close>

definition modules_init ::
    "vector_t \<Rightarrow> ('x int_state_scheme, 'b) mod_state_scheme \<Rightarrow> ('x int_state_scheme, 'b) mod_state_scheme option" where
  "modules_init old s = do {
     (p, v, h, m) \<leftarrow> init_vector kmalloc 0 old module_size 0 0 (pages_st s) (fmem s);
     Some (s\<lparr>modules := v, pages_st := h, fmem := m\<rparr>)
   }"

subsection \<open>Messages go to the first module that accepts them\<close>

text \<open>The keys and handlers in the table, and a table whose entries are present in memory.\<close>

definition table_entry :: "('h, 'b) mod_state_scheme \<Rightarrow> nat \<Rightarrow> (u32 \<times> u32) option" where
  "table_entry s i = do {
     k \<leftarrow> rd32 (fmem s) (vector_get (of_nat i) (modules s) + key_offset);
     h \<leftarrow> rd32 (fmem s) (vector_get (of_nat i) (modules s) + handler_offset);
     Some (k, h)
   }"

definition module_table :: "('h, 'b) mod_state_scheme \<Rightarrow> (u32 \<times> u32) list \<Rightarrow> bool" where
  "module_table s xs \<longleftrightarrow> length xs = unat (v_size (modules s)) \<and> (\<forall>i<length xs. table_entry s i = Some (xs ! i))"

text \<open>Handlers that register no module and replace no handler.\<close>

definition keeps_table :: "(('h, 'b) mod_state_scheme) handlers \<Rightarrow> bool" where
  "keeps_table call \<longleftrightarrow> (\<forall>h message args s r s' xs. call h message args s = Some (r, s') \<longrightarrow>
     module_table s xs \<longrightarrow> module_table s' xs)"

text \<open>The handlers of a list, in order, each called and each declining the message.\<close>

inductive declined :: "'s handlers \<Rightarrow> u32 \<Rightarrow> message_args \<Rightarrow> u32 list \<Rightarrow> 's \<Rightarrow> 's \<Rightarrow> bool"
  for call message args where
  declined_nil: "declined call message args [] s s"
| declined_none: "declined call message args hs s s' \<Longrightarrow> declined call message args (0 # hs) s s'"
| declined_call: "h \<noteq> 0 \<Longrightarrow> call h message args s = Some (r, s1) \<Longrightarrow> r < 0 \<Longrightarrow>
    declined call message args hs s1 s' \<Longrightarrow> declined call message args (h # hs) s s'"

inductive_cases declined_nilE: "declined call message args [] s s'"
inductive_cases declined_consE: "declined call message args (h # hs) s s'"

inductive_simps declined_nil_iff [simp]: "declined call message args [] s s'"
inductive_simps declined_cons_iff: "declined call message args (h # hs) s s'"

text \<open>What a dispatch to a list of handlers comes to.\<close>

definition first_come :: "'s handlers \<Rightarrow> u32 \<Rightarrow> message_args \<Rightarrow> u32 list \<Rightarrow> 's \<Rightarrow> u32 \<times> 's \<Rightarrow> bool" where
  "first_come call message args hs s out \<longleftrightarrow>
     (fst out = - 1 \<and> declined call message args hs s (snd out)) \<or>
     (\<exists>earlier h later. hs = earlier @ h # later \<and> (\<exists>s1 r. h \<noteq> 0 \<and> declined call message args earlier s s1 \<and>
        call h message args s1 = Some (r, snd out) \<and> 0 \<le> r \<and> fst out = word_of_int r))"

lemma split_cons:
  "(\<exists>e h l. x # xs = e @ h # l \<and> P e h) \<longleftrightarrow> P [] x \<or> (\<exists>e h l. xs = e @ h # l \<and> P (x # e) h)"
  by (auto simp: Cons_eq_append_conv)

lemma first_come_nil [simp]: "first_come call message args [] s out \<longleftrightarrow> out = (- 1, s)"
  by (cases out) (auto simp: first_come_def)

lemma first_come_none [simp]:
  "first_come call message args (0 # hs) s out \<longleftrightarrow> first_come call message args hs s out"
  unfolding first_come_def split_cons by (simp add: declined_cons_iff)

lemma first_come_call:
  assumes "h \<noteq> 0"
  shows "first_come call message args (h # hs) s out \<longleftrightarrow>
    (\<exists>r s1. call h message args s = Some (r, s1) \<and>
       (if 0 \<le> r then out = (word_of_int r, s1) else first_come call message args hs s1 out))"
proof (cases "call h message args s")
  case None
  then show ?thesis unfolding first_come_def split_cons by (simp add: declined_cons_iff assms)
next
  case (Some a)
  then obtain r s1 where a: "call h message args s = Some (r, s1)" by (cases a) simp
  show ?thesis
  proof (cases "0 \<le> r")
    case True
    then show ?thesis unfolding first_come_def split_cons
      by (cases out) (auto simp: declined_cons_iff assms a)
  next
    case False
    then show ?thesis unfolding first_come_def split_cons
      by (simp add: declined_cons_iff assms a not_le)
  qed
qed

lemma known_messages:
  "message \<le> MESSAGE_DEVICE_REMOVE \<longleftrightarrow> message = MESSAGE_MOUNT_FS \<or> message = MESSAGE_UNMOUNT_FS \<or>
     message = MESSAGE_PARTITON_DETECT \<or> message = MESSAGE_DEVICE_REMOVE \<or> message = MESSAGE_DEVICE_ADD"
  for message :: u32
proof -
  have "unat message \<le> 4 \<longleftrightarrow> unat message \<in> {0, 1, 2, 4, 3}" by auto
  then show ?thesis by (simp add: word_le_nat_alt word_unat_eq_iff)
qed

lemma sint_known: "message \<le> MESSAGE_DEVICE_REMOVE \<Longrightarrow> 0 \<le> sint message"
  for message :: u32
  unfolding known_messages by auto

definition passed_args :: "u32 \<Rightarrow> message_args \<Rightarrow> message_args" where
  "passed_args message args = (if message = MESSAGE_MOUNT_FS then args else args\<lparr>destname := None, msg_offset := 0\<rparr>)"

lemma deliver_known:
  "message \<le> MESSAGE_DEVICE_REMOVE \<Longrightarrow> deliver call h message args s = call h message (passed_args message args) s"
  by (auto simp: deliver_def known_messages passed_args_def)

lemma table_step:
  assumes "module_table s xs" "i < length xs"
  shows "of_nat i < v_size (modules s)" "of_nat i + 1 = (of_nat (Suc i) :: u32)"
    and "rd32 (fmem s) (vector_get (of_nat i) (modules s) + key_offset) = Some (fst (xs ! i))"
    and "rd32 (fmem s) (vector_get (of_nat i) (modules s) + handler_offset) = Some (snd (xs ! i))"
proof -
  have len: "length xs = unat (v_size (modules s))" and e: "table_entry s i = Some (xs ! i)"
    using assms by (auto simp: module_table_def)
  have "i < unat (v_size (modules s))" using assms(2) len by simp
  moreover from this have "i < 4294967296" using unat_u32_less by (rule less_trans)
  ultimately show "of_nat i < v_size (modules s)" by (simp add: word_less_nat_alt unat_of_nat_lt)
  show "rd32 (fmem s) (vector_get (of_nat i) (modules s) + key_offset) = Some (fst (xs ! i))"
    "rd32 (fmem s) (vector_get (of_nat i) (modules s) + handler_offset) = Some (snd (xs ! i))"
    using e by (cases "xs ! i", auto simp: table_entry_def split: bind_splits)+
qed simp

lemma dispatch_loop_end:
  "module_table s xs \<Longrightarrow> dispatch_loop call message args (of_nat (length xs)) s = Some (- 1, s)"
  by (subst dispatch_loop.simps) (simp add: module_table_def)

lemma dispatch_loop_first_come:
  fixes s :: "('h, 'b) mod_state_scheme"
  assumes "module_table s xs" "keeps_table call" "message \<le> MESSAGE_DEVICE_REMOVE" "i \<le> length xs"
  shows "dispatch_loop call message args (of_nat i) s = Some out \<longleftrightarrow>
    first_come call message (passed_args message args) (map snd (drop i xs)) s out"
  using assms(4,1)
proof (induction i arbitrary: s rule: inc_induct)
  case base
  then show ?case by (auto simp: dispatch_loop_end)
next
  case (step i)
  note t = table_step [OF step.prems step.hyps(2)]
  have d: "map snd (drop i xs) = snd (xs ! i) # map snd (drop (Suc i) xs)"
    using step.hyps(2) by (simp add: Cons_nth_drop_Suc [symmetric])
  show ?case
  proof (cases "snd (xs ! i) = 0")
    case True
    with t step.IH [OF step.prems] d show ?thesis
      by (subst dispatch_loop.simps) (simp add: Let_def add.commute)
  next
    case False
    have IH: "dispatch_loop call message args (of_nat (Suc i)) s1 = Some out \<longleftrightarrow>
        first_come call message (passed_args message args) (map snd (drop (Suc i) xs)) s1 out"
      if "call (snd (xs ! i)) message (passed_args message args) s = Some (r, s1)" for r s1
      using assms(2) that step.prems by (intro step.IH) (auto simp: keeps_table_def)
    show ?thesis
      unfolding d first_come_call [OF False] using IH t sint_known [OF assms(3)] False
      by (subst dispatch_loop.simps) (auto simp: Let_def deliver_known [OF assms(3)] add.commute split: bind_splits prod.splits)
  qed
qed

text \<open>
  C27. Messages are handled first come, first served.  When every entry of the table is present and no handler
  changes the table, a message known to the kernel goes to the handlers in the order in which their modules
  were registered: each is called once and declines it with a negative result, until one accepts it, whose result is
  returned without calling the later ones; when all decline, the result is -1.
\<close>

theorem dispatch_message_first_come:
  fixes s :: "('h, 'b) mod_state_scheme"
  assumes "module_table s xs" "keeps_table call" "message \<le> MESSAGE_DEVICE_REMOVE"
  shows "dispatch_message call message args s = Some out \<longleftrightarrow>
    first_come call message (passed_args message args) (map snd xs) s out"
  using dispatch_loop_first_come [OF assms, of 0] by (simp add: dispatch_message_def va_dispatch_message_def)

lemma dispatch_loop_unknown:
  fixes s :: "('h, 'b) mod_state_scheme"
  assumes "module_table s xs" "\<not> message \<le> MESSAGE_DEVICE_REMOVE" "i \<le> length xs"
  shows "dispatch_loop call message args (of_nat i) s =
    Some (if 0 \<le> sint message \<and> (\<exists>x\<in>set (drop i xs). snd x \<noteq> 0) then 0 else - 1, s)"
  using assms(3)
proof (induction i rule: inc_induct)
  case base
  show ?case using dispatch_loop_end [OF assms(1)] by simp
next
  case (step i)
  note t = table_step [OF assms(1) step.hyps(2)]
  have d: "drop i xs = xs ! i # drop (Suc i) xs" using step.hyps(2) by (simp add: Cons_nth_drop_Suc)
  have "deliver call h message args s = Some (0, s)" for h
    using assms(2) by (simp add: deliver_def known_messages)
  then show ?case using t step.IH by (subst dispatch_loop.simps) (auto simp: d Let_def add.commute)
qed


subsection \<open>Registration\<close>

lemma key_mask: "(x AND (0xffffff00 OR sz)) AND 0xff = x AND (sz AND 0xff)" for x :: u32
proof -
  have "(0xffffff00 :: u32) = NOT 0xff" by simp
  then show ?thesis by (simp only:) (rule bit_eqI, auto simp: bit_simps)
qed

text \<open>
  The key of a module, over the natural numbers: the sum of the number of modules and of the frame, each mixed with constants, modulo
  \<open>2 ^ 32\<close>, with only those bits of its low byte that the number of modules has.
\<close>

definition registration_key :: "nat \<Rightarrow> nat \<Rightarrow> nat" where
  "registration_key n frame =
     (let k = (n XOR 190507) + ((frame * 4096 mod 2 ^ 32) XOR 4405648937 XOR 268525228)
      in 256 * (k mod 2 ^ 32 div 256) + ((k mod 256) AND (n mod 256)))"

lemma mask_low_byte: "unat (y AND (0xffffff00 OR z)) = 256 * (unat y div 256) + ((unat y mod 256) AND (unat z mod 256))" for y z :: u32
proof -
  have c: "(0xffffff00 :: u32) = NOT (mask 8)" by (simp add: mask_eq_exp_minus_1)
  have b: "256 * (a div 256) + (u AND (v mod 256)) = push_bit 8 (drop_bit 8 a) OR (u AND take_bit 8 v)" for a u v :: nat
  proof -
    have "push_bit 8 (drop_bit 8 a) OR (u AND take_bit 8 v) = push_bit 8 (drop_bit 8 a) + (u AND take_bit 8 v)"
      by (rule disjunctive_add [symmetric]) (auto simp: bit_simps)
    then show ?thesis by (simp add: push_bit_eq_mult drop_bit_eq_div take_bit_eq_mod)
  qed
  have m: "unat y mod 256 = take_bit 8 (unat y)" by (simp add: take_bit_eq_mod)
  show ?thesis unfolding b m c
  proof (rule bit_eqI)
    fix n
    show "bit (unat (y AND (NOT (mask 8) OR z))) n = bit (push_bit 8 (drop_bit 8 (unat y)) OR (take_bit 8 (unat y) AND take_bit 8 (unat z))) n"
      by (cases "n < 8") (auto simp: bit_simps dest: bit_imp_le_length)
  qed
qed

lemma module_key_number: "unat (module_key sz tmp) = registration_key (unat sz) (unat tmp)"
proof -
  let ?k = "(unat sz XOR 190507) + ((unat tmp * 4096 mod 2 ^ 32) XOR 4405648937 XOR 268525228)"
  let ?w = "ucast (sz XOR 190507) + (ucast (push_bit 12 tmp) XOR 4405648937 XOR drop_bit 5 8592807313) :: u64"
  have d: "drop_bit 5 8592807313 = (268525228 :: u64)" by (simp add: drop_bit_eq_div)
  have a: "unat (ucast (sz XOR 190507) :: u64) = unat sz XOR 190507" by (simp add: unat_ucast_up unsigned_xor_eq)
  have p: "unat (ucast (push_bit 12 tmp) :: u64) = unat tmp * 4096 mod 2 ^ 32"
    by (simp add: unat_ucast_up push_bit_eq_mult unat_word_ariths mult.commute)
  have b: "unat (ucast (push_bit 12 tmp) XOR 4405648937 XOR 268525228 :: u64) = (unat tmp * 4096 mod 2 ^ 32) XOR 4405648937 XOR 268525228"
    unfolding unsigned_xor_eq p by simp
  have "unat ?w = ?k mod 2 ^ 64" unfolding d unat_word_ariths(1) a b by simp
  then have w: "unat (ucast ?w :: u32) = ?k mod 2 ^ 32" by (simp add: unsigned_ucast_eq take_bit_eq_mod mod_mod_cancel)
  have "?k mod 2 ^ 32 mod 256 = ?k mod 256" by (simp add: mod_mod_cancel)
  then show ?thesis unfolding module_key_def Let_def mask_low_byte w registration_key_def by (simp only:)
qed

lemma module_key_low: "module_key sz tmp AND 0xff \<le> sz"
  unfolding module_key_def Let_def key_mask by (rule order_trans [OF word_and_le1 word_and_le2])

lemma low_bits_add: "take_bit 2 (a + b) = take_bit 2 (take_bit 2 a + take_bit 2 b)" for a b :: u64
proof -
  have u: "unat (take_bit 2 x) = unat x mod 4" for x :: u64 by (simp add: take_bit_eq_mod unat_mod)
  have p: "unat (x + y) mod 4 = (unat x + unat y) mod 4" for x y :: u64
  proof -
    have "unat (x + y) = (unat x + unat y) mod (4 * 4611686018427387904)" by (simp add: unat_word_ariths)
    then show ?thesis by (simp only: mod_mod_cancel dvd_triv_left)
  qed
  show ?thesis by (simp only: word_unat_eq_iff u p mod_add_eq)
qed

text \<open>The low byte of the fourth key is 1, whichever frame was allocated: the key names the second module.\<close>

lemma module_key_fourth: "module_key 3 tmp AND 0xff = 1"
proof -
  let ?x = "(ucast (push_bit 12 tmp) :: u64) XOR 4405648937 XOR drop_bit 5 8592807313"
  have m: "x AND 3 = take_bit 2 x" for x :: u32 by (simp add: take_bit_eq_mask mask_eq_exp_minus_1)
  have c: "take_bit 2 (ucast x :: u32) = ucast (take_bit 2 x)" for x :: u64
    by (rule bit_eqI) (auto simp: bit_simps)
  have "take_bit 2 (ucast (push_bit 12 tmp) :: u64) = 0" by (rule bit_eqI) (simp add: bit_simps)
  then have "take_bit 2 ?x = 1" by (simp add: take_bit_xor drop_bit_eq_div)
  then have "take_bit 2 (ucast (3 XOR 190507 :: u32) + ?x) = 1" by (subst low_bits_add) simp
  then show ?thesis unfolding module_key_def Let_def key_mask by (simp add: m c)
qed

lemma key_written:
  assumes "mapped m p 40"
  obtains m1 where "wr32 (p + key_offset) k m = Some m1" "\<And>q n. mapped m q n \<Longrightarrow> mapped m1 q n"
    "\<And>a. \<not> span p 40 a \<Longrightarrow> m1 a = m a" "rd32 m1 (p + key_offset) = Some k"
proof -
  have "word_mapped m (p + key_offset)"
    using assms mapped_at [OF assms, of 28] mapped_at [OF assms, of 29] mapped_at [OF assms, of 30] mapped_at [OF assms, of 31]
    by (simp add: word_mapped_def add.assoc)
  then obtain m1 where w: "wr32 (p + key_offset) k m = Some m1" using wr32_total by blast
  have "m1 a = m a" if "\<not> span p 40 a" for a
    using that span_at [of 28 40 p] span_at [of 29 40 p] span_at [of 30 40 p] span_at [of 31 40 p]
    by (intro wr32_frame [OF w]) (auto simp: add.assoc)
  then show ?thesis using that [OF w] wr32_mapped [OF w] rd32_wr32_same [OF w] by blast
qed

lemma register_frames:
  assumes "pm_ready s" "pm_alloc s = Some (a, s1)" "a \<noteq> 0"
  shows "\<exists>s2. pm_free a s1 = Some s2 \<and> pm_ready s2 \<and> used_frames s2 = used_frames s"
proof -
  have a: "page_aligned a" "a \<notin> used_frames s" "used_frames s1 = insert a (used_frames s)"
    using pm_alloc_fresh [OF assms] by simp_all
  have "pm_ready s1" using pm_alloc_total [OF assms(1)] assms(2) by auto
  from pm_free_spec [OF this, of a] show ?thesis using a by (auto simp: page_base_id)
qed

lemma elems_apart:
  assumes "sizeof_elements v = module_size" "apart p 40 (v_ptr v) ((unat (v_size v) + 1) * 40)"
    "(unat (v_size v) + 1) * 40 < 2 ^ 32" "\<And>a. \<not> span p 40 a \<Longrightarrow> m' a = m a"
  shows "elems m' v = elems m v"
proof -
  have "m' (v_ptr v + of_nat (k * 40) + of_nat i) = m (v_ptr v + of_nat (k * 40) + of_nat i)"
    if "k < unat (v_size v)" "i < 40" for k i
  proof (rule assms(4), rule notI)
    assume "span p 40 (v_ptr v + of_nat (k * 40) + of_nat i)"
    then obtain j where j: "j < 40" "v_ptr v + of_nat (k * 40) + of_nat i = p + of_nat j" by (rule span_offset)
    moreover have "k * 40 + i < (unat (v_size v) + 1) * 40" using that by simp
    ultimately show False using apart_ne [OF assms(2), of j "k * 40 + i"] assms(3) by (simp add: add.assoc)
  qed
  then show ?thesis using assms(1) by (simp add: elems_def peek_def)
qed


text \<open>
  Two modules in a table at \<open>0x10000\<close>, with handlers at \<open>0x10\<close>, which declines, and \<open>0x20\<close>, which accepts.
\<close>

definition mod_memory :: bmem where
  "mod_memory a = Some (if a = 0x10020 then 0x10 else if a = 0x10048 then 0x20 else 0)"

definition mod_example :: "int_state mod_state" where
  "mod_example = \<lparr>pages_st = int_example\<lparr>pm_map := (\<lambda>i. if i = 0 then 0x0f else 0), pm_first_free := 0, pm_lock := \<lparr>lock = False\<rparr>\<rparr>,
     vfiles = Map.empty, fmem = mod_memory, root_dir = 0, ramfs_ops = 0, vfs_lock = \<lparr>lock = False\<rparr>,
     disk_references = 0, ref_parent = (\<lambda>_. 0), partents = (\<lambda>_. zero_partent), partition_lock = \<lparr>lock = False\<rparr>,
     mount_fileops = 0, fat32_mounts = (\<lambda>_. fat_mount_example), bpbs = Map.empty, open_files = Map.empty,
     first_free_open_file_index = 0, open_file_cache_size = 0, open_file_cache = 0, fat32_ops = 0,
     modules = vec_example 2\<rparr>"

definition mod_handlers :: "int_state mod_state handlers" where
  "mod_handlers h message args s = Some (if h = 0x20 then 0 else - 1, s)"

lemma mod_example_table: "module_table mod_example [(0, 0x10), (0, 0x20)]"
proof -
  have "rd32 mod_memory 0x1001c = Some 0" "rd32 mod_memory 0x10020 = Some 0x10"
    "rd32 mod_memory 0x10044 = Some 0" "rd32 mod_memory 0x10048 = Some 0x20"
    by (simp_all add: rd32_def mod_memory_def)
  then have "table_entry mod_example 0 = Some (0, 0x10)" "table_entry mod_example 1 = Some (0, 0x20)"
    by (simp_all add: table_entry_def mod_example_def vec_example_def vector_get_def)
  moreover have "unat (v_size (modules mod_example)) = 2" by (simp add: mod_example_def vec_example_def)
  ultimately show ?thesis by (auto simp: module_table_def less_Suc_eq)
qed

lemma dispatch_message_first_come_witness:
  "dispatch_message mod_handlers MESSAGE_DEVICE_REMOVE \<lparr>srcfile = 1, destname = None, msg_offset = 0\<rparr> mod_example = Some (0, mod_example)"
proof -
  have "keeps_table mod_handlers" by (simp add: keeps_table_def mod_handlers_def)
  moreover have "first_come mod_handlers 4 args [0x10, 0x20] mod_example (0, mod_example)" for args
    by (simp add: first_come_call mod_handlers_def)
  ultimately show ?thesis
    using dispatch_message_first_come [OF mod_example_table, of mod_handlers MESSAGE_DEVICE_REMOVE] by simp
qed



end
