(* ===== verification/Ata.thy ===== *)
theory Ata
  imports Modules
begin

text \<open>
  The disk driver (\<^verbatim>\<open>src/kmodules/disk_driver.c\<close>): transfers between memory and IDE disks by the bus master of
  the controller, one at a time, and the detection of the disks.

  The state puts the variables of the driver on top of the state of the kernel.  Port accesses
  (\<^verbatim>\<open>src/kernel/drivers/cpuio.h\<close>) are the events of \<open>io_log\<close>, newest last; the hardware is a parameter: \<open>device\<close> answers an
  access from the log that ends with it.  The instruction \<^verbatim>\<open>int $32\<close> gives the processor away; what the other threads and
  the interrupts do until the thread runs again is the parameter \<open>yield\<close>.  The function pointer \<^verbatim>\<open>api\<close> that the kernel
  hands to the module is the field \<open>api\<close>.  The flag that \<^verbatim>\<open>cli\<close> and \<^verbatim>\<open>sti\<close> set and printing are left out.  Strings in local
  arrays are character lists.

  A loop that waits for the device or for the lock is a partial function: it is \<^const>\<open>None\<close> when the wait never ends.
\<close>

subsection \<open>Ports\<close>

datatype io_event = Out8 u16 u8 | Out16 u16 u16 | Out32 u16 u32 | In8 u16 | In16 u16 | In32 u16 | Rdtsc

datatype DRIVE_TYPE = TYPE_NULL | TYPE_TMP | TYPE_IDE | TYPE_AHCI | TYPE_NVME | TYPE_USB | TYPE_FLOPPY

text \<open>\<^verbatim>\<open>BARs\<close> has 8 entries; the members of \<^verbatim>\<open>flags\<close> are bits of their own.\<close>

record drive_t =
  BARs :: "u32 list"
  drive_type :: DRIVE_TYPE
  size_sectors :: u64
  sector_size_bytes :: u32
  irq_dispatched :: bool
  huge :: bool
  d_locked :: bool
  slave :: bool
  PRDT :: u32

record 'h ata_state = "'h mod_state" +
  io_log :: "io_event list"
  last_disk :: u16
  last_bar :: u16
  native_ide_present :: u8
  transferring_disk_index :: u32
  expected_ints :: u32
  recieved_ints :: u32
  transferring_pid :: u32
  primary_ata_locked :: u8
  drives :: "u32 \<Rightarrow> drive_t"
  int_tsc :: u32
  int_count :: u32

record 's ata_env =
  device :: "io_event list \<Rightarrow> u32"
  yield :: "'s \<Rightarrow> 's option"
  api :: "module_call \<Rightarrow> 's \<Rightarrow> (u32 \<times> 's) option"

definition io_do :: "io_event \<Rightarrow> ('h, 'b) ata_state_scheme \<Rightarrow> ('h, 'b) ata_state_scheme" where
  "io_do e s = s\<lparr>io_log := io_log s @ [e]\<rparr>"

definition outb_io :: "u16 \<Rightarrow> u8 \<Rightarrow> ('h, 'b) ata_state_scheme \<Rightarrow> ('h, 'b) ata_state_scheme" where
  "outb_io port data s = io_do (Out8 port data) s"

definition outw_io :: "u16 \<Rightarrow> u16 \<Rightarrow> ('h, 'b) ata_state_scheme \<Rightarrow> ('h, 'b) ata_state_scheme" where
  "outw_io port data s = io_do (Out16 port data) s"

definition outl_io :: "u16 \<Rightarrow> u32 \<Rightarrow> ('h, 'b) ata_state_scheme \<Rightarrow> ('h, 'b) ata_state_scheme" where
  "outl_io port data s = io_do (Out32 port data) s"

definition inb_io :: "(('h, 'b) ata_state_scheme) ata_env \<Rightarrow> u16 \<Rightarrow> ('h, 'b) ata_state_scheme \<Rightarrow> u8 \<times> ('h, 'b) ata_state_scheme" where
  "inb_io env port s = (let s = io_do (In8 port) s in (ucast (device env (io_log s)), s))"

definition inw_io :: "(('h, 'b) ata_state_scheme) ata_env \<Rightarrow> u16 \<Rightarrow> ('h, 'b) ata_state_scheme \<Rightarrow> u16 \<times> ('h, 'b) ata_state_scheme" where
  "inw_io env port s = (let s = io_do (In16 port) s in (ucast (device env (io_log s)), s))"

definition inl_io :: "(('h, 'b) ata_state_scheme) ata_env \<Rightarrow> u16 \<Rightarrow> ('h, 'b) ata_state_scheme \<Rightarrow> u32 \<times> ('h, 'b) ata_state_scheme" where
  "inl_io env port s = (let s = io_do (In32 port) s in (device env (io_log s), s))"

definition rdtsc :: "(('h, 'b) ata_state_scheme) ata_env \<Rightarrow> ('h, 'b) ata_state_scheme \<Rightarrow> u32 \<times> ('h, 'b) ata_state_scheme" where
  "rdtsc env s = (let s = io_do Rdtsc s in (device env (io_log s), s))"

abbreviation (input) ATA_FEATURES :: u16 where "ATA_FEATURES \<equiv> 1"
abbreviation (input) ATA_SECTOR_COUNT :: u16 where "ATA_SECTOR_COUNT \<equiv> 2"
abbreviation (input) ATA_LBA_LOW :: u16 where "ATA_LBA_LOW \<equiv> 3"
abbreviation (input) ATA_LBA_MID :: u16 where "ATA_LBA_MID \<equiv> 4"
abbreviation (input) ATA_LBA_HIH :: u16 where "ATA_LBA_HIH \<equiv> 5"
abbreviation (input) ATA_DRIVE_HEAD :: u16 where "ATA_DRIVE_HEAD \<equiv> 6"
abbreviation (input) ATA_STATUS :: u16 where "ATA_STATUS \<equiv> 7"
abbreviation (input) ATA_COMMAND :: u16 where "ATA_COMMAND \<equiv> 7"

subsection \<open>Waiting\<close>

partial_function (option) ata_acquire_primary_lock ::
    "(('h, 'b) ata_state_scheme) ata_env \<Rightarrow> ('h, 'b) ata_state_scheme \<Rightarrow> ('h, 'b) ata_state_scheme option" where
  "ata_acquire_primary_lock env s =
     (if primary_ata_locked s \<noteq> 0 then do { s \<leftarrow> yield env s; ata_acquire_primary_lock env s }
      else Some (s\<lparr>primary_ata_locked := 1\<rparr>))"

definition ata_ready ::
    "(('h, 'b) ata_state_scheme) ata_env \<Rightarrow> u16 \<Rightarrow> u16 \<Rightarrow> u8 \<Rightarrow> ('h, 'b) ata_state_scheme \<Rightarrow> bool \<times> ('h, 'b) ata_state_scheme" where
  "ata_ready env BAR BAR2 drive s =
     (let s = (if last_disk s \<noteq> ucast drive \<and> last_bar s \<noteq> BAR
               then outb_io (BAR + ATA_DRIVE_HEAD) drive (s\<lparr>last_disk := ucast drive, last_bar := BAR\<rparr>)
               else s);
          s = foldl (\<lambda>s _. snd (inb_io env (BAR2 + ATA_STATUS) s)) s [0..<4];
          (status, s) = inb_io env BAR2 s
      in (drop_bit 7 status = 0 \<and> drop_bit 3 status AND 1 = 0, s))"

text \<open>The loop of a transfer gives the processor away between two tries, the loop of the set-up does not.\<close>

partial_function (option) ata_wait_ready ::
    "(('h, 'b) ata_state_scheme) ata_env \<Rightarrow> u16 \<Rightarrow> u16 \<Rightarrow> u8 \<Rightarrow> ('h, 'b) ata_state_scheme \<Rightarrow> ('h, 'b) ata_state_scheme option" where
  "ata_wait_ready env io_base ctrl_base drive s =
     (let (r, s) = ata_ready env io_base ctrl_base drive s
      in if r then Some s else do { s \<leftarrow> yield env s; ata_wait_ready env io_base ctrl_base drive s })"

partial_function (option) ata_spin_ready ::
    "(('h, 'b) ata_state_scheme) ata_env \<Rightarrow> u16 \<Rightarrow> u16 \<Rightarrow> u8 \<Rightarrow> ('h, 'b) ata_state_scheme \<Rightarrow> ('h, 'b) ata_state_scheme option" where
  "ata_spin_ready env bar0 bar1 drive s =
     (let (r, s) = ata_ready env bar0 bar1 drive s in if r then Some s else ata_spin_ready env bar0 bar1 drive s)"

partial_function (option) ata_wait_drdy ::
    "(('h, 'b) ata_state_scheme) ata_env \<Rightarrow> u16 \<Rightarrow> ('h, 'b) ata_state_scheme \<Rightarrow> ('h, 'b) ata_state_scheme option" where
  "ata_wait_drdy env port s =
     (let (status, s) = inb_io env port s
      in if status AND 0x80 \<noteq> 0 \<or> status AND 0x40 = 0 then ata_wait_drdy env port s else Some s)"

partial_function (option) ata_wait_idle ::
    "(('h, 'b) ata_state_scheme) ata_env \<Rightarrow> u16 \<Rightarrow> ('h, 'b) ata_state_scheme \<Rightarrow> ('h, 'b) ata_state_scheme option" where
  "ata_wait_idle env port s =
     (let (status, s) = inb_io env port s in if status AND 0x80 \<noteq> 0 then ata_wait_idle env port s else Some s)"

text \<open>The loop of \<^verbatim>\<open>ata_identify\<close>: \<^const>\<open>False\<close> when the device reports an error.\<close>

partial_function (option) ata_wait_identify ::
    "(('h, 'b) ata_state_scheme) ata_env \<Rightarrow> u16 \<Rightarrow> u8 \<Rightarrow> ('h, 'b) ata_state_scheme \<Rightarrow> (bool \<times> ('h, 'b) ata_state_scheme) option" where
  "ata_wait_identify env port status s =
     (if status AND 0x80 \<noteq> 0
      then let (status, s) = inb_io env port s
           in if status AND 1 \<noteq> 0 then Some (False, s) else ata_wait_identify env port status s
      else Some (True, s))"

definition ata_reset :: "u16 \<Rightarrow> ('h, 'b) ata_state_scheme \<Rightarrow> ('h, 'b) ata_state_scheme" where
  "ata_reset bar1 s = outw_io bar1 0 (outw_io bar1 4 s)"

definition find_free_drive :: "('h, 'b) ata_state_scheme \<Rightarrow> u32" where
  "find_free_drive s = (case find (\<lambda>i. drive_type (drives s (of_nat i)) = TYPE_NULL) [0..<32] of Some i \<Rightarrow> of_nat i | None \<Rightarrow> - 1)"

definition align_page :: "u32 \<Rightarrow> u32" where
  "align_page ptr = (ptr + PAGE_SIZE_BYTES - 1) AND NOT (PAGE_SIZE_BYTES - 1)"

definition max_u32 :: "u32 \<Rightarrow> u32 \<Rightarrow> u32" where
  "max_u32 a b = (if a > b then a else b)"

definition min_u32 :: "u32 \<Rightarrow> u32 \<Rightarrow> u32" where
  "min_u32 a b = (if a < b then a else b)"

text \<open>An index outside the table of drives is a fault.\<close>

definition get_drive :: "u32 \<Rightarrow> ('h, 'b) ata_state_scheme \<Rightarrow> drive_t option" where
  "get_drive i s = (if i < 32 then Some (drives s i) else None)"

definition upd_drive :: "u32 \<Rightarrow> (drive_t \<Rightarrow> drive_t) \<Rightarrow> ('h, 'b) ata_state_scheme \<Rightarrow> ('h, 'b) ata_state_scheme option" where
  "upd_drive i f s = do { d \<leftarrow> get_drive i s; Some (s\<lparr>drives := (drives s)(i := f d)\<rparr>) }"

definition on_mem :: "(bmem \<Rightarrow> bmem option) \<Rightarrow> ('h, 'b) fs_state_scheme \<Rightarrow> ('h, 'b) fs_state_scheme option" where
  "on_mem f s = do { m \<leftarrow> f (fmem s); Some (s\<lparr>fmem := m\<rparr>) }"

definition io_base :: "drive_t \<Rightarrow> u16" where
  "io_base d = ucast (BARs d ! 0 AND 0xfffe)"

definition ctrl_base :: "drive_t \<Rightarrow> u16" where
  "ctrl_base d = ucast (BARs d ! 1 AND 0xfffe)"

definition bm_base :: "drive_t \<Rightarrow> u16" where
  "bm_base d = ucast (BARs d ! 4 AND NOT 3)"

definition slave_bit :: "drive_t \<Rightarrow> u8" where
  "slave_bit d = (if slave d then 0x10 else 0)"

subsection \<open>The table of physical regions\<close>

text \<open>The loop that collects pages that follow each other in physical memory.\<close>

partial_function (option) consecutive_pages ::
    "(('h, 'b) ata_state_scheme) ata_env \<Rightarrow> u32 \<Rightarrow> u32 \<Rightarrow> u32 \<Rightarrow> u32 \<Rightarrow> u32 \<Rightarrow> u32 \<Rightarrow> ('h, 'b) ata_state_scheme \<Rightarrow>
     (u32 \<times> u32 \<times> ('h, 'b) ata_state_scheme) option" where
  "consecutive_pages env ptr pages i paddr ccount boundary_page s =
     (if i + ccount < pages
      then do {
        (a, s) \<leftarrow> api env (MODULE_API_PADDR (ptr + push_bit 12 (i + ccount))) s;
        if a = paddr + ccount * PAGE_SIZE_BYTES \<and> ccount < 16
        then do {
          (b, s) \<leftarrow> api env (MODULE_API_PADDR (ptr + push_bit 12 (i + ccount + 1))) s;
          let next_paddr = b + (ptr AND 0xfff);
          let ccount = ccount + 1;
          consecutive_pages env ptr pages i paddr ccount
            (if (next_paddr AND 0xffff) + PAGE_SIZE_BYTES \<ge> 0x10000 then ccount else boundary_page) s
        }
        else Some (ccount, boundary_page, s)
      }
      else Some (ccount, boundary_page, s))"

definition set_prd_address :: "u32 \<Rightarrow> u32 \<Rightarrow> u32 \<Rightarrow> ('h, 'b) fs_state_scheme \<Rightarrow> ('h, 'b) fs_state_scheme option" where
  "set_prd_address prdt k v s = on_mem (wr32 (prdt + k * 8) v) s"

definition set_prd_byte_count :: "u32 \<Rightarrow> u32 \<Rightarrow> u32 \<Rightarrow> ('h, 'b) fs_state_scheme \<Rightarrow> ('h, 'b) fs_state_scheme option" where
  "set_prd_byte_count prdt k v s = on_mem (wr16 (prdt + k * 8 + 4) (ucast v)) s"

definition set_prd_reserved :: "u32 \<Rightarrow> u32 \<Rightarrow> u16 \<Rightarrow> ('h, 'b) fs_state_scheme \<Rightarrow> ('h, 'b) fs_state_scheme option" where
  "set_prd_reserved prdt k v s = on_mem (wr16 (prdt + k * 8 + 6) v) s"

text \<open>The sizes of a group of pages: one entry, or two when the group is taken to meet a boundary of 64 KiB.\<close>

definition put_group ::
    "u32 \<Rightarrow> u32 \<Rightarrow> u32 \<Rightarrow> u32 \<Rightarrow> u32 \<Rightarrow> u32 \<Rightarrow> u32 \<Rightarrow> ('h, 'b) fs_state_scheme \<Rightarrow> (u32 \<times> ('h, 'b) fs_state_scheme) option" where
  "put_group prdt k paddr paddr_offset ccount new_paddr boundary_page s =
     (if ((new_paddr + paddr_offset) AND 0xffff) + PAGE_SIZE_BYTES \<ge> 0x10000 \<or> boundary_page \<noteq> 0
      then do {
        let prd_offset = (paddr AND 0xffff) + paddr_offset;
        let bytes_to_boundary = 0x10000 - prd_offset;
        let second_count = ccount * PAGE_SIZE_BYTES - bytes_to_boundary;
        s \<leftarrow> set_prd_byte_count prdt k bytes_to_boundary s;
        s \<leftarrow> set_prd_reserved prdt k 0 s;
        let k = k + 1;
        s \<leftarrow> set_prd_address prdt k (paddr + paddr_offset + bytes_to_boundary) s;
        s \<leftarrow> set_prd_byte_count prdt k second_count s;
        Some (k, s)
      }
      else do { s \<leftarrow> set_prd_byte_count prdt k (PAGE_SIZE_BYTES * ccount) s; Some (k, s) })"

partial_function (option) build_prdt ::
    "(('h, 'b) ata_state_scheme) ata_env \<Rightarrow> u32 \<Rightarrow> u32 \<Rightarrow> u32 \<Rightarrow> u32 \<Rightarrow> u32 \<Rightarrow> u32 \<Rightarrow> ('h, 'b) ata_state_scheme \<Rightarrow>
     ('h, 'b) ata_state_scheme option" where
  "build_prdt env ptr prdt pages i prdt_count boundary_page s =
     (if i < pages
      then do {
        let paddr_offset = ptr AND 0xfff;
        (paddr, s) \<leftarrow> api env (MODULE_API_PADDR (ptr + push_bit 12 i)) s;
        (ccount, boundary_page, s) \<leftarrow> consecutive_pages env ptr pages i paddr 0 boundary_page s;
        (a, s) \<leftarrow> api env (MODULE_API_PADDR (ptr + push_bit 12 i)) s;
        s \<leftarrow> set_prd_address prdt prdt_count (a + paddr_offset) s;
        (new_paddr, s) \<leftarrow> api env (MODULE_API_PADDR (ptr + push_bit 12 (i + ccount - 1))) s;
        (prdt_count, s) \<leftarrow> put_group prdt prdt_count paddr paddr_offset ccount new_paddr boundary_page s;
        s \<leftarrow> set_prd_reserved prdt prdt_count 0 s;
        let i = i + ccount;
        s \<leftarrow> (if i \<ge> pages - 1 then set_prd_reserved prdt prdt_count 0x8000 s else Some s);
        build_prdt env ptr prdt pages i (prdt_count + 1) boundary_page s
      }
      else Some s)"

subsection \<open>Transfers\<close>

text \<open>The bus master is stopped and given the table; the value read back is not used.\<close>

definition ata_setup ::
    "(('h, 'b) ata_state_scheme) ata_env \<Rightarrow> drive_t \<Rightarrow> ('h, 'b) ata_state_scheme \<Rightarrow> ('h, 'b) ata_state_scheme option" where
  "ata_setup env d s = do {
     let s = outb_io (ctrl_base d) 0 s;
     let s = outb_io (bm_base d + 2) 6 s;
     (a, s) \<leftarrow> api env (MODULE_API_PADDR (PRDT d)) s;
     let s = outl_io (bm_base d + 4) a s;
     let (test, s) = inl_io env (bm_base d + 4) s;
     let s = outb_io (bm_base d) 8 s;
     ata_wait_ready env (io_base d) (ctrl_base d) (slave_bit d) s
   }"

text \<open>The sector and the command; \<open>cmd\<close> is the command with 28 bits, \<open>cmd_ext\<close> the one with 48.\<close>

definition ata_command ::
    "(('h, 'b) ata_state_scheme) ata_env \<Rightarrow> drive_t \<Rightarrow> u64 \<Rightarrow> u32 \<Rightarrow> u8 \<Rightarrow> u8 \<Rightarrow> ('h, 'b) ata_state_scheme \<Rightarrow> ('h, 'b) ata_state_scheme option" where
  "ata_command env d lba n_sectors cmd cmd_ext s = do {
     let io = io_base d;
     let s = outb_io (io + ATA_DRIVE_HEAD) (ucast (0x40 OR ucast (slave_bit d) OR (drop_bit 24 lba AND 0x0f))) s;
     if huge d
     then do {
       let s = outb_io (io + ATA_SECTOR_COUNT) (ucast (drop_bit 8 n_sectors)) s;
       let s = outb_io (io + ATA_LBA_LOW) (ucast (drop_bit 24 lba AND 0xff)) s;
       let s = outb_io (io + ATA_LBA_MID) (ucast (drop_bit 32 lba AND 0xff)) s;
       let s = outb_io (io + ATA_LBA_HIH) (ucast (drop_bit 40 lba AND 0xff)) s;
       let s = outb_io (io + ATA_SECTOR_COUNT) (ucast (n_sectors AND 0xff)) s;
       let s = outb_io (io + ATA_LBA_LOW) (ucast (lba AND 0xff)) s;
       let s = outb_io (io + ATA_LBA_MID) (ucast (drop_bit 8 lba AND 0xff)) s;
       let s = outb_io (io + ATA_LBA_HIH) (ucast (drop_bit 16 lba AND 0xff)) s;
       s \<leftarrow> ata_wait_drdy env (io + ATA_STATUS) s;
       Some (outb_io (io + ATA_COMMAND) cmd_ext s)
     }
     else do {
       let s = outb_io (io + ATA_SECTOR_COUNT) (ucast n_sectors) s;
       let s = outb_io (io + ATA_LBA_LOW) (ucast (lba AND 0xff)) s;
       let s = outb_io (io + ATA_LBA_MID) (ucast (drop_bit 8 lba AND 0xff)) s;
       let s = outb_io (io + ATA_LBA_HIH) (ucast (drop_bit 16 lba AND 0xff)) s;
       s \<leftarrow> ata_wait_drdy env (io + ATA_STATUS) s;
       Some (outb_io (io + ATA_COMMAND) cmd s)
     }
   }"

text \<open>The thread blocks itself, starts the bus master with \<open>go\<close> and gives the processor away until the interrupt.\<close>

definition ata_start ::
    "(('h, 'b) ata_state_scheme) ata_env \<Rightarrow> drive_t \<Rightarrow> u32 \<Rightarrow> u32 \<Rightarrow> u8 \<Rightarrow> ('h, 'b) ata_state_scheme \<Rightarrow> ('h, 'b) ata_state_scheme option" where
  "ata_start env d index pages go s = do {
     let s = s\<lparr>expected_ints := pages, recieved_ints := 0\<rparr>;
     let s = s\<lparr>transferring_disk_index := index\<rparr>;
     (cpid, s) \<leftarrow> api env MODULE_API_GET_CPID s;
     (r, s) \<leftarrow> api env (MODULE_API_BLOCK_PID cpid) s;
     let s = s\<lparr>transferring_pid := cpid\<rparr>;
     let s = outb_io (bm_base d) go s;
     (r, s) \<leftarrow> api env MODULE_API_IS_INTERRUPT s;
     let (status, s) = inb_io env (ctrl_base d) s;
     let (bm_status, s) = inb_io env (bm_base d + 2) s;
     Some s
   }"

abbreviation (input) ATA_CMD_READ_DMA :: u8 where "ATA_CMD_READ_DMA \<equiv> 0xc8"
abbreviation (input) ATA_CMD_READ_DMA_EXT :: u8 where "ATA_CMD_READ_DMA_EXT \<equiv> 0x25"
abbreviation (input) ATA_CMD_WRITE_DMA :: u8 where "ATA_CMD_WRITE_DMA \<equiv> 0xca"
abbreviation (input) ATA_CMD_WRITE_DMA_EXT :: u8 where "ATA_CMD_WRITE_DMA_EXT \<equiv> 0x35"

definition ata_write ::
    "(('h, 'b) ata_state_scheme) ata_env \<Rightarrow> u32 \<Rightarrow> u32 \<Rightarrow> u64 \<Rightarrow> u64 \<Rightarrow> ('h, 'b) ata_state_scheme \<Rightarrow> (u32 \<times> ('h, 'b) ata_state_scheme) option" where
  "ata_write env file_ptr ptr offset cnt s =
     (if cnt = 0 then Some (- 1, s)
      else do {
        v \<leftarrow> vfiles s file_ptr;
        d \<leftarrow> get_drive (f_id v) s;
        s \<leftarrow> ata_acquire_primary_lock env s;
        let pages = (ucast ((cnt + 4095) div 4096) :: u32);
        let n_sectors = pages * 8;
        if n_sectors = 0 then Some (- 1, s)
        else do {
          s \<leftarrow> build_prdt env ptr (PRDT d) pages 0 0 0 s;
          s \<leftarrow> ata_setup env d s;
          s \<leftarrow> ata_command env d (drop_bit 9 offset) n_sectors ATA_CMD_WRITE_DMA ATA_CMD_WRITE_DMA_EXT s;
          v \<leftarrow> vfiles s file_ptr;
          s \<leftarrow> ata_start env d (f_id v) pages 0x01 s;
          s \<leftarrow> yield env s;
          Some (0, s)
        }
      })"

text \<open>The readings of the time stamp counter only appear in the log.\<close>

definition ata_read ::
    "(('h, 'b) ata_state_scheme) ata_env \<Rightarrow> u32 \<Rightarrow> u32 \<Rightarrow> u64 \<Rightarrow> u64 \<Rightarrow> ('h, 'b) ata_state_scheme \<Rightarrow> (u32 \<times> ('h, 'b) ata_state_scheme) option" where
  "ata_read env file_ptr ptr offset cnt s =
     (if cnt = 0 then Some (- 1, s)
      else do {
        let (start_tsc, s) = rdtsc env s;
        v \<leftarrow> vfiles s file_ptr;
        d \<leftarrow> get_drive (f_id v) s;
        s \<leftarrow> ata_acquire_primary_lock env s;
        let pages = (ucast ((cnt + 4095) div 4096) :: u32);
        let n_sectors = pages * 8;
        if n_sectors = 0 then Some (- 1, s)
        else do {
          s \<leftarrow> build_prdt env ptr (PRDT d) pages 0 0 0 s;
          s \<leftarrow> ata_setup env d s;
          s \<leftarrow> ata_command env d (drop_bit 9 offset) n_sectors ATA_CMD_READ_DMA ATA_CMD_READ_DMA_EXT s;
          v \<leftarrow> vfiles s file_ptr;
          s \<leftarrow> ata_start env d (f_id v) pages 0x09 s;
          let (mid_tsc, s) = rdtsc env s;
          s \<leftarrow> yield env s;
          let (end_tsc, s) = rdtsc env s;
          Some (0, s)
        }
      })"

subsection \<open>Reading and writing at any offset\<close>

text \<open>
  The transfers are parameters here, \<open>rd\<close> and \<open>wrt\<close>: they take the file, the buffer, the offset and the count.  The first
  functions are the parts of \<^verbatim>\<open>read_disk\<close> and \<^verbatim>\<open>write_disk\<close> before and inside their loops.  An unaligned start returns the buffer and
  the count that are left, or \<^const>\<open>None\<close> in its first component when everything is done.
\<close>

type_synonym 's transfer = "u32 \<Rightarrow> u32 \<Rightarrow> u64 \<Rightarrow> u64 \<Rightarrow> 's \<Rightarrow> (u32 \<times> 's) option"

definition read_unaligned ::
    "(('h, 'b) ata_state_scheme) ata_env \<Rightarrow> (('h, 'b) ata_state_scheme) transfer \<Rightarrow> u32 \<Rightarrow> u32 \<Rightarrow> u64 \<Rightarrow> u64 \<Rightarrow>
     ('h, 'b) ata_state_scheme \<Rightarrow> ((u32 \<times> u32) option \<times> ('h, 'b) ata_state_scheme) option" where
  "read_unaligned env rd file_ptr ptr offset cnt s =
     (if offset AND 0x1ff = 0 then Some (Some (ptr, ucast cnt), s)
      else do {
        let aligned_offset = (ucast (offset AND NOT 0x1ff) :: u32);
        (bounce, s) \<leftarrow> api env (MODULE_API_MALLOC 1) s;
        (r, s) \<leftarrow> rd file_ptr bounce (ucast aligned_offset) 0x200 s;
        s \<leftarrow> on_mem (memcpy_b (bounce + ucast (offset AND 0x1ff)) ptr (min_u32 (ucast cnt) (ucast (0x200 - offset)))) s;
        (r, s) \<leftarrow> api env (MODULE_API_FREE bounce) s;
        if cnt \<le> 0x200 - offset then Some (None, s)
        else Some (Some (ptr + ucast (0x200 - offset), ucast cnt - ucast (0x200 - (offset AND 0x1ff))), s)
      })"

definition chunk_size :: "u32 \<Rightarrow> u32 \<Rightarrow> u32" where
  "chunk_size max_size remaining =
     (let n = min_u32 max_size remaining
      in if n AND (PAGE_SIZE_BYTES - 1) \<noteq> 0 \<and> n > PAGE_SIZE_BYTES then n - (n AND (PAGE_SIZE_BYTES - 1)) else n)"

definition read_chunk ::
    "(('h, 'b) ata_state_scheme) ata_env \<Rightarrow> (('h, 'b) ata_state_scheme) transfer \<Rightarrow> u32 \<Rightarrow> u32 \<Rightarrow> u64 \<Rightarrow> u64 \<Rightarrow> u32 \<Rightarrow>
     ('h, 'b) ata_state_scheme \<Rightarrow> ('h, 'b) ata_state_scheme option" where
  "read_chunk env rd file_ptr ptr offset pos to_read s =
     (if to_read < PAGE_SIZE_BYTES
      then do {
        (bounce, s) \<leftarrow> api env (MODULE_API_MALLOC 1) s;
        (r, s) \<leftarrow> rd file_ptr bounce (offset + pos) 4096 s;
        s \<leftarrow> on_mem (copy_bytes bounce (ptr + ucast pos) (unat to_read)) s;
        (r, s) \<leftarrow> api env (MODULE_API_FREE bounce) s;
        Some s
      }
      else do { (r, s) \<leftarrow> rd file_ptr (ptr + ucast pos) (offset + pos) (ucast to_read) s; Some s })"

partial_function (option) read_disk_loop ::
    "(('h, 'b) ata_state_scheme) ata_env \<Rightarrow> (('h, 'b) ata_state_scheme) transfer \<Rightarrow> u32 \<Rightarrow> u32 \<Rightarrow> u64 \<Rightarrow> u64 \<Rightarrow> u32 \<Rightarrow> u32 \<Rightarrow>
     ('h, 'b) ata_state_scheme \<Rightarrow> ('h, 'b) ata_state_scheme option" where
  "read_disk_loop env rd file_ptr ptr offset cnt max_read_size remaining s =
     (if remaining > 0
      then do {
        let to_read = chunk_size max_read_size remaining;
        s \<leftarrow> read_chunk env rd file_ptr ptr offset (cnt - ucast remaining) to_read s;
        read_disk_loop env rd file_ptr ptr offset cnt max_read_size (remaining - to_read) s
      }
      else Some s)"

definition read_with ::
    "(('h, 'b) ata_state_scheme) ata_env \<Rightarrow> (('h, 'b) ata_state_scheme) transfer \<Rightarrow> u32 \<Rightarrow> u32 \<Rightarrow> u64 \<Rightarrow> u64 \<Rightarrow>
     ('h, 'b) ata_state_scheme \<Rightarrow> (u32 \<times> ('h, 'b) ata_state_scheme) option" where
  "read_with env rd file_ptr ptr offset cnt s =
     (if file_ptr = 0 \<or> ptr = 0 then Some (0, s)
      else if cnt = 0 then Some (0, s)
      else do {
        (rest, s) \<leftarrow> read_unaligned env rd file_ptr ptr offset cnt s;
        case rest of None \<Rightarrow> Some (ucast cnt, s)
        | Some (ptr, remaining) \<Rightarrow> do {
            v \<leftarrow> vfiles s file_ptr;
            d \<leftarrow> get_drive (f_id v) s;
            s \<leftarrow> read_disk_loop env rd file_ptr ptr offset cnt (if huge d then 0x2000000 else 0x20000) remaining s;
            Some (ucast cnt, s)
          }
      })"

definition read_disk ::
    "(('h, 'b) ata_state_scheme) ata_env \<Rightarrow> (('h, 'b) ata_state_scheme) transfer" where
  "read_disk env = read_with env (ata_read env)"

definition write_unaligned ::
    "(('h, 'b) ata_state_scheme) ata_env \<Rightarrow> (('h, 'b) ata_state_scheme) transfer \<Rightarrow> (('h, 'b) ata_state_scheme) transfer \<Rightarrow>
     u32 \<Rightarrow> u32 \<Rightarrow> u64 \<Rightarrow> u64 \<Rightarrow> ('h, 'b) ata_state_scheme \<Rightarrow> ((u32 \<times> u32) option \<times> ('h, 'b) ata_state_scheme) option" where
  "write_unaligned env rd wrt file_ptr ptr offset cnt s =
     (if offset AND 0x1ff = 0 then Some (Some (ptr, ucast cnt), s)
      else do {
        let aligned_offset = (ucast (offset AND NOT 0x1ff) :: u32);
        (bounce, s) \<leftarrow> api env (MODULE_API_MALLOC 1) s;
        (r, s) \<leftarrow> rd file_ptr bounce (ucast aligned_offset) 0x200 s;
        s \<leftarrow> on_mem (memcpy_b ptr (bounce + ucast (offset AND 0x1ff)) (min_u32 (ucast cnt) (ucast (0x200 - offset)))) s;
        (r, s) \<leftarrow> wrt file_ptr bounce (ucast aligned_offset) 0x200 s;
        (r, s) \<leftarrow> api env (MODULE_API_FREE bounce) s;
        if cnt \<le> 0x200 - offset then Some (None, s)
        else Some (Some (ptr + ucast (0x200 - offset), ucast cnt - ucast (0x200 - (offset AND 0x1ff))), s)
      })"

definition write_chunk ::
    "(('h, 'b) ata_state_scheme) ata_env \<Rightarrow> (('h, 'b) ata_state_scheme) transfer \<Rightarrow> (('h, 'b) ata_state_scheme) transfer \<Rightarrow>
     u32 \<Rightarrow> u32 \<Rightarrow> u64 \<Rightarrow> u64 \<Rightarrow> u32 \<Rightarrow> u32 \<Rightarrow> ('h, 'b) ata_state_scheme \<Rightarrow> ('h, 'b) ata_state_scheme option" where
  "write_chunk env rd wrt file_ptr ptr offset cnt remaining to_write s =
     (let pos = cnt - ucast remaining
      in if to_write < PAGE_SIZE_BYTES
         then do {
           (bounce, s) \<leftarrow> api env (MODULE_API_MALLOC 1) s;
           (r, s) \<leftarrow> rd file_ptr bounce (offset + pos) 4096 s;
           s \<leftarrow> on_mem (copy_bytes (ptr + ucast pos) bounce (unat to_write)) s;
           (r, s) \<leftarrow> wrt file_ptr bounce (offset + cnt - ucast remaining) 4096 s;
           (r, s) \<leftarrow> api env (MODULE_API_FREE bounce) s;
           Some s
         }
         else do { (r, s) \<leftarrow> wrt file_ptr (ptr + ucast pos) (offset + pos) (ucast to_write) s; Some s })"

partial_function (option) write_disk_loop ::
    "(('h, 'b) ata_state_scheme) ata_env \<Rightarrow> (('h, 'b) ata_state_scheme) transfer \<Rightarrow> (('h, 'b) ata_state_scheme) transfer \<Rightarrow>
     u32 \<Rightarrow> u32 \<Rightarrow> u64 \<Rightarrow> u64 \<Rightarrow> u32 \<Rightarrow> u32 \<Rightarrow> ('h, 'b) ata_state_scheme \<Rightarrow> ('h, 'b) ata_state_scheme option" where
  "write_disk_loop env rd wrt file_ptr ptr offset cnt max_size remaining s =
     (if remaining > 0
      then do {
        let to_write = chunk_size max_size remaining;
        s \<leftarrow> write_chunk env rd wrt file_ptr ptr offset cnt remaining to_write s;
        write_disk_loop env rd wrt file_ptr ptr offset cnt max_size (remaining - to_write) s
      }
      else Some s)"

definition write_with ::
    "(('h, 'b) ata_state_scheme) ata_env \<Rightarrow> (('h, 'b) ata_state_scheme) transfer \<Rightarrow> (('h, 'b) ata_state_scheme) transfer \<Rightarrow>
     u32 \<Rightarrow> u32 \<Rightarrow> u64 \<Rightarrow> u64 \<Rightarrow> ('h, 'b) ata_state_scheme \<Rightarrow> (u32 \<times> ('h, 'b) ata_state_scheme) option" where
  "write_with env rd wrt file_ptr ptr offset cnt s =
     (if file_ptr = 0 \<or> ptr = 0 then Some (0, s)
      else if cnt = 0 then Some (0, s)
      else do {
        (rest, s) \<leftarrow> write_unaligned env rd wrt file_ptr ptr offset cnt s;
        case rest of None \<Rightarrow> Some (ucast cnt, s)
        | Some (ptr, remaining) \<Rightarrow> do {
            v \<leftarrow> vfiles s file_ptr;
            d \<leftarrow> get_drive (f_id v) s;
            s \<leftarrow> write_disk_loop env rd wrt file_ptr ptr offset cnt (if huge d then 0x2000000 else 0x20000) remaining s;
            Some (ucast cnt, s)
          }
      })"

definition write_disk ::
    "(('h, 'b) ata_state_scheme) ata_env \<Rightarrow> (('h, 'b) ata_state_scheme) transfer" where
  "write_disk env = write_with env (ata_read env) (ata_write env)"

text \<open>The table \<^verbatim>\<open>ide_fileops\<close> as \<^verbatim>\<open>init\<close> sets it.\<close>

definition ide_fileops :: "(('h, 'b) ata_state_scheme) ata_env \<Rightarrow> (('h, 'b) ata_state_scheme) fileops_t" where
  "ide_fileops env = \<lparr>op_create = None, op_delete = None, op_write = Some (write_disk env), op_read = Some (read_disk env),
     op_close = None, op_rfopen = None\<rparr>"

subsection \<open>The interrupt\<close>

definition finish_transfer ::
    "(('h, 'b) ata_state_scheme) ata_env \<Rightarrow> ('h, 'b) ata_state_scheme \<Rightarrow> ('h, 'b) ata_state_scheme option" where
  "finish_transfer env s = do {
     let s = s\<lparr>transferring_disk_index := - 1\<rparr>;
     (r, s) \<leftarrow> api env (MODULE_API_UNBLOCK_PID (transferring_pid s)) s;
     Some (s\<lparr>transferring_pid := 0, primary_ata_locked := 0\<rparr>)
   }"

definition int_handler ::
    "(('h, 'b) ata_state_scheme) ata_env \<Rightarrow> u32 \<Rightarrow> ('h, 'b) ata_state_scheme \<Rightarrow> (u32 \<times> ('h, 'b) ata_state_scheme) option" where
  "int_handler env regs s =
     (if transferring_disk_index s = - 1 then Some (regs, s)
      else do {
        d \<leftarrow> get_drive (transferring_disk_index s) s;
        let dmabar = bm_base d;
        let (status, s) = inb_io env (dmabar + 2) s;
        if status AND 4 = 0 then Some (regs, s)
        else do {
          let s = outb_io dmabar 0 s;
          let (ata_status, s) = inb_io env (io_base d + ATA_STATUS) s;
          let s = outb_io (dmabar + 2) (status AND 6) s;
          if status AND 2 \<noteq> 0 then do { s \<leftarrow> finish_transfer env s; Some (regs, s) }
          else do {
            let s = outb_io 0x70 0x80 s;
            let (end_s, s) = inb_io env 0x71 s;
            let s = outb_io 0x70 0x82 s;
            let (end_m, s) = inb_io env 0x71 s;
            let s = s\<lparr>int_count := int_count s + 1\<rparr>;
            s \<leftarrow> finish_transfer env s;
            let (t, s) = rdtsc env s;
            Some (regs, s\<lparr>int_tsc := t\<rparr>)
          }
        }
      })"

subsection \<open>Detection of the disks\<close>

definition ata_set_dma ::
    "(('h, 'b) ata_state_scheme) ata_env \<Rightarrow> u32 \<Rightarrow> u8 \<Rightarrow> ('h, 'b) ata_state_scheme \<Rightarrow> ('h, 'b) ata_state_scheme option" where
  "ata_set_dma env index dma_mode s = do {
     d \<leftarrow> get_drive index s;
     let bar0 = io_base d;
     s \<leftarrow> ata_spin_ready env bar0 (ctrl_base d) (slave_bit d) s;
     let s = outb_io (bar0 + ATA_FEATURES) 3 s;
     let dma_set = (if dma_mode AND 0x80 \<noteq> 0 then 0x40 else 0x20) OR (dma_mode AND 0x7f);
     let s = outb_io (bar0 + ATA_SECTOR_COUNT) dma_set s;
     let s = outb_io (bar0 + ATA_LBA_LOW) 0 s;
     let s = outb_io (bar0 + ATA_LBA_MID) 0 s;
     let s = outb_io (bar0 + ATA_LBA_HIH) 0 s;
     let s = outb_io (bar0 + ATA_COMMAND) 0xef s;
     s \<leftarrow> ata_wait_idle env (bar0 + ATA_STATUS) s;
     let (status, s) = inb_io env (bar0 + ATA_STATUS) s;
     Some s
   }"

primrec read_words :: "(('h, 'b) ata_state_scheme) ata_env \<Rightarrow> u16 \<Rightarrow> nat \<Rightarrow> ('h, 'b) ata_state_scheme \<Rightarrow> u16 list \<times> ('h, 'b) ata_state_scheme" where
  "read_words env port 0 s = ([], s)"
| "read_words env port (Suc n) s = (let (w, s) = inw_io env port s; (ws, s) = read_words env port n s in (w # ws, s))"

text \<open>The words 61 and 101 are shifted as \<^verbatim>\<open>int\<close>, so their sign reaches the upper half.\<close>

definition identify_sectors :: "u16 list \<Rightarrow> u64" where
  "identify_sectors w =
     (if w ! 83 AND 0x400 = 0 then scast (ucast (w ! 60) OR push_bit 16 (ucast (w ! 61)) :: u32)
      else ucast (w ! 100) OR scast (push_bit 16 (ucast (w ! 101)) :: u32) OR push_bit 32 (ucast (w ! 102)))"

text \<open>The loop that shifts \<^verbatim>\<open>dma\<close> until it is 0 and counts.\<close>

function bit_length_loop :: "u8 \<Rightarrow> u32 \<Rightarrow> u32" where
  "bit_length_loop dma highest = (if dma = 0 then highest else bit_length_loop (drop_bit 1 dma) (highest + 1))"
  by pat_completeness auto
termination
proof (relation "measure (\<lambda>(dma, _). unat dma)")
  fix dma :: u8 and highest :: u32
  assume "dma \<noteq> 0"
  then have "0 < unat dma" using unat_gt_0 by blast
  then show "((drop_bit 1 dma, highest + 1), dma, highest) \<in> measure (\<lambda>(dma, _). unat dma)"
    by (simp add: drop_bit_eq_div unat_div)
qed simp

definition best_dma_mode :: "u16 list \<Rightarrow> u8" where
  "best_dma_mode w =
     (let udma_mode = w ! 88 AND 0xff; mdma_mode = w ! 63 AND 0xff;
          dma = (ucast (if udma_mode \<noteq> 0 then udma_mode else mdma_mode) :: u8)
      in ucast ((if udma_mode \<noteq> 0 then 0x80 else 0) OR bit_length_loop dma 0))"

text \<open>The bytes of \<^verbatim>\<open>/dev/disk/ide\<close>; the array \<^verbatim>\<open>fname\<close> has 32 bytes and holds the terminated name.\<close>

definition ide_prefix :: "u8 list" where
  "ide_prefix = [0x2f, 0x64, 0x65, 0x76, 0x2f, 0x64, 0x69, 0x73, 0x6b, 0x2f, 0x69, 0x64, 0x65]"

definition drive_name :: "u8 \<Rightarrow> u8 list option" where
  "drive_name n = do {
     m \<leftarrow> itoa (ucast n) (1 + of_nat (length ide_prefix)) 10 (local_array (ide_prefix @ replicate 19 0));
     a \<leftarrow> rd_bytes m 1 32;
     Some (takeWhile (\<lambda>c. c \<noteq> 0) a)
   }"

definition count_ide :: "('h, 'b) ata_state_scheme \<Rightarrow> u8" where
  "count_ide s = foldl (\<lambda>n i. if drive_type (drives s (of_nat i)) = TYPE_IDE then n + 1 else n) 0 [0..<32]"

text \<open>The second half of \<^verbatim>\<open>ata_identify\<close>, for a device that supports DMA; \<open>ops\<close> is the address of \<^verbatim>\<open>ide_fileops\<close>.\<close>

definition add_drive ::
    "(('h, 'b) ata_state_scheme) ata_env \<Rightarrow> u32 \<Rightarrow> u32 \<Rightarrow> u16 list \<Rightarrow> ('h, 'b) ata_state_scheme \<Rightarrow> (u8 \<times> ('h, 'b) ata_state_scheme) option" where
  "add_drive env ops index w s = do {
     s \<leftarrow> ata_set_dma env index (best_dma_mode w) s;
     let ata_drives = count_ide s;
     s \<leftarrow> upd_drive index (\<lambda>d. d\<lparr>drive_type := TYPE_IDE\<rparr>) s;
     (prdt_phys, s) \<leftarrow> api env MODULE_API_PMALLOC64K s;
     (p, s) \<leftarrow> api env (MODULE_API_KMALLOC_PADDR prdt_phys 16) s;
     s \<leftarrow> upd_drive index (\<lambda>d. d\<lparr>PRDT := p\<rparr>) s;
     fname \<leftarrow> drive_name ata_drives;
     (new_file, s) \<leftarrow> api env (MODULE_API_CREAT (Some fname) 4) s;
     s \<leftarrow> upd_vfile new_file (\<lambda>v. v\<lparr>f_id := index, f_ops := ops, block_size_bytes := 512\<rparr>) s;
     (r, s) \<leftarrow> api env (MODULE_API_DISPATCH_MESSAGE 4 \<lparr>srcfile = new_file, destname = None, msg_offset = 0\<rparr>) s;
     Some (0, s)
   }"

definition ata_identify ::
    "(('h, 'b) ata_state_scheme) ata_env \<Rightarrow> u32 \<Rightarrow> u32 \<Rightarrow> u16 \<Rightarrow> ('h, 'b) ata_state_scheme \<Rightarrow> (u8 \<times> ('h, 'b) ata_state_scheme) option" where
  "ata_identify env ops index disk s = do {
     d \<leftarrow> get_drive index s;
     let bar0 = io_base d;
     let (r, s) = ata_ready env bar0 (ctrl_base d) (ucast (disk AND 0x10)) s;
     if \<not> r then Some (- 1, s)
     else do {
       let s = outb_io (bar0 + ATA_SECTOR_COUNT) 0 s;
       let s = outb_io (bar0 + ATA_LBA_LOW) 0 s;
       let s = outb_io (bar0 + ATA_LBA_MID) 0 s;
       let s = outb_io (bar0 + ATA_LBA_HIH) 0 s;
       let s = outb_io (bar0 + ATA_COMMAND) 0xec s;
       let (status, s) = inb_io env (bar0 + ATA_STATUS) s;
       if status = 0 then Some (- 1, s)
       else do {
         (ok, s) \<leftarrow> ata_wait_identify env (bar0 + ATA_STATUS) status s;
         if \<not> ok then Some (- 1, s)
         else do {
           let (lba_mid, s) = inb_io env (bar0 + ATA_LBA_MID) s;
           let (lba_high, s) = inb_io env (bar0 + ATA_LBA_HIH) s;
           if lba_mid \<noteq> 0 \<or> lba_high \<noteq> 0 then Some (- 1, s)
           else do {
             let (status, s) = inb_io env (bar0 + ATA_STATUS) s;
             if status AND 8 = 0 then Some (- 1, s)
             else do {
               let (w, s) = read_words env bar0 256 s;
               s \<leftarrow> upd_drive index (\<lambda>d. d\<lparr>huge := w ! 83 AND 0x400 \<noteq> 0, size_sectors := identify_sectors w\<rparr>) s;
               if w ! 49 AND 0x100 = 0 then Some (- 1, s) else add_drive env ops index w s
             }
           }
         }
       }
     }
   }"

text \<open>The results are bytes, so the comparisons with -1 at the end are never true.\<close>

definition ide_init ::
    "(('h, 'b) ata_state_scheme) ata_env \<Rightarrow> u32 \<Rightarrow> u32 list \<Rightarrow> ('h, 'b) ata_state_scheme \<Rightarrow> ('h, 'b) ata_state_scheme option" where
  "ide_init env ops BARS s = do {
     let primary = find_free_drive s;
     if primary = - 1 then Some s
     else do {
       s \<leftarrow> upd_drive primary (\<lambda>d. d\<lparr>drive_type := TYPE_TMP\<rparr>) s;
       let secondary = find_free_drive s;
       s \<leftarrow> (if secondary \<noteq> - 1 then upd_drive secondary (\<lambda>d. d\<lparr>drive_type := TYPE_TMP\<rparr>) s else Some s);
       let set_bars = (\<lambda>d. d\<lparr>BARs := (BARs d)[0 := BARS ! 0, 1 := BARS ! 1, 4 := BARS ! 4]\<rparr>);
       s \<leftarrow> upd_drive primary set_bars s;
       s \<leftarrow> upd_drive secondary set_bars s;
       s \<leftarrow> upd_drive secondary (\<lambda>d. d\<lparr>slave := True\<rparr>) s;
       (master_status, s) \<leftarrow> ata_identify env ops primary 0xa0 s;
       (slave_status, s) \<leftarrow> ata_identify env ops secondary 0xb0 s;
       s \<leftarrow> (if (ucast master_status :: u32) = - 1 then upd_drive primary (\<lambda>d. d\<lparr>drive_type := TYPE_NULL\<rparr>) s else Some s);
       if (ucast slave_status :: u32) = - 1 then upd_drive secondary (\<lambda>d. d\<lparr>drive_type := TYPE_NULL\<rparr>) s else Some s
     }
   }"

subsection \<open>Start of the module\<close>

text \<open>
  \<^verbatim>\<open>init\<close> reads the directory of the PCI disks as an array of \<^verbatim>\<open>vfile_t\<close>.  The bytes of an element are taken for a file
  descriptor when it is used.
\<close>

definition of_le_bytes :: "u8 list \<Rightarrow> 'a::len word" where
  "of_le_bytes xs = foldr (\<lambda>b w. ucast b OR push_bit 8 w) xs 0"

definition vfile_of_bytes :: "u8 list \<Rightarrow> vfile_t" where
  "vfile_of_bytes b = \<lparr>f_name = takeWhile (\<lambda>c. c \<noteq> 0) (take 76 b), f_flags = of_le_bytes (take 2 (drop 76 b)), f_ops = of_le_bytes (take 4 (drop 80 b)),
     refcount = of_le_bytes (take 4 (drop 84 b)), f_id = of_le_bytes (take 4 (drop 88 b)), f_private = of_le_bytes (take 4 (drop 92 b)),
     f_size = of_le_bytes (take 8 (drop 96 b)), f_offset = of_le_bytes (take 8 (drop 104 b)), block_size_bytes = of_le_bytes (take 2 (drop 112 b)),
     owner_uid = b ! 114, owner_gid = b ! 115, last_modified = of_le_bytes (take 4 (drop 116 b)), created = of_le_bytes (take 4 (drop 120 b)),
     permissions = of_le_bytes (take 2 (drop 124 b)), f_lock = \<lparr>lock = b ! 126 \<noteq> 0\<rparr>\<rparr>"

definition view_vfile :: "u32 \<Rightarrow> ('h, 'b) fs_state_scheme \<Rightarrow> ('h, 'b) fs_state_scheme option" where
  "view_vfile p s = do { b \<leftarrow> rd_bytes (fmem s) p 128; Some (s\<lparr>vfiles := (vfiles s)(p \<mapsto> vfile_of_bytes b)\<rparr>) }"

text \<open>The addresses of the objects of the module and of the local variables of \<^verbatim>\<open>init\<close>: \<^verbatim>\<open>class\<close>, then \<^verbatim>\<open>BARs\<close>.\<close>

record ata_addrs =
  module_data_at :: u32
  int_handler_at :: u32
  ide_fileops_at :: u32
  locals_at :: u32

definition ata_probe ::
    "(('h, 'b) ata_state_scheme) ata_env \<Rightarrow> ata_addrs \<Rightarrow> u32 \<Rightarrow> ('h, 'b) ata_state_scheme \<Rightarrow> ('h, 'b) ata_state_scheme option" where
  "ata_probe env at current_file s = do {
     let class_at = locals_at at;
     let bars_at = locals_at at + 4;
     s \<leftarrow> view_vfile current_file s;
     s \<leftarrow> on_mem (wr32 class_at 0) s;
     (r, s) \<leftarrow> api env (MODULE_API_READ current_file class_at 8 4) s;
     c \<leftarrow> rd32 (fmem s) class_at;
     let progif = drop_bit 8 c AND 0xff;
     if drop_bit 16 c = 0x101 \<and> progif AND 0x80 \<noteq> 0 \<and> native_ide_present s = 0
     then do {
       s \<leftarrow> on_mem (memclr_b bars_at 20) s;
       (r, s) \<leftarrow> api env (MODULE_API_READ current_file bars_at 0x10 20) s;
       b0 \<leftarrow> rd32 (fmem s) bars_at;
       b1 \<leftarrow> rd32 (fmem s) (bars_at + 4);
       b2 \<leftarrow> rd32 (fmem s) (bars_at + 8);
       b3 \<leftarrow> rd32 (fmem s) (bars_at + 12);
       b4 \<leftarrow> rd32 (fmem s) (bars_at + 16);
       if NOT progif AND 1 \<noteq> 0
       then ide_init env (ide_fileops_at at) [0x1f0 OR 1, (0x1f0 + 0x206) OR 1, b2, b3, b4] (s\<lparr>native_ide_present := 1\<rparr>)
       else ide_init env (ide_fileops_at at) [b0, b1, b2, b3, b4] s
     }
     else Some s
   }"

text \<open>The bytes of \<^verbatim>\<open>/dev/pci/disk\<close>.\<close>

definition pci_disk_path :: "u8 list" where
  "pci_disk_path = [0x2f, 0x64, 0x65, 0x76, 0x2f, 0x70, 0x63, 0x69, 0x2f, 0x64, 0x69, 0x73, 0x6b]"

definition ata_init ::
    "(('h, 'b) ata_state_scheme) ata_env \<Rightarrow> ata_addrs \<Rightarrow> ('h, 'b) ata_state_scheme \<Rightarrow> ('h, 'b) ata_state_scheme option" where
  "ata_init env at s = do {
     (status, s) \<leftarrow> api env (MODULE_API_REGISTER (module_data_at at)) s;
     if status \<noteq> 0 then Some s
     else do {
       key \<leftarrow> rd32 (fmem s) (module_data_at at + key_offset);
       (r, s) \<leftarrow> api env (MODULE_API_ADDINT 15 key (int_handler_at at)) s;
       key \<leftarrow> rd32 (fmem s) (module_data_at at + key_offset);
       (r, s) \<leftarrow> api env (MODULE_API_ADDINT 14 key (int_handler_at at)) s;
       (dir, s) \<leftarrow> api env (MODULE_API_OPEN (Some pci_disk_path)) s;
       if dir = 0 then Some s
       else do {
         (dir_data, s) \<leftarrow> api env (MODULE_API_MALLOC 2) s;
         (n, s) \<leftarrow> api env (MODULE_API_READ dir dir_data 0 8192) s;
         fold_opt (\<lambda>i. ata_probe env at (dir_data + of_nat i * 128)) [0..<unat (n div 128)] s
       }
     }
   }"

end
