(* ===== verification/AtaDisk.thy ===== *)
theory AtaDisk
  imports Ata
begin

text \<open>
  Correctness of the disk driver of \<open>Ata\<close>.

  The table that the bus master gets describes the buffer when its pages follow each other in physical memory and the
  end keeps clear of a boundary of 64 KiB; other cases fail and are listed as lemmas.
\<close>

subsection \<open>The table of physical regions\<close>

text \<open>An entry of the table; a count of 0 stands for 64 KiB.\<close>

definition prd_at :: "bmem \<Rightarrow> u32 \<Rightarrow> (u32 \<times> u16 \<times> u16) option" where
  "prd_at m p = do { a \<leftarrow> rd32 m p; c \<leftarrow> rd16 m (p + 4); r \<leftarrow> rd16 m (p + 6); Some (a, c, r) }"

definition prd_len :: "u16 \<Rightarrow> nat" where
  "prd_len c = (if c = 0 then 65536 else unat c)"

text \<open>The entries that the device reads, the last one marked.\<close>

definition prd_table :: "bmem \<Rightarrow> u32 \<Rightarrow> (u32 \<times> u16) list \<Rightarrow> bool" where
  "prd_table m p es \<longleftrightarrow> es \<noteq> [] \<and> (\<forall>k<length es. prd_at m (p + of_nat k * 8) =
     Some (fst (es ! k), snd (es ! k), if Suc k = length es then 0x8000 else 0))"

text \<open>Regions that follow each other from \<open>a\<close> on and have \<open>n\<close> bytes together.\<close>

fun prd_tiles :: "(u32 \<times> u16) list \<Rightarrow> u32 \<Rightarrow> nat \<Rightarrow> bool" where
  "prd_tiles [] a n \<longleftrightarrow> n = 0"
| "prd_tiles ((b, c) # es) a n \<longleftrightarrow> b = a \<and> prd_len c \<le> n \<and> prd_tiles es (a + of_nat (prd_len c)) (n - prd_len c)"

definition prd_in_64k :: "u32 \<times> u16 \<Rightarrow> bool" where
  "prd_in_64k e \<longleftrightarrow> unat (fst e) mod 65536 + prd_len (snd e) \<le> 65536"

lemma unat_low16: "unat (x AND 0xffff) = unat x mod 65536" for x :: u32
  using unat_and_mask [of x 16] by (simp add: mask_eq_exp_minus_1)

lemma unat_page_low16:
  "unat ((pa + of_nat j * 4096) AND 0xffff) = (unat pa + 4096 * j) mod 65536" for pa :: u32
proof -
  have "unat (pa + of_nat j * 4096) = (unat pa + 4096 * j) mod 4294967296"
    by (simp add: unat_word_ariths unat_of_nat mod_simps mult.commute)
  then show ?thesis by (simp add: unat_low16 mod_mod_cancel)
qed

text \<open>A page whose end is the end of a block of 64 KiB, as the driver tests it.\<close>

lemma ends_block_iff: "(x AND 0xffff) + 4096 \<ge> 0x10000 \<longleftrightarrow> unat x mod 65536 \<ge> 61440" for x :: u32
proof -
  have "unat ((x AND 0xffff) + 4096) = unat x mod 65536 + 4096"
    by (simp add: unat_word_ariths unat_low16)
  then show ?thesis by (simp add: word_le_nat_alt)
qed

text \<open>The pages of a buffer, \<open>n\<close> of them one after the other from \<open>pa\<close>, and \<open>q\<close> after them.\<close>

definition buffer_pages :: "u32 \<Rightarrow> u32 \<Rightarrow> u32 \<Rightarrow> nat \<Rightarrow> 'a mm_state_scheme \<Rightarrow> bool" where
  "buffer_pages ptr pa q n h \<longleftrightarrow> ptr AND 0xfff = 0 \<and> pa AND 0xfff = 0 \<and>
     (\<forall>j<n. get_paddr (ptr + push_bit 12 (of_nat j)) h = Some (pa + of_nat j * 4096)) \<and> get_paddr (ptr + push_bit 12 (of_nat n)) h = Some q"

lemma buffer_pages_at:
  "buffer_pages ptr pa q n h \<Longrightarrow> j < n \<Longrightarrow> get_paddr (ptr + push_bit 12 (of_nat j)) h = Some (pa + of_nat j * 4096)"
  by (simp add: buffer_pages_def)

lemma buffer_pages_next:
  "buffer_pages ptr pa q n h \<Longrightarrow> j < n \<Longrightarrow>
     get_paddr (ptr + push_bit 12 (of_nat j + 1)) h = Some (if Suc j = n then q else pa + of_nat (Suc j) * 4096)"
  by (auto simp: buffer_pages_def add.commute dest: spec [of _ "Suc j"])

lemma api_paddr:
  assumes "api env = module_api call fops"
  shows "api env (MODULE_API_PADDR a) s = map_option (\<lambda>r. (r, s)) (get_paddr a (pages_st s))"
  using assms by (cases "get_paddr a (pages_st s)") (simp_all add: module_api_def)

lemma consecutive_buffer:
  assumes env: "api env = module_api call fops" and b: "buffer_pages ptr pa q n (pages_st s)" and n: "n \<le> 16" "c \<le> n"
  shows "\<exists>b'. consecutive_pages env ptr (of_nat n) 0 pa (of_nat c) b0 s = Some (of_nat n, b', s) \<and>
    (b' = 0 \<longleftrightarrow> b0 = 0 \<and> (\<forall>j. c \<le> j \<longrightarrow> j < n \<longrightarrow> unat (if Suc j = n then q else pa + of_nat (Suc j) * 4096) mod 65536 < 61440))"
  using n(2)
proof (induction "n - c" arbitrary: c b0)
  case 0
  then show ?case using n by (subst consecutive_pages.simps) simp
next
  case (Suc k)
  let ?x = "if Suc c = n then q else pa + of_nat (Suc c) * 4096"
  let ?b = "if (?x AND 0xffff) + PAGE_SIZE_BYTES \<ge> 0x10000 then of_nat c + 1 else b0"
  have c: "c < n" using Suc.hyps(2) by simp
  then have lt: "(of_nat c :: u32) < of_nat n" "(of_nat c :: u32) < 16" "(of_nat c :: u32) + 1 \<noteq> 0"
    using n(1) by (simp_all add: word_less_nat_alt word_unat_eq_iff unat_of_nat unat_word_ariths)
  have off: "ptr AND 0xfff = 0" using b by (simp add: buffer_pages_def)
  have step: "consecutive_pages env ptr (of_nat n) 0 pa (of_nat c) b0 s = consecutive_pages env ptr (of_nat n) 0 pa (of_nat (Suc c)) ?b s"
    by (subst consecutive_pages.simps)
      (use c lt off buffer_pages_at [OF b c] buffer_pages_next [OF b c] in \<open>simp add: api_paddr [OF env] Let_def add.commute\<close>)
  have "k = n - Suc c" "Suc c \<le> n" using Suc.hyps(2) c by simp_all
  from Suc.hyps(1) [OF this, of ?b] obtain b' where b': "consecutive_pages env ptr (of_nat n) 0 pa (of_nat (Suc c)) ?b s = Some (of_nat n, b', s)"
    "b' = 0 \<longleftrightarrow> ?b = 0 \<and> (\<forall>j. Suc c \<le> j \<longrightarrow> j < n \<longrightarrow> unat (if Suc j = n then q else pa + of_nat (Suc j) * 4096) mod 65536 < 61440)" by blast
  have bz: "?b = 0 \<longleftrightarrow> b0 = 0 \<and> unat ?x mod 65536 < 61440"
    using lt(3) ends_block_iff [of ?x] by (simp add: not_le [symmetric])
  have sp: "(\<forall>j. c \<le> j \<longrightarrow> j < n \<longrightarrow> P j) \<longleftrightarrow> P c \<and> (\<forall>j. Suc c \<le> j \<longrightarrow> j < n \<longrightarrow> P j)" for P :: "nat \<Rightarrow> bool"
    using c by (metis Suc_le_eq le_less order_refl)
  show ?case unfolding step b'(1) sp using b'(2) bz by (intro exI [of _ b']) (simp only: conj_assoc simp_thms)
qed

text \<open>Writing one member of an entry keeps the others and the memory outside the entry.\<close>

definition prd_frame :: "u32 \<Rightarrow> bmem \<Rightarrow> bmem \<Rightarrow> bool" where
  "prd_frame p m m' \<longleftrightarrow> (\<forall>a. \<not> span p 8 a \<longrightarrow> m' a = m a) \<and> (\<forall>q k. mapped m q k \<longrightarrow> mapped m' q k)"

lemma entry_mapped:
  assumes "mapped m p 8"
  shows "m p \<noteq> None" "m (p + 1) \<noteq> None" "m (p + 2) \<noteq> None" "m (p + 3) \<noteq> None"
    "m (p + 4) \<noteq> None" "m (p + 5) \<noteq> None" "m (p + 6) \<noteq> None" "m (p + 7) \<noteq> None"
  using mapped_at [OF assms, of 0] mapped_at [OF assms, of 1] mapped_at [OF assms, of 2] mapped_at [OF assms, of 3]
    mapped_at [OF assms, of 4] mapped_at [OF assms, of 5] mapped_at [OF assms, of 6] mapped_at [OF assms, of 7] by simp_all

lemma span_entry: "span p 8 p" "span p 8 (p + 1)" "span p 8 (p + 2)" "span p 8 (p + 3)"
  "span p 8 (p + 4)" "span p 8 (p + 5)" "span p 8 (p + 6)" "span p 8 (p + 7)"
  by (simp_all add: span_def)

lemma prd_frame_upd: "span p 8 a \<Longrightarrow> prd_frame p m m' \<Longrightarrow> prd_frame p m (m'(a \<mapsto> v))"
  by (auto simp: prd_frame_def mapped_def)

lemma prd_frame_refl [simp]: "prd_frame p m m"
  by (simp add: prd_frame_def)

lemma prd_frame_trans: "prd_frame p m m1 \<Longrightarrow> prd_frame p m1 m2 \<Longrightarrow> prd_frame p m m2"
  by (simp add: prd_frame_def)

lemma write_address:
  assumes "mapped m p 8"
  obtains m' where "wr32 p v m = Some m'" "prd_at m' p = map_option (\<lambda>(a, c, r). (v, c, r)) (prd_at m p)" "prd_frame p m m'"
proof
  let ?m = "m(p \<mapsto> ucast v, p + 1 \<mapsto> ucast (drop_bit 8 v), p + 2 \<mapsto> ucast (drop_bit 16 v), p + 3 \<mapsto> ucast (drop_bit 24 v))"
  note e = entry_mapped [OF assms]
  show "wr32 p v m = Some ?m" using e by (intro wr32_total) (simp add: word_mapped_def)
  show "prd_at ?m p = map_option (\<lambda>(a, c, r). (v, c, r)) (prd_at m p)"
    using e by (auto simp: prd_at_def rd32_def rd16_def le_word_bytes add.assoc)
  show "prd_frame p m ?m" by (intro prd_frame_upd span_entry prd_frame_refl)
qed

lemma write_byte_count:
  assumes "mapped m p 8"
  obtains m' where "wr16 (p + 4) v m = Some m'" "prd_at m' p = map_option (\<lambda>(a, c, r). (a, v, r)) (prd_at m p)" "prd_frame p m m'"
proof
  let ?m = "m(p + 4 \<mapsto> ucast v, p + 5 \<mapsto> ucast (drop_bit 8 v))"
  note e = entry_mapped [OF assms]
  show "wr16 (p + 4) v m = Some ?m" using e by (simp add: wr16_def wr_def add.assoc)
  show "prd_at ?m p = map_option (\<lambda>(a, c, r). (a, v, r)) (prd_at m p)"
    using e le16_bytes [of v] by (auto simp: prd_at_def rd32_def rd16_def le16_def add.assoc)
  show "prd_frame p m ?m" by (intro prd_frame_upd span_entry prd_frame_refl)
qed

lemma write_reserved:
  assumes "mapped m p 8"
  obtains m' where "wr16 (p + 6) v m = Some m'" "prd_at m' p = map_option (\<lambda>(a, c, r). (a, c, v)) (prd_at m p)" "prd_frame p m m'"
proof
  let ?m = "m(p + 6 \<mapsto> ucast v, p + 7 \<mapsto> ucast (drop_bit 8 v))"
  note e = entry_mapped [OF assms]
  show "wr16 (p + 6) v m = Some ?m" using e by (simp add: wr16_def wr_def add.assoc)
  show "prd_at ?m p = map_option (\<lambda>(a, c, r). (a, c, v)) (prd_at m p)"
    using e le16_bytes [of v] by (auto simp: prd_at_def rd32_def rd16_def le16_def add.assoc)
  show "prd_frame p m ?m" by (intro prd_frame_upd span_entry prd_frame_refl)
qed

lemma prd_frameD: "prd_frame p m m' \<Longrightarrow> mapped m q k \<Longrightarrow> mapped m' q k"
  by (simp add: prd_frame_def)

text \<open>A complete entry.\<close>

lemma write_entry:
  assumes "mapped m p 8"
  obtains m1 m2 m3 where "wr32 p a m = Some m1" "wr16 (p + 4) c m1 = Some m2" "wr16 (p + 6) r m2 = Some m3"
    "prd_at m3 p = Some (a, c, r)" "prd_frame p m m3" "mapped m3 p 8"
proof -
  obtain m1 where m1: "wr32 p a m = Some m1" "prd_at m1 p = map_option (\<lambda>(x, c, r). (a, c, r)) (prd_at m p)" "prd_frame p m m1"
    by (rule write_address [OF assms])
  obtain m2 where m2: "wr16 (p + 4) c m1 = Some m2" "prd_at m2 p = map_option (\<lambda>(a, x, r). (a, c, r)) (prd_at m1 p)" "prd_frame p m1 m2"
    by (rule write_byte_count [OF prd_frameD [OF m1(3) assms]])
  obtain m3 where m3: "wr16 (p + 6) r m2 = Some m3" "prd_at m3 p = map_option (\<lambda>(a, c, x). (a, c, r)) (prd_at m2 p)" "prd_frame p m2 m3"
    by (rule write_reserved [OF prd_frameD [OF m2(3) prd_frameD [OF m1(3) assms]]])
  have "prd_at m p \<noteq> None" using entry_mapped [OF assms] by (auto simp: prd_at_def rd32_def rd16_def add.assoc)
  then have "prd_at m3 p = Some (a, c, r)" using m1(2) m2(2) m3(2) by auto
  moreover have f: "prd_frame p m m3" using m1(3) m2(3) m3(3) prd_frame_trans by blast
  ultimately show ?thesis using that m1(1) m2(1) m3(1) prd_frameD [OF f assms] by blast
qed

lemma write_last_entry:
  assumes "mapped m p 8"
  obtains m1 m2 m3 m4 where "wr32 p a m = Some m1" "wr16 (p + 4) c m1 = Some m2" "wr16 (p + 6) 0 m2 = Some m3"
    "wr16 (p + 6) 0x8000 m3 = Some m4" "prd_at m4 p = Some (a, c, 0x8000)" "prd_frame p m m4"
proof -
  obtain m1 m2 m3 where m: "wr32 p a m = Some m1" "wr16 (p + 4) c m1 = Some m2" "wr16 (p + 6) 0 m2 = Some m3"
    "prd_at m3 p = Some (a, c, 0)" "prd_frame p m m3" "mapped m3 p 8" by (rule write_entry [OF assms])
  obtain m4 where "wr16 (p + 6) 0x8000 m3 = Some m4" "prd_at m4 p = map_option (\<lambda>(a, c, r). (a, c, 0x8000)) (prd_at m3 p)" "prd_frame p m3 m4"
    by (rule write_reserved [OF m(6)])
  then show ?thesis using that m prd_frame_trans by auto
qed

lemma build_prdt_end: "build_prdt env ptr prdt n n k b s = Some s"
  by (subst build_prdt.simps) simp

lemma of_nat_pred: "0 < n \<Longrightarrow> (of_nat n :: u32) - 1 = of_nat (n - 1)"
  by (simp add: of_nat_diff)

lemma page_count_bounds:
  assumes "0 < n" "n \<le> 16"
  shows "(0 :: u32) < of_nat n" "(of_nat n :: u32) - 1 \<le> of_nat n"
  unfolding of_nat_pred [OF assms(1)] using assms by (simp_all add: word_less_nat_alt word_le_nat_alt unat_of_nat del: of_nat_diff)

lemma prd_at_cong:
  assumes "\<And>i. i < 8 \<Longrightarrow> m' (p + of_nat i) = m (p + of_nat i)"
  shows "prd_at m' p = prd_at m p"
  using assms [of 0] assms [of 1] assms [of 2] assms [of 3] assms [of 4] assms [of 5] assms [of 6] assms [of 7]
  by (simp add: prd_at_def rd32_def rd16_def add.assoc)

lemma ucast_of_nat_u16: "k < 2 ^ 32 \<Longrightarrow> (ucast (of_nat k :: u32) :: u16) = of_nat k"
  by (simp add: unsigned_of_nat take_bit_nat_eq_self)

lemma buffer_one_group:
  assumes env: "api env = module_api call fops" and b: "buffer_pages ptr pa q n (pages_st s)" and n: "0 < n" "n \<le> 16"
    and c: "consecutive_pages env ptr (of_nat n) 0 pa 0 0 s = Some (of_nat n, b', s)"
    and m: "mapped (fmem s) prdt 8"
    and no: "unat (pa + of_nat (n - 1) * 4096) mod 65536 < 61440" "b' = 0"
  shows "\<exists>m'. build_prdt env ptr prdt (of_nat n) 0 0 0 s = Some (s\<lparr>fmem := m'\<rparr>) \<and>
    prd_at m' prdt = Some (pa, of_nat (4096 * n), 0x8000) \<and> prd_frame prdt (fmem s) m'"
proof -
  define r where "r = 4096 * n"
  obtain m1 m2 m3 m4 where w: "wr32 prdt pa (fmem s) = Some m1" "wr16 (prdt + 4) (of_nat r) m1 = Some m2" "wr16 (prdt + 6) 0 m2 = Some m3"
    "wr16 (prdt + 6) 0x8000 m3 = Some m4" "prd_at m4 prdt = Some (pa, of_nat r, 0x8000)" "prd_frame prdt (fmem s) m4"
    by (rule write_last_entry [OF m])
  have p0: "get_paddr ptr (pages_st s) = Some pa" using buffer_pages_at [OF b n(1)] by simp
  have p1: "get_paddr (ptr + push_bit 12 (of_nat n - 1)) (pages_st s) = Some (pa + of_nat (n - 1) * 4096)"
    unfolding of_nat_pred [OF n(1)] by (rule buffer_pages_at [OF b]) (use n in simp)
  have off: "ptr AND 0xfff = 0" using b by (simp add: buffer_pages_def)
  have lt: "(of_nat n :: u32) \<noteq> 0" "(0 :: u32) < of_nat n" "(of_nat n :: u32) - 1 \<le> of_nat n"
    using page_count_bounds [OF n] by auto
  have cnt: "(ucast ((4096 :: u32) * of_nat n) :: u16) = of_nat r"
    using ucast_of_nat_u16 [of r] n(2) by (simp add: r_def)
  have "build_prdt env ptr prdt (of_nat n) 0 0 0 s = Some (s\<lparr>fmem := m4\<rparr>)"
    by (subst build_prdt.simps)
      (use no ends_block_iff [of "pa + of_nat (n - 1) * 4096"] in \<open>simp add: lt off p0 p1 c w cnt api_paddr [OF env] put_group_def set_prd_address_def
        set_prd_byte_count_def set_prd_reserved_def on_mem_def build_prdt_end not_le [symmetric] del: of_nat_diff\<close>)
  then show ?thesis using w(5,6) by (auto simp: r_def)
qed

text \<open>The pages reach beyond the end of a block of 64 KiB: the driver writes two entries that meet there.\<close>

lemma buffer_two_groups:
  assumes env: "api env = module_api call fops" and b: "buffer_pages ptr pa q n (pages_st s)" and n: "0 < n" "n \<le> 16"
    and c: "consecutive_pages env ptr (of_nat n) 0 pa 0 0 s = Some (of_nat n, b', s)"
      "b' \<noteq> 0 \<or> 61440 \<le> unat (pa + of_nat (n - 1) * 4096) mod 65536"
    and m: "mapped (fmem s) prdt 16"
    and cross: "65536 \<le> unat pa mod 65536 + 4096 * n"
  shows "\<exists>m'. build_prdt env ptr prdt (of_nat n) 0 0 0 s = Some (s\<lparr>fmem := m'\<rparr>) \<and>
    prd_at m' prdt = Some (pa, of_nat (65536 - unat pa mod 65536), 0) \<and>
    prd_at m' (prdt + 8) = Some (pa + of_nat (65536 - unat pa mod 65536), of_nat (4096 * n - (65536 - unat pa mod 65536)), 0x8000) \<and>
    (\<forall>a. \<not> span prdt 16 a \<longrightarrow> m' a = fmem s a)"
proof -
  define k where "k = 65536 - unat pa mod 65536"
  define r where "r = 4096 * n - k"
  have k_bound: "k \<le> 65536" "k + unat pa mod 65536 = 65536" by (simp_all add: k_def)
  have m0: "mapped (fmem s) prdt 8" and m8: "mapped (fmem s) (prdt + 8) 8"
    using m mapped_part [OF m, of 8 8] by (auto simp: mapped_def)
  obtain m1 m2 m3 where w: "wr32 prdt pa (fmem s) = Some m1" "wr16 (prdt + 4) (of_nat k) m1 = Some m2" "wr16 (prdt + 6) 0 m2 = Some m3"
    "prd_at m3 prdt = Some (pa, of_nat k, 0)" "prd_frame prdt (fmem s) m3" by (rule write_entry [OF m0])
  obtain m4 m5 m6 m7 where v: "wr32 (prdt + 8) (pa + of_nat k) m3 = Some m4" "wr16 (prdt + 8 + 4) (of_nat r) m4 = Some m5"
    "wr16 (prdt + 8 + 6) 0 m5 = Some m6" "wr16 (prdt + 8 + 6) 0x8000 m6 = Some m7"
    "prd_at m7 (prdt + 8) = Some (pa + of_nat k, of_nat r, 0x8000)" "prd_frame (prdt + 8) m3 m7"
    by (rule write_last_entry [OF prd_frameD [OF w(5) m8]])
  have v': "wr32 (8 + prdt) (pa + of_nat k) m3 = Some m4" "wr16 (12 + prdt) (of_nat r) m4 = Some m5"
    "wr16 (14 + prdt) 0 m5 = Some m6" "wr16 (14 + prdt) 0x8000 m6 = Some m7" using v(1-4) by (simp_all add: add.commute)
  have p0: "get_paddr ptr (pages_st s) = Some pa" using buffer_pages_at [OF b n(1)] by simp
  have p1: "get_paddr (ptr + push_bit 12 (of_nat n - 1)) (pages_st s) = Some (pa + of_nat (n - 1) * 4096)"
    unfolding of_nat_pred [OF n(1)] by (rule buffer_pages_at [OF b]) (use n in simp)
  have off: "ptr AND 0xfff = 0" using b by (simp add: buffer_pages_def)
  have lt: "(0 :: u32) < of_nat n" "(of_nat n :: u32) - 1 \<le> of_nat n" using page_count_bounds [OF n] by auto
  have kw: "0x10000 - (pa AND 0xffff) = of_nat k"
    unfolding k_def by (simp add: word_unat_eq_iff unat_low16 unat_sub word_le_nat_alt unat_of_nat_lt less_imp_le del: of_nat_diff)
  have "k \<le> 4096 * n" using cross k_bound by linarith
  then have rw: "of_nat n * 4096 - (of_nat k :: u32) = of_nat r" by (simp add: r_def of_nat_diff mult.commute)
  have cnt: "(ucast (of_nat k :: u32) :: u16) = of_nat k" "(ucast (of_nat r :: u32) :: u16) = of_nat r"
    using n(2) k_bound by (intro ucast_of_nat_u16; simp add: r_def)+
  have "build_prdt env ptr prdt (of_nat n) 0 0 0 s = Some (s\<lparr>fmem := m7\<rparr>)"
    by (subst build_prdt.simps)
      (use c(2) ends_block_iff [of "pa + of_nat (n - 1) * 4096"] in \<open>auto simp: lt off p0 p1 c(1) w v' kw rw cnt api_paddr [OF env] put_group_def set_prd_address_def
        set_prd_byte_count_def set_prd_reserved_def on_mem_def build_prdt_end Let_def add.commute [of prdt 8] simp del: of_nat_diff\<close>)
  moreover have "prd_at m7 prdt = prd_at m3 prdt"
    using v(6) span_before [of _ 8 8 prdt] by (intro prd_at_cong) (simp add: prd_frame_def)
  moreover have "m7 a = fmem s a" if "\<not> span prdt 16 a" for a
  proof -
    have "\<not> span (prdt + 8) 8 a" "\<not> span prdt 8 a"
      using that span_shift [of prdt 8 8 a 16] span_shift [of prdt 0 8 a 16] by auto
    then show ?thesis using v(6) w(5) by (simp add: prd_frame_def)
  qed
  ultimately show ?thesis using w(4) v(5) unfolding k_def [symmetric] r_def [symmetric] by auto
qed

lemma prd_len_of_nat: "0 < k \<Longrightarrow> k \<le> 65536 \<Longrightarrow> prd_len (of_nat k) = k"
  by (cases "k = 65536") (auto simp: prd_len_def unat_of_nat word_unat_eq_iff)

lemma unat_mod_add: "unat (pa + of_nat k) mod 65536 = (unat pa mod 65536 + k) mod 65536" for pa :: u32
proof -
  have "unat (pa + of_nat k) = (unat pa + k) mod 4294967296" by (simp add: unat_word_ariths unat_of_nat mod_simps)
  then show ?thesis by (simp add: mod_mod_cancel mod_simps)
qed

lemma unat_page_mod: "unat (pa + of_nat j * 4096) mod 65536 = (unat pa mod 65536 + 4096 * j) mod 65536" for pa :: u32
  using unat_mod_add [of pa "4096 * j"] by (simp add: mult.commute)

lemma prdt_before_boundary:
  assumes env: "api env = module_api call fops" and b: "buffer_pages ptr pa q n (pages_st s)" and n: "0 < n" "n \<le> 16"
    and m: "mapped (fmem s) prdt 16" and a: "unat pa mod 65536 + 4096 * n < 65536" "unat q mod 65536 < 61440"
  shows "\<exists>m' es. build_prdt env ptr prdt (of_nat n) 0 0 0 s = Some (s\<lparr>fmem := m'\<rparr>) \<and> prd_table m' prdt es \<and>
    prd_tiles es pa (4096 * n) \<and> (\<forall>e\<in>set es. prd_in_64k e) \<and> (\<forall>a. \<not> span prdt 16 a \<longrightarrow> m' a = fmem s a)"
proof -
  let ?x = "\<lambda>j. unat (if Suc j = n then q else pa + of_nat (Suc j) * 4096) mod 65536"
  obtain b' where b': "consecutive_pages env ptr (of_nat n) 0 pa 0 0 s = Some (of_nat n, b', s)"
      "b' = 0 \<longleftrightarrow> (\<forall>j. 0 \<le> j \<longrightarrow> j < n \<longrightarrow> ?x j < 61440)"
    using consecutive_buffer [OF env b n(2), of 0 0] by auto
  have "?x j < 61440" if "j < n" for j using that a unat_page_mod [of pa "Suc j"] by auto
  then have "b' = 0" using b'(2) by simp
  moreover have "unat (pa + of_nat (n - 1) * 4096) mod 65536 < 61440"
    using a(1) n(1) unat_page_mod [of pa "n - 1"] by (simp del: of_nat_diff)
  moreover have "mapped (fmem s) prdt 8" using m by (auto simp: mapped_def)
  ultimately obtain m' where m': "build_prdt env ptr prdt (of_nat n) 0 0 0 s = Some (s\<lparr>fmem := m'\<rparr>)"
      "prd_at m' prdt = Some (pa, of_nat (4096 * n), 0x8000)" "prd_frame prdt (fmem s) m'"
    using buffer_one_group [OF env b n b'(1)] by blast
  have len: "prd_len (of_nat (4096 * n)) = 4096 * n" using a(1) n(1) by (intro prd_len_of_nat) simp_all
  have "m' a = fmem s a" if "\<not> span prdt 16 a" for a
    using that m'(3) span_shift [of prdt 0 8 a 16] by (auto simp: prd_frame_def)
  moreover have "prd_table m' prdt [(pa, of_nat (4096 * n))]" using m'(2) by (simp add: prd_table_def)
  moreover have "prd_tiles [(pa, of_nat (4096 * n))] pa (4096 * n)" "prd_in_64k (pa, of_nat (4096 * n))"
    using len a(1) by (simp_all add: prd_in_64k_def del: of_nat_mult)
  ultimately show ?thesis using m'(1) by (intro exI [of _ m'] exI [of _ "[(pa, of_nat (4096 * n))]"]) simp
qed

lemma prdt_across_boundary:
  assumes env: "api env = module_api call fops" and b: "buffer_pages ptr pa q n (pages_st s)" and n: "0 < n" "n \<le> 16"
    and m: "mapped (fmem s) prdt 16" and a: "unat pa mod 65536 < 61440" "65536 < unat pa mod 65536 + 4096 * n"
  shows "\<exists>m' es. build_prdt env ptr prdt (of_nat n) 0 0 0 s = Some (s\<lparr>fmem := m'\<rparr>) \<and> prd_table m' prdt es \<and>
    prd_tiles es pa (4096 * n) \<and> (\<forall>e\<in>set es. prd_in_64k e) \<and> (\<forall>a. \<not> span prdt 16 a \<longrightarrow> m' a = fmem s a)"
proof -
  let ?o = "unat pa mod 65536"
  let ?x = "\<lambda>j. unat (if Suc j = n then q else pa + of_nat (Suc j) * 4096) mod 65536"
  obtain b' where b': "consecutive_pages env ptr (of_nat n) 0 pa 0 0 s = Some (of_nat n, b', s)"
      "b' = 0 \<longleftrightarrow> (\<forall>j. 0 \<le> j \<longrightarrow> j < n \<longrightarrow> ?x j < 61440)"
    using consecutive_buffer [OF env b n(2), of 0 0] by auto
  have "unat pa mod 4096 = 0" using b unat_and_fff [of pa] by (simp add: buffer_pages_def)
  then have "?o mod 4096 = 0" by (simp add: mod_mod_cancel)
  then obtain t where t: "?o = 4096 * t" by auto
  then have "\<not> ?x (14 - t) < 61440" using a unat_page_mod [of pa "Suc (14 - t)"] by auto
  moreover have "14 - t < n" using a t by linarith
  ultimately have "b' \<noteq> 0" using b'(2) by blast
  define k where "k = 65536 - ?o"
  define r where "r = 4096 * n - k"
  have kr: "0 < k" "k \<le> 65536" "0 < r" "r < 65536" "k + r = 4096 * n" "?o + k = 65536"
    using a n by (auto simp: k_def r_def)
  obtain m' where m': "build_prdt env ptr prdt (of_nat n) 0 0 0 s = Some (s\<lparr>fmem := m'\<rparr>)"
      "prd_at m' prdt = Some (pa, of_nat k, 0)" "prd_at m' (prdt + 8) = Some (pa + of_nat k, of_nat r, 0x8000)"
      "\<forall>a. \<not> span prdt 16 a \<longrightarrow> m' a = fmem s a"
    using buffer_two_groups [OF env b n b'(1) disjI1 [OF \<open>b' \<noteq> 0\<close>] m less_imp_le [OF a(2)]] unfolding k_def [symmetric] r_def [symmetric] by blast
  let ?es = "[(pa, of_nat k), (pa + of_nat k, of_nat r)] :: (u32 \<times> u16) list"
  have len: "prd_len (of_nat k) = k" "prd_len (of_nat r) = r" using kr by (simp_all add: prd_len_of_nat)
  have "prd_table m' prdt ?es" using m'(2,3) by (auto simp: prd_table_def less_Suc_eq)
  moreover have "prd_tiles ?es pa (4096 * n)" "\<forall>e\<in>set ?es. prd_in_64k e"
    using len kr unat_mod_add [of pa k] by (auto simp: prd_in_64k_def)
  ultimately show ?thesis using m'(1,4) by blast
qed


text \<open>A state with the pages from \<open>0xd0000000\<close> mapped to the frames from \<open>0x1e000\<close>, and a device that is always ready.\<close>

definition dma_pages :: int_state where
  "dma_pages = int_example\<lparr>cr3 := 0x1000,
     phys := (\<lambda>f i. if f = 0x1000 then (if i = 1023 then 0x1001 else if i = 832 then 0x2003 else 0)
              else if f = 0x2000 \<and> i < 8 then 0x1e003 + of_nat i * 0x1000 else 0)\<rparr>"

definition zero_drive :: drive_t where
  "zero_drive = \<lparr>BARs = replicate 8 0, drive_type = TYPE_NULL, size_sectors = 0, sector_size_bytes = 0, irq_dispatched = False,
     huge = False, d_locked = False, slave = False, PRDT = 0\<rparr>"

definition ata_example :: "int_state ata_state" where
  "ata_example = mod_state.extend (mod_example\<lparr>pages_st := dma_pages\<rparr>) (ata_state.fields [] 0 0 0 (- 1) 0 0 0 0 (\<lambda>_. zero_drive) 0 0)"

definition ready_env :: "int_state ata_state ata_env" where
  "ready_env = \<lparr>device = (\<lambda>_. 0x40), yield = Some, api = module_api (\<lambda>h message args s. Some (- 1, s)) (\<lambda>_. no_fileops)\<rparr>"

lemma ata_example_simps [simp]:
  "pages_st ata_example = dma_pages" "fmem ata_example a = Some (if a = 0x10020 then 0x10 else if a = 0x10048 then 0x20 else 0)"
  "io_log ata_example = []" "transferring_disk_index ata_example = - 1" "drives ata_example = (\<lambda>_. zero_drive)"
  by (simp_all add: ata_example_def mod_example_def mod_memory_def mod_state.defs ata_state.defs)

lemma dma_pages_buffer: "buffer_pages 0xd0000000 0x1e000 0x21000 3 dma_pages"
proof -
  have "get_paddr (0xd0000000 + push_bit 12 (of_nat j)) dma_pages = Some (0x1e000 + of_nat j * 4096)" if "j < 4" for j
  proof -
    have "j = 0 \<or> j = 1 \<or> j = 2 \<or> j = 3" using that by auto
    then show ?thesis
      by (auto simp: get_paddr_def load32_def mmu_walk_def pd_slot_def pt_slot_def pd_index_def pt_index_def page_base_def word_slot_def dma_pages_def)
  qed
  from this [of 3] this show ?thesis by (simp add: buffer_pages_def)
qed


text \<open>
  A buffer that ends exactly at a boundary gets a second entry with the count 0, which stands for 64 KiB: the table describes
  memory behind the buffer, and the marked entry is not the one of the buffer.
\<close>

lemma prdt_ending_at_boundary:
  assumes env: "api env = module_api call fops" and b: "buffer_pages ptr pa q n (pages_st s)" and n: "0 < n" "n \<le> 16"
    and m: "mapped (fmem s) prdt 16" and a: "unat pa mod 65536 + 4096 * n = 65536"
  shows "\<exists>m'. build_prdt env ptr prdt (of_nat n) 0 0 0 s = Some (s\<lparr>fmem := m'\<rparr>) \<and>
    prd_at m' (prdt + 8) = Some (pa + of_nat (4096 * n), 0, 0x8000) \<and> prd_len 0 = 65536"
proof -
  obtain b' where b': "consecutive_pages env ptr (of_nat n) 0 pa 0 0 s = Some (of_nat n, b', s)"
    using consecutive_buffer [OF env b n(2), of 0 0] by auto
  have k: "65536 - unat pa mod 65536 = 4096 * n" using a by simp
  have "unat pa mod 65536 + 4096 * (n - 1) = 61440" using a n(1) by (cases n) simp_all
  then have "61440 \<le> unat (pa + of_nat (n - 1) * 4096) mod 65536" using unat_page_mod [of pa "n - 1"] by (simp del: of_nat_diff)
  then show ?thesis using buffer_two_groups [OF env b n b' _ m] a unfolding k by (auto simp: prd_len_def)
qed

text \<open>
  The mark is set when one page is left: of two pages that do not follow each other the first entry is marked, and the device
  stops before the second page.
\<close>

definition split_pages :: int_state where
  "split_pages = int_example\<lparr>cr3 := 0x1000,
     phys := (\<lambda>f i. if f = 0x1000 then (if i = 1023 then 0x1001 else if i = 832 then 0x2003 else 0)
              else if f = 0x2000 \<and> i < 8 then 0x10003 + of_nat i * 0x2000 else 0)\<rparr>"

lemma split_pages_paddr: "get_paddr 0xd0000000 split_pages = Some 0x10000" "get_paddr 0xd0001000 split_pages = Some 0x12000"
  "get_paddr 0xd0002000 split_pages = Some 0x14000"
  by (simp_all add: get_paddr_def load32_def mmu_walk_def pd_slot_def pt_slot_def pd_index_def pt_index_def page_base_def word_slot_def split_pages_def)

lemma prdt_marks_first_of_two:
  "map_option (\<lambda>s. prd_at (fmem s) 0x3000) (build_prdt ready_env 0xd0000000 0x3000 2 0 0 0 (ata_example\<lparr>pages_st := split_pages\<rparr>)) =
     Some (Some (0x10000, 0x1000, 0x8000))"
proof -
  have env: "api ready_env = module_api (\<lambda>h message args s. Some (- 1, s)) (\<lambda>_. no_fileops)" by (simp add: ready_env_def)
  have p: "pages_st s = split_pages \<Longrightarrow> api ready_env (MODULE_API_PADDR a) s = map_option (\<lambda>r. (r, s)) (get_paddr a split_pages)" for a s
    by (simp add: api_paddr [OF env])
  have c: "consecutive_pages ready_env 0xd0000000 2 0 0x10000 0 0 s = Some (1, 0, s)"
    "consecutive_pages ready_env 0xd0000000 2 1 0x12000 0 0 s = Some (1, 0, s)" if "pages_st s = split_pages" for s
    using that p split_pages_paddr by (subst consecutive_pages.simps, simp, subst consecutive_pages.simps, simp)+
  have r: "build_prdt ready_env 0xd0000000 0x3000 2 1 1 0 s = do {
      s \<leftarrow> on_mem (wr32 0x3008 0x12000) s; s \<leftarrow> on_mem (wr16 0x300c 0x1000) s;
      s \<leftarrow> on_mem (wr16 0x300e 0) s; on_mem (wr16 0x300e 0x8000) s }" if "pages_st s = split_pages" for s
    by (subst build_prdt.simps) (use that in \<open>simp add: p c split_pages_paddr put_group_def set_prd_address_def set_prd_byte_count_def
      set_prd_reserved_def on_mem_def build_prdt_end\<close>)
  show ?thesis
    by (subst build_prdt.simps) (simp add: p c r split_pages_paddr put_group_def set_prd_address_def set_prd_byte_count_def set_prd_reserved_def
      on_mem_def wr32_def wr16_def wr_def prd_at_def rd32_def rd16_def)
qed

subsection \<open>The command selects the sector\<close>

text \<open>What an ATA device takes from the bytes written to its registers: the last ones, and for a command with 48 bits the ones before as the upper half.\<close>

definition written :: "io_event list \<Rightarrow> u16 \<Rightarrow> u8 list" where
  "written ev port = concat (map (\<lambda>e. case e of Out8 p v \<Rightarrow> (if p = port then [v] else []) | _ \<Rightarrow> []) ev)"

text \<open>The words written to a port, for the pointer of the bus master.\<close>

definition written32 :: "io_event list \<Rightarrow> u16 \<Rightarrow> u32 list" where
  "written32 ev port = concat (map (\<lambda>e. case e of Out32 p v \<Rightarrow> (if p = port then [v] else []) | _ \<Rightarrow> []) ev)"

lemma written_append [simp]: "written (ev @ ev') port = written ev port @ written ev' port"
  "written32 (ev @ ev') port = written32 ev port @ written32 ev' port"
  by (simp_all add: written_def written32_def)

definition le_nat :: "u8 list \<Rightarrow> nat" where
  "le_nat bs = foldr (\<lambda>b n. unat b + 256 * n) bs 0"

definition programmed_sector :: "bool \<Rightarrow> u16 \<Rightarrow> io_event list \<Rightarrow> nat" where
  "programmed_sector ext io ev =
     (let w = (\<lambda>p. rev (written ev (io + p)))
      in if ext then le_nat [w 3 ! 0, w 4 ! 0, w 5 ! 0, w 3 ! 1, w 4 ! 1, w 5 ! 1]
         else le_nat [w 3 ! 0, w 4 ! 0, w 5 ! 0, w 6 ! 0 AND 0x0f])"

definition programmed_count :: "bool \<Rightarrow> u16 \<Rightarrow> io_event list \<Rightarrow> nat" where
  "programmed_count ext io ev =
     (let w = rev (written ev (io + 2)) in if ext then le_nat [w ! 0, w ! 1] else le_nat [w ! 0])"

definition drdy :: "(('h, 'b) ata_state_scheme) ata_env \<Rightarrow> u16 \<Rightarrow> bool" where
  "drdy env port \<longleftrightarrow> (\<forall>log. (ucast (device env (log @ [In8 port])) :: u8) AND 0xc0 = 0x40)"

lemma drdy_wait:
  assumes "drdy env port"
  shows "ata_wait_drdy env port s = Some (s\<lparr>io_log := io_log s @ [In8 port]\<rparr>)"
proof -
  let ?st = "ucast (device env (io_log s @ [In8 port])) :: u8"
  have st: "?st AND 0xc0 = 0x40" using assms by (simp add: drdy_def)
  have "?st AND 0x80 = (?st AND 0xc0) AND 0x80" "?st AND 0x40 = (?st AND 0xc0) AND 0x40" by (simp_all add: and.assoc)
  then have "?st AND 0x80 = 0" "?st AND 0x40 = 0x40" unfolding st by simp_all
  then show ?thesis by (subst ata_wait_drdy.simps) (simp add: inb_io_def io_do_def)
qed

lemma unat_u8_and_ff: "unat (ucast (x AND 0xff) :: u8) = unat x mod 256" for x :: u64
  using unat_and_mask [of x 8] by (simp add: mask_eq_exp_minus_1 unsigned_ucast_eq take_bit_eq_mod)

lemma unat_u8_byte: "unat (ucast (drop_bit i x AND 0xff) :: u8) = unat x div 2 ^ i mod 256" for x :: u64
  by (simp only: unat_u8_and_ff unat_drop_bit)

lemma split_bytes: "n = n mod 256 + 256 * (n div 256 mod 256 + 256 * (n div 65536 mod 256 + 256 * (n div 16777216)))" for n :: nat
proof -
  define a b c where "a = n div 256" and "b = a div 256" and "c = b div 256"
  define x y z where "x = n mod 256" and "y = a mod 256" and "z = b mod 256"
  have "n = 256 * a + x" "a = 256 * b + y" "b = 256 * c + z" by (simp_all add: a_def b_def c_def x_def y_def z_def)
  then have "n = x + 256 * (y + 256 * (z + 256 * c))" by simp
  then show ?thesis by (simp add: a_def b_def c_def x_def y_def z_def div_mult2_eq [symmetric])
qed

lemma head_nibble: "(ucast (0x40 OR ucast (slave_bit d) OR (x AND 0x0f)) :: u8) AND 0x0f = ucast (x AND 0x0f)" for x :: u64
  by (cases "slave d") (simp_all add: slave_bit_def bit.conj_disj_distrib2 unsigned_or_eq unsigned_and_eq and.assoc)

lemma command_28:
  assumes "\<not> huge d" "drdy env (io_base d + 7)" "unat lba < 2 ^ 28"
  shows "\<exists>ev. ata_command env d lba n cmd cmd_ext s = Some (s\<lparr>io_log := io_log s @ ev @ [Out8 (io_base d + 7) cmd]\<rparr>) \<and>
    (\<forall>l. programmed_sector False (io_base d) (l @ ev) = unat lba \<and> programmed_count False (io_base d) (l @ ev) = unat n mod 256 \<and>
      (\<forall>p. written32 (l @ ev) p = written32 l p))"
proof -
  let ?io = "io_base d"
  let ?h = "ucast (0x40 OR ucast (slave_bit d) OR (drop_bit 24 lba AND 0x0f)) :: u8"
  let ?ev = "[Out8 (?io + 6) ?h, Out8 (?io + 2) (ucast n), Out8 (?io + 3) (ucast (lba AND 0xff)), Out8 (?io + 4) (ucast (drop_bit 8 lba AND 0xff)),
    Out8 (?io + 5) (ucast (drop_bit 16 lba AND 0xff)), In8 (?io + 7)]"
  have "ata_command env d lba n cmd cmd_ext s = Some (s\<lparr>io_log := io_log s @ ?ev @ [Out8 (?io + 7) cmd]\<rparr>)"
    using assms(1) by (simp add: ata_command_def drdy_wait [OF assms(2)] outb_io_def io_do_def Let_def)
  moreover have "unat (?h AND 0x0f) = unat lba div 16777216"
    unfolding head_nibble using unat_and_mask [of "drop_bit 24 lba" 4] assms(3)
    by (simp add: mask_eq_exp_minus_1 unsigned_ucast_eq take_bit_eq_mod unat_drop_bit less_mult_imp_div_less)
  then have "programmed_sector False ?io (l @ ?ev) = unat lba" for l
    using split_bytes [of "unat lba"] by (simp add: programmed_sector_def written_def le_nat_def unat_u8_byte unat_u8_and_ff unat_drop_bit)
  moreover have "written32 ?ev p = []" for p by (simp add: written32_def)
  moreover have "programmed_count False ?io (l @ ?ev) = unat n mod 256" for l
    by (simp add: programmed_count_def written_def le_nat_def unsigned_ucast_eq take_bit_eq_mod)
  ultimately show ?thesis by (intro exI [of _ ?ev]) simp
qed

lemma command_48:
  assumes "huge d" "drdy env (io_base d + 7)" "unat lba < 2 ^ 48"
  shows "\<exists>ev. ata_command env d lba n cmd cmd_ext s = Some (s\<lparr>io_log := io_log s @ ev @ [Out8 (io_base d + 7) cmd_ext]\<rparr>) \<and>
    (\<forall>l. programmed_sector True (io_base d) (l @ ev) = unat lba \<and> programmed_count True (io_base d) (l @ ev) = unat n mod 65536 \<and>
      (\<forall>p. written32 (l @ ev) p = written32 l p))"
proof -
  let ?io = "io_base d" and ?n = "unat lba"
  let ?h = "ucast (0x40 OR ucast (slave_bit d) OR (drop_bit 24 lba AND 0x0f)) :: u8"
  let ?ev = "[Out8 (?io + 6) ?h, Out8 (?io + 2) (ucast (drop_bit 8 n)), Out8 (?io + 3) (ucast (drop_bit 24 lba AND 0xff)),
    Out8 (?io + 4) (ucast (drop_bit 32 lba AND 0xff)), Out8 (?io + 5) (ucast (drop_bit 40 lba AND 0xff)), Out8 (?io + 2) (ucast (n AND 0xff)),
    Out8 (?io + 3) (ucast (lba AND 0xff)), Out8 (?io + 4) (ucast (drop_bit 8 lba AND 0xff)), Out8 (?io + 5) (ucast (drop_bit 16 lba AND 0xff)), In8 (?io + 7)]"
  have "ata_command env d lba n cmd cmd_ext s = Some (s\<lparr>io_log := io_log s @ ?ev @ [Out8 (?io + 7) cmd_ext]\<rparr>)"
    using assms(1) by (simp add: ata_command_def drdy_wait [OF assms(2)] outb_io_def io_do_def Let_def)
  moreover have "?n div 16777216 = ?n div 16777216 mod 256 + 256 * (?n div 4294967296 mod 256 + 256 * (?n div 1099511627776 mod 256))"
  proof -
    have "?n div 16777216 div 16777216 = 0" using assms(3) by (simp add: div_mult2_eq [symmetric])
    then show ?thesis using split_bytes [of "?n div 16777216"] by (simp add: div_mult2_eq [symmetric])
  qed
  then have "programmed_sector True ?io (l @ ?ev) = ?n" for l
    using split_bytes [of ?n] by (simp add: programmed_sector_def written_def le_nat_def unat_u8_byte unat_u8_and_ff unat_drop_bit)
  moreover have "written32 ?ev p = []" for p by (simp add: written32_def)
  moreover have "programmed_count True ?io (l @ ?ev) = unat n mod 65536" for l
  proof -
    have "unat n mod 65536 = unat n mod 256 + 256 * (unat n div 256 mod 256)" using mod_mult2_eq [of "unat n" 256 256] by simp
    then show ?thesis using unat_and_mask [of n 8]
      by (simp add: programmed_count_def written_def le_nat_def unsigned_ucast_eq take_bit_eq_mod unat_drop_bit mask_eq_exp_minus_1)
  qed
  ultimately show ?thesis by (intro exI [of _ ?ev]) simp
qed

lemma command_programs:
  assumes "drdy env (io_base d + 7)" "unat lba < (if huge d then 2 ^ 48 else 2 ^ 28)"
  shows "\<exists>ev. ata_command env d lba n cmd cmd_ext s =
      Some (s\<lparr>io_log := io_log s @ ev @ [Out8 (io_base d + 7) (if huge d then cmd_ext else cmd)]\<rparr>) \<and>
    (\<forall>l. programmed_sector (huge d) (io_base d) (l @ ev) = unat lba \<and>
      programmed_count (huge d) (io_base d) (l @ ev) = unat n mod (if huge d then 65536 else 256) \<and> (\<forall>p. written32 (l @ ev) p = written32 l p))"
proof (cases "huge d")
  case True
  then show ?thesis using assms command_48 [of d env lba n cmd cmd_ext s] by simp
next
  case False
  then show ?thesis using assms command_28 [of d env lba n cmd cmd_ext s] by simp
qed

text \<open>
  C20. For a device that is ready, the driver ends the programming of a transfer with the command for the kind of the disk, and the registers
  then hold the number of the first sector and the number of sectors that were asked for: below 2 to the power of 28 sectors with the short
  command and of 48 with the long one, the count modulo 256 and 65536, where 0 stands for the modulus.
\<close>

theorem ata_command_selects_sector:
  assumes "drdy env (io_base d + 7)" "unat lba < (if huge d then 2 ^ 48 else 2 ^ 28)"
  shows "\<exists>ev. ata_command env d lba n cmd cmd_ext s =
      Some (s\<lparr>io_log := io_log s @ ev @ [Out8 (io_base d + 7) (if huge d then cmd_ext else cmd)]\<rparr>) \<and>
    programmed_sector (huge d) (io_base d) ev = unat lba \<and>
    programmed_count (huge d) (io_base d) ev = unat n mod (if huge d then 65536 else 256)"
proof -
  obtain ev where ev: "ata_command env d lba n cmd cmd_ext s =
        Some (s\<lparr>io_log := io_log s @ ev @ [Out8 (io_base d + 7) (if huge d then cmd_ext else cmd)]\<rparr>)"
      "\<forall>l. programmed_sector (huge d) (io_base d) (l @ ev) = unat lba \<and>
        programmed_count (huge d) (io_base d) (l @ ev) = unat n mod (if huge d then 65536 else 256) \<and> (\<forall>p. written32 (l @ ev) p = written32 l p)"
    using command_programs [OF assms] by blast
  show ?thesis using ev(1) spec [OF ev(2), of "[]"] by auto
qed

theorem ata_command_selects_sector_witness:
  "\<exists>ev. ata_command ready_env (zero_drive\<lparr>huge := True\<rparr>) 0x123456789a 8 0xc8 0x25 ata_example =
      Some (ata_example\<lparr>io_log := io_log ata_example @ ev @ [Out8 7 0x25]\<rparr>) \<and>
    programmed_sector True 0 ev = 0x123456789a \<and> programmed_count True 0 ev = 8"
proof -
  have "drdy ready_env (io_base (zero_drive\<lparr>huge := True\<rparr>) + 7)" by (simp add: drdy_def ready_env_def)
  from ata_command_selects_sector [OF this, of "0x123456789a" 8 "0xc8" "0x25" ata_example]
  show ?thesis by (simp add: zero_drive_def io_base_def)
qed

subsection \<open>The end of a transfer\<close>

lemma api_unblock:
  assumes "api env = module_api call fops"
  shows "api env (MODULE_API_UNBLOCK_PID pid) s = map_option (\<lambda>h. (0, s\<lparr>pages_st := h\<rparr>)) (set_pid_unblocked pid (pages_st s))"
  using assms by (cases "set_pid_unblocked pid (pages_st s)") (simp_all add: module_api_def on_kernel_def)

text \<open>
  C19. The interrupt of a finished transfer stops the bus master, makes the thread that waits for it runnable, forgets it and releases the
  lock of the channel, also when the controller reports an error; an interrupt that the bus master did not raise changes nothing
  but the record of port accesses.
\<close>

theorem int_handler_finishes_transfer:
  assumes env: "api env = module_api call fops" and idx: "transferring_disk_index s < 32"
    and d: "d = drives s (transferring_disk_index s)"
    and status: "status = (ucast (device env (io_log s @ [In8 (bm_base d + 2)])) :: u8)"
    and unblock: "set_pid_unblocked (transferring_pid s) (pages_st s) = Some h"
  shows "\<exists>log c t. int_handler env regs s = Some (regs,
      if status AND 4 = 0 then s\<lparr>io_log := io_log s @ log\<rparr>
      else s\<lparr>pages_st := h, io_log := io_log s @ log, transferring_disk_index := - 1, transferring_pid := 0, primary_ata_locked := 0,
             int_count := c, int_tsc := t\<rparr>) \<and> (status AND 4 \<noteq> 0 \<longrightarrow> Out8 (bm_base d) 0 \<in> set log)"
proof -
  have ne: "transferring_disk_index s \<noteq> - 1" using idx by auto
  show ?thesis
  proof (cases "status AND 4 = 0")
    case True
    then show ?thesis using ne idx status d
      by (intro exI [of _ "[In8 (bm_base d + 2)]"] exI) (simp add: int_handler_def get_drive_def inb_io_def io_do_def Let_def)
  next
    case False
    note ports = int_handler_def get_drive_def inb_io_def outb_io_def rdtsc_def io_do_def finish_transfer_def Let_def api_unblock [OF env]
    show ?thesis
    proof (cases "status AND 2 = 0")
      case True
      let ?log = "[In8 (bm_base d + 2), Out8 (bm_base d) 0, In8 (io_base d + 7), Out8 (bm_base d + 2) (status AND 6), Out8 0x70 0x80, In8 0x71,
        Out8 0x70 0x82, In8 0x71, Rdtsc]"
      show ?thesis using True False ne idx status d unblock
        by (intro exI [of _ ?log] exI [of _ "int_count s + 1"] exI [of _ "device env (io_log s @ ?log)"]) (simp add: ports)
    next
      case err: False
      let ?log = "[In8 (bm_base d + 2), Out8 (bm_base d) 0, In8 (io_base d + 7), Out8 (bm_base d + 2) (status AND 6)]"
      show ?thesis using err False ne idx status d unblock
        by (intro exI [of _ ?log] exI [of _ "int_count s"] exI [of _ "int_tsc s"]) (simp add: ports)
    qed
  qed
qed

lemma dma_pages_unblock: "\<exists>h. set_pid_unblocked 9 dma_pages = Some h \<and> process_queue h 3 = 9"
  by (simp add: set_pid_unblocked_def upd_process_def add_process_queue_def add_process_queue_nolock_def spinlock_acquire_eq
      dma_pages_def int_example_def sched_example_def sched_state.defs mm_state.defs)

theorem int_handler_finishes_transfer_witness:
  "\<exists>s'. int_handler (ready_env\<lparr>device := (\<lambda>_. 4)\<rparr>) 0xff00 (ata_example\<lparr>transferring_disk_index := 0, transferring_pid := 9, primary_ata_locked := 1\<rparr>) =
      Some (0xff00, s') \<and> primary_ata_locked s' = 0 \<and> transferring_disk_index s' = - 1 \<and> process_queue (pages_st s') 3 = 9"
proof -
  let ?s = "ata_example\<lparr>transferring_disk_index := 0, transferring_pid := 9, primary_ata_locked := 1\<rparr>"
  obtain h where h: "set_pid_unblocked 9 dma_pages = Some h" "process_queue h 3 = 9" using dma_pages_unblock by blast
  have env: "api (ready_env\<lparr>device := (\<lambda>_. 4)\<rparr>) = module_api (\<lambda>h message args s. Some (- 1, s)) (\<lambda>_. no_fileops)" by (simp add: ready_env_def)
  have idx: "transferring_disk_index ?s < 32" by simp
  have un: "set_pid_unblocked (transferring_pid ?s) (pages_st ?s) = Some h" using h(1) by simp
  from int_handler_finishes_transfer [OF env idx refl refl un, of "0xff00"] show ?thesis using h(2) by auto
qed

subsection \<open>Detection\<close>

text \<open>The number of bits of the set of modes is one more than the highest mode: a disk with the Ultra DMA modes 0 to 5 is set to mode 6.\<close>

lemma best_dma_mode_too_high: "w ! 88 = 0x3f \<Longrightarrow> best_dma_mode w = 0x80 OR 6"
proof -
  have "bit_length_loop 0x3f 0 = 6" by code_simp
  then show "w ! 88 = 0x3f \<Longrightarrow> best_dma_mode w = 0x80 OR 6" by (simp add: best_dma_mode_def Let_def del: bit_length_loop.simps)
qed

text \<open>The status of a disk is a byte, so the test for -1 fails for every status: the descriptor of a disk that is not there stays reserved.\<close>

lemma drive_status_never_minus_one: "(ucast (status :: u8) :: u32) \<noteq> - 1"
proof
  assume "(ucast status :: u32) = - 1"
  then have "bit (ucast status :: u32) 31 = bit (- 1 :: u32) 31" by simp
  then show False using bit_imp_le_length [of status 31] by (simp add: bit_simps)
qed

subsection \<open>Reading at any length\<close>

text \<open>The size of a transfer: whole pages, or everything that is left when that is less than a page.\<close>

lemma chunk_size_bounds:
  assumes r: "0 < unat r" and mx: "mx = 0x20000 \<or> mx = 0x2000000"
  shows "0 < unat (chunk_size mx r)" "unat (chunk_size mx r) \<le> unat r"
    "unat (chunk_size mx r) < 4096 \<Longrightarrow> chunk_size mx r = r" "4096 \<le> unat (chunk_size mx r) \<Longrightarrow> unat (chunk_size mx r) mod 4096 = 0"
proof -
  define n where "n = min_u32 mx r"
  have n: "n \<le> r" "0 < unat n" "unat n < 4096 \<Longrightarrow> n = r"
    using r mx by (auto simp: n_def min_u32_def word_less_nat_alt word_le_nat_alt)
  have z: "n AND 0xfff = 0 \<longleftrightarrow> unat n mod 4096 = 0" using unat_and_fff [of n] by (metis unat_0 word_unat_eq_iff)
  have le: "n AND 0xfff \<le> n" using unat_and_fff [of n] by (simp add: word_le_nat_alt)
  have u: "unat (chunk_size mx r) = (if unat n mod 4096 \<noteq> 0 \<and> unat n > 4096 then unat n - unat n mod 4096 else unat n)"
    using unat_sub [OF le] z by (simp add: chunk_size_def n_def [symmetric] Let_def unat_and_fff word_less_nat_alt)
  have big: "4096 \<le> unat n - unat n mod 4096" if "unat n > 4096" using that by (metis div_greater_zero_iff less_imp_le minus_mod_eq_mult_div mult_le_cancel1 mult.right_neutral One_nat_def Suc_leI zero_less_numeral)
  show "0 < unat (chunk_size mx r)" using u n(2) big by auto
  show "unat (chunk_size mx r) \<le> unat r" using u n(1) by (auto simp: word_le_nat_alt)
  show "unat (chunk_size mx r) < 4096 \<Longrightarrow> chunk_size mx r = r" using u n(3) big by (auto simp: word_unat_eq_iff split: if_splits)
  show "4096 \<le> unat (chunk_size mx r) \<Longrightarrow> unat (chunk_size mx r) mod 4096 = 0"
    using u by (auto simp: minus_mod_eq_mult_div split: if_splits)
qed

end
