(* ===== verification/AtaRead.thy ===== *)
theory AtaRead
  imports AtaDisk
begin

text \<open>
  Reading from a disk at any length (\<^verbatim>\<open>read_disk\<close> of \<^verbatim>\<open>src/kmodules/disk_driver.c\<close>): the request is cut into transfers of whole
  pages, and the rest goes through a page of its own.  The transfer is the parameter of \<open>read_with\<close>; the theorem
  assumes of it that it fills whole pages with the bytes of the disk.
\<close>

text \<open>
  What reading relies on: in states with \<open>I\<close> the transfer fills its pages, and one page can be allocated and freed; the pages that
  are allocated are in \<open>B\<close>.
\<close>

definition whole_pages :: "nat \<Rightarrow> nat" where
  "whole_pages n = 4096 * ((n + 4095) div 4096)"

definition same_files :: "('h, 'b) ata_state_scheme \<Rightarrow> ('h, 'b) ata_state_scheme \<Rightarrow> bool" where
  "same_files s s' \<longleftrightarrow> vfiles s' = vfiles s \<and> drives s' = drives s"

definition page_reader ::
    "(('h, 'b) ata_state_scheme) ata_env \<Rightarrow> (('h, 'b) ata_state_scheme) transfer \<Rightarrow> (nat \<Rightarrow> u8) \<Rightarrow> u32 set \<Rightarrow> (('h, 'b) ata_state_scheme \<Rightarrow> bool) \<Rightarrow> bool" where
  "page_reader env rd disk B I \<longleftrightarrow>
     (\<forall>f p off n s. I s \<longrightarrow> 0 < unat n \<longrightarrow> mapped (fmem s) p (whole_pages (unat n)) \<longrightarrow> (\<exists>r s'. rd f p off n s = Some (r, s') \<and> I s' \<and> same_files s s' \<and>
        fmem s' = overlay p (whole_pages (unat n)) (\<lambda>i. disk (unat off + i)) (fmem s))) \<and>
     (\<forall>s. I s \<longrightarrow> (\<exists>b s'. api env (MODULE_API_MALLOC 1) s = Some (b, s') \<and> b \<in> B \<and> I s' \<and> same_files s s' \<and> fmem s' = fmem s \<and> mapped (fmem s) b 4096)) \<and>
     (\<forall>s b. I s \<longrightarrow> b \<in> B \<longrightarrow> (\<exists>r s'. api env (MODULE_API_FREE b) s = Some (r, s') \<and> I s' \<and> same_files s s' \<and> fmem s' = fmem s)) \<and>
     (\<forall>s m. I s \<longrightarrow> dom (fmem s) \<subseteq> dom m \<longrightarrow> I (s\<lparr>fmem := m\<rparr>))"

lemma page_readerD:
  assumes "page_reader env rd disk B I" "I s"
  shows "0 < unat n \<Longrightarrow> mapped (fmem s) p (whole_pages (unat n)) \<Longrightarrow> \<exists>r s'. rd f p off n s = Some (r, s') \<and> I s' \<and> same_files s s' \<and>
        fmem s' = overlay p (whole_pages (unat n)) (\<lambda>i. disk (unat off + i)) (fmem s)"
    and "\<exists>b s'. api env (MODULE_API_MALLOC 1) s = Some (b, s') \<and> b \<in> B \<and> I s' \<and> same_files s s' \<and> fmem s' = fmem s \<and> mapped (fmem s) b 4096"
    and "b \<in> B \<Longrightarrow> \<exists>r s'. api env (MODULE_API_FREE b) s = Some (r, s') \<and> I s' \<and> same_files s s' \<and> fmem s' = fmem s"
    and "dom (fmem s) \<subseteq> dom m \<Longrightarrow> I (s\<lparr>fmem := m\<rparr>)"
  using assms by (auto simp: page_reader_def)

lemma same_files_trans: "same_files s s1 \<Longrightarrow> same_files s1 s2 \<Longrightarrow> same_files s s2"
  by (simp add: same_files_def)

text \<open>The bytes from \<open>k\<close> to \<open>n\<close> of the buffer are read; outside the buffer only the pages of \<open>B\<close> change.\<close>

definition range_read :: "(nat \<Rightarrow> u8) \<Rightarrow> u32 set \<Rightarrow> u32 \<Rightarrow> nat \<Rightarrow> nat \<Rightarrow> nat \<Rightarrow> bmem \<Rightarrow> bmem \<Rightarrow> bool" where
  "range_read disk B ptr off k n m m' \<longleftrightarrow>
     (\<forall>i. k \<le> i \<longrightarrow> i < n \<longrightarrow> m' (ptr + of_nat i) = Some (disk (off + i))) \<and>
     (\<forall>a. \<not> span (ptr + of_nat k) (n - k) a \<longrightarrow> (\<forall>b\<in>B. \<not> span b 4096 a) \<longrightarrow> m' a = m a) \<and>
     (\<forall>q j. mapped m q j \<longrightarrow> mapped m' q j)"

lemma range_read_step:
  assumes 1: "range_read disk B ptr off k l m m1" and 2: "range_read disk B ptr off l n m1 m2"
    and kln: "k \<le> l" "l \<le> n" "n < 2 ^ 32" and B: "\<forall>b\<in>B. apart ptr n b 4096"
  shows "range_read disk B ptr off k n m m2"
  unfolding range_read_def
proof (intro conjI allI impI)
  fix i
  assume i: "k \<le> i" "i < n"
  show "m2 (ptr + of_nat i) = Some (disk (off + i))"
  proof (cases "l \<le> i")
    case True
    then show ?thesis using 2 i by (simp add: range_read_def)
  next
    case False
    then have "\<not> span (ptr + of_nat l) (n - l) (ptr + of_nat i)" using kln by (intro span_before) simp_all
    moreover have "\<forall>b\<in>B. \<not> span b 4096 (ptr + of_nat i)" using B i(2) by (simp add: apart_def)
    ultimately have "m2 (ptr + of_nat i) = m1 (ptr + of_nat i)" using 2 by (simp add: range_read_def)
    then show ?thesis using 1 i False by (simp add: range_read_def)
  qed
next
  fix a
  assume a: "\<not> span (ptr + of_nat k) (n - k) a" "\<forall>b\<in>B. \<not> span b 4096 a"
  have "\<not> span (ptr + of_nat k) (l - k) a" using a(1) kln by (auto simp: span_def)
  moreover have le: "n - k \<le> 2 ^ 32" "l - k + (n - l) \<le> n - k" using kln by simp_all
  have "ptr + of_nat k + of_nat (l - k) = ptr + of_nat l" using kln(1) by (simp add: of_nat_diff)
  then have "\<not> span (ptr + of_nat l) (n - l) a" using a(1) span_shift [OF _ le(2,1), of "ptr + of_nat k" a] by metis
  ultimately show "m2 a = m a" using 1 2 a(2) by (simp add: range_read_def)
next
  fix q j
  assume "mapped m q j"
  then show "mapped m2 q j" using 1 2 by (simp add: range_read_def)
qed

lemma whole_pages_id: "n mod 4096 = 0 \<Longrightarrow> whole_pages n = n"
  by (auto simp: whole_pages_def elim!: dvdE simp: mod_eq_0_iff_dvd)

lemma range_read_overlay:
  assumes m': "m' = overlay (ptr + of_nat k) c (\<lambda>i. disk (off + k + i)) m0" and m0: "\<forall>a. (\<forall>b\<in>B. \<not> span b 4096 a) \<longrightarrow> m0 a = m a"
    "\<forall>q j. mapped m q j \<longrightarrow> mapped m0 q j" and c: "c \<le> 2 ^ 32"
  shows "range_read disk B ptr off k (k + c) m m'"
  unfolding range_read_def m'
proof (intro conjI allI impI)
  fix i
  assume i: "k \<le> i" "i < k + c"
  then have "ptr + of_nat i = ptr + of_nat k + of_nat (i - k)" by (simp add: of_nat_diff)
  then have "overlay (ptr + of_nat k) c (\<lambda>i. disk (off + k + i)) m0 (ptr + of_nat i) = Some (disk (off + k + (i - k)))"
    using i c by (simp only: overlay_at)
  then show "overlay (ptr + of_nat k) c (\<lambda>i. disk (off + k + i)) m0 (ptr + of_nat i) = Some (disk (off + i))" using i by simp
qed (use m0 in \<open>simp_all add: overlay_off mapped_overlay\<close>)

lemma unat_u64_of_u32: "unat (ucast c :: u64) = unat c" for c :: u32
  using unat_u32_less [of c] by (simp add: unsigned_ucast_eq take_bit_nat_eq_self)

lemma chunk_read:
  assumes rdr: "page_reader env rd disk B I" "I s" and c: "0 < unat c" "unat c < 4096 \<or> unat c mod 4096 = 0"
    and k: "unat pos + unat c \<le> n" "n < 2 ^ 32" "unat off + n < 2 ^ 64" and m: "mapped (fmem s) ptr n"
    and B: "\<forall>b\<in>B. apart b 4096 ptr n"
  shows "\<exists>s'. read_chunk env rd file_ptr ptr off pos c s = Some s' \<and> I s' \<and> same_files s s' \<and>
    range_read disk B ptr (unat off) (unat pos) (unat pos + unat c) (fmem s) (fmem s')"
proof -
  let ?k = "unat pos" and ?c = "unat c" and ?d = "\<lambda>i. disk (unat off + unat pos + i)"
  have pos: "unat (off + pos) = unat off + ?k" using k by (simp add: unat_word_ariths)
  have dst: "mapped (fmem s) (ptr + of_nat ?k) ?c" by (rule mapped_part [OF m k(1)])
  have c32: "?c \<le> 2 ^ 32" using k by simp
  show ?thesis
  proof (cases "?c < 4096")
    case True
    obtain b s1 where s1: "api env (MODULE_API_MALLOC 1) s = Some (b, s1)" "b \<in> B" "I s1" "same_files s s1" "fmem s1 = fmem s" "mapped (fmem s) b 4096"
      using page_readerD(2) [OF rdr] by blast
    obtain r s2 where s2: "rd file_ptr b (off + pos) 4096 s1 = Some (r, s2)" "I s2" "same_files s1 s2" "fmem s2 = overlay b 4096 ?d (fmem s)"
      using page_readerD(1) [OF rdr(1) s1(3), of 4096 b file_ptr "off + pos"] s1(5,6) pos by (auto simp: whole_pages_def)
    have "copy_bytes b (ptr + of_nat ?k) ?c (fmem s2) = Some (overlay (ptr + of_nat ?k) ?c ?d (fmem s2))"
    proof (rule copy_bytes_overlay)
      show "mapped (fmem s2) (ptr + of_nat ?k) ?c" unfolding s2(4) by (rule mapped_overlay [OF dst])
      have "apart (b + of_nat 0) ?c (ptr + of_nat ?k) ?c" using B s1(2) True k by (intro apart_part) auto
      then show "apart b ?c (ptr + of_nat ?k) ?c" by simp
    qed (use True s2(4) in simp_all)
    moreover define s2' where "s2' = s2\<lparr>fmem := overlay (ptr + of_nat ?k) ?c ?d (fmem s2)\<rparr>"
    have "I s2'" unfolding s2'_def by (rule page_readerD(4) [OF rdr(1) s2(2)]) (auto simp: overlay_def)
    then obtain r' s3 where s3: "api env (MODULE_API_FREE b) s2' = Some (r', s3)" "I s3" "same_files s2' s3" "fmem s3 = fmem s2'"
      using page_readerD(3) [OF rdr(1) _ s1(2)] by blast
    ultimately have "read_chunk env rd file_ptr ptr off pos c s = Some s3"
      using True s1(1) s2(1) s3(1) by (simp add: read_chunk_def on_mem_def word_less_nat_alt s2'_def)
    moreover have "range_read disk B ptr (unat off) ?k (?k + ?c) (fmem s) (fmem s3)"
    proof (rule range_read_overlay)
      show "fmem s3 = overlay (ptr + of_nat ?k) ?c ?d (fmem s2)" by (simp add: s3(4) s2'_def)
    qed (use s1(2) s2(4) c32 in \<open>simp_all add: overlay_off mapped_overlay\<close>)
    moreover have "same_files s s3" using s1(4) s2(3) s3(3) by (simp add: same_files_def s2'_def)
    ultimately show ?thesis using s3(2) by (intro exI conjI)
  next
    case False
    then have wp: "whole_pages ?c = ?c" using c(2) by (simp add: whole_pages_id)
    obtain r s' where s': "rd file_ptr (ptr + of_nat ?k) (off + pos) (ucast c) s = Some (r, s')" "I s'" "same_files s s'"
        "fmem s' = overlay (ptr + of_nat ?k) ?c ?d (fmem s)"
      using page_readerD(1) [OF rdr, of "ucast c" "ptr + of_nat ?k" file_ptr "off + pos"] c(1) dst wp pos unat_u64_of_u32 [of c] by auto
    have "read_chunk env rd file_ptr ptr off pos c s = Some s'"
      using False s'(1) by (simp add: read_chunk_def word_less_nat_alt)
    moreover have "range_read disk B ptr (unat off) ?k (?k + ?c) (fmem s) (fmem s')" by (rule range_read_overlay [OF s'(4)]) (use c32 in simp_all)
    ultimately show ?thesis using s'(2,3) by blast
  qed
qed

lemma loop_read:
  assumes rdr: "page_reader env rd disk B I" and mx: "mx = 0x20000 \<or> mx = 0x2000000"
    and n: "unat cnt < 2 ^ 32" "unat off + unat cnt < 2 ^ 64"
    and B: "\<forall>b\<in>B. apart b 4096 ptr (unat cnt) \<and> apart ptr (unat cnt) b 4096"
  shows "unat r \<le> unat cnt \<Longrightarrow> I s \<Longrightarrow> mapped (fmem s) ptr (unat cnt) \<Longrightarrow>
    \<exists>s'. read_disk_loop env rd file_ptr ptr off cnt mx r s = Some s' \<and> I s' \<and> same_files s s' \<and>
      range_read disk B ptr (unat off) (unat cnt - unat r) (unat cnt) (fmem s) (fmem s')"
proof (induction "unat r" arbitrary: r s rule: less_induct)
  case less
  let ?N = "unat cnt"
  show ?case
  proof (cases "unat r = 0")
    case True
    then have "r = 0" by (simp add: unat_eq_0)
    then show ?thesis using less.prems by (subst read_disk_loop.simps) (simp add: same_files_def range_read_def)
  next
    case False
    define c where "c = chunk_size mx r"
    define pos where "pos = cnt - ucast r"
    have r: "0 < unat r" using False by simp
    have c: "0 < unat c" "unat c \<le> unat r" "unat c < 4096 \<or> unat c mod 4096 = 0"
      unfolding c_def using chunk_size_bounds(1,2) [OF r mx] chunk_size_bounds(4) [OF r mx] by (simp, simp, meson not_le)
    have pos: "unat pos = ?N - unat r" using less.prems(1) unat_u64_of_u32 [of r] by (simp add: pos_def unat_sub word_le_nat_alt)
    have "unat pos + unat c \<le> ?N" using pos c(2) less.prems(1) by linarith
    from chunk_read [OF rdr less.prems(2) c(1,3) this n less.prems(3)] B obtain s1 where s1:
      "read_chunk env rd file_ptr ptr off pos c s = Some s1" "I s1" "same_files s s1"
      "range_read disk B ptr (unat off) (unat pos) (unat pos + unat c) (fmem s) (fmem s1)" by blast
    have rc: "unat (r - c) = unat r - unat c" using c(2) by (simp add: unat_sub word_le_nat_alt)
    have "mapped (fmem s1) ptr ?N" using s1(4) less.prems(3) by (simp add: range_read_def)
    moreover have "unat (r - c) < unat r" "unat (r - c) \<le> ?N" using rc c(1,2) less.prems(1) by linarith+
    ultimately obtain s2 where s2: "read_disk_loop env rd file_ptr ptr off cnt mx (r - c) s1 = Some s2" "I s2" "same_files s1 s2"
      "range_read disk B ptr (unat off) (?N - unat (r - c)) ?N (fmem s1) (fmem s2)"
      using less.hyps [of "r - c" s1] s1(2) by blast
    have eq: "?N - unat (r - c) = unat pos + unat c" using rc pos c(2) less.prems(1) by simp
    have "range_read disk B ptr (unat off) (unat pos) ?N (fmem s) (fmem s2)"
      by (rule range_read_step [OF s1(4) s2(4) [unfolded eq]]) (use \<open>unat pos + unat c \<le> ?N\<close> n(1) B in simp_all)
    moreover have "read_disk_loop env rd file_ptr ptr off cnt mx r s = Some s2"
      using r s1(1) s2(1) by (subst read_disk_loop.simps) (simp add: c_def pos_def word_less_nat_alt Let_def)
    ultimately show ?thesis using s2(2) same_files_trans [OF s1(3) s2(3)] pos by auto
  qed
qed


text \<open>A disk whose bytes count up, with pages that come from one place.\<close>

definition plain_read :: "int_state ata_state transfer" where
  "plain_read f p off n s = Some (0, s\<lparr>fmem := overlay p (whole_pages (unat n)) (\<lambda>i. of_nat (unat off + i)) (fmem s)\<rparr>)"

definition plain_env :: "int_state ata_state ata_env" where
  "plain_env = ready_env\<lparr>api := (\<lambda>call s. Some (0x8000000, s))\<rparr>"

lemma plain_reader: "page_reader plain_env plain_read (\<lambda>i. of_nat i) {0x8000000} (\<lambda>s. \<forall>a. fmem s a \<noteq> None)"
  by (auto simp: page_reader_def plain_read_def plain_env_def same_files_def mapped_def overlay_def)


text \<open>
  After an unaligned start in the first sector the buffer pointer is advanced although the later transfers still add the number of bytes already
  read to it: the bytes after the first sector land twice as far from the start of the buffer as they belong.
\<close>

lemma unaligned_read_leaves_gap:
  assumes off: "0 < unat off" "unat off < 512" and cnt: "512 - unat off < unat cnt" "unat cnt < 2 ^ 32"
    and res: "read_unaligned env rd file_ptr ptr off cnt s = Some (Some (p, r), s')"
  shows "unat (cnt - ucast r) = 512 - unat off" "p + ucast (cnt - ucast r) = ptr + of_nat (2 * (512 - unat off))"
proof -
  define k where "k = 0x200 - off"
  have k: "unat k = 512 - unat off" using off by (simp add: k_def unat_sub word_le_nat_alt)
  have low: "off AND 0x1ff = off" using off(2) unat_and_mask [of off 9] by (simp add: word_unat_eq_iff mask_eq_exp_minus_1)
  have "off \<noteq> 0" using off(1) by auto
  then have p: "p = ptr + ucast k" and r: "r = ucast cnt - ucast k"
    using res low by (auto simp: read_unaligned_def k_def Let_def split: if_splits bind_splits)
  have u: "unat (ucast cnt :: u32) = unat cnt" "unat (ucast k :: u32) = unat k"
    using cnt k by (simp_all add: unsigned_ucast_eq take_bit_nat_eq_self)
  then have "unat r = unat cnt - unat k" using cnt k by (simp add: r unat_sub word_le_nat_alt)
  then show c: "unat (cnt - ucast r) = 512 - unat off"
    using cnt(1) k unat_u64_of_u32 [of r] by (simp add: unat_sub word_le_nat_alt)
  then have "cnt - ucast r = k" using k by (simp add: word_unat_eq_iff)
  moreover have "(ucast k :: u32) = of_nat (512 - unat off)" using u(2) k by (simp add: word_unat_eq_iff unat_of_nat_lt del: of_nat_diff)
  ultimately show "p + ucast (cnt - ucast r) = ptr + of_nat (2 * (512 - unat off))" by (simp only: p mult_2 of_nat_add add.assoc)
qed

end
