(* ===== verification/Elf.thy ===== *)
theory Elf
  imports Vfs
begin

text \<open>
  The loader of ELF files (\<^verbatim>\<open>src/kernel/system/elf.c\<close>, \<^verbatim>\<open>elf.h\<close>): \<^verbatim>\<open>load_elf_dynamic\<close> places a shared object, the form of a
  module, into fresh kernel pages; \<^verbatim>\<open>load_elf\<close> maps the segments of a program at their own addresses.

  Headers are read from the bytes of the file in memory.  \<open>fmem\<close> holds the bytes of the address space; when
  \<^verbatim>\<open>load_segment_static\<close> maps a page, the bytes of its frame become visible, whose contents \<open>frame\<close> gives.  Printing is left
  out, the read of the word at the entry point for it is not.

  The property shows that a shared object is loaded as its program header says; a program segment that does not
  begin at a page boundary makes the static loader touch a page that it has not mapped.
\<close>

subsection \<open>Data\<close>

record elf_header_t =
  e_magic :: u32
  e_bits :: u8
  e_endianness :: u8
  e_type :: u16
  entry_offset :: u32
  program_header_offset :: u32
  program_entry_size :: u16
  program_entry_count :: u16

record program_entry_t =
  p_type :: u32
  data_offset :: u32
  p_vaddr :: u32
  p_fsize :: u32
  p_msize :: u32
  p_flags :: u32

abbreviation (input) ELF_SIG :: u32 where "ELF_SIG \<equiv> 0x464c457f"
abbreviation (input) ELF_BITS_32 :: u8 where "ELF_BITS_32 \<equiv> 1"
abbreviation (input) ELF_ENDIAN_BIG :: u8 where "ELF_ENDIAN_BIG \<equiv> 2"
abbreviation (input) ELF_TYPE_SHARED :: u16 where "ELF_TYPE_SHARED \<equiv> 3"
abbreviation (input) ELF_TYPE_CORE :: u16 where "ELF_TYPE_CORE \<equiv> 4"
abbreviation (input) PROG_ENT_LOAD :: u32 where "PROG_ENT_LOAD \<equiv> 1"

definition header_at :: "bmem \<Rightarrow> u32 \<Rightarrow> elf_header_t option" where
  "header_at m p = do {
     mg \<leftarrow> rd32 m p;
     bits \<leftarrow> m (p + 4);
     en \<leftarrow> m (p + 5);
     ty \<leftarrow> rd16 m (p + 16);
     entry \<leftarrow> rd32 m (p + 24);
     off \<leftarrow> rd32 m (p + 28);
     sz \<leftarrow> rd16 m (p + 42);
     cnt \<leftarrow> rd16 m (p + 44);
     Some \<lparr>e_magic = mg, e_bits = bits, e_endianness = en, e_type = ty, entry_offset = entry, program_header_offset = off,
       program_entry_size = sz, program_entry_count = cnt\<rparr>
   }"

definition program_entry_at :: "bmem \<Rightarrow> u32 \<Rightarrow> program_entry_t option" where
  "program_entry_at m p = do {
     ty \<leftarrow> rd32 m p;
     off \<leftarrow> rd32 m (p + 4);
     va \<leftarrow> rd32 m (p + 8);
     fs \<leftarrow> rd32 m (p + 16);
     ms \<leftarrow> rd32 m (p + 20);
     fl \<leftarrow> rd32 m (p + 24);
     Some \<lparr>p_type = ty, data_offset = off, p_vaddr = va, p_fsize = fs, p_msize = ms, p_flags = fl\<rparr>
   }"

subsection \<open>Shared objects\<close>

definition load_segment_dynamic :: "program_entry_t \<Rightarrow> u32 \<Rightarrow> u32 \<Rightarrow> bmem \<Rightarrow> bmem option" where
  "load_segment_dynamic e file_data base_segment m =
     (if p_type e = PROG_ENT_LOAD
      then do {
        h \<leftarrow> header_at m file_data;
        if e_type h = ELF_TYPE_SHARED
        then do {
          let segment = base_segment + p_vaddr e;
          m \<leftarrow> memclr_b segment (p_msize e) m;
          copy_bytes (file_data + data_offset e) segment (unat (p_fsize e)) m
        }
        else Some m
      }
      else Some m)"

definition elf_limit :: "program_entry_t list \<Rightarrow> u32" where
  "elf_limit es = foldl (\<lambda>l e. unsigned_max l (p_vaddr e + p_msize e)) 0 es"

primrec read_entries :: "bmem \<Rightarrow> u32 \<Rightarrow> nat \<Rightarrow> program_entry_t list option" where
  "read_entries m p 0 = Some []"
| "read_entries m p (Suc n) = do { e \<leftarrow> program_entry_at m p; es \<leftarrow> read_entries m (p + 32) n; Some (e # es) }"

definition load_elf_dynamic ::
    "'h allocator \<Rightarrow> u32 \<Rightarrow> ('h, 'b) fs_state_scheme \<Rightarrow> (u32 \<times> ('h, 'b) fs_state_scheme) option" where
  "load_elf_dynamic alloc file_data s = do {
     h \<leftarrow> header_at (fmem s) file_data;
     if e_magic h \<noteq> ELF_SIG \<or> e_type h = ELF_TYPE_CORE then Some (0, s)
     else do {
       let ph = file_data + program_header_offset h;
       let n = unat (program_entry_count h);
       es \<leftarrow> read_entries (fmem s) ph n;
       (base, s) \<leftarrow> kalloc alloc ((elf_limit es + PAGE_SIZE_BYTES - 1) div PAGE_SIZE_BYTES) s;
       m \<leftarrow> fold_opt (\<lambda>i m. do { e \<leftarrow> program_entry_at m (ph + of_nat i * 32); load_segment_dynamic e file_data base m }) [0..<n] (fmem s);
       h \<leftarrow> header_at m file_data;
       Some (base + entry_offset h, s\<lparr>fmem := m\<rparr>)
     }
   }"

subsection \<open>Programs\<close>

text \<open>A page that has been mapped shows the contents of its frame.\<close>

definition show_page :: "(u32 \<Rightarrow> u8) \<Rightarrow> u32 \<Rightarrow> bmem \<Rightarrow> bmem" where
  "show_page frame va m = (\<lambda>a. if drop_bit 12 a = drop_bit 12 va then Some (frame a) else m a)"

definition load_segment_static ::
    "(u32 \<Rightarrow> ('x mm_state_scheme, 'b) fs_state_scheme fileops_t) \<Rightarrow> (u32 \<Rightarrow> u32 \<Rightarrow> u8) \<Rightarrow> u32 \<Rightarrow> program_entry_t \<Rightarrow>
     ('x mm_state_scheme, 'b) fs_state_scheme \<Rightarrow> ('x mm_state_scheme, 'b) fs_state_scheme option" where
  "load_segment_static fops frame file e s =
     (if p_type e \<noteq> PROG_ENT_LOAD then Some s
      else do {
        let fl = PT_PRESENT OR PT_USER OR (if p_flags e AND 2 \<noteq> 0 then PT_USER_RW else 0);
        s \<leftarrow> fold_opt (\<lambda>i s. do {
            let va = p_vaddr e + of_nat i * PAGE_SIZE_BYTES;
            (pa, h) \<leftarrow> pm_alloc (pages_st s);
            h \<leftarrow> map_page va pa fl h;
            m \<leftarrow> memclr_b va PAGE_SIZE_BYTES (show_page (frame pa) va (fmem s));
            Some (s\<lparr>pages_st := h, fmem := m\<rparr>)
          }) [0..<unat ((p_msize e + PAGE_SIZE_BYTES - 1) div PAGE_SIZE_BYTES)] s;
        (r, s) \<leftarrow> fread fops file (p_vaddr e) (ucast (data_offset e)) (ucast (p_fsize e)) s;
        Some s
      })"

definition load_elf ::
    "(u32 \<Rightarrow> ('x mm_state_scheme, 'b) fs_state_scheme fileops_t) \<Rightarrow> (u32 \<Rightarrow> u32 \<Rightarrow> u8) \<Rightarrow> u32 \<Rightarrow>
     ('x mm_state_scheme, 'b) fs_state_scheme \<Rightarrow> (u32 \<times> ('x mm_state_scheme, 'b) fs_state_scheme) option" where
  "load_elf fops frame file s = do {
     (file_data, s) \<leftarrow> kalloc kmalloc 1 s;
     (r, s) \<leftarrow> fread fops file file_data 0 52 s;
     h \<leftarrow> header_at (fmem s) file_data;
     if e_magic h \<noteq> ELF_SIG \<or> e_type h = ELF_TYPE_CORE \<or> e_endianness h = ELF_ENDIAN_BIG \<or> e_bits h \<noteq> ELF_BITS_32
     then do { s \<leftarrow> krelease kfree file_data s; Some (0, s) }
     else do {
       let n = (ucast (program_entry_count h) * ucast (program_entry_size h) :: u32);
       (ph, s) \<leftarrow> kalloc kmalloc ((n + PAGE_SIZE_BYTES - 1) div PAGE_SIZE_BYTES) s;
       (r, s) \<leftarrow> fread fops file ph (ucast (program_header_offset h)) (ucast n) s;
       s \<leftarrow> fold_opt (\<lambda>i s. do {
           e \<leftarrow> program_entry_at (fmem s) (ph + of_nat i * 32);
           load_segment_static fops frame file e s
         }) [0..<unat (program_entry_count h)] s;
       h \<leftarrow> header_at (fmem s) file_data;
       code \<leftarrow> rd32 (fmem s) (entry_offset h);
       Some (entry_offset h, s)
     }
   }"

subsection \<open>Loading a shared object\<close>

text \<open>A region of memory is cleared.\<close>

lemma wr32_zero:
  assumes "mapped m p 4"
  shows "wr32 p 0 m = Some (overlay p 4 (\<lambda>_. 0) m)"
proof -
  have "word_mapped m p"
    using mapped_at [OF assms, of 0] mapped_at [OF assms, of 1] mapped_at [OF assms, of 2] mapped_at [OF assms, of 3]
    by (simp add: word_mapped_def)
  from wr32_total [OF this, of 0] show ?thesis by (simp add: overlay_def fun_eq_iff span_word)
qed

lemma memclr_overlay:
  assumes "mapped m p (unat n)"
  shows "memclr_b p n m = Some (overlay p (unat n) (\<lambda>_. 0) m)"
proof (cases "n mod 4 = 0")
  case True
  have "unat n mod 4 = 0" using arg_cong [OF True, of unat] by (simp add: unat_mod)
  then have n: "4 * unat (n div 4) = unat n" by (simp add: unat_div mult.commute) presburger
  have "\<exists>m'. fold_opt (\<lambda>i. wr32 (p + of_nat i * 4) 0) [0..<unat (n div 4)] m = Some m' \<and>
      m' = overlay p (4 * unat (n div 4)) (\<lambda>_. 0) m"
  proof (rule fold_opt_invariant [where P = "\<lambda>i m'. m' = overlay p (4 * i) (\<lambda>_. 0) m"])
    fix i m'
    assume i: "i < unat (n div 4)" "m' = overlay p (4 * i) (\<lambda>_. 0) m"
    have lim: "4 * i + 4 \<le> unat n" using i(1) n by linarith
    have "mapped m' (p + of_nat (4 * i)) 4" unfolding i(2) by (intro mapped_overlay mapped_part [OF assms] lim)
    from wr32_zero [OF this] have "wr32 (p + of_nat i * 4) 0 m' = Some (overlay (p + of_nat (4 * i)) 4 (\<lambda>_. 0) m')"
      by (simp add: mult.commute)
    moreover have "overlay (p + of_nat (4 * i)) 4 (\<lambda>_. 0) m' = overlay p (4 * i + 4) (\<lambda>_. 0) m"
      unfolding i(2) using lim unat_u32_less [of n] by (subst overlay_append) (auto intro: overlay_cong)
    ultimately show "\<exists>m''. wr32 (p + of_nat i * 4) 0 m' = Some m'' \<and> m'' = overlay p (4 * Suc i) (\<lambda>_. 0) m"
      by (simp add: add.commute)
  qed simp
  then show ?thesis using True n by (simp add: memclr_b_def)
next
  case False
  have "fold_opt (\<lambda>i. wr (p + of_nat i) 0) [0..<unat n] m = Some (overlay p (unat n) (\<lambda>_. 0) m)"
    using unat_u32_less [of n] by (intro fill_loop [OF assms]) simp_all
  with False show ?thesis by (simp add: memclr_b_def)
qed

lemma rd32_cong:
  assumes "\<And>i. i < 4 \<Longrightarrow> m' (p + of_nat i) = m (p + of_nat i)"
  shows "rd32 m' p = rd32 m p"
  using assms [of 0] assms [of 1] assms [of 2] assms [of 3] by (intro rd32_frame) simp_all

lemma header_at_cong:
  assumes "\<And>i. i < 48 \<Longrightarrow> m' (p + of_nat i) = m (p + of_nat i)"
  shows "header_at m' p = header_at m p"
proof -
  have r: "rd32 m' (p + of_nat a) = rd32 m (p + of_nat a)" if "a + 4 \<le> 48" for a
    using that assms [of "a + _"] by (intro rd32_cong) (simp add: add.assoc)
  have h: "rd16 m' (p + of_nat a) = rd16 m (p + of_nat a)" if "a + 2 \<le> 48" for a
    using that assms [of a] assms [of "a + 1"] by (simp add: rd16_def add.assoc add.commute [of 1])
  show ?thesis using r [of 0] r [of 24] r [of 28] h [of 16] h [of 42] h [of 44] assms [of 4] assms [of 5]
    by (simp add: header_at_def)
qed

lemma program_entry_at_cong:
  assumes "\<And>i. i < 32 \<Longrightarrow> m' (p + of_nat i) = m (p + of_nat i)"
  shows "program_entry_at m' p = program_entry_at m p"
proof -
  have r: "rd32 m' (p + of_nat a) = rd32 m (p + of_nat a)" if "a + 4 \<le> 32" for a
    using that assms [of "a + _"] by (intro rd32_cong) (simp add: add.assoc)
  show ?thesis using r [of 0] r [of 4] r [of 8] r [of 16] r [of 20] r [of 24] by (simp add: program_entry_at_def)
qed

text \<open>What a segment looks like in memory once it is loaded from the file at \<open>fd\<close> in \<open>m\<close>.\<close>

definition segment_loaded :: "bmem \<Rightarrow> u32 \<Rightarrow> u32 \<Rightarrow> program_entry_t \<Rightarrow> bmem \<Rightarrow> bool" where
  "segment_loaded m fd base e m' \<longleftrightarrow> (\<forall>k<unat (p_msize e). m' (base + p_vaddr e + of_nat k) =
     (if k < unat (p_fsize e) then m (fd + data_offset e + of_nat k) else Some 0))"

text \<open>A segment that lies in the file image of \<open>n\<close> bytes and below the limit \<open>z\<close> of the memory image.\<close>

definition segment_ok :: "nat \<Rightarrow> nat \<Rightarrow> program_entry_t \<Rightarrow> bool" where
  "segment_ok n z e \<longleftrightarrow> p_fsize e \<le> p_msize e \<and> unat (data_offset e) + unat (p_fsize e) \<le> n \<and> unat (p_vaddr e) + unat (p_msize e) \<le> z"

definition segments_disjoint :: "program_entry_t \<Rightarrow> program_entry_t \<Rightarrow> bool" where
  "segments_disjoint a b \<longleftrightarrow> unat (p_vaddr a) + unat (p_msize a) \<le> unat (p_vaddr b) \<or> unat (p_vaddr b) + unat (p_msize b) \<le> unat (p_vaddr a)"

lemma load_segment:
  assumes e: "p_type e = PROG_ENT_LOAD" "segment_ok n z e" and h: "header_at m fd = Some h" "e_type h = ELF_TYPE_SHARED"
    and m: "mapped m base z" "mapped m fd n" "apart fd n base z" "z < 2 ^ 32" "n < 2 ^ 32"
  shows "\<exists>m'. load_segment_dynamic e fd base m = Some m' \<and> segment_loaded m fd base e m' \<and>
    (\<forall>a. \<not> span (base + p_vaddr e) (unat (p_msize e)) a \<longrightarrow> m' a = m a) \<and> (\<forall>q k. mapped m q k \<longrightarrow> mapped m' q k)"
proof -
  let ?p = "base + p_vaddr e" and ?ms = "unat (p_msize e)" and ?fs = "unat (p_fsize e)" and ?f = "fd + data_offset e"
  have lim: "?fs \<le> ?ms" "unat (data_offset e) + ?fs \<le> n" "unat (p_vaddr e) + ?ms \<le> z"
    using e(2) by (auto simp: segment_ok_def word_le_nat_alt)
  have p: "?p = base + of_nat (unat (p_vaddr e))" "?f = fd + of_nat (unat (data_offset e))" by simp_all
  have map: "mapped m ?p ?ms" unfolding p(1) by (rule mapped_part [OF m(1) lim(3)])
  define m1 where "m1 = overlay ?p ?ms (\<lambda>_. 0) m"
  have clr: "memclr_b ?p (p_msize e) m = Some m1" unfolding m1_def by (rule memclr_overlay [OF map])
  have ap: "apart ?f ?fs ?p ?ms" unfolding p using lim m(4) by (intro apart_part [OF m(3)]) simp_all
  define g where "g k = the (m (?f + of_nat k))" for k
  have src: "m (?f + of_nat k) = Some (g k)" if "k < ?fs" for k
  proof -
    have "m (fd + of_nat (unat (data_offset e) + k)) \<noteq> None" using lim that by (intro mapped_at [OF m(2)]) simp
    then show ?thesis by (auto simp: g_def add.assoc)
  qed
  have "copy_bytes ?f ?p ?fs m1 = Some (overlay ?p ?fs g m1)"
  proof (rule copy_bytes_overlay)
    show "mapped m1 ?p ?fs" using mapped_overlay [OF map] lim(1) by (auto simp: m1_def mapped_def)
    show "apart ?f ?fs ?p ?fs" by (rule apart_mono [OF ap order_refl lim(1)])
    fix k
    assume "k < ?fs"
    then show "m1 (?f + of_nat k) = Some (g k)"
      using src apart_off [OF ap _ order_refl, of k] by (simp add: m1_def overlay_off)
  qed (use unat_u32_less [of "p_fsize e"] in simp)
  then have "load_segment_dynamic e fd base m = Some (overlay ?p ?fs g m1)"
    using e(1) h clr by (simp add: load_segment_dynamic_def Let_def)
  moreover have "overlay ?p ?fs g m1 (?p + of_nat k) = (if k < ?fs then m (?f + of_nat k) else Some 0)" if "k < ?ms" for k
  proof -
    have "unat (of_nat k :: u32) = k" using that unat_u32_less [of "p_msize e"] by (intro unat_of_nat_lt) simp
    then show ?thesis using that src by (simp add: m1_def overlay_def span_def)
  qed
  moreover have "overlay ?p ?fs g m1 a = m a" if "\<not> span ?p ?ms a" for a
    using that lim(1) by (auto simp: m1_def overlay_def span_def)
  moreover have "mapped (overlay ?p ?fs g m1) q k" if "mapped m q k" for q k
    unfolding m1_def by (intro mapped_overlay that)
  ultimately show ?thesis by (auto simp: segment_loaded_def)
qed

lemma read_entries_nth:
  "read_entries m p n = Some es \<Longrightarrow> length es = n \<and> (\<forall>i<n. program_entry_at m (p + of_nat i * 32) = Some (es ! i))"
proof (induction n arbitrary: p es)
  case (Suc n)
  then obtain e fs where e: "program_entry_at m p = Some e" "read_entries m (p + 32) n = Some fs" "es = e # fs"
    by (auto split: bind_splits)
  have "program_entry_at m (p + of_nat i * 32) = Some (es ! i)" if "i < Suc n" for i
    using Suc.IH [OF e(2)] e that by (cases i) (simp_all add: algebra_simps)
  then show ?case using Suc.IH [OF e(2)] e(3) by simp
qed simp

lemma elf_limit_upper: "e \<in> set es \<Longrightarrow> p_vaddr e + p_msize e \<le> elf_limit es"
proof -
  let ?f = "\<lambda>l e. unsigned_max l (p_vaddr e + p_msize e)"
  have "l \<le> foldl ?f l es \<and> (\<forall>e\<in>set es. p_vaddr e + p_msize e \<le> foldl ?f l es)" for l
  proof (induction es arbitrary: l)
    case (Cons a es)
    have "l \<le> ?f l a" "p_vaddr a + p_msize a \<le> ?f l a" by (auto simp: unsigned_max_def)
    then show ?case using Cons.IH [of "?f l a"] by (auto intro: order_trans)
  qed simp
  then show "e \<in> set es \<Longrightarrow> p_vaddr e + p_msize e \<le> elf_limit es" by (simp add: elf_limit_def)
qed

definition loaded_upto :: "bmem \<Rightarrow> u32 \<Rightarrow> u32 \<Rightarrow> nat \<Rightarrow> program_entry_t list \<Rightarrow> nat \<Rightarrow> bmem \<Rightarrow> bool" where
  "loaded_upto m fd base z es i m' \<longleftrightarrow> (\<forall>j<i. p_type (es ! j) = PROG_ENT_LOAD \<longrightarrow> segment_loaded m fd base (es ! j) m') \<and>
     (\<forall>a. \<not> span base z a \<longrightarrow> m' a = m a) \<and> (\<forall>q k. mapped m q k \<longrightarrow> mapped m' q k)"

lemma loaded_step:
  assumes inv: "loaded_upto m fd base z es i m'" and i: "i < length es"
    and ok: "\<forall>e\<in>set es. p_type e = PROG_ENT_LOAD \<longrightarrow> segment_ok n z e"
    and dis: "\<forall>j<length es. \<forall>k<length es. j \<noteq> k \<longrightarrow> p_type (es ! j) = PROG_ENT_LOAD \<longrightarrow> p_type (es ! k) = PROG_ENT_LOAD \<longrightarrow>
      segments_disjoint (es ! j) (es ! k)"
    and h: "header_at m fd = Some h" "e_type h = ELF_TYPE_SHARED" "48 \<le> n"
    and m: "mapped m base z" "mapped m fd n" "apart fd n base z" "z < 2 ^ 32" "n < 2 ^ 32"
  shows "\<exists>m''. load_segment_dynamic (es ! i) fd base m' = Some m'' \<and> loaded_upto m fd base z es (Suc i) m''"
proof (cases "p_type (es ! i) = PROG_ENT_LOAD")
  case False
  then show ?thesis using inv by (auto simp: load_segment_dynamic_def loaded_upto_def less_Suc_eq)
next
  case True
  let ?e = "es ! i"
  have e: "segment_ok n z ?e" using ok i True by simp
  have img: "m' (fd + of_nat k) = m (fd + of_nat k)" if "k < n" for k
    using inv that m(3) by (simp add: loaded_upto_def apart_def)
  have hd: "header_at m' fd = Some h" using img h(1,3) header_at_cong [of m' fd m] by simp
  have mp: "mapped m' base z" "mapped m' fd n" using inv m(1,2) by (simp_all add: loaded_upto_def)
  from load_segment [OF True e hd h(2) mp m(3-5)] obtain m'' where m'':
    "load_segment_dynamic ?e fd base m' = Some m''" "segment_loaded m' fd base ?e m''"
    "\<forall>a. \<not> span (base + p_vaddr ?e) (unat (p_msize ?e)) a \<longrightarrow> m'' a = m' a" "\<forall>q k. mapped m' q k \<longrightarrow> mapped m'' q k" by blast
  have "m' (fd + data_offset ?e + of_nat k) = m (fd + data_offset ?e + of_nat k)" if "k < unat (p_fsize ?e)" for k
    using img [of "unat (data_offset ?e) + k"] that e by (simp add: segment_ok_def add.assoc)
  then have new: "segment_loaded m fd base ?e m''" using m''(2) by (simp add: segment_loaded_def)
  have old: "segment_loaded m fd base (es ! j) m''" if j: "j < i" "p_type (es ! j) = PROG_ENT_LOAD" for j
  proof -
    have lj: "segment_ok n z (es ! j)" "segments_disjoint (es ! j) ?e" "segment_loaded m fd base (es ! j) m'"
      using ok dis i j True inv by (auto simp: loaded_upto_def)
    have "\<not> span (base + p_vaddr ?e) (unat (p_msize ?e)) (base + p_vaddr (es ! j) + of_nat k)" if "k < unat (p_msize (es ! j))" for k
    proof -
      let ?x = "unat (p_vaddr (es ! j)) + k"
      have "unat (base + of_nat ?x - base) = ?x" using that lj(1) m(4) by (simp add: segment_ok_def unat_of_nat_lt del: of_nat_add)
      then have "\<not> span (base + of_nat (unat (p_vaddr ?e))) (unat (p_msize ?e)) (base + of_nat ?x)"
        using that lj(2) e m(4) by (subst span_next) (auto simp: segments_disjoint_def segment_ok_def)
      then show ?thesis by (simp add: add.assoc)
    qed
    then show ?thesis using lj(3) m''(3) by (simp add: segment_loaded_def)
  qed
  have "m'' a = m a" if "\<not> span base z a" for a
  proof -
    have "\<not> span (base + of_nat (unat (p_vaddr ?e))) (unat (p_msize ?e)) a"
      using that e m(4) span_shift [of base "unat (p_vaddr ?e)" "unat (p_msize ?e)" a z] by (auto simp: segment_ok_def)
    then show ?thesis using m''(3) inv that by (simp add: loaded_upto_def)
  qed
  then show ?thesis using m''(1,4) new old inv by (auto simp: loaded_upto_def less_Suc_eq)
qed

lemma loaded_all:
  assumes es: "read_entries m ph (length es) = Some es" "ph = fd + of_nat q" "q + 32 * length es \<le> n"
    and ok: "\<forall>e\<in>set es. p_type e = PROG_ENT_LOAD \<longrightarrow> segment_ok n z e"
    and dis: "\<forall>j<length es. \<forall>k<length es. j \<noteq> k \<longrightarrow> p_type (es ! j) = PROG_ENT_LOAD \<longrightarrow> p_type (es ! k) = PROG_ENT_LOAD \<longrightarrow>
      segments_disjoint (es ! j) (es ! k)"
    and h: "header_at m fd = Some h" "e_type h = ELF_TYPE_SHARED" "48 \<le> n"
    and m: "mapped m base z" "mapped m fd n" "apart fd n base z" "z < 2 ^ 32" "n < 2 ^ 32"
  shows "\<exists>m'. fold_opt (\<lambda>i m. do { e \<leftarrow> program_entry_at m (ph + of_nat i * 32); load_segment_dynamic e fd base m }) [0..<length es] m =
    Some m' \<and> loaded_upto m fd base z es (length es) m'"
proof (rule fold_opt_invariant)
  show "loaded_upto m fd base z es 0 m" by (simp add: loaded_upto_def)
next
  fix i m'
  assume i: "i < length es" and inv: "loaded_upto m fd base z es i m'"
  have img: "m' (fd + of_nat k) = m (fd + of_nat k)" if "k < n" for k
    using inv that m(3) by (simp add: loaded_upto_def apart_def)
  have at: "ph + of_nat i * 32 + of_nat k = fd + of_nat (q + 32 * i + k)" for k using es(2) by simp
  have "program_entry_at m' (ph + of_nat i * 32) = program_entry_at m (ph + of_nat i * 32)"
    by (rule program_entry_at_cong) (use i es(3) in \<open>simp only: at, intro img, simp\<close>)
  also have "\<dots> = Some (es ! i)" using read_entries_nth [OF es(1)] i by simp
  finally show "\<exists>m''. do { e \<leftarrow> program_entry_at m' (ph + of_nat i * 32); load_segment_dynamic e fd base m' } = Some m'' \<and>
      loaded_upto m fd base z es (Suc i) m''"
    using loaded_step [OF inv i ok dis h m] by simp
qed

text \<open>
  C28. A shared object is loaded as its program header says: in the pages that were allocated for the highest end of its
  segments every LOAD segment holds its bytes of the file followed by zeros up to its size in memory, nothing outside
  these pages changes, and the entry point is returned relative to them.
\<close>

theorem load_elf_dynamic_loads_segments:
  assumes h: "header_at (fmem s) fd = Some h" "e_magic h = ELF_SIG" "e_type h = ELF_TYPE_SHARED"
    and es: "read_entries (fmem s) (fd + program_header_offset h) (unat (program_entry_count h)) = Some es"
    and al: "alloc ((elf_limit es + PAGE_SIZE_BYTES - 1) div PAGE_SIZE_BYTES) (pages_st s) = Some (base, hp)"
    and img: "mapped (fmem s) fd n" "48 \<le> n" "unat (program_header_offset h) + 32 * unat (program_entry_count h) \<le> n" "n < 2 ^ 32"
    and mem: "mapped (fmem s) base (unat (elf_limit es))" "apart fd n base (unat (elf_limit es))"
    and seg: "\<forall>e\<in>set es. p_type e = PROG_ENT_LOAD \<longrightarrow> p_fsize e \<le> p_msize e \<and> unat (data_offset e) + unat (p_fsize e) \<le> n \<and>
      unat (p_vaddr e) + unat (p_msize e) < 2 ^ 32"
    and dis: "\<forall>j<length es. \<forall>k<length es. j \<noteq> k \<longrightarrow> p_type (es ! j) = PROG_ENT_LOAD \<longrightarrow> p_type (es ! k) = PROG_ENT_LOAD \<longrightarrow>
      segments_disjoint (es ! j) (es ! k)"
  shows "\<exists>m'. load_elf_dynamic alloc fd s = Some (base + entry_offset h, s\<lparr>pages_st := hp, fmem := m'\<rparr>) \<and>
    (\<forall>e\<in>set es. p_type e = PROG_ENT_LOAD \<longrightarrow> segment_loaded (fmem s) fd base e m') \<and>
    (\<forall>a. \<not> span base (unat (elf_limit es)) a \<longrightarrow> m' a = fmem s a)"
proof -
  let ?z = "unat (elf_limit es)" and ?ph = "fd + program_header_offset h"
  have len: "length es = unat (program_entry_count h)" using read_entries_nth [OF es] by simp
  have ok: "\<forall>e\<in>set es. p_type e = PROG_ENT_LOAD \<longrightarrow> segment_ok n ?z e"
  proof (intro ballI impI)
    fix e
    assume e: "e \<in> set es" "p_type e = PROG_ENT_LOAD"
    then have "unat (p_vaddr e + p_msize e) = unat (p_vaddr e) + unat (p_msize e)" using seg by (intro unat_add_lt) simp
    then show "segment_ok n ?z e" using elf_limit_upper [OF e(1)] seg e by (simp add: segment_ok_def word_le_nat_alt)
  qed
  have "read_entries (fmem s) ?ph (length es) = Some es" "?ph = fd + of_nat (unat (program_header_offset h))"
    "unat (program_header_offset h) + 32 * length es \<le> n" using es len img(3) by simp_all
  moreover have "?z < 2 ^ 32" using unat_u32_less [of "elf_limit es"] by simp
  note loaded_all [OF _ _ _ ok dis h(1,3) img(2) mem(1) img(1) mem(2) this img(4)]
  ultimately
obtain m' where m': "fold_opt (\<lambda>i m. do { e \<leftarrow> program_entry_at m (?ph + of_nat i * 32); load_segment_dynamic e fd base m })
      [0..<unat (program_entry_count h)] (fmem s) = Some m'" "loaded_upto (fmem s) fd base ?z es (length es) m'"
    unfolding len by blast
  have "m' (fd + of_nat k) = fmem s (fd + of_nat k)" if "k < n" for k
    using m'(2) that mem(2) by (simp add: loaded_upto_def apart_def)
  then have "header_at m' fd = Some h" using h(1) img(2) header_at_cong [of m' fd "fmem s"] by simp
  then have "load_elf_dynamic alloc fd s = Some (base + entry_offset h, s\<lparr>pages_st := hp, fmem := m'\<rparr>)"
    using h es al m'(1) by (simp add: load_elf_dynamic_def kalloc_def Let_def)
  moreover have "\<forall>e\<in>set es. p_type e = PROG_ENT_LOAD \<longrightarrow> segment_loaded (fmem s) fd base e m'"
    using m'(2) by (auto simp: loaded_upto_def in_set_conv_nth)
  ultimately show ?thesis using m'(2) by (auto simp: loaded_upto_def)
qed

definition elf_example :: "u8 list" where
  "elf_example = [0x7f, 0x45, 0x4c, 0x46, 1, 1, 1, 0] @ replicate 8 0 @ [3, 0, 3, 0, 1, 0, 0, 0, 2, 0, 0, 0, 52, 0, 0, 0] @ replicate 8 0 @
     [52, 0, 32, 0, 1, 0, 0, 0, 0, 0, 0, 0, 1, 0, 0, 0, 84, 0, 0, 0, 0, 0, 0, 0, 0, 0, 0, 0, 3, 0, 0, 0, 6, 0, 0, 0] @ replicate 8 0 @ [7, 8, 9]"

definition elf_state :: "unit fs_state" where
  "elf_state = \<lparr>pages_st = (), vfiles = Map.empty,
     fmem = (\<lambda>a. if a - 0x1000 < 87 then Some (elf_example ! unat (a - 0x1000)) else if a < 0x100000 then None else Some 0xff),
     root_dir = 0, ramfs_ops = 0, vfs_lock = \<lparr>lock = False\<rparr>\<rparr>"

theorem load_elf_dynamic_loads_segments_witness:
  "\<exists>m'. load_elf_dynamic (\<lambda>n _. Some (0x200000, ())) 0x1000 elf_state = Some (0x200002, elf_state\<lparr>pages_st := (), fmem := m'\<rparr>) \<and>
     m' 0x200002 = Some 9 \<and> m' 0x200003 = Some 0 \<and> m' 0x200006 = Some 0xff"
proof -
  let ?e = "\<lparr>p_type = 1, data_offset = 84, p_vaddr = 0, p_fsize = 3, p_msize = 6, p_flags = 0\<rparr> :: program_entry_t"
  let ?h = "\<lparr>e_magic = ELF_SIG, e_bits = 1, e_endianness = 1, e_type = 3, entry_offset = 2, program_header_offset = 52,
    program_entry_size = 32, program_entry_count = 1\<rparr>"
  have h: "header_at (fmem elf_state) 0x1000 = Some ?h" by code_simp
  have es: "read_entries (fmem elf_state) (0x1000 + program_header_offset ?h) (unat (program_entry_count ?h)) = Some [?e]" by code_simp
  have lim: "unat (elf_limit [?e]) = 6" by (simp add: elf_limit_def unsigned_max_def)
  have "mapped (fmem elf_state) 0x1000 87"
    by (auto simp: mapped_def elf_state_def word_less_nat_alt unat_of_nat)
  moreover have "mapped (fmem elf_state) 0x200000 6"
    by (auto simp: mapped_def elf_state_def word_less_nat_alt unat_word_ariths unat_of_nat)
  moreover have "apart 0x1000 87 0x200000 6" by (rule apart_far) simp_all
  ultimately obtain m' where m': "load_elf_dynamic (\<lambda>n _. Some (0x200000, ())) 0x1000 elf_state =
      Some (0x200000 + entry_offset ?h, elf_state\<lparr>pages_st := (), fmem := m'\<rparr>)"
    "\<forall>e\<in>set [?e]. p_type e = PROG_ENT_LOAD \<longrightarrow> segment_loaded (fmem elf_state) 0x1000 0x200000 e m'"
    "\<forall>a. \<not> span 0x200000 (unat (elf_limit [?e])) a \<longrightarrow> m' a = fmem elf_state a"
    using load_elf_dynamic_loads_segments [OF h _ _ es, where alloc = "\<lambda>n _. Some (0x200000, ())" and base = "0x200000" and n = 87] lim
    by auto
  have "segment_loaded (fmem elf_state) 0x1000 0x200000 ?e m'" using m'(2) by simp
  then have at: "m' (0x200000 + p_vaddr ?e + of_nat k) =
      (if k < unat (p_fsize ?e) then fmem elf_state (0x1000 + data_offset ?e + of_nat k) else Some 0)" if "k < unat (p_msize ?e)" for k
    using that unfolding segment_loaded_def by blast
  have "m' 0x200002 = fmem elf_state 0x1056" "m' 0x200003 = Some 0" using at [of 2] at [of 3] by simp_all
  moreover have "m' 0x200006 = fmem elf_state 0x200006" using m'(3) by (simp add: lim span_def)
  moreover have "fmem elf_state 0x1056 = Some 9" by code_simp
  moreover have "fmem elf_state 0x200006 = Some 0xff" by (simp add: elf_state_def)
  ultimately show ?thesis using m'(1) by auto
qed

subsection \<open>Segments that do not begin at a page boundary\<close>

lemma memclr_words_mapped:
  "fold_opt (\<lambda>i. wr32 (p + of_nat i * 4) 0) [0..<n] m = Some m' \<Longrightarrow> dom m' = dom m \<and> (\<forall>k<4 * n. p + of_nat k \<in> dom m)"
proof (induction n arbitrary: m')
  case (Suc n)
  then obtain m1 where m1: "fold_opt (\<lambda>i. wr32 (p + of_nat i * 4) 0) [0..<n] m = Some m1" "wr32 (p + of_nat n * 4) 0 m1 = Some m'"
    by (auto simp: fold_opt_append split: bind_splits)
  let ?q = "p + of_nat n * 4"
  have w: "dom m' = dom m1" "?q \<in> dom m1" "?q + 1 \<in> dom m1" "?q + 2 \<in> dom m1" "?q + 3 \<in> dom m1"
    using m1(2) by (auto simp: wr32_def wr_def split: if_splits bind_splits)
  have "p + of_nat k \<in> dom m" if k: "k < 4 * Suc n" for k
  proof (cases "k < 4 * n")
    case False
    then have "k = 4 * n \<or> k = 4 * n + 1 \<or> k = 4 * n + 2 \<or> k = 4 * n + 3" using k by auto
    then show ?thesis using w Suc.IH [OF m1(1)] by (auto simp: algebra_simps)
  qed (use Suc.IH [OF m1(1)] in simp)
  then show ?case using w Suc.IH [OF m1(1)] by simp
qed simp

text \<open>
  The first page of a segment is cleared from the address of the segment and not from the page that was mapped: when the
  segment begins inside a page and the next page is not mapped yet, the loader faults.
\<close>

lemma unaligned_segment_faults:
  assumes e: "p_type e = PROG_ENT_LOAD" "0 < unat ((p_msize e + PAGE_SIZE_BYTES - 1) div PAGE_SIZE_BYTES)"
    and off: "unat (p_vaddr e) mod 4096 = r" "0 < r" and next_page: "fmem s (p_vaddr e + of_nat (4096 - r)) = None"
    and other: "drop_bit 12 (p_vaddr e + of_nat (4096 - r)) \<noteq> drop_bit 12 (p_vaddr e)"
  shows "load_segment_static fops frame f e s = None"
proof -
  have r: "r < 4096" using off(1) by auto
  have "memclr_b (p_vaddr e) PAGE_SIZE_BYTES (show_page (frame pa) (p_vaddr e) (fmem s)) = None" for pa
  proof (rule ccontr)
    assume "\<not> ?thesis"
    then obtain m' where "memclr_b (p_vaddr e) PAGE_SIZE_BYTES (show_page (frame pa) (p_vaddr e) (fmem s)) = Some m'" by auto
    then have "\<forall>k<4 * 1024. p_vaddr e + of_nat k \<in> dom (show_page (frame pa) (p_vaddr e) (fmem s))"
      by (intro conjunct2 [OF memclr_words_mapped]) (simp add: memclr_b_def)
    then have "p_vaddr e + of_nat (4096 - r) \<in> dom (show_page (frame pa) (p_vaddr e) (fmem s))"
      using off(2) r by (auto simp del: of_nat_diff)
    then show False using next_page other by (auto simp: show_page_def)
  qed
  moreover obtain n where "unat ((p_msize e + PAGE_SIZE_BYTES - 1) div PAGE_SIZE_BYTES) = Suc n" using e(2) gr0_implies_Suc by blast
  ultimately show ?thesis using e(1)
    by (simp add: load_segment_static_def Let_def upt_conv_Cons del: upt_Suc split: bind_splits)
qed

end
