(* ===== verification/Initrc.thy ===== *)
theory Initrc
  imports Modules Elf
begin

text \<open>
  The start of the system: the configuration (\<^verbatim>\<open>src/kernel/shared/config.c\<close>), the start of modules (\<^verbatim>\<open>module_start\<close> of
  \<^verbatim>\<open>src/kernel/system/modules.c\<close>), the start of a program (\<^verbatim>\<open>exec\<close> of \<^verbatim>\<open>src/kernel/system/scheduler.c\<close>) and the interpreter of the
  start-up script (\<^verbatim>\<open>src/kernel/system/intirc.c\<close>).

  The script is read where it lies in memory.  Local arrays of characters are lists; a character written
  outside such an array is a fault.  The parameters of the interpreter: \<open>call\<close> and \<open>fops\<close> are the message handlers and file
  operations of \<open>Modules\<close>, \<open>run\<close> says what the code of a loaded module does when it is called, \<open>frame\<close> gives the contents of
  newly mapped frames.  Printing is left out.

  The property: a script that names modules starts exactly these, in order.
\<close>

subsection \<open>Configuration\<close>

record kernel_config_t =
  kernel_heap_size :: u32
  logfile :: u32
  user_stack_size :: u32
  swap_size :: u32
  swapfile :: u32
  swap_enable :: u8
  panic_on_exception :: u8

record 'h boot_state = "'h mod_state" +
  config :: kernel_config_t

definition config_init :: "('h, 'b) boot_state_scheme \<Rightarrow> ('h, 'b) boot_state_scheme" where
  "config_init s = s\<lparr>config := (config s)\<lparr>kernel_heap_size := push_bit 20 8, logfile := 0, user_stack_size := push_bit 20 1,
     swap_enable := 0, panic_on_exception := 1\<rparr>\<rparr>"

definition config_set_kernel_heap_size :: "u32 \<Rightarrow> ('h, 'b) boot_state_scheme \<Rightarrow> ('h, 'b) boot_state_scheme" where
  "config_set_kernel_heap_size v s = s\<lparr>config := (config s)\<lparr>kernel_heap_size := v\<rparr>\<rparr>"

definition config_set_user_stack_size :: "u32 \<Rightarrow> ('h, 'b) boot_state_scheme \<Rightarrow> ('h, 'b) boot_state_scheme" where
  "config_set_user_stack_size v s = s\<lparr>config := (config s)\<lparr>user_stack_size := v\<rparr>\<rparr>"

definition config_set_swap_enable :: "u32 \<Rightarrow> ('h, 'b) boot_state_scheme \<Rightarrow> ('h, 'b) boot_state_scheme" where
  "config_set_swap_enable v s = s\<lparr>config := (config s)\<lparr>swap_enable := ucast v\<rparr>\<rparr>"

definition config_set_expanic :: "u32 \<Rightarrow> ('h, 'b) boot_state_scheme \<Rightarrow> ('h, 'b) boot_state_scheme" where
  "config_set_expanic v s = s\<lparr>config := (config s)\<lparr>panic_on_exception := ucast v\<rparr>\<rparr>"

definition config_set_swap_size :: "u32 \<Rightarrow> ('h, 'b) boot_state_scheme \<Rightarrow> ('h, 'b) boot_state_scheme" where
  "config_set_swap_size v s = s\<lparr>config := (config s)\<lparr>swap_size := v\<rparr>\<rparr>"

definition get_config_const :: "('h, 'b) boot_state_scheme \<Rightarrow> kernel_config_t" where
  "get_config_const s = config s"

subsection \<open>Modules and programs\<close>

text \<open>An image that is not an ELF file gives the entry point 0, which is called like any other.\<close>

definition module_start ::
    "(u32 \<Rightarrow> ('x mm_state_scheme, 'b) fs_state_scheme \<Rightarrow> ('x mm_state_scheme, 'b) fs_state_scheme option) \<Rightarrow> u32 \<Rightarrow>
     ('x mm_state_scheme, 'b) fs_state_scheme \<Rightarrow> ('x mm_state_scheme, 'b) fs_state_scheme option" where
  "module_start run ptr s = do { (entry, s) \<leftarrow> load_elf_dynamic kmalloc ptr s; run entry s }"

text \<open>The loop of \<^verbatim>\<open>exec\<close> that empties the user part of the page directory at \<open>pd_ptr\<close>, entry by entry.\<close>

definition clear_table :: "u32 \<Rightarrow> nat \<Rightarrow> 'a mm_state_scheme \<Rightarrow> 'a mm_state_scheme option" where
  "clear_table pd_ptr i h = do {
     e \<leftarrow> load32 (pd_ptr + of_nat i * 4) h;
     (pt_ptr, h) \<leftarrow> kmalloc_page_paddr e 1 h;
     h \<leftarrow> fold_opt (\<lambda>j. store32 (pt_ptr + of_nat j * 4) 0) [0..<1024] h;
     h \<leftarrow> kfree pt_ptr h;
     store32 (pd_ptr + of_nat i * 4) 0 h
   }"

definition map_fresh :: "u32 \<Rightarrow> u32 \<Rightarrow> nat \<Rightarrow> 'a mm_state_scheme \<Rightarrow> 'a mm_state_scheme option" where
  "map_fresh sp fl i h = do { (f, h) \<leftarrow> pm_alloc h; map_page (sp - of_nat i * PAGE_SIZE_BYTES) f fl h }"

text \<open>\<^verbatim>\<open>exec\<close> and the interpreter return, or end in user mode with a stack pointer and an entry point.\<close>

datatype exec_end = Returned | Jump_usermode u32 u32

definition exec ::
    "(u32 \<Rightarrow> ('x int_state_scheme, 'b) mod_state_scheme fileops_t) \<Rightarrow> (u32 \<Rightarrow> u32 \<Rightarrow> u8) \<Rightarrow> u8 list \<Rightarrow>
     ('x int_state_scheme, 'b) mod_state_scheme \<Rightarrow> (exec_end \<times> ('x int_state_scheme, 'b) mod_state_scheme) option" where
  "exec fops frame name s = do {
     (program, s) \<leftarrow> fopen fops (Some name) s;
     let pd = p_page_dir (processes (pages_st s) (current_pid (pages_st s)));
     (pd_ptr, h) \<leftarrow> kmalloc_page_paddr pd 1 (pages_st s);
     let s = s\<lparr>pages_st := h\<rparr>;
     if program = 0 then Some (Returned, s)
     else do {
       h \<leftarrow> fold_opt (clear_table pd_ptr) [1..<768] (pages_st s);
       h \<leftarrow> kfree pd_ptr h;
       (entry, s) \<leftarrow> load_elf fops frame program (s\<lparr>pages_st := h\<rparr>);
       let stack = entry - 0x10000;
       let kstack = 0xc0000000 - 0x10000;
       h \<leftarrow> fold_opt (map_fresh stack (PT_USER_RW OR PT_USER OR PT_PRESENT)) [0..<32] (pages_st s);
       h \<leftarrow> fold_opt (map_fresh kstack PT_PRESENT) [0..<8] h;
       h \<leftarrow> upd_process (current_pid h) (\<lambda>p. p\<lparr>esp0 := kstack\<rparr>) h;
       Some (Jump_usermode (stack - 4) entry, s\<lparr>pages_st := h\<rparr>)
     }
   }"

subsection \<open>Scanning the script\<close>

definition is_num :: "u8 \<Rightarrow> bool" where
  "is_num c \<longleftrightarrow> \<not> (sint c < 48 \<or> sint c > 57 \<and> sint c < 97) \<and> \<not> sint c > 102"

text \<open>The characters from index \<open>i\<close> on that satisfy \<open>P\<close>, and the index of the first one that does not.\<close>

partial_function (option) scan_while :: "(u8 \<Rightarrow> bool) \<Rightarrow> bmem \<Rightarrow> u32 \<Rightarrow> u32 \<Rightarrow> (u8 list \<times> u32) option" where
  "scan_while P m ptr i = do {
     c \<leftarrow> m (ptr + i);
     if P c then do { (cs, j) \<leftarrow> scan_while P m ptr (i + 1); Some (c # cs, j) } else Some ([], i)
   }"

text \<open>
  The loops with a bound on the index, on the length and on both; they end before a zero byte, a line feed or a blank.
  The arrays have 512 characters and are terminated after the loop, which is a fault after 512 characters.
\<close>

definition name_char :: "u8 \<Rightarrow> bool" where
  "name_char c \<longleftrightarrow> c \<noteq> 0 \<and> c \<noteq> 10 \<and> c \<noteq> 32"

partial_function (option) scan_name :: "bmem \<Rightarrow> u32 \<Rightarrow> u32 \<Rightarrow> u32 \<Rightarrow> u32 \<Rightarrow> u8 list option" where
  "scan_name m ptr sz i j =
     (if j < 512 then do {
        c \<leftarrow> m (ptr + (i + j));
        if name_char c \<and> i + j < sz then do { cs \<leftarrow> scan_name m ptr sz i (j + 1); Some (c # cs) } else Some []
      }
      else Some [])"

partial_function (option) scan_dest :: "bmem \<Rightarrow> u32 \<Rightarrow> u32 \<Rightarrow> u32 \<Rightarrow> u32 \<Rightarrow> u8 list option" where
  "scan_dest m ptr sz i j = do {
     c \<leftarrow> m (ptr + (i + j));
     if name_char c \<and> i + j < sz then do { cs \<leftarrow> scan_dest m ptr sz i (j + 1); Some (c # cs) } else Some []
   }"

partial_function (option) scan_digits :: "bmem \<Rightarrow> u32 \<Rightarrow> u32 \<Rightarrow> u32 \<Rightarrow> u8 list option" where
  "scan_digits m ptr i j =
     (if j < 512 then do {
        c \<leftarrow> m (ptr + (i + j));
        if name_char c \<and> is_num c then do { cs \<leftarrow> scan_digits m ptr i (j + 1); Some (c # cs) } else Some []
      }
      else Some [])"

definition fits512 :: "u8 list \<Rightarrow> u8 list option" where
  "fits512 cs = (if length cs < 512 then Some cs else None)"

text \<open>The offset of a mount: decimal, hexadecimal after a character and \<^verbatim>\<open>x\<close>, or octal after two zeros.\<close>

definition mount_offset :: "bmem \<Rightarrow> u32 \<Rightarrow> u32 \<Rightarrow> (u32 \<times> u32) option" where
  "mount_offset m ptr i = do {
     c0 \<leftarrow> m (ptr + i);
     if c0 \<noteq> 32 then Some (0, i)
     else do {
       let i = i + 1;
       c1 \<leftarrow> m (ptr + (i + 1));
       (i, base) \<leftarrow> (if c1 = 0x78 then Some (i + 2, 16)
                     else do { c0 \<leftarrow> m (ptr + i); if c0 = 48 \<and> c1 = 48 then Some (i + 2, 8) else Some (i, 10) });
       ds \<leftarrow> scan_digits m ptr i 0;
       ds \<leftarrow> fits512 ds;
       off \<leftarrow> atoi (local_array (ds @ [0])) 1 base;
       Some (off, i + of_nat (length ds))
     }
   }"

subsection \<open>Statements\<close>

text \<open>
  What a statement does next: go on with the end of the line, go back to the test of the loop (\<^verbatim>\<open>continue\<close>), or leave the interpreter.
\<close>

datatype 's rc_next = Rc_line u32 's | Rc_again u32 's | Rc_return 's | Rc_usermode u32 u32 's

definition rc_module ::
    "(u32 \<Rightarrow> ('x int_state_scheme, 'b) boot_state_scheme fileops_t) \<Rightarrow>
     (u32 \<Rightarrow> ('x int_state_scheme, 'b) boot_state_scheme \<Rightarrow> ('x int_state_scheme, 'b) boot_state_scheme option) \<Rightarrow>
     u32 \<Rightarrow> u32 \<Rightarrow> u32 \<Rightarrow> ('x int_state_scheme, 'b) boot_state_scheme \<Rightarrow> ('x int_state_scheme, 'b) boot_state_scheme rc_next option" where
  "rc_module fops run ptr sz i s = do {
     let i = i + 1;
     name \<leftarrow> scan_name (fmem s) ptr sz i 0;
     name \<leftarrow> fits512 name;
     let i = i + of_nat (length name);
     (module, s) \<leftarrow> fopen fops (Some name) s;
     if module = 0 then Some (Rc_again i s)
     else do {
       v \<leftarrow> vfiles s module;
       s \<leftarrow> module_start run (f_private v) s;
       Some (Rc_line i s)
     }
   }"

definition rc_mount ::
    "(('x int_state_scheme, 'b) boot_state_scheme) handlers \<Rightarrow> (u32 \<Rightarrow> ('x int_state_scheme, 'b) boot_state_scheme fileops_t) \<Rightarrow>
     u32 \<Rightarrow> u32 \<Rightarrow> u32 \<Rightarrow> ('x int_state_scheme, 'b) boot_state_scheme \<Rightarrow> ('x int_state_scheme, 'b) boot_state_scheme rc_next option" where
  "rc_mount call fops ptr sz i s = do {
     let i = i + 1;
     src \<leftarrow> scan_name (fmem s) ptr sz i 0;
     src \<leftarrow> fits512 src;
     let i = i + of_nat (length src);
     dest \<leftarrow> scan_dest (fmem s) ptr sz i 1;
     dest \<leftarrow> fits512 dest;
     let i = i + 1 + of_nat (length dest);
     (off, i) \<leftarrow> mount_offset (fmem s) ptr i;
     (to_mount, s) \<leftarrow> fopen fops (Some src) s;
     if to_mount = 0 then Some (Rc_again i s)
     else do {
       (r, s) \<leftarrow> dispatch_message call MESSAGE_MOUNT_FS \<lparr>srcfile = to_mount, destname = Some dest, msg_offset = off\<rparr> s;
       Some (Rc_line i s)
     }
   }"

text \<open>The comparison with a blank is signed, as is that of the copying loop, which stops after 511 characters.\<close>

partial_function (option) scan_program :: "bmem \<Rightarrow> u32 \<Rightarrow> u32 \<Rightarrow> nat \<Rightarrow> (u8 list \<times> u32) option" where
  "scan_program m ptr i j = do {
     c \<leftarrow> m (ptr + i);
     if sint c > 32 \<and> c \<noteq> 0x23 \<and> j < 511
     then do { (cs, k) \<leftarrow> scan_program m ptr (i + 1) (j + 1); Some (c # cs, k) } else Some ([], i)
   }"

definition rc_exec ::
    "(u32 \<Rightarrow> ('x int_state_scheme, 'b) boot_state_scheme fileops_t) \<Rightarrow> (u32 \<Rightarrow> u32 \<Rightarrow> u8) \<Rightarrow>
     u32 \<Rightarrow> u32 \<Rightarrow> ('x int_state_scheme, 'b) boot_state_scheme \<Rightarrow> ('x int_state_scheme, 'b) boot_state_scheme rc_next option" where
  "rc_exec fops frame ptr i s = do {
     (blanks, i) \<leftarrow> scan_while (\<lambda>c. sint c \<le> 32) (fmem s) ptr i;
     (name, i) \<leftarrow> scan_program (fmem s) ptr i 0;
     (r, s) \<leftarrow> exec fops frame name s;
     case r of Returned \<Rightarrow> Some (Rc_line i s) | Jump_usermode sp entry \<Rightarrow> Some (Rc_usermode sp entry s)
   }"

definition rc_echo :: "bmem \<Rightarrow> u32 \<Rightarrow> u32 \<Rightarrow> u32 option" where
  "rc_echo m ptr i = do { (cs, i) \<leftarrow> scan_while (\<lambda>c. c \<noteq> 10 \<and> c \<noteq> 0 \<and> c \<noteq> 0x23) m ptr (i + 1); Some i }"

definition rc_comment :: "bmem \<Rightarrow> u32 \<Rightarrow> u32 \<Rightarrow> u32 option" where
  "rc_comment m ptr i = do { (cs, i) \<leftarrow> scan_while (\<lambda>c. c \<noteq> 10 \<and> c \<noteq> 0) m ptr i; Some i }"

abbreviation (input) rc_ECHO :: "u8 list" where "rc_ECHO \<equiv> [69, 67, 72, 79]"
abbreviation (input) rc_MODULE :: "u8 list" where "rc_MODULE \<equiv> [77, 79, 68, 85, 76, 69]"
abbreviation (input) rc_MOUNT :: "u8 list" where "rc_MOUNT \<equiv> [77, 79, 85, 78, 84]"
abbreviation (input) rc_CONFIG :: "u8 list" where "rc_CONFIG \<equiv> [67, 79, 78, 70, 73, 71]"
abbreviation (input) rc_EXEC :: "u8 list" where "rc_EXEC \<equiv> [69, 88, 69, 67]"
abbreviation (input) rc_SYSINIT :: "u8 list" where "rc_SYSINIT \<equiv> [83, 89, 83, 73, 78, 73, 84]"
abbreviation (input) rc_END :: "u8 list" where "rc_END \<equiv> [69, 78, 68]"

text \<open>An unknown statement raises the exception of an invalid instruction, which halts the system.\<close>

definition rc_statement ::
    "(('x int_state_scheme, 'b) boot_state_scheme) handlers \<Rightarrow> (u32 \<Rightarrow> ('x int_state_scheme, 'b) boot_state_scheme fileops_t) \<Rightarrow>
     (u32 \<Rightarrow> ('x int_state_scheme, 'b) boot_state_scheme \<Rightarrow> ('x int_state_scheme, 'b) boot_state_scheme option) \<Rightarrow> (u32 \<Rightarrow> u32 \<Rightarrow> u8) \<Rightarrow>
     u32 \<Rightarrow> u32 \<Rightarrow> u8 list \<Rightarrow> u32 \<Rightarrow> ('x int_state_scheme, 'b) boot_state_scheme \<Rightarrow> ('x int_state_scheme, 'b) boot_state_scheme rc_next option" where
  "rc_statement call fops run frame ptr sz stmt i s =
     (if stmt \<noteq> [] \<and> hd stmt = 0x23 then do { i \<leftarrow> rc_comment (fmem s) ptr i; Some (Rc_line i s) }
      else if stmt = rc_ECHO then do { i \<leftarrow> rc_echo (fmem s) ptr i; Some (Rc_line i s) }
      else if stmt = rc_MODULE then rc_module fops run ptr sz i s
      else if stmt = rc_MOUNT then rc_mount call fops ptr sz i s
      else if stmt = rc_CONFIG then Some (Rc_line i s)
      else if stmt = rc_EXEC then rc_exec fops frame ptr i s
      else if stmt = rc_SYSINIT
      then do { h \<leftarrow> heap_init (kernel_heap_size (get_config_const s)) (pages_st s); Some (Rc_line i (s\<lparr>pages_st := h\<rparr>)) }
      else if stmt = rc_END then Some (Rc_return s)
      else None)"

text \<open>The end of the line: \<^const>\<open>None\<close> inside the result when the end of the file comes first.\<close>

partial_function (option) next_line :: "bmem \<Rightarrow> u32 \<Rightarrow> u32 \<Rightarrow> u32 \<Rightarrow> u32 option option" where
  "next_line m ptr sz i = do {
     c \<leftarrow> m (ptr + i);
     if c \<noteq> 10 then (if i + 1 \<ge> sz then Some None else next_line m ptr sz (i + 1)) else Some (Some (i + 1))
   }"

definition read_statement :: "bmem \<Rightarrow> u32 \<Rightarrow> u32 \<Rightarrow> (u8 list \<times> u32) option" where
  "read_statement m ptr i = do {
     (blanks, i) \<leftarrow> scan_while (\<lambda>c. c = 32 \<or> c = 9 \<or> c = 10) m ptr i;
     (stmt, i) \<leftarrow> scan_while (\<lambda>c. c \<noteq> 32 \<and> c \<noteq> 10 \<and> c \<noteq> 0) m ptr i;
     stmt \<leftarrow> fits512 stmt;
     Some (stmt, i)
   }"

text \<open>\<open>stmt\<close> is what \<^verbatim>\<open>statement\<close> holds, at the start what the stack holds.\<close>

partial_function (option) initrc_loop ::
    "(('x int_state_scheme, 'b) boot_state_scheme) handlers \<Rightarrow> (u32 \<Rightarrow> ('x int_state_scheme, 'b) boot_state_scheme fileops_t) \<Rightarrow>
     (u32 \<Rightarrow> ('x int_state_scheme, 'b) boot_state_scheme \<Rightarrow> ('x int_state_scheme, 'b) boot_state_scheme option) \<Rightarrow> (u32 \<Rightarrow> u32 \<Rightarrow> u8) \<Rightarrow>
     u32 \<Rightarrow> u32 \<Rightarrow> u8 list \<Rightarrow> u32 \<Rightarrow> ('x int_state_scheme, 'b) boot_state_scheme \<Rightarrow> (exec_end \<times> ('x int_state_scheme, 'b) boot_state_scheme) option" where
  "initrc_loop call fops run frame ptr sz stmt i s =
     (if stmt = rc_END then Some (Returned, s)
      else do {
        (stmt, i) \<leftarrow> read_statement (fmem s) ptr i;
        r \<leftarrow> rc_statement call fops run frame ptr sz stmt i s;
        case r of
          Rc_return s \<Rightarrow> Some (Returned, s)
        | Rc_usermode sp entry s \<Rightarrow> Some (Jump_usermode sp entry, s)
        | Rc_again i s \<Rightarrow> initrc_loop call fops run frame ptr sz stmt i s
        | Rc_line i s \<Rightarrow> do {
            n \<leftarrow> next_line (fmem s) ptr sz i;
            case n of None \<Rightarrow> Some (Returned, s) | Some i \<Rightarrow> initrc_loop call fops run frame ptr sz stmt i s
          }
      })"

definition initrc_read ::
    "(('x int_state_scheme, 'b) boot_state_scheme) handlers \<Rightarrow> (u32 \<Rightarrow> ('x int_state_scheme, 'b) boot_state_scheme fileops_t) \<Rightarrow>
     (u32 \<Rightarrow> ('x int_state_scheme, 'b) boot_state_scheme \<Rightarrow> ('x int_state_scheme, 'b) boot_state_scheme option) \<Rightarrow> (u32 \<Rightarrow> u32 \<Rightarrow> u8) \<Rightarrow>
     u8 list \<Rightarrow> u32 \<Rightarrow> ('x int_state_scheme, 'b) boot_state_scheme \<Rightarrow> (exec_end \<times> ('x int_state_scheme, 'b) boot_state_scheme) option" where
  "initrc_read call fops run frame stack f s =
     (if f = 0 then Some (Returned, s)
      else do {
        v \<leftarrow> vfiles s f;
        if f_private v = 0 then Some (Returned, s)
        else initrc_loop call fops run frame (f_private v) (ucast (f_size v)) stack 0 s
      })"

subsection \<open>Starting the modules of a script\<close>

text \<open>A script that lies in memory, and what the scanners find in it.\<close>

definition text_at :: "bmem \<Rightarrow> u32 \<Rightarrow> u32 \<Rightarrow> u8 list \<Rightarrow> bool" where
  "text_at m ptr i cs \<longleftrightarrow> (\<forall>k<length cs. m (ptr + (i + of_nat k)) = Some (cs ! k))"

lemma text_at_Nil [simp]: "text_at m ptr i []"
  by (simp add: text_at_def)

lemma text_at_Cons: "text_at m ptr i (c # cs) \<longleftrightarrow> m (ptr + i) = Some c \<and> text_at m ptr (i + 1) cs"
  unfolding text_at_def
  by (auto simp: nth_Cons' less_Suc_eq_0_disj add.assoc of_nat_diff split: if_splits)

lemma text_at_append: "text_at m ptr i (as @ bs) \<longleftrightarrow> text_at m ptr i as \<and> text_at m ptr (i + of_nat (length as)) bs"
proof (induction as arbitrary: i)
  case Nil
  then show ?case by (simp add: text_at_def)
next
  case (Cons a as)
  then show ?case by (simp add: text_at_Cons add.assoc)
qed

lemma scan_while_text:
  assumes "text_at m ptr i (cs @ [c])" "\<forall>x\<in>set cs. P x" "\<not> P c"
  shows "scan_while P m ptr i = Some (cs, i + of_nat (length cs))"
  using assms
proof (induction cs arbitrary: i)
  case Nil
  then show ?case by (subst scan_while.simps) (simp add: text_at_Cons)
next
  case (Cons x cs)
  then have "scan_while P m ptr (i + 1) = Some (cs, i + 1 + of_nat (length cs))" by (simp add: text_at_Cons)
  then show ?case using Cons.prems by (subst scan_while.simps) (simp add: text_at_Cons add.assoc)
qed

lemma scan_name_text:
  assumes "text_at m ptr (i + of_nat j) (cs @ [c])" "\<forall>x\<in>set cs. name_char x" "\<not> name_char c" "j + length cs < 512"
    "unat i + j + length cs \<le> unat sz"
  shows "scan_name m ptr sz i (of_nat j) = Some cs"
  using assms
proof (induction cs arbitrary: j)
  case Nil
  then have "(of_nat j :: u32) < 512" by (simp add: word_less_nat_alt unat_of_nat_lt)
  then show ?case using Nil by (subst scan_name.simps) (simp add: text_at_Cons)
next
  case (Cons x cs)
  have j: "(of_nat j :: u32) < 512" using Cons.prems(4) by (simp add: word_less_nat_alt unat_of_nat_lt)
  have ij: "i + of_nat j < sz"
    using Cons.prems(4,5) unat_u32_less [of sz] by (simp add: word_less_nat_alt unat_word_ariths unat_of_nat)
  have "scan_name m ptr sz i (of_nat (Suc j)) = Some cs"
    using Cons.prems by (intro Cons.IH) (simp_all add: text_at_Cons add.assoc add.commute [of 1])
  then show ?case using Cons.prems j ij by (subst scan_name.simps) (simp add: text_at_Cons add.commute)
qed

lemma read_statement_text:
  assumes "text_at m ptr i (w @ [c])" "w \<noteq> []" "\<forall>x\<in>set w. x \<notin> {32, 9, 10, 0}" "c \<in> {32, 10, 0}" "length w < 512"
  shows "read_statement m ptr i = Some (w, i + of_nat (length w))"
proof -
  obtain x xs where w: "w = x # xs" using assms(2) by (cases w) auto
  have "scan_while (\<lambda>c. c = 32 \<or> c = 9 \<or> c = 10) m ptr i = Some ([], i + of_nat (length ([] :: u8 list)))"
    by (rule scan_while_text [of m ptr i "[]" x]) (use assms(1,3) w in \<open>simp_all add: text_at_Cons\<close>)
  moreover have "scan_while (\<lambda>c. c \<noteq> 32 \<and> c \<noteq> 10 \<and> c \<noteq> 0) m ptr i = Some (w, i + of_nat (length w))"
    by (rule scan_while_text [OF assms(1)]) (use assms(3,4) in \<open>simp, blast\<close>)
  ultimately show ?thesis using assms(5) by (simp add: read_statement_def fits512_def)
qed

definition module_line :: "u8 list \<Rightarrow> u8 list" where
  "module_line name = rc_MODULE @ [32] @ name @ [10]"

text \<open>The script of a list of modules.\<close>

definition module_script :: "u8 list list \<Rightarrow> u8 list" where
  "module_script names = concat (map module_line names) @ rc_END @ [10]"

text \<open>
  What such a script is for: each module in turn is found and started, and none overwrites the script, which lies at \<open>ptr\<close>.
\<close>

inductive modules_started ::
    "(u32 \<Rightarrow> ('x int_state_scheme, 'b) boot_state_scheme fileops_t) \<Rightarrow>
     (u32 \<Rightarrow> ('x int_state_scheme, 'b) boot_state_scheme \<Rightarrow> ('x int_state_scheme, 'b) boot_state_scheme option) \<Rightarrow> u32 \<Rightarrow> u8 list \<Rightarrow>
     u8 list list \<Rightarrow> ('x int_state_scheme, 'b) boot_state_scheme \<Rightarrow> ('x int_state_scheme, 'b) boot_state_scheme \<Rightarrow> bool"
  for fops :: "u32 \<Rightarrow> ('x int_state_scheme, 'b) boot_state_scheme fileops_t"
    and run :: "u32 \<Rightarrow> ('x int_state_scheme, 'b) boot_state_scheme \<Rightarrow> ('x int_state_scheme, 'b) boot_state_scheme option"
    and ptr :: u32 and script :: "u8 list" where
  started_none: "modules_started fops run ptr script [] s s"
| started_one: "fopen fops (Some n) s = Some (p, s1) \<Longrightarrow> p \<noteq> 0 \<Longrightarrow> vfiles s1 p = Some v \<Longrightarrow> module_start run (f_private v) s1 = Some s2 \<Longrightarrow>
    text_at (fmem s2) ptr 0 script \<Longrightarrow> modules_started fops run ptr script ns s2 s' \<Longrightarrow> modules_started fops run ptr script (n # ns) s s'"

inductive_cases modules_started_ConsE: "modules_started fops run ptr script (n # ns) s s'"

inductive_simps modules_started_Nil [simp]: "modules_started fops run ptr script [] s s'"

lemma module_script_loop:
  assumes sz: "length script \<le> unat sz"
    and names: "\<forall>n\<in>set names. length n < 512 \<and> (\<forall>c\<in>set n. name_char c)"
  shows "script = pre @ module_script names \<Longrightarrow> text_at (fmem s) ptr 0 script \<Longrightarrow> stmt \<noteq> rc_END \<Longrightarrow> modules_started fops run ptr script names s s' \<Longrightarrow>
    initrc_loop call fops run frame ptr sz stmt (of_nat (length pre)) s = Some (Returned, s')"
  using names
proof (induction names arbitrary: pre s stmt)
  case Nil
  let ?i = "of_nat (length pre) :: u32"
  have "text_at (fmem s) ptr ?i (rc_END @ [10])" using Nil.prems(1,2) by (simp add: module_script_def text_at_append)
  then have "read_statement (fmem s) ptr ?i = Some (rc_END, ?i + of_nat (length (rc_END)))"
    by (rule read_statement_text) simp_all
  then show ?case using Nil.prems(3,4) by (subst initrc_loop.simps) (simp add: rc_statement_def)
next
  case (Cons n ns)
  let ?i = "of_nat (length pre) :: u32" and ?m = "fmem s"
  define i1 where "i1 = ?i + 7"
  have all: "text_at ?m ptr ?i (module_line n @ module_script ns)" using Cons.prems(1,2) by (simp add: module_script_def text_at_append)
  then have "text_at ?m ptr ?i (rc_MODULE @ [32])" by (simp add: module_line_def text_at_append text_at_Cons)
  then have st: "read_statement ?m ptr ?i = Some (rc_MODULE, ?i + of_nat (length (rc_MODULE)))" by (rule read_statement_text) simp_all
  have n: "length n < 512" "\<forall>c\<in>set n. name_char c" using Cons.prems(5) by simp_all
  have "text_at ?m ptr (i1 + of_nat 0) (n @ [10])" using all by (simp add: module_line_def text_at_append text_at_Cons i1_def add.assoc)
  then have nm: "scan_name ?m ptr sz i1 (of_nat 0) = Some n"
  proof (rule scan_name_text)
    have "length pre + (7 + length n) \<le> unat sz" using sz Cons.prems(1) by (simp add: module_script_def module_line_def)
    then show "unat i1 + 0 + length n \<le> unat sz" using unat_u32_less [of sz] by (simp add: i1_def unat_word_ariths unat_of_nat)
  qed (use n in \<open>simp_all add: name_char_def\<close>)
  obtain p s1 v s2 where s2: "fopen fops (Some n) s = Some (p, s1)" "p \<noteq> 0" "vfiles s1 p = Some v" "module_start run (f_private v) s1 = Some s2"
      "modules_started fops run ptr script ns s2 s'" and t2: "text_at (fmem s2) ptr 0 script" by (rule modules_started_ConsE [OF Cons.prems(4)]) (rule that)
  from t2 have "text_at (fmem s2) ptr ?i (module_line n @ module_script ns)" using Cons.prems(1) by (simp add: module_script_def text_at_append)
  then have "fmem s2 (ptr + (i1 + of_nat (length n))) = Some 10" by (simp add: module_line_def text_at_append text_at_Cons i1_def add.assoc)
  then have nl: "next_line (fmem s2) ptr sz (i1 + of_nat (length n)) = Some (Some (of_nat (length (pre @ module_line n))))"
    by (subst next_line.simps) (simp add: i1_def module_line_def add.assoc)
  have "initrc_loop call fops run frame ptr sz rc_MODULE (of_nat (length (pre @ module_line n))) s2 = Some (Returned, s')"
    by (rule Cons.IH) (use Cons.prems(1,5) t2 s2(5) in \<open>simp_all add: module_script_def\<close>)
  moreover have "?i + 6 + 1 = i1" by (simp add: i1_def)
  ultimately show ?case using Cons.prems(3) st nm nl s2 n(1)
    by (subst initrc_loop.simps) (simp add: rc_statement_def rc_module_def fits512_def Let_def)
qed

text \<open>
  C13. A script of MODULE lines that ends with END is carried out completely: when each of the named modules can be found and started in
  turn, the interpreter starts exactly these modules in this order and returns.
\<close>

theorem initrc_read_starts_modules:
  assumes v: "vfiles s f = Some v" "f \<noteq> 0" "f_private v \<noteq> 0" "length (module_script names) \<le> unat (ucast (f_size v) :: u32)"
    and script: "text_at (fmem s) (f_private v) 0 (module_script names)" "stack \<noteq> rc_END"
    and names: "\<forall>n\<in>set names. length n < 512 \<and> (\<forall>c\<in>set n. name_char c)"
    and run: "modules_started fops run (f_private v) (module_script names) names s s'"
  shows "initrc_read call fops run frame stack f s = Some (Returned, s')"
  using module_script_loop [OF v(4) names, of "[]"] v(1-3) script run by (simp add: initrc_read_def)

definition rc_script :: "u8 list" where
  "rc_script = [77, 79, 68, 85, 76, 69, 32, 109, 10, 69, 78, 68, 10]"

definition boot_example :: "int_state boot_state" where
  "boot_example = mod_state.extend (mod_example\<lparr>root_dir := 0x700,
       vfiles := [0x700 \<mapsto> zero_vfile, 0x600 \<mapsto> zero_vfile\<lparr>f_private := 0x9000\<rparr>, 0x500 \<mapsto> zero_vfile\<lparr>f_private := 0x8000, f_size := 13\<rparr>],
       fmem := (\<lambda>a. Some (if a - 0x8000 < 13 then rc_script ! unat (a - 0x8000) else 0))\<rparr>)
     \<lparr>config = \<lparr>kernel_heap_size = 0, logfile = 0, user_stack_size = 0, swap_size = 0, swapfile = 0, swap_enable = 0, panic_on_exception = 0\<rparr>\<rparr>"

lemma boot_example_simps [simp]:
  "root_dir boot_example = 0x700" "vfiles boot_example = [0x700 \<mapsto> zero_vfile, 0x600 \<mapsto> zero_vfile\<lparr>f_private := 0x9000\<rparr>, 0x500 \<mapsto> zero_vfile\<lparr>f_private := 0x8000, f_size := 13\<rparr>]"
  "fmem boot_example = (\<lambda>a. Some (if a - 0x8000 < 13 then rc_script ! unat (a - 0x8000) else 0))"
  by (simp_all add: boot_example_def mod_example_def mod_state.defs)

definition boot_fops :: "u32 \<Rightarrow> int_state boot_state fileops_t" where
  "boot_fops _ = no_fileops\<lparr>op_rfopen := Some (\<lambda>name dir s. Some (0x600, s))\<rparr>"

theorem initrc_read_starts_modules_witness:
  "initrc_read (\<lambda>h message args s. None) boot_fops (\<lambda>entry s. Some (s\<lparr>ramfs_ops := 7\<rparr>)) (\<lambda>_ _. 0) [] 0x500 boot_example =
     Some (Returned, boot_example\<lparr>ramfs_ops := 7\<rparr>)"
proof (rule initrc_read_starts_modules [where names = "[[109]]"])
  have sc: "module_script [[109]] = rc_script" by (simp add: module_script_def module_line_def rc_script_def)
  have script: "text_at (\<lambda>a. Some (if a - 0x8000 < 13 then rc_script ! unat (a - 0x8000) else 0)) 0x8000 0 rc_script"
    by (auto simp: text_at_def word_less_nat_alt unat_of_nat rc_script_def)
  show "text_at (fmem boot_example) (f_private (zero_vfile\<lparr>f_private := 0x8000, f_size := 13\<rparr>)) 0 (module_script [[109]])" using script sc by simp
  have "load_elf_dynamic kmalloc 0x9000 boot_example = Some (0, boot_example)"
    by (simp add: load_elf_dynamic_def header_at_def rd32_def rd16_def)
  then show "modules_started boot_fops (\<lambda>entry s. Some (s\<lparr>ramfs_ops := 7\<rparr>)) (f_private (zero_vfile\<lparr>f_private := 0x8000, f_size := 13\<rparr>))
      (module_script [[109]]) [[109]] boot_example (boot_example\<lparr>ramfs_ops := 7\<rparr>)"
    using script sc by (intro started_one [where p = "0x600" and v = "zero_vfile\<lparr>f_private := 0x9000\<rparr>"
        and ?s1.0 = boot_example and ?s2.0 = "boot_example\<lparr>ramfs_ops := 7\<rparr>"] started_none)
      (simp_all add: boot_fops_def fopen_def get_root_dir_def zero_vfile_def module_start_def)
qed (simp_all add: zero_vfile_def module_script_def module_line_def name_char_def)

end
