(* ===== verification/Pci.thy ===== *)
theory Pci
  imports Initrc Ata
begin

text \<open>
  The PCI bus (\<^verbatim>\<open>src/kernel/drivers/pci.c\<close>): access to the configuration space through the ports \<open>0xcf8\<close> and \<open>0xcfc\<close>, and one file for each
  device under \<^verbatim>\<open>/dev/pci\<close>.

  The port accesses are recorded in \<open>pci_log\<close>, as in \<open>Ata\<close>; the parameter \<open>dev\<close> answers a read from the log that ends with it.  Names are
  character lists; a null pointer among the names of classes is \<^const>\<open>None\<close>.  \<^verbatim>\<open>pci_read_file\<close> returns nothing although the type of the
  file operation has a result; \<open>ret\<close> is what the caller finds.

  The property: reading the file of a device returns its configuration space.
\<close>

subsection \<open>Configuration space\<close>

record 'h pci_state = "'h boot_state" +
  pci_log :: "io_event list"

type_synonym io_device = "io_event list \<Rightarrow> u32"

definition pci_outl :: "u16 \<Rightarrow> u32 \<Rightarrow> ('h, 'b) pci_state_scheme \<Rightarrow> ('h, 'b) pci_state_scheme" where
  "pci_outl port v s = s\<lparr>pci_log := pci_log s @ [Out32 port v]\<rparr>"

definition pci_inl :: "io_device \<Rightarrow> u16 \<Rightarrow> ('h, 'b) pci_state_scheme \<Rightarrow> u32 \<times> ('h, 'b) pci_state_scheme" where
  "pci_inl dev port s = (let log = pci_log s @ [In32 port] in (dev log, s\<lparr>pci_log := log\<rparr>))"

definition pci_address :: "u32 \<Rightarrow> u32 \<Rightarrow> u32 \<Rightarrow> u8 \<Rightarrow> u32" where
  "pci_address bus slot func offset =
     push_bit 16 bus OR push_bit 11 slot OR push_bit 8 func OR ucast (offset AND 0xfc) OR 0x80000000"

definition pci_read_config ::
    "io_device \<Rightarrow> u32 \<Rightarrow> u32 \<Rightarrow> u32 \<Rightarrow> u8 \<Rightarrow> ('h, 'b) pci_state_scheme \<Rightarrow> u16 \<times> ('h, 'b) pci_state_scheme" where
  "pci_read_config dev bus slot func offset s =
     (let s = pci_outl 0xcf8 (pci_address bus slot func offset) s;
          (v, s) = pci_inl dev 0xcfc s
      in (ucast (drop_bit (unat ((offset AND 2) * 8)) v AND 0xffff), s))"

definition pci_write_config ::
    "u32 \<Rightarrow> u32 \<Rightarrow> u32 \<Rightarrow> u8 \<Rightarrow> u16 \<Rightarrow> ('h, 'b) pci_state_scheme \<Rightarrow> u16 \<times> ('h, 'b) pci_state_scheme" where
  "pci_write_config bus slot func offset w s =
     (0, pci_outl 0xcfc (ucast w) (pci_outl 0xcf8 (pci_address bus slot func offset) s))"

subsection \<open>Files\<close>

definition file_bus :: "u32 \<Rightarrow> u8" where
  "file_bus i = ucast (drop_bit 16 i)"

definition file_func :: "u32 \<Rightarrow> u8" where
  "file_func i = ucast (drop_bit 8 i AND 0xff)"

definition file_slot :: "u32 \<Rightarrow> u8" where
  "file_slot i = ucast (i AND 0xff)"

definition pci_read_file ::
    "io_device \<Rightarrow> u32 \<Rightarrow> u32 \<Rightarrow> u32 \<Rightarrow> u64 \<Rightarrow> u64 \<Rightarrow> ('h, 'b) pci_state_scheme \<Rightarrow> (u32 \<times> ('h, 'b) pci_state_scheme) option" where
  "pci_read_file dev ret f buffer offset cnt s = do {
     v \<leftarrow> vfiles s f;
     let bus = ucast (file_bus (f_id v));
     let func = ucast (file_func (f_id v));
     let slot = ucast (file_slot (f_id v));
     s \<leftarrow> fold_opt (\<lambda>i s. do {
         let (lo, s) = pci_read_config dev bus slot func (ucast (offset + of_nat i * 4)) s;
         let (hi, s) = pci_read_config dev bus slot func (ucast (ucast (ucast offset :: u8) + of_nat i * 4 + 2 :: u32)) s;
         on_mem (wr32 (buffer + of_nat i * 4) (ucast lo OR push_bit 16 (ucast hi))) s
       }) [0..<unat (cnt div 4)] s;
     Some (ret, s)
   }"

definition pci_write_file ::
    "u32 \<Rightarrow> u32 \<Rightarrow> u32 \<Rightarrow> u64 \<Rightarrow> u64 \<Rightarrow> ('h, 'b) pci_state_scheme \<Rightarrow> (u32 \<times> ('h, 'b) pci_state_scheme) option" where
  "pci_write_file ret f buffer offset cnt s = Some (ret, s)"

definition pci_fileops :: "io_device \<Rightarrow> u32 \<Rightarrow> (('h, 'b) pci_state_scheme) fileops_t" where
  "pci_fileops dev ret = \<lparr>op_create = None, op_delete = None, op_write = Some (pci_write_file ret), op_read = Some (pci_read_file dev ret),
     op_close = None, op_rfopen = None\<rparr>"

text \<open>The bytes of a text.\<close>

definition chars :: "string \<Rightarrow> u8 list" where
  "chars = map (\<lambda>c. of_char c)"

definition classes :: "string list list" where
  "classes = [[],
     [''scsi'', ''ide'', ''floppy'', ''ipi'', ''raid'', ''ata'', ''sata'', ''sascsi'', ''nvm''],
     [''eth'', ''tring'', ''fddi'', ''atm'', ''isdn'', ''wordfip'', ''picmg'', ''infband'', ''fabric''],
     [''vga'', ''xga'', ''nvga3d''],
     [], [],
     [''host'', ''isa'', ''eisa'', ''mca'', ''pci'', ''pcmcia'', ''nubus'', ''cardbus''],
     [],
     [''pic'', ''dma'', ''timer'', ''rtc'']]"

text \<open>A class outside the table is a fault; a name that the row does not have is a null pointer, which \<^verbatim>\<open>strcpy\<close> ignores.\<close>

definition class_name :: "u32 \<Rightarrow> u8 list option" where
  "class_name c =
     (let row = unat (drop_bit 8 c); col = unat (c AND 0xf)
      in if row < length classes then Some (if col < length (classes ! row) then chars (classes ! row ! col) else []) else None)"

definition class_dir :: "u32 \<Rightarrow> u8 list" where
  "class_dir c =
     (if drop_bit 8 c = 1 then chars ''disk/'' else if drop_bit 8 c = 2 then chars ''net/''
      else if drop_bit 8 c = 3 then chars ''video/'' else if drop_bit 8 c = 6 then chars ''bridge/'' else [])"

text \<open>The number at the end of the name is always 0; \<open>ops\<close> is the address of \<^verbatim>\<open>pci_fileops\<close>.\<close>

definition pci_make_file ::
    "(u32 \<Rightarrow> ('x mm_state_scheme, 'b) pci_state_scheme fileops_t) \<Rightarrow> io_device \<Rightarrow> u32 \<Rightarrow> u32 \<Rightarrow> u8 \<Rightarrow> u8 \<Rightarrow> u8 \<Rightarrow>
     ('x mm_state_scheme, 'b) pci_state_scheme \<Rightarrow> ('x mm_state_scheme, 'b) pci_state_scheme option" where
  "pci_make_file fops dev ops cls bus slot func s = do {
     name \<leftarrow> class_name cls;
     let s = (if drop_bit 8 cls = 1
              then let (lo, s) = pci_read_config dev (ucast bus) (ucast slot) (ucast func) 4 s;
                       (hi, s) = pci_read_config dev (ucast bus) (ucast slot) (ucast func) 6 s;
                       l = (ucast lo OR push_bit 16 (ucast hi) :: u32)
                   in snd (pci_write_config (ucast bus) (ucast slot) (ucast func) 4 (ucast (l OR 4)) s)
              else s);
     (f, s) \<leftarrow> fcreate kmalloc kfree fops (Some (chars ''/dev/pci/'' @ class_dir cls @ name @ chars ''0'')) 0 s;
     if f = 0 then Some s
     else upd_vfile f (\<lambda>v. v\<lparr>f_ops := ops, f_id := ucast slot OR push_bit 8 (ucast func) OR push_bit 16 (ucast bus)\<rparr>) s
   }"

definition pci_read_funcs ::
    "(u32 \<Rightarrow> ('x mm_state_scheme, 'b) pci_state_scheme fileops_t) \<Rightarrow> io_device \<Rightarrow> u32 \<Rightarrow> u8 \<Rightarrow> u8 \<Rightarrow>
     ('x mm_state_scheme, 'b) pci_state_scheme \<Rightarrow> ('x mm_state_scheme, 'b) pci_state_scheme option" where
  "pci_read_funcs fops dev ops bus slot s = fold_opt (\<lambda>i s. do {
       let (vendor, s) = pci_read_config dev (ucast bus) (ucast slot) (of_nat i) 0 s;
       if vendor \<noteq> 0xffff
       then do {
         let (device, s) = pci_read_config dev (ucast bus) (ucast slot) (of_nat i) 2 s;
         let (header, s) = pci_read_config dev (ucast bus) (ucast slot) (of_nat i) 0xe s;
         let (cls, s) = pci_read_config dev (ucast bus) (ucast slot) (of_nat i) 0xa s;
         pci_make_file fops dev ops (ucast cls) bus slot (of_nat i) s
       }
       else Some s
     }) [1..<256] s"

definition pci_get_vendor ::
    "(u32 \<Rightarrow> ('x mm_state_scheme, 'b) pci_state_scheme fileops_t) \<Rightarrow> io_device \<Rightarrow> u32 \<Rightarrow> u8 \<Rightarrow> u8 \<Rightarrow>
     ('x mm_state_scheme, 'b) pci_state_scheme \<Rightarrow> (u16 \<times> ('x mm_state_scheme, 'b) pci_state_scheme) option" where
  "pci_get_vendor fops dev ops bus slot s = do {
     let (vendor, s) = pci_read_config dev (ucast bus) (ucast slot) 0 0 s;
     if vendor \<noteq> 0xffff
     then do {
       let (device, s) = pci_read_config dev (ucast bus) (ucast slot) 0 2 s;
       let (header, s) = pci_read_config dev (ucast bus) (ucast slot) 0 0xe s;
       let (cls, s) = pci_read_config dev (ucast bus) (ucast slot) 0 0xa s;
       s \<leftarrow> (if header AND 0x80 \<noteq> 0 then pci_read_funcs fops dev ops bus slot s else Some s);
       s \<leftarrow> pci_make_file fops dev ops (ucast cls) bus slot 0 s;
       Some (vendor, s)
     }
     else Some (vendor, s)
   }"

definition pci_enumerate_bus ::
    "(u32 \<Rightarrow> ('x mm_state_scheme, 'b) pci_state_scheme fileops_t) \<Rightarrow> io_device \<Rightarrow> u32 \<Rightarrow> u8 \<Rightarrow>
     ('x mm_state_scheme, 'b) pci_state_scheme \<Rightarrow> ('x mm_state_scheme, 'b) pci_state_scheme option" where
  "pci_enumerate_bus fops dev ops bus s =
     fold_opt (\<lambda>i s. do { (vendor, s) \<leftarrow> pci_get_vendor fops dev ops bus (of_nat i) s; Some s }) [0..<32] s"

definition make_dirs ::
    "(u32 \<Rightarrow> ('x mm_state_scheme, 'b) fs_state_scheme fileops_t) \<Rightarrow> u8 list list \<Rightarrow>
     ('x mm_state_scheme, 'b) fs_state_scheme \<Rightarrow> ('x mm_state_scheme, 'b) fs_state_scheme option" where
  "make_dirs fops names s = fold_opt (\<lambda>n s. do { (f, s) \<leftarrow> fcreate kmalloc kfree fops (Some n) 0x10 s; Some s }) names s"

definition pci_init ::
    "(u32 \<Rightarrow> ('x mm_state_scheme, 'b) pci_state_scheme fileops_t) \<Rightarrow> io_device \<Rightarrow> u32 \<Rightarrow>
     ('x mm_state_scheme, 'b) pci_state_scheme \<Rightarrow> ('x mm_state_scheme, 'b) pci_state_scheme option" where
  "pci_init fops dev ops s = do {
     s \<leftarrow> make_dirs fops [chars ''/dev/pci/'', chars ''/dev/pci/disk'', chars ''/dev/pci/net'', chars ''/dev/pci/video'', chars ''/dev/pci/bridge''] s;
     fold_opt (\<lambda>i. pci_enumerate_bus fops dev ops (of_nat i)) [0..<256] s
   }"

subsection \<open>Reading the file of a device\<close>

text \<open>
  A host bridge with configuration mechanism 1: after a write to the address port of \<open>2 ^ 31\<close> plus the number of the bus times \<open>2 ^ 16\<close>, that
  of the device times \<open>2 ^ 11\<close>, that of the function times \<open>2 ^ 8\<close> and four times that of the register, the data port gives this register.
\<close>

definition pci_bridge :: "(nat \<Rightarrow> nat \<Rightarrow> nat \<Rightarrow> nat \<Rightarrow> u32) \<Rightarrow> io_device \<Rightarrow> bool" where
  "pci_bridge cfg dev \<longleftrightarrow> (\<forall>log b d f r. b < 256 \<and> d < 32 \<and> f < 8 \<and> r < 64 \<longrightarrow>
     dev (log @ [Out32 0xcf8 (of_nat (2 ^ 31 + b * 2 ^ 16 + d * 2 ^ 11 + f * 2 ^ 8 + 4 * r)), In32 0xcfc]) = cfg b d f r)"

text \<open>The answers to the addresses that the driver forms for one device.\<close>

definition pci_answers :: "(u32 \<Rightarrow> u32) \<Rightarrow> io_device \<Rightarrow> u32 \<Rightarrow> u32 \<Rightarrow> u32 \<Rightarrow> bool" where
  "pci_answers ans dev bus slot func \<longleftrightarrow>
     (\<forall>log x. dev (log @ [Out32 0xcf8 (pci_address bus slot func x), In32 0xcfc]) = ans (pci_address bus slot func x))"

lemma unat_u8_less: "unat (x :: u8) < 256"
  using unsigned_less [of x, where 'a = nat] by simp

lemma bit_small: "unat x < 2 ^ k \<Longrightarrow> bit x n \<Longrightarrow> n < k" for x :: "'a::len word"
proof (rule ccontr)
  assume x: "unat x < 2 ^ k" "bit x n" "\<not> n < k"
  have "odd (unat x div 2 ^ n)" using x(2) by (simp add: bit_unsigned_iff flip: bit_iff_odd)
  then have "\<not> unat x < 2 ^ n" by (auto simp: div_less)
  then show False using x(1,3) power_increasing [of k n "2 :: nat"] by linarith
qed

lemma pci_address_fields:
  fixes bus slot func x :: u8
  assumes "unat slot < 32" "unat func < 8"
  shows "pci_address (ucast bus) (ucast slot) (ucast func) x =
    of_nat (2 ^ 31 + unat bus * 2 ^ 16 + unat slot * 2 ^ 11 + unat func * 2 ^ 8 + 4 * (unat x div 4))"
proof -
  have s: "n < 5" if "bit slot n" for n using that assms(1) bit_small [of slot 5 n] by simp
  have f: "n < 3" if "bit func n" for n using that assms(2) bit_small [of func 3 n] by simp
  have u: "n < 8" if "bit (y :: u8) n" for y n using bit_imp_le_length [OF that] by simp
  have top: "bit (0x80000000 :: u32) n \<longleftrightarrow> n = 31" for n using bit_exp_iff [of 31 n, where 'a = u32] by auto
  let ?b = "push_bit 16 (ucast bus) :: u32" and ?s = "push_bit 11 (ucast slot) :: u32" and ?f = "push_bit 8 (ucast func) :: u32"
    and ?x = "ucast (x AND 0xfc) :: u32"
  have 1: "?b OR ?s = ?b + ?s" by (rule disjunctive_add [symmetric]) (auto simp: bit_simps dest!: s)
  have 2: "(?b OR ?s) OR ?f = (?b OR ?s) + ?f" by (rule disjunctive_add [symmetric]) (auto simp: bit_simps dest!: f)
  have 3: "((?b OR ?s) OR ?f) OR ?x = ((?b OR ?s) OR ?f) + ?x" by (rule disjunctive_add [symmetric]) (auto simp: bit_simps dest!: u)
  have "\<not> bit (((?b OR ?s) OR ?f) OR ?x) 31" by (auto simp: bit_simps dest!: u)
  then have "\<not> bit (((?b OR ?s) OR ?f) OR ?x) n \<or> \<not> bit (0x80000000 :: u32) n" for n unfolding top by blast
  then have 4: "(((?b OR ?s) OR ?f) OR ?x) OR 0x80000000 = (((?b OR ?s) OR ?f) OR ?x) + 0x80000000"
    by (rule disjunctive_add [symmetric])
  have "(0xfc :: u8) = NOT (mask 2)" by (simp add: mask_eq_exp_minus_1)
  moreover have "x AND NOT (mask 2) = push_bit 2 (drop_bit 2 x)"
    by (rule bit_word_eqI) (auto simp: bit_simps le_add_diff_inverse simp del: add_2_eq_Suc)
  ultimately have "x AND 0xfc = push_bit 2 (drop_bit 2 x)" by (simp only:)
  then have "unat (x AND 0xfc) = 4 * (unat x div 4)"
    using unat_u8_less [of x] by (simp add: push_bit_eq_mult unat_word_ariths unat_drop_bit)
  moreover have "?x = of_nat (unat (x AND 0xfc))" by simp
  ultimately have x: "?x = of_nat (4 * (unat x div 4))" by (simp only:)
  have "pci_address (ucast bus) (ucast slot) (ucast func) x = ?b + ?s + ?f + ?x + 0x80000000"
    unfolding pci_address_def or.assoc [symmetric] 4 unfolding 3 unfolding 2 unfolding 1 ..
  also have "\<dots> = of_nat (2 ^ 31 + unat bus * 2 ^ 16 + unat slot * 2 ^ 11 + unat func * 2 ^ 8 + 4 * (unat x div 4))"
    unfolding x by (simp add: push_bit_eq_mult)
  finally show ?thesis .
qed

lemma pci_bridge_answers:
  fixes bus slot func :: u8
  assumes "pci_bridge cfg dev" "unat slot < 32" "unat func < 8"
  obtains ans where "pci_answers ans dev (ucast bus) (ucast slot) (ucast func)"
    "\<And>x. ans (pci_address (ucast bus) (ucast slot) (ucast func) x) = cfg (unat bus) (unat slot) (unat func) (unat x div 4)"
proof
  let ?a = "pci_address (ucast bus) (ucast slot) (ucast func)"
  have ans: "dev (log @ [Out32 0xcf8 (?a x), In32 0xcfc]) = cfg (unat bus) (unat slot) (unat func) (unat x div 4)" for log x
    unfolding pci_address_fields [OF assms(2,3)]
    by (rule assms(1) [unfolded pci_bridge_def, rule_format]) (use assms(2,3) unat_u8_less [of bus] unat_u8_less [of x] in simp)
  then show "(\<lambda>a. dev [Out32 0xcf8 a, In32 0xcfc]) (?a x) = cfg (unat bus) (unat slot) (unat func) (unat x div 4)" for x
    using ans [of "[]" x] by simp
  then show "pci_answers (\<lambda>a. dev [Out32 0xcf8 a, In32 0xcfc]) dev (ucast bus) (ucast slot) (ucast func)"
    using ans by (simp add: pci_answers_def)
qed

lemma pci_read_config_bridge:
  assumes "pci_answers cfg dev bus slot func"
  shows "pci_read_config dev bus slot func offset s =
    (ucast (drop_bit (unat ((offset AND 2) * 8)) (cfg (pci_address bus slot func offset)) AND 0xffff),
     s\<lparr>pci_log := pci_log s @ [Out32 0xcf8 (pci_address bus slot func offset), In32 0xcfc]\<rparr>)"
  using assms by (simp add: pci_read_config_def pci_outl_def pci_inl_def pci_answers_def Let_def)

lemma word_halves: "(ucast (ucast (drop_bit 0 c AND 0xffff) :: u16) :: u32) OR push_bit 16 (ucast (ucast (drop_bit 16 c AND 0xffff) :: u16)) = c" for c :: u32
proof (rule bit_word_eqI)
  fix n
  assume "n < LENGTH(32)"
  have m: "(0xffff :: u32) = mask 16" by (simp add: mask_eq_exp_minus_1)
  show "bit ((ucast (ucast (drop_bit 0 c AND 0xffff) :: u16) :: u32) OR push_bit 16 (ucast (ucast (drop_bit 16 c AND 0xffff) :: u16))) n = bit c n"
    using \<open>n < LENGTH(32)\<close> unfolding m by (auto simp: bit_simps)
qed

text \<open>The two halves of an aligned double word have the same address.\<close>

lemma aligned_halves:
  fixes k :: u8
  defines "x \<equiv> push_bit 2 k"
  shows "x AND 2 = 0" "(x + 2) AND 2 = 2" "(x + 2) AND 0xfc = x AND 0xfc"
proof -
  have two: "bit (2 :: u8) n \<longleftrightarrow> n = 1" for n using bit_exp_iff [of 1 n, where 'a = u8] by (cases "n = 1") simp_all
  have fc: "bit (0xfc :: u8) n \<longrightarrow> n \<noteq> 1" for n by auto
  have or2: "x + 2 = x OR 2" unfolding x_def by (rule disjunctive_add) (auto simp: bit_simps two)
  show "x AND 2 = 0" unfolding x_def by (rule bit_word_eqI) (auto simp: bit_simps two)
  show "(x + 2) AND 2 = 2" unfolding or2 by (rule bit_word_eqI) (auto simp: bit_simps two)
  show "(x + 2) AND 0xfc = x AND 0xfc" unfolding or2 by (rule bit_word_eqI) (use fc in \<open>auto simp: bit_simps two\<close>)
qed

lemma file_id_fields:
  fixes bus slot func :: u8
  defines "i \<equiv> ucast slot OR push_bit 8 (ucast func) OR push_bit 16 (ucast bus) :: u32"
  shows "file_bus i = bus" "file_func i = func" "file_slot i = slot"
proof -
  have m: "(0xff :: u32) = mask 8" by (simp add: mask_eq_exp_minus_1)
  show "file_bus i = bus" by (rule bit_word_eqI) (auto simp: file_bus_def i_def bit_simps dest: bit_imp_le_length)
  show "file_func i = func" by (rule bit_word_eqI) (auto simp: file_func_def i_def m bit_simps dest: bit_imp_le_length)
  show "file_slot i = slot" by (rule bit_word_eqI) (auto simp: file_slot_def i_def m bit_simps dest: bit_imp_le_length)
qed

lemma pci_dword:
  assumes br: "pci_answers cfg dev bus slot func" and x: "x = push_bit 2 k"
  shows "ucast (fst (pci_read_config dev bus slot func x s)) OR push_bit 16 (ucast (fst (pci_read_config dev bus slot func (x + 2) s'))) =
    cfg (pci_address bus slot func x)"
proof -
  have "pci_address bus slot func (x + 2) = pci_address bus slot func x" using aligned_halves(3) [of k] by (simp add: pci_address_def x)
  then show ?thesis using aligned_halves(1,2) [of k] word_halves [of "cfg (pci_address bus slot func x)"]
    by (simp add: pci_read_config_bridge [OF br] x)
qed

lemma low_byte_of_nat: "8 \<le> LENGTH('a::len) \<Longrightarrow> (ucast (of_nat n :: 'a word) :: u8) = of_nat n"
  by (rule bit_word_eqI) (simp add: bit_simps)

lemma low_byte_add:
  fixes x y :: "'a::len word"
  assumes "8 \<le> LENGTH('a)"
  shows "(ucast (x + y) :: u8) = ucast x + ucast y" "(ucast (x * y) :: u8) = ucast x * ucast y"
  using low_byte_of_nat [OF assms, of "unat x + unat y"] low_byte_of_nat [OF assms, of "unat x * unat y"] by simp_all

lemma low_byte_ucast: "(ucast (ucast (b :: u8) :: u32) :: u8) = b"
  by (rule bit_word_eqI) (simp add: bit_simps)

lemma mapped_word:
  assumes "mapped m p (4 * n)" "i < n"
  shows "word_mapped m (p + of_nat i * 4)"
proof -
  have at: "m (p + of_nat i * 4 + of_nat k) \<noteq> None" if "k < 4" for k
    using mapped_at [OF assms(1), of "4 * i + k"] assms(2) that by (simp add: algebra_simps)
  show ?thesis using at [of 0] at [of 1] at [of 2] at [of 3] by (simp add: word_mapped_def)
qed

text \<open>One round of the loop stores the double word of the configuration space at the offset of the round.\<close>

lemma pci_file_word:
  fixes t :: "('h, 'b) pci_state_scheme"
  assumes br: "pci_answers cfg dev bus slot func" and off: "unat offset mod 4 = 0"
  shows "\<exists>t'. (do {
         let (lo, s) = pci_read_config dev bus slot func (ucast (offset + of_nat i * 4)) t;
         let (hi, s) = pci_read_config dev bus slot func (ucast (ucast (ucast (offset :: u64) :: u8) + of_nat i * 4 + 2 :: u32)) s;
         on_mem (wr32 p (ucast lo OR push_bit 16 (ucast hi))) s }) =
      on_mem (wr32 p (cfg (pci_address bus slot func (of_nat (unat offset + 4 * i))))) t' \<and> vfiles t' = vfiles t \<and> fmem t' = fmem t"
proof -
  define x :: u8 where "x = of_nat (unat offset + 4 * i)"
  have "unat offset + 4 * i = 4 * (unat offset div 4 + i)" using off by (simp add: algebra_simps) presburger
  then have "x = of_nat (4 * (unat offset div 4 + i))" by (simp only: x_def)
  also have "\<dots> = push_bit 2 (of_nat (unat offset div 4 + i))" by (simp only: of_nat_mult) (simp add: push_bit_eq_mult del: of_nat_add)
  finally have xk: "x = push_bit 2 (of_nat (unat offset div 4 + i))" .
  have lo: "(ucast (offset + of_nat i * 4) :: u8) = x" and hi: "(ucast (ucast (ucast offset :: u8) + of_nat i * 4 + 2 :: u32) :: u8) = x + 2"
    by (simp_all add: x_def low_byte_add low_byte_of_nat low_byte_ucast mult.commute)
  let ?t1 = "snd (pci_read_config dev bus slot func x t)"
  have "?t1 = t\<lparr>pci_log := pci_log ?t1\<rparr>" "snd (pci_read_config dev bus slot func (x + 2) ?t1) = t\<lparr>pci_log := pci_log (snd (pci_read_config dev bus slot func (x + 2) ?t1))\<rparr>"
    by (simp_all add: pci_read_config_bridge [OF br])
  then show ?thesis using pci_dword [OF br xk, of t ?t1] unfolding lo hi
    by (intro exI [of _ "snd (pci_read_config dev bus slot func (x + 2) ?t1)"]) (simp add: x_def case_prod_beta Let_def pci_read_config_bridge [OF br])
qed

text \<open>
  C17. On a bridge with configuration mechanism 1, reading the file of function \<open>func\<close> of the device in slot \<open>slot\<close> on bus \<open>bus\<close> from an offset that is a
  multiple of 4 fills the buffer with the registers of exactly this function, from that offset on, and changes no other memory.  The slot is
  below 32 and the function below 8, as they are for every device; the numbers are in the identifier of the file, where \<^verbatim>\<open>pci_make_file\<close> puts them.
\<close>

theorem pci_file_reads_config:
  fixes s :: "('h, 'b) pci_state_scheme" and bus slot func :: u8
  assumes br: "pci_bridge cfg dev" "unat slot < 32" "unat func < 8"
    and v: "vfiles s f = Some v" "f_id v = ucast slot OR push_bit 8 (ucast func) OR push_bit 16 (ucast bus)"
    and off: "unat offset mod 4 = 0" "unat offset + unat cnt \<le> 256" and mem: "mapped (fmem s) buffer (4 * (unat cnt div 4))"
  shows "\<exists>s'. pci_read_file dev ret f buffer offset cnt s = Some (ret, s') \<and> vfiles s' = vfiles s \<and>
    (\<forall>i<unat cnt div 4. rd32 (fmem s') (buffer + of_nat i * 4) = Some (cfg (unat bus) (unat slot) (unat func) (unat offset div 4 + i))) \<and>
    (\<forall>a. \<not> span buffer (4 * (unat cnt div 4)) a \<longrightarrow> fmem s' a = fmem s a)"
proof -
  let ?n = "unat cnt div 4" and ?c = "\<lambda>i. cfg (unat bus) (unat slot) (unat func) (unat offset div 4 + i)"
  obtain ans where ans: "pci_answers ans dev (ucast bus) (ucast slot) (ucast func)"
      "\<And>x. ans (pci_address (ucast bus) (ucast slot) (ucast func) x) = cfg (unat bus) (unat slot) (unat func) (unat x div 4)"
    using pci_bridge_answers [OF br, of bus] by blast
  let ?f = "\<lambda>i s. do {
         let (lo, s) = pci_read_config dev (ucast bus) (ucast slot) (ucast func) (ucast (offset + of_nat i * 4)) s;
         let (hi, s) = pci_read_config dev (ucast bus) (ucast slot) (ucast func) (ucast (ucast (ucast offset :: u8) + of_nat i * 4 + 2 :: u32)) s;
         on_mem (wr32 (buffer + of_nat i * 4) (ucast lo OR push_bit 16 (ucast hi))) s }"
  let ?P = "\<lambda>i (s' :: ('h, 'b) pci_state_scheme). vfiles s' = vfiles s \<and> mapped (fmem s') buffer (4 * ?n) \<and>
      (\<forall>j<i. rd32 (fmem s') (buffer + of_nat j * 4) = Some (?c j)) \<and> (\<forall>a. \<not> span buffer (4 * ?n) a \<longrightarrow> fmem s' a = fmem s a)"
  have n: "?n \<le> 64" using off(2) div_le_mono [of "unat cnt" 256 4] by simp
  have "\<exists>s'. fold_opt ?f [0..<?n] s = Some s' \<and> ?P ?n s'"
  proof (rule fold_opt_invariant [where P = ?P])
    fix i t
    assume i: "i < ?n" and P: "?P i t"
    have reg: "unat (of_nat (unat offset + 4 * i) :: u8) div 4 = unat offset div 4 + i"
      using i off by (subst unat_of_nat_lt) (simp_all, presburger?)
    obtain t' where t': "?f i t = on_mem (wr32 (buffer + of_nat i * 4) (?c i)) t'" "vfiles t' = vfiles t" "fmem t' = fmem t"
      using pci_file_word [OF ans(1) off(1), where i = i and p = "buffer + of_nat i * 4" and t = t] unfolding ans(2) reg by blast
    have wm: "word_mapped (fmem t) (buffer + of_nat i * 4)"
      using mapped_word [of "fmem t" buffer ?n i] P i by simp
    obtain m where m: "wr32 (buffer + of_nat i * 4) (?c i) (fmem t) = Some m" using wr32_total [OF wm] by blast
    have "rd32 m (buffer + of_nat j * 4) = Some (?c j)" if "j < Suc i" for j
    proof (cases "j = i")
      case True
      then show ?thesis using rd32_wr32_same [OF m] by simp
    next
      case False
      then have "rd32 m (buffer + of_nat j * 4) = rd32 (fmem t) (buffer + of_nat j * 4)"
        using that i off(2) by (intro rd32_wr32_other [OF m]) simp_all
      then show ?thesis using P False that by simp
    qed
    moreover have "m a = fmem t a" if "\<not> span buffer (4 * ?n) a" for a
    proof -
      have "\<not> span (buffer + of_nat i * 4) 4 a"
        using that i n span_shift [of buffer "4 * i" 4 a "4 * ?n"] by (auto simp: mult.commute)
      then show ?thesis by (intro wr32_frame [OF m]) (auto simp: span_word)
    qed
    ultimately show "\<exists>t''. ?f i t = Some t'' \<and> ?P (Suc i) t''" using t' m P wr32_mapped [OF m] by (auto simp: on_mem_def)
  qed (use mem in simp)
  moreover have "unat (cnt div 4) = ?n" by (simp add: unat_div)
  ultimately show ?thesis using v by (auto simp: pci_read_file_def file_id_fields Let_def)
qed

text \<open>A bridge that answers with the address itself, and the file of function 2 in slot 3 of bus 1.\<close>

definition echo_bridge :: io_device where
  "echo_bridge log = (case rev log of In32 p # Out32 q a # rest \<Rightarrow> a | _ \<Rightarrow> 0)"

definition pci_example :: "int_state pci_state" where
  "pci_example = boot_state.extend (boot_example\<lparr>vfiles := [0x500 \<mapsto> zero_vfile\<lparr>f_id := 0x10203\<rparr>], fmem := \<lambda>_. Some 0\<rparr>) \<lparr>pci_log = []\<rparr>"

lemma pci_file_reads_config_witness:
  "\<exists>s'. pci_read_file echo_bridge 0 0x500 0x8000 8 8 pci_example = Some (0, s') \<and> rd32 (fmem s') 0x8004 = Some 0x80011a0c"
proof -
  define cfg :: "nat \<Rightarrow> nat \<Rightarrow> nat \<Rightarrow> nat \<Rightarrow> u32" where "cfg b d f r = of_nat (2 ^ 31 + b * 2 ^ 16 + d * 2 ^ 11 + f * 2 ^ 8 + 4 * r)" for b d f r
  have br: "pci_bridge cfg echo_bridge" by (simp add: pci_bridge_def echo_bridge_def cfg_def)
  have "\<exists>s'. pci_read_file echo_bridge 0 0x500 0x8000 8 8 pci_example = Some (0, s') \<and> vfiles s' = vfiles pci_example \<and>
      (\<forall>i<unat (8 :: u64) div 4. rd32 (fmem s') (0x8000 + of_nat i * 4) =
         Some (cfg (unat (1 :: u8)) (unat (3 :: u8)) (unat (2 :: u8)) (unat (8 :: u64) div 4 + i))) \<and>
      (\<forall>a. \<not> span 0x8000 (4 * (unat (8 :: u64) div 4)) a \<longrightarrow> fmem s' a = fmem pci_example a)"
  proof (rule pci_file_reads_config [OF br])
    show "vfiles pci_example 0x500 = Some (zero_vfile\<lparr>f_id := 0x10203\<rparr>)" by (simp add: pci_example_def boot_state.defs)
    show "mapped (fmem pci_example) 0x8000 (4 * (unat (8 :: u64) div 4))" by (simp add: pci_example_def boot_state.defs mapped_def)
  qed (simp_all add: zero_vfile_def)
  then obtain s' where s': "pci_read_file echo_bridge 0 0x500 0x8000 8 8 pci_example = Some (0, s')"
      "\<forall>i<unat (8 :: u64) div 4. rd32 (fmem s') (0x8000 + of_nat i * 4) =
         Some (cfg (unat (1 :: u8)) (unat (3 :: u8)) (unat (2 :: u8)) (unat (8 :: u64) div 4 + i))" by blast
  have "1 < unat (8 :: u64) div 4" by simp
  note s'(2) [rule_format, OF this]
  moreover have "cfg (unat (1 :: u8)) (unat (3 :: u8)) (unat (2 :: u8)) (unat (8 :: u64) div 4 + 1) = 0x80011a0c" by (simp add: cfg_def)
  moreover have "(0x8000 :: u32) + of_nat 1 * 4 = 0x8004" by simp
  ultimately have "rd32 (fmem s') 0x8004 = Some 0x80011a0c" by (simp only:)
  then show ?thesis using s'(1) by blast
qed

text \<open>Functions from 8 on have the addresses of other slots.\<close>

lemma pci_functions_alias: "pci_address bus slot 8 offset = pci_address bus (slot OR 1) 0 offset" if "\<not> bit slot 0"
  by (rule bit_word_eqI) (auto simp: pci_address_def bit_simps that)

end
