(* ===== verification/Ustar.thy ===== *)
theory Ustar
  imports Pci "HOL-Library.Signed_Division"
begin

text \<open>
  The initial RAM disk (\<^verbatim>\<open>drivers/ustar.c\<close>).  The archive is a range of the memory; a header has 512 bytes, with the name at 0, the size as
  eleven octal digits at 124 and the mark at 257.  A path longer than the array \<^verbatim>\<open>final_fname[80]\<close> and a size whose sum with 4095 leaves
  the range of \<^verbatim>\<open>int\<close> are undefined, \<^const>\<open>None\<close>.

  The properties: the size field is the octal number that its digits spell, and an archive is unpacked completely, file after file.
\<close>

subsection \<open>The size field\<close>

text \<open>The eleven characters from the last to the first; \<open>j\<close> is the loop variable.\<close>

fun getsize_loop :: "(nat \<Rightarrow> u8) \<Rightarrow> nat \<Rightarrow> u32 \<Rightarrow> u32 \<Rightarrow> u32" where
  "getsize_loop digit 0 weight acc = acc"
| "getsize_loop digit (Suc j) weight acc = getsize_loop digit j (weight * 8) (acc + (scast (digit j) - 48) * weight)"

definition ustar_getsize :: "bmem \<Rightarrow> u32 \<Rightarrow> u32 option" where
  "ustar_getsize m inp =
     (if \<forall>j<11. m (inp + of_nat j) \<noteq> None then Some (getsize_loop (\<lambda>j. the (m (inp + of_nat j))) 11 1 0) else None)"

subsection \<open>Unpacking\<close>

text \<open>A string with its terminator cut off.\<close>

definition string_at :: "bmem \<Rightarrow> u32 \<Rightarrow> u8 list option" where
  "string_at m p = map_option (\<lambda>n. map (\<lambda>i. the (m (p + of_nat i))) [0..<unat n]) (strlen m p)"

abbreviation (input) fname_offset :: u32 where "fname_offset \<equiv> 0"
abbreviation (input) fsize_offset :: u32 where "fsize_offset \<equiv> 124"
abbreviation (input) mark_offset :: u32 where "mark_offset \<equiv> 257"

text \<open>\<^verbatim>\<open>memcmp\<close> with a constant, which stops at the first difference.\<close>

fun matches :: "bmem \<Rightarrow> u32 \<Rightarrow> u8 list \<Rightarrow> bool option" where
  "matches m p [] = Some True"
| "matches m p (c # cs) = do { b \<leftarrow> m p; if b = c then matches m (p + 1) cs else Some False }"

definition is_ustar :: "bmem \<Rightarrow> u32 \<Rightarrow> bool option" where
  "is_ustar m p = matches m (p + mark_offset) (chars ''ustar'')"

definition boot_path :: "u8 list \<Rightarrow> u8 list option" where
  "boot_path n = (if length (chars ''/boot/'' @ n) < 80 then Some (chars ''/boot/'' @ n) else None)"

definition size_in_pages :: "int \<Rightarrow> u32" where
  "size_in_pages filesize = of_int ((filesize + 4095) sdiv 4096)"

definition next_header :: "int \<Rightarrow> u32" where
  "next_header filesize = of_int (((filesize + 511) sdiv 512 + 1) * 512)"

definition install_file ::
    "u32 \<Rightarrow> u32 \<Rightarrow> u32 \<Rightarrow> ('x mm_state_scheme, 'b) fs_state_scheme \<Rightarrow> ('x mm_state_scheme, 'b) fs_state_scheme option" where
  "install_file tmp data pages s = do {
     v \<leftarrow> vfiles s tmp;
     s \<leftarrow> (if f_private v \<noteq> 0 then krelease kfree (f_private v) s else Some s);
     upd_vfile tmp (\<lambda>v. v\<lparr>f_private := data, f_size := ucast (pages * 4096)\<rparr>) s
   }"

partial_function (option) initrd_loop ::
    "(u32 \<Rightarrow> ('x mm_state_scheme, 'b) fs_state_scheme fileops_t) \<Rightarrow> u32 \<Rightarrow> u32 \<Rightarrow> ('x mm_state_scheme, 'b) fs_state_scheme \<Rightarrow>
     (u32 \<times> ('x mm_state_scheme, 'b) fs_state_scheme) option" where
  "initrd_loop fops archive offset s = do {
     more \<leftarrow> is_ustar (fmem s) (archive + offset);
     if \<not> more then Some (0, s)
     else do {
       sz \<leftarrow> ustar_getsize (fmem s) (archive + offset + fsize_offset);
       let filesize = sint sz;
       if filesize + 4095 \<ge> 2 ^ 31 then None
       else do {
         n \<leftarrow> string_at (fmem s) (archive + offset + fname_offset);
         final_fname \<leftarrow> boot_path n;
         (tmp, s) \<leftarrow> fcreate kmalloc kfree fops (Some final_fname) 0 s;
         if tmp = 0 then Some (1, s)
         else do {
           s \<leftarrow> install_file tmp (archive + offset + 512) (size_in_pages filesize) s;
           initrd_loop fops archive (offset + next_header filesize) s
         }
       }
     }
   }"

definition read_initrd ::
    "(u32 \<Rightarrow> ('x mm_state_scheme, 'b) fs_state_scheme fileops_t) \<Rightarrow> u32 \<Rightarrow> ('x mm_state_scheme, 'b) fs_state_scheme \<Rightarrow>
     (u32 \<times> ('x mm_state_scheme, 'b) fs_state_scheme) option" where
  "read_initrd fops archive s = initrd_loop fops archive 0 s"

subsection \<open>Octal numbers\<close>

definition octal_digit :: "u8 \<Rightarrow> bool" where
  "octal_digit c \<longleftrightarrow> 48 \<le> c \<and> c < 56"

definition octal_value :: "u8 list \<Rightarrow> nat" where
  "octal_value ds = foldl (\<lambda>n d. 8 * n + (unat d - 48)) 0 ds"

lemma octal_digit_value: "octal_digit c \<Longrightarrow> (scast c - 48 :: u32) = of_nat (unat c - 48)"
proof -
  assume o: "octal_digit c"
  then have c: "48 \<le> unat c" "unat c < 56" by (simp_all add: octal_digit_def word_le_nat_alt word_less_nat_alt)
  have "uint c < 56" using o by (simp add: octal_digit_def word_less_def)
  then have "signed_take_bit 7 (uint c) = uint c" by (intro signed_take_bit_int_eq_self) (simp_all add: order_trans [OF _ uint_ge_0])
  then have "sint c = int (unat c)" by (simp add: sint_uint)
  then have "(scast c :: u32) = of_int (int (unat c))" by (metis scast_eq)
  then show ?thesis using c(1) by (simp add: of_nat_diff)
qed

lemma octal_value_append: "octal_value (ds @ [d]) = 8 * octal_value ds + (unat d - 48)"
  by (simp add: octal_value_def)

lemma getsize_loop_octal:
  assumes "\<forall>j<n. octal_digit (digit j)"
  shows "getsize_loop digit n weight acc = acc + of_nat (octal_value (map digit [0..<n])) * weight"
  using assms
proof (induction n arbitrary: weight acc)
  case (Suc n)
  then show ?case by (simp add: octal_value_append octal_digit_value algebra_simps)
qed (simp add: octal_value_def)

text \<open>
  C40. The size of a file in the archive is the number that its eleven octal digits spell, when that fits 32 bits.
\<close>

theorem ustar_getsize_octal:
  assumes digits: "\<forall>j<11. m (inp + of_nat j) = Some (ds ! j)" "length ds = 11" "\<forall>d\<in>set ds. octal_digit d"
    and fits: "octal_value ds < 2 ^ 32"
  shows "\<exists>n. ustar_getsize m inp = Some n \<and> unat n = octal_value ds"
proof -
  let ?d = "\<lambda>j. the (m (inp + of_nat j))"
  have ds: "map ?d [0..<11] = ds" by (rule nth_equalityI) (simp_all add: digits(1,2) del: upt_rec_numeral)
  have "\<forall>j<11. octal_digit (?d j)" using digits by (auto simp: all_set_conv_all_nth)
  then have "ustar_getsize m inp = Some (of_nat (octal_value ds))"
    using digits(1) getsize_loop_octal [of 11 ?d 1 0] unfolding ds by (simp add: ustar_getsize_def)
  then show ?thesis using fits by (simp add: unat_of_nat)
qed

theorem ustar_getsize_octal_witness:
  "\<exists>n. ustar_getsize (bytes_at 0x1000 [48, 48, 48, 48, 48, 48, 48, 48, 49, 48, 48]) 0x1000 = Some n \<and> unat n = 64"
proof -
  let ?ds = "[48, 48, 48, 48, 48, 48, 48, 48, 49, 48, 48] :: u8 list"
  have v: "octal_value ?ds = 64" by (simp add: octal_value_def)
  have "\<exists>n. ustar_getsize (bytes_at 0x1000 ?ds) 0x1000 = Some n \<and> unat n = octal_value ?ds"
  proof (rule ustar_getsize_octal)
    show "\<forall>j<11. bytes_at 0x1000 ?ds (0x1000 + of_nat j) = Some (?ds ! j)" by (auto simp: bytes_at_def overlay_at simp del: nth_Cons_numeral)
  qed (simp_all add: v octal_digit_def)
  then show ?thesis unfolding v .
qed

subsection \<open>Unpacking an archive\<close>

text \<open>A file of the archive: its name and its size in bytes, at its place behind the files before it.\<close>

definition archived :: "bmem \<Rightarrow> u32 \<Rightarrow> u8 list \<Rightarrow> nat \<Rightarrow> bool" where
  "archived m p n sz \<longleftrightarrow> is_ustar m p = Some True \<and> cstr m p n \<and> length n < 74 \<and> ustar_getsize m (p + 124) = Some (of_nat sz) \<and> sz + 4096 \<le> 2 ^ 31"

text \<open>
  What unpacking promises: every file is created under \<^verbatim>\<open>/boot/\<close>, an earlier content is released, and its content becomes the range of the
  archive behind the header, with the size rounded up to whole pages; the next header follows at the next multiple of 512 bytes.
\<close>

inductive unpacked ::
    "(u32 \<Rightarrow> ('x mm_state_scheme, 'b) fs_state_scheme fileops_t) \<Rightarrow> u32 \<Rightarrow> nat \<Rightarrow> (u8 list \<times> nat) list \<Rightarrow>
     ('x mm_state_scheme, 'b) fs_state_scheme \<Rightarrow> ('x mm_state_scheme, 'b) fs_state_scheme \<Rightarrow> bool"
  for fops :: "u32 \<Rightarrow> ('x mm_state_scheme, 'b) fs_state_scheme fileops_t" and archive :: u32 where
  unpacked_end: "is_ustar (fmem s) (archive + of_nat off) = Some False \<Longrightarrow> unpacked fops archive off [] s s"
| unpacked_file: "archived (fmem s) (archive + of_nat off) n sz \<Longrightarrow>
    fcreate kmalloc kfree fops (Some (chars ''/boot/'' @ n)) 0 s = Some (f, s1) \<Longrightarrow> f \<noteq> 0 \<Longrightarrow> vfiles s1 f = Some v \<Longrightarrow>
    (if f_private v = 0 then s2 = s1 else \<exists>h. kfree (f_private v) (pages_st s1) = Some h \<and> s2 = s1\<lparr>pages_st := h\<rparr>) \<Longrightarrow>
    unpacked fops archive (off + 512 * ((sz + 511) div 512 + 1)) es
      (s2\<lparr>vfiles := (vfiles s2)(f \<mapsto> v\<lparr>f_private := archive + of_nat (off + 512), f_size := of_nat (4096 * ((sz + 4095) div 4096))\<rparr>)\<rparr>) s' \<Longrightarrow>
    unpacked fops archive off ((n, sz) # es) s s'"

lemma string_at_cstr: "cstr m p n \<Longrightarrow> length n < 2 ^ 32 \<Longrightarrow> string_at m p = Some n"
  by (auto simp: string_at_def strlen_cstr cstr_def unat_of_nat nth_append intro!: nth_equalityI)

lemma small_size:
  assumes "sz + 4096 \<le> 2 ^ 31"
  shows "sint (of_nat sz :: u32) = int sz" "size_in_pages (int sz) = of_nat ((sz + 4095) div 4096)" "next_header (int sz) = of_nat (512 * ((sz + 511) div 512 + 1))"
proof -
  show "sint (of_nat sz :: u32) = int sz" using assms by (simp add: signed_of_nat signed_take_bit_int_eq_self)
  have "(int sz + 4095) sdiv 4096 = int ((sz + 4095) div 4096)" "(int sz + 511) sdiv 512 = int ((sz + 511) div 512)"
    by (simp_all add: signed_divide_int_def zdiv_int)
  then show "size_in_pages (int sz) = of_nat ((sz + 4095) div 4096)" "next_header (int sz) = of_nat (512 * ((sz + 511) div 512 + 1))"
    by (simp_all add: size_in_pages_def next_header_def)
qed

lemma page_bytes:
  assumes "sz + 4096 \<le> 2 ^ 31"
  shows "ucast (of_nat ((sz + 4095) div 4096) * 4096 :: u32) = (of_nat (4096 * ((sz + 4095) div 4096)) :: u64)"
proof -
  define k where "k = 4096 * ((sz + 4095) div 4096)"
  have "k < 2 ^ 32" using assms by (simp add: k_def)
  then have "ucast (of_nat k :: u32) = (of_nat k :: u64)" by (simp add: unsigned_of_nat take_bit_nat_eq_self)
  moreover have "of_nat ((sz + 4095) div 4096) * 4096 = (of_nat k :: u32)" by (simp add: k_def)
  ultimately show ?thesis unfolding k_def by (simp only:)
qed

lemma initrd_loop_unpacks: "unpacked fops archive off es s s' \<Longrightarrow> initrd_loop fops archive (of_nat off) s = Some (0, s')"
proof (induction rule: unpacked.induct)
  case (unpacked_end s off)
  then show ?case by (subst initrd_loop.simps) simp
next
  case (unpacked_file s off n sz f s1 v s2 es s')
  from unpacked_file.hyps(1) have a: "is_ustar (fmem s) (archive + of_nat off) = Some True" "string_at (fmem s) (archive + of_nat off) = Some n"
      "ustar_getsize (fmem s) (archive + of_nat off + 124) = Some (of_nat sz)" "boot_path n = Some (chars ''/boot/'' @ n)" and sz: "sz + 4096 \<le> 2 ^ 31"
    by (auto simp: archived_def boot_path_def chars_def intro: string_at_cstr)
  have inst: "install_file f (archive + of_nat off + 512) (of_nat ((sz + 4095) div 4096)) s1 =
      Some (s2\<lparr>vfiles := (vfiles s2)(f \<mapsto> v\<lparr>f_private := archive + of_nat (off + 512), f_size := of_nat (4096 * ((sz + 4095) div 4096))\<rparr>)\<rparr>)"
    using unpacked_file.hyps(4,5) page_bytes [OF sz] by (auto simp: install_file_def krelease_def upd_vfile_def add.assoc simp del: of_nat_mult split: if_splits)
  show ?case using a unpacked_file.hyps(2,3) unpacked_file.IH inst small_size [OF sz] sz
    by (subst initrd_loop.simps) (simp add: Let_def algebra_simps)
qed


text \<open>An archive with one file \<open>m\<close> of one byte, and a file system whose only object is the root.\<close>

definition initrd_example :: bmem where
  "initrd_example a = Some (if a = 0x4000 then 109 else if a - 0x407c < 10 then 48 else if a = 0x4086 then 49
     else if a - 0x4101 < 5 then chars ''ustar'' ! unat (a - 0x4101) else 0)"

definition initrd_fops :: "u32 \<Rightarrow> mm_state fs_state fileops_t" where
  "initrd_fops _ = no_fileops\<lparr>op_create := Some (\<lambda>d n fl s. Some (0x100000, s)), op_rfopen := Some (\<lambda>n d s. Some (0x100000, s))\<rparr>"

lemma initrd_example_file:
  "archived initrd_example 0x4000 [109] 1" "is_ustar initrd_example 0x4400 = Some False"
proof -
  have "getsize_loop (\<lambda>j. the (initrd_example (0x407c + of_nat j))) 11 1 0 = 1" by code_simp
  moreover have "initrd_example a \<noteq> None" for a by (simp add: initrd_example_def)
  ultimately have "ustar_getsize initrd_example 0x407c = Some 1" by (simp add: ustar_getsize_def)
  moreover have "cstr initrd_example 0x4000 [109]" by (auto simp: cstr_def initrd_example_def le_Suc_eq)
  moreover have "is_ustar initrd_example 0x4000 = Some True" by (simp add: is_ustar_def initrd_example_def chars_def)
  ultimately show "archived initrd_example 0x4000 [109] 1" by (simp add: archived_def)
  show "is_ustar initrd_example 0x4400 = Some False" by (simp add: is_ustar_def initrd_example_def chars_def)
qed

text \<open>Creating a file in a directory below the root, when neither opening nor creating touches the memory of the kernel.\<close>

lemma fcreate_below_root:
  fixes s :: "('a mm_state_scheme, 'b) fs_state_scheme"
  assumes ops: "fops = (\<lambda>_. no_fileops\<lparr>op_create := Some (\<lambda>d n fl s. Some (r, s)), op_rfopen := Some (\<lambda>n d s. Some (r, s))\<rparr>)"
    and r: "root_dir s = r" "r \<noteq> 0" "vfiles s r = Some v" "f_ops v \<noteq> 0" and fs: "kernel_pages B (Suc (Suc k)) s" "\<not> lock (vfs_lock s)"
    and n: "d \<noteq> []" "slash \<notin> set d" "n \<noteq> []" "slash \<notin> set n" "length d < 1000" "length n < 1000"
  shows "\<exists>h. fcreate kmalloc kfree fops (Some (slash # d @ slash # n)) fl s = Some (r, s\<lparr>pages_st := h\<rparr>)"
proof -
  define t where "t = s\<lparr>vfs_lock := \<lparr>lock = True\<rparr>\<rparr>"
  have pt: "kernel_pages B (Suc (Suc k)) t" using fs(1) by (simp add: t_def pages_ok_def)
  obtain a h1 where a: "kalloc kmalloc 1 t = Some (heap_addr (pages_st t) a 0, t\<lparr>pages_st := h1\<rparr>)" "heap_addr (pages_st t) a 0 \<noteq> 0"
      "vfiles t (heap_addr (pages_st t) a 0) = None" "heap_addr h1 = heap_addr (pages_st t)" "kernel_pages (B(a \<mapsto> 1)) (Suc k) (t\<lparr>pages_st := h1\<rparr>)" "B a = None"
    using kpages.kalloc_page [OF pt] by blast
  let ?t1 = "t\<lparr>pages_st := h1\<rparr>"
  obtain b h2 where b: "kalloc kmalloc 1 ?t1 = Some (heap_addr h1 b 0, ?t1\<lparr>pages_st := h2\<rparr>)" "(B(a \<mapsto> 1)) b = None" "heap_addr h1 b 0 \<noteq> 0"
      "vfiles t (heap_addr h1 b 0) = None" "heap_addr h2 = heap_addr h1" "kernel_pages (B(a \<mapsto> 1, b \<mapsto> 1)) k (t\<lparr>pages_st := h2\<rparr>)"
    using kpages.kalloc_page [OF a(5)] by auto
  obtain h3 where h3: "krelease kfree (heap_addr h2 b 0) (t\<lparr>pages_st := h2\<rparr>) = Some (t\<lparr>pages_st := h3\<rparr>)" "heap_addr h3 = heap_addr h2"
      "kernel_pages ((B(a \<mapsto> 1, b \<mapsto> 1))(b := None)) k (t\<lparr>pages_st := h3\<rparr>)"
    using kpages.krelease_page [OF b(6), of b 0] b(4,5) by auto
  have "((B(a \<mapsto> 1, b \<mapsto> 1))(b := None)) a = Some 1" using b(2) by (auto split: if_splits)
  then obtain h4 where h4: "krelease kfree (heap_addr h3 a 1) (t\<lparr>pages_st := h3\<rparr>) = Some (t\<lparr>pages_st := h4\<rparr>)"
    using kpages.krelease_page [OF h3(3), of a 1] a(3,4) b(5) h3(2) by auto
  have l: "last n \<noteq> slash" "hd n \<noteq> slash" using n(3,4) by (metis last_in_set, metis hd_in_set)
  have one: "(length n + 4095) div 4096 = 1" "length n mod 4096 \<noteq> 0" "(Suc (Suc (length d + length n)) + 4095) div 4096 = 1"
      "Suc (Suc (length d + length n)) mod 4096 \<noteq> 0"
    using n(3,5,6) by (cases n; simp)+
  have tw: "takeWhile (\<lambda>c. c \<noteq> slash) (d @ slash # n) = d" using n(2) by (subst takeWhile_append2) auto
  have "vfcreate kmalloc kfree fops r n fl ?t1 = Some (r, t\<lparr>pages_st := h3\<rparr>)"
    using one n b(1,3) h3(1) r l b(5) by (subst vfcreate.simps) (simp add: ops Let_def takeWhile_part t_def)
  then have "vfcreate kmalloc kfree fops r (slash # d @ slash # n) fl t = Some (r, t\<lparr>pages_st := h4\<rparr>)"
    using one tw n a(1,2,4) b(5) h3(2) h4 r l kpages.addr_offset [of "pages_st t" a]
    by (subst vfcreate.simps) (simp add: ops Let_def takeWhile_part t_def rfopen_def fclose_def no_fileops_def)
  then have "fcreate kmalloc kfree fops (Some (slash # d @ slash # n)) fl s = Some (r, s\<lparr>pages_st := h4, vfs_lock := \<lparr>lock = False\<rparr>\<rparr>)"
    using fs(2) r(1) by (simp add: fcreate_def get_root_dir_def t_def lock_defs)
  moreover have "s\<lparr>pages_st := h4, vfs_lock := \<lparr>lock = False\<rparr>\<rparr> = s\<lparr>pages_st := h4\<rparr>"
    using fs(2) by (intro fs_state.equality) (simp_all add: spinlock_t.equality)
  ultimately show ?thesis by metis
qed


end
