(* ===== verification/Serial.thy ===== *)
theory Serial
  imports KStrings
begin

text \<open>
  The serial line and the log (\<^verbatim>\<open>drivers/serial.c\<close>, \<^verbatim>\<open>vmlog\<close> and \<^verbatim>\<open>mlog\<close> of \<^verbatim>\<open>shared/kstdlib.c\<close>).  The state has the variables of the
  file, the memory in which the strings are, and the bytes written to ports.  Variable arguments are a list of words; an argument that the
  caller did not pass is undefined, \<^const>\<open>None\<close>.  \<open>printf_frame\<close> has the addresses of the local arrays: \<^verbatim>\<open>numb\<close> of \<^verbatim>\<open>vprintf\<close>, \<^verbatim>\<open>tmp\<close> of
  \<^verbatim>\<open>strpad\<close> and the array literal of \<^verbatim>\<open>%c\<close>; none of them is used after a nested call, so the nested calls may have the same addresses.

  The property: \<^verbatim>\<open>printf\<close> writes what its format describes.
\<close>

record serial_state =
  com_ports :: "u16 list"
  com_buffer :: "u8 list list"
  com_buffer_index :: "u8 list"
  smem :: bmem
  port_out :: "(u16 \<times> u8) list"

record printf_frame =
  numb :: u32
  pad_tmp :: u32
  char_lit :: u32

definition put_port :: "u16 \<Rightarrow> u8 \<Rightarrow> 'a serial_state_scheme \<Rightarrow> 'a serial_state_scheme" where
  "put_port port b s = s\<lparr>port_out := port_out s @ [(port, b)]\<rparr>"

text \<open>\<^verbatim>\<open>serial_init\<close> reads the four words at the start of the BIOS data area.\<close>

definition serial_init :: "'a serial_state_scheme \<Rightarrow> 'a serial_state_scheme option" where
  "serial_init s = fold_opt (\<lambda>i s. do {
       lo \<leftarrow> smem s (0x400 + of_nat (2 * i));
       hi \<leftarrow> smem s (0x400 + of_nat (2 * i) + 1);
       Some (s\<lparr>com_ports := (com_ports s)[i := ucast lo OR push_bit 8 (ucast hi)]\<rparr>)
     }) [0..<4] s"

text \<open>The buffers of missing ports have 128 bytes; an index outside is undefined.\<close>

definition serial_writeb :: "u8 \<Rightarrow> u8 \<Rightarrow> 'a serial_state_scheme \<Rightarrow> 'a serial_state_scheme option" where
  "serial_writeb port data s =
     (let p = unat port; i = com_buffer_index s ! p
      in if p \<ge> 8 then None
         else if com_ports s ! p = 0
         then if i \<ge> 128 then None
              else Some (put_port (com_ports s ! p) data
                (s\<lparr>com_buffer := (com_buffer s)[p := (com_buffer s ! p)[unat i := data]], com_buffer_index := (com_buffer_index s)[p := i + 1]\<rparr>))
         else Some (put_port (com_ports s ! p) data s))"

definition serial_readb :: "(u16 \<Rightarrow> u8) \<Rightarrow> u8 \<Rightarrow> 'a serial_state_scheme \<Rightarrow> (u8 \<times> 'a serial_state_scheme) option" where
  "serial_readb inb port s =
     (let p = unat port; i = com_buffer_index s ! p
      in if p \<ge> 8 then None
         else if com_ports s ! p = 0
         then if i \<ge> 128 then None
              else Some (com_buffer s ! p ! unat i, s\<lparr>com_buffer_index := (com_buffer_index s)[p := i - 1]\<rparr>)
         else Some (inb (com_ports s ! p), s))"

definition serial_writereg :: "u8 \<Rightarrow> u8 \<Rightarrow> u8 \<Rightarrow> 'a serial_state_scheme \<Rightarrow> 'a serial_state_scheme option" where
  "serial_writereg port reg data s =
     (let p = unat port
      in if p \<ge> 8 then None
         else if com_ports s ! p = 0 \<or> reg > 8 then Some s
         else Some (put_port (com_ports s ! p + ucast reg) data s))"

definition serial_readreg :: "(u16 \<Rightarrow> u8) \<Rightarrow> u8 \<Rightarrow> u8 \<Rightarrow> 'a serial_state_scheme \<Rightarrow> u8 option" where
  "serial_readreg inb port reg s =
     (let p = unat port
      in if p \<ge> 8 then None
         else if com_ports s ! p = 0 \<or> reg > 8 then Some (- 1)
         else Some (inb (com_ports s ! p + ucast reg)))"

definition out0 :: "u8 \<Rightarrow> 'a serial_state_scheme \<Rightarrow> 'a serial_state_scheme" where
  "out0 b s = put_port (com_ports s ! 0) b s"

partial_function (option) debug_puts :: "u32 \<Rightarrow> 'a serial_state_scheme \<Rightarrow> 'a serial_state_scheme option" where
  "debug_puts string s = do {
     c \<leftarrow> smem s string;
     if c = 0 then Some s else debug_puts (string + 1) (out0 c s)
   }"

definition put_number :: "printf_frame \<Rightarrow> u32 \<Rightarrow> u8 \<Rightarrow> 'a serial_state_scheme \<Rightarrow> 'a serial_state_scheme option" where
  "put_number fr num base s = do {
     m \<leftarrow> itoa (scast num) (numb fr) base (smem s);
     m \<leftarrow> (if base = 16 then strpad (pad_tmp fr) (numb fr) 48 8 m else Some m);
     debug_puts (numb fr) (s\<lparr>smem := m\<rparr>)
   }"

definition bool_text :: "u32 \<Rightarrow> u8 list" where
  "bool_text num = (if num \<noteq> 0 then [116, 114, 117, 101] else [102, 97, 108, 115, 101])"

text \<open>
  The characters after a percent sign are d 100, x 120, s 115, c 99 and b 98.  After b and after any other character the loop goes on with
  the output of the next character, without a test for the end of the string.
\<close>

partial_function (option) vprintf :: "printf_frame \<Rightarrow> u32 \<Rightarrow> u32 list \<Rightarrow> 'a serial_state_scheme \<Rightarrow> 'a serial_state_scheme option" where
  "vprintf fr string vars s = do {
     c \<leftarrow> smem s string;
     if c = 0 then Some s
     else if c = 37
     then do {
       d \<leftarrow> smem s (string + 1);
       if d \<in> {100, 120, 115, 99, 98}
       then (case vars of
           [] \<Rightarrow> None
         | num # vars \<Rightarrow>
             if d = 100 then do { s \<leftarrow> put_number fr num 10 s; vprintf fr (string + 2) vars s }
             else if d = 120 then do { s \<leftarrow> put_number fr num 16 s; vprintf fr (string + 2) vars s }
             else if d = 115 then do { s \<leftarrow> vprintf fr num [] s; vprintf fr (string + 2) vars s }
             else if d = 99
             then do {
               m \<leftarrow> wr (char_lit fr) (ucast num) (smem s);
               m \<leftarrow> wr (char_lit fr + 1) 0 m;
               s \<leftarrow> vprintf fr (char_lit fr) [] (s\<lparr>smem := m\<rparr>);
               vprintf fr (string + 2) vars s
             }
             else do {
               let s = fold out0 (bool_text num) s;
               e \<leftarrow> smem s (string + 2);
               vprintf fr (string + 3) vars (out0 e s)
             })
       else vprintf fr (string + 2) vars (out0 d s)
     }
     else vprintf fr (string + 1) vars (out0 c s)
   }"

definition printf :: "printf_frame \<Rightarrow> u32 \<Rightarrow> u32 list \<Rightarrow> 'a serial_state_scheme \<Rightarrow> 'a serial_state_scheme option" where
  "printf fr str vars s = vprintf fr str vars s"

text \<open>The log: \<open>fmt\<close> is the address of the constant format \<^verbatim>\<open>[ %s %s ]\<close>, \<open>info\<close> the table \<^verbatim>\<open>log_info_types\<close>.\<close>

definition vmlog ::
    "printf_frame \<Rightarrow> u32 \<Rightarrow> (u32 \<Rightarrow> u32) \<Rightarrow> u32 \<Rightarrow> u32 \<Rightarrow> u32 \<Rightarrow> u32 list \<Rightarrow> 'a serial_state_scheme \<Rightarrow> 'a serial_state_scheme option" where
  "vmlog fr fmt info module str type vars s =
     (if type = 0 \<or> type > 4 then Some s
      else do { s \<leftarrow> printf fr fmt [module, info type] s; vprintf fr str vars s })"

definition mlog ::
    "printf_frame \<Rightarrow> u32 \<Rightarrow> (u32 \<Rightarrow> u32) \<Rightarrow> u32 \<Rightarrow> u32 \<Rightarrow> u32 \<Rightarrow> u32 list \<Rightarrow> 'a serial_state_scheme \<Rightarrow> 'a serial_state_scheme option" where
  "mlog fr fmt info module str type vars s =
     (if type = 0 \<or> type > 4 then Some s
      else do { s \<leftarrow> printf fr fmt [module, info type] s; vprintf fr str vars s })"

subsection \<open>The text of a format\<close>

text \<open>The digits of a number, most significant first, with capital letters from ten on.\<close>

definition digit_char :: "nat \<Rightarrow> u8" where
  "digit_char d = of_nat (if d < 10 then 48 + d else 55 + d)"

fun number_text :: "nat \<Rightarrow> nat \<Rightarrow> u8 list" where
  "number_text b n = (if b < 2 \<or> n < b then [digit_char n] else number_text b (n div b) @ [digit_char (n mod b)])"

declare number_text.simps [simp del]

datatype piece = Lit u8 | Dec u32 | Hex u32 | Str u32 "u8 list"

primrec piece_format :: "piece \<Rightarrow> u8 list" where
  "piece_format (Lit c) = [c]"
| "piece_format (Dec v) = [37, 100]"
| "piece_format (Hex v) = [37, 120]"
| "piece_format (Str p xs) = [37, 115]"

primrec piece_args :: "piece \<Rightarrow> u32 list" where
  "piece_args (Lit c) = []"
| "piece_args (Dec v) = [v]"
| "piece_args (Hex v) = [v]"
| "piece_args (Str p xs) = [p]"

primrec piece_text :: "piece \<Rightarrow> u8 list" where
  "piece_text (Lit c) = [c]"
| "piece_text (Dec v) = number_text 10 (unat v)"
| "piece_text (Hex v) = (let ds = number_text 16 (unat v) in replicate (8 - length ds) 48 @ ds)"
| "piece_text (Str p xs) = xs"

text \<open>The local arrays lie in the memory, apart from each other.\<close>

definition frame_ok :: "printf_frame \<Rightarrow> bmem \<Rightarrow> bool" where
  "frame_ok fr m \<longleftrightarrow> numb fr \<noteq> 0 \<and> mapped m (numb fr) 13 \<and> pad_tmp fr \<noteq> 0 \<and> unat (pad_tmp fr) + 9 \<le> 2 ^ 32 \<and> mapped m (pad_tmp fr) 9 \<and>
     apart (numb fr) 9 (pad_tmp fr) 9 \<and> apart (pad_tmp fr) 9 (numb fr) 9"

definition outside :: "printf_frame \<Rightarrow> u32 \<Rightarrow> bool" where
  "outside fr a \<longleftrightarrow> \<not> span (numb fr) 13 a \<and> \<not> span (pad_tmp fr) 9 a"

primrec piece_ok :: "printf_frame \<Rightarrow> bmem \<Rightarrow> piece \<Rightarrow> bool" where
  "piece_ok fr m (Lit c) \<longleftrightarrow> c \<noteq> 37"
| "piece_ok fr m (Dec v) \<longleftrightarrow> unat v < 2 ^ 31"
| "piece_ok fr m (Hex v) \<longleftrightarrow> True"
| "piece_ok fr m (Str p xs) \<longleftrightarrow> cstr m p xs \<and> 37 \<notin> set xs \<and> (\<forall>i\<le>length xs. outside fr (p + of_nat i))"

definition sent :: "u8 list \<Rightarrow> 'a serial_state_scheme \<Rightarrow> 'a serial_state_scheme" where
  "sent xs s = s\<lparr>port_out := port_out s @ map (Pair (com_ports s ! 0)) xs\<rparr>"

lemma sent_simps [simp]:
  "sent [] s = s" "smem (sent xs s) = smem s" "com_ports (sent xs s) = com_ports s" "sent ys (sent xs s) = sent (xs @ ys) s"
  "sent xs (s\<lparr>smem := m\<rparr>) = (sent xs s)\<lparr>smem := m\<rparr>" "out0 c s = sent [c] s"
  by (simp_all add: sent_def out0_def put_port_def)

lemma debug_puts_cstr: "cstr (smem s) p xs \<Longrightarrow> debug_puts p s = Some (sent xs s)"
proof (induction xs arbitrary: p s)
  case Nil
  then show ?case using cstr_end [OF Nil] by (subst debug_puts.simps) simp
next
  case (Cons x xs)
  have "smem s p = Some x" "x \<noteq> 0" using cstr_nth [OF Cons.prems, of 0] cstr_nz [OF Cons.prems, of 0] by simp_all
  moreover have "cstr (smem s) (p + 1) xs" using cstr_suffix [of "smem s" p "[x]" xs] Cons.prems by simp
  ultimately show ?case using Cons.IH [of "sent [x] s" "p + 1"] by (subst debug_puts.simps) simp
qed

lemma vprintf_plain: "cstr (smem s) p xs \<Longrightarrow> 37 \<notin> set xs \<Longrightarrow> vprintf fr p vars s = Some (sent xs s)"
proof (induction xs arbitrary: p s)
  case Nil
  then show ?case using cstr_end [OF Nil.prems(1)] by (subst vprintf.simps) simp
next
  case (Cons x xs)
  have "smem s p = Some x" "x \<noteq> 0" using cstr_nth [OF Cons.prems(1), of 0] cstr_nz [OF Cons.prems(1), of 0] by simp_all
  moreover have "cstr (smem s) (p + 1) xs" using cstr_suffix [of "smem s" p "[x]" xs] Cons.prems by simp
  ultimately show ?case using Cons.IH [of "sent [x] s" "p + 1"] Cons.prems(2) by (subst vprintf.simps) simp
qed

text \<open>The digits of \<^verbatim>\<open>itoa\<close>, last digit first.\<close>

lemma carr_digit: "unat i < 36 \<Longrightarrow> carr i = Some (digit_char (unat i))"
  by (auto simp: carr_def digit_char_def word_less_nat_alt)

lemma itoa_digits_text:
  assumes b: "2 \<le> unat b" "unat b \<le> 36"
  shows "unat v < unat b ^ k \<Longrightarrow> v \<noteq> 0 \<Longrightarrow> itoa_digits (k + j) b v = Some (rev (number_text (unat b) (unat v))) \<and> length (number_text (unat b) (unat v)) \<le> k"
proof (induction k arbitrary: v)
  case 0
  then show ?case by (simp add: unat_eq_0)
next
  case (Suc k)
  have q: "unat (v div b) = unat v div unat b" "unat (v mod b) = unat v mod unat b" by (simp_all add: unat_div unat_mod)
  have b0: "b \<noteq> 0" using b(1) by auto
  have "unat v mod unat b < unat b" using b(1) by simp
  then have m: "unat v mod unat b < 36" using b(2) by linarith
  have c: "carr (v mod b) = Some (digit_char (unat v mod unat b))" using carr_digit [of "v mod b"] m q(2) by simp
  show ?case
  proof (cases "v div b = 0")
    case True
    then have "unat v div unat b = 0" using q(1) by simp
    then have "unat v < unat b" using b(1) by (simp add: div_eq_0_iff)
    then show ?thesis using True b b0 c Suc.prems(2) by (simp add: number_text.simps [of "unat b" "unat v"])
  next
    case False
    have "unat (v div b) < unat b ^ k" using Suc.prems(1) b(1) by (simp add: q less_mult_imp_div_less ac_simps)
    note IH = Suc.IH [OF this False]
    have "\<not> unat v < unat b" using False q(1) by (auto simp: unat_eq_0 [symmetric])
    then have "number_text (unat b) (unat v) = number_text (unat b) (unat (v div b)) @ [digit_char (unat v mod unat b)]"
      using b(1) q(1) by (subst number_text.simps) simp
    then show ?thesis using IH b0 c Suc.prems(2) by simp
  qed
qed

lemma number_text_nz: "2 \<le> b \<Longrightarrow> b \<le> 36 \<Longrightarrow> 0 \<notin> set (number_text b n)"
proof (induction b n rule: number_text.induct)
  case (1 b n)
  have nz: "digit_char d \<noteq> 0" if "d < 36" for d
  proof
    assume "digit_char d = 0"
    then have "unat (digit_char d) = 0" by simp
    moreover have "unat (digit_char d) = (if d < 10 then 48 + d else 55 + d)" using that by (auto simp: digit_char_def unat_of_nat)
    ultimately show False by (simp split: if_splits)
  qed
  have "n mod b < 36" using 1(2,3) mod_less_divisor [of b n] by linarith
  then show ?case using 1 nz by (subst number_text.simps) auto
qed

lemma number_text_ne [simp]: "number_text b n \<noteq> []"
  by (subst number_text.simps) simp

lemma scast_facts:
  fixes v :: u32
  shows "(ucast (scast v :: u64) :: u32) = v" "(scast v :: u64) = 0 \<longleftrightarrow> v = 0" "unat v < 2 ^ 31 \<Longrightarrow> \<not> (scast v :: u64) <s 0"
proof -
  show u: "(ucast (scast v :: u64) :: u32) = v" by (rule bit_word_eqI) (simp add: bit_simps)
  show "(scast v :: u64) = 0 \<longleftrightarrow> v = 0" using u by (metis scast_0 ucast_0)
  assume "unat v < 2 ^ 31"
  then have "\<not> bit (unat v) 31" by (simp add: bit_iff_odd)
  then have "\<not> bit v 31" by (simp add: bit_unsigned_iff)
  then have "\<not> bit (scast v :: u64) 63" by (simp add: bit_simps)
  then show "\<not> (scast v :: u64) <s 0" by (simp add: word_sless_alt bit_last_iff [symmetric])
qed

lemma itoa_number:
  fixes v :: u32
  assumes fr: "res \<noteq> 0" "mapped m res 13" and b: "base = 10 \<and> unat v < 2 ^ 31 \<or> base = 16"
  shows "itoa (scast v) res base m = Some (put_str res (number_text (unat base) (unat v)) m)" "length (number_text (unat base) (unat v)) \<le> (if base = 10 then 10 else 8)"
proof -
  let ?k = "if base = 10 then 10 else 8 :: nat" and ?t = "number_text (unat base) (unat v)"
  have ub: "unat (ucast base :: u32) = unat base" "2 \<le> unat base" "unat base \<le> 36" using b by auto
  have lt: "unat v < unat (ucast base :: u32) ^ ?k" using b unat_u32_less [of v] by auto
  have "itoa (scast v) res base m = Some (put_str res ?t m) \<and> length ?t \<le> ?k"
  proof (cases "v = 0")
    case True
    have "?t = [48]" using ub True by (subst number_text.simps) (simp add: digit_char_def)
    moreover have "m res \<noteq> None" "m (res + 1) \<noteq> None" using mapped_at [OF fr(2), of 0] mapped_at [OF fr(2), of 1] by simp_all
    moreover have "(m(res \<mapsto> 48))(res + 1 \<mapsto> 0) = put_str res [48] m"
      using overlay_Suc [of 0 res "\<lambda>i. [48, 0] ! i" m] overlay_Suc [of 1 res "\<lambda>i. [48, 0] ! i" m] by (simp add: put_str_def)
    ultimately show ?thesis using True fr(1) by (simp add: itoa_def wr_def)
  next
    case False
    have "itoa_digits (?k + (12 - ?k)) (ucast base) v = Some (rev ?t) \<and> length ?t \<le> ?k"
      using itoa_digits_text [of "ucast base" v ?k "12 - ?k"] ub lt False by simp
    moreover have "?k + (12 - ?k) = 12" by simp
    ultimately have d: "itoa_digits 12 (ucast base) (ucast (scast v :: u64)) = Some (rev ?t)" "length ?t \<le> ?k" unfolding scast_facts by simp_all
    have "itoa (scast v) res base m = Some (put_str res (rev (rev ?t)) m)"
      by (rule itoa_digits_written [OF d(1)]) (use False fr d(2) b scast_facts [of v] in \<open>auto split: if_splits\<close>)
    then show ?thesis using d(2) by simp
  qed
  then show "itoa (scast v) res base m = Some (put_str res ?t m)" "length ?t \<le> ?k" by simp_all
qed

definition keeps_frame :: "printf_frame \<Rightarrow> bmem \<Rightarrow> bmem \<Rightarrow> bool" where
  "keeps_frame fr m m' \<longleftrightarrow> frame_ok fr m' \<and> (\<forall>a. outside fr a \<longrightarrow> m' a = m a)"

lemma keeps_frame_put:
  assumes "frame_ok fr m" "p = numb fr \<and> length xs \<le> 12 \<or> p = pad_tmp fr \<and> length xs \<le> 8"
  shows "keeps_frame fr m (put_str p xs m)"
proof -
  have "\<not> span p (Suc (length xs)) a" if "outside fr a" for a using that assms(2) by (auto simp: outside_def span_def)
  then have "put_str p xs m a = m a" if "outside fr a" for a using that put_str_off by blast
  moreover have "frame_ok fr (put_str p xs m)" using assms(1) by (simp add: frame_ok_def put_str_def mapped_overlay)
  ultimately show ?thesis by (simp add: keeps_frame_def)
qed

lemma keeps_frame_trans: "keeps_frame fr m m' \<Longrightarrow> keeps_frame fr m' m'' \<Longrightarrow> keeps_frame fr m m''"
  by (simp add: keeps_frame_def)

lemma put_number_text:
  assumes fr: "frame_ok fr (smem s)" and b: "base = 10 \<and> unat v < 2 ^ 31 \<or> base = 16"
  shows "\<exists>m. put_number fr v base s = Some (sent (piece_text (if base = 10 then Dec v else Hex v)) (s\<lparr>smem := m\<rparr>)) \<and> keeps_frame fr (smem s) m"
proof -
  let ?t = "number_text (unat base) (unat v)" and ?n = "numb fr" and ?p = "pad_tmp fr"
  let ?m = "put_str ?n ?t (smem s)"
  have it: "itoa (scast v) ?n base (smem s) = Some ?m" and len: "length ?t \<le> (if base = 10 then 10 else 8)"
    using itoa_number [of ?n "smem s" base v] fr b by (simp_all add: frame_ok_def)
  have nz: "0 \<notin> set ?t" using b number_text_nz by auto
  have c: "cstr ?m ?n ?t" using nz len by (intro put_str_cstr) (auto split: if_splits)
  have k: "keeps_frame fr (smem s) ?m" using len by (intro keeps_frame_put [OF fr]) (auto split: if_splits)
  show ?thesis
  proof (cases "base = 10")
    case True
    then show ?thesis using it k debug_puts_cstr [of "s\<lparr>smem := ?m\<rparr>" ?n ?t] c by (auto simp: put_number_def)
  next
    case False
    then have b16: "base = 16" "length ?t \<le> 8" using b len by auto
    let ?ys = "replicate (8 - length ?t) 48 @ ?t"
    have l8: "length ?ys = 8" using b16(2) by simp
    have ys: "replicate (unat (8 :: u32) - length ?t) 48 @ ?t = ?ys" by simp
    have "?p + 8 - of_nat (length ?t) = ?p + of_nat (8 - length ?t)" using b16(2) by (simp add: of_nat_diff)
    moreover have "unat (?p + of_nat j) = unat ?p + j" if "j \<le> 8" for j
      using fr that unat_add_lt [of ?p "of_nat j"] by (simp add: frame_ok_def unat_of_nat_lt)
    then have "unat (?p + of_nat (8 - length ?t)) = unat ?p + (8 - length ?t)" by simp
    moreover have "unat ?p \<noteq> 0" using fr by (simp add: frame_ok_def unat_eq_0)
    ultimately have "?p + 8 - of_nat (length ?t) \<noteq> 0" by (metis add_is_0 unat_0)
    moreover have "mapped ?m ?n 9" using k by (simp add: keeps_frame_def frame_ok_def mapped_def)
    ultimately have pad: "strpad ?p ?n 48 8 ?m = Some (put_str ?n ?ys (put_str ?p ?ys ?m))"
      using strpad_cstr [OF c, of ?p 8 48] k b16 unfolding ys by (simp add: keeps_frame_def frame_ok_def)
    have k1: "keeps_frame fr ?m (put_str ?p ?ys ?m)" using k l8 by (intro keeps_frame_put) (simp_all add: keeps_frame_def)
    have "keeps_frame fr (put_str ?p ?ys ?m) (put_str ?n ?ys (put_str ?p ?ys ?m))" using k1 l8 by (intro keeps_frame_put) (simp_all add: keeps_frame_def)
    then have "keeps_frame fr (smem s) (put_str ?n ?ys (put_str ?p ?ys ?m))" using k k1 keeps_frame_trans by blast
    moreover have "cstr (put_str ?n ?ys (put_str ?p ?ys ?m)) ?n ?ys" using nz l8 by (intro put_str_cstr) auto
    ultimately show ?thesis using it pad b16(1) debug_puts_cstr [of "s\<lparr>smem := put_str ?n ?ys (put_str ?p ?ys ?m)\<rparr>" ?n ?ys]
      by (auto simp: put_number_def Let_def)
  qed
qed

lemma piece_ok_keeps: "keeps_frame fr m m' \<Longrightarrow> piece_ok fr m x \<Longrightarrow> piece_ok fr m' x"
  by (cases x) (auto simp: keeps_frame_def intro: cstr_frame)

lemma vprintf_piece:
  assumes fr: "frame_ok fr (smem s)" and x: "piece_ok fr (smem s) x" and c: "cstr (smem s) p (piece_format x @ rest)"
  shows "\<exists>m. vprintf fr p (piece_args x @ vars) s = vprintf fr (p + of_nat (length (piece_format x))) vars (sent (piece_text x) (s\<lparr>smem := m\<rparr>)) \<and>
    keeps_frame fr (smem s) m"
proof -
  have refl: "keeps_frame fr (smem s) (smem s)" using fr by (simp add: keeps_frame_def)
  have two: "smem s p = Some (piece_format x ! 0)" "piece_format x ! 0 \<noteq> 0" "length (piece_format x) = 2 \<Longrightarrow> smem s (p + 1) = Some (piece_format x ! 1)"
    using cstr_nth [OF c, of 0] cstr_nz [OF c, of 0] cstr_nth [OF c, of 1] by (cases x; simp)+
  show ?thesis
  proof (cases x)
    case (Lit d)
    then show ?thesis using two x refl by (subst vprintf.simps) (intro exI [of _ "smem s"], simp)
  next
    case (Dec v)
    then obtain m where "put_number fr v 10 s = Some (sent (piece_text (Dec v)) (s\<lparr>smem := m\<rparr>))" "keeps_frame fr (smem s) m"
      using put_number_text [OF fr, of 10 v] x by auto
    then show ?thesis using two Dec by (subst vprintf.simps) auto
  next
    case (Hex v)
    then obtain m where "put_number fr v 16 s = Some (sent (piece_text (Hex v)) (s\<lparr>smem := m\<rparr>))" "keeps_frame fr (smem s) m"
      using put_number_text [OF fr, of 16 v] by auto
    then show ?thesis using two Hex by (subst vprintf.simps) auto
  next
    case (Str q xs)
    then have "vprintf fr q [] s = Some (sent xs s)" using vprintf_plain x by auto
    then show ?thesis using two Str refl by (subst vprintf.simps) (intro exI [of _ "smem s"], simp)
  qed
qed

lemma vprintf_pieces:
  assumes "frame_ok fr (smem s)" "\<forall>x\<in>set xs. piece_ok fr (smem s) x" "cstr (smem s) p (concat (map piece_format xs))"
    and "\<forall>i\<le>length (concat (map piece_format xs)). outside fr (p + of_nat i)"
  shows "\<exists>m. vprintf fr p (concat (map piece_args xs)) s = Some (sent (concat (map piece_text xs)) (s\<lparr>smem := m\<rparr>)) \<and> keeps_frame fr (smem s) m"
  using assms
proof (induction xs arbitrary: p s)
  case Nil
  then show ?case using cstr_end [OF Nil.prems(3)] by (subst vprintf.simps) (intro exI [of _ "smem s"], simp add: keeps_frame_def)
next
  case (Cons x xs)
  let ?n = "length (piece_format x)" and ?rest = "concat (map piece_format xs)"
  obtain m where m: "vprintf fr p (piece_args x @ concat (map piece_args xs)) s =
      vprintf fr (p + of_nat ?n) (concat (map piece_args xs)) (sent (piece_text x) (s\<lparr>smem := m\<rparr>))" "keeps_frame fr (smem s) m"
    using vprintf_piece [OF Cons.prems(1), of x p ?rest "concat (map piece_args xs)"] Cons.prems(2,3) by (simp only: list.set_intros list.simps concat.simps) blast
  have off: "\<forall>i\<le>length ?rest. outside fr (p + of_nat ?n + of_nat i)"
  proof (intro allI impI)
    fix i
    assume "i \<le> length ?rest"
    then show "outside fr (p + of_nat ?n + of_nat i)" using Cons.prems(4) [rule_format, of "?n + i"] by (simp add: add.assoc)
  qed
  have "cstr (smem s) (p + of_nat ?n) ?rest" using cstr_suffix Cons.prems(3) by simp
  then have c: "cstr m (p + of_nat ?n) ?rest"
  proof (rule cstr_frame)
    fix i
    assume "i \<le> length ?rest"
    then have "outside fr (p + of_nat ?n + of_nat i)" using off by blast
    then show "m (p + of_nat ?n + of_nat i) = smem s (p + of_nat ?n + of_nat i)" using m(2) unfolding keeps_frame_def by blast
  qed
  define t where "t = sent (piece_text x) (s\<lparr>smem := m\<rparr>)"
  have t: "smem t = m" by (simp add: t_def)
  have "\<exists>m'. vprintf fr (p + of_nat ?n) (concat (map piece_args xs)) t = Some (sent (concat (map piece_text xs)) (t\<lparr>smem := m'\<rparr>)) \<and> keeps_frame fr (smem t) m'"
  proof (rule Cons.IH)
    show "frame_ok fr (smem t)" using m(2) by (simp add: t keeps_frame_def)
    show "\<forall>x\<in>set xs. piece_ok fr (smem t) x" using Cons.prems(2) piece_ok_keeps [OF m(2)] by (simp add: t)
  qed (use c off in \<open>simp_all add: t\<close>)
  then obtain m' where m': "vprintf fr (p + of_nat ?n) (concat (map piece_args xs)) t = Some (sent (concat (map piece_text xs)) (t\<lparr>smem := m'\<rparr>))"
      "keeps_frame fr m m'" unfolding t by blast
  have "vprintf fr p (concat (map piece_args (x # xs))) s = Some (sent (concat (map piece_text (x # xs))) (s\<lparr>smem := m'\<rparr>))"
    using m(1) m'(1) by (simp add: t_def)
  then show ?case using keeps_frame_trans [OF m(2) m'(2)] by blast
qed


text \<open>The format \<open>x%x%s\<close> with the number 255 and the string \<open>ok\<close>, on a port at 0x3f8.\<close>

definition serial_example :: serial_state where
  "serial_example = \<lparr>com_ports = [0x3f8, 0, 0, 0, 0, 0, 0, 0], com_buffer = replicate 8 (replicate 128 0), com_buffer_index = replicate 8 0,
     smem = put_str 0x1000 [120, 37, 120, 37, 115] (put_str 0x2000 [111, 107] (\<lambda>_. Some 0)), port_out = []\<rparr>"


text \<open>A percent sign at the end of the format: the terminator is written and the loop goes on behind the string.\<close>

lemma vprintf_trailing_percent:
  "smem s p = Some 37 \<Longrightarrow> smem s (p + 1) = Some 0 \<Longrightarrow> vprintf fr p vars s = vprintf fr (p + 2) vars (out0 0 s)"
  by (subst vprintf.simps) simp

end
