(* ===== verification/Boot.thy ===== *)
theory Boot
  imports Ustar Serial
begin

text \<open>
  The start of the system: \<^verbatim>\<open>init\<close> of the file system driver and of the partition manager, \<^verbatim>\<open>fini\<close> of the latter, and \<^verbatim>\<open>kmain.c\<close>, which
  initialises the parts of the kernel in order.  \<open>kapi\<close> is the interface that the kernel passes to a module.  The addresses that the
  linker chooses and the memory map of the firmware are parameters; the serial line is a state of its own.  The loops at the end of
  \<^verbatim>\<open>kmain\<close> and \<^verbatim>\<open>sysinit\<close> are not modelled: the result is the state in which they spin.

  The lemmas: the modules of the script are started on top of the unpacked boot files, and each driver leaves its tables empty.
\<close>

subsection \<open>The drivers\<close>

type_synonym 's module_interface = "module_call \<Rightarrow> 's \<Rightarrow> (u32 \<times> 's) option"

abbreviation (input) fini_offset :: u32 where "fini_offset \<equiv> 36"

text \<open>The array of 64 mounts of 64 bytes takes one page; an array at the null address is not modelled.\<close>

definition fat_init ::
    "('h, 'b) mod_state_scheme module_interface \<Rightarrow> u32 \<Rightarrow> u32 \<Rightarrow> ('h, 'b) mod_state_scheme \<Rightarrow> ('h, 'b) mod_state_scheme option" where
  "fat_init kapi module_data message_handler s = do {
     (status, s) \<leftarrow> kapi (MODULE_API_REGISTER module_data) s;
     key \<leftarrow> rd32 (fmem s) (module_data + key_offset);
     (r, s) \<leftarrow> kapi (MODULE_MESSAGE_HANDLER key message_handler) s;
     (p, s) \<leftarrow> kapi (MODULE_API_MALLOC ((64 * 64 + 4095) div 4096)) s;
     if p = 0 then None
     else Some (s\<lparr>fat32_mounts := (\<lambda>i. if i < 64 then zero_mount else fat32_mounts s i)\<rparr>)
   }"

definition part_init ::
    "('h, 'b) mod_state_scheme module_interface \<Rightarrow> u32 \<Rightarrow> u32 \<Rightarrow> u32 \<Rightarrow> u32 \<Rightarrow> ('h, 'b) mod_state_scheme \<Rightarrow> ('h, 'b) mod_state_scheme option" where
  "part_init kapi module_data init_at fini_at message_handler s = do {
     m \<leftarrow> wr32 module_data init_at (fmem s);
     m \<leftarrow> wr32 (module_data + fini_offset) fini_at m;
     (status, s) \<leftarrow> kapi (MODULE_API_REGISTER module_data) (s\<lparr>fmem := m\<rparr>);
     key \<leftarrow> rd32 (fmem s) (module_data + key_offset);
     (r, s) \<leftarrow> kapi (MODULE_MESSAGE_HANDLER key message_handler) s;
     let s = s\<lparr>partition_lock := spinlock_init (partition_lock s)\<rparr>;
     (p, s) \<leftarrow> kapi (MODULE_API_MALLOC ((2048 * 32 + 4095) div 4096)) s;
     if p = 0 then None
     else Some (s\<lparr>disk_references := p, ref_parent := (\<lambda>i. if i < 32 then 0 else ref_parent s i)\<rparr>)
   }"

definition part_fini :: "('h, 'b) mod_state_scheme module_interface \<Rightarrow> ('h, 'b) mod_state_scheme \<Rightarrow> ('h, 'b) mod_state_scheme option" where
  "part_fini kapi s = do { (r, s) \<leftarrow> kapi (MODULE_API_FREE (disk_references s)) s; Some s }"

subsection \<open>Kernel entry\<close>

text \<open>What the linker and the boot loader determine: addresses of code and tables, the memory map, the position of the archive.\<close>

record boot_params =
  mmap_entries :: "mmap_entry_t list"
  kernel_start :: u32
  isr_at :: "u32 \<Rightarrow> u32"
  irq0_at :: u32
  irq1_at :: u32
  syscall_at :: u32
  idt_table_at :: u32
  idt_desc_at :: u32
  pid0_at :: u32
  sysinit_at :: u32
  initrd_at :: u32
  pci_ops_at :: u32
  stale_vector :: vector_t
  stale_statement :: "u8 list"

definition sysinit ::
    "(('x int_state_scheme, 'b) pci_state_scheme) handlers \<Rightarrow> (u32 \<Rightarrow> ('x int_state_scheme, 'b) pci_state_scheme fileops_t) \<Rightarrow>
     (u32 \<Rightarrow> ('x int_state_scheme, 'b) pci_state_scheme \<Rightarrow> ('x int_state_scheme, 'b) pci_state_scheme option) \<Rightarrow> (u32 \<Rightarrow> u32 \<Rightarrow> u8) \<Rightarrow>
     io_device \<Rightarrow> boot_params \<Rightarrow> ('x int_state_scheme, 'b) pci_state_scheme \<Rightarrow> (exec_end \<times> ('x int_state_scheme, 'b) pci_state_scheme) option" where
  "sysinit call fops run frame dev bp s = do {
     s \<leftarrow> pci_init fops dev (pci_ops_at bp) s;
     (r, s) \<leftarrow> read_initrd fops (initrd_at bp) s;
     s \<leftarrow> modules_init (stale_vector bp) s;
     h \<leftarrow> tss_init 6 (pages_st s);
     (initrc, s) \<leftarrow> fopen fops (Some (chars ''/boot/initrc.conf'')) (s\<lparr>pages_st := h\<rparr>);
     if initrc \<noteq> 0 then initrc_read call fops run frame (stale_statement bp) initrc s else Some (Returned, s)
   }"

definition kmain ::
    "(u32 \<Rightarrow> ('x int_state_scheme, 'b) boot_state_scheme fileops_t) \<Rightarrow> (u16 \<Rightarrow> u8) \<Rightarrow> boot_params \<Rightarrow>
     ('x int_state_scheme, 'b) boot_state_scheme \<Rightarrow> 'c serial_state_scheme \<Rightarrow> (('x int_state_scheme, 'b) boot_state_scheme \<times> 'c serial_state_scheme) option" where
  "kmain fops inb bp s t = do {
     let s = config_init s;
     t \<leftarrow> serial_init t;
     h \<leftarrow> pm_init (mmap_entries bp) (kernel_start bp) (pages_st s);
     s \<leftarrow> ramfs_init (s\<lparr>pages_st := h\<rparr>);
     h \<leftarrow> idt_load (isr_at bp) (irq0_at bp) (irq1_at bp) (syscall_at bp) (idt_table_at bp) (idt_desc_at bp) (pages_st s);
     let h = pic_init inb 0x20 h;
     let h = pic_setmask 0 0x21 h;
     let h = pic_setmask 0 0xa1 h;
     let s = vfs_init (s\<lparr>pages_st := h\<rparr>);
     s \<leftarrow> make_dirs fops [chars ''/tmp'', chars ''/dev'', chars ''/boot'', chars ''/dev/disk''] s;
     h \<leftarrow> scheduler_init (pages_st s);
     (p0, h) \<leftarrow> thread_start (pid0_at bp) h;
     (p1, h) \<leftarrow> thread_start (sysinit_at bp) h;
     Some (s\<lparr>pages_st := h\<rparr>, t)
   }"

text \<open>The first process: the devices are enumerated, the archive is unpacked and the modules that the script in it names are started in order.\<close>

lemma sysinit_starts_modules:
  assumes pci: "pci_init fops dev (pci_ops_at bp) s = Some s1" and arch: "unpacked fops (initrd_at bp) 0 es s1 s2"
    and mods: "modules_init (stale_vector bp) s2 = Some s3" and task: "tss_init 6 (pages_st s3) = Some h"
    and rc: "fopen fops (Some (chars ''/boot/initrc.conf'')) (s3\<lparr>pages_st := h\<rparr>) = Some (f, s4)" "f \<noteq> 0" "vfiles s4 f = Some v" "f_private v \<noteq> 0"
    and script: "text_at (fmem s4) (f_private v) 0 (module_script names)" "length (module_script names) \<le> unat (ucast (f_size v) :: u32)"
      "stale_statement bp \<noteq> rc_END" "\<forall>n\<in>set names. length n < 512 \<and> (\<forall>c\<in>set n. name_char c)"
    and run: "modules_started fops run (f_private v) (module_script names) names s4 s'"
  shows "sysinit call fops run frame dev bp s = Some (Returned, s')"
proof -
  have "read_initrd fops (initrd_at bp) s1 = Some (0, s2)" using initrd_loop_unpacks [OF arch] by (simp add: read_initrd_def)
  moreover have "initrc_read call fops run frame (stale_statement bp) f s4 = Some (Returned, s')"
    using module_script_loop [OF script(2,4), of "[]"] rc(2-4) script run by (simp add: initrc_read_def)
  ultimately show ?thesis using pci mods task rc(1,2) by (simp add: sysinit_def)
qed

text \<open>After the initialisation the partition manager knows no disk, and the file system driver has all mounts free.\<close>

lemma part_init_no_disks: "part_init kapi md ia fa mh s = Some s' \<Longrightarrow> i < 32 \<Longrightarrow> ref_parent s' i = 0 \<and> disk_references s' \<noteq> 0"
  by (auto simp: part_init_def split: bind_splits if_splits prod.splits)

lemma fat_init_mounts_free: "fat_init kapi md mh s = Some s' \<Longrightarrow> i < 64 \<Longrightarrow> fat32_mounts s' i = zero_mount"
  by (auto simp: fat_init_def split: bind_splits if_splits prod.splits)

end
