(* ===== verification/Panic.thy ===== *)
theory Panic
  imports Boot
begin

text \<open>
  What \<^verbatim>\<open>src/kernel/arch_i386/interrupts.c\<close> prints: the report of \<^verbatim>\<open>_isr_handler\<close> on an exception, \<^verbatim>\<open>kernel_panic\<close>, and the messages of
  \<^verbatim>\<open>syscall\<close> (its effect on the processes is in \<open>Interrupts\<close>).  \<open>lit\<close> gives the address of a string literal.  The result of the first two is the
  state in which the machine stops: the loop at the end of \<^verbatim>\<open>_isr_handler\<close>, \<^verbatim>\<open>panic_hold\<close> in assembler, or the raised interrupt.

  The lemmas: the report names the exception and has all registers; the exceptions from 23 on index outside the table of names.
\<close>

type_synonym literals = "u8 list \<Rightarrow> u32"

subsection \<open>Operations\<close>

definition isr_names :: "u8 list list" where
  "isr_names = map chars [''DE'', ''DB'', ''NMI'', ''BP'', ''OF'', ''BR'', ''UD'', ''NM'', ''DF'', ''CSO'', ''TS'', ''NP'', ''SS'', ''GP'', ''PF'', '''', ''MF'', ''AC'',
     ''MC'', ''XM'', ''VE'', ''CP'', '''']"

definition isr_error_strings :: "literals \<Rightarrow> u32 \<Rightarrow> u32 option" where
  "isr_error_strings lit i = (if unat i < length isr_names then Some (lit (isr_names ! unat i)) else None)"

text \<open>
  \<open>cr2\<close> is what the inline assembler leaves in the variable of that name: the instruction that should store the register in the variable
  has its operands exchanged, so it is the register only if the compiler happens to choose \<^verbatim>\<open>eax\<close> for the variable.
\<close>

definition isr_handler ::
    "literals \<Rightarrow> printf_frame \<Rightarrow> u32 \<Rightarrow> u32 \<Rightarrow> 'x int_state_scheme \<Rightarrow> 'c serial_state_scheme \<Rightarrow> 'c serial_state_scheme option" where
  "isr_handler lit fr cr2 regs h t = do {
     r \<leftarrow> load_regs regs h;
     name \<leftarrow> isr_error_strings lit (r_int_no r);
     t \<leftarrow> printf fr (lit (chars ''ISR: #%s On pid: %d'' @ [10])) [name, get_current_pid h] t;
     t \<leftarrow> printf fr (lit (chars ''Kernel Panic!'' @ [10])) [] t;
     t \<leftarrow> printf fr (lit (chars ''EAX: %x EBX: %x ECX: %x EDX: %x'' @ [10])) [r_eax r, r_ebx r, r_ecx r, r_edx r] t;
     t \<leftarrow> printf fr (lit (chars ''ESI: %x EDI: %x ESP: %x EBP: %x'' @ [10])) [r_esi r, r_edi r, r_esp r, r_ebp r] t;
     t \<leftarrow> printf fr (lit (chars ''EIP: %x CS: %x DS: %x SS: %x'' @ [10])) [r_eip r, r_cs r, r_ds r, r_ss r] t;
     t \<leftarrow> printf fr (lit (chars ''Error Code: %x'' @ [10])) [r_pfa r] t;
     if r_int_no r = 14
     then do {
       p \<leftarrow> get_paddr cr2 h;
       f \<leftarrow> get_pflags cr2 h;
       printf fr (lit (chars ''Paddr and flags: %x, %x'' @ [10])) [p, f] t
     }
     else Some t
   }"

datatype panic_end = Held u32 | Raised u8

definition kernel_panic ::
    "literals \<Rightarrow> printf_frame \<Rightarrow> u32 \<Rightarrow> u32 \<Rightarrow> 'c serial_state_scheme \<Rightarrow> (panic_end \<times> 'c serial_state_scheme) option" where
  "kernel_panic lit fr message regs t = do {
     t \<leftarrow> printf fr (lit (chars ''Kernel Panic!'' @ [10] @ chars ''An fatal error occured, and could not be recovered.'' @ [10] @ chars ''Error: '')) [] t;
     t \<leftarrow> printf fr message [] t;
     t \<leftarrow> printf fr (lit (chars ''System halting...'' @ [10])) [] t;
     Some (if regs \<noteq> 0 then Held regs else Raised 0x0d, t)
   }"

text \<open>The messages of a system call: 0 is \<^verbatim>\<open>KOS_INT_EXIT\<close>, 1 \<^verbatim>\<open>KOS_INT_OPEN\<close>, 7 \<^verbatim>\<open>KOS_INT_FORK\<close>.\<close>

definition syscall_messages ::
    "literals \<Rightarrow> printf_frame \<Rightarrow> u32 \<Rightarrow> 'x int_state_scheme \<Rightarrow> 'c serial_state_scheme \<Rightarrow> 'c serial_state_scheme option" where
  "syscall_messages lit fr regs h t = do {
     eax \<leftarrow> load32 (regs + 44) h;
     ebx \<leftarrow> load32 (regs + 32) h;
     if eax = 0
     then do {
       t \<leftarrow> printf fr (lit (chars ''Exiting with code: %x on pid %d'' @ [10])) [ebx, get_current_pid h] t;
       printf fr (lit (chars ''Calling interrupt'' @ [10])) [] t
     }
     else if eax = 1 then printf fr (lit (chars ''%s'')) [ebx] t
     else if eax = 7 then Some t
     else printf fr (lit (chars ''Unknown syscall'' @ [10])) [] t
   }"

subsection \<open>The report\<close>

definition plain :: "string \<Rightarrow> piece list" where
  "plain l = map Lit (chars l)"

definition field :: "string \<Rightarrow> u32 \<Rightarrow> piece list" where
  "field l v = plain l @ [Hex v]"

definition isr_report :: "u32 \<Rightarrow> u32 \<Rightarrow> cpu_registers_t \<Rightarrow> u8 list \<Rightarrow> piece list list" where
  "isr_report pid name r xs =
     [plain ''ISR: #'' @ [Str name xs] @ plain '' On pid: '' @ [Dec pid, Lit 10],
      plain ''Kernel Panic!'' @ [Lit 10],
      field ''EAX: '' (r_eax r) @ field '' EBX: '' (r_ebx r) @ field '' ECX: '' (r_ecx r) @ field '' EDX: '' (r_edx r) @ [Lit 10],
      field ''ESI: '' (r_esi r) @ field '' EDI: '' (r_edi r) @ field '' ESP: '' (r_esp r) @ field '' EBP: '' (r_ebp r) @ [Lit 10],
      field ''EIP: '' (r_eip r) @ field '' CS: '' (r_cs r) @ field '' DS: '' (r_ds r) @ field '' SS: '' (r_ss r) @ [Lit 10],
      field ''Error Code: '' (r_pfa r) @ [Lit 10]]"

text \<open>A string constant that \<^verbatim>\<open>printf\<close> can read while it uses its local arrays.\<close>

definition literal_at :: "printf_frame \<Rightarrow> bmem \<Rightarrow> u32 \<Rightarrow> u8 list \<Rightarrow> bool" where
  "literal_at fr m p xs \<longleftrightarrow> cstr m p xs \<and> (\<forall>i\<le>length xs. outside fr (p + of_nat i))"

lemma literal_at_keeps: "keeps_frame fr m m' \<Longrightarrow> literal_at fr m p xs \<Longrightarrow> literal_at fr m' p xs"
  by (auto simp: literal_at_def keeps_frame_def intro: cstr_frame)

definition line_ok :: "printf_frame \<Rightarrow> literals \<Rightarrow> bmem \<Rightarrow> piece list \<Rightarrow> bool" where
  "line_ok fr lit m xs \<longleftrightarrow> literal_at fr m (lit (concat (map piece_format xs))) (concat (map piece_format xs)) \<and> (\<forall>x\<in>set xs. piece_ok fr m x)"

lemma line_ok_keeps: "keeps_frame fr m m' \<Longrightarrow> line_ok fr lit m xs \<Longrightarrow> line_ok fr lit m' xs"
  unfolding line_ok_def using literal_at_keeps piece_ok_keeps by blast

lemma printf_line:
  assumes "frame_ok fr (smem t)" "line_ok fr lit (smem t) xs" "f = concat (map piece_format xs)" "vs = concat (map piece_args xs)"
  shows "\<exists>m. printf fr (lit f) vs t = Some (sent (concat (map piece_text xs)) (t\<lparr>smem := m\<rparr>)) \<and> keeps_frame fr (smem t) m"
  using assms vprintf_pieces [of fr t xs "lit f"] by (auto simp: printf_def line_ok_def literal_at_def)

text \<open>Several lines, one call of \<^verbatim>\<open>printf\<close> each.\<close>

primrec printf_lines :: "literals \<Rightarrow> printf_frame \<Rightarrow> piece list list \<Rightarrow> 'c serial_state_scheme \<Rightarrow> 'c serial_state_scheme option" where
  "printf_lines lit fr [] t = Some t"
| "printf_lines lit fr (xs # xss) t = do {
     t \<leftarrow> printf fr (lit (concat (map piece_format xs))) (concat (map piece_args xs)) t;
     printf_lines lit fr xss t
   }"

lemma printf_lines_text:
  "frame_ok fr (smem t) \<Longrightarrow> \<forall>xs\<in>set xss. line_ok fr lit (smem t) xs \<Longrightarrow>
   \<exists>m. printf_lines lit fr xss t = Some (sent (concat (map piece_text (concat xss))) (t\<lparr>smem := m\<rparr>)) \<and> keeps_frame fr (smem t) m"
proof (induction xss arbitrary: t)
  case Nil
  then show ?case by (intro exI [of _ "smem t"]) (simp add: keeps_frame_def)
next
  case (Cons xs xss)
  obtain m where m: "printf fr (lit (concat (map piece_format xs))) (concat (map piece_args xs)) t = Some (sent (concat (map piece_text xs)) (t\<lparr>smem := m\<rparr>))"
      "keeps_frame fr (smem t) m"
    using printf_line [OF Cons.prems(1) _ refl refl, of lit xs] Cons.prems(2) by auto
  let ?t = "sent (concat (map piece_text xs)) (t\<lparr>smem := m\<rparr>)"
  have "frame_ok fr (smem ?t)" "\<forall>ys\<in>set xss. line_ok fr lit (smem ?t) ys"
    using m(2) Cons.prems(2) line_ok_keeps [OF m(2)] by (auto simp: keeps_frame_def)
  from Cons.IH [OF this] obtain m' where
    "printf_lines lit fr xss ?t = Some (sent (concat (map piece_text (concat xss))) (?t\<lparr>smem := m'\<rparr>))" "keeps_frame fr (smem ?t) m'" by blast
  then show ?case using m keeps_frame_trans by (intro exI [of _ m']) auto
qed

lemma plain_format [simp]: "concat (map piece_format (plain l)) = chars l" "concat (map piece_args (plain l)) = []" "concat (map piece_text (plain l)) = chars l"
  by (simp_all add: plain_def comp_def concat_map_singleton [of "\<lambda>x. x", simplified])

lemma isr_report_prints:
  assumes "load_regs regs h = Some r" "unat (r_int_no r) < length isr_names" "r_int_no r \<noteq> 14"
  shows "isr_handler lit fr cr2 regs h t =
    printf_lines lit fr (isr_report (get_current_pid h) (lit (isr_names ! unat (r_int_no r))) r (isr_names ! unat (r_int_no r))) t"
  using assms by (simp add: isr_handler_def isr_error_strings_def isr_report_def field_def) (simp add: chars_def)

lemma isr_handler_reports:
  assumes "load_regs regs h = Some r" "unat (r_int_no r) < length isr_names" "r_int_no r \<noteq> 14" and fr: "frame_ok fr (smem t)"
    and lines: "\<forall>xs\<in>set (isr_report (get_current_pid h) (lit (isr_names ! unat (r_int_no r))) r (isr_names ! unat (r_int_no r))). line_ok fr lit (smem t) xs"
  shows "\<exists>t'. isr_handler lit fr cr2 regs h t = Some t' \<and> Serial.port_out t' = Serial.port_out t @
    map (Pair (com_ports t ! 0)) (concat (map piece_text (concat (isr_report (get_current_pid h) (lit (isr_names ! unat (r_int_no r))) r (isr_names ! unat (r_int_no r))))))"
  using printf_lines_text [OF fr lines] isr_report_prints [OF assms(1-3), of lit fr cr2 t] by (auto simp: sent_def)

text \<open>The table has 23 names: the processor raises exceptions up to 31, and from 23 on the index is outside.\<close>

lemma isr_handler_outside_table: "load_regs regs h = Some r \<Longrightarrow> 23 \<le> r_int_no r \<Longrightarrow> isr_handler lit fr cr2 regs h t = None"
  by (simp add: isr_handler_def isr_error_strings_def isr_names_def word_le_nat_alt)

lemma kernel_panic_prints:
  assumes fr: "frame_ok fr (smem t)" and msg: "cstr (smem t) message xs" "37 \<notin> set xs"
    and lits: "cstr (smem t) (lit (chars ''Kernel Panic!'' @ [10] @ chars ''An fatal error occured, and could not be recovered.'' @ [10] @ chars ''Error: ''))
        (chars ''Kernel Panic!'' @ [10] @ chars ''An fatal error occured, and could not be recovered.'' @ [10] @ chars ''Error: '')"
      "cstr (smem t) (lit (chars ''System halting...'' @ [10])) (chars ''System halting...'' @ [10])"
  shows "kernel_panic lit fr message regs t = Some (if regs \<noteq> 0 then Held regs else Raised 0x0d,
    sent ((chars ''Kernel Panic!'' @ [10] @ chars ''An fatal error occured, and could not be recovered.'' @ [10] @ chars ''Error: '') @ xs @ chars ''System halting...'' @ [10]) t)"
proof -
  let ?a = "chars ''Kernel Panic!'' @ [10] @ chars ''An fatal error occured, and could not be recovered.'' @ [10] @ chars ''Error: ''" and ?z = "chars ''System halting...'' @ [10]"
  have "37 \<notin> set ?a" "37 \<notin> set ?z" by (simp_all add: chars_def)
  then have "printf fr (lit ?a) [] t = Some (sent ?a t)" "printf fr message [] (sent ?a t) = Some (sent (?a @ xs) t)"
    "printf fr (lit ?z) [] (sent (?a @ xs) t) = Some (sent (?a @ xs @ ?z) t)"
    using vprintf_plain [of t "lit ?a" ?a fr "[]"] vprintf_plain [of "sent ?a t" message xs fr "[]"] vprintf_plain [of "sent (?a @ xs) t" "lit ?z" ?z fr "[]"] msg lits
    by (simp_all add: printf_def)
  then show ?thesis unfolding kernel_panic_def by (simp only: Option.bind.bind_lunit append_assoc)
qed

end
