(* ===== verification/DiskWrite.thy ===== *)
theory DiskWrite
  imports RamFS
begin

text \<open>
  The image builder (\<^verbatim>\<open>tools/diskwrite.c\<close>), a program of the host that copies files into the root directory of a FAT32 image.  A file of the
  host is its list of bytes; reading behind the end gives the zeros of the \<^verbatim>\<open>memset\<close>, writing behind it extends the file.  The boot
  record is the list of its 90 bytes, from which the fields are read at their offsets; the table is a list of words.  \<^verbatim>\<open>size_t\<close> has 64 bits,
  \<^verbatim>\<open>int\<close> and \<^verbatim>\<open>uint32_t\<close> 32.  Leaving an array, dividing by zero and using a missing result are undefined, \<^const>\<open>None\<close>.

  The property: a file that was written is read back along its chain of clusters, and no other cluster in use changes.
\<close>

subsection \<open>Files of the host\<close>

type_synonym host_file = "u8 list"

definition byte_of :: "host_file \<Rightarrow> nat \<Rightarrow> u8" where
  "byte_of f i = (if i < length f then f ! i else 0)"

definition write_at :: "nat \<Rightarrow> u8 list \<Rightarrow> host_file \<Rightarrow> host_file" where
  "write_at off bs f = map (\<lambda>i. if off \<le> i \<and> i < off + length bs then bs ! (i - off) else byte_of f i) [0..<max (length f) (off + length bs)]"

text \<open>The result is the number of whole sectors that could be read, and the buffer.\<close>

definition read_sector :: "host_file \<Rightarrow> u32 \<Rightarrow> u32 \<Rightarrow> nat \<times> u8 list" where
  "read_sector f sector_start n =
     (let off = unat (sector_start * 512); len = unat n * 512
      in (min len (length f - off) div 512, map (\<lambda>i. byte_of f (off + i)) [0..<len]))"

definition write_sector :: "u32 \<Rightarrow> u32 \<Rightarrow> u8 list \<Rightarrow> host_file \<Rightarrow> host_file option" where
  "write_sector sector_start n buf f =
     (if unat n * 512 \<le> length buf then Some (write_at (unat (sector_start * 512)) (take (unat n * 512) buf) f) else None)"

subsection \<open>The boot record and the table\<close>

record fat_info =
  bpb_bytes :: "u8 list"
  dw_table :: "u32 list"
  file_table_size_sectors :: u32

definition dw_le16 :: "u8 list \<Rightarrow> nat \<Rightarrow> u16" where
  "dw_le16 bs i = ucast (bs ! i) OR push_bit 8 (ucast (bs ! (i + 1)))"

definition dw_le32 :: "u8 list \<Rightarrow> nat \<Rightarrow> u32" where
  "dw_le32 bs i = ucast (bs ! i) OR push_bit 8 (ucast (bs ! (i + 1))) OR push_bit 16 (ucast (bs ! (i + 2))) OR push_bit 24 (ucast (bs ! (i + 3)))"

definition put16 :: "nat \<Rightarrow> u16 \<Rightarrow> u8 list \<Rightarrow> u8 list" where
  "put16 i v bs = bs[i := ucast v, i + 1 := ucast (drop_bit 8 v)]"

definition put32 :: "nat \<Rightarrow> u32 \<Rightarrow> u8 list \<Rightarrow> u8 list" where
  "put32 i v bs = bs[i := ucast v, i + 1 := ucast (drop_bit 8 v), i + 2 := ucast (drop_bit 16 v), i + 3 := ucast (drop_bit 24 v)]"

definition dw_bytes_per_sector :: "fat_info \<Rightarrow> u16" where
  "dw_bytes_per_sector info = dw_le16 (bpb_bytes info) 11"

definition dw_sectors_per_cluster :: "fat_info \<Rightarrow> u8" where
  "dw_sectors_per_cluster info = bpb_bytes info ! 13"

definition dw_reserved_sectors :: "fat_info \<Rightarrow> u16" where
  "dw_reserved_sectors info = dw_le16 (bpb_bytes info) 14"

definition dw_fat_count :: "fat_info \<Rightarrow> u8" where
  "dw_fat_count info = bpb_bytes info ! 16"

definition dw_root_dir_entries :: "fat_info \<Rightarrow> u16" where
  "dw_root_dir_entries info = dw_le16 (bpb_bytes info) 17"

definition dw_partition_start :: "fat_info \<Rightarrow> u32" where
  "dw_partition_start info = dw_le32 (bpb_bytes info) 28"

definition dw_large_sector_count :: "fat_info \<Rightarrow> u32" where
  "dw_large_sector_count info = dw_le32 (bpb_bytes info) 32"

definition dw_sectors_per_fat :: "fat_info \<Rightarrow> u32" where
  "dw_sectors_per_fat info = dw_le32 (bpb_bytes info) 36"

definition dw_root_dir_cluster :: "fat_info \<Rightarrow> u32" where
  "dw_root_dir_cluster info = dw_le32 (bpb_bytes info) 44"

text \<open>
  \<^verbatim>\<open>info->fsinfo\<close> is never filled, so that \<^verbatim>\<open>cluster_search_start\<close> is 0 and the search starts at 2.  A search that finds nothing reaches the
  end of the function without a result.
\<close>

primrec free_in :: "u32 list \<Rightarrow> nat list \<Rightarrow> u32 option" where
  "free_in t [] = None"
| "free_in t (i # is) = (if i \<ge> length t then None else if t ! i \<noteq> 0 then free_in t is else Some (of_nat i))"

definition find_free_cluster :: "fat_info \<Rightarrow> u32 option" where
  "find_free_cluster info =
     (if dw_sectors_per_cluster info = 0 then None
      else free_in (dw_table info) [2..<unat (dw_large_sector_count info div ucast (dw_sectors_per_cluster info))])"

definition write_cluster_value :: "u32 \<Rightarrow> u32 \<Rightarrow> fat_info \<Rightarrow> fat_info option" where
  "write_cluster_value val cluster info = fold_opt (\<lambda>i info.
       let j = unat (cluster + of_nat i * dw_sectors_per_fat info * ucast (dw_bytes_per_sector info div 4))
       in if j < length (dw_table info) then Some (info\<lparr>dw_table := (dw_table info)[j := val]\<rparr>) else None)
     [0..<unat (dw_fat_count info)] info"

definition cluster_sector :: "fat_info \<Rightarrow> u32 \<Rightarrow> u32" where
  "cluster_sector info cluster =
     ucast (dw_reserved_sectors info) + file_table_size_sectors info + dw_partition_start info + (cluster - 2) * ucast (dw_sectors_per_cluster info)"

definition read_cluster :: "fat_info \<Rightarrow> u32 \<Rightarrow> host_file \<Rightarrow> (u32 \<times> u8 list) option" where
  "read_cluster info cluster disk =
     (if unat cluster < length (dw_table info)
      then Some (dw_table info ! unat cluster, snd (read_sector disk (cluster_sector info cluster) (ucast (dw_sectors_per_cluster info))))
      else None)"

subsection \<open>Writing files\<close>

definition cluster_bytes :: "fat_info \<Rightarrow> u32" where
  "cluster_bytes info = ucast (dw_bytes_per_sector info) * ucast (dw_sectors_per_cluster info)"

definition write_step :: "u8 list \<Rightarrow> nat \<Rightarrow> u32 \<times> fat_info \<times> host_file \<Rightarrow> (u32 \<times> fat_info \<times> host_file) option" where
  "write_step new_buffer i = (\<lambda>(cluster, info, disk). do {
     disk \<leftarrow> write_sector (cluster_sector info cluster) (ucast (dw_sectors_per_cluster info))
       (drop (unat (of_nat i * ucast (dw_sectors_per_cluster info) * ucast (dw_bytes_per_sector info) :: u32)) new_buffer) disk;
     if unat cluster \<ge> length (dw_table info) then None
     else do {
       let next_cluster = dw_table info ! unat cluster;
       if next_cluster = - 1
       then do {
         next_cluster \<leftarrow> find_free_cluster info;
         info \<leftarrow> write_cluster_value next_cluster cluster info;
         info \<leftarrow> write_cluster_value (- 1) next_cluster info;
         Some (next_cluster, info, disk)
       }
       else Some (next_cluster, info, disk)
     }
   })"

text \<open>\<open>first_cluster\<close> is that of the entry, or of the root directory for the null pointer.\<close>

definition write_file :: "u32 option \<Rightarrow> u8 list \<Rightarrow> u64 \<Rightarrow> fat_info \<Rightarrow> host_file \<Rightarrow> (u32 \<times> fat_info \<times> host_file) option" where
  "write_file file_cluster buffer sz info disk = do {
     let first_cluster = (case file_cluster of None \<Rightarrow> dw_root_dir_cluster info | Some c \<Rightarrow> c);
     if cluster_bytes info = 0 then None
     else do {
       let clusters = (ucast (sz div ucast (cluster_bytes info)) + 1 :: u32);
       let alloc = unat (clusters * cluster_bytes info);
       if unat sz > alloc \<or> unat sz > length buffer then None
       else do {
         let new_buffer = take (unat sz) buffer @ replicate (alloc - unat sz) 0;
         (cluster, info, disk) \<leftarrow> fold_opt (write_step new_buffer) [0..<unat clusters] (first_cluster, info, disk);
         info \<leftarrow> write_cluster_value (- 1) cluster info;
         Some (ucast (sz * ucast (dw_bytes_per_sector info) * ucast (dw_sectors_per_cluster info)), info, disk)
       }
     }
   }"

subsection \<open>Adding a file\<close>

text \<open>The first empty entry of the directory, whose buffer has room for \<open>n\<close> entries of 32 bytes.\<close>

primrec first_empty :: "u8 list \<Rightarrow> nat list \<Rightarrow> nat option" where
  "first_empty root [] = None"
| "first_empty root (i # is) = (if root ! (32 * i) = 0 then Some i else first_empty root is)"

definition put_list :: "nat \<Rightarrow> u8 list \<Rightarrow> u8 list \<Rightarrow> u8 list" where
  "put_list off bs xs = fold (\<lambda>i xs. xs[off + i := bs ! i]) [0..<length bs] xs"

text \<open>The name is what precedes the first dot, the extension the three characters behind it; a path without a dot is a null pointer.\<close>

definition put_name :: "nat \<Rightarrow> u8 list \<Rightarrow> u8 list \<Rightarrow> u8 list option" where
  "put_name index path root =
     (let name = takeWhile (\<lambda>c. c \<noteq> 46) path; ext = takeWhile (\<lambda>c. c \<noteq> 0) (take 3 (drop (length name + 1) path))
      in if 46 \<notin> set path \<or> length name > 8 then None
         else Some (put_list (32 * index + 8) ext (put_list (32 * index) name root)))"

definition create_file :: "u8 list \<Rightarrow> host_file \<Rightarrow> fat_info \<Rightarrow> host_file \<Rightarrow> (fat_info \<times> host_file) option" where
  "create_file path file_bytes info disk = do {
     let spc = unat (dw_sectors_per_cluster info);
     (next, cl) \<leftarrow> read_cluster info (dw_root_dir_cluster info) disk;
     let root_files = cl @ replicate (spc * 512 * 31) 0;
     index \<leftarrow> first_empty root_files [0..<spc * 512];
     root_files \<leftarrow> put_name index path root_files;
     let sz = (of_nat (length file_bytes) :: u32);
     let root_files = put32 (32 * index + 28) sz root_files;
     first_cluster \<leftarrow> find_free_cluster info;
     let info = info\<lparr>dw_table := (dw_table info)[unat first_cluster := - 1]\<rparr>;
     let root_files = put16 (32 * index + 26) (ucast first_cluster) root_files;
     let root_files = put16 (32 * index + 20) (ucast (drop_bit 16 first_cluster)) root_files;
     let info = info\<lparr>bpb_bytes := put16 17 (dw_root_dir_entries info + 1) (bpb_bytes info)\<rparr>;
     (r, info, disk) \<leftarrow> write_file (Some first_cluster) (take (unat sz) file_bytes) (ucast sz) info disk;
     (r, info, disk) \<leftarrow> write_file None root_files (ucast (dw_root_dir_entries info) * 32) info disk;
     Some (info, disk)
   }"

definition table_bytes :: "u32 list \<Rightarrow> u8 list" where
  "table_bytes t = concat (map (le_bytes 4) t)"

definition fat_write_back :: "fat_info \<Rightarrow> host_file \<Rightarrow> host_file option" where
  "fat_write_back info disk =
     write_sector (ucast (dw_reserved_sectors info)) (dw_sectors_per_fat info * ucast (dw_fat_count info)) (table_bytes (dw_table info)) disk"

text \<open>In \<^verbatim>\<open>x += 512 * x == 0\<close> the comparison binds less than the product: a field that is 0 becomes 1.\<close>

definition repair_bpb :: "u8 list \<Rightarrow> u8 list" where
  "repair_bpb bs =
     (let bs = put16 11 (dw_le16 bs 11 + (if 512 * (ucast (dw_le16 bs 11) :: u32) = 0 then 1 else 0)) bs;
          bs = bs[13 := bs ! 13 + (if 8 * (ucast (bs ! 13) :: u32) = 0 then 1 else 0)];
          bs = put16 14 (dw_le16 bs 14 + (if 32 * (ucast (dw_le16 bs 14) :: u32) = 0 then 1 else 0)) bs
      in put32 44 (dw_le32 bs 44 + (if 2 * dw_le32 bs 44 = 0 then 1 else 0)) bs)"

definition words_of :: "u8 list \<Rightarrow> u32 list" where
  "words_of bs = map (\<lambda>i. dw_le32 bs (4 * i)) [0..<length bs div 4]"

definition detect_repair_fs :: "host_file \<Rightarrow> (fat_info \<times> host_file) option" where
  "detect_repair_fs disk = do {
     let boot_sector = snd (read_sector disk 0 1);
     let b = repair_bpb (take 90 boot_sector);
     disk \<leftarrow> write_sector 0 1 (b @ drop 90 boot_sector) disk;
     let info = \<lparr>bpb_bytes = b, dw_table = [], file_table_size_sectors = 0\<rparr>;
     let tsz = ucast (dw_fat_count info) * dw_sectors_per_fat info;
     let room = unat (tsz * ucast (dw_bytes_per_sector info));
     if room < unat tsz * 512 then None
     else do {
       let t = words_of (snd (read_sector disk (ucast (dw_reserved_sectors info)) tsz) @ replicate (room - unat tsz * 512) 0);
       let root = unat (dw_root_dir_cluster info);
       if root \<ge> length t then None
       else do {
         let t = (if t ! root = 0 then t[0 := - 1, 1 := - 1, root := - 1] else t);
         Some (info\<lparr>dw_table := t, file_table_size_sectors := tsz\<rparr>, disk)
       }
     }
   }"

text \<open>
  The command line: \<open>opened\<close> has the files that can be opened.  A missing output file is used as a null pointer, a missing input file ends the
  program after the files before it.
\<close>

record options =
  list_root_dir :: bool
  input_files :: "u8 list list"
  output_file :: "u8 list option"

fun parse_args :: "(u8 list \<Rightarrow> host_file option) \<Rightarrow> u8 list list \<Rightarrow> options \<Rightarrow> options option" where
  "parse_args opened [] opt = Some opt"
| "parse_args opened (a # as) opt =
     (if a = [45, 108] then parse_args opened as (opt\<lparr>list_root_dir := True\<rparr>)
      else if a = [45, 111]
      then (case as of [] \<Rightarrow> None
            | f # fs \<Rightarrow> parse_args opened fs (opt\<lparr>output_file := (if opened f = None then None else Some f)\<rparr>))
      else if a = [45, 118] then parse_args opened as opt
      else if length (input_files opt) \<ge> 512 then None
      else parse_args opened as (opt\<lparr>input_files := input_files opt @ [a]\<rparr>))"

datatype outcome = Finished host_file | Exited host_file

fun add_files :: "(u8 list \<Rightarrow> host_file option) \<Rightarrow> u8 list list \<Rightarrow> fat_info \<Rightarrow> host_file \<Rightarrow> (bool \<times> fat_info \<times> host_file) option" where
  "add_files opened [] info disk = Some (True, info, disk)"
| "add_files opened (f # fs) info disk =
     (case opened f of None \<Rightarrow> Some (False, info, disk)
      | Some bytes \<Rightarrow> do { (info, disk) \<leftarrow> create_file f bytes info disk; add_files opened fs info disk })"

definition dw_main :: "(u8 list \<Rightarrow> host_file option) \<Rightarrow> u8 list list \<Rightarrow> outcome option" where
  "dw_main opened args = do {
     opt \<leftarrow> parse_args opened args \<lparr>list_root_dir = False, input_files = [], output_file = None\<rparr>;
     out \<leftarrow> output_file opt;
     disk \<leftarrow> opened out;
     (info, disk) \<leftarrow> detect_repair_fs disk;
     (ok, info, disk) \<leftarrow> add_files opened (input_files opt) info disk;
     if \<not> ok then Some (Exited disk)
     else do {
       (if list_root_dir opt then do { (next, cl) \<leftarrow> read_cluster info 2 disk; first_empty cl [0..<unat (dw_sectors_per_cluster info) * 16] } else Some 0);
       disk \<leftarrow> fat_write_back info disk;
       Some (Finished disk)
     }
   }"

subsection \<open>Geometry\<close>

lemma byte_of_write_at: "byte_of (write_at off bs f) i = (if off \<le> i \<and> i < off + length bs then bs ! (i - off) else byte_of f i)"
  by (auto simp: write_at_def byte_of_def)

text \<open>A volume of \<open>n\<close> clusters of sectors of 512 bytes, whose addresses and tables fit their types.\<close>

definition dw_ok :: "fat_info \<Rightarrow> nat \<Rightarrow> bool" where
  "dw_ok info n \<longleftrightarrow> dw_bytes_per_sector info = 512 \<and> dw_sectors_per_cluster info \<noteq> 0 \<and> dw_fat_count info \<noteq> 0 \<and>
     n = unat (dw_large_sector_count info div ucast (dw_sectors_per_cluster info)) \<and> n \<le> unat (dw_sectors_per_fat info) * 128 \<and>
     length (dw_table info) = unat (dw_fat_count info) * (unat (dw_sectors_per_fat info) * 128) \<and> length (dw_table info) < 2 ^ 32 \<and>
     (unat (dw_reserved_sectors info) + unat (file_table_size_sectors info) + unat (dw_partition_start info) + n * unat (dw_sectors_per_cluster info)) * 512 < 2 ^ 32"

definition with_table :: "fat_info \<Rightarrow> u32 list \<Rightarrow> fat_info" where
  "with_table info t = info\<lparr>dw_table := t\<rparr>"

lemma with_table_simps [simp]:
  "dw_table (with_table info t) = t" "with_table (with_table info t) t' = with_table info t'" "with_table info (dw_table info) = info"
  "dw_bytes_per_sector (with_table info t) = dw_bytes_per_sector info" "dw_sectors_per_cluster (with_table info t) = dw_sectors_per_cluster info"
  "dw_fat_count (with_table info t) = dw_fat_count info" "dw_sectors_per_fat (with_table info t) = dw_sectors_per_fat info"
  "dw_large_sector_count (with_table info t) = dw_large_sector_count info" "cluster_sector (with_table info t) = cluster_sector info"
  "dw_reserved_sectors (with_table info t) = dw_reserved_sectors info" "dw_partition_start (with_table info t) = dw_partition_start info"
  "file_table_size_sectors (with_table info t) = file_table_size_sectors info" "cluster_bytes (with_table info t) = cluster_bytes info"
  by (auto simp: with_table_def dw_bytes_per_sector_def dw_sectors_per_cluster_def dw_fat_count_def dw_sectors_per_fat_def dw_large_sector_count_def
      cluster_sector_def dw_reserved_sectors_def dw_partition_start_def cluster_bytes_def)

lemma dw_ok_with_table: "dw_ok info n \<Longrightarrow> length t = length (dw_table info) \<Longrightarrow> dw_ok (with_table info t) n"
  unfolding dw_ok_def with_table_simps by metis

abbreviation (input) fat_entries :: "fat_info \<Rightarrow> nat" where
  "fat_entries info \<equiv> unat (dw_sectors_per_fat info) * 128"

lemma dw_ok_entries:
  assumes "dw_ok info n"
  shows "n \<le> fat_entries info" "fat_entries info \<le> length (dw_table info)" "length (dw_table info) < 2 ^ 32"
proof -
  have "1 \<le> unat (dw_fat_count info)" using assms by (simp add: dw_ok_def Suc_le_eq unat_gt_0)
  then have "1 * fat_entries info \<le> unat (dw_fat_count info) * fat_entries info" by (rule mult_le_mono1)
  then show "fat_entries info \<le> length (dw_table info)" "n \<le> fat_entries info" "length (dw_table info) < 2 ^ 32"
    using assms unfolding dw_ok_def by (simp, blast, blast)
qed

lemma copy_index:
  assumes "dw_ok info n" "unat cluster < fat_entries info" "i < unat (dw_fat_count info)"
  shows "unat (cluster + of_nat i * dw_sectors_per_fat info * ucast (dw_bytes_per_sector info div 4)) = unat cluster + i * fat_entries info"
    "unat cluster + i * fat_entries info < length (dw_table info)"
proof -
  let ?e = "fat_entries info"
  have "Suc i * ?e \<le> unat (dw_fat_count info) * ?e" using assms(3) by (intro mult_le_mono1) simp
  then show lt: "unat cluster + i * ?e < length (dw_table info)" using assms(1,2) by (simp add: dw_ok_def)
  have "(512 :: u16) div 4 = 128" by code_simp
  then have "(ucast (dw_bytes_per_sector info div 4) :: u32) = 128" using assms(1) by (simp add: dw_ok_def)
  then have "cluster + of_nat i * dw_sectors_per_fat info * ucast (dw_bytes_per_sector info div 4) = of_nat (unat cluster + i * ?e)"
    by (simp add: ac_simps)
  moreover have "unat cluster + i * ?e < 2 ^ LENGTH(32)" using lt dw_ok_entries(3) [OF assms(1)] by simp
  ultimately show "unat (cluster + of_nat i * dw_sectors_per_fat info * ucast (dw_bytes_per_sector info div 4)) = unat cluster + i * ?e"
    by (simp only: unat_of_nat_lt)
qed

lemma write_cluster_value_all:
  assumes ok: "dw_ok info n" and c: "unat cluster < fat_entries info"
  shows "\<exists>t. write_cluster_value v cluster info = Some (with_table info t) \<and> length t = length (dw_table info) \<and>
    (\<forall>j<fat_entries info. t ! j = (if j = unat cluster then v else dw_table info ! j))"
proof -
  let ?e = "fat_entries info" and ?t = "dw_table info"
  let ?P = "\<lambda>(i :: nat) info'. \<exists>t. info' = with_table info t \<and> length t = length ?t \<and> (\<forall>j<?e. t ! j = (if 0 < i \<and> j = unat cluster then v else ?t ! j))"
  have "\<exists>info'. write_cluster_value v cluster info = Some info' \<and> ?P (unat (dw_fat_count info)) info'"
    unfolding write_cluster_value_def
  proof (rule fold_opt_invariant [where P = ?P])
    show "?P 0 info" by (intro exI [of _ ?t]) simp
    fix i info'
    assume i: "i < unat (dw_fat_count info)" and "?P i info'"
    then obtain t where t: "info' = with_table info t" "length t = length ?t" "\<forall>j<?e. t ! j = (if 0 < i \<and> j = unat cluster then v else ?t ! j)" by blast
    note ix = copy_index [OF ok c i]
    have "?P (Suc i) (with_table info (t[unat cluster + i * ?e := v]))"
    proof (intro exI conjI allI impI)
      fix j
      assume j: "j < ?e"
      have "j = unat cluster + i * ?e \<longleftrightarrow> i = 0 \<and> j = unat cluster" using j c by (cases i) auto
      then show "t[unat cluster + i * ?e := v] ! j = (if 0 < Suc i \<and> j = unat cluster then v else ?t ! j)"
        using t(2,3) j ix(2) by (auto simp: nth_list_update)
    qed (use t in simp_all)
    moreover have "info'\<lparr>dw_table := x\<rparr> = with_table info x" for x using t(1) by (simp add: with_table_def)
    ultimately show "\<exists>info''. (let j = unat (cluster + of_nat i * dw_sectors_per_fat info' * ucast (dw_bytes_per_sector info' div 4))
        in if j < length (dw_table info') then Some (info'\<lparr>dw_table := (dw_table info')[j := v]\<rparr>) else None) = Some info'' \<and> ?P (Suc i) info''"
      using t(1,2) ix by (simp add: Let_def)
  qed
  moreover have "0 < unat (dw_fat_count info)" using ok by (simp add: dw_ok_def unat_gt_0)
  ultimately show ?thesis by auto
qed

lemma free_in_finds:
  assumes "i \<in> set is" "t ! i = 0" "\<forall>j\<in>set is. j < length t \<and> j < 2 ^ 32"
  shows "\<exists>c. free_in t is = Some c \<and> unat c \<in> set is \<and> t ! unat c = 0"
  using assms by (induction "is") (auto simp: unat_of_nat_lt)

lemma find_free_cluster_finds:
  assumes ok: "dw_ok info n" and i: "2 \<le> i" "i < n" "dw_table info ! i = 0"
  shows "\<exists>c. find_free_cluster info = Some c \<and> 2 \<le> unat c \<and> unat c < n \<and> dw_table info ! unat c = 0"
proof -
  have "\<forall>j\<in>set [2..<n]. j < length (dw_table info) \<and> j < 2 ^ 32" using dw_ok_entries [OF ok] by auto
  then show ?thesis using free_in_finds [of i "[2..<n]" "dw_table info"] i ok by (auto simp: find_free_cluster_def dw_ok_def)
qed

subsection \<open>The data of clusters\<close>

abbreviation (input) spc :: "fat_info \<Rightarrow> nat" where
  "spc info \<equiv> unat (dw_sectors_per_cluster info)"

definition cluster_data :: "fat_info \<Rightarrow> host_file \<Rightarrow> u32 \<Rightarrow> u8 list" where
  "cluster_data info disk c = snd (read_sector disk (cluster_sector info c) (ucast (dw_sectors_per_cluster info)))"

definition in_volume :: "nat \<Rightarrow> u32 \<Rightarrow> bool" where
  "in_volume n c \<longleftrightarrow> 2 \<le> unat c \<and> unat c < n"

definition data_base :: "fat_info \<Rightarrow> nat" where
  "data_base info = unat (dw_reserved_sectors info) + unat (file_table_size_sectors info) + unat (dw_partition_start info)"

lemma cluster_offset:
  assumes ok: "dw_ok info n" and c: "in_volume n c"
  shows "unat (cluster_sector info c * 512) = (data_base info + (unat c - 2) * spc info) * 512"
proof -
  let ?k = "data_base info + (unat c - 2) * spc info"
  have "c - 2 = of_nat (unat c - 2)" using c by (simp add: in_volume_def of_nat_diff)
  then have "cluster_sector info c * 512 = of_nat (?k * 512)" by (simp add: cluster_sector_def data_base_def)
  moreover have "?k * 512 < 2 ^ LENGTH(32)"
  proof -
    have "(unat c - 2) * spc info \<le> n * spc info" using c unfolding in_volume_def by (intro mult_le_mono1) linarith
    then have "?k * 512 \<le> (data_base info + n * spc info) * 512" by (intro mult_le_mono1 [of "data_base info + (unat c - 2) * spc info"]) simp
    also have "\<dots> < 2 ^ 32" using ok unfolding dw_ok_def data_base_def by blast
    finally show ?thesis by simp
  qed
  ultimately show ?thesis by (simp only: unat_of_nat_lt)
qed

lemma cluster_data_bytes:
  assumes "dw_ok info n" "in_volume n c"
  shows "cluster_data info disk c = map (\<lambda>i. byte_of disk ((data_base info + (unat c - 2) * spc info) * 512 + i)) [0..<spc info * 512]"
proof -
  have "unat (ucast (dw_sectors_per_cluster info) :: u32) = spc info" by (simp add: unat_ucast_up)
  then show ?thesis using cluster_offset [OF assms] by (simp add: cluster_data_def read_sector_def Let_def)
qed

lemma distinct_clusters:
  assumes "in_volume n c" "in_volume n d" "c \<noteq> d" "i < spc info * 512" "j < spc info * 512"
  shows "(data_base info + (unat c - 2) * spc info) * 512 + i \<noteq> (data_base info + (unat d - 2) * spc info) * 512 + j"
proof
  let ?s = "spc info * 512"
  assume "(data_base info + (unat c - 2) * spc info) * 512 + i = (data_base info + (unat d - 2) * spc info) * 512 + j"
  then have "(unat c - 2) * ?s + i = (unat d - 2) * ?s + j" by (simp add: algebra_simps)
  then have "((unat c - 2) * ?s + i) div ?s = ((unat d - 2) * ?s + j) div ?s" by simp
  then have "unat c - 2 = unat d - 2" using assms(4,5) by simp
  then have "unat c = unat d" using assms(1,2) unfolding in_volume_def by linarith
  then show False using assms(3) unat_inj by blast
qed

lemma write_cluster:
  assumes ok: "dw_ok info n" and c: "in_volume n c" and buf: "spc info * 512 \<le> length buf"
  shows "\<exists>disk'. write_sector (cluster_sector info c) (ucast (dw_sectors_per_cluster info)) buf disk = Some disk' \<and>
    cluster_data info disk' c = take (spc info * 512) buf \<and> (\<forall>d. in_volume n d \<and> d \<noteq> c \<longrightarrow> cluster_data info disk' d = cluster_data info disk d)"
proof -
  let ?o = "\<lambda>c. (data_base info + (unat c - 2) * spc info) * 512" and ?s = "spc info * 512"
  let ?d = "write_at (?o c) (take ?s buf) disk"
  have u: "unat (ucast (dw_sectors_per_cluster info) :: u32) = spc info" by (simp add: unat_ucast_up)
  have "write_sector (cluster_sector info c) (ucast (dw_sectors_per_cluster info)) buf disk = Some ?d"
    using buf u cluster_offset [OF ok c] by (simp add: write_sector_def)
  moreover have "cluster_data info ?d c = take ?s buf"
    using buf by (auto simp: cluster_data_bytes [OF ok c] byte_of_write_at intro!: nth_equalityI)
  moreover have "cluster_data info ?d d = cluster_data info disk d" if d: "in_volume n d" "d \<noteq> c" for d
  proof -
    have "\<not> (?o c \<le> ?o d + i \<and> ?o d + i < ?o c + ?s)" if i: "i < ?s" for i
    proof
      assume "?o c \<le> ?o d + i \<and> ?o d + i < ?o c + ?s"
      then have "?o d + i = ?o c + (?o d + i - ?o c)" "?o d + i - ?o c < ?s" by linarith+
      then show False using distinct_clusters [OF d(1) c d(2) i, of "?o d + i - ?o c"] by blast
    qed
    then show ?thesis using buf by (auto simp: cluster_data_bytes [OF ok d(1)] byte_of_write_at)
  qed
  ultimately show ?thesis by blast
qed

subsection \<open>Writing a chain of clusters\<close>

definition chunk :: "fat_info \<Rightarrow> u8 list \<Rightarrow> nat \<Rightarrow> u8 list" where
  "chunk info buf i = take (spc info * 512) (drop (i * (spc info * 512)) buf)"

text \<open>One round at the end of a chain: the chunk is written and a free cluster is appended.\<close>

lemma write_step_extends:
  assumes ok: "dw_ok info n" and t: "length t = length (dw_table info)" and c: "in_volume n c" "t ! unat c = - 1"
    and free: "2 \<le> f" "f < n" "t ! f = 0" and buf: "Suc i * (spc info * 512) \<le> length buf" "length buf < 2 ^ 32"
  shows "\<exists>c' t' disk'. write_step buf i (c, with_table info t, disk) = Some (c', with_table info t', disk') \<and> in_volume n c' \<and> t ! unat c' = 0 \<and> c' \<noteq> c \<and>
    length t' = length t \<and> (\<forall>j<fat_entries info. t' ! j = (if j = unat c' then - 1 else if j = unat c then c' else t ! j)) \<and>
    cluster_data info disk' c = chunk info buf i \<and> (\<forall>d. in_volume n d \<and> d \<noteq> c \<longrightarrow> cluster_data info disk' d = cluster_data info disk d)"
proof -
  let ?i = "with_table info t" and ?s = "spc info * 512"
  have ok': "dw_ok ?i n" using dw_ok_with_table [OF ok t] .
  have len: "n \<le> fat_entries info" "fat_entries info \<le> length t" using dw_ok_entries [OF ok] t by simp_all
  have off: "unat (of_nat i * ucast (dw_sectors_per_cluster info) * ucast (dw_bytes_per_sector info) :: u32) = i * ?s"
  proof -
    have "(of_nat i * ucast (dw_sectors_per_cluster info) * ucast (dw_bytes_per_sector info) :: u32) = of_nat (i * ?s)"
      using ok by (simp add: dw_ok_def)
    moreover have "i * ?s < 2 ^ LENGTH(32)" using buf by simp
    ultimately show ?thesis by (simp only: unat_of_nat_lt)
  qed
  obtain disk' where d: "write_sector (cluster_sector info c) (ucast (dw_sectors_per_cluster info)) (drop (i * ?s) buf) disk = Some disk'"
      "cluster_data info disk' c = take ?s (drop (i * ?s) buf)" "\<forall>d. in_volume n d \<and> d \<noteq> c \<longrightarrow> cluster_data info disk' d = cluster_data info disk d"
  proof -
    have "?s \<le> length (drop (i * ?s) buf)" using buf(1) by simp
    from write_cluster [OF ok c(1) this, of disk] show ?thesis using that by blast
  qed
  obtain c' where c': "find_free_cluster ?i = Some c'" "in_volume n c'" "t ! unat c' = 0"
    using find_free_cluster_finds [OF ok', of f] free by (auto simp: in_volume_def)
  have lt: "unat c < fat_entries info" "unat c' < fat_entries info" using c(1) c'(2) len by (simp_all add: in_volume_def)
  obtain t1 where t1: "write_cluster_value c' c ?i = Some (with_table info t1)" "length t1 = length t"
      "\<forall>j<fat_entries info. t1 ! j = (if j = unat c then c' else t ! j)"
    using write_cluster_value_all [OF ok', of c c'] lt by auto
  obtain t2 where t2: "write_cluster_value (- 1) c' (with_table info t1) = Some (with_table info t2)" "length t2 = length t1"
      "\<forall>j<fat_entries info. t2 ! j = (if j = unat c' then - 1 else t1 ! j)"
    using write_cluster_value_all [OF dw_ok_with_table [OF ok, of t1], of c' "- 1"] lt t t1(2) by auto
  have "write_step buf i (c, ?i, disk) = Some (c', with_table info t2, disk')"
    using off d(1) c'(1) t1(1) t2(1) lt len c(2) by (simp add: write_step_def Let_def)
  moreover have "c' \<noteq> c" using c(2) c'(3) by auto
  ultimately show ?thesis using c'(2,3) d(2,3) t1(2,3) t2(2,3)
    by (intro exI [of _ c'] exI [of _ t2] exI [of _ disk']) (simp add: chunk_def)
qed

definition chain_inv :: "fat_info \<Rightarrow> nat \<Rightarrow> u8 list \<Rightarrow> host_file \<Rightarrow> u32 \<Rightarrow> nat \<Rightarrow> u32 list \<Rightarrow> u32 list \<Rightarrow> host_file \<Rightarrow> bool" where
  "chain_inv info n buf disk c0 i cs t dk \<longleftrightarrow> length cs = Suc i \<and> distinct cs \<and> cs ! 0 = c0 \<and> length t = length (dw_table info) \<and>
     (\<forall>c\<in>set cs. in_volume n c) \<and> (\<forall>k<i. t ! unat (cs ! k) = cs ! Suc k) \<and> t ! unat (cs ! i) = - 1 \<and>
     (\<forall>k<i. dw_table info ! unat (cs ! Suc k) = 0) \<and> (\<forall>d. in_volume n d \<and> d \<notin> set cs \<longrightarrow> t ! unat d = dw_table info ! unat d) \<and>
     (\<forall>k<i. cluster_data info dk (cs ! k) = chunk info buf k) \<and>
     (\<forall>d. in_volume n d \<and> d \<notin> set cs \<longrightarrow> cluster_data info dk d = cluster_data info disk d)"

lemma chain_free:
  assumes inv: "chain_inv info n buf disk c0 i cs t dk" and f: "i < card {j. 2 \<le> j \<and> j < n \<and> dw_table info ! j = 0}"
    and c0: "dw_table info ! unat c0 \<noteq> 0" and n: "n \<le> 2 ^ 32"
  shows "\<exists>f. 2 \<le> f \<and> f < n \<and> t ! f = 0"
proof -
  let ?F = "{j. 2 \<le> j \<and> j < n \<and> dw_table info ! j = 0}" and ?U = "unat ` set (tl cs)"
  have "cs \<noteq> []" using inv by (auto simp: chain_inv_def)
  have "card ?U \<le> length (tl cs)" by (metis card_image_le card_length finite_set le_trans)
  also have "\<dots> = i" using inv by (simp add: chain_inv_def)
  finally have "card ?U < card ?F" using f by linarith
  then have "\<not> ?F \<subseteq> ?U" using card_mono [of ?U ?F] by (auto simp only: finite_imageI finite_set not_le [symmetric])
  then obtain j where j: "2 \<le> j" "j < n" "dw_table info ! j = 0" "j \<notin> ?U" by blast
  have u: "unat (of_nat j :: u32) = j" using j(2) n by (intro unat_of_nat_lt) simp
  have "(of_nat j :: u32) \<notin> set cs"
  proof
    assume "(of_nat j :: u32) \<in> set cs"
    then have "of_nat j = hd cs \<or> (of_nat j :: u32) \<in> set (tl cs)" using \<open>cs \<noteq> []\<close> by (cases cs) auto
    moreover have "(of_nat j :: u32) \<notin> set (tl cs)" using j(4) u by (metis imageI)
    moreover have "hd cs = c0" using inv \<open>cs \<noteq> []\<close> by (simp add: chain_inv_def hd_conv_nth)
    ultimately show False using u j(3) c0 by metis
  qed
  then have "t ! unat (of_nat j :: u32) = dw_table info ! unat (of_nat j :: u32)" using inv j u unfolding chain_inv_def in_volume_def by metis
  then show ?thesis using j u by auto
qed

lemma chain_inv_step:
  assumes ok: "dw_ok info n" and inv: "chain_inv info n buf disk c0 i cs t dk"
    and f: "i < card {j. 2 \<le> j \<and> j < n \<and> dw_table info ! j = 0}" and c0: "dw_table info ! unat c0 \<noteq> 0"
    and buf: "Suc i * (spc info * 512) \<le> length buf" "length buf < 2 ^ 32"
  shows "\<exists>c' t' dk'. write_step buf i (cs ! i, with_table info t, dk) = Some (c', with_table info t', dk') \<and>
    chain_inv info n buf disk c0 (Suc i) (cs @ [c']) t' dk'"
proof -
  have I: "length cs = Suc i" "distinct cs" "cs ! 0 = c0" "length t = length (dw_table info)" "\<forall>c\<in>set cs. in_volume n c"
    "\<forall>k<i. t ! unat (cs ! k) = cs ! Suc k" "t ! unat (cs ! i) = - 1" "\<forall>k<i. dw_table info ! unat (cs ! Suc k) = 0"
    "\<forall>d. in_volume n d \<and> d \<notin> set cs \<longrightarrow> t ! unat d = dw_table info ! unat d" "\<forall>k<i. cluster_data info dk (cs ! k) = chunk info buf k"
    "\<forall>d. in_volume n d \<and> d \<notin> set cs \<longrightarrow> cluster_data info dk d = cluster_data info disk d"
    using inv unfolding chain_inv_def by blast+
  have "n \<le> 2 ^ 32" using dw_ok_entries [OF ok] by linarith
  then obtain g where g: "2 \<le> g" "g < n" "t ! g = 0" using chain_free [OF inv f c0] by blast
  have ci: "cs ! i \<in> set cs" "in_volume n (cs ! i)" using I(1,5) by simp_all
  obtain c' t' dk' where s: "write_step buf i (cs ! i, with_table info t, dk) = Some (c', with_table info t', dk')" "in_volume n c'" "t ! unat c' = 0" "c' \<noteq> cs ! i"
      "length t' = length t" "\<forall>j<fat_entries info. t' ! j = (if j = unat c' then - 1 else if j = unat (cs ! i) then c' else t ! j)"
      "cluster_data info dk' (cs ! i) = chunk info buf i" "\<forall>d. in_volume n d \<and> d \<noteq> cs ! i \<longrightarrow> cluster_data info dk' d = cluster_data info dk d"
    using write_step_extends [OF ok I(4) ci(2) I(7) g buf, of dk] by blast
  have t': "t' ! unat d = (if d = c' then - 1 else if d = cs ! i then c' else t ! unat d)" if "in_volume n d" for d
    using s(6) that dw_ok_entries(1) [OF ok] unat_inj by (auto simp: in_volume_def)
  have new: "c' \<notin> set cs"
  proof
    assume "c' \<in> set cs"
    then obtain k where k: "k < Suc i" "cs ! k = c'" using I(1) by (metis in_set_conv_nth)
    then have "k < i" using s(4) less_Suc_eq by auto
    then have "cs ! Suc k = 0" using I(6) k(2) s(3) by auto
    moreover have "in_volume n (cs ! Suc k)" using I(1,5) \<open>k < i\<close> by simp
    ultimately show False by (simp add: in_volume_def)
  qed
  have vol: "in_volume n (cs ! k)" if "k < Suc i" for k using I(1,5) that by simp
  have dist: "cs ! k \<noteq> cs ! i" "cs ! k \<noteq> c'" if "k < i" for k
    using I(1,2) that new nth_mem [of k cs] by (auto simp: nth_eq_iff_index_eq)
  have "chain_inv info n buf disk c0 (Suc i) (cs @ [c']) t' dk'"
    unfolding chain_inv_def
  proof (intro conjI allI impI ballI)
    fix k
    assume k: "k < Suc i"
    then consider "k < i" | "k = i" by linarith
    note cases = this
    show "t' ! unat ((cs @ [c']) ! k) = (cs @ [c']) ! Suc k"
      using cases by cases (use t' [OF vol [OF k]] I(1,6) dist s(4) in \<open>auto simp: nth_append\<close>)
    show "dw_table info ! unat ((cs @ [c']) ! Suc k) = 0"
      using cases by cases (use I(1,8,9) s(2,3) new in \<open>auto simp: nth_append\<close>)
    show "cluster_data info dk' ((cs @ [c']) ! k) = chunk info buf k"
      using cases by cases (use I(1,10) s(7,8) vol [OF k] dist in \<open>auto simp: nth_append\<close>)
  next
    fix d
    assume d: "in_volume n d \<and> d \<notin> set (cs @ [c'])"
    then have "d \<noteq> cs ! i" using ci by auto
    then show "t' ! unat d = dw_table info ! unat d" "cluster_data info dk' d = cluster_data info disk d" using t' I(9,11) s(8) d by auto
  qed (use I s(2,5) new t' in \<open>auto simp: nth_append\<close>)
  then show ?thesis using s(1) by blast
qed

text \<open>Reading \<open>k\<close> clusters along the chain.\<close>

primrec read_chain :: "nat \<Rightarrow> fat_info \<Rightarrow> u32 \<Rightarrow> host_file \<Rightarrow> u8 list option" where
  "read_chain 0 info c disk = Some []"
| "read_chain (Suc k) info c disk = do {
     (next, bs) \<leftarrow> read_cluster info c disk;
     rest \<leftarrow> read_chain k info next disk;
     Some (bs @ rest)
   }"

lemma read_cluster_data:
  "unat c < length t \<Longrightarrow> read_cluster (with_table info t) c disk = Some (t ! unat c, cluster_data info disk c)"
  by (simp add: read_cluster_def cluster_data_def)

lemma read_chain_along:
  assumes "\<forall>j<k. unat (cs ! (i + j)) < length t \<and> t ! unat (cs ! (i + j)) = cs ! Suc (i + j) \<and> cluster_data info disk (cs ! (i + j)) = chunk info buf (i + j)"
  shows "read_chain k (with_table info t) (cs ! i) disk = Some (concat (map (chunk info buf) [i..<i + k]))"
  using assms
proof (induction k arbitrary: i)
  case (Suc k)
  have "\<forall>j<k. unat (cs ! (Suc i + j)) < length t \<and> t ! unat (cs ! (Suc i + j)) = cs ! Suc (Suc i + j) \<and> cluster_data info disk (cs ! (Suc i + j)) = chunk info buf (Suc i + j)"
  proof (intro allI impI)
    fix j
    assume "j < k"
    then show "unat (cs ! (Suc i + j)) < length t \<and> t ! unat (cs ! (Suc i + j)) = cs ! Suc (Suc i + j) \<and> cluster_data info disk (cs ! (Suc i + j)) = chunk info buf (Suc i + j)"
      using Suc.prems [rule_format, of "Suc j"] by simp
  qed
  from Suc.IH [OF this] have "read_chain k (with_table info t) (cs ! Suc i) disk = Some (concat (map (chunk info buf) [Suc i..<Suc i + k]))" .
  moreover have "read_cluster (with_table info t) (cs ! i) disk = Some (cs ! Suc i, chunk info buf i)"
    using Suc.prems [rule_format, of 0] read_cluster_data by simp
  moreover have "[i..<i + Suc k] = i # [Suc i..<Suc i + k]" by (simp add: upt_conv_Cons)
  ultimately show ?case by simp
qed simp

lemma chunks_buffer: "length buf = k * (spc info * 512) \<Longrightarrow> concat (map (chunk info buf) [0..<k]) = buf"
proof -
  have "concat (map (chunk info buf) [0..<j]) = take (j * (spc info * 512)) buf" for j
  proof (induction j)
    case (Suc j)
    have "Suc j * (spc info * 512) = j * (spc info * 512) + spc info * 512" by simp
    then show ?case using Suc take_add [of "j * (spc info * 512)" "spc info * 512" buf] by (simp only: chunk_def) (simp add: chunk_def)
  qed simp
  then show "length buf = k * (spc info * 512) \<Longrightarrow> concat (map (chunk info buf) [0..<k]) = buf" by simp
qed

text \<open>The loop: \<open>k\<close> chunks on a chain of \<open>k\<close> clusters, followed by one more cluster.\<close>

lemma write_loop_chain:
  assumes ok: "dw_ok info n" and c: "in_volume n c" "dw_table info ! unat c = - 1"
    and f: "k \<le> card {j. 2 \<le> j \<and> j < n \<and> dw_table info ! j = 0}" and buf: "length buf = k * (spc info * 512)" "length buf < 2 ^ 32"
  shows "\<exists>cs t dk. fold_opt (write_step buf) [0..<k] (c, info, disk) = Some (cs ! k, with_table info t, dk) \<and> chain_inv info n buf disk c k cs t dk"
proof -
  let ?P = "\<lambda>i (cl, inf, dk). \<exists>cs t. cl = cs ! i \<and> inf = with_table info t \<and> chain_inv info n buf disk c i cs t dk"
  have "\<exists>s'. fold_opt (write_step buf) [0..<k] (c, info, disk) = Some s' \<and> ?P k s'"
  proof (rule fold_opt_invariant [where P = ?P])
    have "chain_inv info n buf disk c 0 [c] (dw_table info) disk" using c by (simp add: chain_inv_def)
    then show "?P 0 (c, info, disk)" by (simp, intro exI [of _ "[c]"], simp, intro exI [of _ "dw_table info"], simp)
    fix i s
    assume i: "i < k" and "?P i s"
    then obtain cs t dk where s: "s = (cs ! i, with_table info t, dk)" "chain_inv info n buf disk c i cs t dk" by (cases s) auto
    have "Suc i * (spc info * 512) \<le> length buf" unfolding buf(1) using i by (intro mult_le_mono1) simp
    moreover have "i < card {j. 2 \<le> j \<and> j < n \<and> dw_table info ! j = 0}" "dw_table info ! unat c \<noteq> 0" using i f c(2) by auto
    ultimately obtain c' t' dk' where w: "write_step buf i s = Some (c', with_table info t', dk')" "chain_inv info n buf disk c (Suc i) (cs @ [c']) t' dk'"
      using chain_inv_step [OF ok s(2)] buf(2) unfolding s(1) by blast
    have "length cs = Suc i" using s(2) by (simp add: chain_inv_def)
    then have "c' = (cs @ [c']) ! Suc i" by (simp add: nth_append)
    then have "?P (Suc i) (c', with_table info t', dk')" using w(2) by blast
    then show "\<exists>s'. write_step buf i s = Some s' \<and> ?P (Suc i) s'" using w(1) by blast
  qed
  then show ?thesis by auto
qed

definition clusters_for :: "fat_info \<Rightarrow> nat \<Rightarrow> nat" where
  "clusters_for info len = len div (spc info * 512) + 1"

lemma write_file_sizes:
  assumes ok: "dw_ok info n" and k: "clusters_for info len * (spc info * 512) < 2 ^ 32"
  shows "cluster_bytes info \<noteq> 0" "unat (of_nat len :: u64) = len" "len < clusters_for info len * (spc info * 512)"
    "unat (ucast ((of_nat len :: u64) div ucast (cluster_bytes info)) + 1 :: u32) = clusters_for info len"
    "unat ((ucast ((of_nat len :: u64) div ucast (cluster_bytes info)) + 1) * cluster_bytes info) = clusters_for info len * (spc info * 512)"
proof -
  let ?s = "spc info * 512" and ?k = "clusters_for info len"
  have "spc info < 2 ^ LENGTH(8)" by (rule unsigned_less)
  then have s0: "0 < ?s" "?s \<le> 255 * 512" using ok by (simp_all add: dw_ok_def unat_gt_0)
  have "cluster_bytes info = of_nat ?s" using ok by (simp add: cluster_bytes_def dw_ok_def)
  moreover have "?s < 2 ^ LENGTH(32)" using s0(2) by simp
  ultimately have cb: "unat (cluster_bytes info) = ?s" by (simp only: unat_of_nat_lt)
  then show "cluster_bytes info \<noteq> 0" using s0(1) by auto
  have "len mod ?s < ?s" using s0(1) by (rule mod_less_divisor)
  then show len: "len < ?k * ?s" using div_mult_mod_eq [of len ?s] unfolding clusters_for_def distrib_right by linarith
  then show u: "unat (of_nat len :: u64) = len" using k by (simp add: unat_of_nat_lt)
  have "?k * 1 \<le> ?k * ?s" using s0(1) by (intro mult_le_mono2) linarith
  then have k32: "?k < 2 ^ 32" using k by linarith
  have "unat ((of_nat len :: u64) div ucast (cluster_bytes info)) = len div ?s" using u cb by (simp add: unat_div unat_ucast_up)
  then have "unat (ucast ((of_nat len :: u64) div ucast (cluster_bytes info)) :: u32) = len div ?s"
    using k32 by (subst unat_ucast_fits) (simp_all add: clusters_for_def)
  then show c: "unat (ucast ((of_nat len :: u64) div ucast (cluster_bytes info)) + 1 :: u32) = ?k"
    using k32 unat_add_lt [of "ucast ((of_nat len :: u64) div ucast (cluster_bytes info)) :: u32" 1] by (simp add: clusters_for_def)
  show "unat ((ucast ((of_nat len :: u64) div ucast (cluster_bytes info)) + 1) * cluster_bytes info) = ?k * ?s"
    using k unat_mult_lt [of "ucast ((of_nat len :: u64) div ucast (cluster_bytes info)) + 1 :: u32" "cluster_bytes info"] unfolding c cb by simp
qed

text \<open>
  C15. A file that the image builder writes can be read back: following the chain from its first cluster yields its bytes; and no other
  cluster in use loses its data or its link, as long as there are enough free clusters.
\<close>

theorem write_file_read_back:
  assumes ok: "dw_ok info n" and c: "in_volume n c" "dw_table info ! unat c = - 1"
    and room: "clusters_for info (length data) \<le> card {j. 2 \<le> j \<and> j < n \<and> dw_table info ! j = 0}"
      "clusters_for info (length data) * (spc info * 512) < 2 ^ 32"
  shows "\<exists>r info' disk' bs. write_file (Some c) data (of_nat (length data)) info disk = Some (r, info', disk') \<and>
    read_chain (clusters_for info (length data)) info' c disk' = Some bs \<and> take (length data) bs = data \<and>
    (\<forall>d. in_volume n d \<and> d \<noteq> c \<and> dw_table info ! unat d \<noteq> 0 \<longrightarrow> read_cluster info' d disk' = read_cluster info d disk)"
proof -
  let ?k = "clusters_for info (length data)" and ?s = "spc info * 512"
  note sz = write_file_sizes [OF ok room(2)]
  define buf where "buf = data @ replicate (?k * ?s - length data) 0"
  have buf: "length buf = ?k * ?s" using sz(3) by (simp add: buf_def)
  obtain cs t dk where loop: "fold_opt (write_step buf) [0..<?k] (c, info, disk) = Some (cs ! ?k, with_table info t, dk)"
      and inv: "chain_inv info n buf disk c ?k cs t dk"
    using write_loop_chain [OF ok c room(1) buf, of disk] room(2) unfolding buf by blast
  have I: "length cs = Suc ?k" "cs ! 0 = c" "length t = length (dw_table info)" "\<forall>c\<in>set cs. in_volume n c" "\<forall>i<?k. t ! unat (cs ! i) = cs ! Suc i"
      "t ! unat (cs ! ?k) = - 1" "\<forall>i<?k. dw_table info ! unat (cs ! Suc i) = 0" "\<forall>d. in_volume n d \<and> d \<notin> set cs \<longrightarrow> t ! unat d = dw_table info ! unat d"
      "\<forall>i<?k. cluster_data info dk (cs ! i) = chunk info buf i" "\<forall>d. in_volume n d \<and> d \<notin> set cs \<longrightarrow> cluster_data info dk d = cluster_data info disk d"
    using inv unfolding chain_inv_def by blast+
  have vol: "unat d < fat_entries info" "unat d < length t" if "in_volume n d" for d
    using that dw_ok_entries [OF ok] I(3) by (simp_all add: in_volume_def)
  have last: "in_volume n (cs ! ?k)" using I(1,4) by simp
  obtain t' where t': "write_cluster_value (- 1) (cs ! ?k) (with_table info t) = Some (with_table info t')" "length t' = length t"
      "\<forall>j<fat_entries info. t' ! j = (if j = unat (cs ! ?k) then - 1 else t ! j)"
    using write_cluster_value_all [OF dw_ok_with_table [OF ok I(3)], of "cs ! ?k" "- 1"] vol [OF last] by auto
  have same: "t' ! unat d = t ! unat d" if "in_volume n d" for d using t'(3) vol(1) [OF that] I(6) by metis
  have "write_file (Some c) data (of_nat (length data)) info disk =
      Some (ucast (of_nat (length data) * ucast (dw_bytes_per_sector info) * ucast (dw_sectors_per_cluster info) :: u64), with_table info t', dk)"
    using sz loop t'(1) unfolding write_file_def by (simp add: Let_def buf_def)
  moreover have "read_chain ?k (with_table info t') c dk = Some buf"
  proof -
    have "\<forall>j<?k. unat (cs ! (0 + j)) < length t' \<and> t' ! unat (cs ! (0 + j)) = cs ! Suc (0 + j) \<and> cluster_data info dk (cs ! (0 + j)) = chunk info buf (0 + j)"
      using I(1,4,5,9) vol(2) same t'(2) by simp
    from read_chain_along [OF this] show ?thesis unfolding I(2) using chunks_buffer [OF buf] by simp
  qed
  moreover have "read_cluster (with_table info t') d dk = read_cluster info d disk" if d: "in_volume n d" "d \<noteq> c" "dw_table info ! unat d \<noteq> 0" for d
  proof -
    have "d \<notin> set cs"
    proof
      assume "d \<in> set cs"
      then obtain i where i: "i < Suc ?k" "d = cs ! i" using I(1) by (metis in_set_conv_nth)
      then show False using d(2,3) I(2,7) by (cases i) auto
    qed
    then show ?thesis using d(1) I(3,8,10) same vol(2) t'(2) read_cluster_data [of d t' info dk] read_cluster_data [of d "dw_table info" info disk] by simp
  qed
  moreover have "take (length data) buf = data" by (simp add: buf_def)
  ultimately show ?thesis by blast
qed

text \<open>A volume of one table with 128 entries and clusters of one sector: cluster 5 begins a file, the ones behind it are free.\<close>

definition dw_example :: fat_info where
  "dw_example = \<lparr>bpb_bytes = (put32 44 2 (put32 36 1 (put32 32 100 (replicate 90 0))))[12 := 2, 13 := 1, 14 := 1, 16 := 1],
     dw_table = replicate 6 (- 1) @ replicate 122 0, file_table_size_sectors = 1\<rparr>"

lemma dw_example_ok: "dw_ok dw_example 100"
proof -
  have "dw_bytes_per_sector dw_example = 512" "dw_sectors_per_cluster dw_example = 1" "dw_fat_count dw_example = 1" "dw_large_sector_count dw_example = 100"
    "dw_sectors_per_fat dw_example = 1" "dw_reserved_sectors dw_example = 1" "dw_partition_start dw_example = 0"
    by code_simp+
  then show ?thesis by (simp add: dw_ok_def) (simp add: dw_example_def)
qed

theorem write_file_read_back_witness:
  "\<exists>r info' disk' bs. write_file (Some 5) [104, 105] 2 dw_example [] = Some (r, info', disk') \<and>
     read_chain 1 info' 5 disk' = Some bs \<and> take 2 bs = [104, 105]"
proof -
  have s: "dw_sectors_per_cluster dw_example = 1" by code_simp
  then have k: "clusters_for dw_example (length [104, 105 :: u8]) = 1" by (simp add: clusters_for_def)
  have "dw_table dw_example ! j = 0" if "j < 100" "6 \<le> j" for j using that by (simp add: dw_example_def nth_append)
  then have "{6} \<subseteq> {j. 2 \<le> j \<and> j < 100 \<and> dw_table dw_example ! j = 0}" by simp
  then have "1 \<le> card {j. 2 \<le> j \<and> j < 100 \<and> dw_table dw_example ! j = 0}" using card_mono [of "{j. 2 \<le> j \<and> j < 100 \<and> dw_table dw_example ! j = 0}" "{6}"] by simp
  then have "\<exists>r info' disk' bs. write_file (Some 5) [104, 105] (of_nat (length [104, 105 :: u8])) dw_example [] = Some (r, info', disk') \<and>
      read_chain (clusters_for dw_example (length [104, 105 :: u8])) info' 5 disk' = Some bs \<and> take (length [104, 105 :: u8]) bs = [104, 105] \<and>
      (\<forall>d. in_volume 100 d \<and> d \<noteq> 5 \<and> dw_table dw_example ! unat d \<noteq> 0 \<longrightarrow> read_cluster info' d disk' = read_cluster dw_example d [])"
    by (intro write_file_read_back [OF dw_example_ok]) (simp_all only: k s, simp_all add: in_volume_def dw_example_def nth_append)
  then show ?thesis unfolding k by (auto simp: numeral_2_eq_2)
qed

text \<open>The repair of a missing sector size gives 1, not 512.\<close>

lemma repair_sector_size: "dw_le16 (repair_bpb (replicate 90 0)) 11 = 1"
  by code_simp

end
