(* ===== verification/PartitionDisk.thy ===== *)
theory PartitionDisk
  imports FatTable Partition
begin

text \<open>
  A partition as a disk: the file of a partition, read and written by \<^verbatim>\<open>read_part\<close> and \<^verbatim>\<open>write_part\<close>, keeps
  the contract \<open>mounted_disk\<close> whenever the file of the whole disk does.  So everything shown of a FAT32
  volume holds for a volume on a partition, on a partition of a file in memory, and so on.
\<close>

definition part_entry :: "u32 \<Rightarrow> ('h, 'b) fat_state_scheme \<Rightarrow> partent_t" where
  "part_entry pf s = partents s (f_private (the (vfiles s pf)))"

definition part_base :: "u32 \<Rightarrow> u32 \<Rightarrow> ('h, 'b) fat_state_scheme \<Rightarrow> nat" where
  "part_base pf par s = unat (start_lba (part_entry pf s)) * unat (block_size_bytes (the (vfiles s par)))"

definition part_disk ::
    "(('h, 'b) fat_state_scheme \<Rightarrow> nat \<Rightarrow> u8) \<Rightarrow> u32 \<Rightarrow> u32 \<Rightarrow> ('h, 'b) fat_state_scheme \<Rightarrow> nat \<Rightarrow> u8" where
  "part_disk disk pf par s k = disk s (part_base pf par s + k)"

definition part_size :: "u32 \<Rightarrow> ('h, 'b) fat_state_scheme \<Rightarrow> nat" where
  "part_size pf s = unat (part_sectors (part_entry pf s)) * 512"

text \<open>A partition of the disk \<open>par\<close> that lies inside it and below the limits of the 32-bit arithmetic.
  \<open>fops\<close> are the file operations its user calls, \<open>fops0\<close> those the partition manager calls on the disk.\<close>

definition part_ok ::
    "(u32 \<Rightarrow> ('h, 'b) fat_state_scheme fileops_t) \<Rightarrow> (u32 \<Rightarrow> ('h, 'b) fat_state_scheme fileops_t) \<Rightarrow>
     (('h, 'b) fat_state_scheme \<Rightarrow> nat) \<Rightarrow> (('h, 'b) fat_state_scheme \<Rightarrow> bool) \<Rightarrow> u32 \<Rightarrow> u32 \<Rightarrow> ('h, 'b) fat_state_scheme \<Rightarrow> bool" where
  "part_ok fops fops0 dsize ok pf par s \<longleftrightarrow> ok s \<and> pf \<noteq> 0 \<and> par \<noteq> 0 \<and>
     (case (vfiles s pf, vfiles s par) of
        (Some v, Some pv) \<Rightarrow> f_ops v \<noteq> 0 \<and> op_read (fops (f_ops v)) = Some (read_part fops0) \<and>
          op_write (fops (f_ops v)) = Some (write_part fops0) \<and> ref_parent s (f_id v) = par \<and>
          f_ops pv \<noteq> 0 \<and> op_read (fops0 (f_ops pv)) \<noteq> None \<and> op_write (fops0 (f_ops pv)) \<noteq> None
      | _ \<Rightarrow> False) \<and>
     unat (start_lba (part_entry pf s)) + part_size pf s < 2 ^ 32 \<and> part_base pf par s < 2 ^ 32 \<and>
     part_base pf par s + part_size pf s \<le> dsize s"

lemma part_okE:
  assumes "part_ok fops fops0 dsize ok pf par s"
  obtains v pv f g where "vfiles s pf = Some v" "vfiles s par = Some pv" "f_ops v \<noteq> 0" "f_ops pv \<noteq> 0"
    "op_read (fops (f_ops v)) = Some (read_part fops0)" "op_write (fops (f_ops v)) = Some (write_part fops0)"
    "ref_parent s (f_id v) = par" "op_read (fops0 (f_ops pv)) = Some f" "op_write (fops0 (f_ops pv)) = Some g"
  using assms by (auto simp: part_ok_def split: option.splits)

lemma part_offset:
  assumes ok: "part_ok fops fops0 dsize ok pf par s" and n: "unat off + unat n \<le> part_size pf s"
  defines "p \<equiv> part_entry pf s"
  defines "o1 \<equiv> off + ucast (start_lba p * ucast (block_size_bytes (the (vfiles s par))))"
  shows "\<not> beyond_partition p off n" "unat o1 = part_base pf par s + unat off"
proof -
  have lim: "unat (start_lba p) + unat (part_sectors p) * 512 < 2 ^ 32" "part_base pf par s < 2 ^ 32"
    using ok by (simp_all add: part_ok_def p_def part_size_def)
  have sz: "unat off + unat n \<le> unat (part_sectors p) * 512" using n by (simp add: part_size_def p_def)
  have "unat (part_sectors p * 512) = unat (part_sectors p) * 512" using lim by (subst unat_mult_lt) simp_all
  then have "unat (start_lba p + part_sectors p * 512) = unat (start_lba p) + unat (part_sectors p) * 512"
    using lim by (subst unat_add_lt) simp_all
  moreover have "unat (n + off) = unat n + unat off" using sz lim by (subst unat_add_lt) simp_all
  ultimately show "\<not> beyond_partition p off n"
    using sz by (simp add: beyond_partition_def word_less_nat_alt unat_ucast_up)
  have "unat (start_lba p * ucast (block_size_bytes (the (vfiles s par)))) = part_base pf par s"
    using lim(2) by (subst unat_mult_lt) (simp_all add: part_base_def p_def unat_ucast_up)
  then show "unat o1 = part_base pf par s + unat off"
    unfolding o1_def using lim sz by (subst unat_add_lt) (simp_all add: unat_ucast_up)
qed

text \<open>Reading and writing through the partition is reading and writing the disk, shifted.\<close>

lemma part_read_write:
  assumes ok: "part_ok fops fops0 dsize ok pf par s" and n: "buf \<noteq> 0" "0 < n" "unat off + unat n \<le> part_size pf s"
  defines "o1 \<equiv> off + ucast (start_lba (part_entry pf s) * ucast (block_size_bytes (the (vfiles s par))))"
  shows "fread fops0 par buf o1 n s = Some (r, s') \<Longrightarrow> fread fops pf buf off n s = Some (0, s')"
    and "fwrite fops0 par buf o1 n s = Some (r, s') \<Longrightarrow> fwrite fops pf buf off n s = Some (0, s')"
proof -
  obtain v pv f g where v: "vfiles s pf = Some v" "vfiles s par = Some pv" "f_ops v \<noteq> 0" "f_ops pv \<noteq> 0"
    "op_read (fops (f_ops v)) = Some (read_part fops0)" "op_write (fops (f_ops v)) = Some (write_part fops0)"
    "ref_parent s (f_id v) = par" "op_read (fops0 (f_ops pv)) = Some f" "op_write (fops0 (f_ops pv)) = Some g"
    using ok by (rule part_okE)
  have nb: "\<not> beyond_partition (partents s (f_private v)) off n"
    using part_offset(1) [OF ok n(3)] v(1) by (simp add: part_entry_def)
  have z: "pf \<noteq> 0" "par \<noteq> 0" "n \<noteq> 0" using ok n(2) by (auto simp: part_ok_def)
  note d = fread_def fwrite_def read_part_def write_part_def o1_def part_entry_def
  show "fread fops pf buf off n s = Some (0, s')" if "fread fops0 par buf o1 n s = Some (r, s')"
    using that v nb z n(1) by (simp add: d Let_def)
  show "fwrite fops pf buf off n s = Some (0, s')" if "fwrite fops0 par buf o1 n s = Some (r, s')"
    using that v nb z n(1) by (simp add: d Let_def)
qed


lemma part_stays:
  assumes s: "part_ok fops fops0 dsize ok pf par s" and s': "ok s'" "dsize s' = dsize s"
    and same: "vfiles s' pf = vfiles s pf" "vfiles s' par = vfiles s par" "ref_parent s' = ref_parent s" "partents s' = partents s"
  shows "part_ok fops fops0 dsize ok pf par s'" "part_base pf par s' = part_base pf par s" "part_size pf s' = part_size pf s"
proof -
  show eq: "part_base pf par s' = part_base pf par s" "part_size pf s' = part_size pf s"
    using same by (simp_all add: part_base_def part_size_def part_entry_def)
  have "part_entry pf s' = part_entry pf s" using same by (simp add: part_entry_def)
  then show "part_ok fops fops0 dsize ok pf par s'"
    using s s' eq same by (simp add: part_ok_def split: option.splits)
qed

lemma part_keeps:
  assumes "part_ok fops fops0 dsize ok pf par s" "keeps s s'" "ok s'" "dsize s' = dsize s"
  shows "part_ok fops fops0 dsize ok pf par s'" "part_base pf par s' = part_base pf par s" "part_size pf s' = part_size pf s"
  using part_stays [OF assms(1,3,4)] assms(2) by (simp_all add: keeps_def)

lemma part_shift:
  fixes b x k n :: nat
  shows "b + x \<le> b + k \<and> b + k < b + x + n \<longleftrightarrow> x \<le> k \<and> k < x + n" by simp

definition part_target :: "u32 \<Rightarrow> u32 \<Rightarrow> u64 \<Rightarrow> ('h, 'b) fat_state_scheme \<Rightarrow> u64" where
  "part_target pf par off s =
     off + ucast (start_lba (part_entry pf s) * ucast (block_size_bytes (the (vfiles s par))))"

lemma part_target_fits:
  fixes n :: u64
  assumes ok: "part_ok fops fops0 dsize ok pf par s" and n: "unat off + unat n \<le> part_size pf s"
  shows "unat (part_target pf par off s) = part_base pf par s + unat off" "ok s"
    and "unat (part_target pf par off s) + unat n \<le> dsize s"
proof -
  show eq: "unat (part_target pf par off s) = part_base pf par s + unat off"
    unfolding part_target_def by (rule part_offset(2) [OF ok n])
  show "ok s" "unat (part_target pf par off s) + unat n \<le> dsize s" using ok n by (auto simp: part_ok_def eq)
qed

lemma part_write_target:
  fixes s :: "('h, 'b) fat_state_scheme"
  assumes disk: "mounted_disk fops0 par disk dsize owned ok" and p: "part_ok fops fops0 dsize ok pf par s"
    and buf: "buf \<noteq> 0" "0 < n" "mapped (fmem s) buf (unat n)" "\<forall>i<unat n. \<not> owned s (buf + of_nat i)"
    and fit: "unat off + unat n \<le> part_size pf s"
  shows "\<exists>r s'. fwrite fops0 par buf (part_target pf par off s) n s = Some (r, s') \<and> keeps s s' \<and> ok s' \<and>
    disk s' = (\<lambda>k. if part_base pf par s + unat off \<le> k \<and> k < part_base pf par s + unat off + unat n
      then the (fmem s (buf + of_nat (k - (part_base pf par s + unat off)))) else disk s k) \<and>
    dsize s' = dsize s \<and> owned s' = owned s \<and> (\<forall>a. \<not> owned s a \<longrightarrow> fmem s' a = fmem s a)"
proof -
  note t = part_target_fits [OF p fit]
  have lim: "unat n < 2 ^ 32" using p fit by (simp add: part_ok_def)
  show ?thesis using mounted_disk.write_law [OF disk t(2) buf(1,2) lim t(3) buf(3,4)] by (simp only: t(1))
qed

lemma partition_mounted_disk:
  assumes "mounted_disk fops0 par disk dsize owned ok"
  shows "mounted_disk fops pf (part_disk disk pf par) (part_size pf) owned (part_ok fops fops0 dsize ok pf par)"
proof (unfold_locales, goal_cases)
  case (1 s buf n off)
  note t = part_target_fits [OF 1(1,5)]
  obtain r s' where s': "fread fops0 par buf (part_target pf par off s) n s = Some (r, s')" "keeps s s'" "ok s'"
      "disk s' = disk s" "dsize s' = dsize s" "owned s' = owned s"
      "\<forall>a. \<not> owned s a \<longrightarrow>
         fmem s' a = overlay buf (unat n) (\<lambda>i. disk s (unat (part_target pf par off s) + i)) (fmem s) a"
    using mounted_disk.read_law [OF assms t(2) 1(2-4) t(3) 1(6,7)] by (elim exE conjE) (rule that)
  note k = part_keeps [OF 1(1) s'(2,3,5)]
  have d: "part_disk disk pf par s' = part_disk disk pf par s" by (simp add: part_disk_def fun_eq_iff k(2) s'(4))
  have "fread fops pf buf off n s = Some (0, s')"
    using part_read_write(1) [OF 1(1-3,5)] s'(1) by (simp add: part_target_def)
  then show ?case using s'(2,6,7) k d by (intro exI [of _ 0] exI [of _ s']) (simp add: part_disk_def t(1) add.assoc)
next
  case (2 s buf n off)
  obtain r s' where s': "fwrite fops0 par buf (part_target pf par off s) n s = Some (r, s')" "keeps s s'" "ok s'"
      "disk s' = (\<lambda>k. if part_base pf par s + unat off \<le> k \<and> k < part_base pf par s + unat off + unat n
        then the (fmem s (buf + of_nat (k - (part_base pf par s + unat off)))) else disk s k)"
      "dsize s' = dsize s" "owned s' = owned s" "\<forall>a. \<not> owned s a \<longrightarrow> fmem s' a = fmem s a"
    using part_write_target [OF assms 2(1-3,6,7,5)] by (elim exE conjE) (rule that)
  note k = part_keeps [OF 2(1) s'(2,3,5)]
  have "fwrite fops pf buf off n s = Some (0, s')"
    using part_read_write(2) [OF 2(1-3,5)] s'(1) by (simp add: part_target_def)
  moreover have "part_disk disk pf par s' = (\<lambda>k. if unat off \<le> k \<and> k < unat off + unat n
      then the (fmem s (buf + of_nat (k - unat off))) else part_disk disk pf par s k)"
    by (simp add: part_disk_def fun_eq_iff k(2) s'(4) part_shift del: of_nat_add of_nat_diff)
  ultimately show ?case using s'(2,6,7) k by (intro exI [of _ 0] exI [of _ s']) simp
next
  case (3 s s')
  obtain v where v: "vfiles s pf = Some v" "ref_parent s (f_id v) = par" using 3(1) by (rule part_okE) blast
  have same: "vfiles s' par = vfiles s par" "ref_parent s' = ref_parent s" "partents s' = partents s"
    using 3(3) v(2) by (auto simp: same_devices_def)
  have "ok s" using 3(1) by (simp add: part_ok_def)
  from mounted_disk.stable [OF assms this same(1) 3(3,4)]
  have p: "ok s'" "disk s' = disk s" "dsize s' = dsize s" "owned s' = owned s" by simp_all
  note k = part_stays [OF 3(1) p(1,3) 3(2) same]
  show ?case using k p by (simp add: part_disk_def fun_eq_iff)
qed

interpretation ram_part: mounted_disk fops pf "part_disk (ram_disk par) pf par" "part_size pf" "ram_owned par"
  "part_ok fops fops0 (ram_size par) (ram_ok alloc free fops0 par) pf par"
  for fops fops0 :: "u32 \<Rightarrow> ('h, 'b) fat_state_scheme fileops_t" and pf par and alloc :: "'h allocator" and free
  by (rule partition_mounted_disk [OF ram.mounted_disk_axioms])

text \<open>
  C6. Partitions are isolated.  Suppose the file of a disk keeps the contract of a disk.  A write of bytes that
  fit into a partition returns, puts them on the disk at the start of the partition plus the offset and changes
  no other byte of the disk; so a partition that shares no byte with the first reads the same as before.
\<close>

theorem partition_write_isolated:
  fixes s :: "('h, 'b) fat_state_scheme"
  assumes disk: "mounted_disk fops0 par disk dsize owned ok" and p: "part_ok fops fops0 dsize ok pf par s"
    and buf: "buf \<noteq> 0" "0 < n" "mapped (fmem s) buf (unat n)" "\<forall>i<unat n. \<not> owned s (buf + of_nat i)"
    and fit: "unat off + unat n \<le> part_size pf s"
  shows "\<exists>r s'. fwrite fops pf buf off n s = Some (r, s') \<and> part_ok fops fops0 dsize ok pf par s' \<and>
    (\<forall>k<unat n. disk s' (part_base pf par s + unat off + k) = the (fmem s (buf + of_nat k))) \<and>
    (\<forall>k. k < part_base pf par s + unat off \<or> part_base pf par s + unat off + unat n \<le> k \<longrightarrow> disk s' k = disk s k) \<and>
    (\<forall>pf2 fops2 k. part_ok fops2 fops0 dsize ok pf2 par s \<longrightarrow> k < part_size pf2 s \<longrightarrow>
       part_base pf2 par s + part_size pf2 s \<le> part_base pf par s \<or>
       part_base pf par s + part_size pf s \<le> part_base pf2 par s \<longrightarrow>
       part_disk disk pf2 par s' k = part_disk disk pf2 par s k)"
proof -
  obtain r s' where s': "fwrite fops0 par buf (part_target pf par off s) n s = Some (r, s')" "keeps s s'" "ok s'"
      "disk s' = (\<lambda>k. if part_base pf par s + unat off \<le> k \<and> k < part_base pf par s + unat off + unat n
        then the (fmem s (buf + of_nat (k - (part_base pf par s + unat off)))) else disk s k)" "dsize s' = dsize s"
    using part_write_target [OF disk p buf fit] by blast
  have w: "fwrite fops pf buf off n s = Some (0, s')"
    using part_read_write(2) [OF p buf(1,2) fit] s'(1) by (simp add: part_target_def)
  have b: "part_base pf2 par s' = part_base pf2 par s" for pf2
    using s'(2) by (simp add: keeps_def part_base_def part_entry_def)
  show ?thesis
    by (intro exI [of _ 0] exI [of _ s']) (use fit w part_keeps(1) [OF p s'(2,3,5)] in \<open>auto simp: s'(4) part_disk_def b\<close>)
qed

text \<open>A partition of 100 sectors from sector 100 on the file in memory of \<open>fat_example\<close>.\<close>

definition part_example_ops :: "u32 \<Rightarrow> mm_state fat_state fileops_t" where
  "part_example_ops = fat_example_ops(0x600 := part_fileops fat_example_ops)"

definition part_example :: "mm_state fat_state" where
  "part_example = fat_example\<lparr>vfiles := (vfiles fat_example)(0x500 \<mapsto> zero_vfile\<lparr>f_private := 0x700, f_ops := 0x600\<rparr>),
     ref_parent := (\<lambda>_. 0x100), partents := (\<lambda>_. zero_partent\<lparr>start_lba := 100, part_sectors := 100\<rparr>)\<rparr>"

lemma part_example_ok:
  "part_ok part_example_ops fat_example_ops (ram_size 0x100) (ram_ok kmalloc kfree fat_example_ops 0x100) 0x500 0x100 part_example"
proof -
  have "mapped (fmem part_example) p n" for p n
    by (simp add: mapped_def part_example_def fat_example_def fat_mem_def)
  then show ?thesis
    by (simp add: part_ok_def ram_ok_def part_size_def part_base_def part_entry_def ram_size_def)
      (simp add: part_example_def fat_example_def zero_vfile_def part_example_ops_def fat_example_ops_def
        part_fileops_def ramfs_fileops_def)
qed

lemma partition_write_isolated_witness:
  "\<exists>r s'. fwrite part_example_ops 0x500 0x200008 8 4 part_example = Some (r, s') \<and>
     ram_disk 0x100 s' 51208 = 3 \<and> ram_disk 0x100 s' 51211 = 0 \<and> ram_disk 0x100 s' 51207 = ram_disk 0x100 part_example 51207"
proof -
  have sz: "part_size 0x500 part_example = 51200" "part_base 0x500 0x100 part_example = 51200"
    by (simp_all add: part_size_def part_base_def part_entry_def part_example_def fat_example_def)
  have "mapped (fmem part_example) p n" for p n
    by (simp add: mapped_def part_example_def fat_example_def fat_mem_def)
  moreover have "\<forall>i<unat (4::u64). \<not> ram_owned 0x100 part_example (0x200008 + of_nat i)"
    using apart_far [of "0x40000" "0x200008" "0x100000" 4]
    by (simp add: apart_def ram_owned_def part_example_def fat_example_def)
  ultimately obtain r s' where w: "fwrite part_example_ops 0x500 0x200008 8 4 part_example = Some (r, s')"
      "\<forall>k<4. ram_disk 0x100 s' (51208 + k) = the (fmem part_example (0x200008 + of_nat k))"
      "\<forall>k. k < 51208 \<or> 51212 \<le> k \<longrightarrow> ram_disk 0x100 s' k = ram_disk 0x100 part_example k"
    using partition_write_isolated [OF ram.mounted_disk_axioms part_example_ok, where buf = "0x200008" and n = 4 and off = 8] sz by auto
  have "ram_disk 0x100 s' (51208 + 0) = 3" "ram_disk 0x100 s' (51208 + 3) = 0"
    using spec [OF w(2), of 0] spec [OF w(2), of 3] by (simp_all add: part_example_def fat_example_def fat_mem_def)
  then show ?thesis using w(1) w(3) by (intro exI [of _ r] exI [of _ s']) simp
qed

end
