(* ===== verification/Spec2Isabelle.thy ===== *)
theory Spec2Isabelle
  imports AtaRead Panic DiskWrite PartitionDisk
begin

text \<open>
  \<^bold>\<open>A verification development for Kimi's OS\<close>, a modular kernel in C for 32-bit x86 machines, and for the program of the host that builds
  its disk image.

  \<^bold>\<open>The program.\<close>  The boot loader enters \<^verbatim>\<open>kmain\<close> (\<^verbatim>\<open>src/kernel/kmain.c\<close>) with the memory map of the firmware.  \<^verbatim>\<open>kmain\<close> sets up the frames, the
  page tables and the kernel heap (\<^verbatim>\<open>arch_i386/memory.c\<close>), the descriptor tables and the interrupt controllers (\<^verbatim>\<open>arch_i386/interrupts.c\<close>,
  \<^verbatim>\<open>drivers/pic.c\<close>), the file system in memory below the virtual file system (\<^verbatim>\<open>system/ramfs.c\<close>, \<^verbatim>\<open>system/vfs.c\<close>) and the scheduler
  (\<^verbatim>\<open>system/scheduler.c\<close>), and starts two threads.  One of them, \<^verbatim>\<open>sysinit\<close>, makes a file of each PCI device (\<^verbatim>\<open>drivers/pci.c\<close>), unpacks the
  initial RAM disk (\<^verbatim>\<open>drivers/ustar.c\<close>) and runs the script in it (\<^verbatim>\<open>system/intirc.c\<close>), which loads modules (\<^verbatim>\<open>system/elf.c\<close>,
  \<^verbatim>\<open>system/modules.c\<close>).  The modules are the disk driver, the partition manager and the FAT32 driver (\<^verbatim>\<open>src/kmodules\<close>).  They call the kernel
  through one function, \<^verbatim>\<open>module_api\<close>, and answer messages: a disk is announced to the partition manager, a partition is mounted by
  the file system.  A read of a file on a disk thus goes through the virtual file system, the FAT32 driver and the partition to the
  disk driver, which programs the bus master of the controller and is woken by its interrupt.

  \<^bold>\<open>Conventions.\<close>
  \<^item> Machine integers are words of their width; \<open>+\<close> wraps as in the source.
  \<^item> The state of a component is a record with the variables of its source file; a component that uses another extends its
    record, so that an operation of the lower component applies to the state of the upper one.  The file components have the
    state of the page allocator in the field \<open>pages_st\<close> and the bytes of the kernel's memory in \<open>fmem\<close>.
  \<^item> An operation gives \<^const>\<open>None\<close> where the source faults, reads outside an array, uses a value that was never written, or does not
    return.  A result of the source, an error code included, is a value.  Loops that need not end are \<open>partial_function (option)\<close>; their
    properties state that they return.  There is no fuel in the development: the loops that count are \<open>fun\<close>, \<open>function\<close> with a measure, or
    \<open>fold_opt\<close> over the list of indices.
  \<^item> What is not C code of the repository is a parameter: the answers of devices as functions of the history of port accesses
    (\<open>io_device\<close>), the choices of the linker (\<open>boot_params\<close>, \<open>literals\<close>), what other processes do while a process waits (\<open>yield\<close>), the code
    behind a function pointer (\<open>fops\<close>, \<open>call\<close>, \<open>run\<close>, \<open>handlers\<close>) and the old contents of a frame (\<open>frame\<close>).

  \<^bold>\<open>Memory.\<close>
  \<^item> \<open>Prelude\<close>: words, loops that can fail, lemmas on lists and words, the collections \<open>word_nat\<close> and \<open>lock_defs\<close>.
  \<^item> \<open>Spinlock\<close> (\<^verbatim>\<open>shared/spinlock.h\<close>): the lock as a sequential operation and as a step relation of any number of threads.  In every
    reachable interleaving at most one thread is inside.  The locale \<open>lock_contract\<close> has the interpretation \<open>spin\<close>.
  \<^item> \<open>Phys\<close>: the bitmap of frames.  \<^verbatim>\<open>pm_alloc\<close> returns the lowest free frame and marks it; over any sequence of operations it never reports
    that memory is exhausted while a frame is free.  The locale \<open>frame_allocator\<close> has the interpretation \<open>pm\<close>.
  \<^item> \<open>Heap\<close>: the map of half bytes, first fit, and its abstraction \<open>heap_rep\<close> as a partial function from first pages to lengths.  The locale
    \<open>block_allocator\<close> has the interpretations \<open>kheap\<close> (the heap alone) and, in \<open>Paging\<close>, \<open>kmem\<close> (\<^verbatim>\<open>kmalloc\<close> and \<^verbatim>\<open>kfree\<close>).
  \<^item> \<open>Paging\<close>: loads and stores through the two-level tables with the recursive entry, so that \<^verbatim>\<open>map\<close> edits tables by storing at virtual
    addresses as the source does.  After \<^verbatim>\<open>map\<close> the page has the frame and no other page changes; \<^verbatim>\<open>kmalloc\<close> maps fresh frames at the lowest
    gap; \<^verbatim>\<open>kfree\<close> returns exactly them.
  \<^item> \<open>KMem\<close>: \<^verbatim>\<open>pm_init\<close> from the memory map, \<^verbatim>\<open>heap_init\<close>, and the operations on other address spaces.

  \<^bold>\<open>Processes and interrupts.\<close>
  \<^item> \<open>Scheduler\<close>: process table, run queue, \<^verbatim>\<open>schedule\<close>, \<^verbatim>\<open>fork\<close>, \<^verbatim>\<open>kill\<close>, threads.  The locale \<open>pid_queue\<close> with its interpretation \<open>run_queue\<close> says that the
    queue is a set of numbers; every queued process runs again within a bounded number of ticks; every reachable queue is
    well-formed.
  \<^item> \<open>Interrupts\<close>: gates, task segment, dispatching, the system call, the timer.  A timer interrupt returns the register block of the next process.
  \<^item> \<open>Panic\<close>: the report of an exception, \<^verbatim>\<open>kernel_panic\<close>, messages of system calls.

  \<^bold>\<open>Library.\<close>
  \<^item> \<open>KStrings\<close> (\<^verbatim>\<open>system/string.c\<close>), \<open>KVector\<close> (\<^verbatim>\<open>shared/kstdlib.c\<close>), \<open>Serial\<close> (\<^verbatim>\<open>drivers/serial.c\<close>): strings in byte memory against lists, the round trip of
    \<^verbatim>\<open>itoa\<close> and \<^verbatim>\<open>atoi\<close>, a vector whose growth loop does not end, and \<^verbatim>\<open>printf\<close> against the text its format describes.

  \<^bold>\<open>Files.\<close>
  \<^item> \<open>RamFS\<close>, \<open>Vfs\<close>: files and directories in memory, path resolution against the inductive relation \<open>walks\<close>, the round trips of write and
    read and of create and open.  The locale \<open>page_source\<close> extends \<open>block_allocator\<close>; its interpretation \<open>kpages\<close> is on \<^verbatim>\<open>kmalloc\<close> and \<^verbatim>\<open>kfree\<close>.
  \<^item> \<open>Partition\<close>, \<open>PartitionDisk\<close> (\<^verbatim>\<open>partition_mgr.c\<close>): the check of the partition table, and the partition as a disk inside a disk: a write
    through it changes no byte of another partition.
  \<^item> \<open>FatTable\<close>, \<open>FatFile\<close>, \<open>FatWrite\<close>, \<open>FatDir\<close>, \<open>FatMount\<close>, \<open>FatCreate\<close> (\<^verbatim>\<open>fs_driver.c\<close>): the cache of the allocation table is transparent; reading returns the
    bytes along the chain; the chain grows at its end; directories are loaded and searched; names that are created are read back.
    The locale \<open>mounted_disk\<close> says what the driver relies on, with the interpretations \<open>ram\<close> (a file in memory) and
    \<open>ram_part\<close> (a partition of one).
  \<^item> \<open>DiskWrite\<close> (\<^verbatim>\<open>tools/diskwrite.c\<close>): a file written into the image is read back along its chain, and the other clusters are unchanged.

  \<^bold>\<open>Modules and devices.\<close>
  \<^item> \<open>Modules\<close>, \<open>Elf\<close>: the calls of \<^verbatim>\<open>module_api\<close>, messages reach the first module that accepts them, segments of a file are loaded.
  \<^item> \<open>Ata\<close>, \<open>AtaDisk\<close>, \<open>AtaRead\<close> (\<^verbatim>\<open>disk_driver.c\<close>): the model, the descriptor table and the task file of a transfer with its interrupt, and reading of
    any length.
  \<^item> \<open>Pci\<close>, \<open>Ustar\<close>, \<open>Initrc\<close> (also \<^verbatim>\<open>shared/config.c\<close> and \<^verbatim>\<open>exec\<close>): configuration space, unpacking, the script.
  \<^item> \<open>Boot\<close>: the start of the drivers, \<^verbatim>\<open>sysinit\<close> and \<^verbatim>\<open>kmain\<close>.

  \<^bold>\<open>Hypotheses.\<close>  The theorems hold for all states with the named invariants (\<open>pm_ready\<close>, \<open>wf_mm\<close>, \<open>mm_ok\<close>, \<open>kheap_ready\<close>, \<open>sched_inv\<close>, \<open>dir_entries\<close>,
  \<open>dw_ok\<close> and others), which the theories show to be established by initialisation or kept by the operations, and each theorem is
  applied to a concrete state.  Where the code is wrong outside a range (overflow of 32-bit byte offsets, names that are too long, the
  unaligned start of a disk access), the range is a hypothesis and a lemma shows the deviation.

  \<^bold>\<open>Not modelled.\<close>
  \<^item> The assembler files: boot loader, entry stubs, loading of \<^verbatim>\<open>cr3\<close> and enabling of paging beyond the assignment to \<open>cr3\<close>, the switch to
    user mode at the end of \<^verbatim>\<open>exec\<close>.
  \<^item> The endless loops in which \<^verbatim>\<open>kmain\<close>, \<^verbatim>\<open>sysinit\<close>, \<^verbatim>\<open>_isr_handler\<close> and the idle process stay.
  \<^item> Log messages, except in \<open>Serial\<close> and \<open>Panic\<close>; the messages of the image builder.
  \<^item> Interrupts inside an operation, except for locks (\<open>Spinlock\<close>) and the waits of the disk driver (\<open>yield\<close>).
  \<^item> \<^verbatim>\<open>system/devices.c\<close>, \<^verbatim>\<open>system/ipc.c\<close> and \<^verbatim>\<open>system/ipc.h\<close>, which are empty, and \<^verbatim>\<open>system/devices.h\<close>, whose declarations nothing uses.
\<close>

end
